(* ===== verification/Prelude.thy ===== *)
theory Prelude
  imports Main "HOL-Library.Word"
begin

text \<open>
  Shared vocabulary of the development: the machine integer types, results with an
  error component, the collections of proof rules and the generic facts about lists,
  options and words that the component theories use.
\<close>

section \<open>Machine integers\<close>

type_synonym u8 = "8 word"
type_synonym u16 = "16 word"
type_synonym u32 = "32 word"
type_synonym u64 = "64 word"
type_synonym byte = "8 word"

section \<open>Results with an error component\<close>

text \<open>
  An abort, an exception or an error return is the left component. \<open>bindE\<close> sequences
  two fallible computations; the first error wins.
\<close>

fun bindE :: "'e + 'a \<Rightarrow> ('a \<Rightarrow> 'e + 'b) \<Rightarrow> 'e + 'b" where
  "bindE (Inl e) f = Inl e"
| "bindE (Inr a) f = f a"

lemma bindE_Inr_iff [simp]: "bindE m f = Inr b \<longleftrightarrow> (\<exists>a. m = Inr a \<and> f a = Inr b)"
  by (cases m) auto

lemma bindE_Inl_iff: "bindE m f = Inl e \<longleftrightarrow> m = Inl e \<or> (\<exists>a. m = Inr a \<and> f a = Inl e)"
  by (cases m) auto

lemma bindE_assoc: "bindE (bindE m f) g = bindE m (\<lambda>a. bindE (f a) g)"
  by (cases m) auto

lemma bindE_Inr_right [simp]: "bindE m Inr = m"
  by (cases m) auto

text \<open>
  The aborts of a checked build of the C++ headers: a failed \<^verbatim>\<open>RTC_DCHECK\<close> or \<^verbatim>\<open>RTC_CHECK\<close>, a
  signed operation whose result its type cannot hold, an access outside an array, a shift by at least
  the width of its operand, a division by zero, an allocation that fails, a read of a value that was
  never written, an object constructed over a live one or destroyed when it is not alive.
\<close>

datatype abort =
    CheckFailed | SignedOverflow | OutOfBounds | BadShift | DivByZero | OutOfMemory | UninitRead | BadLifetime

definition check :: "bool \<Rightarrow> abort + 'a \<Rightarrow> abort + 'a" where
  "check b k = (if b then k else Inl CheckFailed)"

lemma check_Inr_iff [simp]: "check b k = Inr x \<longleftrightarrow> b \<and> k = Inr x"
  by (simp add: check_def)

lemma check_simps [simp]: "check True k = k" "check False k = Inl CheckFailed"
  by (simp_all add: check_def)

definition in_i64 :: "int \<Rightarrow> bool" where
  "in_i64 z \<longleftrightarrow> - (2 ^ 63) \<le> z \<and> z < 2 ^ 63"

text \<open>The result of a signed 64-bit operation.\<close>

definition i64 :: "int \<Rightarrow> abort + int" where
  "i64 z = (if in_i64 z then Inr z else Inl SignedOverflow)"

lemma i64_Inr_iff [simp]: "i64 z = Inr y \<longleftrightarrow> in_i64 z \<and> y = z"
  by (auto simp: i64_def)

section \<open>Rule collections\<close>

named_theorems server_defs \<open>definitions of the signaling server\<close>
named_theorems client_defs \<open>definitions of the transfer client\<close>
named_theorems view_defs \<open>definitions of the view controllers\<close>
named_theorems step_inv \<open>preservation of an invariant by one operation\<close>

section \<open>Lists\<close>

lemma take_add_drop: "take n xs @ take m (drop n xs) = take (n + m) xs"
  by (simp add: take_add)

lemma take_min_rest [simp]: "take (min (length xs - g) n) (drop g xs) = take n (drop g xs)"
  by (cases "n \<le> length xs - g") simp_all

lemma length_take_le: "length (take n xs) \<le> n"
  by simp

lemma filter_eq_singletonI:
  "distinct xs \<Longrightarrow> x \<in> set xs \<Longrightarrow> filter ((=) x) xs = [x]"
  by (induction xs) (auto simp: filter_empty_conv)

section \<open>Integers\<close>

lemma mod_near:
  fixes z m :: int
  shows "0 \<le> z \<Longrightarrow> z < m \<Longrightarrow> z mod m = z"
    and "m \<le> z \<Longrightarrow> z < 2 * m \<Longrightarrow> z mod m = z - m"
    and "- m \<le> z \<Longrightarrow> z < 0 \<Longrightarrow> z mod m = z + m"
proof -
  show "m \<le> z \<Longrightarrow> z < 2 * m \<Longrightarrow> z mod m = z - m"
    using minus_mod_self2 [of z m] mod_pos_pos_trivial [of "z - m" m] by linarith
  show "- m \<le> z \<Longrightarrow> z < 0 \<Longrightarrow> z mod m = z + m"
    using mod_add_self2 [of z m] mod_pos_pos_trivial [of "z + m" m] by linarith
qed (rule mod_pos_pos_trivial)

lemma mod_add_residue:
  fixes x r m :: int
  assumes "0 \<le> x" "x < m" "0 \<le> r" "r < m"
  shows "(x + r) mod m = (if m - r > x then x - (m - r) + m else x - (m - r))"
  using assms mod_near(1,2) [of "x + r" m] mod_near(2) [where z = "x + r" and m = m] by auto

lemma mod_diff_residue:
  fixes x r m :: int
  assumes "0 \<le> x" "x < m" "0 \<le> r" "r < m"
  shows "(x - r) mod m = (if x < r then x - r + m else x - r)"
  using assms mod_near(1) [of "x - r" m] mod_near(3) [of m "x - r"] by auto

section \<open>Words\<close>

lemma unat_of_nat_u64 [simp]: "n < 2 ^ 64 \<Longrightarrow> unat (of_nat n :: u64) = n"
  by (simp add: unat_of_nat)

lemma unat_add_of_nat_u64:
  "unat (w :: u64) + n < 2 ^ 64 \<Longrightarrow> unat (w + of_nat n) = unat w + n"
  by (simp add: unat_word_ariths(1) unat_of_nat)

lemma even_uint: "even (uint w) = even w" for w :: "'a::len word"
  by transfer (simp add: even_take_bit_eq)

lemma pow_half: "2 * 2 ^ (LENGTH('a::len) - 1) = (2 :: int) ^ LENGTH('a)"
  by (simp flip: power_Suc)

text \<open>The middle of an unsigned range, as C computes it.\<close>

lemma uint_drop_bit_1: "uint (drop_bit 1 w) = uint w div 2" for w :: "'a::len word"
  by (simp only: unsigned_drop_bit_eq) (simp add: drop_bit_eq_div take_bit_int_eq_self)

lemma uint_minus_1: "uint (- 1 :: 'a::len word) = 2 ^ LENGTH('a) - 1"
  by (simp add: unsigned_minus_1_eq_mask mask_eq_exp_minus_1)

lemma uint_half_range: "uint (drop_bit 1 (- 1 :: 'a::len word) + 1) = 2 ^ (LENGTH('a) - 1)"
proof -
  obtain n where n: "LENGTH('a) = Suc n" using not0_implies_Suc len_not_eq_0 by blast
  have "uint (drop_bit 1 (- 1 :: 'a word)) = 2 ^ (LENGTH('a) - 1) - 1"
    unfolding uint_drop_bit_1 uint_minus_1 by (simp add: n)
  then have "uint (drop_bit 1 (- 1 :: 'a word) + 1) = 2 ^ (LENGTH('a) - 1) mod 2 ^ LENGTH('a)"
    unfolding uint_word_ariths by (simp add: mod_simps)
  also have "\<dots> = 2 ^ (LENGTH('a) - 1)" by (simp add: n mod_pos_pos_trivial)
  finally show ?thesis .
qed

section \<open>Safety of a transition system\<close>

text \<open>
  The contract of a state machine that keeps an invariant: it holds initially and every step
  keeps it. The signaling server and the transfer between two clients are instances.
\<close>

locale safe_system =
  fixes init :: "'s \<Rightarrow> bool"
    and step :: "'s \<Rightarrow> 's \<Rightarrow> bool"
    and inv :: "'s \<Rightarrow> bool"
  assumes inv_init: "init s \<Longrightarrow> inv s"
    and inv_step: "step s t \<Longrightarrow> inv s \<Longrightarrow> inv t"
begin

lemma inv_run: "step\<^sup>*\<^sup>* s t \<Longrightarrow> inv s \<Longrightarrow> inv t"
  by (induction rule: rtranclp_induct) (auto intro: inv_step)

lemma inv_reachable: "init s \<Longrightarrow> step\<^sup>*\<^sup>* s t \<Longrightarrow> inv t"
  by (rule inv_run) (auto intro: inv_init)

end

end
