(* ===== verification/Json.thy ===== *)
theory Json
  imports Prelude
begin

text \<open>
  JSON values as both sides of the signaling protocol see them: the server through
  \<^verbatim>\<open>JSON.parse\<close> (property reads give \<open>undefined\<close> where there is no such property) and
  the client through \<^verbatim>\<open>NSJSONSerialization\<close> (a missing key of a dictionary is nil, a
  JSON null is the object \<^verbatim>\<open>NSNull\<close>). Numbers are integers: the protocol writes no
  others. A parsed object holds each key once.
\<close>

datatype json =
    JNull
  | JBool bool
  | JNum int
  | JStr string
  | JArr "json list"
  | JObj "(string \<times> json) list"

section \<open>JavaScript reads\<close>

definition js_get :: "json \<Rightarrow> string \<Rightarrow> json option" where
  "js_get v k = (case v of JObj kvs \<Rightarrow> map_of kvs k | _ \<Rightarrow> None)"

fun truthy :: "json option \<Rightarrow> bool" where
  "truthy None = False"
| "truthy (Some JNull) = False"
| "truthy (Some (JBool b)) = b"
| "truthy (Some (JNum n)) = (n \<noteq> 0)"
| "truthy (Some (JStr s)) = (s \<noteq> '''')"
| "truthy (Some (JArr _)) = True"
| "truthy (Some (JObj _)) = True"

section \<open>Foundation reads\<close>

fun is_dict :: "json \<Rightarrow> bool" where
  "is_dict (JObj _) = True"
| "is_dict _ = False"

text \<open>\<^verbatim>\<open>[x isKindOfClass:[NSString class]] ? x : d\<close>\<close>

fun str_or :: "json option \<Rightarrow> string \<Rightarrow> string" where
  "str_or (Some (JStr s)) d = s"
| "str_or _ d = d"

lemma str_or_cases: "str_or v d = s \<Longrightarrow> v = Some (JStr s) \<or> s = d"
  by (cases v rule: option.exhaust; simp) (metis json.exhaust str_or.simps)

lemma js_get_JObj [simp]: "js_get (JObj kvs) k = map_of kvs k"
  by (simp add: js_get_def)

end
