(* ===== verification/Signaling_Server.thy ===== *)
theory Signaling_Server
  imports Json
begin

text \<open>
  The signaling server, \<^verbatim>\<open>signaling-server.js\<close>. A connected socket is an object with
  identity (a number) kept in \<open>conns\<close>; \<open>clientsByIP\<close> is the server's insertion-ordered
  \<^verbatim>\<open>Map\<close>; \<open>timers\<close> are the pending 200 ms callbacks of accepted pair requests in the
  order they were armed; \<open>outbox\<close> is everything the server wrote, oldest first.
  The handlers are run by one event loop, so each is one step.
\<close>

section \<open>State\<close>

datatype ready_state = CONNECTING | OPEN | CLOSING | CLOSED

record ws_conn =
  clientIP :: string
  pairPartner :: "nat option"
  readyState :: ready_state

record server =
  conns :: "nat \<Rightarrow> ws_conn option"
  clientsByIP :: "(string \<times> nat) list"
  timers :: "(nat \<times> nat) list"
  outbox :: "(nat \<times> json) list"

definition server_init :: server where
  "server_init = \<lparr>conns = (\<lambda>_. None), clientsByIP = [], timers = [], outbox = []\<rparr>"

section \<open>JavaScript Map and socket primitives\<close>

fun map_set :: "'k \<Rightarrow> 'v \<Rightarrow> ('k \<times> 'v) list \<Rightarrow> ('k \<times> 'v) list" where
  "map_set k v [] = [(k, v)]"
| "map_set k v (p # ps) = (if fst p = k then (k, v) # ps else p # map_set k v ps)"

definition map_delete :: "'k \<Rightarrow> ('k \<times> 'v) list \<Rightarrow> ('k \<times> 'v) list" where
  "map_delete k ps = filter (\<lambda>p. fst p \<noteq> k) ps"

definition upd_conn :: "nat \<Rightarrow> (ws_conn \<Rightarrow> ws_conn) \<Rightarrow> server \<Rightarrow> server" where
  "upd_conn i f s = s\<lparr>conns := (conns s)(i := map_option f (conns s i))\<rparr>"

definition is_open :: "server \<Rightarrow> nat \<Rightarrow> bool" where
  "is_open s i \<longleftrightarrow> (case conns s i of Some c \<Rightarrow> readyState c = OPEN | None \<Rightarrow> False)"

definition partner_of :: "server \<Rightarrow> nat \<Rightarrow> nat option" where
  "partner_of s i = (case conns s i of Some c \<Rightarrow> pairPartner c | None \<Rightarrow> None)"

definition ip_of :: "server \<Rightarrow> nat \<Rightarrow> string" where
  "ip_of s i = (case conns s i of Some c \<Rightarrow> clientIP c | None \<Rightarrow> '''')"

text \<open>\<^verbatim>\<open>WebSocket.send\<close>: a socket that is not open drops the data.\<close>

definition ws_send :: "nat \<Rightarrow> json \<Rightarrow> server \<Rightarrow> server" where
  "ws_send i m s = (if is_open s i then s\<lparr>outbox := outbox s @ [(i, m)]\<rparr> else s)"

section \<open>Peer lists\<close>

definition buildPeerListFor :: "nat \<Rightarrow> server \<Rightarrow> json list" where
  "buildPeerListFor w s =
     map (\<lambda>(peerKey, peerWs). JObj [(''ip'', JStr peerKey), (''name'', JStr peerKey)])
       (filter (\<lambda>(peerKey, peerWs). peerWs \<noteq> w \<and> is_open s peerWs) (clientsByIP s))"

definition sendPeerList :: "nat \<Rightarrow> server \<Rightarrow> server" where
  "sendPeerList w s =
     (if \<not> is_open s w then s
      else ws_send w (JObj [(''type'', JStr ''peers''), (''peers'', JArr (buildPeerListFor w s))]) s)"

definition broadcastPeerLists :: "server \<Rightarrow> server" where
  "broadcastPeerLists s = fold sendPeerList (map snd (clientsByIP s)) s"

section \<open>Connection handler\<close>

fun string_of_nat :: "nat \<Rightarrow> string" where
  "string_of_nat n =
     (if n < 10 then [char_of (48 + n)] else string_of_nat (n div 10) @ [char_of (48 + n mod 10)])"

declare string_of_nat.simps [simp del]

definition client_key :: "string option \<Rightarrow> nat option \<Rightarrow> string" where
  "client_key remoteAddress remotePort =
     (let addr = (case remoteAddress of Some a \<Rightarrow> (if a = '''' then ''unknown'' else a) | None \<Rightarrow> ''unknown'');
          port = (case remotePort of Some p \<Rightarrow> p | None \<Rightarrow> 0)
      in if port \<noteq> 0 then addr @ '':'' @ string_of_nat port else addr)"

definition on_connection :: "nat \<Rightarrow> string option \<Rightarrow> nat option \<Rightarrow> server \<Rightarrow> server" where
  "on_connection w remoteAddress remotePort s =
     (let key = client_key remoteAddress remotePort;
          s1 = s\<lparr>conns := (conns s)(w \<mapsto> \<lparr>clientIP = key, pairPartner = None, readyState = OPEN\<rparr>)\<rparr>;
          s2 = s1\<lparr>clientsByIP := map_set key w (clientsByIP s1)\<rparr>
      in broadcastPeerLists s2)"

section \<open>Message handler\<close>

definition error_msg :: "string \<Rightarrow> json" where
  "error_msg reason = JObj [(''type'', JStr ''error''), (''reason'', JStr reason)]"

definition lookup_target :: "json option \<Rightarrow> server \<Rightarrow> nat option" where
  "lookup_target targetIP s =
     (case targetIP of Some (JStr k) \<Rightarrow> map_of (clientsByIP s) k | _ \<Rightarrow> None)"

definition pair_request :: "nat \<Rightarrow> json option \<Rightarrow> server \<Rightarrow> server" where
  "pair_request w targetIP s =
     (case lookup_target targetIP s of
        None \<Rightarrow> ws_send w (error_msg ''target_not_found'') s
      | Some t \<Rightarrow>
          if \<not> truthy targetIP \<or> t = w then ws_send w (error_msg ''target_not_found'') s
          else if partner_of s w \<noteq> None \<or> partner_of s t \<noteq> None
          then ws_send w (error_msg ''busy'') s
          else
            (let s1 = upd_conn w (\<lambda>c. c\<lparr>pairPartner := Some t\<rparr>) s;
                 s2 = upd_conn t (\<lambda>c. c\<lparr>pairPartner := Some w\<rparr>) s1;
                 s3 = ws_send w (JObj [(''type'', JStr ''role''), (''role'', JStr ''offerer''),
                                       (''selfIP'', JStr (ip_of s2 w))]) s2;
                 s4 = ws_send t (JObj [(''type'', JStr ''role''), (''role'', JStr ''answerer''),
                                       (''selfIP'', JStr (ip_of s3 t)),
                                       (''peerIP'', JStr (ip_of s3 w))]) s3
             in s4\<lparr>timers := timers s4 @ [(w, t)]\<rparr>))"

definition relay :: "nat \<Rightarrow> json \<Rightarrow> string \<Rightarrow> server \<Rightarrow> server" where
  "relay w p ty s =
     (case partner_of s w of
        None \<Rightarrow> s
      | Some t \<Rightarrow>
          if \<not> is_open s t then s
          else if ty = ''peer_left'' then s
          else ws_send t p s)"

text \<open>The raw frame is given as the result of \<^verbatim>\<open>JSON.parse\<close>: \<open>None\<close> where it throws.\<close>

definition on_message :: "nat \<Rightarrow> json option \<Rightarrow> server \<Rightarrow> server" where
  "on_message w raw s =
     (case raw of
        None \<Rightarrow> s
      | Some p \<Rightarrow>
          (case js_get p ''type'' of
             Some (JStr ty) \<Rightarrow>
               if ty = ''pair_request'' then pair_request w (js_get p ''targetIP'') s
               else if ty = ''list_peers'' then sendPeerList w s
               else relay w p ty s
           | _ \<Rightarrow> s))"

section \<open>Timer and close handler\<close>

definition on_timeout :: "nat \<times> nat \<Rightarrow> server \<Rightarrow> server" where
  "on_timeout wt s =
     (if is_open s (fst wt)
      then ws_send (fst wt) (JObj [(''type'', JStr ''peer_joined''), (''peerIP'', JStr (ip_of s (snd wt)))]) s
      else s)"

definition on_close :: "nat \<Rightarrow> server \<Rightarrow> server" where
  "on_close w s0 =
     (let s = upd_conn w (\<lambda>c. c\<lparr>readyState := CLOSED\<rparr>) s0;
          partner = partner_of s w;
          s1 = upd_conn w (\<lambda>c. c\<lparr>pairPartner := None\<rparr>) s;
          s2 = (if map_of (clientsByIP s1) (ip_of s1 w) = Some w
                then s1\<lparr>clientsByIP := map_delete (ip_of s1 w) (clientsByIP s1)\<rparr> else s1);
          s3 = (case partner of
                  Some t \<Rightarrow>
                    if is_open s2 t
                    then ws_send t (JObj [(''type'', JStr ''peer_left'')])
                           (upd_conn t (\<lambda>c. c\<lparr>pairPartner := None\<rparr>) s2)
                    else s2
                | None \<Rightarrow> s2)
      in broadcastPeerLists s3)"

section \<open>Steps\<close>

text \<open>
  The event loop: a new socket, a frame on a socket that is not closed yet, the socket
  layer starting the closing handshake, its close event, and the oldest timer.
\<close>

inductive server_step :: "server \<Rightarrow> server \<Rightarrow> bool" where
  connect: "conns s w = None \<Longrightarrow> server_step s (on_connection w addr port s)"
| message: "conns s w = Some c \<Longrightarrow> readyState c \<noteq> CLOSED \<Longrightarrow> server_step s (on_message w raw s)"
| closing: "conns s w = Some c \<Longrightarrow> readyState c = OPEN \<Longrightarrow>
     server_step s (upd_conn w (\<lambda>c. c\<lparr>readyState := CLOSING\<rparr>) s)"
| closed: "conns s w = Some c \<Longrightarrow> readyState c \<noteq> CLOSED \<Longrightarrow> server_step s (on_close w s)"
| timeout: "timers s = wt # rest \<Longrightarrow> server_step s (on_timeout wt (s\<lparr>timers := rest\<rparr>))"

inductive server_reachable :: "server \<Rightarrow> bool" where
  start: "server_reachable server_init"
| step: "server_reachable s \<Longrightarrow> server_step s t \<Longrightarrow> server_reachable t"


inductive_cases server_step_cases: "server_step s t"

section \<open>Frame facts\<close>

text \<open>Writing to sockets changes nothing but the outbox, and only appends to it.\<close>

lemma ws_send_frame [simp]:
  "conns (ws_send i m s) = conns s" "clientsByIP (ws_send i m s) = clientsByIP s"
  "timers (ws_send i m s) = timers s"
  by (simp_all add: ws_send_def)

lemma is_open_ws_send [simp]: "is_open (ws_send i m s) j = is_open s j"
  by (simp add: is_open_def)

lemma partner_of_ws_send [simp]: "partner_of (ws_send i m s) j = partner_of s j"
  by (simp add: partner_of_def)

lemma ip_of_ws_send [simp]: "ip_of (ws_send i m s) j = ip_of s j"
  by (simp add: ip_of_def)

lemma sendPeerList_frame [simp]:
  "conns (sendPeerList i s) = conns s" "clientsByIP (sendPeerList i s) = clientsByIP s"
  "timers (sendPeerList i s) = timers s"
  by (simp_all add: sendPeerList_def)

lemma fold_sendPeerList_frame [simp]:
  "conns (fold sendPeerList ws s) = conns s"
  "clientsByIP (fold sendPeerList ws s) = clientsByIP s"
  "timers (fold sendPeerList ws s) = timers s"
  by (induction ws arbitrary: s) simp_all

lemma broadcastPeerLists_frame [simp]:
  "conns (broadcastPeerLists s) = conns s"
  "clientsByIP (broadcastPeerLists s) = clientsByIP s"
  "timers (broadcastPeerLists s) = timers s"
  by (simp_all add: broadcastPeerLists_def)

lemma is_open_cong: "conns s = conns t \<Longrightarrow> is_open s i = is_open t i"
  by (simp add: is_open_def)

text \<open>What has been written stays written.\<close>

lemma ws_send_keeps: "x \<in> set (outbox s) \<Longrightarrow> x \<in> set (outbox (ws_send i m s))"
  by (simp add: ws_send_def)

lemma fold_send_keeps: "x \<in> set (outbox s) \<Longrightarrow> x \<in> set (outbox (fold sendPeerList ws s))"
  by (induction ws arbitrary: s) (simp_all add: sendPeerList_def ws_send_keeps)

lemma broadcast_keeps: "x \<in> set (outbox s) \<Longrightarrow> x \<in> set (outbox (broadcastPeerLists s))"
  by (simp add: broadcastPeerLists_def fold_send_keeps)

section \<open>The insertion-ordered map\<close>

lemma map_of_map_set: "map_of (map_set k v ps) = (map_of ps)(k \<mapsto> v)"
  by (induction ps) auto

lemma keys_map_set: "set (map fst (map_set k v ps)) = insert k (set (map fst ps))"
  by (induction ps) auto

lemma distinct_map_set: "distinct (map fst ps) \<Longrightarrow> distinct (map fst (map_set k v ps))"
proof (induction ps)
  case (Cons p ps)
  then show ?case
    using keys_map_set [of k v ps] by (auto simp del: set_map)
qed simp

lemma set_map_set_subset: "set (map_set k v ps) \<subseteq> insert (k, v) (set ps)"
  by (induction ps) auto

lemma map_of_map_delete: "map_of (map_delete k ps) = (map_of ps)(k := None)"
  by (induction ps) (auto simp: map_delete_def)

lemma distinct_map_delete: "distinct (map fst ps) \<Longrightarrow> distinct (map fst (map_delete k ps))"
  by (simp add: map_delete_def distinct_map_filter)

section \<open>Invariant\<close>

text \<open>
  The pairing links: a socket is never its own partner, a closed socket has no partner,
  and a link is answered by the opposite link, except that a closing socket may still
  point at one that has closed. The map lists live sockets under their own key, once.
\<close>

definition link_ok :: "(nat \<Rightarrow> ws_conn option) \<Rightarrow> nat \<Rightarrow> ws_conn \<Rightarrow> bool" where
  "link_ok cs i c \<longleftrightarrow>
     readyState c \<noteq> CONNECTING \<and>
     (case pairPartner c of
        None \<Rightarrow> True
      | Some j \<Rightarrow> i \<noteq> j \<and> readyState c \<noteq> CLOSED \<and>
          (\<exists>d. cs j = Some d \<and>
             (pairPartner d = Some i \<or> readyState d = CLOSED \<and> readyState c \<noteq> OPEN)))"

definition listed_ok :: "(nat \<Rightarrow> ws_conn option) \<Rightarrow> (string \<times> nat) list \<Rightarrow> bool" where
  "listed_ok cs ps \<longleftrightarrow>
     distinct (map fst ps) \<and>
     (\<forall>k j. (k, j) \<in> set ps \<longrightarrow> (\<exists>d. cs j = Some d \<and> readyState d \<noteq> CLOSED \<and> clientIP d = k))"

definition server_inv :: "server \<Rightarrow> bool" where
  "server_inv s \<longleftrightarrow>
     (\<forall>i c. conns s i = Some c \<longrightarrow> link_ok (conns s) i c) \<and> listed_ok (conns s) (clientsByIP s)"

lemma listed_okD:
  "listed_ok cs ps \<Longrightarrow> (k, j) \<in> set ps \<Longrightarrow>
   \<exists>d. cs j = Some d \<and> readyState d \<noteq> CLOSED \<and> clientIP d = k"
  by (simp add: listed_ok_def)

lemma server_inv_listed: "server_inv s \<Longrightarrow> listed_ok (conns s) (clientsByIP s)"
  by (simp add: server_inv_def)

lemma server_invI:
  "(\<And>i c. conns s i = Some c \<Longrightarrow> link_ok (conns s) i c) \<Longrightarrow> listed_ok (conns s) (clientsByIP s)
   \<Longrightarrow> server_inv s"
  by (simp add: server_inv_def)

lemma server_inv_init: "server_inv server_init"
  by (simp add: server_inv_def server_init_def listed_ok_def)

lemma server_inv_frame:
  "conns t = conns s \<Longrightarrow> clientsByIP t = clientsByIP s \<Longrightarrow> server_inv s \<Longrightarrow> server_inv t"
  by (simp add: server_inv_def)

lemma server_inv_link:
  "server_inv s \<Longrightarrow> conns s i = Some c \<Longrightarrow> pairPartner c = Some j \<Longrightarrow>
   i \<noteq> j \<and> readyState c \<noteq> CLOSED \<and>
   (\<exists>d. conns s j = Some d \<and> (pairPartner d = Some i \<or> readyState d = CLOSED \<and> readyState c \<noteq> OPEN))"
  by (force simp: server_inv_def link_ok_def)

lemma link_ok_mono:
  assumes "link_ok cs i c"
    and "\<And>j d. pairPartner c = Some j \<Longrightarrow> cs j = Some d \<Longrightarrow>
           \<exists>d'. cs' j = Some d' \<and> pairPartner d' = pairPartner d \<and> (readyState d = CLOSED \<longrightarrow> readyState d' = CLOSED)"
  shows "link_ok cs' i c"
  using assms by (fastforce simp: link_ok_def split: option.splits)

lemma on_connection_inv [step_inv]:
  assumes inv: "server_inv s" and new: "conns s w = None"
  shows "server_inv (on_connection w addr port s)"
proof -
  let ?key = "client_key addr port"
  let ?c = "\<lparr>clientIP = ?key, pairPartner = None, readyState = OPEN\<rparr>"
  let ?cs = "(conns s)(w \<mapsto> ?c)"
  have links: "link_ok ?cs i c" if "?cs i = Some c" for i c
  proof (cases "i = w")
    case True
    with that show ?thesis by (auto simp: link_ok_def)
  next
    case False
    with that inv have "link_ok (conns s) i c" by (simp add: server_inv_def)
    then show ?thesis
      by (rule link_ok_mono) (use new in auto)
  qed
  have listed: "listed_ok ?cs (map_set ?key w (clientsByIP s))"
    unfolding listed_ok_def
  proof (intro conjI allI impI)
    show "distinct (map fst (map_set ?key w (clientsByIP s)))"
      using inv by (simp add: server_inv_def listed_ok_def distinct_map_set)
    fix k j assume "(k, j) \<in> set (map_set ?key w (clientsByIP s))"
    then have "k = ?key \<and> j = w \<or> (k, j) \<in> set (clientsByIP s)"
      using set_map_set_subset [of ?key w "clientsByIP s"] by auto
    then show "\<exists>d. ?cs j = Some d \<and> readyState d \<noteq> CLOSED \<and> clientIP d = k"
      using inv new by (fastforce simp: server_inv_def listed_ok_def)
  qed
  show ?thesis
    using links listed by (simp add: server_inv_def on_connection_def Let_def)
qed

lemma closing_inv [step_inv]:
  assumes inv: "server_inv s" and c: "conns s w = Some c" and "readyState c = OPEN"
  shows "server_inv (upd_conn w (\<lambda>c. c\<lparr>readyState := CLOSING\<rparr>) s)"
proof (rule server_invI)
  let ?t = "upd_conn w (\<lambda>c. c\<lparr>readyState := CLOSING\<rparr>) s"
  fix i d assume d: "conns ?t i = Some d"
  obtain d0 where d0: "conns s i = Some d0" "pairPartner d = pairPartner d0"
     "readyState d = (if i = w then CLOSING else readyState d0)"
    using d c by (auto simp: upd_conn_def split: if_splits)
  with inv have "link_ok (conns s) i d0" by (simp add: server_inv_def)
  then show "link_ok (conns ?t) i d"
    using c assms(3) d0 by (fastforce simp: link_ok_def upd_conn_def split: option.splits)
next
  show "listed_ok (conns (upd_conn w (\<lambda>c. c\<lparr>readyState := CLOSING\<rparr>) s))
          (clientsByIP (upd_conn w (\<lambda>c. c\<lparr>readyState := CLOSING\<rparr>) s))"
    using inv c by (fastforce simp: server_inv_def listed_ok_def upd_conn_def)
qed

lemma listed_ok_same_state:
  assumes "listed_ok cs ps"
    and "\<And>j d. cs j = Some d \<Longrightarrow> readyState d \<noteq> CLOSED \<Longrightarrow> (\<exists>k. (k, j) \<in> set ps) \<Longrightarrow>
           \<exists>d'. cs' j = Some d' \<and> readyState d' \<noteq> CLOSED \<and> clientIP d' = clientIP d"
  shows "listed_ok cs' ps"
  using assms by (fastforce simp: listed_ok_def)

lemma lookup_target_listed:
  assumes "server_inv s" and "lookup_target ip s = Some t"
  shows "\<exists>d. conns s t = Some d \<and> readyState d \<noteq> CLOSED"
proof -
  from assms(2) obtain k where "map_of (clientsByIP s) k = Some t"
    by (auto simp: lookup_target_def split: option.splits json.splits)
  then have "(k, t) \<in> set (clientsByIP s)" by (rule map_of_SomeD)
  from listed_okD [OF server_inv_listed [OF assms(1)] this] show ?thesis by blast
qed

text \<open>Two unpaired live sockets may be linked to each other.\<close>

lemma link_pair_inv:
  assumes inv: "server_inv s" and "w \<noteq> t"
    and c: "conns s w = Some c" "readyState c \<noteq> CLOSED" "pairPartner c = None"
    and d: "conns s t = Some d" "readyState d \<noteq> CLOSED" "pairPartner d = None"
    and cs: "cs = (conns s)(w \<mapsto> c\<lparr>pairPartner := Some t\<rparr>, t \<mapsto> d\<lparr>pairPartner := Some w\<rparr>)"
  shows "(\<forall>i e. cs i = Some e \<longrightarrow> link_ok cs i e) \<and> listed_ok cs (clientsByIP s)"
proof (intro conjI allI impI)
  fix i e assume e: "cs i = Some e"
  consider "i = w" | "i = t" | "i \<noteq> w" "i \<noteq> t" by blast
  then show "link_ok cs i e"
  proof cases
    case 3
    with e cs have e': "conns s i = Some e" by simp
    with inv have ok: "link_ok (conns s) i e" by (simp add: server_inv_def)
    have "pairPartner e \<noteq> Some w" "pairPartner e \<noteq> Some t"
      using server_inv_link [OF inv e'] c d by auto
    with ok show ?thesis
      by (rule_tac link_ok_mono [OF ok]) (auto simp: cs)
  qed (use e cs inv c d \<open>w \<noteq> t\<close> in \<open>auto simp: server_inv_def link_ok_def\<close>)
next
  show "listed_ok cs (clientsByIP s)"
    by (rule listed_ok_same_state [OF server_inv_listed [OF inv]]) (auto simp: cs c d)
qed

lemma pair_request_inv [step_inv]:
  assumes inv: "server_inv s" and c: "conns s w = Some c" and live: "readyState c \<noteq> CLOSED"
  shows "server_inv (pair_request w ip s)"
proof (cases "lookup_target ip s")
  case None
  then show ?thesis
    using inv by (auto simp: pair_request_def intro: server_inv_frame [OF _ _ inv])
next
  case (Some t)
  then obtain d where d: "conns s t = Some d" "readyState d \<noteq> CLOSED"
    using lookup_target_listed [OF inv] by blast
  show ?thesis
  proof (cases "\<not> truthy ip \<or> t = w \<or> partner_of s w \<noteq> None \<or> partner_of s t \<noteq> None")
    case True
    with Some show ?thesis
      by (auto simp: pair_request_def intro: server_inv_frame [OF _ _ inv])
  next
    case False
    then have "pairPartner c = None" "pairPartner d = None" "w \<noteq> t"
      using c d by (auto simp: partner_of_def)
    from link_pair_inv [OF inv this(3) c live this(1) d this(2) refl] Some False c d
    show ?thesis
      by (auto simp: server_inv_def pair_request_def upd_conn_def Let_def)
  qed
qed

lemma on_message_inv [step_inv]:
  assumes "server_inv s" "conns s w = Some c" "readyState c \<noteq> CLOSED"
  shows "server_inv (on_message w raw s)"
  using assms pair_request_inv [OF assms]
  by (auto simp: on_message_def relay_def intro: server_inv_frame [OF _ _ assms(1)]
      split: option.split json.split)

lemma on_timeout_frame [simp]:
  "conns (on_timeout wt s) = conns s" "clientsByIP (on_timeout wt s) = clientsByIP s"
  "timers (on_timeout wt s) = timers s"
  by (simp_all add: on_timeout_def)

section \<open>Closing a socket\<close>

text \<open>What the close handler leaves in the links and in the map.\<close>

lemma on_close_conns:
  assumes inv: "server_inv s" and c: "conns s w = Some c"
  shows "conns (on_close w s) =
    (\<lambda>i. if i = w then Some (c\<lparr>readyState := CLOSED, pairPartner := None\<rparr>)
         else if pairPartner c = Some i \<and> is_open s i
         then map_option (\<lambda>d. d\<lparr>pairPartner := None\<rparr>) (conns s i)
         else conns s i)"
proof -
  have ne: "pairPartner c \<noteq> Some w"
    using server_inv_link [OF inv c] by auto
  show ?thesis
  proof (cases "pairPartner c")
    case None
    then show ?thesis
      using c by (auto simp: on_close_def Let_def upd_conn_def partner_of_def fun_eq_iff)
  next
    case (Some t)
    with ne have "w \<noteq> t" by auto
    then show ?thesis
      using c Some
      by (auto simp: on_close_def Let_def upd_conn_def partner_of_def is_open_def fun_eq_iff
          split: option.splits)
  qed
qed

lemma on_close_map:
  assumes c: "conns s w = Some c"
  shows "clientsByIP (on_close w s) =
    (if map_of (clientsByIP s) (clientIP c) = Some w
     then map_delete (clientIP c) (clientsByIP s) else clientsByIP s)"
  using c by (auto simp: on_close_def Let_def upd_conn_def ip_of_def split: option.splits)

lemma on_close_inv [step_inv]:
  assumes inv: "server_inv s" and c: "conns s w = Some c" and live: "readyState c \<noteq> CLOSED"
  shows "server_inv (on_close w s)"
proof (rule server_invI)
  let ?t = "on_close w s"
  fix i e assume e: "conns ?t i = Some e"
  show "link_ok (conns ?t) i e"
  proof (cases "i = w")
    case True
    with e on_close_conns [OF inv c] show ?thesis by (auto simp: link_ok_def)
  next
    case False
    then obtain e0 where e0: "conns s i = Some e0"
      "e = (if pairPartner c = Some i \<and> is_open s i then e0\<lparr>pairPartner := None\<rparr> else e0)"
      using e by (auto simp: on_close_conns [OF inv c] split: if_splits)
    have ok: "link_ok (conns s) i e0" using inv e0 by (simp add: server_inv_def)
    show ?thesis
    proof (cases "pairPartner c = Some i \<and> is_open s i")
      case True
      with ok e0 show ?thesis by (simp add: link_ok_def)
    next
      case keep: False
      show ?thesis
      proof (cases "pairPartner e0")
        case None
        with ok e0 keep show ?thesis by (simp add: link_ok_def)
      next
        case (Some j)
        note lnk = server_inv_link [OF inv e0(1) Some]
        show ?thesis
        proof (cases "j = w")
          case True
          with lnk c live have "pairPartner c = Some i" by auto
          with keep e0 have "readyState e0 \<noteq> OPEN" by (auto simp: is_open_def)
          with True lnk e0 Some keep ok show ?thesis
            by (auto simp: link_ok_def on_close_conns [OF inv c])
        next
          case other: False
          obtain d where d: "conns s j = Some d"
            "pairPartner d = Some i \<or> readyState d = CLOSED \<and> readyState e0 \<noteq> OPEN"
            using lnk by blast
          have "\<not> (pairPartner c = Some j \<and> is_open s j)"
          proof
            assume "pairPartner c = Some j \<and> is_open s j"
            with server_inv_link [OF inv c] d c have "pairPartner d = Some w"
              by (auto simp: is_open_def)
            with d \<open>i \<noteq> w\<close> \<open>pairPartner c = Some j \<and> is_open s j\<close> show False
              by (auto simp: is_open_def)
          qed
          with d other lnk e0 Some keep ok show ?thesis
            by (auto simp: link_ok_def on_close_conns [OF inv c])
        qed
      qed
    qed
  qed
next
  let ?t = "on_close w s"
  have l: "listed_ok (conns s) (clientsByIP s)" using inv by (simp add: server_inv_def)
  then have dist: "distinct (map fst (clientsByIP s))" by (simp add: listed_ok_def)
  have notw: "j \<noteq> w" if "(k, j) \<in> set (clientsByIP ?t)" for k j
  proof
    assume "j = w"
    with that have "(k, w) \<in> set (clientsByIP s)"
      by (auto simp: on_close_map [OF c] map_delete_def split: if_splits)
    with listed_okD [OF l] c have "k = clientIP c" by fastforce
    with that \<open>j = w\<close> dist show False
      by (auto simp: on_close_map [OF c] map_delete_def split: if_splits)
  qed
  have sub: "set (clientsByIP ?t) \<subseteq> set (clientsByIP s)"
    by (auto simp: on_close_map [OF c] map_delete_def)
  show "listed_ok (conns ?t) (clientsByIP ?t)"
    unfolding listed_ok_def
  proof (intro conjI allI impI)
    show "distinct (map fst (clientsByIP ?t))"
      using dist by (simp add: on_close_map [OF c] distinct_map_delete)
    fix k j assume "(k, j) \<in> set (clientsByIP ?t)"
    with notw sub l obtain d where "j \<noteq> w" "conns s j = Some d" "readyState d \<noteq> CLOSED" "clientIP d = k"
      by (fastforce simp: listed_ok_def)
    then show "\<exists>d. conns ?t j = Some d \<and> readyState d \<noteq> CLOSED \<and> clientIP d = k"
      by (auto simp: on_close_conns [OF inv c])
  qed
qed

lemma server_step_inv: "server_step s t \<Longrightarrow> server_inv s \<Longrightarrow> server_inv t"
  by (elim server_step_cases) (auto intro: step_inv server_inv_frame)

interpretation signaling: safe_system "(=) server_init" server_step server_inv
  by unfold_locales (auto intro: server_inv_init server_step_inv)

lemma server_reachable_run: "server_reachable s \<Longrightarrow> server_step\<^sup>*\<^sup>* server_init s"
  by (induction rule: server_reachable.induct) auto

lemma server_reachable_inv: "server_reachable s \<Longrightarrow> server_inv s"
  by (rule signaling.inv_reachable [OF refl server_reachable_run])

lemma open_link_answered:
  assumes inv: "server_inv s" and "is_open s i" and "partner_of s i = Some j"
  shows "i \<noteq> j \<and> partner_of s j = Some i \<and> (\<exists>d. conns s j = Some d \<and> readyState d \<noteq> CLOSED)"
proof -
  from assms(2,3) obtain c where c: "conns s i = Some c" "readyState c = OPEN" "pairPartner c = Some j"
    by (auto simp: is_open_def partner_of_def split: option.splits)
  from server_inv_link [OF inv c(1) c(3)] c obtain d
    where d: "i \<noteq> j" "conns s j = Some d" "pairPartner d = Some i" by auto
  with server_inv_link [OF inv d(2) d(3)] show ?thesis by (simp add: partner_of_def)
qed

text \<open>Reachability rules with executable side conditions.\<close>

definition live :: "server \<Rightarrow> nat \<Rightarrow> bool" where
  "live s w \<longleftrightarrow> (case conns s w of Some c \<Rightarrow> readyState c \<noteq> CLOSED | None \<Rightarrow> False)"

lemma reach_connect: "server_reachable s \<Longrightarrow> conns s w = None \<Longrightarrow> server_reachable (on_connection w a p s)"
  by (rule server_reachable.step) (auto intro: server_step.connect)

lemma reach_message: "server_reachable s \<Longrightarrow> live s w \<Longrightarrow> server_reachable (on_message w raw s)"
  by (rule server_reachable.step) (auto simp: live_def intro: server_step.message split: option.splits)

lemma reach_close: "server_reachable s \<Longrightarrow> live s w \<Longrightarrow> server_reachable (on_close w s)"
  by (rule server_reachable.step) (auto simp: live_def intro: server_step.closed split: option.splits)

lemma reach_timeout:
  "server_reachable s \<Longrightarrow> timers s = wt # rest \<Longrightarrow> server_reachable (on_timeout wt (s\<lparr>timers := rest\<rparr>))"
  by (rule server_reachable.step) (auto intro: server_step.timeout)

lemma on_close_partner:
  assumes inv: "server_inv s" and c: "conns s w = Some c"
    and j: "partner_of s w = Some j" "is_open s j"
  shows "partner_of (on_close w s) j = None"
    and "(j, JObj [(''type'', JStr ''peer_left'')]) \<in> set (outbox (on_close w s))"
proof -
  have ne: "w \<noteq> j"
    using server_inv_link [OF inv c] c j by (auto simp: partner_of_def)
  show "partner_of (on_close w s) j = None"
    using c j ne
    by (auto simp: partner_of_def on_close_conns [OF inv c] is_open_def split: option.splits)
  show "(j, JObj [(''type'', JStr ''peer_left'')]) \<in> set (outbox (on_close w s))"
    using c j ne
    by (auto simp: on_close_def Let_def upd_conn_def partner_of_def is_open_def ws_send_def
        intro!: broadcast_keeps split: option.splits)
qed

section \<open>Properties\<close>

text \<open>
  C5. The signaling tunnel is one-to-one. In every reachable state an open socket that has a
  pair partner is that partner's own partner, is not paired with itself, and the partner's
  connection has not been closed.
\<close>

theorem pairing_is_exclusive:
  assumes "server_reachable s" and "is_open s i" and "partner_of s i = Some j"
  shows "i \<noteq> j \<and> partner_of s j = Some i \<and> (\<exists>d. conns s j = Some d \<and> readyState d \<noteq> CLOSED)"
  using open_link_answered [OF server_reachable_inv [OF assms(1)] assms(2,3)] .

text \<open>Two clients connect and the first asks to be paired with the second.\<close>

definition demo_pair_msg :: json where
  "demo_pair_msg = JObj [(''type'', JStr ''pair_request''), (''targetIP'', JStr ''b'')]"

definition demo_connected :: server where
  "demo_connected = on_connection 2 (Some ''b'') None (on_connection 1 (Some ''a'') None server_init)"

definition demo_paired :: server where
  "demo_paired = on_message 1 (Some demo_pair_msg) demo_connected"

lemma demo_connected_reachable: "server_reachable demo_connected"
  unfolding demo_connected_def
  by (intro reach_connect server_reachable.start) (simp_all add: server_init_def on_connection_def Let_def)

lemma demo_connected_conns:
  "conns demo_connected = [1 \<mapsto> \<lparr>clientIP = ''a'', pairPartner = None, readyState = OPEN\<rparr>,
                           2 \<mapsto> \<lparr>clientIP = ''b'', pairPartner = None, readyState = OPEN\<rparr>]"
  "clientsByIP demo_connected = [(''a'', 1), (''b'', 2)]"
  "timers demo_connected = []"
  by (simp_all add: demo_connected_def on_connection_def Let_def server_init_def client_key_def)

lemma demo_paired_reachable: "server_reachable demo_paired"
  unfolding demo_paired_def
  by (rule reach_message [OF demo_connected_reachable]) (simp add: live_def demo_connected_conns)

lemma demo_paired_conns:
  "conns demo_paired = [1 \<mapsto> \<lparr>clientIP = ''a'', pairPartner = Some 2, readyState = OPEN\<rparr>,
                        2 \<mapsto> \<lparr>clientIP = ''b'', pairPartner = Some 1, readyState = OPEN\<rparr>]"
  "clientsByIP demo_paired = [(''a'', 1), (''b'', 2)]"
  "timers demo_paired = [(1, 2)]"
  by (simp_all add: demo_paired_def demo_pair_msg_def on_message_def pair_request_def lookup_target_def
      demo_connected_conns partner_of_def upd_conn_def Let_def)

theorem pairing_is_exclusive_witness:
  "server_reachable demo_paired \<and> is_open demo_paired 1 \<and> partner_of demo_paired 1 = Some 2
   \<and> partner_of demo_paired 2 = Some 1"
proof -
  have h: "is_open demo_paired 1" "partner_of demo_paired 1 = Some 2"
    by (simp_all add: is_open_def partner_of_def demo_paired_conns)
  show ?thesis
    using pairing_is_exclusive [OF demo_paired_reachable h] h demo_paired_reachable by blast
qed

text \<open>
  C6. Signaling traffic never leaves its pair: a frame of an open client whose type is neither
  \<^verbatim>\<open>pair_request\<close> nor \<^verbatim>\<open>list_peers\<close> changes no server state, and it is either dropped or
  written unchanged to exactly one socket, the sender's partner, whose partner is the sender.
\<close>

theorem relay_stays_in_pair:
  assumes "server_reachable s" and "is_open s w" and "js_get p ''type'' = Some (JStr ty)"
    and "ty \<noteq> ''pair_request''" and "ty \<noteq> ''list_peers''"
  shows "on_message w (Some p) s = s \<or>
    (\<exists>j. partner_of s w = Some j \<and> partner_of s j = Some w \<and> is_open s j \<and> ty \<noteq> ''peer_left'' \<and>
         on_message w (Some p) s = s\<lparr>outbox := outbox s @ [(j, p)]\<rparr>)"
proof (cases "partner_of s w")
  case None
  with assms show ?thesis by (simp add: on_message_def relay_def)
next
  case (Some j)
  have "partner_of s j = Some w"
    using open_link_answered [OF server_reachable_inv [OF assms(1)] assms(2) Some] by simp
  with assms Some show ?thesis by (auto simp: on_message_def relay_def ws_send_def)
qed

theorem relay_stays_in_pair_witness:
  "let p = JObj [(''type'', JStr ''offer''), (''sdp'', JStr ''v=0'')] in
   server_reachable demo_paired \<and> is_open demo_paired 1 \<and> js_get p ''type'' = Some (JStr ''offer'') \<and>
   on_message 1 (Some p) demo_paired = demo_paired\<lparr>outbox := outbox demo_paired @ [(2, p)]\<rparr>"
proof -
  define p where "p = JObj [(''type'', JStr ''offer''), (''sdp'', JStr ''v=0'')]"
  have h: "is_open demo_paired 1" "js_get p ''type'' = Some (JStr ''offer'')"
    by (simp_all add: is_open_def demo_paired_conns p_def)
  have "on_message 1 (Some p) demo_paired \<noteq> demo_paired"
    by (auto simp: on_message_def p_def relay_def partner_of_def is_open_def ws_send_def demo_paired_conns
        dest: arg_cong [where f = outbox])
  with relay_stays_in_pair [OF demo_paired_reachable h] h demo_paired_reachable show ?thesis
    by (auto simp: Let_def p_def partner_of_def demo_paired_conns)
qed

text \<open>What an accepted request writes: each side its own role, to a side whose socket is still open.\<close>

definition role_messages :: "nat \<Rightarrow> nat \<Rightarrow> server \<Rightarrow> (nat \<times> json) list" where
  "role_messages w t s =
     (if is_open s w
      then [(w, JObj [(''type'', JStr ''role''), (''role'', JStr ''offerer''), (''selfIP'', JStr (ip_of s w))])] else []) @
     (if is_open s t
      then [(t, JObj [(''type'', JStr ''role''), (''role'', JStr ''answerer''),
                      (''selfIP'', JStr (ip_of s t)), (''peerIP'', JStr (ip_of s w))])] else [])"

lemma upd_partner_frame [simp]:
  "is_open (upd_conn i (\<lambda>c. c\<lparr>pairPartner := p\<rparr>) s) j = is_open s j"
  "ip_of (upd_conn i (\<lambda>c. c\<lparr>pairPartner := p\<rparr>) s) j = ip_of s j"
  "outbox (upd_conn i f s) = outbox s" "timers (upd_conn i f s) = timers s" "clientsByIP (upd_conn i f s) = clientsByIP s"
  by (auto simp: upd_conn_def is_open_def ip_of_def split: option.split)

lemma outbox_frame: "is_open (s\<lparr>outbox := x\<rparr>) j = is_open s j" "ip_of (s\<lparr>outbox := x\<rparr>) j = ip_of s j"
  by (simp_all add: is_open_def ip_of_def)

lemma pair_request_accepted:
  assumes "lookup_target ip s = Some t" and "t \<noteq> w" and "truthy ip"
    and "partner_of s w = None" and "partner_of s t = None"
  shows "outbox (pair_request w ip s) = outbox s @ role_messages w t s \<and>
    timers (pair_request w ip s) = timers s @ [(w, t)] \<and> clientsByIP (pair_request w ip s) = clientsByIP s"
  using assms by (simp add: pair_request_def Let_def role_messages_def ws_send_def outbox_frame)

text \<open>
  C20. The answer to a pair request, on every branch. In a reachable state it succeeds exactly when
  the target is a listed key of another socket and neither side has a partner; then both links are set, the requester is
  sent the role of the offerer and the target the role of the answerer, with their addresses (\<open>role_messages\<close>) and
  nothing else is written, and one timer is armed. Otherwise the server's state does not change and the requester
  alone is told the reason.
\<close>

theorem pair_request_outcome:
  assumes "server_reachable s" and "live s w"
  shows "(case lookup_target ip s of
      Some t \<Rightarrow>
        if t \<noteq> w \<and> truthy ip \<and> partner_of s w = None \<and> partner_of s t = None
        then partner_of (pair_request w ip s) w = Some t
             \<and> partner_of (pair_request w ip s) t = Some w
             \<and> (\<forall>i. i \<noteq> w \<and> i \<noteq> t \<longrightarrow> conns (pair_request w ip s) i = conns s i)
             \<and> (\<forall>i. ip_of (pair_request w ip s) i = ip_of s i \<and> is_open (pair_request w ip s) i = is_open s i)
             \<and> outbox (pair_request w ip s) = outbox s @ role_messages w t s
             \<and> timers (pair_request w ip s) = timers s @ [(w, t)]
             \<and> clientsByIP (pair_request w ip s) = clientsByIP s
        else pair_request w ip s =
             ws_send w (error_msg (if t = w \<or> \<not> truthy ip then ''target_not_found'' else ''busy'')) s
    | None \<Rightarrow> pair_request w ip s = ws_send w (error_msg ''target_not_found'') s)"
proof (cases "lookup_target ip s")
  case (Some t)
  from assms(2) obtain c where "conns s w = Some c" by (auto simp: live_def split: option.splits)
  moreover obtain d where "conns s t = Some d"
    using lookup_target_listed [OF server_reachable_inv [OF assms(1)] Some] by blast
  moreover note pair_request_accepted [OF Some, of w]
  moreover have "ip_of (pair_request w ip s) i = ip_of s i" "is_open (pair_request w ip s) i = is_open s i" for i
    using Some by (auto simp: pair_request_def Let_def ip_of_def is_open_def upd_conn_def split: option.splits)
  ultimately show ?thesis
    using Some by (auto simp: pair_request_def Let_def upd_conn_def partner_of_def)
qed (simp add: pair_request_def)

theorem pair_request_outcome_witness:
  "server_reachable demo_connected \<and> live demo_connected 1 \<and>
   partner_of (pair_request 1 (Some (JStr ''b'')) demo_connected) 1 = Some 2 \<and>
   pair_request 1 (Some (JStr ''zz'')) demo_connected =
     ws_send 1 (error_msg ''target_not_found'') demo_connected"
proof -
  have h: "live demo_connected 1" by (simp add: live_def demo_connected_conns)
  note o = pair_request_outcome [OF demo_connected_reachable h]
  show ?thesis
    using o [of "Some (JStr ''b'')"] o [of "Some (JStr ''zz'')"] h demo_connected_reachable
    by (auto simp: lookup_target_def demo_connected_conns partner_of_def)
qed

text \<open>
  C22. The device list sent to a client is exact: in a reachable state it holds, without
  duplicates, precisely the keys under which another open socket is registered.
\<close>

theorem peer_list_exact:
  assumes "server_reachable s"
  shows "distinct (buildPeerListFor w s) \<and>
    (JObj [(''ip'', JStr k), (''name'', JStr k)] \<in> set (buildPeerListFor w s) \<longleftrightarrow>
     (\<exists>j. map_of (clientsByIP s) k = Some j \<and> j \<noteq> w \<and> is_open s j \<and> ip_of s j = k))"
proof
  have l: "listed_ok (conns s) (clientsByIP s)"
    using server_reachable_inv [OF assms] by (rule server_inv_listed)
  then have d: "distinct (map fst (clientsByIP s))" by (simp add: listed_ok_def)
  then have "distinct (map fst (filter (\<lambda>(k, j). j \<noteq> w \<and> is_open s j) (clientsByIP s)))"
    by (simp add: distinct_map_filter)
  then have "inj_on (\<lambda>(k, j :: nat). JObj [(''ip'', JStr k), (''name'', JStr k)])
               (set (filter (\<lambda>(k, j). j \<noteq> w \<and> is_open s j) (clientsByIP s)))"
    by (auto simp: distinct_map inj_on_def)
  with d show "distinct (buildPeerListFor w s)"
    by (auto simp: buildPeerListFor_def distinct_map)
  show "JObj [(''ip'', JStr k), (''name'', JStr k)] \<in> set (buildPeerListFor w s) \<longleftrightarrow>
     (\<exists>j. map_of (clientsByIP s) k = Some j \<and> j \<noteq> w \<and> is_open s j \<and> ip_of s j = k)"
    using listed_okD [OF l] d by (fastforce simp: buildPeerListFor_def ip_of_def)
qed

theorem peer_list_exact_witness:
  "server_reachable demo_connected \<and>
   JObj [(''ip'', JStr ''b''), (''name'', JStr ''b'')] \<in> set (buildPeerListFor 1 demo_connected)"
  using peer_list_exact [OF demo_connected_reachable, of 1 "''b''"] demo_connected_reachable
  by (auto simp: demo_connected_conns is_open_def ip_of_def)

text \<open>
  C21. Closing a socket ends its tunnel completely: afterwards no open socket is paired with it, it
  is no longer listed, and an open partner is unpaired and is told \<^verbatim>\<open>peer_left\<close>.
\<close>

theorem close_ends_tunnel:
  assumes "server_reachable s" and "live s w"
  shows "(\<forall>i. is_open (on_close w s) i \<longrightarrow> partner_of (on_close w s) i \<noteq> Some w)
    \<and> w \<notin> set (map snd (clientsByIP (on_close w s)))
    \<and> (\<forall>j. partner_of s w = Some j \<and> is_open s j \<longrightarrow>
         partner_of (on_close w s) j = None \<and>
         (j, JObj [(''type'', JStr ''peer_left'')]) \<in> set (outbox (on_close w s)))"
proof (intro conjI allI impI)
  from assms(2) obtain c where c: "conns s w = Some c" by (auto simp: live_def split: option.splits)
  note cl = on_close_conns [OF server_reachable_inv [OF assms(1)] c]
  have inv: "server_inv (on_close w s)"
    using reach_close [OF assms] by (rule server_reachable_inv)
  fix i assume "is_open (on_close w s) i"
  from open_link_answered [OF inv this] show "partner_of (on_close w s) i \<noteq> Some w"
    by (auto simp: cl)
next
  from assms(2) obtain c where c: "conns s w = Some c" by (auto simp: live_def split: option.splits)
  note cl = on_close_conns [OF server_reachable_inv [OF assms(1)] c]
  have "server_inv (on_close w s)"
    using reach_close [OF assms] by (rule server_reachable_inv)
  then show "w \<notin> set (map snd (clientsByIP (on_close w s)))"
    by (auto simp: cl dest!: server_inv_listed listed_okD)
next
  from assms(2) obtain c where c: "conns s w = Some c" by (auto simp: live_def split: option.splits)
  fix j assume j: "partner_of s w = Some j \<and> is_open s j"
  then show "partner_of (on_close w s) j = None"
    and "(j, JObj [(''type'', JStr ''peer_left'')]) \<in> set (outbox (on_close w s))"
    using on_close_partner [OF server_reachable_inv [OF assms(1)] c] by auto
qed

theorem close_ends_tunnel_witness:
  "server_reachable demo_paired \<and> live demo_paired 2 \<and> partner_of (on_close 2 demo_paired) 1 = None"
proof -
  have h: "live demo_paired 2" by (simp add: live_def demo_paired_conns)
  show ?thesis
    using close_ends_tunnel [OF demo_paired_reachable h] h demo_paired_reachable
    by (auto simp: partner_of_def is_open_def demo_paired_conns)
qed

text \<open>
  The 200 ms timer is not cancelled when the pairing ends. There is a reachable state in
  which an open, unpaired client has been sent \<^verbatim>\<open>peer_joined\<close> after \<^verbatim>\<open>peer_left\<close> for the same
  pairing: it will create an offer that the server then drops.
\<close>

theorem stale_peer_joined_reachable:
  "\<exists>s pre mid. server_reachable s \<and> is_open s 1 \<and> partner_of s 1 = None \<and>
     outbox s = pre @ (1, JObj [(''type'', JStr ''peer_left'')]) # mid
                  @ [(1, JObj [(''type'', JStr ''peer_joined''), (''peerIP'', JStr ''b'')])]"
proof -
  let ?s = "on_close 2 demo_paired"
  let ?t = "on_timeout (1, 2) (?s\<lparr>timers := []\<rparr>)"
  have r: "server_reachable ?s"
    by (rule reach_close [OF demo_paired_reachable]) (simp add: live_def demo_paired_conns)
  note c2 = on_close_conns [OF server_reachable_inv [OF demo_paired_reachable],
      of 2 "\<lparr>clientIP = ''b'', pairPartner = Some 1, readyState = OPEN\<rparr>"]
  have tm: "timers ?s = [(1, 2)]"
    by (simp add: on_close_def Let_def upd_conn_def demo_paired_conns split: option.split)
  have "server_reachable ?t" by (rule reach_timeout [OF r tm])
  moreover have "is_open ?t 1" "partner_of ?t 1 = None"
    using c2 by (simp_all add: is_open_def partner_of_def demo_paired_conns)
  moreover have "(1, JObj [(''type'', JStr ''peer_left'')]) \<in> set (outbox ?s)"
    by (rule on_close_partner(2) [OF server_reachable_inv [OF demo_paired_reachable]])
      (simp_all add: partner_of_def is_open_def demo_paired_conns)
  then obtain pre mid where "outbox ?s = pre @ (1, JObj [(''type'', JStr ''peer_left'')]) # mid"
    by (meson split_list)
  moreover have "outbox ?t = outbox ?s @ [(1, JObj [(''type'', JStr ''peer_joined''), (''peerIP'', JStr ''b'')])]"
    using c2 by (simp add: on_timeout_def ws_send_def is_open_def ip_of_def demo_paired_conns)
  ultimately show ?thesis
    by (intro exI [of _ ?t] exI [of _ pre] exI [of _ mid]) simp
qed

end
