(* ===== verification/Rtc_Client.thy ===== *)
theory Rtc_Client
  imports Json
begin

text \<open>
  The state of \<^verbatim>\<open>RTCClient\<close> and its signaling half: the WebSocket message handler, the
  completion handlers of the peer connection, candidate queueing, and the requests it
  writes to the signaling server (\<^verbatim>\<open>RTCClient.m\<close>).

  The WebRTC framework, the socket and the file system are not part of the program. What the
  client asks of the peer connection is recorded in \<open>pcLog\<close>; each asynchronous call leaves its
  completion handler in \<open>pcPending\<close>, and \<open>complete\<close> runs one with the outcome the framework
  chose. Text written to the socket goes to \<open>signalOut\<close>, messages taken by the data channel to
  \<open>dcOut\<close>. Blocks dispatched to the main queue wait in \<open>mainQ\<close>; the delegate is always set.
\<close>

section \<open>The data channel as the client sees it\<close>

datatype data_state = kConnecting | kOpen | kClosing | kClosed

text \<open>
  A text buffer is given as the JSON value it parses to, \<open>None\<close> where it does not parse.
\<close>

datatype data_buffer = Text "json option" | Binary "byte list"

text \<open>
  \<open>accepts\<close> is the framework's answer to the next \<^verbatim>\<open>sendData\<close> on an open channel: it may
  refuse, for example because its buffer is full.
\<close>

record data_channel =
  ready :: data_state
  bufferedAmount :: u64
  accepts :: bool

section \<open>Errors, delegate notifications and main-queue blocks\<close>

datatype ns_error = NSError (code: int) (localizedDescription: string)

text \<open>\<^verbatim>\<open>(double)a / (double)b\<close>, kept as the pair of the numbers that are divided.\<close>

datatype progress = Progress u64 u64

definition progress_of :: "u64 \<Rightarrow> u64 \<Rightarrow> progress" where
  "progress_of sent n = (if n > 0 then Progress sent n else Progress 0 1)"

datatype delegate_event =
    DataChannelStateDidChange data_state
  | DidReceivePeerName string json string
  | DidUpdateOnlinePeers "(string \<times> string) list"
  | FileSendProgress progress u64 u64
  | FileReceiveOffered "string option" u64
  | FileReceiveProgress progress u64 u64
  | FileTransferDidFinish "ns_error option"

datatype main_task =
    TStateDidChange data_state
  | TPeerName string json string
  | TOnlinePeers "(string \<times> string) list"
  | TSendProgress progress
  | TReceiveOffered
  | TReceiveProgress progress
  | TCleanup "ns_error option"
  | TIceDown

section \<open>Session descriptions, candidates and peer connection calls\<close>

datatype sdp_type = SdpOffer | SdpPrAnswer | SdpAnswer | SdpRollback

record candidate =
  cand_sdp :: "json option"
  cand_mline :: int
  cand_mid :: "json option"

datatype pc_call =
    SetRemoteDescription sdp_type "json option"
  | AddIceCandidate candidate
  | AnswerForConstraints
  | OfferForConstraints
  | SetLocalDescription sdp_type string
  | DataChannelForLabel string bool int

datatype pc_cont =
    OfferRemoteSet
  | AnswerCreated
  | AnswerLocalSet string
  | AnswerRemoteSet
  | OfferCreated
  | OfferLocalSet sdp_type string

text \<open>What the framework reports to a completion handler.\<close>

datatype pc_result = ResultOk | ResultSdp sdp_type string | ResultError

text \<open>
  The control points of the sending loop. Between two of them at most one shared property is read or written; a value
  read for the next control point is its argument.
\<close>

datatype loop_pc =
    LIdle
  | LHead
  | LHeadSent
  | LHeadTotal u64
  | LWait nat
  | LWaitState nat
  | LWaitAmount nat
  | LSlept nat
  | LCheckOpen
  | LRead
  | LSend "byte list" nat
  | LSendState "byte list" nat
  | LSendTry "byte list" nat
  | LAccount "byte list"
  | LStore "byte list" u64
  | LProgress
  | LProgressSent
  | LProgressTotal u64
  | LExit
  | LExitSent
  | LExitTotal u64

section \<open>The client object\<close>

record client =
  peerConnection :: bool
  dataChannel :: "data_channel option"
  socket :: bool
  sendHandle :: "(string \<times> nat) option"
  sendTotalBytes :: u64
  sendBytesSent :: u64
  recvHandle :: "(string \<times> nat) option"
  recvTotalBytes :: u64
  recvBytesReceived :: u64
  incomingFileName :: "string option"
  transferCancelled :: bool
  chunkSize :: nat
  isOfferer :: bool
  pendingCandidates :: "candidate list"
  hasRemoteDescription :: bool
  peerIP :: "json option"
  peerName :: "string option"
  selfIP :: "json option"
  fs :: "string \<Rightarrow> byte list option"
  signalOut :: "json list"
  dcOut :: "data_buffer list"
  mainQ :: "main_task list"
  fileQ :: nat
  loop_at :: loop_pc
  pcLog :: "pc_call list"
  pcPending :: "pc_cont list"
  receiveArmed :: bool

definition client_init :: "(string \<Rightarrow> byte list option) \<Rightarrow> client" where
  "client_init files =
     \<lparr>peerConnection = False, dataChannel = None, socket = False,
      sendHandle = None, sendTotalBytes = 0, sendBytesSent = 0,
      recvHandle = None, recvTotalBytes = 0, recvBytesReceived = 0, incomingFileName = None,
      transferCancelled = False, chunkSize = 16 * 1024, isOfferer = False,
      pendingCandidates = [], hasRemoteDescription = False,
      peerIP = None, peerName = None, selfIP = None,
      fs = files, signalOut = [], dcOut = [], mainQ = [], fileQ = 0, loop_at = LIdle,
      pcLog = [], pcPending = [], receiveArmed = False\<rparr>"

text \<open>
  Faults that end the process: an Objective-C message an object does not understand, an exception
  raised inside the framework, and the one raised when an array changes while it is enumerated.
\<close>

datatype crash = UnrecognizedSelector | FrameworkException | MutatedWhileEnumerated

section \<open>Primitives\<close>

definition dispatch_main :: "main_task \<Rightarrow> client \<Rightarrow> client" where
  "dispatch_main t c = c\<lparr>mainQ := mainQ c @ [t]\<rparr>"

text \<open>A message to a nil peer connection does nothing.\<close>

definition pc_do :: "pc_call \<Rightarrow> client \<Rightarrow> client" where
  "pc_do k c = (if peerConnection c then c\<lparr>pcLog := pcLog c @ [k]\<rparr> else c)"

definition pc_async :: "pc_call \<Rightarrow> pc_cont \<Rightarrow> client \<Rightarrow> client" where
  "pc_async k h c =
     (if peerConnection c then c\<lparr>pcLog := pcLog c @ [k], pcPending := pcPending c @ [h]\<rparr> else c)"

definition readyState_of :: "client \<Rightarrow> data_state" where
  "readyState_of c = (case dataChannel c of Some d \<Rightarrow> ready d | None \<Rightarrow> kConnecting)"

definition bufferedAmount_of :: "client \<Rightarrow> u64" where
  "bufferedAmount_of c = (case dataChannel c of Some d \<Rightarrow> bufferedAmount d | None \<Rightarrow> 0)"

definition isDataChannelOpen :: "client \<Rightarrow> bool" where
  "isDataChannelOpen c \<longleftrightarrow> readyState_of c = kOpen"

text \<open>\<^verbatim>\<open>[self.dataChannel sendData:buffer]\<close>\<close>

definition channel_takes :: "client \<Rightarrow> bool" where
  "channel_takes c \<longleftrightarrow>
     (case dataChannel c of Some d \<Rightarrow> ready d = kOpen \<and> accepts d | None \<Rightarrow> False)"

definition sendData :: "data_buffer \<Rightarrow> client \<Rightarrow> client" where
  "sendData b c = (if channel_takes c then c\<lparr>dcOut := dcOut c @ [b]\<rparr> else c)"

definition sendControlJSON :: "json \<Rightarrow> client \<Rightarrow> client" where
  "sendControlJSON j c = sendData (Text (Some j)) c"

definition sendSignalingJSONObject :: "json \<Rightarrow> client \<Rightarrow> client" where
  "sendSignalingJSONObject obj c =
     (if \<not> socket c then c else c\<lparr>signalOut := signalOut c @ [obj]\<rparr>)"

section \<open>Starting up\<close>

definition setupPeerConnection :: "client \<Rightarrow> client" where
  "setupPeerConnection c = c\<lparr>peerConnection := True\<rparr>"

definition receiveSignal :: "client \<Rightarrow> client" where
  "receiveSignal c = c\<lparr>receiveArmed := True\<rparr>"

definition setupWebSocket :: "client \<Rightarrow> client" where
  "setupWebSocket c = setupPeerConnection (receiveSignal (c\<lparr>socket := True\<rparr>))"

definition start :: "client \<Rightarrow> client" where
  "start c = setupWebSocket c"

section \<open>Offering\<close>

definition createOffer :: "client \<Rightarrow> client" where
  "createOffer c =
     (let c1 = pc_do (DataChannelForLabel ''chat'' True (-1)) c;
          c2 = c1\<lparr>dataChannel :=
                 (if peerConnection c
                  then Some \<lparr>ready = kConnecting, bufferedAmount = 0, accepts = False\<rparr> else None)\<rparr>
      in pc_async OfferForConstraints OfferCreated c2)"

fun sdp_type_string :: "sdp_type \<Rightarrow> string" where
  "sdp_type_string SdpOffer = ''offer''"
| "sdp_type_string SdpAnswer = ''answer''"
| "sdp_type_string SdpPrAnswer = ''pranswer''"
| "sdp_type_string SdpRollback = ''offer''"

section \<open>Candidates\<close>

text \<open>
  What the client leaves to code it does not contain: the integer a string stands for (its decimal prefix), and
  whether an initialiser of the framework returns when it is given something else than the string its
  interface declares (nil, an object of another class, an empty candidate), or raises.
\<close>

record framework =
  decimal_prefix :: "string \<Rightarrow> int"
  tolerates :: "json option \<Rightarrow> bool"

definition is_text :: "json option \<Rightarrow> bool" where
  "is_text v = (case v of Some (JStr s) \<Rightarrow> True | _ \<Rightarrow> False)"

definition accepts_sdp :: "framework \<Rightarrow> json option \<Rightarrow> bool" where
  "accepts_sdp fw v \<longleftrightarrow> is_text v \<or> tolerates fw v"

definition accepts_candidate :: "framework \<Rightarrow> json option \<Rightarrow> json option \<Rightarrow> bool" where
  "accepts_candidate fw sdp mid \<longleftrightarrow>
     (is_text sdp \<and> sdp \<noteq> Some (JStr '''') \<or> tolerates fw sdp) \<and>
     (mid = None \<or> is_text mid \<or> tolerates fw mid)"

lemma is_text_simps [simp]: "is_text (Some (JStr s))" "\<not> is_text None"
  by (simp_all add: is_text_def)

lemma accepts_sdp_text [simp]: "accepts_sdp fw (Some (JStr s))"
  by (simp add: accepts_sdp_def)

text \<open>
  \<^verbatim>\<open>[cd[@"sdpMLineIndex"] intValue]\<close>: nil answers 0, numbers and strings answer an integer,
  nothing else understands it.
\<close>

definition int_value :: "framework \<Rightarrow> json option \<Rightarrow> crash + int" where
  "int_value fw v =
     (case v of
        None \<Rightarrow> Inr 0
      | Some (JNum n) \<Rightarrow> Inr (sint (word_of_int n :: 32 word))
      | Some (JBool b) \<Rightarrow> Inr (if b then 1 else 0)
      | Some (JStr s) \<Rightarrow> Inr (decimal_prefix fw s)
      | Some _ \<Rightarrow> Inl UnrecognizedSelector)"

text \<open>Keyed subscripting: a dictionary answers, nil answers nil, anything else raises.\<close>

definition subscript :: "json option \<Rightarrow> string \<Rightarrow> crash + json option" where
  "subscript v k =
     (case v of
        None \<Rightarrow> Inr None
      | Some (JObj kvs) \<Rightarrow> Inr (map_of kvs k)
      | Some _ \<Rightarrow> Inl UnrecognizedSelector)"

definition parse_candidate :: "framework \<Rightarrow> json option \<Rightarrow> crash + candidate" where
  "parse_candidate fw cd =
     bindE (subscript cd ''candidate'') (\<lambda>sdp.
     bindE (subscript cd ''sdpMLineIndex'') (\<lambda>ml.
     bindE (int_value fw ml) (\<lambda>n.
     bindE (subscript cd ''sdpMid'') (\<lambda>mid.
     if accepts_candidate fw sdp mid then Inr \<lparr>cand_sdp = sdp, cand_mline = n, cand_mid = mid\<rparr>
     else Inl FrameworkException))))"

definition on_candidate :: "candidate \<Rightarrow> client \<Rightarrow> client" where
  "on_candidate k c =
     (if hasRemoteDescription c then pc_do (AddIceCandidate k) c
      else c\<lparr>pendingCandidates := pendingCandidates c @ [k]\<rparr>)"

definition flush_candidates :: "client \<Rightarrow> client" where
  "flush_candidates c =
     (fold (\<lambda>k. pc_do (AddIceCandidate k)) (pendingCandidates c) (c\<lparr>hasRemoteDescription := True\<rparr>))
       \<lparr>pendingCandidates := []\<rparr>"

section \<open>Completion handlers of the peer connection\<close>

fun complete :: "pc_cont \<Rightarrow> pc_result \<Rightarrow> client \<Rightarrow> client" where
  "complete OfferRemoteSet r c =
     (if r = ResultError then c else pc_async AnswerForConstraints AnswerCreated (flush_candidates c))"
| "complete AnswerCreated r c =
     (case r of ResultSdp ty sdp \<Rightarrow> pc_async (SetLocalDescription ty sdp) (AnswerLocalSet sdp) c | _ \<Rightarrow> c)"
| "complete (AnswerLocalSet sdp) r c =
     (if r = ResultError then c
      else sendSignalingJSONObject (JObj [(''type'', JStr ''answer''), (''sdp'', JStr sdp)]) c)"
| "complete AnswerRemoteSet r c = (if r = ResultError then c else flush_candidates c)"
| "complete OfferCreated r c =
     (case r of ResultSdp ty sdp \<Rightarrow> pc_async (SetLocalDescription ty sdp) (OfferLocalSet ty sdp) c | _ \<Rightarrow> c)"
| "complete (OfferLocalSet ty sdp) r c =
     (if r = ResultError then c
      else sendSignalingJSONObject (JObj [(''type'', JStr (sdp_type_string ty)), (''sdp'', JStr sdp)]) c)"

section \<open>Messages from the signaling server\<close>

definition not_null :: "json option \<Rightarrow> bool" where
  "not_null v \<longleftrightarrow> v \<noteq> None \<and> v \<noteq> Some JNull"

text \<open>The normalised device list: entries with a non-empty string key, named by it if unnamed.\<close>

fun normalize_peer :: "json \<Rightarrow> (string \<times> string) list" where
  "normalize_peer (JObj kvs) =
     (let ip = str_or (map_of kvs ''ip'') ''''; name = str_or (map_of kvs ''name'') ''''
      in if ip = '''' then [] else [(ip, if name = '''' then ip else name)])"
| "normalize_peer _ = []"

definition normalize_peers :: "json option \<Rightarrow> (string \<times> string) list" where
  "normalize_peers v =
     concat (map normalize_peer (case v of Some (JArr xs) \<Rightarrow> xs | _ \<Rightarrow> []))"

definition on_role :: "(string \<times> json) list \<Rightarrow> client \<Rightarrow> client" where
  "on_role kvs c =
     (let c1 = c\<lparr>isOfferer := (map_of kvs ''role'' = Some (JStr ''offerer''))\<rparr>;
          c2 = (if not_null (map_of kvs ''selfIP'') then c1\<lparr>selfIP := map_of kvs ''selfIP''\<rparr> else c1)
      in if not_null (map_of kvs ''peerIP'') then c2\<lparr>peerIP := map_of kvs ''peerIP''\<rparr> else c2)"

definition on_peer_joined :: "(string \<times> json) list \<Rightarrow> client \<Rightarrow> client" where
  "on_peer_joined kvs c =
     (let c1 = (if not_null (map_of kvs ''peerIP'') then c\<lparr>peerIP := map_of kvs ''peerIP''\<rparr> else c)
      in if isOfferer c1 then createOffer c1 else c1)"

text \<open>
  \<^verbatim>\<open>JSONObjectWithData:options:0\<close> gives nil for text that is not JSON and for a value that is
  neither an array nor an object.
\<close>

definition container :: "json option \<Rightarrow> json option" where
  "container v = (case v of Some (JArr xs) \<Rightarrow> v | Some (JObj kvs) \<Rightarrow> v | _ \<Rightarrow> None)"

text \<open>The dispatch on the message type; \<open>j\<close> is the parsed value or nil.\<close>

definition dispatch_signal :: "framework \<Rightarrow> json option \<Rightarrow> client \<Rightarrow> crash + client" where
  "dispatch_signal fw j c =
     bindE (subscript j ''type'') (\<lambda>ty.
       let kvs = (case j of Some (JObj m) \<Rightarrow> m | _ \<Rightarrow> []) in
       if ty = Some (JStr ''role'') then Inr (on_role kvs c)
       else if ty = Some (JStr ''peer_joined'') then Inr (on_peer_joined kvs c)
       else if ty = Some (JStr ''peer_left'') then Inr (dispatch_main (TStateDidChange kClosed) c)
       else if ty = Some (JStr ''error'') then Inr c
       else if ty = Some (JStr ''peers'')
       then Inr (dispatch_main (TOnlinePeers (normalize_peers (map_of kvs ''peers''))) c)
       else if ty = Some (JStr ''offer'')
       then (if \<not> peerConnection c then Inr c
             else if accepts_sdp fw (map_of kvs ''sdp'')
             then Inr (pc_async (SetRemoteDescription SdpOffer (map_of kvs ''sdp'')) OfferRemoteSet c)
             else Inl FrameworkException)
       else if ty = Some (JStr ''answer'')
       then (if accepts_sdp fw (map_of kvs ''sdp'')
             then Inr (pc_async (SetRemoteDescription SdpAnswer (map_of kvs ''sdp'')) AnswerRemoteSet c)
             else Inl FrameworkException)
       else if ty = Some (JStr ''candidate'')
       then bindE (parse_candidate fw (map_of kvs ''candidate'')) (\<lambda>k. Inr (on_candidate k c))
       else Inr c)"

text \<open>
  One frame: \<open>None\<close> where the framework delivers no data, else the value the text denotes
  (\<open>Some None\<close> where it is not JSON). Every path that returns re-arms the receive.
\<close>

definition handle_signal :: "framework \<Rightarrow> json option option \<Rightarrow> client \<Rightarrow> crash + client" where
  "handle_signal fw frame c0 =
     (let c = c0\<lparr>receiveArmed := False\<rparr> in
      case frame of
        None \<Rightarrow> Inr (receiveSignal c)
      | Some raw \<Rightarrow> bindE (dispatch_signal fw (container raw) c) (\<lambda>c'. Inr (receiveSignal c')))"

section \<open>Requests and delegate callbacks\<close>

definition connectToPeerIP :: "string option \<Rightarrow> client \<Rightarrow> client" where
  "connectToPeerIP ip c =
     (case ip of
        None \<Rightarrow> c
      | Some k \<Rightarrow>
          if k = '''' then c
          else if \<not> socket c then c
          else sendSignalingJSONObject
                 (JObj [(''type'', JStr ''pair_request''), (''targetIP'', JStr k)]) c)"

definition refreshOnlinePeers :: "client \<Rightarrow> client" where
  "refreshOnlinePeers c =
     (if \<not> socket c then c else sendSignalingJSONObject (JObj [(''type'', JStr ''list_peers'')]) c)"

definition didGenerateIceCandidate :: "string \<Rightarrow> int \<Rightarrow> string \<Rightarrow> client \<Rightarrow> client" where
  "didGenerateIceCandidate sdp ml mid c =
     sendSignalingJSONObject
       (JObj [(''type'', JStr ''candidate''),
              (''candidate'', JObj [(''candidate'', JStr sdp), (''sdpMLineIndex'', JNum ml),
                                    (''sdpMid'', JStr mid)])]) c"

datatype ice_state = IceNew | IceChecking | IceConnected | IceCompleted | IceFailed | IceDisconnected | IceClosed

definition didChangeIceConnectionState :: "ice_state \<Rightarrow> client \<Rightarrow> client" where
  "didChangeIceConnectionState st c =
     (if st = IceDisconnected \<or> st = IceFailed \<or> st = IceClosed then dispatch_main TIceDown c else c)"

definition didOpenDataChannel :: "data_channel \<Rightarrow> client \<Rightarrow> client" where
  "didOpenDataChannel d c =
     (if dataChannel c = None \<or> readyState_of c \<noteq> kOpen
      then dispatch_main (TStateDidChange kOpen) (c\<lparr>dataChannel := Some d\<rparr>) else c)"

section \<open>Runs of the signaling half\<close>

text \<open>
  An event is a frame from the server or the completion of one of the outstanding peer
  connection calls, in any order the framework chooses.
\<close>

datatype signal_event = Frame "json option option" | Completion nat pc_result

definition signal_step :: "framework \<Rightarrow> signal_event \<Rightarrow> client \<Rightarrow> crash + client" where
  "signal_step fw e c =
     (case e of
        Frame f \<Rightarrow> handle_signal fw f c
      | Completion n r \<Rightarrow>
          if n < length (pcPending c)
          then Inr (complete (pcPending c ! n) r
                 (c\<lparr>pcPending := take n (pcPending c) @ drop (Suc n) (pcPending c)\<rparr>))
          else Inr c)"

fun signal_run :: "framework \<Rightarrow> signal_event list \<Rightarrow> client \<Rightarrow> crash + client" where
  "signal_run fw [] c = Inr c"
| "signal_run fw (e # es) c = bindE (signal_step fw e c) (signal_run fw es)"

section \<open>Candidates under undisturbed handlers\<close>

fun added_of :: "pc_call list \<Rightarrow> candidate list" where
  "added_of [] = []"
| "added_of (AddIceCandidate k # xs) = k # added_of xs"
| "added_of (_ # xs) = added_of xs"

lemma added_of_append [simp]: "added_of (xs @ ys) = added_of xs @ added_of ys"
  by (induction xs rule: added_of.induct) auto

text \<open>The candidate a frame carries, if it is a well-formed candidate frame.\<close>

definition candidate_in :: "framework \<Rightarrow> signal_event \<Rightarrow> candidate list" where
  "candidate_in fw e =
     (case e of
        Frame (Some (Some (JObj kvs))) \<Rightarrow>
          if map_of kvs ''type'' = Some (JStr ''candidate'')
          then (case parse_candidate fw (map_of kvs ''candidate'') of Inr k \<Rightarrow> [k] | Inl _ \<Rightarrow> [])
          else []
      | _ \<Rightarrow> [])"

definition cand_inv :: "candidate list \<Rightarrow> client \<Rightarrow> bool" where
  "cand_inv ks c \<longleftrightarrow>
     peerConnection c \<and>
     added_of (pcLog c) @ pendingCandidates c = ks \<and>
     (if hasRemoteDescription c then pendingCandidates c = [] else added_of (pcLog c) = [])"

lemma fold_add_ice:
  "peerConnection c \<Longrightarrow>
   fold (\<lambda>k. pc_do (AddIceCandidate k)) ks c = c\<lparr>pcLog := pcLog c @ map AddIceCandidate ks\<rparr>"
  by (induction ks arbitrary: c) (simp_all add: pc_do_def)

lemma added_of_map [simp]: "added_of (map AddIceCandidate ks) = ks"
  by (induction ks) simp_all

lemma cand_inv_flush: "cand_inv ks c \<Longrightarrow> cand_inv ks (flush_candidates c)"
  by (auto simp: cand_inv_def flush_candidates_def fold_add_ice)

lemma cand_inv_on_candidate: "cand_inv ks c \<Longrightarrow> cand_inv (ks @ [k]) (on_candidate k c)"
  by (auto simp: cand_inv_def on_candidate_def pc_do_def split: if_splits)

lemma cand_inv_frame:
  "cand_inv ks c \<Longrightarrow> peerConnection c' = peerConnection c \<Longrightarrow>
   added_of (pcLog c') = added_of (pcLog c) \<Longrightarrow> pendingCandidates c' = pendingCandidates c \<Longrightarrow>
   hasRemoteDescription c' = hasRemoteDescription c \<Longrightarrow> cand_inv ks c'"
  by (simp add: cand_inv_def)

lemma cand_inv_async:
  "cand_inv ks c \<Longrightarrow> \<forall>k. x \<noteq> AddIceCandidate k \<Longrightarrow> cand_inv ks (pc_async x h c)"
  by (cases x) (auto simp: pc_async_def cand_inv_def)

lemma cand_inv_complete: "cand_inv ks c \<Longrightarrow> cand_inv ks (complete h r c)"
proof (cases h)
  case OfferRemoteSet
  assume "cand_inv ks c"
  with OfferRemoteSet show ?thesis by (simp add: cand_inv_async cand_inv_flush)
qed (auto simp: cand_inv_async cand_inv_flush sendSignalingJSONObject_def
      intro: cand_inv_frame split: pc_result.split)

text \<open>A frame without a candidate leaves the candidates alone.\<close>

lemma candidate_frame:
  assumes "handle_signal fw (Some (Some (JObj kvs))) c = Inr c'" and "map_of kvs ''type'' = Some (JStr ''candidate'')"
  shows "\<exists>k. parse_candidate fw (map_of kvs ''candidate'') = Inr k \<and> c' = receiveSignal (on_candidate k (c\<lparr>receiveArmed := False\<rparr>))"
  using assms by (auto simp: handle_signal_def dispatch_signal_def container_def subscript_def Let_def)

lemma dispatch_keeps:
  assumes "dispatch_signal fw (Some (JObj kvs)) c = Inr c'" and "map_of kvs ''type'' \<noteq> Some (JStr ''candidate'')"
  shows "peerConnection c' = peerConnection c \<and> added_of (pcLog c') = added_of (pcLog c) \<and>
      pendingCandidates c' = pendingCandidates c \<and> hasRemoteDescription c' = hasRemoteDescription c"
  using assms
  by (auto simp: dispatch_signal_def subscript_def Let_def on_role_def on_peer_joined_def createOffer_def pc_do_def
      pc_async_def dispatch_main_def split: if_splits)

lemma other_frame_keeps:
  assumes ok: "handle_signal fw f c = Inr c'" and none: "candidate_in fw (Frame f) = []"
  shows "peerConnection c' = peerConnection c \<and> added_of (pcLog c') = added_of (pcLog c) \<and>
      pendingCandidates c' = pendingCandidates c \<and> hasRemoteDescription c' = hasRemoteDescription c"
proof (cases "\<exists>kvs. f = Some (Some (JObj kvs))")
  case True
  then obtain kvs where f: "f = Some (Some (JObj kvs))" by blast
  have ty: "map_of kvs ''type'' \<noteq> Some (JStr ''candidate'')"
    using candidate_frame [OF ok [unfolded f]] none by (auto simp: f candidate_in_def)
  from ok obtain d where "dispatch_signal fw (Some (JObj kvs)) (c\<lparr>receiveArmed := False\<rparr>) = Inr d" "c' = receiveSignal d"
    by (auto simp: f handle_signal_def container_def Let_def)
  with dispatch_keeps [OF this(1) ty] show ?thesis by (simp add: receiveSignal_def)
next
  case False
  with ok show ?thesis
    by (auto simp: handle_signal_def dispatch_signal_def container_def subscript_def Let_def receiveSignal_def
        split: option.splits json.splits)
qed

lemma cand_inv_signal:
  assumes inv: "cand_inv ks c" and ok: "handle_signal fw f c = Inr c'"
  shows "cand_inv (ks @ candidate_in fw (Frame f)) c'"
proof (cases "\<exists>kvs. f = Some (Some (JObj kvs)) \<and> map_of kvs ''type'' = Some (JStr ''candidate'')")
  case True
  then obtain kvs where f: "f = Some (Some (JObj kvs))" and ty: "map_of kvs ''type'' = Some (JStr ''candidate'')"
    by blast
  from candidate_frame [OF ok [unfolded f] ty] obtain k where k: "parse_candidate fw (map_of kvs ''candidate'') = Inr k"
    and c': "c' = receiveSignal (on_candidate k (c\<lparr>receiveArmed := False\<rparr>))" by blast
  have "cand_inv ks (c\<lparr>receiveArmed := False\<rparr>)"
    using inv by (rule cand_inv_frame) simp_all
  from cand_inv_on_candidate [OF this, of k] have "cand_inv (ks @ [k]) c'"
    unfolding c' receiveSignal_def by (rule cand_inv_frame) simp_all
  with f ty k show ?thesis by (simp add: candidate_in_def)
next
  case False
  then have none: "candidate_in fw (Frame f) = []"
    by (auto simp: candidate_in_def split: option.split json.split)
  with inv other_frame_keeps [OF ok none] show ?thesis by (auto intro: cand_inv_frame)
qed

lemma cand_inv_step:
  assumes "cand_inv ks c" "signal_step fw e c = Inr c'"
  shows "cand_inv (ks @ candidate_in fw e) c'"
proof (cases e)
  case (Completion n r)
  have "cand_inv ks (c\<lparr>pcPending := p\<rparr>)" for p
    using assms(1) by (rule cand_inv_frame) simp_all
  with Completion assms show ?thesis
    by (auto simp: signal_step_def candidate_in_def cand_inv_complete split: if_splits)
qed (use assms in \<open>auto simp: signal_step_def intro: cand_inv_signal\<close>)

lemma cand_inv_run:
  "cand_inv ks c \<Longrightarrow> signal_run fw es c = Inr c' \<Longrightarrow>
   cand_inv (ks @ concat (map (candidate_in fw) es)) c'"
proof (induction es arbitrary: ks c)
  case (Cons e es)
  from Cons.prems(2) obtain c1 where c1: "signal_step fw e c = Inr c1" "signal_run fw es c1 = Inr c'"
    by auto
  from Cons.IH [OF cand_inv_step [OF Cons.prems(1) c1(1)] c1(2)] show ?case by simp
qed simp

text \<open>
  When every handler runs to its end undisturbed, ICE candidates survive every order of signaling frames and peer
  connection completions: at any point of a run of a started client, the candidates given to the peer
  connection followed by the queued ones are exactly those received so far, in order; nothing is
  given to it before a remote description is set, and nothing stays queued afterwards. What is left of this when
  the handlers interleave is the subject of \<open>Signal_Race\<close>.
\<close>

theorem candidates_exact_if_atomic:
  assumes "signal_run fw es (start (client_init files)) = Inr c"
  shows "added_of (pcLog c) @ pendingCandidates c = concat (map (candidate_in fw) es)
    \<and> (if hasRemoteDescription c then pendingCandidates c = [] else added_of (pcLog c) = [])"
proof -
  have "cand_inv [] (start (client_init files))"
    by (simp add: cand_inv_def start_def setupWebSocket_def setupPeerConnection_def receiveSignal_def
        client_init_def)
  from cand_inv_run [OF this assms] show ?thesis by (auto simp: cand_inv_def)
qed

text \<open>A framework that insists on what its interfaces declare, and one candidate frame.\<close>

definition strict_framework :: framework where
  "strict_framework = \<lparr>decimal_prefix = (\<lambda>_. 0), tolerates = (\<lambda>_. False)\<rparr>"

definition demo_candidate :: "string \<Rightarrow> signal_event" where
  "demo_candidate s = Frame (Some (Some (JObj [(''type'', JStr ''candidate''),
     (''candidate'', JObj [(''candidate'', JStr s), (''sdpMLineIndex'', JNum 0), (''sdpMid'', JStr ''0'')])])))"

section \<open>Which frames end the process\<close>

definition bad_candidate :: "framework \<Rightarrow> json option \<Rightarrow> bool" where
  "bad_candidate fw cd =
     (case cd of
        None \<Rightarrow> \<not> tolerates fw None
      | Some (JObj m) \<Rightarrow>
          (case map_of m ''sdpMLineIndex'' of
             Some JNull \<Rightarrow> True | Some (JArr _) \<Rightarrow> True | Some (JObj _) \<Rightarrow> True | _ \<Rightarrow> False) \<or>
          \<not> accepts_candidate fw (map_of m ''candidate'') (map_of m ''sdpMid'')
      | _ \<Rightarrow> True)"

definition fatal_frame :: "framework \<Rightarrow> client \<Rightarrow> json option option \<Rightarrow> bool" where
  "fatal_frame fw c f =
     (case f of
        Some (Some (JArr _)) \<Rightarrow> True
      | Some (Some (JObj kvs)) \<Rightarrow>
          (map_of kvs ''type'' = Some (JStr ''candidate'') \<and> bad_candidate fw (map_of kvs ''candidate'')) \<or>
          (map_of kvs ''type'' = Some (JStr ''offer'') \<and> peerConnection c \<and> \<not> accepts_sdp fw (map_of kvs ''sdp'')) \<or>
          (map_of kvs ''type'' = Some (JStr ''answer'') \<and> \<not> accepts_sdp fw (map_of kvs ''sdp''))
      | _ \<Rightarrow> False)"

lemma int_value_crash:
  "(\<exists>e. int_value fw v = Inl e) \<longleftrightarrow>
   (case v of Some JNull \<Rightarrow> True | Some (JArr _) \<Rightarrow> True | Some (JObj _) \<Rightarrow> True | _ \<Rightarrow> False)"
  by (simp add: int_value_def split: option.split json.split)

lemma parse_candidate_crash: "(\<exists>e. parse_candidate fw v = Inl e) \<longleftrightarrow> bad_candidate fw v"
proof (cases "\<exists>m. v = Some (JObj m)")
  case True
  then obtain m where v: "v = Some (JObj m)" by blast
  have "(\<exists>e. parse_candidate fw v = Inl e) \<longleftrightarrow> (\<exists>e. int_value fw (map_of m ''sdpMLineIndex'') = Inl e) \<or>
      \<not> accepts_candidate fw (map_of m ''candidate'') (map_of m ''sdpMid'')"
    by (cases "int_value fw (map_of m ''sdpMLineIndex'')") (simp_all add: v parse_candidate_def subscript_def)
  then show ?thesis by (simp add: v int_value_crash bad_candidate_def)
next
  case False
  then show ?thesis
    by (auto simp: parse_candidate_def subscript_def bad_candidate_def int_value_def accepts_candidate_def
        split: option.splits json.splits)
qed

lemma dispatch_crash:
  "(\<exists>e. dispatch_signal fw (Some (JObj kvs)) c = Inl e) \<longleftrightarrow> fatal_frame fw c (Some (Some (JObj kvs)))"
proof -
  have p: "(\<exists>e. bindE (parse_candidate fw v) (\<lambda>k. Inr (g k)) = Inl e) \<longleftrightarrow> bad_candidate fw v" for v and g :: "candidate \<Rightarrow> client"
    unfolding parse_candidate_crash [symmetric] by (cases "parse_candidate fw v") simp_all
  show ?thesis
    by (simp add: dispatch_signal_def subscript_def Let_def fatal_frame_def p)
qed

text \<open>
  C26. The signaling handler, whatever the server sends and whatever the framework does with a value that
  is not what its interface declares (\<open>fw\<close>): it either ends the process or returns with
  the next receive armed. It ends the process exactly on a top-level array; on a candidate frame whose
  payload is not an object, or whose line index is null, an array or an object, or whose texts the framework
  does not take; and on an offer (while there is a peer connection) or an answer whose description it does not take.
  So with a framework that raises on everything but strings, a null description is fatal. The check for an
  object that the data channel handler makes is missing here.
\<close>

theorem signal_frame_outcome:
  "(\<exists>e. handle_signal fw f c = Inl e) = fatal_frame fw c f
   \<and> (\<forall>c'. handle_signal fw f c = Inr c' \<longrightarrow> receiveArmed c')"
proof
  show "(\<exists>e. handle_signal fw f c = Inl e) = fatal_frame fw c f"
  proof (cases "\<exists>kvs. f = Some (Some (JObj kvs))")
    case True
    then obtain kvs where f: "f = Some (Some (JObj kvs))" by blast
    have "fatal_frame fw (c\<lparr>receiveArmed := False\<rparr>) f = fatal_frame fw c f" by (simp add: f fatal_frame_def)
    moreover have "(\<exists>e. handle_signal fw f c = Inl e) \<longleftrightarrow> (\<exists>e. dispatch_signal fw (Some (JObj kvs)) (c\<lparr>receiveArmed := False\<rparr>) = Inl e)"
      by (simp add: f handle_signal_def container_def bindE_Inl_iff)
    ultimately show ?thesis using dispatch_crash f by simp
  next
    case False
    then show ?thesis
      by (auto simp: handle_signal_def dispatch_signal_def container_def subscript_def Let_def
          fatal_frame_def bindE_Inl_iff split: option.splits json.splits)
  qed
  show "\<forall>c'. handle_signal fw f c = Inr c' \<longrightarrow> receiveArmed c'"
    by (auto simp: handle_signal_def Let_def receiveSignal_def split: option.splits)
qed

theorem signal_frame_outcome_witness:
  "(\<exists>e. handle_signal strict_framework (Some (Some (JObj [(''type'', JStr ''answer''), (''sdp'', JNull)])))
         (client_init (\<lambda>_. None)) = Inl e)
   \<and> (\<exists>c'. handle_signal strict_framework None (client_init (\<lambda>_. None)) = Inr c' \<and> receiveArmed c')"
proof -
  let ?c = "client_init (\<lambda>_. None)" and ?f = "Some (Some (JObj [(''type'', JStr ''answer''), (''sdp'', JNull)]))"
  have bad: "\<exists>e. handle_signal strict_framework ?f ?c = Inl e"
    using signal_frame_outcome [of strict_framework ?f ?c] by (simp add: fatal_frame_def strict_framework_def accepts_sdp_def is_text_def)
  have "\<not> (\<exists>e. handle_signal strict_framework None ?c = Inl e)"
    using signal_frame_outcome [of strict_framework None ?c] by (simp add: fatal_frame_def)
  then obtain c' where "handle_signal strict_framework None ?c = Inr c'"
    by (cases "handle_signal strict_framework None ?c") auto
  with signal_frame_outcome [of strict_framework None ?c] bad show ?thesis by blast
qed

end
