(* ===== verification/Signal_Race.thy ===== *)
theory Signal_Race
  imports Rtc_Client "HOL-Library.Multiset"
begin

text \<open>
  The queue of early candidates under concurrency. The WebSocket's handler (\<^verbatim>\<open>RTCClient.m\<close>, 80 to 229) runs on the
  socket's queue, the completion handlers of the peer connection run on a thread of the framework, and nothing orders
  the two: the handler's test of \<^verbatim>\<open>hasRemoteDescription\<close> and its \<^verbatim>\<open>addObject:\<close> (217 to 222) interleave with
  the completion's assignment, enumeration and \<^verbatim>\<open>removeAllObjects\<close> (176 to 180, 202 to 206). Here each of these is a
  step of its own, on the whole state of the client. Two things are serial: a frame is delivered only after the handler of the
  last one has re-armed the receive, and the framework runs its completion handlers one at a time.
  A single property access or array call is one step.
\<close>

section \<open>Control points\<close>

datatype handler_pc = HIdle | HCheck candidate | HAdd candidate | HQueue candidate

text \<open>
  The completion handler of a remote description: assign the flag, start the enumeration, visit element \<open>i\<close> of \<open>n\<close>,
  clear the array (\<open>n\<close> elements have been visited), go on to the answer.
\<close>

datatype flush_pc =
    FIdle
  | FSet pc_cont
  | FEnum pc_cont
  | FIter pc_cont nat nat
  | FClear pc_cont nat
  | FAnswer pc_cont

text \<open>
  Two fields only record: the candidates received, and whether the flag was ever set while the handler stood between
  its test of the flag and its append.
\<close>

record race =
  rclient :: client
  handler_at :: handler_pc
  flush_at :: flush_pc
  received :: "candidate list"
  raced :: bool

definition race_start :: "(string \<Rightarrow> byte list option) \<Rightarrow> race" where
  "race_start files =
     \<lparr>rclient = start (client_init files), handler_at = HIdle, flush_at = FIdle, received = [], raced = False\<rparr>"

section \<open>The steps of the two threads\<close>

text \<open>A frame; one without a candidate does not touch the queue and is handled in one step.\<close>

definition receive_frame :: "framework \<Rightarrow> json option option \<Rightarrow> race \<Rightarrow> crash + race" where
  "receive_frame fw f r =
     (if handler_at r \<noteq> HIdle then Inr r
      else case candidate_in fw (Frame f) of
        k # _ \<Rightarrow> Inr (r\<lparr>rclient := (rclient r)\<lparr>receiveArmed := False\<rparr>, handler_at := HCheck k, received := received r @ [k]\<rparr>)
      | [] \<Rightarrow> bindE (handle_signal fw f (rclient r)) (\<lambda>c. Inr (r\<lparr>rclient := c\<rparr>)))"

definition handler_move :: "race \<Rightarrow> race" where
  "handler_move r =
     (case handler_at r of
        HIdle \<Rightarrow> r
      | HCheck k \<Rightarrow> r\<lparr>handler_at := (if hasRemoteDescription (rclient r) then HAdd k else HQueue k)\<rparr>
      | HAdd k \<Rightarrow> r\<lparr>rclient := receiveSignal (pc_do (AddIceCandidate k) (rclient r)), handler_at := HIdle\<rparr>
      | HQueue k \<Rightarrow>
          r\<lparr>rclient := receiveSignal ((rclient r)\<lparr>pendingCandidates := pendingCandidates (rclient r) @ [k]\<rparr>),
            handler_at := HIdle\<rparr>)"

text \<open>A remote description is in place: only then does a completion handler touch the queue.\<close>

definition flushes :: "pc_cont \<Rightarrow> pc_result \<Rightarrow> bool" where
  "flushes h res \<longleftrightarrow> (h = OfferRemoteSet \<or> h = AnswerRemoteSet) \<and> res \<noteq> ResultError"

definition finish_call :: "nat \<Rightarrow> pc_result \<Rightarrow> race \<Rightarrow> race" where
  "finish_call n res r =
     (let c = rclient r in
      if flush_at r \<noteq> FIdle \<or> length (pcPending c) \<le> n then r
      else let h = pcPending c ! n;
               c1 = c\<lparr>pcPending := take n (pcPending c) @ drop (Suc n) (pcPending c)\<rparr>
           in if flushes h res then r\<lparr>rclient := c1, flush_at := FSet h\<rparr>
              else r\<lparr>rclient := complete h res c1\<rparr>)"

text \<open>
  The enumeration raises as soon as it finds, before an element, that the array has changed since its start; the only
  change the other thread makes is an append, so the length tells.
\<close>

definition flush_move :: "race \<Rightarrow> crash + race" where
  "flush_move r =
     (let c = rclient r in
      case flush_at r of
        FIdle \<Rightarrow> Inr r
      | FSet h \<Rightarrow> Inr (r\<lparr>rclient := c\<lparr>hasRemoteDescription := True\<rparr>, flush_at := FEnum h,
                      raced := raced r \<or> (case handler_at r of HQueue _ \<Rightarrow> True | _ \<Rightarrow> False)\<rparr>)
      | FEnum h \<Rightarrow> Inr (r\<lparr>flush_at := FIter h 0 (length (pendingCandidates c))\<rparr>)
      | FIter h i n \<Rightarrow>
          if n \<le> i then Inr (r\<lparr>flush_at := FClear h n\<rparr>)
          else if length (pendingCandidates c) \<noteq> n then Inl MutatedWhileEnumerated
          else Inr (r\<lparr>rclient := pc_do (AddIceCandidate (pendingCandidates c ! i)) c, flush_at := FIter h (Suc i) n\<rparr>)
      | FClear h n \<Rightarrow> Inr (r\<lparr>rclient := c\<lparr>pendingCandidates := []\<rparr>, flush_at := FAnswer h\<rparr>)
      | FAnswer h \<Rightarrow>
          Inr (r\<lparr>rclient := (if h = OfferRemoteSet then pc_async AnswerForConstraints AnswerCreated c else c),
                 flush_at := FIdle\<rparr>))"

datatype race_move = Receive "json option option" | HandlerMove | Finish nat pc_result | FlushMove

fun race_step :: "framework \<Rightarrow> race_move \<Rightarrow> race \<Rightarrow> crash + race" where
  "race_step fw (Receive f) r = receive_frame fw f r"
| "race_step fw HandlerMove r = Inr (handler_move r)"
| "race_step fw (Finish n res) r = Inr (finish_call n res r)"
| "race_step fw FlushMove r = flush_move r"

fun race_run :: "framework \<Rightarrow> race_move list \<Rightarrow> race \<Rightarrow> crash + race" where
  "race_run fw [] r = Inr r"
| "race_run fw (m # ms) r = bindE (race_step fw m r) (race_run fw ms)"

lemma race_run_append: "race_run fw (ms @ ns) r = bindE (race_run fw ms r) (race_run fw ns)"
proof (induction ms arbitrary: r)
  case (Cons m ms)
  then show ?case by (cases "race_step fw m r") simp_all
qed simp

section \<open>Undisturbed, the steps are the handlers\<close>

text \<open>The handler of a candidate frame.\<close>

lemma handler_alone:
  assumes "handler_at r = HIdle" and "candidate_in fw (Frame f) = [k]" and "handle_signal fw f (rclient r) = Inr c"
  shows "race_run fw [Receive f, HandlerMove, HandlerMove] r = Inr (r\<lparr>rclient := c, received := received r @ [k]\<rparr>)"
proof -
  from assms(2) obtain kvs where f: "f = Some (Some (JObj kvs))" and ty: "map_of kvs ''type'' = Some (JStr ''candidate'')"
    and p: "parse_candidate fw (map_of kvs ''candidate'') = Inr k"
    by (auto simp: candidate_in_def split: option.splits json.splits if_splits sum.splits)
  from candidate_frame [OF assms(3) [unfolded f] ty] p
  have "c = receiveSignal (on_candidate k ((rclient r)\<lparr>receiveArmed := False\<rparr>))" by simp
  with assms(1,2) show ?thesis
    by (simp add: receive_frame_def handler_move_def on_candidate_def)
qed

lemma flush_elements:
  assumes "flush_at r = FIter h i (i + m)" and "length (pendingCandidates (rclient r)) = i + m" and "peerConnection (rclient r)"
  shows "race_run fw (replicate m FlushMove) r =
    Inr (r\<lparr>rclient := fold (\<lambda>k. pc_do (AddIceCandidate k)) (drop i (pendingCandidates (rclient r))) (rclient r),
           flush_at := FIter h (i + m) (i + m)\<rparr>)"
  using assms
proof (induction m arbitrary: i r)
  case (Suc m)
  let ?p = "pendingCandidates (rclient r)" and ?c = "rclient r"
  let ?q = "r\<lparr>rclient := pc_do (AddIceCandidate (?p ! i)) ?c, flush_at := FIter h (Suc i) (Suc i + m)\<rparr>"
  have step: "race_step fw FlushMove r = Inr ?q" using Suc.prems by (simp add: flush_move_def Let_def)
  have "drop i ?p = ?p ! i # drop (Suc i) ?p" using Suc.prems(2) by (simp add: Cons_nth_drop_Suc)
  with Suc.IH [of ?q "Suc i"] Suc.prems step show ?case by (simp add: pc_do_def)
qed simp

text \<open>The completion handler of a remote description.\<close>

lemma flush_alone:
  assumes "handler_at r = HIdle" "flush_at r = FIdle" "peerConnection (rclient r)" "n < length (pcPending (rclient r))"
    and "flushes (pcPending (rclient r) ! n) res"
  shows "race_run fw (Finish n res # FlushMove # FlushMove # replicate (length (pendingCandidates (rclient r))) FlushMove
        @ [FlushMove, FlushMove, FlushMove]) r =
    Inr (r\<lparr>rclient := complete (pcPending (rclient r) ! n) res
        ((rclient r)\<lparr>pcPending := take n (pcPending (rclient r)) @ drop (Suc n) (pcPending (rclient r))\<rparr>)\<rparr>)"
proof -
  let ?h = "pcPending (rclient r) ! n" and ?m = "length (pendingCandidates (rclient r))"
  let ?c = "(rclient r)\<lparr>pcPending := take n (pcPending (rclient r)) @ drop (Suc n) (pcPending (rclient r))\<rparr>"
  let ?d = "?c\<lparr>hasRemoteDescription := True\<rparr>"
  let ?q = "r\<lparr>rclient := ?d, flush_at := FIter ?h 0 ?m\<rparr>"
  have pre: "race_run fw [Finish n res, FlushMove, FlushMove] r = Inr ?q"
    using assms by (simp add: finish_call_def flush_move_def Let_def)
  have mid: "race_run fw (replicate ?m FlushMove) ?q =
      Inr (?q\<lparr>rclient := fold (\<lambda>k. pc_do (AddIceCandidate k)) (pendingCandidates ?d) ?d, flush_at := FIter ?h ?m ?m\<rparr>)"
    using flush_elements [of ?q ?h 0 ?m fw] assms(3) by simp
  have h: "?h = OfferRemoteSet \<or> ?h = AnswerRemoteSet" "res \<noteq> ResultError" using assms(5) by (auto simp: flushes_def)
  have fin: "race_run fw [FlushMove, FlushMove, FlushMove] (?q\<lparr>rclient := x, flush_at := FIter ?h ?m ?m\<rparr>) =
      Inr (r\<lparr>rclient := (if ?h = OfferRemoteSet then pc_async AnswerForConstraints AnswerCreated (x\<lparr>pendingCandidates := []\<rparr>)
        else x\<lparr>pendingCandidates := []\<rparr>)\<rparr>)" for x
    using assms(2) by (simp add: flush_move_def Let_def)
  have "complete ?h res ?c = (if ?h = OfferRemoteSet then pc_async AnswerForConstraints AnswerCreated (flush_candidates ?c)
      else flush_candidates ?c)"
    using h by auto
  moreover have "Finish n res # FlushMove # FlushMove # replicate ?m FlushMove @ [FlushMove, FlushMove, FlushMove] =
      [Finish n res, FlushMove, FlushMove] @ replicate ?m FlushMove @ [FlushMove, FlushMove, FlushMove]" by simp
  ultimately show ?thesis
    by (simp only: race_run_append pre bindE.simps mid fin flush_candidates_def) simp
qed

section \<open>The invariant\<close>

text \<open>The candidate the handler holds, the queue elements already visited, and those that no visit will reach.\<close>

fun in_hand :: "handler_pc \<Rightarrow> candidate list" where
  "in_hand HIdle = []"
| "in_hand (HCheck k) = [k]"
| "in_hand (HAdd k) = [k]"
| "in_hand (HQueue k) = [k]"

fun visited :: "flush_pc \<Rightarrow> nat" where
  "visited (FIter h i n) = i"
| "visited (FClear h n) = n"
| "visited _ = 0"

fun late :: "flush_pc \<Rightarrow> nat \<Rightarrow> nat" where
  "late (FEnum h) m = 0"
| "late (FIter h i n) m = m - n"
| "late (FClear h n) m = m - n"
| "late _ m = m"

fun appending :: "handler_pc \<Rightarrow> nat" where
  "appending (HQueue k) = 1"
| "appending _ = 0"

fun flush_ok :: "flush_pc \<Rightarrow> nat \<Rightarrow> bool" where
  "flush_ok (FIter h i n) m \<longleftrightarrow> i \<le> n \<and> n \<le> m"
| "flush_ok (FClear h n) m \<longleftrightarrow> n \<le> m"
| "flush_ok _ m \<longleftrightarrow> True"

abbreviation given :: "race \<Rightarrow> candidate list" where
  "given r \<equiv> added_of (pcLog (rclient r))"

abbreviation queued :: "race \<Rightarrow> candidate list" where
  "queued r \<equiv> pendingCandidates (rclient r)"

definition allowance :: "bool \<Rightarrow> nat" where
  "allowance b = (if b then 1 else 0)"

text \<open>Before the remote description nothing is given and nothing lost.\<close>

definition before_ok :: "race \<Rightarrow> bool" where
  "before_ok r \<longleftrightarrow>
     given r = [] \<and> queued r @ in_hand (handler_at r) = received r \<and> \<not> raced r \<and>
     (\<forall>k. handler_at r \<noteq> HAdd k) \<and> (flush_at r = FIdle \<or> (\<exists>h. flush_at r = FSet h))"

text \<open>Afterwards the candidates that are lost or that no visit will reach are at most one.\<close>

definition after_ok :: "race \<Rightarrow> bool" where
  "after_ok r \<longleftrightarrow>
     flush_ok (flush_at r) (length (queued r)) \<and>
     (\<exists>dropped. mset (received r) =
          mset (given r) + mset (drop (visited (flush_at r)) (queued r)) + mset (in_hand (handler_at r)) + dropped \<and>
        size dropped + late (flush_at r) (length (queued r)) + appending (handler_at r) \<le> allowance (raced r))"

definition race_inv :: "race \<Rightarrow> bool" where
  "race_inv r \<longleftrightarrow>
     peerConnection (rclient r) \<and> (if hasRemoteDescription (rclient r) then after_ok r else before_ok r)"

lemma race_inv_start: "race_inv (race_start files)"
  by (simp add: race_inv_def before_ok_def race_start_def start_def setupWebSocket_def setupPeerConnection_def
      receiveSignal_def client_init_def)

text \<open>Steps that change nothing the invariant looks at but the client's other fields.\<close>

lemma race_inv_frame:
  assumes "race_inv r" and "peerConnection c = peerConnection (rclient r)" "added_of (pcLog c) = given r"
    "pendingCandidates c = queued r" "hasRemoteDescription c = hasRemoteDescription (rclient r)"
  shows "race_inv (r\<lparr>rclient := c\<rparr>)"
  using assms by (cases "hasRemoteDescription (rclient r)") (simp_all add: race_inv_def before_ok_def after_ok_def)

lemma receive_inv:
  assumes inv: "race_inv r" and s: "receive_frame fw f r = Inr r'"
  shows "race_inv r'"
proof (cases "handler_at r")
  case HIdle
  show ?thesis
  proof (cases "candidate_in fw (Frame f)")
    case Nil
    with s HIdle obtain c where c: "handle_signal fw f (rclient r) = Inr c" "r' = r\<lparr>rclient := c\<rparr>"
      by (auto simp: receive_frame_def)
    from other_frame_keeps [OF c(1) Nil] show ?thesis unfolding c(2) by (intro race_inv_frame [OF inv]) simp_all
  next
    case (Cons k ks)
    with s HIdle have r': "r' = r\<lparr>rclient := (rclient r)\<lparr>receiveArmed := False\<rparr>, handler_at := HCheck k,
        received := received r @ [k]\<rparr>"
      by (simp add: receive_frame_def)
    from inv HIdle show ?thesis
      by (cases "hasRemoteDescription (rclient r)") (auto simp: r' race_inv_def before_ok_def after_ok_def)
  qed
qed (use inv s in \<open>simp_all add: receive_frame_def\<close>)

lemma visited_le: "flush_ok p m \<Longrightarrow> visited p \<le> m"
  by (cases p) auto

lemma handler_inv:
  assumes inv: "race_inv r"
  shows "race_inv (handler_move r)"
proof (cases "handler_at r")
  case HIdle
  with inv show ?thesis by (simp add: handler_move_def)
next
  case (HCheck k)
  with inv show ?thesis
    by (cases "hasRemoteDescription (rclient r)") (auto simp: handler_move_def race_inv_def before_ok_def after_ok_def)
next
  case (HAdd k)
  then have has: "hasRemoteDescription (rclient r)" using inv by (auto simp: race_inv_def before_ok_def split: if_splits)
  with inv HAdd show ?thesis
    by (auto simp: handler_move_def race_inv_def after_ok_def receiveSignal_def pc_do_def)
next
  case (HQueue k)
  show ?thesis
  proof (cases "hasRemoteDescription (rclient r)")
    case True
    with inv have ok: "after_ok r" by (simp add: race_inv_def)
    have v: "visited (flush_at r) \<le> length (queued r)" using ok visited_le by (auto simp: after_ok_def)
    have f: "flush_ok (flush_at r) (Suc (length (queued r)))" using ok by (cases "flush_at r") (auto simp: after_ok_def)
    have l: "late (flush_at r) (Suc (length (queued r))) \<le> Suc (late (flush_at r) (length (queued r)))"
      by (cases "flush_at r") auto
    obtain d where d: "mset (received r) = mset (given r) + mset (drop (visited (flush_at r)) (queued r)) + {#k#} + d"
      "size d + late (flush_at r) (length (queued r)) + 1 \<le> allowance (raced r)"
      using ok HQueue by (auto simp: after_ok_def)
    have "after_ok (handler_move r)" unfolding after_ok_def
      using f d l v HQueue by (intro conjI exI [of _ d]) (simp_all add: handler_move_def receiveSignal_def)
    with True HQueue inv show ?thesis by (simp add: handler_move_def race_inv_def receiveSignal_def)
  next
    case False
    with inv HQueue show ?thesis by (auto simp: handler_move_def race_inv_def before_ok_def receiveSignal_def)
  qed
qed

lemma complete_keeps:
  assumes "\<not> flushes h res"
  shows "peerConnection (complete h res c) = peerConnection c" "added_of (pcLog (complete h res c)) = added_of (pcLog c)"
    "pendingCandidates (complete h res c) = pendingCandidates c"
    "hasRemoteDescription (complete h res c) = hasRemoteDescription c"
  using assms
  by (cases h; auto simp: flushes_def pc_async_def sendSignalingJSONObject_def split: pc_result.split)+

lemma finish_inv:
  assumes inv: "race_inv r"
  shows "race_inv (finish_call n res r)"
proof (cases "flush_at r \<noteq> FIdle \<or> length (pcPending (rclient r)) \<le> n")
  case False
  let ?h = "pcPending (rclient r) ! n"
  let ?c = "(rclient r)\<lparr>pcPending := take n (pcPending (rclient r)) @ drop (Suc n) (pcPending (rclient r))\<rparr>"
  show ?thesis
  proof (cases "flushes ?h res")
    case True
    with False have "finish_call n res r = r\<lparr>rclient := ?c, flush_at := FSet ?h\<rparr>" by (simp add: finish_call_def Let_def)
    with inv False show ?thesis
      by (cases "hasRemoteDescription (rclient r)") (auto simp: race_inv_def before_ok_def after_ok_def)
  next
    case no: False
    with False have "finish_call n res r = r\<lparr>rclient := complete ?h res ?c\<rparr>" by (simp add: finish_call_def Let_def)
    with complete_keeps [OF no] show ?thesis by (auto intro: race_inv_frame [OF inv])
  qed
next
  case True
  then have "finish_call n res r = r" by (auto simp: finish_call_def Let_def)
  with inv show ?thesis by simp
qed

lemma flush_after:
  assumes inv: "race_inv r" and at: "flush_at r \<noteq> FIdle" "\<forall>h. flush_at r \<noteq> FSet h"
  shows "after_ok r" "hasRemoteDescription (rclient r)" "peerConnection (rclient r)"
  using assms by (auto simp: race_inv_def before_ok_def split: if_splits)

lemma flush_inv:
  assumes inv: "race_inv r" and s: "flush_move r = Inr r'"
  shows "race_inv r'"
proof (cases "flush_at r")
  case FIdle
  with inv s show ?thesis by (simp add: flush_move_def)
next
  case (FSet h)
  have q: "(case handler_at r of HQueue _ \<Rightarrow> True | _ \<Rightarrow> False) \<longleftrightarrow> appending (handler_at r) = 1"
    by (cases "handler_at r") auto
  have a: "appending (handler_at r) \<le> 1" by (cases "handler_at r") auto
  from s FSet have r': "r' = r\<lparr>rclient := (rclient r)\<lparr>hasRemoteDescription := True\<rparr>, flush_at := FEnum h,
      raced := raced r \<or> appending (handler_at r) = 1\<rparr>"
    by (simp add: flush_move_def Let_def q)
  show ?thesis
  proof (cases "hasRemoteDescription (rclient r)")
    case True
    with inv FSet obtain d where d: "mset (received r) = mset (given r) + mset (queued r) + mset (in_hand (handler_at r)) + d"
      "size d + length (queued r) + appending (handler_at r) \<le> allowance (raced r)"
      by (auto simp: race_inv_def after_ok_def)
    then have "size d + appending (handler_at r) \<le> allowance (raced r')" by (auto simp: r' allowance_def split: if_splits)
    with d(1) inv show ?thesis by (auto simp: race_inv_def after_ok_def r')
  next
    case False
    with inv have b: "given r = []" "queued r @ in_hand (handler_at r) = received r" by (simp_all add: race_inv_def before_ok_def)
    have "mset (received r) = mset (queued r) + mset (in_hand (handler_at r))" unfolding b(2) [symmetric] by simp
    moreover have "appending (handler_at r) \<le> allowance (raced r \<or> appending (handler_at r) = 1)"
      using a by (auto simp: allowance_def)
    ultimately show ?thesis using b(1) inv by (simp add: race_inv_def after_ok_def r')
  qed
next
  case (FEnum h)
  note f = flush_after [OF inv, simplified FEnum, simplified]
  from s FEnum have "r' = r\<lparr>flush_at := FIter h 0 (length (queued r))\<rparr>" by (simp add: flush_move_def Let_def)
  with f FEnum show ?thesis by (auto simp: race_inv_def after_ok_def)
next
  case (FIter h i n)
  note f = flush_after [OF inv, simplified FIter, simplified]
  show ?thesis
  proof (cases "n \<le> i")
    case True
    with f(1) FIter have "i = n" by (auto simp: after_ok_def)
    moreover from s FIter True have "r' = r\<lparr>flush_at := FClear h n\<rparr>" by (simp add: flush_move_def Let_def)
    ultimately show ?thesis using f FIter by (auto simp: race_inv_def after_ok_def)
  next
    case False
    with s FIter have n: "length (queued r) = n"
      and r': "r' = r\<lparr>rclient := pc_do (AddIceCandidate (queued r ! i)) (rclient r), flush_at := FIter h (Suc i) n\<rparr>"
      by (auto simp: flush_move_def Let_def split: if_splits)
    have dr: "drop i (queued r) = queued r ! i # drop (Suc i) (queued r)" using False n by (simp add: Cons_nth_drop_Suc)
    from f(1) FIter dr have "\<exists>d. mset (received r) = mset (given r) + {#queued r ! i#} + mset (drop (Suc i) (queued r)) +
        mset (in_hand (handler_at r)) + d \<and> size d + (length (queued r) - n) + appending (handler_at r) \<le> allowance (raced r)"
      by (auto simp: after_ok_def)
    with f(2,3) n False show ?thesis by (auto simp: race_inv_def after_ok_def r' pc_do_def)
  qed
next
  case (FClear h n)
  note f = flush_after [OF inv, simplified FClear, simplified]
  from s FClear have r': "r' = r\<lparr>rclient := (rclient r)\<lparr>pendingCandidates := []\<rparr>, flush_at := FAnswer h\<rparr>"
    by (simp add: flush_move_def Let_def)
  from f(1) FClear obtain d where d: "mset (received r) = mset (given r) + mset (drop n (queued r)) + mset (in_hand (handler_at r)) + d"
    "size d + (length (queued r) - n) + appending (handler_at r) \<le> allowance (raced r)"
    by (auto simp: after_ok_def)
  have "after_ok r'" unfolding after_ok_def r'
    using d by (intro conjI exI [of _ "mset (drop n (queued r)) + d"]) (simp_all add: ac_simps)
  with f show ?thesis by (simp add: race_inv_def r')
next
  case (FAnswer h)
  note f = flush_after [OF inv, simplified FAnswer, simplified]
  from s FAnswer have r': "r' = r\<lparr>rclient := (if h = OfferRemoteSet then pc_async AnswerForConstraints AnswerCreated (rclient r) else rclient r),
      flush_at := FIdle\<rparr>"
    by (simp add: flush_move_def Let_def)
  with f FAnswer show ?thesis by (auto simp: race_inv_def after_ok_def pc_async_def)
qed

lemma race_inv_run: "race_run fw ms r = Inr r' \<Longrightarrow> race_inv r \<Longrightarrow> race_inv r'"
proof (induction ms arbitrary: r)
  case (Cons m ms)
  then obtain q where q: "race_step fw m r = Inr q" "race_run fw ms q = Inr r'" by auto
  have "race_inv q"
    using q(1) Cons.prems(2) by (cases m) (auto intro: receive_inv handler_inv finish_inv flush_inv)
  with Cons.IH [OF q(2)] show ?case .
qed simp

lemma flush_crash:
  assumes inv: "race_inv r" and e: "flush_move r = Inl e"
  shows "raced r"
proof -
  from e obtain h i n where at: "flush_at r = FIter h i n" "length (queued r) \<noteq> n"
    by (auto simp: flush_move_def Let_def split: flush_pc.splits if_splits)
  note f = flush_after [OF inv, simplified at(1), simplified]
  from f(1) at show ?thesis by (cases "raced r") (auto simp: after_ok_def allowance_def)
qed

section \<open>What the queue guarantees\<close>

definition quiet :: "race \<Rightarrow> bool" where
  "quiet r \<longleftrightarrow> handler_at r = HIdle \<and> flush_at r = FIdle"

text \<open>
  C7. The candidates under every interleaving of the two threads, from the start of the client. Nothing is given to the peer
  connection before a remote description is set; no candidate is ever given twice or made up. When both threads are
  at rest: without a remote description every candidate received is queued, in order; with one, every candidate received
  has been given, except for at most one, and only if the flag was once set while the handler stood between its
  test of the flag and its append (\<open>raced\<close>). Then one candidate may be cleared unseen or stay in the queue; and
  only then can the enumeration raise. So the check-then-act race costs at most one candidate or the process, and
  without it each is given exactly once.
\<close>

theorem candidates_under_race:
  assumes "race_run fw ms (race_start files) = Inr r"
  shows "(\<not> hasRemoteDescription (rclient r) \<longrightarrow> added_of (pcLog (rclient r)) = [])
    \<and> mset (added_of (pcLog (rclient r))) \<subseteq># mset (received r)
    \<and> (quiet r \<longrightarrow>
         (if hasRemoteDescription (rclient r)
          then size (mset (received r) - mset (added_of (pcLog (rclient r)))) \<le> (if raced r then 1 else 0) \<and>
               (\<not> raced r \<longrightarrow> mset (added_of (pcLog (rclient r))) = mset (received r) \<and> pendingCandidates (rclient r) = [])
          else pendingCandidates (rclient r) = received r))
    \<and> (\<forall>e. race_step fw FlushMove r = Inl e \<longrightarrow> raced r)"
proof -
  have inv: "race_inv r" by (rule race_inv_run [OF assms race_inv_start])
  have crash: "\<forall>e. race_step fw FlushMove r = Inl e \<longrightarrow> raced r" using flush_crash [OF inv] by simp
  show ?thesis
  proof (cases "hasRemoteDescription (rclient r)")
    case True
    with inv obtain d where d: "mset (received r) = mset (given r) + mset (drop (visited (flush_at r)) (queued r)) +
        mset (in_hand (handler_at r)) + d" "size d + late (flush_at r) (length (queued r)) + appending (handler_at r) \<le> allowance (raced r)"
      by (auto simp: race_inv_def after_ok_def)
    have sub: "mset (given r) \<subseteq># mset (received r)" unfolding d(1) by (simp add: add.assoc)
    have "size (mset (received r) - mset (given r)) \<le> (if raced r then 1 else 0) \<and>
        (\<not> raced r \<longrightarrow> mset (given r) = mset (received r) \<and> queued r = [])" if "quiet r"
      using that d by (cases "raced r") (auto simp: quiet_def allowance_def)
    with True sub crash show ?thesis by simp
  next
    case False
    with inv have b: "given r = []" "queued r @ in_hand (handler_at r) = received r" by (simp_all add: race_inv_def before_ok_def)
    with False crash show ?thesis by (auto simp: quiet_def)
  qed
qed

section \<open>The race happens\<close>

definition offer_frame :: "json option option" where
  "offer_frame = Some (Some (JObj [(''type'', JStr ''offer''), (''sdp'', JStr ''v=0'')]))"

definition candidate_frame_of :: "string \<Rightarrow> json option option" where
  "candidate_frame_of s = Some (Some (JObj [(''type'', JStr ''candidate''),
     (''candidate'', JObj [(''candidate'', JStr s), (''sdpMLineIndex'', JNum 0), (''sdpMid'', JStr ''0'')])]))"

text \<open>An early candidate and a late one, without interference: both are given.\<close>

definition demo_calm :: "race_move list" where
  "demo_calm =
     [Receive (candidate_frame_of ''early''), HandlerMove, HandlerMove, Receive offer_frame, Finish 0 ResultOk]
     @ replicate 6 FlushMove @ [Receive (candidate_frame_of ''late''), HandlerMove, HandlerMove]"

text \<open>The handler tests the flag just before it is set and appends just before the queue is cleared.\<close>

definition demo_race :: "race_move list" where
  "demo_race =
     [Receive offer_frame, Receive (candidate_frame_of ''lost''), HandlerMove, Finish 0 ResultOk, FlushMove, FlushMove,
      FlushMove, HandlerMove, FlushMove, FlushMove]"

text \<open>The two frames on any state, and then the two runs.\<close>

definition demo_cand :: "string \<Rightarrow> candidate" where
  "demo_cand s = \<lparr>cand_sdp = Some (JStr s), cand_mline = 0, cand_mid = Some (JStr ''0'')\<rparr>"

lemma offer_step:
  "handler_at r = HIdle \<Longrightarrow> peerConnection (rclient r) \<Longrightarrow>
   receive_frame strict_framework offer_frame r =
     Inr (r\<lparr>rclient := (rclient r)\<lparr>receiveArmed := True,
       pcLog := pcLog (rclient r) @ [SetRemoteDescription SdpOffer (Some (JStr ''v=0''))],
       pcPending := pcPending (rclient r) @ [OfferRemoteSet]\<rparr>\<rparr>)"
  by (simp add: receive_frame_def candidate_in_def offer_frame_def handle_signal_def dispatch_signal_def container_def
      subscript_def Let_def pc_async_def receiveSignal_def)

lemma candidate_step:
  "handler_at r = HIdle \<Longrightarrow> s \<noteq> '''' \<Longrightarrow>
   receive_frame strict_framework (candidate_frame_of s) r =
     Inr (r\<lparr>rclient := (rclient r)\<lparr>receiveArmed := False\<rparr>, handler_at := HCheck (demo_cand s),
       received := received r @ [demo_cand s]\<rparr>)"
  by (simp add: receive_frame_def candidate_in_def candidate_frame_of_def parse_candidate_def subscript_def int_value_def
      accepts_candidate_def demo_cand_def)

definition fresh :: client where
  "fresh = start (client_init (\<lambda>_. None))"

lemma fresh_fields [simp]:
  "peerConnection fresh" "\<not> hasRemoteDescription fresh" "pendingCandidates fresh = []" "pcPending fresh = []" "pcLog fresh = []"
  by (simp_all add: fresh_def start_def setupWebSocket_def setupPeerConnection_def receiveSignal_def client_init_def)

lemma race_start_fresh:
  "race_start (\<lambda>_. None) = \<lparr>rclient = fresh, handler_at = HIdle, flush_at = FIdle, received = [], raced = False\<rparr>"
  by (simp add: race_start_def fresh_def)

lemmas move_defs = handler_move_def finish_call_def flush_move_def flushes_def pc_do_def pc_async_def receiveSignal_def Let_def

definition outcome_of :: "race_move list \<Rightarrow> (bool \<times> bool \<times> bool \<times> nat \<times> nat \<times> nat) option" where
  "outcome_of ms =
     (case race_run strict_framework ms (race_start (\<lambda>_. None)) of
        Inl _ \<Rightarrow> None
      | Inr r \<Rightarrow> Some (handler_at r = HIdle \<and> flush_at r = FIdle, hasRemoteDescription (rclient r), raced r,
          length (received r), length (given r), length (queued r)))"

lemma outcomes:
  "outcome_of demo_race = Some (True, True, True, 1, 0, 0)" "outcome_of demo_calm = Some (True, True, False, 2, 2, 0)"
  by (simp_all add: outcome_of_def demo_race_def demo_calm_def race_start_fresh offer_step candidate_step move_defs numeral_eq_Suc)

text \<open>
  The guarantee is the best there is: a candidate can be lost for good. Received, never given, no longer queued, with both threads
  at rest.
\<close>

theorem candidate_can_be_lost:
  "\<exists>r. race_run strict_framework demo_race (race_start (\<lambda>_. None)) = Inr r \<and> quiet r \<and>
     hasRemoteDescription (rclient r) \<and> length (received r) = 1 \<and> added_of (pcLog (rclient r)) = [] \<and>
     pendingCandidates (rclient r) = []"
  using outcomes(1) by (auto simp: outcome_of_def quiet_def split: sum.splits)

theorem candidates_under_race_witness:
  "\<exists>r. race_run strict_framework demo_calm (race_start (\<lambda>_. None)) = Inr r \<and> quiet r \<and> length (received r) = 2 \<and>
     mset (added_of (pcLog (rclient r))) = mset (received r)"
proof -
  obtain r where r: "race_run strict_framework demo_calm (race_start (\<lambda>_. None)) = Inr r"
    and q: "quiet r" "hasRemoteDescription (rclient r)" "\<not> raced r" "length (received r) = 2"
    using outcomes(2) by (auto simp: outcome_of_def quiet_def split: sum.splits)
  from candidates_under_race [OF r] q r show ?thesis by auto
qed

end
