(* ===== verification/Rtc_Transfer.thy ===== *)
theory Rtc_Transfer
  imports Rtc_Client
begin

text \<open>
  The file transfer half of \<^verbatim>\<open>RTCClient\<close>: the public transfer methods, the handler of data
  channel messages, the sending loop on the serial file queue and the cleanup block on the main
  queue (\<^verbatim>\<open>RTCClient.m\<close>, from \<^verbatim>\<open>sendFileAtURL\<close> on).

  The sending loop runs on its own queue, so it is a program counter (\<open>loop_at\<close>) advanced by
  \<open>loop_step\<close>: between two reads of the shared properties any other callback may run. Every other
  method body is one step. Files live in \<open>fs\<close>; a handle is a path and an offset. Whether a file
  can be opened, read or written is the operating system's choice and an argument of the
  operations.
\<close>

section \<open>Control messages\<close>

definition ft_offer :: "string \<Rightarrow> u64 \<Rightarrow> nat \<Rightarrow> json" where
  "ft_offer name sz chunk =
     JObj [(''t'', JStr ''ft_offer''), (''name'', JStr name), (''size'', JNum (uint sz)),
           (''chunk'', JNum (int chunk))]"

definition ft_simple :: "string \<Rightarrow> json" where
  "ft_simple t = JObj [(''t'', JStr t)]"

definition ft_reject :: "string \<Rightarrow> json" where
  "ft_reject reason = JObj [(''t'', JStr ''ft_reject''), (''reason'', JStr reason)]"

section \<open>Cleanup\<close>

definition cleanupTransferWithError :: "ns_error option \<Rightarrow> client \<Rightarrow> client" where
  "cleanupTransferWithError e c = dispatch_main (TCleanup e) c"

text \<open>The block it dispatches: both handles are closed and every transfer field is cleared.\<close>

definition reset_transfer :: "client \<Rightarrow> client" where
  "reset_transfer c =
     c\<lparr>sendHandle := None, sendTotalBytes := 0, sendBytesSent := 0,
       recvHandle := None, recvTotalBytes := 0, recvBytesReceived := 0, incomingFileName := None\<rparr>"

fun run_main_task :: "main_task \<Rightarrow> client \<Rightarrow> client \<times> delegate_event list" where
  "run_main_task (TStateDidChange st) c = (c, [DataChannelStateDidChange st])"
| "run_main_task (TPeerName n ip r) c = (c, [DidReceivePeerName n ip r])"
| "run_main_task (TOnlinePeers ps) c = (c, [DidUpdateOnlinePeers ps])"
| "run_main_task (TSendProgress p) c = (c, [FileSendProgress p (sendBytesSent c) (sendTotalBytes c)])"
| "run_main_task TReceiveOffered c = (c, [FileReceiveOffered (incomingFileName c) (recvTotalBytes c)])"
| "run_main_task (TReceiveProgress p) c =
     (c, [FileReceiveProgress p (recvBytesReceived c) (recvTotalBytes c)])"
| "run_main_task (TCleanup e) c = (reset_transfer c, [FileTransferDidFinish e])"
| "run_main_task TIceDown c =
     ((if sendHandle c \<noteq> None \<or> recvHandle c \<noteq> None
       then cleanupTransferWithError (Some (NSError 40 ''disconnected'')) c else c),
      [DataChannelStateDidChange kClosed])"

text \<open>The main queue is serial and first-in first-out.\<close>

definition run_main :: "client \<Rightarrow> client \<times> delegate_event list" where
  "run_main c = (case mainQ c of [] \<Rightarrow> (c, []) | t # ts \<Rightarrow> run_main_task t (c\<lparr>mainQ := ts\<rparr>))"

section \<open>Public transfer methods\<close>

definition file_size :: "string \<Rightarrow> client \<Rightarrow> u64" where
  "file_size url c = (case fs c url of Some bs \<Rightarrow> of_nat (length bs) | None \<Rightarrow> 0)"

datatype send_result = SendYes | SendNo ns_error

text \<open>
  \<open>lastPath\<close> is the file's last path component; \<open>open_err\<close> is the operating system's refusal to
  open the file, if any.
\<close>

definition sendFileAtURL ::
  "string \<Rightarrow> string option \<Rightarrow> ns_error option \<Rightarrow> client \<Rightarrow> send_result \<times> client" where
  "sendFileAtURL url lastPath open_err c =
     (if \<not> isDataChannelOpen c then (SendNo (NSError 1 ''DataChannel is not open''), c)
      else if sendHandle c \<noteq> None \<or> recvHandle c \<noteq> None
      then (SendNo (NSError 2 ''A file transfer is already in progress''), c)
      else if file_size url c = 0
      then (SendNo (NSError 3 ''File is empty or size unavailable''), c)
      else
        (case open_err of
           Some e \<Rightarrow> (SendNo e, c)
         | None \<Rightarrow>
             let c1 = c\<lparr>transferCancelled := False, sendHandle := Some (url, 0),
                        sendTotalBytes := file_size url c, sendBytesSent := 0\<rparr>;
                 name = (case lastPath of Some n \<Rightarrow> n | None \<Rightarrow> ''file'')
             in (SendYes, sendControlJSON (ft_offer name (file_size url c) (chunkSize c1)) c1)))"

definition cancelFileTransfer :: "client \<Rightarrow> client" where
  "cancelFileTransfer c =
     cleanupTransferWithError (Some (NSError 10 ''Cancelled''))
       (sendControlJSON (ft_simple ''ft_cancel'') (c\<lparr>transferCancelled := True\<rparr>))"

definition rejectIncomingFileWithReason :: "string option \<Rightarrow> client \<Rightarrow> client" where
  "rejectIncomingFileWithReason reason c =
     cleanupTransferWithError
       (Some (NSError 12 (case reason of Some r \<Rightarrow> r | None \<Rightarrow> ''Rejected'')))
       (sendControlJSON (ft_reject (case reason of Some r \<Rightarrow> r | None \<Rightarrow> '''')) c)"

text \<open>
  The destination is created empty first; \<open>created\<close> says whether the system did so, which the code
  does not check. \<open>open_res\<close> is \<open>None\<close> when it then opens for writing, else the error object the
  system gives (possibly nil).
\<close>

definition acceptIncomingFileToURL :: "string \<Rightarrow> bool \<Rightarrow> ns_error option option \<Rightarrow> client \<Rightarrow> client" where
  "acceptIncomingFileToURL dest created open_res c =
     (if incomingFileName c = None \<or> recvTotalBytes c = 0 then c
      else if recvHandle c \<noteq> None then c
      else
        let c1 = (if created then c\<lparr>fs := (fs c)(dest \<mapsto> [])\<rparr> else c) in
        (case open_res of
           Some err \<Rightarrow>
             cleanupTransferWithError
               (Some (case err of Some e \<Rightarrow> e | None \<Rightarrow> NSError 11 ''Unable to open destination''))
               (rejectIncomingFileWithReason (Some ''Unable to open destination'') c1)
         | None \<Rightarrow>
             sendControlJSON (ft_simple ''ft_accept'')
               (c1\<lparr>recvHandle := Some (dest, 0), recvBytesReceived := 0\<rparr>)))"

section \<open>Data channel callbacks\<close>

definition sendHello :: "string \<Rightarrow> string \<Rightarrow> client \<Rightarrow> client" where
  "sendHello user pid c =
     sendControlJSON
       (JObj [(''t'', JStr ''hello''),
              (''name'', JStr (user @ ''#'' @ drop (length pid - 3) pid)),
              (''ip'', (case selfIP c of Some v \<Rightarrow> v | None \<Rightarrow> JStr ''unknown'')),
              (''role'', JStr (if isOfferer c then ''offerer'' else ''answerer''))]) c"

definition dataChannelDidChangeState :: "string \<Rightarrow> string \<Rightarrow> data_state \<Rightarrow> client \<Rightarrow> client" where
  "dataChannelDidChangeState user pid st c =
     (let c1 = dispatch_main (TStateDidChange st) c
      in if st = kOpen then sendHello user pid c1 else c1)"

text \<open>\<^verbatim>\<open>[json[@"size"] unsignedLongLongValue]\<close>: nil answers 0, only numbers understand it.\<close>

definition ull_value :: "json option \<Rightarrow> crash + u64" where
  "ull_value v =
     (case v of
        None \<Rightarrow> Inr 0
      | Some (JNum n) \<Rightarrow> Inr (word_of_int n)
      | Some (JBool b) \<Rightarrow> Inr (if b then 1 else 0)
      | Some _ \<Rightarrow> Inl UnrecognizedSelector)"

definition on_hello :: "(string \<times> json) list \<Rightarrow> client \<Rightarrow> client" where
  "on_hello kvs c =
     (let name = str_or (map_of kvs ''name'') ''Unknown'';
          ip = JStr (str_or (map_of kvs ''ip'') ''unknown'');
          role = str_or (map_of kvs ''role'') '''';
          c1 = c\<lparr>peerName := Some name\<rparr>;
          c2 = (if peerIP c1 = None then c1\<lparr>peerIP := Some ip\<rparr> else c1)
      in dispatch_main (TPeerName name ip role) c2)"

definition on_ft_offer :: "(string \<times> json) list \<Rightarrow> client \<Rightarrow> crash + client" where
  "on_ft_offer kvs c =
     (if sendHandle c \<noteq> None \<or> recvHandle c \<noteq> None
      then Inr (sendControlJSON (ft_reject ''busy'') c)
      else
        bindE (ull_value (map_of kvs ''size'')) (\<lambda>sz.
          Inr (dispatch_main TReceiveOffered
                 (c\<lparr>incomingFileName := Some (str_or (map_of kvs ''name'') ''file''),
                    recvTotalBytes := sz, recvBytesReceived := 0\<rparr>))))"

text \<open>Starting the loop only enqueues its block on the serial file queue.\<close>

definition startSendingLoop :: "client \<Rightarrow> client" where
  "startSendingLoop c = c\<lparr>fileQ := Suc (fileQ c)\<rparr>"

definition on_text :: "json option \<Rightarrow> client \<Rightarrow> crash + client" where
  "on_text raw c =
     (case container raw of
        Some (JObj kvs) \<Rightarrow>
          let t = map_of kvs ''t'' in
          if t = Some (JStr ''hello'') then Inr (on_hello kvs c)
          else if t = Some (JStr ''ft_offer'') then on_ft_offer kvs c
          else if t = Some (JStr ''ft_accept'')
          then Inr (if sendHandle c = None then c else startSendingLoop c)
          else if t = Some (JStr ''ft_reject'') \<or> t = Some (JStr ''ft_cancel'')
          then Inr (cleanupTransferWithError
                 (Some (NSError 13 (str_or (map_of kvs ''reason'') ''Cancelled/Rejected''))) c)
          else if t = Some (JStr ''ft_done'') then Inr (cleanupTransferWithError None c)
          else Inr c
      | _ \<Rightarrow> Inr c)"

text \<open>\<^verbatim>\<open>NSFileHandle writeData:\<close> at the handle's offset; a gap is filled with zeros.\<close>

definition write_at :: "nat \<Rightarrow> byte list \<Rightarrow> byte list \<Rightarrow> byte list" where
  "write_at off bs old = take off (old @ replicate (off - length old) 0) @ bs @ drop (off + length bs) old"

definition on_binary :: "string option \<Rightarrow> byte list \<Rightarrow> client \<Rightarrow> client" where
  "on_binary write_exn bs c =
     (case recvHandle c of
        None \<Rightarrow> c
      | Some (path, off) \<Rightarrow>
          if recvTotalBytes c = 0 then c
          else
            (case write_exn of
               Some reason \<Rightarrow> cleanupTransferWithError (Some (NSError 20 reason)) c
             | None \<Rightarrow>
                 let old = (case fs c path of Some x \<Rightarrow> x | None \<Rightarrow> []);
                     c1 = c\<lparr>fs := (fs c)(path \<mapsto> write_at off bs old),
                            recvHandle := Some (path, off + length bs),
                            recvBytesReceived := recvBytesReceived c + of_nat (length bs)\<rparr>;
                     c2 = dispatch_main
                            (TReceiveProgress (progress_of (recvBytesReceived c1) (recvTotalBytes c1))) c1
                 in if recvBytesReceived c2 \<ge> recvTotalBytes c2
                    then cleanupTransferWithError None (sendControlJSON (ft_simple ''ft_done'') c2)
                    else c2))"

definition didReceiveMessageWithBuffer ::
  "string option \<Rightarrow> data_buffer \<Rightarrow> client \<Rightarrow> crash + client" where
  "didReceiveMessageWithBuffer write_exn b c =
     (case b of Text raw \<Rightarrow> on_text raw c | Binary bs \<Rightarrow> Inr (on_binary write_exn bs c))"

section \<open>The sending loop\<close>

definition kBufferedAmountHighWatermark :: u64 where
  "kBufferedAmountHighWatermark = 512 * 1024"

definition kBufferedAmountLowWatermark :: u64 where
  "kBufferedAmountLowWatermark = 128 * 1024"

text \<open>
  \<^verbatim>\<open>readDataUpToLength:\<close>: the next bytes of the file at the handle's offset. A nil handle and
  an unreadable file give nothing.
\<close>

definition read_chunk :: "client \<Rightarrow> byte list \<times> client" where
  "read_chunk c =
     (case sendHandle c of
        None \<Rightarrow> ([], c)
      | Some (path, off) \<Rightarrow>
          let bs = take (chunkSize c) (drop off (case fs c path of Some x \<Rightarrow> x | None \<Rightarrow> []))
          in (bs, c\<lparr>sendHandle := Some (path, off + length bs)\<rparr>))"

definition loop_fail :: "int \<Rightarrow> string \<Rightarrow> client \<Rightarrow> client" where
  "loop_fail n msg c = cleanupTransferWithError (Some (NSError n msg)) (c\<lparr>loop_at := LIdle\<rparr>)"

text \<open>
  One advance of the loop; \<open>read_err\<close> is the operating system's read error. Conditions on several shared properties are
  evaluated from left to right, one property per step, and \<^verbatim>\<open>sendBytesSent += chunk.length\<close> reads in one
  step and writes in the next, so that a block of the main queue can run in between.
\<close>

definition loop_step :: "bool \<Rightarrow> client \<Rightarrow> client" where
  "loop_step read_err c =
     (case loop_at c of
        LIdle \<Rightarrow>
          if fileQ c = 0 then c
          else let c1 = c\<lparr>fileQ := fileQ c - 1\<rparr>
               in if sendHandle c = None then c1 else c1\<lparr>loop_at := LHead\<rparr>
      | LHead \<Rightarrow> if \<not> transferCancelled c then c\<lparr>loop_at := LHeadSent\<rparr> else c\<lparr>loop_at := LExit\<rparr>
      | LHeadSent \<Rightarrow> c\<lparr>loop_at := LHeadTotal (sendBytesSent c)\<rparr>
      | LHeadTotal sent \<Rightarrow>
          if sent < sendTotalBytes c then c\<lparr>loop_at := LWait 0\<rparr> else c\<lparr>loop_at := LExit\<rparr>
      | LWait n \<Rightarrow> if \<not> transferCancelled c then c\<lparr>loop_at := LWaitState n\<rparr> else c\<lparr>loop_at := LCheckOpen\<rparr>
      | LWaitState n \<Rightarrow>
          if readyState_of c = kOpen then c\<lparr>loop_at := LWaitAmount n\<rparr> else c\<lparr>loop_at := LCheckOpen\<rparr>
      | LWaitAmount n \<Rightarrow>
          if bufferedAmount_of c > kBufferedAmountHighWatermark \<and> n < 200
          then c\<lparr>loop_at := LSlept (Suc n)\<rparr> else c\<lparr>loop_at := LCheckOpen\<rparr>
      | LSlept n \<Rightarrow>
          if bufferedAmount_of c \<le> kBufferedAmountLowWatermark
          then c\<lparr>loop_at := LCheckOpen\<rparr> else c\<lparr>loop_at := LWait n\<rparr>
      | LCheckOpen \<Rightarrow>
          if readyState_of c \<noteq> kOpen then loop_fail 32 ''DataChannel closed during send'' c
          else c\<lparr>loop_at := LRead\<rparr>
      | LRead \<Rightarrow>
          (let (bs, c1) = read_chunk c
           in if read_err then c\<lparr>loop_at := LExit\<rparr>
              else if bs = [] then c1\<lparr>loop_at := LExit\<rparr> else c1\<lparr>loop_at := LSend bs 0\<rparr>)
      | LSend bs r \<Rightarrow>
          if r < 120 \<and> \<not> transferCancelled c then c\<lparr>loop_at := LSendState bs r\<rparr>
          else loop_fail 30 ''DataChannel send failed (backpressure timeout)'' c
      | LSendState bs r \<Rightarrow>
          if readyState_of c \<noteq> kOpen
          then loop_fail 30 ''DataChannel send failed (backpressure timeout)'' c
          else c\<lparr>loop_at := LSendTry bs r\<rparr>
      | LSendTry bs r \<Rightarrow>
          if channel_takes c
          then sendData (Binary bs) (c\<lparr>loop_at := LAccount bs\<rparr>)
          else c\<lparr>loop_at := LSend bs (Suc r)\<rparr>
      | LAccount bs \<Rightarrow> c\<lparr>loop_at := LStore bs (sendBytesSent c)\<rparr>
      | LStore bs sent \<Rightarrow> c\<lparr>sendBytesSent := sent + of_nat (length bs), loop_at := LProgress\<rparr>
      | LProgress \<Rightarrow>
          if sendTotalBytes c > 0 then c\<lparr>loop_at := LProgressSent\<rparr>
          else dispatch_main (TSendProgress (Progress 0 1)) (c\<lparr>loop_at := LHead\<rparr>)
      | LProgressSent \<Rightarrow> c\<lparr>loop_at := LProgressTotal (sendBytesSent c)\<rparr>
      | LProgressTotal sent \<Rightarrow>
          dispatch_main (TSendProgress (Progress sent (sendTotalBytes c))) (c\<lparr>loop_at := LHead\<rparr>)
      | LExit \<Rightarrow> if transferCancelled c then c\<lparr>loop_at := LIdle\<rparr> else c\<lparr>loop_at := LExitSent\<rparr>
      | LExitSent \<Rightarrow> c\<lparr>loop_at := LExitTotal (sendBytesSent c)\<rparr>
      | LExitTotal sent \<Rightarrow>
          let c1 = c\<lparr>loop_at := LIdle\<rparr>
          in if sent \<ge> sendTotalBytes c
             then cleanupTransferWithError None (sendControlJSON (ft_simple ''ft_done'') c1)
             else cleanupTransferWithError (Some (NSError 31 ''Send ended early'')) c1)"

end
