(* ===== verification/File_Transfer.thy ===== *)
theory File_Transfer
  imports Rtc_Transfer "HOL-Library.Sublist"
begin

text \<open>
  Two clients joined by a reliable, ordered data channel: what either hands to the channel
  (\<open>dcOut\<close>) is delivered to the other in order. The theory follows one transfer from the moment
  the receiver has accepted, under every interleaving of the sender's loop, the two main queues,
  message delivery and the channel's state, buffer level and refusals.
\<close>

section \<open>The two ends and the wire\<close>

record xsys =
  endA :: client
  endB :: client
  evA :: "delegate_event list"
  evB :: "delegate_event list"

abbreviation msg_done :: data_buffer where
  "msg_done \<equiv> Text (Some (ft_simple ''ft_done''))"

abbreviation msg_accept :: data_buffer where
  "msg_accept \<equiv> Text (Some (ft_simple ''ft_accept''))"

fun payload :: "data_buffer list \<Rightarrow> byte list" where
  "payload [] = []"
| "payload (Binary bs # ms) = bs @ payload ms"
| "payload (Text _ # ms) = payload ms"

inductive xstep :: "xsys \<Rightarrow> xsys \<Rightarrow> bool" where
  loop: "xstep s (s\<lparr>endA := loop_step re (endA s)\<rparr>)"
| mainA: "run_main (endA s) = (a, es) \<Longrightarrow> xstep s (s\<lparr>endA := a, evA := evA s @ es\<rparr>)"
| mainB: "run_main (endB s) = (b, es) \<Longrightarrow> xstep s (s\<lparr>endB := b, evB := evB s @ es\<rparr>)"
| toB: "dcOut (endA s) = m # ms \<Longrightarrow> didReceiveMessageWithBuffer None m (endB s) = Inr b \<Longrightarrow>
     xstep s (s\<lparr>endA := (endA s)\<lparr>dcOut := ms\<rparr>, endB := b\<rparr>)"
| toA: "dcOut (endB s) = m # ms \<Longrightarrow> didReceiveMessageWithBuffer None m (endA s) = Inr a \<Longrightarrow>
     xstep s (s\<lparr>endB := (endB s)\<lparr>dcOut := ms\<rparr>, endA := a\<rparr>)"
| chanA: "xstep s (s\<lparr>endA := (endA s)\<lparr>dataChannel := d\<rparr>\<rparr>)"
| chanB: "xstep s (s\<lparr>endB := (endB s)\<lparr>dataChannel := d\<rparr>\<rparr>)"

inductive_cases xstep_cases: "xstep s t"

lemma payload_append [simp]: "payload (xs @ ys) = payload xs @ payload ys"
  by (induction xs rule: payload.induct) auto

section \<open>The sender\<close>

text \<open>
  \<open>g\<close> is how much of the file \<open>C\<close> has been handed to the channel; \<open>pend\<close> says that the
  receiver's acceptance is still under way.
\<close>

definition stopped :: "bool \<Rightarrow> client \<Rightarrow> bool" where
  "stopped pend a \<longleftrightarrow> loop_at a = LIdle \<and> fileQ a = 0 \<and> \<not> pend"

definition position_ok :: "byte list \<Rightarrow> nat \<Rightarrow> bool \<Rightarrow> nat \<Rightarrow> client \<Rightarrow> bool" where
  "position_ok C g pend off a =
     (let piece = \<lambda>bs. off = g + length bs \<and> off \<le> length C \<and> bs \<noteq> [] \<and> bs = take (length bs) (drop g C) \<and>
            sendBytesSent a = of_nat g
      in case loop_at a of
        LSend bs r \<Rightarrow> piece bs
      | LSendState bs r \<Rightarrow> piece bs
      | LSendTry bs r \<Rightarrow> piece bs
      | LAccount bs \<Rightarrow> off = g \<and> sendBytesSent a + of_nat (length bs) = of_nat g
      | LStore bs v \<Rightarrow> off = g \<and> v + of_nat (length bs) = of_nat g
      | LIdle \<Rightarrow> stopped pend a \<or> off = g \<and> sendBytesSent a = of_nat g
      | LHeadTotal v \<Rightarrow> off = g \<and> sendBytesSent a = of_nat g \<and> v = of_nat g
      | LExitTotal v \<Rightarrow> off = g \<and> sendBytesSent a = of_nat g \<and> v = of_nat g
      | _ \<Rightarrow> off = g \<and> sendBytesSent a = of_nat g)"

text \<open>Between a read of the file and the hand-over of what it gave.\<close>

fun has_piece :: "loop_pc \<Rightarrow> bool" where
  "has_piece (LSend bs r) = True"
| "has_piece (LSendState bs r) = True"
| "has_piece (LSendTry bs r) = True"
| "has_piece _ = False"

definition sender_ok :: "string \<Rightarrow> byte list \<Rightarrow> nat \<Rightarrow> bool \<Rightarrow> client \<Rightarrow> bool" where
  "sender_ok src C g pend a \<longleftrightarrow>
     fs a src = Some C \<and> \<not> transferCancelled a \<and> recvHandle a = None \<and> 0 < length C \<and>
     length C < 2 ^ 64 \<and> g \<le> length C \<and>
     (\<forall>e. TCleanup e \<in> set (mainQ a) \<longrightarrow> g = length C \<or> stopped pend a) \<and>
     (TCleanup None \<in> set (mainQ a) \<longrightarrow> g = length C) \<and> TIceDown \<notin> set (mainQ a) \<and>
     (pend \<longrightarrow> loop_at a = LIdle \<and> fileQ a = 0) \<and>
     (fileQ a \<noteq> 0 \<longrightarrow> fileQ a = 1 \<and> loop_at a = LIdle) \<and>
     (case sendHandle a of
        Some (p, off) \<Rightarrow> p = src \<and> sendTotalBytes a = of_nat (length C) \<and> position_ok C g pend off a
      | None \<Rightarrow> sendTotalBytes a = 0 \<and> (g = length C \<or> stopped pend a) \<and> \<not> has_piece (loop_at a))"

lemmas loop_defs =
  loop_step_def loop_fail_def cleanupTransferWithError_def dispatch_main_def sendControlJSON_def
  sendData_def read_chunk_def

text \<open>One advance of the loop sends the next piece of the file, or the end marker, or nothing.\<close>

lemma of_nat_u64_less_iff:
  "a < 2 ^ 64 \<Longrightarrow> b < 2 ^ 64 \<Longrightarrow> ((of_nat a :: u64) < of_nat b) = (a < b)"
  by (simp add: word_less_nat_alt)

lemma of_nat_u64_le_iff:
  "a < 2 ^ 64 \<Longrightarrow> b < 2 ^ 64 \<Longrightarrow> ((of_nat a :: u64) \<le> of_nat b) = (a \<le> b)"
  by (simp add: word_le_nat_alt)

lemma channel_takes_loop_at [simp]: "channel_takes (a\<lparr>loop_at := x\<rparr>) = channel_takes a"
  by (simp add: channel_takes_def)

lemma loop_step_sender:
  assumes "sender_ok src C g pend a" and "a' = loop_step re a"
  shows "(\<exists>bs. dcOut a' = dcOut a @ [Binary bs] \<and> bs \<noteq> [] \<and> bs = take (length bs) (drop g C) \<and>
             g + length bs \<le> length C \<and> sender_ok src C (g + length bs) pend a')
    \<or> (dcOut a' = dcOut a @ [msg_done] \<and> g = length C \<and> sender_ok src C g pend a')
    \<or> (dcOut a' = dcOut a \<and> sender_ok src C g pend a')"
proof (cases "loop_at a")
  case LRead
  with assms show ?thesis
    by (auto simp: sender_ok_def position_ok_def stopped_def loop_defs Let_def split: option.splits)
next
  case (LExitTotal v)
  with assms show ?thesis
    by (auto simp: sender_ok_def position_ok_def stopped_def loop_defs Let_def of_nat_u64_le_iff split: option.splits)
qed (use assms in \<open>auto simp: sender_ok_def position_ok_def stopped_def loop_defs Let_def split: option.splits\<close>)

lemma position_ok_cong:
  "loop_at a' = loop_at a \<Longrightarrow> fileQ a' = fileQ a \<Longrightarrow> sendBytesSent a' = sendBytesSent a \<Longrightarrow>
   position_ok C g pend off a' = position_ok C g pend off a"
  "loop_at a' = loop_at a \<Longrightarrow> fileQ a' = fileQ a \<Longrightarrow> stopped pend a' = stopped pend a"
  by (simp_all add: position_ok_def stopped_def split: loop_pc.split)

text \<open>Steps that only shorten the main queue, or add to it without a cleanup.\<close>

lemma sender_ok_frame:
  assumes ok: "sender_ok src C g pend a"
    and same: "fs a' = fs a" "transferCancelled a' = transferCancelled a" "recvHandle a' = recvHandle a"
      "loop_at a' = loop_at a" "fileQ a' = fileQ a" "sendHandle a' = sendHandle a"
      "sendTotalBytes a' = sendTotalBytes a" "sendBytesSent a' = sendBytesSent a"
    and q: "\<And>e. TCleanup e \<in> set (mainQ a') \<Longrightarrow> TCleanup e \<in> set (mainQ a) \<or> g = length C"
      "TIceDown \<notin> set (mainQ a')"
  shows "sender_ok src C g pend a'"
proof -
  note c = position_ok_cong [OF same(4,5)] position_ok_cong(1) [OF same(4,5,8)]
  have "\<forall>e. TCleanup e \<in> set (mainQ a') \<longrightarrow> g = length C \<or> stopped pend a"
    "TCleanup None \<in> set (mainQ a') \<longrightarrow> g = length C"
    using ok q(1) by (auto simp: sender_ok_def)
  then show ?thesis
    using ok q(2) by (auto simp: sender_ok_def same c split: option.splits)
qed

text \<open>A block of the sender's main queue.\<close>

lemma run_main_dcOut:
  "run_main a = (a', es) \<Longrightarrow> dcOut a' = dcOut a"
  by (cases "mainQ a"; cases "hd (mainQ a)")
    (auto simp: run_main_def reset_transfer_def cleanupTransferWithError_def dispatch_main_def)

lemma no_piece:
  assumes "sender_ok src C g pend a" and "g = length C \<or> stopped pend a"
  shows "\<not> has_piece (loop_at a)"
  using assms by (cases "loop_at a") (auto simp: sender_ok_def position_ok_def stopped_def split: option.splits)

lemma run_main_sender:
  assumes ok: "sender_ok src C g pend a" and run: "run_main a = (a', es)"
  shows "sender_ok src C g pend a' \<and> (FileTransferDidFinish None \<in> set es \<longrightarrow> g = length C)"
proof (cases "mainQ a")
  case Nil
  with run ok show ?thesis by (simp add: run_main_def)
next
  case (Cons t ts)
  show ?thesis
  proof (cases "\<exists>e. t = TCleanup e")
    case True
    then obtain e where t: "t = TCleanup e" by blast
    have m: "TCleanup e \<in> set (mainQ a)" using Cons t by simp
    have "a' = reset_transfer (a\<lparr>mainQ := ts\<rparr>)" "es = [FileTransferDidFinish e]"
      using run Cons t by (simp_all add: run_main_def)
    moreover have "g = length C \<or> stopped pend a" "e = None \<longrightarrow> g = length C" using ok m by (auto simp: sender_ok_def)
    moreover have "\<not> has_piece (loop_at a)" by (rule no_piece [OF ok calculation(3)])
    ultimately show ?thesis using ok Cons by (auto simp: sender_ok_def reset_transfer_def stopped_def)
  next
    case False
    with ok Cons run have a': "a' = a\<lparr>mainQ := ts\<rparr>" "FileTransferDidFinish None \<notin> set es"
      by (cases t; auto simp: run_main_def sender_ok_def)+
    have "sender_ok src C g pend a'"
      by (rule sender_ok_frame [OF ok]) (use ok Cons a' in \<open>auto simp: sender_ok_def\<close>)
    with a' show ?thesis by blast
  qed
qed

text \<open>The receiver's answers: the acceptance starts the loop, its end marker ends the transfer.\<close>

lemma accept_sender:
  assumes "sender_ok src C g True a" and "didReceiveMessageWithBuffer None msg_accept a = Inr a'"
  shows "sender_ok src C g False a' \<and> dcOut a' = dcOut a"
  using assms
  by (auto simp: didReceiveMessageWithBuffer_def on_text_def container_def ft_simple_def Let_def
      startSendingLoop_def sender_ok_def position_ok_def stopped_def split: option.splits)

lemma done_sender:
  assumes ok: "sender_ok src C g pend a" "g = length C"
    and "didReceiveMessageWithBuffer None msg_done a = Inr a'"
  shows "sender_ok src C g pend a' \<and> dcOut a' = dcOut a"
proof -
  have "a' = a\<lparr>mainQ := mainQ a @ [TCleanup None]\<rparr>"
    using assms(3) by (simp add: didReceiveMessageWithBuffer_def on_text_def container_def ft_simple_def
        Let_def cleanupTransferWithError_def dispatch_main_def)
  then show ?thesis
    using ok by (intro conjI sender_ok_frame [OF ok(1)]) (auto simp: sender_ok_def)
qed

section \<open>The receiver\<close>

definition receiver_ok :: "string \<Rightarrow> byte list \<Rightarrow> byte list \<Rightarrow> client \<Rightarrow> bool" where
  "receiver_ok dest C D b \<longleftrightarrow>
     fs b dest = Some D \<and> prefix D C \<and> sendHandle b = None \<and> TIceDown \<notin> set (mainQ b) \<and>
     0 < length C \<and> length C < 2 ^ 64 \<and>
     (recvHandle b = Some (dest, length D) \<and> recvTotalBytes b = of_nat (length C) \<and>
        recvBytesReceived b = of_nat (length D)
      \<or> recvHandle b = None \<and> D = C) \<and>
     (\<forall>e. TCleanup e \<in> set (mainQ b) \<longrightarrow> e = None \<and> D = C)"

lemma write_at_end: "write_at (length D) bs D = D @ bs"
  by (simp add: write_at_def)

lemma binary_receiver:
  assumes ok: "receiver_ok dest C D b" and bs: "bs \<noteq> []" and pre: "prefix (D @ bs) C"
    and b': "didReceiveMessageWithBuffer None (Binary bs) b = Inr b'"
  shows "receiver_ok dest C (D @ bs) b' \<and>
    (dcOut b' = dcOut b \<or> dcOut b' = dcOut b @ [msg_done] \<and> D @ bs = C)"
proof -
  have "D \<noteq> C" using bs pre by (auto simp: prefix_def)
  then have h: "recvHandle b = Some (dest, length D)" "recvTotalBytes b = of_nat (length C)"
      "recvBytesReceived b = of_nat (length D)" "fs b dest = Some D" "sendHandle b = None"
      "TIceDown \<notin> set (mainQ b)" "\<And>e. TCleanup e \<notin> set (mainQ b)"
      "0 < length C" "length C < 2 ^ 64"
    using ok by (auto simp: receiver_ok_def)
  have len: "length (D @ bs) \<le> length C" using pre by (rule prefix_length_le)
  have full: "D @ bs = C \<longleftrightarrow> length C \<le> length (D @ bs)"
    using pre len by (auto simp: prefix_def)
  have nz: "(of_nat (length C) :: u64) \<noteq> 0"
    using h(8,9) of_nat_u64_le_iff [of "length C" 0] by auto
  have le: "((of_nat (length C) :: u64) \<le> of_nat (length (D @ bs))) = (D @ bs = C)"
    unfolding full using h(9) len by (intro of_nat_u64_le_iff) auto
  then have le': "((of_nat (length C) :: u64) \<le> of_nat (length D) + of_nat (length bs)) = (D @ bs = C)"
    by simp
  let ?n = "of_nat (length D) + of_nat (length bs) :: u64"
  let ?c1 = "b\<lparr>fs := (fs b)(dest \<mapsto> D @ bs), recvHandle := Some (dest, length D + length bs),
              recvBytesReceived := ?n,
              mainQ := mainQ b @ [TReceiveProgress (progress_of ?n (of_nat (length C)))]\<rparr>"
  have "b' = (if D @ bs = C then cleanupTransferWithError None (sendControlJSON (ft_simple ''ft_done'') ?c1) else ?c1)"
    using b' nz
    by (simp add: didReceiveMessageWithBuffer_def on_binary_def Let_def write_at_end dispatch_main_def h le'
        cong: if_cong)
  then show ?thesis
    using h pre
    by (auto simp: receiver_ok_def dispatch_main_def cleanupTransferWithError_def sendControlJSON_def
        sendData_def split: if_splits)
qed

lemma receiver_ok_frame:
  assumes "receiver_ok dest C D b" "fs b' = fs b" "sendHandle b' = sendHandle b"
    "recvHandle b' = recvHandle b" "recvTotalBytes b' = recvTotalBytes b"
    "recvBytesReceived b' = recvBytesReceived b"
    "\<And>e. TCleanup e \<in> set (mainQ b') \<Longrightarrow> TCleanup e \<in> set (mainQ b) \<or> e = None \<and> D = C"
    "TIceDown \<notin> set (mainQ b')"
  shows "receiver_ok dest C D b'"
  using assms unfolding receiver_ok_def by auto

lemma done_receiver:
  assumes ok: "receiver_ok dest C C b" and "didReceiveMessageWithBuffer None msg_done b = Inr b'"
  shows "receiver_ok dest C C b' \<and> dcOut b' = dcOut b"
proof -
  have b': "b' = b\<lparr>mainQ := mainQ b @ [TCleanup None]\<rparr>"
    using assms(2) by (simp add: didReceiveMessageWithBuffer_def on_text_def container_def ft_simple_def
        Let_def cleanupTransferWithError_def dispatch_main_def)
  have "receiver_ok dest C C b'"
    by (rule receiver_ok_frame [OF ok]) (use ok b' in \<open>auto simp: receiver_ok_def\<close>)
  with b' show ?thesis by simp
qed

lemma run_main_receiver:
  assumes ok: "receiver_ok dest C D b" and run: "run_main b = (b', es)"
  shows "receiver_ok dest C D b' \<and> (\<forall>e. FileTransferDidFinish e \<in> set es \<longrightarrow> e = None \<and> D = C)"
proof (cases "mainQ b")
  case Nil
  with run ok show ?thesis by (auto simp: run_main_def)
next
  case (Cons t ts)
  show ?thesis
  proof (cases "\<exists>e. t = TCleanup e")
    case True
    then obtain e where t: "t = TCleanup e" by blast
    with Cons ok have "e = None" "D = C" by (auto simp: receiver_ok_def)
    moreover have "b' = reset_transfer (b\<lparr>mainQ := ts\<rparr>)" "es = [FileTransferDidFinish e]"
      using run Cons t by (simp_all add: run_main_def)
    ultimately show ?thesis
      using ok Cons by (auto simp: receiver_ok_def reset_transfer_def)
  next
    case False
    with ok Cons run have b': "b' = b\<lparr>mainQ := ts\<rparr>" "\<And>e. FileTransferDidFinish e \<notin> set es"
      by (cases t; auto simp: run_main_def receiver_ok_def)+
    have "receiver_ok dest C D b'"
      by (rule receiver_ok_frame [OF ok]) (use ok Cons b' in \<open>auto simp: receiver_ok_def\<close>)
    with b' show ?thesis by blast
  qed
qed

section \<open>The invariant of a transfer\<close>

text \<open>
  \<open>D\<close> is what the receiver has written, \<open>cs\<close> the pieces under way, \<open>k\<close> and \<open>j\<close> the end markers
  under way in the two directions.
\<close>

definition xinv_at ::
  "string \<Rightarrow> string \<Rightarrow> byte list \<Rightarrow> xsys \<Rightarrow> byte list \<Rightarrow> byte list list \<Rightarrow> nat \<Rightarrow> bool \<Rightarrow> nat \<Rightarrow> bool" where
  "xinv_at src dest C s D cs k pend j \<longleftrightarrow>
     receiver_ok dest C D (endB s) \<and>
     dcOut (endA s) = map Binary cs @ replicate k msg_done \<and> [] \<notin> set cs \<and>
     prefix (D @ concat cs) C \<and> (k \<noteq> 0 \<longrightarrow> D @ concat cs = C) \<and>
     dcOut (endB s) = (if pend then [msg_accept] else []) @ replicate j msg_done \<and> (j \<noteq> 0 \<longrightarrow> D = C) \<and>
     sender_ok src C (length (D @ concat cs)) pend (endA s) \<and>
     (\<forall>e. FileTransferDidFinish e \<in> set (evB s) \<longrightarrow> e = None \<and> D = C) \<and>
     (FileTransferDidFinish None \<in> set (evA s) \<longrightarrow> D @ concat cs = C)"

definition xinv :: "string \<Rightarrow> string \<Rightarrow> byte list \<Rightarrow> xsys \<Rightarrow> bool" where
  "xinv src dest C s \<longleftrightarrow> (\<exists>D cs k pend j. xinv_at src dest C s D cs k pend j)"

lemma xinvI: "xinv_at src dest C s D cs k pend j \<Longrightarrow> xinv src dest C s"
  unfolding xinv_def by blast

lemma prefix_full: "prefix xs ys \<Longrightarrow> length xs = length ys \<Longrightarrow> xs = ys"
  by (auto simp: prefix_def)

lemma replicate_snoc: "replicate n x @ [x] = replicate (Suc n) x"
  by (simp add: replicate_append_same)

lemma xinv_loop:
  assumes "xinv_at src dest C s D cs k pend j"
  shows "xinv src dest C (s\<lparr>endA := loop_step re (endA s)\<rparr>)"
proof -
  let ?a = "loop_step re (endA s)" and ?g = "length (D @ concat cs)" and ?t = "s\<lparr>endA := loop_step re (endA s)\<rparr>"
  note inv = assms [unfolded xinv_at_def]
  from inv have ok: "sender_ok src C ?g pend (endA s)" and pre: "prefix (D @ concat cs) C" by auto
  consider (data) bs where "dcOut ?a = dcOut (endA s) @ [Binary bs]" "bs \<noteq> []"
        "bs = take (length bs) (drop ?g C)" "?g + length bs \<le> length C" "sender_ok src C (?g + length bs) pend ?a"
    | (fin) "dcOut ?a = dcOut (endA s) @ [msg_done]" "?g = length C" "sender_ok src C ?g pend ?a"
    | (none) "dcOut ?a = dcOut (endA s)" "sender_ok src C ?g pend ?a"
    using loop_step_sender [OF ok refl] by blast
  then show ?thesis
  proof cases
    case data
    from pre have "C = (D @ concat cs) @ drop ?g C" by (auto simp: prefix_def)
    then have "prefix ((D @ concat cs) @ bs) C" using data(3) by (metis same_prefix_prefix take_is_prefix)
    moreover have "D @ concat cs \<noteq> C" using data(2,4) by auto
    then have "k = 0" and "FileTransferDidFinish None \<notin> set (evA s)" using inv by auto
    ultimately have "xinv_at src dest C ?t D (cs @ [bs]) 0 pend j"
      using inv data by (simp add: xinv_at_def add.assoc)
    then show ?thesis by (rule xinvI)
  next
    case fin
    then have "D @ concat cs = C" using pre prefix_full by blast
    then have "xinv_at src dest C ?t D cs (Suc k) pend j"
      using inv fin by (simp add: xinv_at_def replicate_snoc del: replicate_Suc)
    then show ?thesis by (rule xinvI)
  next
    case none
    then have "xinv_at src dest C ?t D cs k pend j" using inv by (simp add: xinv_at_def)
    then show ?thesis by (rule xinvI)
  qed
qed

lemma xinv_toB:
  assumes "xinv_at src dest C s D cs k pend j" and m: "dcOut (endA s) = m # ms"
    and b: "didReceiveMessageWithBuffer None m (endB s) = Inr b"
  shows "xinv src dest C (s\<lparr>endA := (endA s)\<lparr>dcOut := ms\<rparr>, endB := b\<rparr>)"
proof -
  let ?t = "s\<lparr>endA := (endA s)\<lparr>dcOut := ms\<rparr>, endB := b\<rparr>"
  note inv = assms(1) [unfolded xinv_at_def]
  from inv have rok: "receiver_ok dest C D (endB s)" and sok: "sender_ok src C (length (D @ concat cs)) pend (endA s)"
    by auto
  have sok': "sender_ok src C (length (D @ concat cs)) pend ((endA s)\<lparr>dcOut := ms\<rparr>)"
    by (rule sender_ok_frame [OF sok]) (use sok in \<open>auto simp: sender_ok_def\<close>)
  show ?thesis
  proof (cases cs)
    case (Cons bs cs')
    with inv m have m': "m = Binary bs" "ms = map Binary cs' @ replicate k msg_done" "bs \<noteq> []" by auto
    have "prefix (D @ bs) C" using inv Cons by (auto simp: prefix_def)
    from binary_receiver [OF rok m'(3) this b [unfolded m'(1)]]
    obtain i where "receiver_ok dest C (D @ bs) b" "dcOut b = dcOut (endB s) @ replicate i msg_done"
      "i \<noteq> 0 \<longrightarrow> D @ bs = C"
      by (metis append.right_neutral append_Nil replicate_0 replicate_Suc zero_neq_one)
    moreover from this(1) have "D \<noteq> C" using \<open>prefix (D @ bs) C\<close> m'(3) by (auto simp: prefix_def)
    ultimately have "xinv_at src dest C ?t (D @ bs) cs' k pend (j + i)"
      using inv sok' Cons m' by (auto simp: xinv_at_def replicate_add)
    then show ?thesis by (rule xinvI)
  next
    case Nil
    with inv m obtain k' where k: "k = Suc k'" "m = msg_done" "ms = replicate k' msg_done"
      by (cases k) auto
    with inv Nil have "D = C" by simp
    with done_receiver rok b k have "receiver_ok dest C C b" "dcOut b = dcOut (endB s)" by blast+
    with inv sok' Nil k \<open>D = C\<close> have "xinv_at src dest C ?t D [] k' pend j"
      by (simp add: xinv_at_def)
    then show ?thesis by (rule xinvI)
  qed
qed

lemma xinv_toA:
  assumes "xinv_at src dest C s D cs k pend j" and m: "dcOut (endB s) = m # ms"
    and a: "didReceiveMessageWithBuffer None m (endA s) = Inr a"
  shows "xinv src dest C (s\<lparr>endB := (endB s)\<lparr>dcOut := ms\<rparr>, endA := a\<rparr>)"
proof -
  let ?t = "s\<lparr>endB := (endB s)\<lparr>dcOut := ms\<rparr>, endA := a\<rparr>"
  note inv = assms(1) [unfolded xinv_at_def]
  from inv have rok: "receiver_ok dest C D (endB s)" and sok: "sender_ok src C (length (D @ concat cs)) pend (endA s)"
    by auto
  have rok': "receiver_ok dest C D ((endB s)\<lparr>dcOut := ms\<rparr>)"
    by (rule receiver_ok_frame [OF rok]) (use rok in \<open>auto simp: receiver_ok_def\<close>)
  show ?thesis
  proof (cases pend)
    case True
    with inv m have "m = msg_accept" "ms = replicate j msg_done" by auto
    from sok True have "sender_ok src C (length (D @ concat cs)) True (endA s)" by simp
    from accept_sender [OF this] a \<open>m = _\<close>
    have "sender_ok src C (length (D @ concat cs)) False a" "dcOut a = dcOut (endA s)" by blast+
    with inv rok' \<open>ms = _\<close> have "xinv_at src dest C ?t D cs k False j" by (simp add: xinv_at_def)
    then show ?thesis by (rule xinvI)
  next
    case False
    with inv m obtain j' where j: "j = Suc j'" "m = msg_done" "ms = replicate j' msg_done"
      by (cases j) auto
    with inv have "D = C" by simp
    with inv have "cs = []" by (cases cs) (auto simp: prefix_def)
    with \<open>D = C\<close> sok have "sender_ok src C (length C) pend (endA s)" by simp
    from done_sender [OF this refl] a j
    have "sender_ok src C (length C) pend a" "dcOut a = dcOut (endA s)" by blast+
    with inv rok' j False \<open>D = C\<close> \<open>cs = []\<close> have "xinv_at src dest C ?t D cs k False j'"
      by (simp add: xinv_at_def)
    then show ?thesis by (rule xinvI)
  qed
qed

lemma xstep_xinv:
  assumes "xstep s t" and "xinv src dest C s"
  shows "xinv src dest C t"
proof -
  from assms(2) obtain D cs k pend j where inv: "xinv_at src dest C s D cs k pend j"
    by (auto simp: xinv_def)
  then have rok: "receiver_ok dest C D (endB s)" and sok: "sender_ok src C (length (D @ concat cs)) pend (endA s)"
    and pre: "prefix (D @ concat cs) C" by (auto simp: xinv_at_def)
  from assms(1) show ?thesis
  proof (cases rule: xstep.cases)
    case (mainA a es)
    have "FileTransferDidFinish None \<in> set es \<longrightarrow> D @ concat cs = C"
      using run_main_sender [OF sok mainA(2)] prefix_full [OF pre] by blast
    with run_main_sender [OF sok mainA(2)] run_main_dcOut [OF mainA(2)]
    have "xinv_at src dest C t D cs k pend j"
      using inv mainA(1) by (auto simp: xinv_at_def)
    then show ?thesis by (rule xinvI)
  next
    case (mainB b es)
    from run_main_receiver [OF rok mainB(2)] run_main_dcOut [OF mainB(2)]
    have "xinv_at src dest C t D cs k pend j"
      using inv mainB(1) by (auto simp: xinv_at_def)
    then show ?thesis by (rule xinvI)
  next
    case (chanA d)
    have "sender_ok src C (length (D @ concat cs)) pend ((endA s)\<lparr>dataChannel := d\<rparr>)"
      by (rule sender_ok_frame [OF sok]) (use sok in \<open>auto simp: sender_ok_def\<close>)
    with inv chanA have "xinv_at src dest C t D cs k pend j" by (simp add: xinv_at_def)
    then show ?thesis by (rule xinvI)
  next
    case (chanB d)
    have "receiver_ok dest C D ((endB s)\<lparr>dataChannel := d\<rparr>)"
      by (rule receiver_ok_frame [OF rok]) (use rok in \<open>auto simp: receiver_ok_def\<close>)
    with inv chanB have "xinv_at src dest C t D cs k pend j" by (simp add: xinv_at_def)
    then show ?thesis by (rule xinvI)
  qed (use xinv_loop [OF inv] xinv_toA [OF inv] xinv_toB [OF inv] in auto)
qed

section \<open>From the handshake to the end\<close>

text \<open>A client with no transfer: what a new client has, and what the cleanup leaves.\<close>

definition no_transfer :: "client \<Rightarrow> bool" where
  "no_transfer c \<longleftrightarrow>
     sendHandle c = None \<and> recvHandle c = None \<and> mainQ c = [] \<and> fileQ c = 0 \<and> loop_at c = LIdle \<and>
     dcOut c = []"

text \<open>
  The sender offers the file, the offer reaches the receiver, its delegate is told and accepts
  into \<open>dest\<close>; the file system grants both opens.
\<close>

definition handshake :: "string \<Rightarrow> string \<Rightarrow> string \<Rightarrow> client \<Rightarrow> client \<Rightarrow> xsys option" where
  "handshake src name dest a b =
     (case sendFileAtURL src (Some name) None a of
        (SendYes, a1) \<Rightarrow>
          (case dcOut a1 of
             [m] \<Rightarrow>
               (case didReceiveMessageWithBuffer None m b of
                  Inr b1 \<Rightarrow>
                    let (b2, es) = run_main b1 in
                    Some \<lparr>endA = a1\<lparr>dcOut := []\<rparr>, endB = acceptIncomingFileToURL dest True None b2,
                          evA = [], evB = es\<rparr>
                | Inl _ \<Rightarrow> None)
           | _ \<Rightarrow> None)
      | _ \<Rightarrow> None)"

definition started :: "string \<Rightarrow> string \<Rightarrow> byte list \<Rightarrow> xsys \<Rightarrow> bool" where
  "started src dest C s \<longleftrightarrow>
     (\<exists>a b name. no_transfer a \<and> no_transfer b \<and> fs a src = Some C \<and> length C < 2 ^ 64 \<and>
        channel_takes b \<and> handshake src name dest a b = Some s)"

lemma of_nat_u64_eq_0_iff: "n < 2 ^ 64 \<Longrightarrow> (of_nat n :: u64) = 0 \<longleftrightarrow> n = 0"
  using of_nat_u64_le_iff [of n 0] by auto

lemma handshake_state:
  assumes "no_transfer a" "no_transfer b" "fs a src = Some C" "length C < 2 ^ 64" "channel_takes b"
    and "handshake src name dest a b = Some s"
  shows "0 < length C"
    and "s = \<lparr>endA = a\<lparr>transferCancelled := False, sendHandle := Some (src, 0),
                 sendTotalBytes := of_nat (length C), sendBytesSent := 0\<rparr>,
              endB = b\<lparr>incomingFileName := Some name, recvTotalBytes := of_nat (length C),
                 recvBytesReceived := 0, fs := (fs b)(dest \<mapsto> []), recvHandle := Some (dest, 0),
                 dcOut := [msg_accept]\<rparr>,
              evA = [], evB = [FileReceiveOffered (Some name) (of_nat (length C))]\<rparr>"
  using assms
  by (auto simp: handshake_def sendFileAtURL_def file_size_def no_transfer_def sendControlJSON_def
      sendData_def didReceiveMessageWithBuffer_def on_text_def container_def ft_offer_def Let_def
      on_ft_offer_def ull_value_def dispatch_main_def run_main_def acceptIncomingFileToURL_def
      of_nat_u64_eq_0_iff channel_takes_def split: if_splits option.splits)

lemma started_xinv: "started src dest C s \<Longrightarrow> xinv src dest C s"
proof -
  assume "started src dest C s"
  then obtain a b name where h: "no_transfer a" "no_transfer b" "fs a src = Some C" "length C < 2 ^ 64"
      "channel_takes b" "handshake src name dest a b = Some s"
    by (auto simp: started_def)
  note s = handshake_state [OF h]
  have "xinv_at src dest C s [] [] 0 True 0"
    using h s(1)
    by (simp add: s(2) xinv_at_def receiver_ok_def sender_ok_def position_ok_def stopped_def no_transfer_def)
  then show ?thesis by (rule xinvI)
qed

interpretation transfer: safe_system "started src dest C" xstep "xinv src dest C" for src dest C
  by unfold_locales (auto intro: started_xinv xstep_xinv)

lemma payload_binaries [simp]: "payload (map Binary cs) = concat cs"
  by (induction cs) simp_all

lemma payload_done [simp]: "payload (replicate k (Text m)) = []"
  by (induction k) simp_all

text \<open>
  C1. Integrity of a transfer. From the accepted offer of a file with contents \<open>C\<close>, whatever the
  order in which the sending loop, the two main queues and the deliveries run, and whatever the
  channel's state, buffer level and refusals: the destination file always holds a prefix of \<open>C\<close>,
  which together with the bytes under way is still a prefix of \<open>C\<close>; the receiver's delegate is
  never told of a failure, and is told of success only when the destination holds exactly \<open>C\<close>;
  the sender's delegate is told of success only when every byte has been handed to the channel.
\<close>

theorem transfer_integrity:
  assumes "started src dest C s" and "xstep\<^sup>*\<^sup>* s t"
  shows "\<exists>D. fs (endB t) dest = Some D \<and> prefix (D @ payload (dcOut (endA t))) C
    \<and> (\<forall>e. FileTransferDidFinish e \<in> set (evB t) \<longrightarrow> e = None \<and> D = C)
    \<and> (FileTransferDidFinish None \<in> set (evA t) \<longrightarrow> D @ payload (dcOut (endA t)) = C)"
proof -
  from transfer.inv_reachable [OF assms] obtain D cs k pend j
    where "xinv_at src dest C t D cs k pend j" by (auto simp: xinv_def)
  then have "fs (endB t) dest = Some D" "payload (dcOut (endA t)) = concat cs" "prefix (D @ concat cs) C"
    "\<forall>e. FileTransferDidFinish e \<in> set (evB t) \<longrightarrow> e = None \<and> D = C"
    "FileTransferDidFinish None \<in> set (evA t) \<longrightarrow> D @ concat cs = C"
    unfolding xinv_at_def receiver_ok_def by simp_all
  then show ?thesis by (intro exI [of _ D]) simp
qed

end
