(* ===== verification/Transfer_Progress.thy ===== *)
theory Transfer_Progress
  imports File_Transfer
begin

text \<open>
  The sending loop ends, whatever runs beside it, and how it reports its end; and a transfer over
  a channel that stays open and accepting runs to completion at both ends.
\<close>

section \<open>The sending loop ends\<close>

definition send_remaining :: "client \<Rightarrow> nat" where
  "send_remaining c =
     (case sendHandle c of
        None \<Rightarrow> 0
      | Some (p, off) \<Rightarrow> length (case fs c p of Some x \<Rightarrow> x | None \<Rightarrow> []) - off)"

text \<open>How much more there is to read after something has run beside the loop: 0 where it reads less.\<close>

definition added_bytes :: "client \<Rightarrow> client \<Rightarrow> nat" where
  "added_bytes c d = send_remaining d - send_remaining c"

fun loop_rank :: "loop_pc \<Rightarrow> nat" where
  "loop_rank LIdle = 0"
| "loop_rank (LExitTotal v) = 1"
| "loop_rank LExitSent = 2"
| "loop_rank LExit = 3"
| "loop_rank LRead = 4"
| "loop_rank LCheckOpen = 5"
| "loop_rank (LWaitAmount n) = 7 + 4 * (200 - n)"
| "loop_rank (LWaitState n) = 8 + 4 * (200 - n)"
| "loop_rank (LWait n) = 9 + 4 * (200 - n)"
| "loop_rank (LSlept n) = 10 + 4 * (200 - n)"
| "loop_rank (LHeadTotal v) = 811"
| "loop_rank LHeadSent = 812"
| "loop_rank LHead = 813"
| "loop_rank (LProgressTotal v) = 814"
| "loop_rank LProgressSent = 815"
| "loop_rank LProgress = 816"
| "loop_rank (LStore bs v) = 817"
| "loop_rank (LAccount bs) = 818"
| "loop_rank (LSendTry bs r) = 819 + 3 * (120 - r)"
| "loop_rank (LSendState bs r) = 820 + 3 * (120 - r)"
| "loop_rank (LSend bs r) = (if r < 120 then 821 + 3 * (120 - r) else 1)"

definition loop_measure :: "client \<Rightarrow> nat" where
  "loop_measure c = 1200 * send_remaining c + loop_rank (loop_at c)"

lemma send_remaining_cong:
  "sendHandle d = sendHandle c \<Longrightarrow> fs d = fs c \<Longrightarrow> send_remaining d = send_remaining c"
  by (simp add: send_remaining_def split: option.split)

text \<open>
  What the program itself runs beside the loop leaves its control point alone. Only a new offer of a file, and blocks
  written to the very file being sent, give it more to read.
\<close>

definition beside :: "client \<Rightarrow> nat \<Rightarrow> client \<Rightarrow> bool" where
  "beside c n d \<longleftrightarrow> loop_at d = loop_at c \<and> added_bytes c d \<le> n"

lemma besideI:
  assumes "loop_at d = loop_at c" "fs d = fs c" "sendHandle d = sendHandle c \<or> sendHandle d = None"
  shows "beside c 0 d"
  using assms send_remaining_cong [of d c] by (auto simp: beside_def added_bytes_def send_remaining_def)

lemmas beside_defs = cleanupTransferWithError_def dispatch_main_def sendControlJSON_def sendData_def

lemma run_main_beside: "run_main c = (d, es) \<Longrightarrow> beside c 0 d"
  by (rule besideI; cases "mainQ c"; cases "hd (mainQ c)")
    (auto simp: run_main_def reset_transfer_def beside_defs split: if_splits)

lemma cancel_beside: "beside c 0 (cancelFileTransfer c)"
  by (rule besideI) (simp_all add: cancelFileTransfer_def beside_defs)

lemma reject_beside: "beside c 0 (rejectIncomingFileWithReason r c)"
  by (rule besideI) (simp_all add: rejectIncomingFileWithReason_def beside_defs)

lemma channel_beside: "beside c 0 (c\<lparr>dataChannel := d\<rparr>)"
  by (rule besideI) simp_all

lemma text_beside: "didReceiveMessageWithBuffer w (Text j) c = Inr d \<Longrightarrow> beside c 0 d"
  by (rule besideI)
    (auto simp: didReceiveMessageWithBuffer_def on_text_def on_hello_def on_ft_offer_def startSendingLoop_def Let_def
      beside_defs split: option.splits json.splits if_splits)

lemma accept_beside: "beside c 0 (acceptIncomingFileToURL dest created res c)"
proof -
  have t: "beside c 0 d" if "loop_at d = loop_at c" "sendHandle d = sendHandle c" "fs d = fs c \<or> fs d = (fs c)(dest \<mapsto> [])" for d
    using that by (auto simp: beside_def added_bytes_def send_remaining_def split: option.splits if_splits)
  show ?thesis
    by (rule t) (auto simp: acceptIncomingFileToURL_def rejectIncomingFileWithReason_def Let_def beside_defs split: option.split)
qed

lemma send_file_beside: "beside c (length (case fs c url of Some x \<Rightarrow> x | None \<Rightarrow> [])) (snd (sendFileAtURL url nm err c))"
  by (auto simp: beside_def added_bytes_def send_remaining_def sendFileAtURL_def Let_def beside_defs split: option.split)

lemma read_chunk_remaining:
  "read_chunk c = (bs, c') \<Longrightarrow> send_remaining c' = send_remaining c - length bs \<and>
     length bs \<le> send_remaining c \<and> loop_at c' = loop_at c"
  by (auto simp: read_chunk_def send_remaining_def Let_def split: option.splits prod.splits)

lemma loop_step_decreases:
  assumes "loop_at c \<noteq> LIdle"
  shows "loop_measure (loop_step re c) < loop_measure c"
proof (cases "loop_at c = LRead")
  case True
  obtain bs c1 where r: "read_chunk c = (bs, c1)" by fastforce
  have s: "send_remaining (x\<lparr>loop_at := p\<rparr>) = send_remaining x" for x p
    by (rule send_remaining_cong) simp_all
  from read_chunk_remaining [OF r] True r show ?thesis
    by (cases bs) (auto simp: loop_step_def loop_measure_def s)
next
  case False
  have same: "send_remaining (loop_step re c) = send_remaining c"
    using False by (intro send_remaining_cong; cases "loop_at c") (simp_all add: loop_step_def loop_fail_def beside_defs Let_def)
  have "loop_rank (loop_at (loop_step re c)) < loop_rank (loop_at c)"
  proof (cases "loop_at c")
    case (LWaitAmount n)
    then show ?thesis by (simp add: loop_step_def) linarith
  next
    case (LSendTry bs r)
    then show ?thesis by (simp add: loop_step_def sendData_def) linarith
  qed (use assms False in \<open>simp_all add: loop_step_def loop_fail_def beside_defs Let_def\<close>)
  with same show ?thesis by (simp add: loop_measure_def)
qed

lemma loop_run_progress:
  assumes "\<forall>i<n. loop_at (ds i) = loop_at (cs i) \<and> cs (Suc i) = loop_step (re i) (ds i)"
  shows "(\<exists>k\<le>n. loop_at (cs k) = LIdle) \<or>
    loop_measure (cs n) + n \<le> loop_measure (cs 0) + 1200 * (\<Sum>i<n. added_bytes (cs i) (ds i))"
  using assms
proof (induction n)
  case (Suc n)
  then have IH: "(\<exists>k\<le>n. loop_at (cs k) = LIdle) \<or>
      loop_measure (cs n) + n \<le> loop_measure (cs 0) + 1200 * (\<Sum>i<n. added_bytes (cs i) (ds i))" by auto
  show ?case
  proof (cases "\<exists>k\<le>n. loop_at (cs k) = LIdle")
    case True
    then show ?thesis using le_SucI by blast
  next
    case False
    have d: "loop_at (ds n) = loop_at (cs n)" "cs (Suc n) = loop_step (re n) (ds n)" using Suc.prems by auto
    have "loop_measure (ds n) \<le> loop_measure (cs n) + 1200 * added_bytes (cs n) (ds n)"
    proof -
      have "send_remaining (ds n) \<le> send_remaining (cs n) + added_bytes (cs n) (ds n)" by (simp add: added_bytes_def)
      then show ?thesis unfolding loop_measure_def d(1) by linarith
    qed
    moreover have "loop_measure (cs (Suc n)) < loop_measure (ds n)"
      unfolding d(2) using False d(1) by (intro loop_step_decreases) auto
    moreover have "loop_measure (cs n) + n \<le> loop_measure (cs 0) + 1200 * (\<Sum>i<n. added_bytes (cs i) (ds i))"
      using IH False by blast
    moreover have "(\<Sum>i<Suc n. added_bytes (cs i) (ds i)) = (\<Sum>i<n. added_bytes (cs i) (ds i)) + added_bytes (cs n) (ds n)"
      by simp
    ultimately have "loop_measure (cs (Suc n)) + Suc n \<le> loop_measure (cs 0) + 1200 * (\<Sum>i<Suc n. added_bytes (cs i) (ds i))"
      by linarith
    then show ?thesis ..
  qed
qed simp

text \<open>
  C14. The sending loop ends. Between any two of its steps the rest of the client, the channel, the file system and a new
  transfer may do anything at all to the client, short of moving the loop itself, and the operating system may fail any
  read. If \<open>r\<close> bytes are left to read at the start and what runs beside the loop adds \<open>x\<close> more in all (a new file
  offered after a cleanup, or a file that grows), the loop is over within \<open>1200 (r + x + 1)\<close> of its steps: per chunk,
  200 waits for the buffer and 120 send attempts.
\<close>

theorem send_loop_terminates:
  assumes "\<forall>i<n. loop_at (ds i) = loop_at (cs i) \<and> cs (Suc i) = loop_step (re i) (ds i)"
    and "1200 * (send_remaining (cs 0) + (\<Sum>i<n. send_remaining (ds i) - send_remaining (cs i)) + 1) \<le> n"
  shows "\<exists>k\<le>n. loop_at (cs k) = LIdle"
proof (rule ccontr)
  assume "\<not> ?thesis"
  with loop_run_progress [OF assms(1)]
  have "loop_measure (cs n) + n \<le> loop_measure (cs 0) + 1200 * (\<Sum>i<n. added_bytes (cs i) (ds i))" by blast
  moreover have "loop_rank (loop_at (cs 0)) < 1200" by (cases "loop_at (cs 0)") auto
  ultimately show False using assms(2) by (simp add: loop_measure_def added_bytes_def)
qed

theorem send_loop_terminates_witness:
  "\<exists>c k. loop_at c = LHead \<and> send_remaining c = 1 \<and> k \<le> 2400 \<and> loop_at ((loop_step False ^^ k) c) = LIdle"
proof -
  let ?c = "(client_init (\<lambda>_. Some [0]))\<lparr>sendHandle := Some (''f'', 0), loop_at := LHead\<rparr>"
  have r: "send_remaining ?c = 1" by (simp add: send_remaining_def client_init_def)
  have "\<exists>k\<le>2400. loop_at ((loop_step False ^^ k) ?c) = LIdle"
    by (rule send_loop_terminates [of 2400 "\<lambda>i. (loop_step False ^^ i) ?c" "\<lambda>i. (loop_step False ^^ i) ?c" "\<lambda>_. False"])
      (use r in simp_all)
  with r show ?thesis by (intro exI [of _ ?c]) auto
qed

section \<open>How the loop reports its end\<close>

text \<open>
  C23. Every way out of the loop but one reports to the delegate exactly once. The step that ends it
  queues a single cleanup: without an error after handing over the end marker, when the sent count (read one step
  before) has reached the total; with code 31 when a read came back empty before that; with code 32 when the
  channel was no longer open before a read; with code 30 when a piece could not be handed over, be it
  after 120 refusals, because the channel closed or because the user cancelled. Leaving the loop at its
  head or after an empty read because of a cancellation reports nothing: the cancel has done so.
\<close>

theorem loop_exit_outcome:
  assumes "loop_at c \<noteq> LIdle" and "loop_at (loop_step re c) = LIdle"
  shows "\<exists>q. mainQ (loop_step re c) = mainQ c @ q \<and>
    (case loop_at c of
       LCheckOpen \<Rightarrow> readyState_of c \<noteq> kOpen \<and>
         q = [TCleanup (Some (NSError 32 ''DataChannel closed during send''))]
     | LSend bs r \<Rightarrow> (120 \<le> r \<or> transferCancelled c) \<and>
         q = [TCleanup (Some (NSError 30 ''DataChannel send failed (backpressure timeout)''))]
     | LSendState bs r \<Rightarrow> readyState_of c \<noteq> kOpen \<and>
         q = [TCleanup (Some (NSError 30 ''DataChannel send failed (backpressure timeout)''))]
     | LExit \<Rightarrow> transferCancelled c \<and> q = []
     | LExitTotal sent \<Rightarrow>
         (\<forall>b. loop_at b = LExitSent \<longrightarrow> loop_step re b = b\<lparr>loop_at := LExitTotal (sendBytesSent b)\<rparr>) \<and>
         dcOut (loop_step re c) =
           dcOut c @ (if sendTotalBytes c \<le> sent \<and> channel_takes c then [msg_done] else []) \<and>
         q = (if sendTotalBytes c \<le> sent then [TCleanup None]
              else [TCleanup (Some (NSError 31 ''Send ended early''))])
     | _ \<Rightarrow> False)"
  using assms
  by (cases "loop_at c") (auto simp: loop_step_def loop_fail_def beside_defs Let_def split: if_splits prod.splits)

theorem loop_exit_outcome_witness:
  "\<exists>c. loop_at c = LSend [1] 3 \<and> transferCancelled c \<and>
     mainQ (loop_step False c) = [TCleanup (Some (NSError 30 ''DataChannel send failed (backpressure timeout)''))]"
proof -
  let ?c = "(client_init (\<lambda>_. None))\<lparr>loop_at := LSend [1] 3, transferCancelled := True\<rparr>"
  have "loop_at (loop_step False ?c) = LIdle"
    by (simp add: loop_step_def loop_fail_def cleanupTransferWithError_def dispatch_main_def)
  from loop_exit_outcome [OF _ this] show ?thesis
    by (intro exI [of _ ?c]) (simp add: client_init_def)
qed

section \<open>A transfer over a working channel completes\<close>

definition channel_ready :: "client \<Rightarrow> bool" where
  "channel_ready c =
     (case dataChannel c of
        Some d \<Rightarrow> ready d = kOpen \<and> accepts d \<and> bufferedAmount d \<le> kBufferedAmountHighWatermark
      | None \<Rightarrow> False)"

text \<open>One turn of the loop reads and sends the next chunk.\<close>

lemma loop_turn:
  assumes "loop_at a = LHead" "\<not> transferCancelled a" "sendBytesSent a < sendTotalBytes a" "channel_ready a"
    and "sendHandle a = Some (p, n)" "fs a p = Some C" "bs = take (chunkSize a) (drop n C)" "bs \<noteq> []"
  shows "(loop_step False ^^ 16) a =
    a\<lparr>sendHandle := Some (p, n + length bs), dcOut := dcOut a @ [Binary bs],
      sendBytesSent := sendBytesSent a + of_nat (length bs), loop_at := LHead,
      mainQ := mainQ a @ [TSendProgress (progress_of (sendBytesSent a + of_nat (length bs)) (sendTotalBytes a))]\<rparr>"
proof -
  from assms(4) obtain d where d: "dataChannel a = Some d" "ready d = kOpen" "accepts d"
      "\<not> bufferedAmount d > kBufferedAmountHighWatermark"
    by (auto simp: channel_ready_def split: option.splits)
  let ?r = "a\<lparr>sendHandle := Some (p, n + length bs)\<rparr>"
  let ?s = "?r\<lparr>dcOut := dcOut a @ [Binary bs]\<rparr>"
  let ?t = "?s\<lparr>sendBytesSent := sendBytesSent a + of_nat (length bs)\<rparr>"
  note defs = loop_step_def readyState_of_def bufferedAmount_of_def channel_takes_def sendData_def
    dispatch_main_def Let_def d
  have pos: "0 < sendTotalBytes a" using assms(3) by (metis bot_nat_0.not_eq_extremum not_less_zero word_gt_0 word_not_simps(1))
  have rc: "read_chunk (a\<lparr>loop_at := LRead\<rparr>) = (bs, ?r\<lparr>loop_at := LRead\<rparr>)"
    by (simp add: read_chunk_def Let_def assms(5-7))
  have ac: "a\<lparr>loop_at := LHead\<rparr> = a" using assms(1) by simp
  have head: "loop_step False a = a\<lparr>loop_at := LHeadSent\<rparr>"
    "loop_step False (a\<lparr>loop_at := LHeadSent\<rparr>) = a\<lparr>loop_at := LHeadTotal (sendBytesSent a)\<rparr>"
    "loop_step False (a\<lparr>loop_at := LHeadTotal (sendBytesSent a)\<rparr>) = a\<lparr>loop_at := LWait 0\<rparr>"
    using assms(1-3) by (simp_all add: defs)
  have wait: "loop_step False (a\<lparr>loop_at := LWait 0\<rparr>) = a\<lparr>loop_at := LWaitState 0\<rparr>"
    "loop_step False (a\<lparr>loop_at := LWaitState 0\<rparr>) = a\<lparr>loop_at := LWaitAmount 0\<rparr>"
    "loop_step False (a\<lparr>loop_at := LWaitAmount 0\<rparr>) = a\<lparr>loop_at := LCheckOpen\<rparr>"
    "loop_step False (a\<lparr>loop_at := LCheckOpen\<rparr>) = a\<lparr>loop_at := LRead\<rparr>"
    using assms(2) d(4) by (simp_all add: defs)
  have send: "loop_step False (a\<lparr>loop_at := LRead\<rparr>) = ?r\<lparr>loop_at := LSend bs 0\<rparr>"
    "loop_step False (?r\<lparr>loop_at := LSend bs 0\<rparr>) = ?r\<lparr>loop_at := LSendState bs 0\<rparr>"
    "loop_step False (?r\<lparr>loop_at := LSendState bs 0\<rparr>) = ?r\<lparr>loop_at := LSendTry bs 0\<rparr>"
    "loop_step False (?r\<lparr>loop_at := LSendTry bs 0\<rparr>) = ?s\<lparr>loop_at := LAccount bs\<rparr>"
    using assms(2,8) rc by (simp_all add: defs)
  have account: "loop_step False (?s\<lparr>loop_at := LAccount bs\<rparr>) = ?s\<lparr>loop_at := LStore bs (sendBytesSent a)\<rparr>"
    "loop_step False (?s\<lparr>loop_at := LStore bs (sendBytesSent a)\<rparr>) = ?t\<lparr>loop_at := LProgress\<rparr>"
    "loop_step False (?t\<lparr>loop_at := LProgress\<rparr>) = ?t\<lparr>loop_at := LProgressSent\<rparr>"
    "loop_step False (?t\<lparr>loop_at := LProgressSent\<rparr>) = ?t\<lparr>loop_at := LProgressTotal (sendBytesSent ?t)\<rparr>"
    using pos by (simp_all add: defs)
  have last: "loop_step False (?t\<lparr>loop_at := LProgressTotal (sendBytesSent ?t)\<rparr>) = ?t\<lparr>loop_at := LHead,
      mainQ := mainQ a @ [TSendProgress (progress_of (sendBytesSent a + of_nat (length bs)) (sendTotalBytes a))]\<rparr>"
    using pos by (simp add: defs progress_of_def)
  have "(loop_step False ^^ 16) a = loop_step False (?t\<lparr>loop_at := LProgressTotal (sendBytesSent ?t)\<rparr>)"
    by (simp only: numeral_eq_Suc pred_numeral_simps BitM.simps funpow.simps o_apply id_apply head wait send account)
  then show ?thesis unfolding last by simp
qed

lemma xstep_loop_pow: "xstep\<^sup>*\<^sup>* s (s\<lparr>endA := (loop_step False ^^ n) (endA s)\<rparr>)"
proof (induction n)
  case (Suc n)
  have "xstep (s\<lparr>endA := (loop_step False ^^ n) (endA s)\<rparr>) (s\<lparr>endA := (loop_step False ^^ Suc n) (endA s)\<rparr>)"
    using xstep.loop [of "s\<lparr>endA := (loop_step False ^^ n) (endA s)\<rparr>" False] by simp
  with Suc show ?case by (rule rtranclp.rtrancl_into_rtrancl)
qed simp

text \<open>The state between two turns, with \<open>n\<close> bytes across.\<close>

definition between_turns :: "string \<Rightarrow> string \<Rightarrow> byte list \<Rightarrow> nat \<Rightarrow> xsys \<Rightarrow> bool" where
  "between_turns src dest C n s \<longleftrightarrow>
     (\<exists>j. xinv_at src dest C s (take n C) [] 0 False j) \<and> n \<le> length C \<and> loop_at (endA s) = LHead \<and>
     sendHandle (endA s) \<noteq> None \<and> channel_ready (endA s) \<and> 0 < chunkSize (endA s)"

lemma between_turnsD:
  assumes "between_turns src dest C n s"
  shows "sendHandle (endA s) = Some (src, n)" "fs (endA s) src = Some C" "\<not> transferCancelled (endA s)"
    "sendBytesSent (endA s) = of_nat n" "sendTotalBytes (endA s) = of_nat (length C)"
    "length C < 2 ^ 64" "dcOut (endA s) = []"
proof -
  from assms have l: "loop_at (endA s) = LHead" "sendHandle (endA s) \<noteq> None" "n \<le> length C"
    and inv: "sender_ok src C n False (endA s)" "dcOut (endA s) = []"
    by (auto simp: between_turns_def xinv_at_def min_absorb2)
  from inv(1) show "fs (endA s) src = Some C" "\<not> transferCancelled (endA s)" "length C < 2 ^ 64"
    by (simp_all add: sender_ok_def)
  from inv(1) l(1,2) show "sendHandle (endA s) = Some (src, n)" "sendBytesSent (endA s) = of_nat n"
      "sendTotalBytes (endA s) = of_nat (length C)"
    by (auto simp: sender_ok_def position_ok_def)
  show "dcOut (endA s) = []" by (rule inv(2))
qed

lemma between_turns_step:
  assumes "between_turns src dest C n s" "n < length C"
  shows "\<exists>t n'. xstep\<^sup>*\<^sup>* s t \<and> between_turns src dest C n' t \<and> n < n'"
proof -
  note d = between_turnsD [OF assms(1)]
  from assms(1) obtain j where inv: "xinv_at src dest C s (take n C) [] 0 False j"
    and l: "loop_at (endA s) = LHead" "channel_ready (endA s)" "0 < chunkSize (endA s)"
    by (auto simp: between_turns_def)
  define bs where "bs = take (chunkSize (endA s)) (drop n C)"
  have bs: "bs \<noteq> []" "n + length bs \<le> length C" "take n C @ bs = take (n + length bs) C"
    using assms(2) l(3) by (auto simp: bs_def take_add min_def)
  have lt: "sendBytesSent (endA s) < sendTotalBytes (endA s)"
    using d(6) assms(2) by (simp add: d of_nat_u64_less_iff)
  let ?a = "(loop_step False ^^ 16) (endA s)"
  let ?b = "on_binary None bs (endB s)"
  let ?t = "s\<lparr>endA := ?a\<lparr>dcOut := []\<rparr>, endB := ?b\<rparr>"
  note turn = loop_turn [OF l(1) d(3) lt l(2) d(1,2) bs_def bs(1)]
  have dc: "dcOut ?a = [Binary bs]" by (simp add: turn d)
  have r: "didReceiveMessageWithBuffer None (Binary bs) (endB s) = Inr ?b"
    by (simp add: didReceiveMessageWithBuffer_def)
  have "xstep (s\<lparr>endA := ?a\<rparr>) ?t"
    using xstep.toB [of "s\<lparr>endA := ?a\<rparr>" "Binary bs" "[]" ?b] dc r by simp
  with xstep_loop_pow have run: "xstep\<^sup>*\<^sup>* s ?t" by (rule rtranclp.rtrancl_into_rtrancl)
  from inv have rok: "receiver_ok dest C (take n C) (endB s)" by (simp add: xinv_at_def)
  have "prefix (take n C @ bs) C" by (simp add: bs(3) take_is_prefix)
  from binary_receiver [OF rok bs(1) this r] obtain i
    where b: "receiver_ok dest C (take (n + length bs) C) ?b" "dcOut ?b = replicate (j + i) msg_done"
      "i \<noteq> 0 \<longrightarrow> take (n + length bs) C = C"
    using inv by (auto simp: xinv_at_def bs(3) replicate_snoc simp del: replicate_Suc)
  have "take n C \<noteq> C" using assms(2) by (metis length_take less_irrefl min.absorb4)
  then have "xinv_at src dest C ?t (take (n + length bs) C) [] 0 False (j + i)"
    using inv b d bs(2) by (auto simp: xinv_at_def turn take_is_prefix sender_ok_def position_ok_def stopped_def l)
  then have "between_turns src dest C (n + length bs) ?t"
    using bs(2) l by (auto simp: between_turns_def turn channel_ready_def)
  with run bs(1) show ?thesis by (metis less_add_same_cancel1 length_greater_0_conv)
qed

lemma between_turns_all:
  "between_turns src dest C n s \<Longrightarrow> \<exists>t. xstep\<^sup>*\<^sup>* s t \<and> between_turns src dest C (length C) t"
proof (induction "length C - n" arbitrary: n s rule: less_induct)
  case less
  then have "n \<le> length C" by (simp add: between_turns_def)
  show ?case
  proof (cases "n < length C")
    case True
    from between_turns_step [OF less.prems True] obtain t n'
      where t: "xstep\<^sup>*\<^sup>* s t" "between_turns src dest C n' t" "n < n'" by blast
    with less.hyps [of n' t] True show ?thesis by (meson diff_less_mono2 rtranclp_trans)
  next
    case False
    with \<open>n \<le> length C\<close> less.prems show ?thesis by auto
  qed
qed

text \<open>The first delivery of the acceptance brings a started transfer between turns.\<close>

lemma started_between_turns:
  assumes st: "started src dest C s" and "channel_ready (endA s)" "0 < chunkSize (endA s)"
  shows "\<exists>t. xstep\<^sup>*\<^sup>* s t \<and> between_turns src dest C 0 t"
proof -
  from st obtain a b name where h: "no_transfer a" "no_transfer b" "fs a src = Some C" "length C < 2 ^ 64"
      "channel_takes b" "handshake src name dest a b = Some s"
    by (auto simp: started_def)
  note s = handshake_state [OF h]
  let ?a = "(endA s)\<lparr>fileQ := 1\<rparr>"
  have l: "loop_at (endA s) = LIdle" "sendHandle (endA s) = Some (src, 0)" "fileQ (endA s) = 0"
    using h(1) by (simp_all add: s(2) no_transfer_def)
  have acc: "didReceiveMessageWithBuffer None msg_accept (endA s) = Inr ?a"
    by (simp add: didReceiveMessageWithBuffer_def on_text_def container_def ft_simple_def Let_def
        startSendingLoop_def l)
  let ?u = "s\<lparr>endB := (endB s)\<lparr>dcOut := []\<rparr>, endA := ?a\<rparr>" and ?t = "s\<lparr>endB := (endB s)\<lparr>dcOut := []\<rparr>,
      endA := (endA s)\<lparr>fileQ := 0, loop_at := LHead\<rparr>\<rparr>"
  have "xstep s ?u" using acc by (intro xstep.toA) (simp_all add: s(2))
  moreover have "xstep ?u ?t"
    using xstep.loop [of ?u False] l by (simp add: loop_step_def)
  ultimately have "xstep\<^sup>*\<^sup>* s ?t" by (meson converse_rtranclp_into_rtranclp r_into_rtranclp)
  moreover have "xinv_at src dest C ?t (take 0 C) [] 0 False 0"
    using h s(1)
    by (simp add: s(2) xinv_at_def receiver_ok_def sender_ok_def position_ok_def stopped_def no_transfer_def)
  then have "between_turns src dest C 0 ?t"
    unfolding between_turns_def using assms(2,3) l by (auto simp: channel_ready_def)
  ultimately show ?thesis by blast
qed

text \<open>With every byte across, the loop leaves, and its end marker reaches the receiver.\<close>

lemma between_turns_done:
  assumes "between_turns src dest C (length C) s"
  shows "\<exists>t. xstep\<^sup>*\<^sup>* s t \<and> TCleanup None \<in> set (mainQ (endA t)) \<and> TCleanup None \<in> set (mainQ (endB t))"
proof -
  note d = between_turnsD [OF assms]
  from assms have l: "loop_at (endA s) = LHead" "channel_ready (endA s)" by (auto simp: between_turns_def)
  then have tk: "channel_takes (endA s)" by (auto simp: channel_ready_def channel_takes_def split: option.splits)
  let ?a = "(loop_step False ^^ 6) (endA s)" and ?e = "endA s" and ?n = "of_nat (length C) :: u64"
  let ?b = "(endB s)\<lparr>mainQ := mainQ (endB s) @ [TCleanup None]\<rparr>"
  let ?t = "s\<lparr>endA := ?a\<lparr>dcOut := []\<rparr>, endB := ?b\<rparr>"
  have leave: "loop_step False ?e = ?e\<lparr>loop_at := LHeadSent\<rparr>"
    "loop_step False (?e\<lparr>loop_at := LHeadSent\<rparr>) = ?e\<lparr>loop_at := LHeadTotal ?n\<rparr>"
    "loop_step False (?e\<lparr>loop_at := LHeadTotal ?n\<rparr>) = ?e\<lparr>loop_at := LExit\<rparr>"
    "loop_step False (?e\<lparr>loop_at := LExit\<rparr>) = ?e\<lparr>loop_at := LExitSent\<rparr>"
    "loop_step False (?e\<lparr>loop_at := LExitSent\<rparr>) = ?e\<lparr>loop_at := LExitTotal ?n\<rparr>"
    by (simp_all add: loop_step_def l d)
  have fin: "loop_step False (?e\<lparr>loop_at := LExitTotal ?n\<rparr>) =
      ?e\<lparr>loop_at := LIdle, dcOut := [msg_done], mainQ := mainQ ?e @ [TCleanup None]\<rparr>"
    using d tk by (simp add: loop_step_def Let_def beside_defs)
  have a2: "?a = (endA s)\<lparr>loop_at := LIdle, dcOut := [msg_done], mainQ := mainQ (endA s) @ [TCleanup None]\<rparr>"
    by (simp only: numeral_eq_Suc pred_numeral_simps BitM.simps funpow.simps o_apply id_apply leave fin)
  have "xstep (s\<lparr>endA := ?a\<rparr>) ?t"
    using xstep.toB [of "s\<lparr>endA := ?a\<rparr>" msg_done "[]" ?b]
    by (simp add: a2 didReceiveMessageWithBuffer_def on_text_def container_def ft_simple_def Let_def
        cleanupTransferWithError_def dispatch_main_def)
  with xstep_loop_pow have "xstep\<^sup>*\<^sup>* s ?t" by (rule rtranclp.rtrancl_into_rtrancl)
  moreover have "TCleanup None \<in> set (mainQ (endA ?t))" "TCleanup None \<in> set (mainQ (endB ?t))"
    by (simp_all add: a2)
  ultimately show ?thesis by blast
qed

text \<open>The main queues run what they hold.\<close>

lemma run_main_next:
  assumes "mainQ c = t # ts"
  shows "\<exists>d es zs. run_main c = (d, es) \<and> mainQ d = ts @ zs \<and> (t = TCleanup None \<longrightarrow> FileTransferDidFinish None \<in> set es)"
  using assms
  by (cases t) (auto simp: run_main_def reset_transfer_def cleanupTransferWithError_def dispatch_main_def)

lemma drain_A:
  "mainQ (endA s) = xs @ TCleanup None # ys \<Longrightarrow>
   \<exists>t. xstep\<^sup>*\<^sup>* s t \<and> FileTransferDidFinish None \<in> set (evA t) \<and> endB t = endB s"
proof (induction xs arbitrary: s ys)
  case Nil
  from run_main_next [of "endA s" "TCleanup None" ys] Nil obtain a es
    where r: "run_main (endA s) = (a, es)" "FileTransferDidFinish None \<in> set es" by auto
  from xstep.mainA [OF r(1)] r(2) show ?case by (intro exI [of _ "s\<lparr>endA := a, evA := evA s @ es\<rparr>"]) auto
next
  case (Cons x xs)
  from run_main_next [of "endA s" x "xs @ TCleanup None # ys"] Cons.prems obtain a es zs
    where r: "run_main (endA s) = (a, es)" "mainQ a = xs @ TCleanup None # ys @ zs" by auto
  from Cons.IH [of "s\<lparr>endA := a, evA := evA s @ es\<rparr>" "ys @ zs"] r(2) obtain t
    where t: "xstep\<^sup>*\<^sup>* (s\<lparr>endA := a, evA := evA s @ es\<rparr>) t" "FileTransferDidFinish None \<in> set (evA t)" "endB t = endB s"
    by auto
  from converse_rtranclp_into_rtranclp [OF xstep.mainA [OF r(1)] t(1)] t(2,3) show ?case by blast
qed

lemma drain_B:
  "mainQ (endB s) = xs @ TCleanup None # ys \<Longrightarrow>
   \<exists>t. xstep\<^sup>*\<^sup>* s t \<and> FileTransferDidFinish None \<in> set (evB t) \<and> evA t = evA s"
proof (induction xs arbitrary: s ys)
  case Nil
  from run_main_next [of "endB s" "TCleanup None" ys] Nil obtain a es
    where r: "run_main (endB s) = (a, es)" "FileTransferDidFinish None \<in> set es" by auto
  from xstep.mainB [OF r(1)] r(2) show ?case by (intro exI [of _ "s\<lparr>endB := a, evB := evB s @ es\<rparr>"]) auto
next
  case (Cons x xs)
  from run_main_next [of "endB s" x "xs @ TCleanup None # ys"] Cons.prems obtain a es zs
    where r: "run_main (endB s) = (a, es)" "mainQ a = xs @ TCleanup None # ys @ zs" by auto
  from Cons.IH [of "s\<lparr>endB := a, evB := evB s @ es\<rparr>" "ys @ zs"] r(2) obtain t
    where t: "xstep\<^sup>*\<^sup>* (s\<lparr>endB := a, evB := evB s @ es\<rparr>) t" "FileTransferDidFinish None \<in> set (evB t)" "evA t = evA s"
    by auto
  from converse_rtranclp_into_rtranclp [OF xstep.mainB [OF r(1)] t(1)] t(2,3) show ?case by blast
qed

lemma started_completes:
  assumes "started src dest C s" and "channel_ready (endA s)" and "0 < chunkSize (endA s)"
  shows "\<exists>t. xstep\<^sup>*\<^sup>* s t \<and> fs (endB t) dest = Some C \<and>
    FileTransferDidFinish None \<in> set (evA t) \<and> FileTransferDidFinish None \<in> set (evB t)"
proof -
  from started_between_turns [OF assms] between_turns_all between_turns_done
  obtain t1 t2 t3 where t: "xstep\<^sup>*\<^sup>* s t1" "xstep\<^sup>*\<^sup>* t1 t2" "xstep\<^sup>*\<^sup>* t2 t3"
    "TCleanup None \<in> set (mainQ (endA t3))" "TCleanup None \<in> set (mainQ (endB t3))" by metis
  from t(4) drain_A obtain t4 where t4: "xstep\<^sup>*\<^sup>* t3 t4" "FileTransferDidFinish None \<in> set (evA t4)" "endB t4 = endB t3"
    by (metis in_set_conv_decomp)
  from t(5) t4(3) drain_B obtain t5 where t5: "xstep\<^sup>*\<^sup>* t4 t5" "FileTransferDidFinish None \<in> set (evB t5)" "evA t5 = evA t4"
    by (metis in_set_conv_decomp)
  have run: "xstep\<^sup>*\<^sup>* s t5" using t(1-3) t4(1) t5(1) by (meson rtranclp_trans)
  from transfer.inv_reachable [OF assms(1) run] t5(2) have "fs (endB t5) dest = Some C"
    by (auto simp: xinv_def xinv_at_def receiver_ok_def)
  with run t4 t5 show ?thesis by auto
qed

text \<open>
  C2. A transfer completes. From an accepted offer, over a channel that stays open, accepting and
  below the high watermark, there is a run at whose end both delegates have been told of success
  and the destination holds exactly the source file.
\<close>

theorem transfer_completes:
  assumes "started src dest C s" and "channel_ready (endA s)" and "0 < chunkSize (endA s)"
  shows "\<exists>t. xstep\<^sup>*\<^sup>* s t \<and> fs (endB t) dest = Some C \<and>
    FileTransferDidFinish None \<in> set (evA t) \<and> FileTransferDidFinish None \<in> set (evB t)"
  using assms by (rule started_completes)

text \<open>A three-byte file over an open channel.\<close>

definition demo_client :: "byte list option \<Rightarrow> client" where
  "demo_client f = (client_init (\<lambda>_. f))\<lparr>dataChannel := Some \<lparr>ready = kOpen, bufferedAmount = 0, accepts = True\<rparr>\<rparr>"

definition demo_start :: xsys where
  "demo_start = the (handshake ''a.txt'' ''a.txt'' ''b.txt'' (demo_client (Some [1, 2, 3])) (demo_client None))"

lemma demo_handshake: "handshake ''a.txt'' ''a.txt'' ''b.txt'' (demo_client (Some [1, 2, 3])) (demo_client None) \<noteq> None"
  by (simp add: handshake_def demo_client_def client_init_def sendFileAtURL_def isDataChannelOpen_def readyState_of_def
      file_size_def Let_def sendControlJSON_def sendData_def channel_takes_def didReceiveMessageWithBuffer_def
      on_text_def container_def ft_offer_def on_ft_offer_def ull_value_def dispatch_main_def run_main_def)

lemma demo_started:
  "started ''a.txt'' ''b.txt'' [1, 2, 3] demo_start"
  "channel_ready (endA demo_start)" "0 < chunkSize (endA demo_start)"
proof -
  have h: "handshake ''a.txt'' ''a.txt'' ''b.txt'' (demo_client (Some [1, 2, 3])) (demo_client None) = Some demo_start"
    using demo_handshake by (simp add: demo_start_def)
  have c: "no_transfer (demo_client f)" "channel_takes (demo_client f)" for f
    by (simp_all add: no_transfer_def demo_client_def client_init_def channel_takes_def)
  have f: "fs (demo_client (Some [1, 2, 3])) ''a.txt'' = Some [1, 2, 3]" by (simp add: demo_client_def client_init_def)
  show "started ''a.txt'' ''b.txt'' [1, 2, 3] demo_start"
    unfolding started_def using c f h by (intro exI [of _ "demo_client (Some [1, 2, 3])"] exI [of _ "demo_client None"]) auto
  have "length [1, 2, 3 :: byte] < 2 ^ 64" by simp
  note st = handshake_state(2) [OF c(1) c(1) f this c(2) h]
  show "channel_ready (endA demo_start)" "0 < chunkSize (endA demo_start)"
    unfolding st by (simp_all add: demo_client_def client_init_def channel_ready_def)
qed

theorem transfer_completes_witness:
  "\<exists>t. xstep\<^sup>*\<^sup>* demo_start t \<and> fs (endB t) ''b.txt'' = Some [1, 2, 3] \<and>
    FileTransferDidFinish None \<in> set (evA t) \<and> FileTransferDidFinish None \<in> set (evB t)"
  by (rule transfer_completes [OF demo_started])

theorem transfer_integrity_witness:
  "\<exists>t. xstep\<^sup>*\<^sup>* demo_start t \<and> FileTransferDidFinish None \<in> set (evB t) \<and> fs (endB t) ''b.txt'' = Some [1, 2, 3]"
proof -
  from started_completes [OF demo_started] obtain t
    where t: "xstep\<^sup>*\<^sup>* demo_start t" "FileTransferDidFinish None \<in> set (evB t)" by blast
  with transfer_integrity [OF demo_started(1) t(1)] show ?thesis by auto
qed

end
