(* ===== verification/Transfer_Faults.thy ===== *)
theory Transfer_Faults
  imports Transfer_Progress
begin

text \<open>
  What the transfer operations do on every branch, errors included, and the histories in which a
  delegate is told something that is not the case.
\<close>

lemmas transfer_defs =
  cleanupTransferWithError_def dispatch_main_def sendControlJSON_def sendData_def

section \<open>Accepting and receiving\<close>

text \<open>
  C25. Accepting an offer. When the destination opens, the client holds it at offset 0, truncated if
  the system created it, and sends its acceptance; it keeps a file it may itself be sending, so one
  cleanup then closes both. When the destination does not open, the offer is rejected and the
  delegate is told of two failures for the one offer, code 12 and then the system's error (code 11
  without one), after which no transfer is left.
\<close>

theorem accept_outcome:
  assumes "incomingFileName c \<noteq> None" "recvTotalBytes c \<noteq> 0" "recvHandle c = None" "mainQ c = []" "channel_takes c"
  shows "(\<exists>c1. acceptIncomingFileToURL dest created None c = c1 \<and> recvHandle c1 = Some (dest, 0) \<and>
      recvBytesReceived c1 = 0 \<and> sendHandle c1 = sendHandle c \<and> dcOut c1 = dcOut c @ [msg_accept] \<and>
      fs c1 dest = (if created then Some [] else fs c dest)) \<and>
    (\<exists>c2 c3. run_main (acceptIncomingFileToURL dest created (Some e) c) =
        (c2, [FileTransferDidFinish (Some (NSError 12 ''Unable to open destination''))]) \<and>
      run_main c2 = (c3, [FileTransferDidFinish
        (Some (case e of Some x \<Rightarrow> x | None \<Rightarrow> NSError 11 ''Unable to open destination''))]) \<and>
      dcOut c3 = dcOut c @ [Text (Some (ft_reject ''Unable to open destination''))] \<and>
      sendHandle c3 = None \<and> recvHandle c3 = None \<and> incomingFileName c3 = None \<and> mainQ c3 = [])"
proof -
  from assms(1) obtain nm where "incomingFileName c = Some nm" by blast
  with assms show ?thesis
    by (simp add: acceptIncomingFileToURL_def rejectIncomingFileWithReason_def transfer_defs channel_takes_def
        run_main_def reset_transfer_def Let_def ft_simple_def split: option.split)
qed

theorem accept_outcome_witness:
  "\<exists>c2 c3. run_main (acceptIncomingFileToURL ''b'' True (Some None)
        ((demo_client None)\<lparr>incomingFileName := Some ''b'', recvTotalBytes := 5\<rparr>)) =
      (c2, [FileTransferDidFinish (Some (NSError 12 ''Unable to open destination''))]) \<and>
    run_main c2 = (c3, [FileTransferDidFinish (Some (NSError 11 ''Unable to open destination''))])"
proof -
  let ?c = "(demo_client None)\<lparr>incomingFileName := Some ''b'', recvTotalBytes := 5\<rparr>"
  have "incomingFileName ?c \<noteq> None" "recvTotalBytes ?c \<noteq> 0" "recvHandle ?c = None" "mainQ ?c = []" "channel_takes ?c"
    by (simp_all add: demo_client_def client_init_def channel_takes_def)
  from accept_outcome [OF this, of "''b''" True None] show ?thesis by auto
qed

text \<open>
  A message on the data channel ends the process exactly when it is an offer, the client holds
  no file, and the offered size is present but neither a number nor a boolean: the size is read
  without a check of its class. Every other text and every binary message is handled.
\<close>

theorem data_message_crash:
  "(\<exists>e. didReceiveMessageWithBuffer w m c = Inl e) \<longleftrightarrow>
    (\<exists>kvs v. m = Text (Some (JObj kvs)) \<and> map_of kvs ''t'' = Some (JStr ''ft_offer'') \<and>
       sendHandle c = None \<and> recvHandle c = None \<and> map_of kvs ''size'' = Some v \<and>
       (case v of JNum _ \<Rightarrow> False | JBool _ \<Rightarrow> False | _ \<Rightarrow> True))"
proof (cases m)
  case (Text raw)
  have u: "(\<exists>e. ull_value v = Inl e) = (\<exists>x. v = Some x \<and> (case x of JNum _ \<Rightarrow> False | JBool _ \<Rightarrow> False | _ \<Rightarrow> True))" for v
    by (auto simp: ull_value_def split: option.splits json.splits)
  show ?thesis
  proof (cases "\<exists>kvs. raw = Some (JObj kvs)")
    case True
    then obtain kvs where "raw = Some (JObj kvs)" by blast
    with Text show ?thesis
      by (cases "sendHandle c"; cases "recvHandle c")
        (simp_all add: didReceiveMessageWithBuffer_def on_text_def container_def Let_def on_ft_offer_def
          bindE_Inl_iff u)
  next
    case False
    with Text show ?thesis
      by (auto simp: didReceiveMessageWithBuffer_def on_text_def container_def split: option.splits json.splits)
  qed
qed (simp add: didReceiveMessageWithBuffer_def)

section \<open>Histories in which success is reported wrongly\<close>

text \<open>
  C28. A peer that rejects or cancels while the file is being sent makes the sender report both
  failure and success. With the loop at its head: the message queues a failure with code 13, whose
  cleanup zeroes the total and the sent count; the loop then finds \<open>0 \<ge> 0\<close>, hands over the end
  marker and reports success, six of its steps later.
\<close>

theorem remote_cancel_reports_success:
  assumes "loop_at c = LHead" "\<not> transferCancelled c" "mainQ c = []" "channel_takes c"
    and "t = ''ft_cancel'' \<or> t = ''ft_reject''" and "length res = 6"
  shows "\<exists>c1 c2 c3 c4.
    didReceiveMessageWithBuffer w (Text (Some (ft_simple t))) c = Inr c1 \<and>
    run_main c1 = (c2, [FileTransferDidFinish (Some (NSError 13 ''Cancelled/Rejected''))]) \<and>
    c3 = fold loop_step res c2 \<and> dcOut c3 = dcOut c @ [msg_done] \<and>
    run_main c3 = (c4, [FileTransferDidFinish None])"
proof -
  let ?c2 = "reset_transfer c"
  have 1: "didReceiveMessageWithBuffer w (Text (Some (ft_simple t))) c =
      Inr (c\<lparr>mainQ := [TCleanup (Some (NSError 13 ''Cancelled/Rejected''))]\<rparr>)"
    using assms(5)
    by (elim disjE) (simp_all add: assms(3) didReceiveMessageWithBuffer_def on_text_def container_def Let_def
        ft_simple_def transfer_defs)
  have 2: "run_main (c\<lparr>mainQ := [TCleanup e]\<rparr>) = (?c2, [FileTransferDidFinish e])" for e
    using assms(3) by (simp add: run_main_def reset_transfer_def)
  let ?c3 = "?c2\<lparr>loop_at := LIdle, dcOut := dcOut c @ [msg_done], mainQ := [TCleanup None]\<rparr>"
  have leave: "loop_step re ?c2 = ?c2\<lparr>loop_at := LHeadSent\<rparr>"
    "loop_step re (?c2\<lparr>loop_at := LHeadSent\<rparr>) = ?c2\<lparr>loop_at := LHeadTotal 0\<rparr>"
    "loop_step re (?c2\<lparr>loop_at := LHeadTotal 0\<rparr>) = ?c2\<lparr>loop_at := LExit\<rparr>"
    "loop_step re (?c2\<lparr>loop_at := LExit\<rparr>) = ?c2\<lparr>loop_at := LExitSent\<rparr>"
    "loop_step re (?c2\<lparr>loop_at := LExitSent\<rparr>) = ?c2\<lparr>loop_at := LExitTotal 0\<rparr>"
    "loop_step re (?c2\<lparr>loop_at := LExitTotal 0\<rparr>) = ?c3" for re
    using assms(1-4) by (simp_all add: loop_step_def reset_transfer_def Let_def transfer_defs channel_takes_def)
  have "\<exists>r1 r2 r3 r4 r5 r6. res = [r1, r2, r3, r4, r5, r6]"
    using assms(6) by (auto simp: numeral_eq_Suc length_Suc_conv)
  then obtain r1 r2 r3 r4 r5 r6 where "res = [r1, r2, r3, r4, r5, r6]" by blast
  then have 4: "?c3 = fold loop_step res ?c2" by (simp only: fold_simps leave id_apply)
  have 5: "run_main ?c3 = (reset_transfer (?c3\<lparr>mainQ := []\<rparr>), [FileTransferDidFinish None])"
    by (simp add: run_main_def)
  have 6: "dcOut ?c3 = dcOut c @ [msg_done]" by simp
  show ?thesis by (intro exI conjI, rule 1, rule 2, rule 4, rule 6, rule 5)
qed

theorem remote_cancel_reports_success_witness:
  "\<exists>c c1 c2 c3 c4. loop_at c = LHead \<and> sendBytesSent c = 1 \<and> sendTotalBytes c = 3 \<and>
    didReceiveMessageWithBuffer None (Text (Some (ft_simple ''ft_cancel''))) c = Inr c1 \<and>
    run_main c1 = (c2, [FileTransferDidFinish (Some (NSError 13 ''Cancelled/Rejected''))]) \<and>
    c3 = (loop_step False ^^ 6) c2 \<and> dcOut c3 = [msg_done] \<and>
    run_main c3 = (c4, [FileTransferDidFinish None])"
proof -
  let ?c = "(demo_client (Some [1, 2, 3]))\<lparr>loop_at := LHead, sendHandle := Some (''f'', 1),
      sendTotalBytes := 3, sendBytesSent := 1\<rparr>"
  have "loop_at ?c = LHead" "\<not> transferCancelled ?c" "mainQ ?c = []" "channel_takes ?c" "dcOut ?c = []"
    by (simp_all add: demo_client_def client_init_def channel_takes_def)
  from remote_cancel_reports_success [OF this(1-4), of "''ft_cancel''" "replicate 6 False" None] this(1,5)
  show ?thesis by - (rule exI [of _ ?c], simp add: numeral_eq_Suc)
qed

text \<open>
  C24. The sent count is read and written in two steps, without a lock. If a cleanup and a new \<^verbatim>\<open>sendFileAtURL\<close> run
  between them, the write puts the old transfer's count into the new one; when the new file is not longer than that
  count, the loop leaves at once, hands over the end marker for the new file and reports its success, although the
  receiver has not accepted it and not one byte of it has been sent.
\<close>

theorem lost_update_reports_success:
  assumes "loop_at c = LStore bs v" "mainQ c = [TCleanup e]" "channel_takes c"
    and "fs c url = Some C" "0 < length C" "length C \<le> unat (v + of_nat (length bs))" and "length res = 10"
  shows "\<exists>c1 c2 c3 offer.
    run_main c = (c1, [FileTransferDidFinish e]) \<and> sendFileAtURL url nm None c1 = (SendYes, c2) \<and>
    c3 = fold loop_step res c2 \<and> loop_at c3 = LIdle \<and>
    dcOut c3 = dcOut c @ [Text (Some offer), msg_done] \<and> TCleanup None \<in> set (mainQ c3) \<and>
    sendHandle c3 = Some (url, 0)"
proof -
  let ?n = "v + of_nat (length bs)" and ?T = "of_nat (length C) :: u64"
  let ?offer = "ft_offer (case nm of None \<Rightarrow> ''file'' | Some n \<Rightarrow> n) ?T (chunkSize c)"
  let ?c1 = "reset_transfer (c\<lparr>mainQ := []\<rparr>)"
  let ?b = "?c1\<lparr>transferCancelled := False, sendHandle := Some (url, 0), sendTotalBytes := ?T,
      dcOut := dcOut c @ [Text (Some ?offer)]\<rparr>"
  let ?c2 = "?b\<lparr>sendBytesSent := 0\<rparr>" and ?d = "?b\<lparr>sendBytesSent := ?n\<rparr>"
  have lt: "length C < 2 ^ 64"
  proof -
    have "unat ?n < 2 ^ LENGTH(64)" by (rule unsigned_less)
    with assms(6) show ?thesis by simp
  qed
  have nz: "?T \<noteq> 0" using of_nat_u64_eq_0_iff [OF lt] assms(5) by simp
  then have pos: "0 < ?T" by (simp add: word_neq_0_conv)
  have le: "?T \<le> ?n" using assms(6) lt by (simp add: word_le_nat_alt unat_of_nat)
  have open1: "readyState_of c = kOpen" "channel_takes (x\<lparr>loop_at := l\<rparr>) = channel_takes x" for x l
    using assms(3) by (auto simp: readyState_of_def channel_takes_def split: option.splits)
  have 1: "run_main c = (?c1, [FileTransferDidFinish e])" using assms(2) by (simp add: run_main_def)
  have 2: "sendFileAtURL url nm None ?c1 = (SendYes, ?c2)"
    using assms(3,4) open1(1) nz
    by (simp add: sendFileAtURL_def isDataChannelOpen_def readyState_of_def reset_transfer_def file_size_def Let_def
        transfer_defs channel_takes_def)
  let ?q = "?d\<lparr>mainQ := [TSendProgress (Progress ?n ?T)]\<rparr>"
  let ?c3 = "?q\<lparr>loop_at := LIdle, dcOut := dcOut c @ [Text (Some ?offer), msg_done],
      mainQ := [TSendProgress (Progress ?n ?T), TCleanup None]\<rparr>"
  have count: "loop_step re ?c2 = ?d\<lparr>loop_at := LProgress\<rparr>"
    "loop_step re (?d\<lparr>loop_at := LProgress\<rparr>) = ?d\<lparr>loop_at := LProgressSent\<rparr>"
    "loop_step re (?d\<lparr>loop_at := LProgressSent\<rparr>) = ?d\<lparr>loop_at := LProgressTotal ?n\<rparr>"
    "loop_step re (?d\<lparr>loop_at := LProgressTotal ?n\<rparr>) = ?q\<lparr>loop_at := LHead\<rparr>" for re
    using assms(1,2) pos by (simp_all add: loop_step_def reset_transfer_def dispatch_main_def)
  have leave: "loop_step re (?q\<lparr>loop_at := LHead\<rparr>) = ?q\<lparr>loop_at := LHeadSent\<rparr>"
    "loop_step re (?q\<lparr>loop_at := LHeadSent\<rparr>) = ?q\<lparr>loop_at := LHeadTotal ?n\<rparr>"
    "loop_step re (?q\<lparr>loop_at := LHeadTotal ?n\<rparr>) = ?q\<lparr>loop_at := LExit\<rparr>"
    "loop_step re (?q\<lparr>loop_at := LExit\<rparr>) = ?q\<lparr>loop_at := LExitSent\<rparr>"
    "loop_step re (?q\<lparr>loop_at := LExitSent\<rparr>) = ?q\<lparr>loop_at := LExitTotal ?n\<rparr>" for re
    using le by (simp_all add: loop_step_def linorder_not_less)
  have fin: "loop_step re (?q\<lparr>loop_at := LExitTotal ?n\<rparr>) = ?c3" for re
    using le assms(3) by (simp add: loop_step_def Let_def transfer_defs channel_takes_def reset_transfer_def)
  have "\<exists>r1 r2 r3 r4 r5 r6 r7 r8 r9 r10. res = [r1, r2, r3, r4, r5, r6, r7, r8, r9, r10]"
    using assms(7) by (auto simp: numeral_eq_Suc length_Suc_conv)
  then obtain r1 r2 r3 r4 r5 r6 r7 r8 r9 r10 where "res = [r1, r2, r3, r4, r5, r6, r7, r8, r9, r10]" by blast
  then have 3: "?c3 = fold loop_step res ?c2" by (simp only: fold_simps count leave fin)
  show ?thesis
    by (intro exI [of _ ?c1] exI [of _ ?c2] exI [of _ ?c3] exI [of _ ?offer] conjI, rule 1, rule 2, rule 3)
      (simp_all add: reset_transfer_def)
qed

theorem lost_update_reports_success_witness:
  "\<exists>c c1 c2 c3 offer. loop_at c = LStore [1, 2] 3 \<and>
    run_main c = (c1, [FileTransferDidFinish None]) \<and> sendFileAtURL ''g'' None None c1 = (SendYes, c2) \<and>
    c3 = (loop_step False ^^ 10) c2 \<and> dcOut c3 = [Text (Some offer), msg_done] \<and> TCleanup None \<in> set (mainQ c3)"
proof -
  let ?c = "(demo_client (Some [7, 8, 9]))\<lparr>loop_at := LStore [1, 2] 3, mainQ := [TCleanup None]\<rparr>"
  have "loop_at ?c = LStore [1, 2] 3" "mainQ ?c = [TCleanup None]" "channel_takes ?c" "fs ?c ''g'' = Some [7, 8, 9]"
    "0 < length [7, 8, 9 :: byte]" "length [7, 8, 9 :: byte] \<le> unat (3 + of_nat (length [1, 2 :: byte]) :: u64)"
    "length (replicate 10 False) = 10" "dcOut ?c = []"
    by (simp_all add: demo_client_def client_init_def channel_takes_def)
  from lost_update_reports_success [OF this(1-7), of None] this(8) obtain c1 c2 offer
    where r: "run_main ?c = (c1, [FileTransferDidFinish None])" "sendFileAtURL ''g'' None None c1 = (SendYes, c2)"
      "dcOut (fold loop_step (replicate 10 False) c2) = [Text (Some offer), msg_done]"
      "TCleanup None \<in> set (mainQ (fold loop_step (replicate 10 False) c2))" by auto
  have "fold loop_step (replicate 10 False) c2 = (loop_step False ^^ 10) c2" by (simp add: numeral_eq_Suc)
  with r show ?thesis by (intro exI [of _ ?c] exI conjI) auto
qed

text \<open>
  A failed write is reported to the local delegate (code 20) but not to the sender: no message
  goes out, and the sender's end marker, which arrives once it has sent the rest, makes the receiver
  report success for a file it does not have.
\<close>

theorem write_failure_then_success:
  assumes "recvHandle c = Some (p, off)" "recvTotalBytes c \<noteq> 0" "mainQ c = []"
  shows "\<exists>c1 c2 c3 c4.
    didReceiveMessageWithBuffer (Some why) (Binary bs) c = Inr c1 \<and>
    dcOut c1 = dcOut c \<and> fs c1 = fs c \<and>
    run_main c1 = (c2, [FileTransferDidFinish (Some (NSError 20 why))]) \<and>
    (\<forall>more. didReceiveMessageWithBuffer None (Binary more) c2 = Inr c2) \<and>
    didReceiveMessageWithBuffer None msg_done c2 = Inr c3 \<and>
    run_main c3 = (c4, [FileTransferDidFinish None]) \<and> fs c4 = fs c"
  using assms
  by (simp add: didReceiveMessageWithBuffer_def on_binary_def on_text_def container_def ft_simple_def Let_def
      transfer_defs run_main_def reset_transfer_def)

theorem write_failure_then_success_witness:
  "\<exists>c c1 c2 c3 c4. fs c ''b'' = Some [] \<and>
    didReceiveMessageWithBuffer (Some ''full'') (Binary [7]) c = Inr c1 \<and>
    run_main c1 = (c2, [FileTransferDidFinish (Some (NSError 20 ''full''))]) \<and>
    didReceiveMessageWithBuffer None msg_done c2 = Inr c3 \<and>
    run_main c3 = (c4, [FileTransferDidFinish None]) \<and> fs c4 ''b'' = Some []"
proof -
  let ?c = "(demo_client (Some []))\<lparr>recvHandle := Some (''b'', 0), recvTotalBytes := 1\<rparr>"
  have "recvHandle ?c = Some (''b'', 0)" "recvTotalBytes ?c \<noteq> 0" "mainQ ?c = []" "fs ?c ''b'' = Some []"
    by (simp_all add: demo_client_def client_init_def)
  from write_failure_then_success [OF this(1-3), of "''full''" "[7]"] this(4)
  show ?thesis by - (rule exI [of _ ?c], auto)
qed

text \<open>
  An end marker is not tied to a transfer. The receiver of a completed file sends one too; if the
  sender has already cleaned up and offered the next file when it arrives, that new transfer is closed
  and reported as a success before a single byte of it is sent, and its acceptance then starts nothing.
\<close>

theorem stale_done_ends_next_transfer:
  assumes "no_transfer c" "isDataChannelOpen c" "fs c url = Some C" "0 < length C" "length C < 2 ^ 64"
  shows "\<exists>c1 c2 c3.
    sendFileAtURL url nm None c = (SendYes, c1) \<and> sendHandle c1 = Some (url, 0) \<and>
    didReceiveMessageWithBuffer None msg_done c1 = Inr c2 \<and>
    run_main c2 = (c3, [FileTransferDidFinish None]) \<and>
    payload (dcOut c3) = [] \<and>
    (\<forall>w. didReceiveMessageWithBuffer w msg_accept c3 = Inr c3)"
  using assms
  by (simp add: no_transfer_def sendFileAtURL_def file_size_def of_nat_u64_eq_0_iff Let_def transfer_defs
      didReceiveMessageWithBuffer_def on_text_def container_def ft_simple_def run_main_def reset_transfer_def)

theorem stale_done_ends_next_transfer_witness:
  "\<exists>c1 c2 c3.
    sendFileAtURL ''f'' None None (demo_client (Some [1])) = (SendYes, c1) \<and>
    didReceiveMessageWithBuffer None msg_done c1 = Inr c2 \<and>
    run_main c2 = (c3, [FileTransferDidFinish None]) \<and> payload (dcOut c3) = []"
proof -
  have "no_transfer (demo_client (Some [1]))" "isDataChannelOpen (demo_client (Some [1]))"
    "fs (demo_client (Some [1])) ''f'' = Some [1]" "0 < length [1::byte]" "length [1::byte] < 2 ^ 64"
    by (simp_all add: demo_client_def client_init_def no_transfer_def isDataChannelOpen_def readyState_of_def)
  from stale_done_ends_next_transfer [OF this, of None] show ?thesis by blast
qed

end
