(* ===== verification/Transfer_Views.thy ===== *)
theory Transfer_Views
  imports Rtc_Transfer
begin

text \<open>
  The two panes of the application window, \<^verbatim>\<open>HXSendViewController.m\<close> and
  \<^verbatim>\<open>HXReceiveViewController.m\<close>, as the state of their controls and the methods that change it. Fixed texts of
  labels are constructors named by their meaning; positions, fonts and colours are left out. Three
  controls of the send pane are declared and never created (\<^verbatim>\<open>deviceStateLabel\<close>,
  \<^verbatim>\<open>troubleshootTitle\<close>, \<^verbatim>\<open>troubleshootHint\<close>, as is \<^verbatim>\<open>dropZone\<close>): messages to them go to nil, so they have no
  field here.

  The table view belongs to the platform. What it does with the selected row when its data is
  reloaded is the parameter \<open>keeps row count\<close>; a row it drops becomes the selection change it
  reports to its delegate.
\<close>

section \<open>Texts\<close>

text \<open>
  A formatted size: the plain number of bytes, or the number divided by a power of 1024. The code divides
  in \<^verbatim>\<open>double\<close>, which is exact here: the comparisons that decide the unit involve numbers below
  \<open>2 ^ 50\<close>, and the division is by a power of two.
\<close>

datatype size_text = Whole u64 | Scaled u64 nat

function unit_index :: "nat \<Rightarrow> nat \<Rightarrow> nat" where
  "unit_index bytes idx = (if 1024 * 1024 ^ idx \<le> bytes \<and> idx + 1 < 5 then unit_index bytes (idx + 1) else idx)"
  by pat_completeness auto
termination by (relation "measure (\<lambda>(b, i). 5 - i)") auto

declare unit_index.simps [simp del]

definition formatBytes :: "u64 \<Rightarrow> size_text" where
  "formatBytes bytes = (let idx = unit_index (unat bytes) 0 in if idx = 0 then Whole bytes else Scaled bytes idx)"

datatype status =
    NoText | FileChosen | FolderChosen | ConnectingPeer | RefreshingPeers | PeersRefreshed
  | WaitingConfirmation | TransferDone | TransferCancelled | TransferFailed
  | SendingText size_text size_text progress

datatype receive_status = WaitingForSender | OfferedText size_text | ReceivingText size_text size_text progress

section \<open>The send pane\<close>

record url =
  url_path :: string
  hasDirectoryPath :: bool
  lastPathComponent :: string

record send_view =
  selectedFileURL :: "url option"
  onlinePeers :: "(string \<times> string) list"
  peerConnectedFlag :: bool
  isSending :: bool
  selectedPeerRow :: int
  suppressPeerSelectActions :: bool
  tableSelectedRow :: int
  selectedFileLabel :: "string option"
  selectedFileLabel_hidden :: bool
  sendStatusLabel :: status
  sendStatusLabel_hidden :: bool
  sendProgress :: progress
  sendProgress_hidden :: bool
  sendButton_enabled :: bool
  cancelButton_enabled :: bool
  selectedSummaryCard_hidden :: bool
  chooseCards_hidden :: bool
  selectedSizeLabel :: "size_text option"

definition hasFile :: "send_view \<Rightarrow> bool" where
  "hasFile v \<longleftrightarrow> (case selectedFileURL v of None \<Rightarrow> False | Some u \<Rightarrow> \<not> hasDirectoryPath u)"

definition send_buildUI :: send_view where
  "send_buildUI =
     \<lparr>selectedFileURL = None, onlinePeers = [], peerConnectedFlag = False, isSending = False,
      selectedPeerRow = 0, suppressPeerSelectActions = False, tableSelectedRow = - 1,
      selectedFileLabel = None, selectedFileLabel_hidden = False, sendStatusLabel = NoText,
      sendStatusLabel_hidden = True, sendProgress = Progress 0 1, sendProgress_hidden = True,
      sendButton_enabled = True, cancelButton_enabled = False, selectedSummaryCard_hidden = True,
      chooseCards_hidden = False, selectedSizeLabel = None\<rparr>"

text \<open>\<open>sz\<close> is the size the file system reports for a path.\<close>

definition updateSelectedSummaryMode :: "(string \<Rightarrow> u64) \<Rightarrow> send_view \<Rightarrow> send_view" where
  "updateSelectedSummaryMode sz v =
     (let h = hasFile v;
          v1 = v\<lparr>selectedSummaryCard_hidden := \<not> h, chooseCards_hidden := h, selectedFileLabel_hidden := h,
                 sendStatusLabel_hidden := \<not> isSending v, sendProgress_hidden := \<not> isSending v\<rparr>
      in if \<not> h then v1
         else v1\<lparr>selectedSizeLabel := map_option (\<lambda>u. formatBytes (sz (url_path u))) (selectedFileURL v)\<rparr>)"

definition refreshEnabledState :: "send_view \<Rightarrow> send_view" where
  "refreshEnabledState v =
     v\<lparr>sendButton_enabled := (hasFile v \<and> \<not> isSending v), cancelButton_enabled := isSending v\<rparr>"

definition setPeerConnected :: "bool \<Rightarrow> send_view \<Rightarrow> send_view" where
  "setPeerConnected connected v = refreshEnabledState (v\<lparr>peerConnectedFlag := connected\<rparr>)"

definition setSendStatusText :: "status \<Rightarrow> send_view \<Rightarrow> send_view" where
  "setSendStatusText text v =
     v\<lparr>sendStatusLabel := text,
       sendStatusLabel_hidden := (\<not> isSending v \<and> hasFile v \<or> text = NoText)\<rparr>"

definition setSelectedFileName :: "(string \<Rightarrow> u64) \<Rightarrow> string option \<Rightarrow> send_view \<Rightarrow> send_view" where
  "setSelectedFileName sz name v =
     (let v1 = v\<lparr>selectedFileLabel := name\<rparr>;
          v2 = (if name = None \<or> name = Some ''''
                then v1\<lparr>sendStatusLabel_hidden := True, sendProgress_hidden := True\<rparr> else v1)
      in refreshEnabledState (updateSelectedSummaryMode sz v2))"

definition onClearSelectedFileTap :: "(string \<Rightarrow> u64) \<Rightarrow> send_view \<Rightarrow> send_view" where
  "onClearSelectedFileTap sz v =
     setSendStatusText NoText (setSelectedFileName sz None (v\<lparr>selectedFileURL := None\<rparr>))"

definition setSendProgress :: "progress \<Rightarrow> u64 \<Rightarrow> u64 \<Rightarrow> send_view \<Rightarrow> send_view" where
  "setSendProgress p bytesSent totalBytes v =
     v\<lparr>sendProgress_hidden := False, sendProgress := p,
       sendStatusLabel := SendingText (formatBytes bytesSent) (formatBytes totalBytes) p,
       sendStatusLabel_hidden := False\<rparr>"

definition setSendingInProgress :: "bool \<Rightarrow> send_view \<Rightarrow> send_view" where
  "setSendingInProgress sending v =
     (let v1 = refreshEnabledState (v\<lparr>isSending := sending\<rparr>)
      in if \<not> sending
         then v1\<lparr>sendProgress := Progress 0 1, sendProgress_hidden := True, sendStatusLabel_hidden := True\<rparr>
         else v1\<lparr>sendProgress_hidden := False, sendStatusLabel_hidden := False\<rparr>)"

section \<open>The table of online devices\<close>

definition currentSelectedPeerIP :: "send_view \<Rightarrow> string option" where
  "currentSelectedPeerIP v =
     (let row = selectedPeerRow v in
      if row < 0 \<or> row \<ge> int (length (onlinePeers v)) then None
      else let ip = fst (onlinePeers v ! nat row) in if ip = '''' then None else Some ip)"

definition reloadData :: "(int \<Rightarrow> nat \<Rightarrow> bool) \<Rightarrow> send_view \<Rightarrow> send_view" where
  "reloadData keeps v =
     (if tableSelectedRow v = - 1 \<or> keeps (tableSelectedRow v) (length (onlinePeers v)) then v
      else v\<lparr>tableSelectedRow := - 1, selectedPeerRow := - 1\<rparr>)"

text \<open>
  The delegate method up to the call of \<^verbatim>\<open>onSelectPeerIP\<close>; the second component is the argument of that call if
  it is made, after which the table is reloaded.
\<close>

definition tableViewSelectionDidChange :: "(int \<Rightarrow> nat \<Rightarrow> bool) \<Rightarrow> send_view \<Rightarrow> send_view \<times> string option" where
  "tableViewSelectionDidChange keeps v =
     (let row = tableSelectedRow v; v1 = v\<lparr>selectedPeerRow := row\<rparr>
      in if suppressPeerSelectActions v then (reloadData keeps v1, None)
         else if 0 \<le> row \<and> row < int (length (onlinePeers v)) then (v1, Some (fst (onlinePeers v ! nat row)))
         else (reloadData keeps v1, None))"

text \<open>\<^verbatim>\<open>selectRowIndexes:byExtendingSelection:NO\<close> and \<^verbatim>\<open>deselectAll:\<close> (row \<open>- 1\<close>) while actions are suppressed.\<close>

definition select_quietly :: "(int \<Rightarrow> nat \<Rightarrow> bool) \<Rightarrow> int \<Rightarrow> send_view \<Rightarrow> send_view" where
  "select_quietly keeps row v =
     (if tableSelectedRow v = row then v
      else fst (tableViewSelectionDidChange keeps (v\<lparr>tableSelectedRow := row\<rparr>)))"

fun row_of :: "string \<Rightarrow> (string \<times> string) list \<Rightarrow> int \<Rightarrow> int" where
  "row_of ip [] i = - 1"
| "row_of ip (p # ps) i = (if fst p = ip then i else row_of ip ps (i + 1))"

definition applyOnlinePeers :: "(int \<Rightarrow> nat \<Rightarrow> bool) \<Rightarrow> json list \<Rightarrow> send_view \<Rightarrow> send_view" where
  "applyOnlinePeers keeps peers v =
     (let prevIP = currentSelectedPeerIP v;
          v1 = v\<lparr>onlinePeers := concat (map normalize_peer peers)\<rparr>;
          newRow = (case prevIP of None \<Rightarrow> - 1 | Some ip \<Rightarrow> row_of ip (onlinePeers v1) 0);
          v2 = reloadData keeps (v1\<lparr>suppressPeerSelectActions := True\<rparr>);
          v3 = select_quietly keeps newRow (v2\<lparr>selectedPeerRow := newRow\<rparr>)
      in (reloadData keeps v3)\<lparr>suppressPeerSelectActions := False\<rparr>)"

definition send_viewDidLoad :: "(int \<Rightarrow> nat \<Rightarrow> bool) \<Rightarrow> (string \<Rightarrow> u64) \<Rightarrow> send_view" where
  "send_viewDidLoad keeps sz =
     refreshEnabledState (updateSelectedSummaryMode sz
       ((applyOnlinePeers keeps [] (send_buildUI\<lparr>onlinePeers := []\<rparr>))\<lparr>selectedPeerRow := - 1\<rparr>))"

section \<open>The receive pane\<close>

text \<open>Times are milliseconds of the system clock. \<open>hostWindow\<close>: the pane's view is in a window.\<close>

record receive_view =
  hostWindow :: bool
  selfIPLabel :: string
  peerInfoLabel :: "string option"
  incomingNameLabel :: "string option"
  receiveStatusLabel :: receive_status
  receiveProgress :: progress
  saveAsButton_enabled :: bool
  rejectButton_enabled :: bool
  receivingOverlay_hidden :: bool
  panel_attached :: bool
  overlayFileLabel :: "(string \<times> size_text) option"
  overlayFileProgress :: progress
  overlayTotalProgress :: progress
  overlayTotalTitle :: "int \<times> int"
  currentIncomingName :: string
  currentIncomingSize :: u64
  receiveStartTime :: "int option"

fun hasPrefix :: "string \<Rightarrow> string \<Rightarrow> bool" where
  "hasPrefix s [] = True"
| "hasPrefix [] (p # ps) = False"
| "hasPrefix (c # s) (p # ps) = (c = p \<and> hasPrefix s ps)"

definition lan_address :: "string \<Rightarrow> bool" where
  "lan_address addr \<longleftrightarrow>
     hasPrefix addr ''10.'' \<or> hasPrefix addr ''192.168.'' \<or> (hasPrefix addr ''172.'' \<and> \<not> hasPrefix addr ''172.0.'')"

fun self_address :: "string list \<Rightarrow> string" where
  "self_address [] = ''127.0.0.1''"
| "self_address (addr # addrs) = (if lan_address addr then addr else self_address addrs)"

definition receive_buildUI :: "string list \<Rightarrow> receive_view" where
  "receive_buildUI addresses =
     \<lparr>hostWindow = False, selfIPLabel = self_address addresses, peerInfoLabel = None, incomingNameLabel = None,
      receiveStatusLabel = WaitingForSender, receiveProgress = Progress 0 1,
      saveAsButton_enabled = False, rejectButton_enabled = False, receivingOverlay_hidden = True,
      panel_attached = False, overlayFileLabel = None, overlayFileProgress = Progress 0 1,
      overlayTotalProgress = Progress 0 1, overlayTotalTitle = (0, 0),
      currentIncomingName = '''', currentIncomingSize = 0, receiveStartTime = None\<rparr>"

definition showReceivingPanel :: "receive_view \<Rightarrow> receive_view" where
  "showReceivingPanel v =
     (if \<not> hostWindow v then v else v\<lparr>receivingOverlay_hidden := False, panel_attached := True\<rparr>)"

definition hideReceivingPanel :: "receive_view \<Rightarrow> receive_view" where
  "hideReceivingPanel v =
     (let v1 = v\<lparr>receivingOverlay_hidden := True\<rparr>
      in if hostWindow v then v1\<lparr>panel_attached := False\<rparr> else v1)"

definition presentIncomingOffer :: "string option \<Rightarrow> u64 \<Rightarrow> receive_view \<Rightarrow> receive_view" where
  "presentIncomingOffer name sz v =
     (let n = (case name of Some s \<Rightarrow> s | None \<Rightarrow> ''file'')
      in hideReceivingPanel
           (v\<lparr>currentIncomingName := n, currentIncomingSize := sz, incomingNameLabel := Some n,
              receiveStatusLabel := OfferedText (formatBytes sz),
              saveAsButton_enabled := True, rejectButton_enabled := True\<rparr>))"

definition beginReceiving :: "int \<Rightarrow> string option \<Rightarrow> u64 \<Rightarrow> receive_view \<Rightarrow> receive_view" where
  "beginReceiving now name sz v =
     (let n = (case name of Some s \<Rightarrow> s | None \<Rightarrow> ''file'');
          v1 = showReceivingPanel
                 (v\<lparr>currentIncomingName := n, currentIncomingSize := sz, receiveStartTime := Some now\<rparr>)
      in v1\<lparr>overlayFileLabel := Some (n, formatBytes sz), overlayFileProgress := Progress 0 1,
            overlayTotalProgress := Progress 0 1, overlayTotalTitle := (0, 0),
            saveAsButton_enabled := False, rejectButton_enabled := False\<rparr>)"

text \<open>\<^verbatim>\<open>MAX(0, (NSInteger)round(elapsed))\<close> for an elapsed time in milliseconds.\<close>

definition elapsed_seconds :: "int option \<Rightarrow> int \<Rightarrow> int" where
  "elapsed_seconds began now = (case began of None \<Rightarrow> 0 | Some t \<Rightarrow> max 0 ((now - t + 500) div 1000))"

definition setReceiveProgress :: "int \<Rightarrow> progress \<Rightarrow> u64 \<Rightarrow> u64 \<Rightarrow> receive_view \<Rightarrow> receive_view" where
  "setReceiveProgress now p bytesReceived totalBytes v =
     (let v1 = showReceivingPanel
                 (v\<lparr>receiveProgress := p,
                    receiveStatusLabel := ReceivingText (formatBytes bytesReceived) (formatBytes totalBytes) p\<rparr>);
          s = elapsed_seconds (receiveStartTime v) now;
          v2 = v1\<lparr>overlayFileProgress := p, overlayTotalProgress := p, overlayTotalTitle := (s div 60, s mod 60)\<rparr>
      in if currentIncomingName v = '''' then v2
         else v2\<lparr>overlayFileLabel := Some (currentIncomingName v, formatBytes totalBytes)\<rparr>)"

definition receive_updatePeerInfo :: "string \<Rightarrow> receive_view \<Rightarrow> receive_view" where
  "receive_updatePeerInfo info v = v\<lparr>peerInfoLabel := (if info = '''' then None else Some info)\<rparr>"

definition resetToIdle :: "receive_status \<Rightarrow> receive_view \<Rightarrow> receive_view" where
  "resetToIdle st v =
     (hideReceivingPanel
        (v\<lparr>incomingNameLabel := None, receiveStatusLabel := st, receiveProgress := Progress 0 1,
           saveAsButton_enabled := False, rejectButton_enabled := False\<rparr>))
       \<lparr>currentIncomingName := '''', currentIncomingSize := 0, receiveStartTime := None\<rparr>"

definition receive_viewDidLoad :: "string list \<Rightarrow> receive_view" where
  "receive_viewDidLoad addresses = resetToIdle WaitingForSender (receive_buildUI addresses)"

section \<open>Units of sizes\<close>

lemma unit_index_bounds:
  assumes "idx < 5" and "idx = 0 \<or> 1024 ^ idx \<le> bytes"
  shows "unit_index bytes idx < 5 \<and> (unit_index bytes idx = 0 \<or> 1024 ^ unit_index bytes idx \<le> bytes)
    \<and> (bytes < 1024 * 1024 ^ unit_index bytes idx \<or> unit_index bytes idx = 4)"
  using assms
proof (induction bytes idx rule: unit_index.induct)
  case (1 bytes idx)
  show ?case
  proof (cases "1024 * 1024 ^ idx \<le> bytes \<and> idx + 1 < 5")
    case True
    then have e: "unit_index bytes idx = unit_index bytes (idx + 1)" by (subst unit_index.simps) simp
    from True have "1024 ^ (idx + 1) \<le> bytes" by simp
    with "1.IH" [OF True] True show ?thesis unfolding e by blast
  next
    case False
    then have e: "unit_index bytes idx = idx" by (subst unit_index.simps) auto
    from False have "bytes < 1024 * 1024 ^ idx \<or> 4 \<le> idx" by linarith
    with "1.prems" show ?thesis unfolding e by (auto simp: not_le)
  qed
qed

text \<open>
  A size is shown in the largest of the units B, KB, MB, GB, TB that it reaches: below 1024 the exact number
  of bytes, otherwise at least one of the unit and, except for TB, less than 1024 of it.
\<close>

theorem format_bytes_unit:
  "case formatBytes bytes of
     Whole b \<Rightarrow> b = bytes \<and> unat bytes < 1024
   | Scaled b n \<Rightarrow> b = bytes \<and> 1 \<le> n \<and> n \<le> 4 \<and> 1024 ^ n \<le> unat bytes \<and> (n = 4 \<or> unat bytes < 1024 ^ (n + 1))"
proof -
  have "(0::nat) < 5" "(0::nat) = 0 \<or> 1024 ^ 0 \<le> unat bytes" by simp_all
  from unit_index_bounds [OF this] show ?thesis by (auto simp: formatBytes_def Let_def)
qed

section \<open>The selected device\<close>

lemma normalize_peer_nonempty: "p \<in> set (normalize_peer j) \<Longrightarrow> fst p \<noteq> '''' \<and> snd p \<noteq> ''''"
  by (cases j) (auto simp: Let_def split: if_splits)

text \<open>\<open>row_of\<close> gives the first row of a device.\<close>

lemma row_of_first:
  "row_of ip ps 0 = - 1 \<and> ip \<notin> fst ` set ps \<or>
   (\<exists>k < length ps. row_of ip ps 0 = int k \<and> fst (ps ! k) = ip \<and> ip \<notin> fst ` set (take k ps))"
proof -
  have "row_of ip ps i = - 1 \<and> ip \<notin> fst ` set ps \<or>
     (\<exists>k < length ps. row_of ip ps i = i + int k \<and> fst (ps ! k) = ip \<and> ip \<notin> fst ` set (take k ps))" for i
  proof (induction ps arbitrary: i)
    case (Cons p ps)
    show ?case
    proof (cases "fst p = ip")
      case False
      from Cons.IH [of "i + 1"] show ?thesis
      proof (elim disjE exE conjE)
        fix k assume "k < length ps" "row_of ip ps (i + 1) = i + 1 + int k" "fst (ps ! k) = ip" "ip \<notin> fst ` set (take k ps)"
        with False show ?thesis by (intro disjI2 exI [of _ "Suc k"]) auto
      qed (use False in auto)
    qed auto
  qed simp
  from this [of 0] show ?thesis by simp
qed

lemma first_row_unique:
  assumes "k < length ps" "fst (ps ! k) = ip" "ip \<notin> fst ` set (take k ps)"
    and "j < length ps" "fst (ps ! j) = ip" "ip \<notin> fst ` set (take j ps)"
  shows "j = k"
proof (rule ccontr)
  have before: "fst (ps ! m) \<in> fst ` set (take n ps)" if "m < n" "m < length ps" for m n
    using that by (metis imageI in_set_conv_nth length_take min_less_iff_conj nth_take)
  assume "j \<noteq> k"
  then show False using before [of j k] before [of k j] assms by (cases "j < k") auto
qed

lemma row_of_range: "- 1 \<le> row_of ip ps 0" "row_of ip ps 0 < int (length ps)"
  using row_of_first [of ip ps] by auto

definition new_row :: "json list \<Rightarrow> send_view \<Rightarrow> int" where
  "new_row peers v =
     (case currentSelectedPeerIP v of None \<Rightarrow> - 1 | Some ip \<Rightarrow> row_of ip (concat (map normalize_peer peers)) 0)"

lemma new_row_range: "- 1 \<le> new_row peers v" "new_row peers v < int (length (concat (map normalize_peer peers)))"
  unfolding new_row_def using row_of_range [where ps = "concat (map normalize_peer peers)"]
  by (auto split: option.split)

lemma reloadData_fields [simp]:
  "onlinePeers (reloadData keeps v) = onlinePeers v"
  "suppressPeerSelectActions (reloadData keeps v) = suppressPeerSelectActions v"
  by (simp_all add: reloadData_def)

text \<open>Selecting a row settles the table and the controller on that row, unless the table drops it on a reload.\<close>

definition settled :: "(int \<Rightarrow> nat \<Rightarrow> bool) \<Rightarrow> int \<Rightarrow> send_view \<Rightarrow> bool" where
  "settled keeps row w \<longleftrightarrow> tableSelectedRow w = selectedPeerRow w \<and>
     (selectedPeerRow w = row \<or> selectedPeerRow w = - 1 \<and> \<not> keeps row (length (onlinePeers w)))"

lemma reloadData_settled: "settled keeps row w \<Longrightarrow> settled keeps row (reloadData keeps w)"
  by (auto simp: settled_def reloadData_def)

lemma select_quietly_settled:
  "suppressPeerSelectActions w \<Longrightarrow> selectedPeerRow w = row \<Longrightarrow> settled keeps row (select_quietly keeps row w)"
  by (auto simp: select_quietly_def tableViewSelectionDidChange_def Let_def settled_def intro!: reloadData_settled)
    (auto simp: settled_def reloadData_def)

lemma select_quietly_fields [simp]:
  "onlinePeers (select_quietly keeps row w) = onlinePeers w"
  "suppressPeerSelectActions (select_quietly keeps row w) = suppressPeerSelectActions w"
  by (simp_all add: select_quietly_def tableViewSelectionDidChange_def Let_def)

lemma applyOnlinePeers_settled:
  "settled keeps (new_row peers v) (applyOnlinePeers keeps peers v)"
  "onlinePeers (applyOnlinePeers keeps peers v) = concat (map normalize_peer peers)"
  "\<not> suppressPeerSelectActions (applyOnlinePeers keeps peers v)"
proof -
  let ?u = "(reloadData keeps (v\<lparr>onlinePeers := concat (map normalize_peer peers), suppressPeerSelectActions := True\<rparr>))
           \<lparr>selectedPeerRow := new_row peers v\<rparr>"
  have e: "applyOnlinePeers keeps peers v =
      (reloadData keeps (select_quietly keeps (new_row peers v) ?u))\<lparr>suppressPeerSelectActions := False\<rparr>"
    by (simp add: applyOnlinePeers_def Let_def new_row_def split: option.split)
  have "settled keeps (new_row peers v) (reloadData keeps (select_quietly keeps (new_row peers v) ?u))"
    by (intro reloadData_settled select_quietly_settled) simp_all
  then show "settled keeps (new_row peers v) (applyOnlinePeers keeps peers v)" unfolding e by (simp add: settled_def)
  show "onlinePeers (applyOnlinePeers keeps peers v) = concat (map normalize_peer peers)"
    "\<not> suppressPeerSelectActions (applyOnlinePeers keeps peers v)" unfolding e by simp_all
qed

lemma reloadData_dropped: "tableSelectedRow (reloadData keeps w) = - 1 \<or> keeps (tableSelectedRow (reloadData keeps w)) (length (onlinePeers w))"
  by (simp add: reloadData_def)

lemma applyOnlinePeers_table_row:
  "tableSelectedRow (applyOnlinePeers keeps peers v) = - 1 \<or>
   keeps (tableSelectedRow (applyOnlinePeers keeps peers v)) (length (concat (map normalize_peer peers)))"
proof -
  have "tableSelectedRow w = - 1 \<or> keeps (tableSelectedRow w) (length (onlinePeers w))"
    if "w = (reloadData keeps u)\<lparr>suppressPeerSelectActions := False\<rparr>" for u w
    using reloadData_dropped [of keeps u] that by simp
  then have "tableSelectedRow (applyOnlinePeers keeps peers v) = - 1 \<or>
      keeps (tableSelectedRow (applyOnlinePeers keeps peers v)) (length (onlinePeers (applyOnlinePeers keeps peers v)))"
    unfolding applyOnlinePeers_def Let_def by blast
  then show ?thesis unfolding applyOnlinePeers_settled(2) .
qed

text \<open>The row of the previous device is selected exactly if the table lets it stay selected.\<close>

lemma applyOnlinePeers_row:
  "tableSelectedRow (applyOnlinePeers keeps peers v) = selectedPeerRow (applyOnlinePeers keeps peers v)"
  "selectedPeerRow (applyOnlinePeers keeps peers v) =
     (if keeps (new_row peers v) (length (concat (map normalize_peer peers))) then new_row peers v else - 1)"
proof -
  note st = applyOnlinePeers_settled(1,2) [of keeps peers v, unfolded settled_def]
  from st show eq: "tableSelectedRow (applyOnlinePeers keeps peers v) = selectedPeerRow (applyOnlinePeers keeps peers v)" by blast
  show "selectedPeerRow (applyOnlinePeers keeps peers v) =
     (if keeps (new_row peers v) (length (concat (map normalize_peer peers))) then new_row peers v else - 1)"
    using st applyOnlinePeers_table_row [of keeps peers v] eq by (auto split: if_splits)
qed

lemma applyOnlinePeers_keeps [simp]:
  "selectedFileURL (applyOnlinePeers keeps peers v) = selectedFileURL v"
  "isSending (applyOnlinePeers keeps peers v) = isSending v"
  "sendButton_enabled (applyOnlinePeers keeps peers v) = sendButton_enabled v"
  "cancelButton_enabled (applyOnlinePeers keeps peers v) = cancelButton_enabled v"
  "selectedSummaryCard_hidden (applyOnlinePeers keeps peers v) = selectedSummaryCard_hidden v"
  "chooseCards_hidden (applyOnlinePeers keeps peers v) = chooseCards_hidden v"
  "selectedFileLabel_hidden (applyOnlinePeers keeps peers v) = selectedFileLabel_hidden v"
  by (simp_all add: applyOnlinePeers_def Let_def select_quietly_def tableViewSelectionDidChange_def reloadData_def)

text \<open>
  C17. A new list of online devices keeps the chosen device chosen, wherever it now stands in the list, exactly
  if it is still listed and the table leaves its new row selected when it is reloaded once more (\<open>keeps\<close>, which is
  arbitrary here); otherwise no device is chosen, and never another one. This is so whatever was
  selected in the table before. The table and the controller agree on the row afterwards, and actions on selection are on again.
\<close>

theorem selection_survives_refresh:
  "let w = applyOnlinePeers keeps peers v; ps = concat (map normalize_peer peers) in
      currentSelectedPeerIP w =
        (case currentSelectedPeerIP v of
           None \<Rightarrow> None
         | Some ip \<Rightarrow>
             if \<exists>k < length ps. fst (ps ! k) = ip \<and> ip \<notin> fst ` set (take k ps) \<and> keeps (int k) (length ps)
             then Some ip else None)
    \<and> onlinePeers w = ps \<and> tableSelectedRow w = selectedPeerRow w \<and> \<not> suppressPeerSelectActions w"
proof -
  let ?w = "applyOnlinePeers keeps peers v" and ?ps = "concat (map normalize_peer peers)"
  note w = applyOnlinePeers_row(2) [of keeps peers v] applyOnlinePeers_settled(2) [of keeps peers v]
  have ne: "ip \<noteq> ''''" if "currentSelectedPeerIP v = Some ip" for ip
    using that by (auto simp: currentSelectedPeerIP_def Let_def split: if_splits)
  define E where "E ip \<longleftrightarrow> (\<exists>k < length ?ps. fst (?ps ! k) = ip \<and> ip \<notin> fst ` set (take k ?ps) \<and> keeps (int k) (length ?ps))"
    for ip
  have cur: "currentSelectedPeerIP ?w =
      (if selectedPeerRow ?w < 0 \<or> int (length ?ps) \<le> selectedPeerRow ?w \<or> fst (?ps ! nat (selectedPeerRow ?w)) = '''' then None
       else Some (fst (?ps ! nat (selectedPeerRow ?w))))"
    by (simp add: currentSelectedPeerIP_def [of ?w] w(2) Let_def)
  have "currentSelectedPeerIP ?w =
      (case currentSelectedPeerIP v of None \<Rightarrow> None | Some ip \<Rightarrow> if E ip then Some ip else None)"
  proof (cases "currentSelectedPeerIP v")
    case None
    then have "selectedPeerRow ?w = - 1" unfolding w(1) by (simp add: new_row_def)
    then show ?thesis by (simp add: cur None)
  next
    case (Some ip)
    consider "row_of ip ?ps 0 = - 1" "ip \<notin> fst ` set ?ps"
      | k where "k < length ?ps" "row_of ip ?ps 0 = int k" "fst (?ps ! k) = ip" "ip \<notin> fst ` set (take k ?ps)"
      using row_of_first [of ip ?ps] by blast
    then show ?thesis
    proof cases
      case 1
      then have "\<not> E ip" unfolding E_def by (metis imageI nth_mem)
      moreover have "selectedPeerRow ?w = - 1" unfolding w(1) by (simp add: new_row_def Some 1)
      ultimately show ?thesis by (simp add: cur Some)
    next
      case (2 k)
      have "j = k" if "j < length ?ps" "fst (?ps ! j) = ip" "ip \<notin> fst ` set (take j ?ps)" for j
        using first_row_unique [OF 2(1,3,4) that] by simp
      then have "E ip \<longleftrightarrow> keeps (int k) (length ?ps)" unfolding E_def using 2(1,3,4) by metis
      moreover have "selectedPeerRow ?w = (if keeps (int k) (length ?ps) then int k else - 1)"
        unfolding w(1) by (simp add: new_row_def Some 2(2))
      ultimately show ?thesis using 2(1,3) ne [OF Some] by (simp add: cur Some)
    qed
  qed
  then show ?thesis using applyOnlinePeers_row(1) applyOnlinePeers_settled(2,3) unfolding E_def Let_def by blast
qed

definition demo_peer :: "string \<Rightarrow> json" where
  "demo_peer ip = JObj [(''ip'', JStr ip), (''name'', JStr ip)]"

definition demo_send_view :: send_view where
  "demo_send_view = send_buildUI\<lparr>onlinePeers := [(''a'', ''a''), (''b'', ''b'')], selectedPeerRow := 1, tableSelectedRow := 1\<rparr>"

lemma demo_send_view_selected: "currentSelectedPeerIP demo_send_view = Some ''b''"
  by (simp add: currentSelectedPeerIP_def demo_send_view_def send_buildUI_def)

theorem selection_survives_refresh_witness:
  "currentSelectedPeerIP (applyOnlinePeers (\<lambda>r n. r < int n) (map demo_peer [''b'', ''c'']) demo_send_view) = Some ''b''
   \<and> currentSelectedPeerIP (applyOnlinePeers (\<lambda>r n. False) (map demo_peer [''b'', ''c'']) demo_send_view) = None"
proof -
  have n: "concat (map normalize_peer (map demo_peer [''b'', ''c''])) = [(''b'', ''b''), (''c'', ''c'')]"
    by (simp add: demo_peer_def Let_def)
  let ?ps = "[(''b'', ''b''), (''c'', ''c'')]"
  have first: "\<exists>k < length ?ps. fst (?ps ! k) = ''b'' \<and> ''b'' \<notin> fst ` set (take k ?ps) \<and> int k < int (length ?ps)"
    by (rule exI [of _ 0]) simp
  have "currentSelectedPeerIP (applyOnlinePeers (\<lambda>r n. r < int n) (map demo_peer [''b'', ''c'']) demo_send_view) = Some ''b''"
    using selection_survives_refresh [of "\<lambda>r n. r < int n" "map demo_peer [''b'', ''c'']" demo_send_view] first
    unfolding n Let_def demo_send_view_selected option.case by presburger
  moreover have "currentSelectedPeerIP (applyOnlinePeers (\<lambda>r n. False) (map demo_peer [''b'', ''c'']) demo_send_view) = None"
    using selection_survives_refresh [of "\<lambda>r n. False" "map demo_peer [''b'', ''c'']" demo_send_view]
    unfolding n Let_def demo_send_view_selected option.case by presburger
  ultimately show ?thesis by blast
qed

end
