(* ===== verification/Transfer_App.thy ===== *)
theory Transfer_App
  imports Transfer_Views
begin

text \<open>
  The application: \<^verbatim>\<open>HXAirDropStyleTransferViewController.m\<close>, the container that owns both panes and the
  client and is the client's delegate, and its launch in \<^verbatim>\<open>AppDelegate.m\<close>. The client is the one of
  \<open>Rtc_Client\<close> and \<open>Rtc_Transfer\<close>, so a tap runs through the panes, the container and the client to the
  messages that leave the process.

  Actions of the user, blocks of the main queue and completions of file panels run one at a time on
  the main thread and are the events of \<open>app_handle\<close>. Everything the client does on other
  threads may happen between them, and is \<open>client_bg\<close>. A control reacts to a tap only while it is enabled.
\<close>

section \<open>State\<close>

datatype sidebar_item = SidebarReceive | SidebarSend | SidebarSettings

datatype alert_text =
    AlertChooseFile | AlertFolder | AlertAlreadyConnected | AlertChooseDevice
  | AlertSendFailed string | AlertTransferEnded string

text \<open>File panels that are on screen, with what their completion handler does.\<close>

datatype panel = OpenFilePanel | OpenFolderPanel | SavePanel string

record app =
  rtcClient :: client
  sendVC :: send_view
  receiveVC :: receive_view
  selectedItem :: sidebar_item
  rowReceive_selected :: bool
  rowSend_selected :: bool
  rowSettings_selected :: bool
  receivePane_hidden :: bool
  sendPane_hidden :: bool
  settingsPane_hidden :: bool
  incomingName :: "string option"
  incomingSize :: u64
  pendingAutoSend :: bool
  pendingPeerIP :: "string option"
  expectingPeerListRefreshAck :: bool
  alerts :: "alert_text list"
  panels :: "panel list"

definition raise_alert :: "alert_text \<Rightarrow> app \<Rightarrow> app" where
  "raise_alert t a = a\<lparr>alerts := alerts a @ [t]\<rparr>"

definition on_send_view :: "(send_view \<Rightarrow> send_view) \<Rightarrow> app \<Rightarrow> app" where
  "on_send_view f a = a\<lparr>sendVC := f (sendVC a)\<rparr>"

definition on_receive_view :: "(receive_view \<Rightarrow> receive_view) \<Rightarrow> app \<Rightarrow> app" where
  "on_receive_view f a = a\<lparr>receiveVC := f (receiveVC a)\<rparr>"

definition on_client :: "(client \<Rightarrow> client) \<Rightarrow> app \<Rightarrow> app" where
  "on_client f a = a\<lparr>rtcClient := f (rtcClient a)\<rparr>"

definition size_on_disk :: "app \<Rightarrow> string \<Rightarrow> u64" where
  "size_on_disk a path = file_size path (rtcClient a)"

section \<open>Navigation and launch\<close>

definition setSelectedItem :: "sidebar_item \<Rightarrow> app \<Rightarrow> app" where
  "setSelectedItem item a =
     a\<lparr>selectedItem := item,
       rowReceive_selected := (item = SidebarReceive), rowSend_selected := (item = SidebarSend),
       rowSettings_selected := (item = SidebarSettings),
       receivePane_hidden := (item \<noteq> SidebarReceive), sendPane_hidden := (item \<noteq> SidebarSend),
       settingsPane_hidden := (item \<noteq> SidebarSettings)\<rparr>"

definition updateConnectionState :: "app \<Rightarrow> app" where
  "updateConnectionState a = on_send_view (setPeerConnected (isDataChannelOpen (rtcClient a))) a"

text \<open>\<open>files\<close> is the file system at launch, \<open>addresses\<close> those of the host.\<close>

definition app_launch :: "(int \<Rightarrow> nat \<Rightarrow> bool) \<Rightarrow> (string \<Rightarrow> byte list option) \<Rightarrow> string list \<Rightarrow> app" where
  "app_launch keeps files addresses =
     (let c = start (client_init files);
          a = \<lparr>rtcClient = c, sendVC = send_viewDidLoad keeps (\<lambda>p. file_size p c),
               receiveVC = receive_viewDidLoad addresses, selectedItem = SidebarReceive,
               rowReceive_selected = False, rowSend_selected = False, rowSettings_selected = False,
               receivePane_hidden = False, sendPane_hidden = False, settingsPane_hidden = False,
               incomingName = None, incomingSize = 0, pendingAutoSend = False, pendingPeerIP = None,
               expectingPeerListRefreshAck = False, alerts = [], panels = []\<rparr>
      in on_receive_view (\<lambda>v. v\<lparr>hostWindow := True\<rparr>) (updateConnectionState (setSelectedItem SidebarSend a)))"

section \<open>Sending\<close>

text \<open>The completion handlers of the two open panels.\<close>

definition file_chosen :: "status \<Rightarrow> url option \<Rightarrow> app \<Rightarrow> app" where
  "file_chosen text result a =
     (case result of
        None \<Rightarrow> a
      | Some u \<Rightarrow>
          updateConnectionState (on_send_view (\<lambda>v.
            setSendStatusText text
              (setSelectedFileName (size_on_disk a) (Some (lastPathComponent u)) (v\<lparr>selectedFileURL := Some u\<rparr>))) a))"

text \<open>\<open>open_err\<close>: the operating system's refusal to open the file.\<close>

definition onSend :: "ns_error option \<Rightarrow> app \<Rightarrow> app" where
  "onSend open_err a =
     (case selectedFileURL (sendVC a) of
        None \<Rightarrow> a
      | Some u \<Rightarrow>
          if hasDirectoryPath u then raise_alert AlertFolder a
          else if \<not> isDataChannelOpen (rtcClient a)
          then
            (case (case pendingPeerIP a of Some ip \<Rightarrow> Some ip | None \<Rightarrow> currentSelectedPeerIP (sendVC a)) of
               None \<Rightarrow> raise_alert AlertChooseDevice a
             | Some target \<Rightarrow>
                 if target = '''' then raise_alert AlertChooseDevice a
                 else on_client (connectToPeerIP (Some target))
                        (on_send_view (setSendStatusText ConnectingPeer)
                          (a\<lparr>pendingPeerIP := Some target, pendingAutoSend := True\<rparr>)))
          else
            (case sendFileAtURL (url_path u) (Some (lastPathComponent u)) open_err (rtcClient a) of
               (SendNo e, c) \<Rightarrow> raise_alert (AlertSendFailed (localizedDescription e)) (a\<lparr>rtcClient := c\<rparr>)
             | (SendYes, c) \<Rightarrow>
                 on_send_view (\<lambda>v. setSendingInProgress True (setSendingInProgress True
                     (setSendStatusText WaitingConfirmation v))) (a\<lparr>rtcClient := c\<rparr>)))"

definition onCancel :: "app \<Rightarrow> app" where
  "onCancel a = on_client cancelFileTransfer a"

definition onRefreshPeers :: "app \<Rightarrow> app" where
  "onRefreshPeers a =
     on_send_view (setSendStatusText RefreshingPeers)
       (on_client refreshOnlinePeers (a\<lparr>expectingPeerListRefreshAck := True\<rparr>))"

definition onSelectPeerIP :: "string \<Rightarrow> app \<Rightarrow> app" where
  "onSelectPeerIP ip a =
     (if ip = '''' then a
      else if pendingAutoSend a \<and> pendingPeerIP a = Some ip \<and> \<not> isDataChannelOpen (rtcClient a) then a
      else
        (case selectedFileURL (sendVC a) of
           None \<Rightarrow> raise_alert AlertChooseFile a
         | Some u \<Rightarrow>
             if hasDirectoryPath u then raise_alert AlertFolder a
             else if isDataChannelOpen (rtcClient a) then raise_alert AlertAlreadyConnected a
             else on_client (connectToPeerIP (Some ip))
                    (on_send_view (setSendStatusText ConnectingPeer)
                      (a\<lparr>pendingPeerIP := Some ip, pendingAutoSend := True\<rparr>))))"

text \<open>A click in the table: the selection changes, the delegate method runs, and after its callback the table is reloaded.\<close>

definition selectRow :: "(int \<Rightarrow> nat \<Rightarrow> bool) \<Rightarrow> int \<Rightarrow> app \<Rightarrow> app" where
  "selectRow keeps row a =
     (if tableSelectedRow (sendVC a) = row then a
      else
        (case tableViewSelectionDidChange keeps ((sendVC a)\<lparr>tableSelectedRow := row\<rparr>) of
           (v, None) \<Rightarrow> a\<lparr>sendVC := v\<rparr>
         | (v, Some ip) \<Rightarrow> on_send_view (reloadData keeps) (onSelectPeerIP ip (a\<lparr>sendVC := v\<rparr>))))"

section \<open>Receiving\<close>

definition onAccept :: "app \<Rightarrow> app" where
  "onAccept a =
     (case incomingName a of
        None \<Rightarrow> a
      | Some n \<Rightarrow> if incomingSize a = 0 then a else a\<lparr>panels := panels a @ [SavePanel n]\<rparr>)"

text \<open>The completion handler of the save panel; the last two arguments are those of the client's method.\<close>

definition destination_chosen :: "int \<Rightarrow> string option \<Rightarrow> bool \<Rightarrow> ns_error option option \<Rightarrow> app \<Rightarrow> app" where
  "destination_chosen now result created open_res a =
     (case result of
        None \<Rightarrow> on_client (rejectIncomingFileWithReason (Some ''User cancelled save dialog'')) a
      | Some dest \<Rightarrow>
          on_receive_view
            (beginReceiving now (Some (case incomingName a of Some n \<Rightarrow> n | None \<Rightarrow> ''file'')) (incomingSize a))
            (on_client (acceptIncomingFileToURL dest created open_res) a))"

definition onReject :: "app \<Rightarrow> app" where
  "onReject a = on_client (rejectIncomingFileWithReason (Some ''User rejected'')) a"

section \<open>Delegate of the client\<close>

definition dataChannelStateDidChange :: "ns_error option \<Rightarrow> data_state \<Rightarrow> app \<Rightarrow> app" where
  "dataChannelStateDidChange open_err st a0 =
     (let a = updateConnectionState a0
      in if st = kOpen \<and> pendingAutoSend a
         then onSend open_err (a\<lparr>pendingAutoSend := False, pendingPeerIP := None\<rparr>) else a)"

definition peer_dict :: "string \<times> string \<Rightarrow> json" where
  "peer_dict p = JObj [(''ip'', JStr (fst p)), (''name'', JStr (snd p)), (''online'', JBool True)]"

definition didUpdateOnlinePeers :: "(int \<Rightarrow> nat \<Rightarrow> bool) \<Rightarrow> json list \<Rightarrow> app \<Rightarrow> app" where
  "didUpdateOnlinePeers keeps peers a =
     (let a1 = on_send_view (applyOnlinePeers keeps peers) a
      in if expectingPeerListRefreshAck a1
         then on_send_view (setSendStatusText PeersRefreshed) (a1\<lparr>expectingPeerListRefreshAck := False\<rparr>) else a1)"

definition fileReceiveOffered :: "string option \<Rightarrow> u64 \<Rightarrow> app \<Rightarrow> app" where
  "fileReceiveOffered name sz a =
     setSelectedItem SidebarReceive
       (on_receive_view (presentIncomingOffer name sz) (a\<lparr>incomingName := name, incomingSize := sz\<rparr>))"

definition fileTransferDidFinish :: "ns_error option \<Rightarrow> app \<Rightarrow> app" where
  "fileTransferDidFinish error a =
     (let finish = (\<lambda>text. on_receive_view (resetToIdle WaitingForSender)
                      (on_send_view (\<lambda>v. setSendStatusText text
                         (setSendingInProgress False (setSendingInProgress False v))) a));
          a1 = (case error of
                  None \<Rightarrow> finish TransferDone
                | Some e \<Rightarrow>
                    if code e = 10 then finish TransferCancelled
                    else raise_alert (AlertTransferEnded (localizedDescription e)) (finish TransferFailed))
      in a1\<lparr>incomingName := None, incomingSize := 0\<rparr>)"

text \<open>The client always passes the peer's address as a string.\<close>

fun deliver ::
  "(int \<Rightarrow> nat \<Rightarrow> bool) \<Rightarrow> int \<Rightarrow> ns_error option \<Rightarrow> delegate_event \<Rightarrow> app \<Rightarrow> app" where
  "deliver keeps now open_err (DataChannelStateDidChange st) a = dataChannelStateDidChange open_err st a"
| "deliver keeps now open_err (DidReceivePeerName name (JStr ip) role) a =
     on_receive_view (receive_updatePeerInfo (name @ ''  '' @ ip)) a"
| "deliver keeps now open_err (DidReceivePeerName name _ role) a = a"
| "deliver keeps now open_err (DidUpdateOnlinePeers ps) a = didUpdateOnlinePeers keeps (map peer_dict ps) a"
| "deliver keeps now open_err (FileSendProgress p sent n) a = on_send_view (setSendProgress p sent n) a"
| "deliver keeps now open_err (FileReceiveOffered name sz) a = fileReceiveOffered name sz a"
| "deliver keeps now open_err (FileReceiveProgress p got n) a = on_receive_view (setReceiveProgress now p got n) a"
| "deliver keeps now open_err (FileTransferDidFinish e) a = fileTransferDidFinish e a"

text \<open>The oldest block of the main queue.\<close>

definition run_main_block :: "(int \<Rightarrow> nat \<Rightarrow> bool) \<Rightarrow> int \<Rightarrow> ns_error option \<Rightarrow> app \<Rightarrow> app" where
  "run_main_block keeps now open_err a =
     (let (c, evs) = run_main (rtcClient a) in fold (deliver keeps now open_err) evs (a\<lparr>rtcClient := c\<rparr>))"

section \<open>Events of the main thread\<close>

datatype app_event =
    Nav sidebar_item
  | TapChooseFile
  | TapChooseFolder
  | TapClearFile
  | TapSend "ns_error option"
  | TapCancel
  | TapRefreshPeers
  | SelectRow int
  | TapSaveAs
  | TapReject
  | TapOverlayCancel
  | PanelDone nat "url option" int bool "ns_error option option"
  | RunMain int "ns_error option"
  | ReceivePaneDisappears

definition panel_done ::
  "panel \<Rightarrow> url option \<Rightarrow> int \<Rightarrow> bool \<Rightarrow> ns_error option option \<Rightarrow> app \<Rightarrow> app" where
  "panel_done p result now created open_res a =
     (case p of
        OpenFilePanel \<Rightarrow> file_chosen FileChosen result a
      | OpenFolderPanel \<Rightarrow> file_chosen FolderChosen result a
      | SavePanel n \<Rightarrow> destination_chosen now (map_option url_path result) created open_res a)"

fun app_handle :: "(int \<Rightarrow> nat \<Rightarrow> bool) \<Rightarrow> app_event \<Rightarrow> app \<Rightarrow> app" where
  "app_handle keeps (Nav item) a = setSelectedItem item a"
| "app_handle keeps TapChooseFile a = a\<lparr>panels := panels a @ [OpenFilePanel]\<rparr>"
| "app_handle keeps TapChooseFolder a = a\<lparr>panels := panels a @ [OpenFolderPanel]\<rparr>"
| "app_handle keeps TapClearFile a = on_send_view (onClearSelectedFileTap (size_on_disk a)) a"
| "app_handle keeps (TapSend open_err) a = (if sendButton_enabled (sendVC a) then onSend open_err a else a)"
| "app_handle keeps TapCancel a = (if cancelButton_enabled (sendVC a) then onCancel a else a)"
| "app_handle keeps TapRefreshPeers a = onRefreshPeers a"
| "app_handle keeps (SelectRow row) a =
     (if - 1 \<le> row \<and> row < int (length (onlinePeers (sendVC a))) then selectRow keeps row a else a)"
| "app_handle keeps TapSaveAs a = (if saveAsButton_enabled (receiveVC a) then onAccept a else a)"
| "app_handle keeps TapReject a = (if rejectButton_enabled (receiveVC a) then onReject a else a)"
| "app_handle keeps TapOverlayCancel a = (if receivingOverlay_hidden (receiveVC a) then a else onReject a)"
| "app_handle keeps (PanelDone n result now created open_res) a =
     (if n < length (panels a)
      then panel_done (panels a ! n) result now created open_res
             (a\<lparr>panels := take n (panels a) @ drop (Suc n) (panels a)\<rparr>)
      else a)"
| "app_handle keeps (RunMain now open_err) a = run_main_block keeps now open_err a"
| "app_handle keeps ReceivePaneDisappears a = on_receive_view hideReceivingPanel a"

section \<open>Other threads\<close>

text \<open>
  Signaling frames and completions, messages and state changes of the data channel, the sending loop,
  and the framework and the file system acting on their own.
\<close>

inductive client_bg :: "client \<Rightarrow> client \<Rightarrow> bool" where
  bg_signal: "signal_step fw e c = Inr c' \<Longrightarrow> client_bg c c'"
| bg_message: "didReceiveMessageWithBuffer write_exn b c = Inr c' \<Longrightarrow> client_bg c c'"
| bg_loop: "client_bg c (loop_step read_err c)"
| bg_open: "client_bg c (didOpenDataChannel d c)"
| bg_state: "client_bg c (dataChannelDidChangeState user pid st (c\<lparr>dataChannel := Some d\<rparr>))"
| bg_channel: "client_bg c (c\<lparr>dataChannel := d\<rparr>)"
| bg_ice: "client_bg c (didChangeIceConnectionState st c)"
| bg_candidate: "client_bg c (didGenerateIceCandidate sdp ml mid c)"
| bg_files: "client_bg c (c\<lparr>fs := f\<rparr>)"

inductive app_step :: "(int \<Rightarrow> nat \<Rightarrow> bool) \<Rightarrow> app \<Rightarrow> app \<Rightarrow> bool" for keeps where
  main_thread: "app_step keeps a (app_handle keeps e a)"
| background: "client_bg (rtcClient a) c \<Longrightarrow> app_step keeps a (a\<lparr>rtcClient := c\<rparr>)"

inductive_cases app_step_cases: "app_step keeps a b"

section \<open>What the client does in the background keeps the sending handle open or closed\<close>

definition sending :: "client \<Rightarrow> bool" where
  "sending c \<longleftrightarrow> sendHandle c \<noteq> None"

lemma sending_primitives [simp]:
  "sending (dispatch_main t c) = sending c" "sending (pc_do k c) = sending c" "sending (pc_async k h c) = sending c"
  "sending (sendData b c) = sending c" "sending (sendControlJSON j c) = sending c"
  "sending (sendSignalingJSONObject j c) = sending c" "sending (cleanupTransferWithError e c) = sending c"
  "sending (receiveSignal c) = sending c"
  by (simp_all add: sending_def dispatch_main_def pc_do_def pc_async_def sendData_def sendControlJSON_def
      sendSignalingJSONObject_def cleanupTransferWithError_def receiveSignal_def)

lemma sending_fold_candidates [simp]: "sending (fold (\<lambda>k. pc_do (AddIceCandidate k)) ks c) = sending c"
  by (induction ks arbitrary: c) simp_all

lemma sending_updates [simp]:
  "sending (c\<lparr>hasRemoteDescription := b1\<rparr>) = sending c" "sending (c\<lparr>pendingCandidates := ks\<rparr>) = sending c"
  "sending (c\<lparr>dataChannel := d\<rparr>) = sending c" "sending (c\<lparr>isOfferer := b2\<rparr>) = sending c"
  "sending (c\<lparr>selfIP := x\<rparr>) = sending c" "sending (c\<lparr>peerIP := y\<rparr>) = sending c"
  "sending (c\<lparr>peerName := z\<rparr>) = sending c" "sending (c\<lparr>receiveArmed := b3\<rparr>) = sending c"
  "sending (c\<lparr>pcPending := ps\<rparr>) = sending c" "sending (c\<lparr>fs := f\<rparr>) = sending c"
  "sending (c\<lparr>mainQ := q\<rparr>) = sending c" "sending (c\<lparr>transferCancelled := b4\<rparr>) = sending c"
  "sending (c\<lparr>loop_at := l\<rparr>) = sending c" "sending (c\<lparr>fileQ := n\<rparr>) = sending c"
  by (simp_all add: sending_def)

lemma sending_flush [simp]: "sending (flush_candidates c) = sending c"
  by (simp add: flush_candidates_def)

lemma sending_complete: "sending (complete h r c) = sending c"
  by (induction h r c rule: complete.induct) (auto split: pc_result.splits)

lemma sending_createOffer [simp]: "sending (createOffer c) = sending c"
  by (simp add: createOffer_def Let_def)

lemma sending_handlers [simp]:
  "sending (on_role kvs c) = sending c" "sending (on_peer_joined kvs c) = sending c" "sending (on_candidate k c) = sending c"
  by (simp_all add: on_role_def on_peer_joined_def on_candidate_def Let_def)

lemma if_eq_elim: "(if b then m else m') = x \<Longrightarrow> (m = x \<Longrightarrow> Q) \<Longrightarrow> (m' = x \<Longrightarrow> Q) \<Longrightarrow> Q"
  by (cases b) auto

lemma sending_dispatch_signal:
  assumes "dispatch_signal fw j c = Inr c'"
  shows "sending c' = sending c"
proof -
  obtain ty where "subscript j ''type'' = Inr ty" using assms by (auto simp: dispatch_signal_def)
  with assms show ?thesis unfolding dispatch_signal_def Let_def by (simp only: bindE.simps) (elim if_eq_elim; auto)
qed

lemma sending_signal_step: "signal_step fw e c = Inr c' \<Longrightarrow> sending c' = sending c"
  by (auto simp: signal_step_def handle_signal_def Let_def sending_complete
      dest!: sending_dispatch_signal split: signal_event.splits option.splits if_splits)

lemma sending_on_ft_offer: "on_ft_offer kvs c = Inr c' \<Longrightarrow> sending c' = sending c"
  by (auto simp: on_ft_offer_def sending_def dispatch_main_def sendControlJSON_def sendData_def split: if_splits)

lemma sending_on_text: "on_text raw c = Inr c' \<Longrightarrow> sending c' = sending c"
  unfolding on_text_def
  by (auto simp: Let_def on_hello_def startSendingLoop_def dest: sending_on_ft_offer
      split: option.splits json.splits if_splits)

lemma sending_receive_update: "sending (c\<lparr>fs := f, recvHandle := h, recvBytesReceived := n\<rparr>) = sending c"
  by (simp add: sending_def)

lemma sending_on_binary [simp]: "sending (on_binary w bs c) = sending c"
  by (simp add: on_binary_def Let_def sending_receive_update split: option.split prod.split)

lemma sending_message: "didReceiveMessageWithBuffer w b c = Inr c' \<Longrightarrow> sending c' = sending c"
  by (auto simp: didReceiveMessageWithBuffer_def dest: sending_on_text split: data_buffer.splits)

lemma sending_account: "sending (c\<lparr>sendBytesSent := n\<rparr>) = sending c"
  by (simp add: sending_def)

lemma sending_read_chunk: "read_chunk c = (bs, c') \<Longrightarrow> sending c' = sending c"
  by (auto simp: read_chunk_def sending_def Let_def split: option.splits prod.splits)

lemma sending_loop: "sending (loop_step r c) = sending c"
  by (cases "loop_at c")
    (simp_all add: loop_step_def loop_fail_def Let_def sending_account sending_read_chunk split: prod.split)

lemma client_bg_sending: "client_bg c c' \<Longrightarrow> sending c' = sending c"
  by (induction rule: client_bg.induct)
    (auto simp: sending_signal_step sending_message sending_loop didOpenDataChannel_def dataChannelDidChangeState_def
      sendHello_def didChangeIceConnectionState_def didGenerateIceCandidate_def Let_def)

section \<open>Invariant of the application\<close>

text \<open>The table and the controller agree on a row of the list or on none.\<close>

definition table_ok :: "send_view \<Rightarrow> bool" where
  "table_ok v \<longleftrightarrow> tableSelectedRow v = selectedPeerRow v \<and> - 1 \<le> selectedPeerRow v \<and>
     selectedPeerRow v < int (length (onlinePeers v)) \<and> \<not> suppressPeerSelectActions v \<and>
     list_all (\<lambda>p. fst p \<noteq> '''') (onlinePeers v)"

text \<open>The controls of the send pane show whether a file is chosen and whether it is being sent.\<close>

definition buttons_ok :: "send_view \<Rightarrow> bool" where
  "buttons_ok v \<longleftrightarrow> sendButton_enabled v = (hasFile v \<and> \<not> isSending v) \<and> cancelButton_enabled v = isSending v \<and>
     selectedSummaryCard_hidden v = (\<not> hasFile v) \<and> chooseCards_hidden v = hasFile v \<and>
     selectedFileLabel_hidden v = hasFile v"

text \<open>The receive pane offers what the container remembers of the offer; its panel is attached while it shows.\<close>

definition offer_ok :: "app \<Rightarrow> bool" where
  "offer_ok a \<longleftrightarrow> (let v = receiveVC a in
     hostWindow v \<and> panel_attached v = (\<not> receivingOverlay_hidden v) \<and>
     rejectButton_enabled v = saveAsButton_enabled v \<and>
     (saveAsButton_enabled v \<longrightarrow> currentIncomingSize v = incomingSize a \<and>
        currentIncomingName v = (case incomingName a of Some n \<Rightarrow> n | None \<Rightarrow> ''file'')))"

definition panes_ok :: "app \<Rightarrow> bool" where
  "panes_ok a \<longleftrightarrow>
     rowReceive_selected a = (selectedItem a = SidebarReceive) \<and> rowSend_selected a = (selectedItem a = SidebarSend) \<and>
     rowSettings_selected a = (selectedItem a = SidebarSettings) \<and>
     receivePane_hidden a = (selectedItem a \<noteq> SidebarReceive) \<and> sendPane_hidden a = (selectedItem a \<noteq> SidebarSend) \<and>
     settingsPane_hidden a = (selectedItem a \<noteq> SidebarSettings)"

definition pending_ok :: "app \<Rightarrow> bool" where
  "pending_ok a \<longleftrightarrow> pendingAutoSend a = (pendingPeerIP a \<noteq> None) \<and> pendingPeerIP a \<noteq> Some ''''"

definition app_inv :: "app \<Rightarrow> bool" where
  "app_inv a \<longleftrightarrow> table_ok (sendVC a) \<and> buttons_ok (sendVC a) \<and> isSending (sendVC a) = sending (rtcClient a) \<and>
     offer_ok a \<and> panes_ok a \<and> pending_ok a"

lemmas view_ok_defs = table_ok_def buttons_ok_def hasFile_def

subsection \<open>Operations of the send pane\<close>

lemma setSendStatusText_ok [simp]:
  "table_ok (setSendStatusText t v) = table_ok v" "buttons_ok (setSendStatusText t v) = buttons_ok v"
  "isSending (setSendStatusText t v) = isSending v" "selectedFileURL (setSendStatusText t v) = selectedFileURL v"
  by (simp_all add: setSendStatusText_def view_ok_defs)

lemma setPeerConnected_ok [simp]:
  "table_ok (setPeerConnected b v) = table_ok v" "buttons_ok v \<Longrightarrow> buttons_ok (setPeerConnected b v)"
  "isSending (setPeerConnected b v) = isSending v" "selectedFileURL (setPeerConnected b v) = selectedFileURL v"
  by (simp_all add: setPeerConnected_def refreshEnabledState_def view_ok_defs)

lemma setSendingInProgress_ok [simp]:
  "table_ok (setSendingInProgress b v) = table_ok v" "buttons_ok v \<Longrightarrow> buttons_ok (setSendingInProgress b v)"
  "isSending (setSendingInProgress b v) = b"
  by (simp_all add: setSendingInProgress_def refreshEnabledState_def Let_def view_ok_defs)

lemma setSendProgress_ok [simp]:
  "table_ok (setSendProgress p m n v) = table_ok v" "buttons_ok (setSendProgress p m n v) = buttons_ok v"
  "isSending (setSendProgress p m n v) = isSending v"
  by (simp_all add: setSendProgress_def view_ok_defs)

lemma setSelectedFileName_ok [simp]:
  "table_ok (setSelectedFileName sz name v) = table_ok v" "buttons_ok (setSelectedFileName sz name v)"
  "isSending (setSelectedFileName sz name v) = isSending v"
  by (simp_all add: setSelectedFileName_def refreshEnabledState_def updateSelectedSummaryMode_def Let_def view_ok_defs)

lemma choose_file_table_ok [simp]: "table_ok (v\<lparr>selectedFileURL := u\<rparr>) = table_ok v"
  by (simp add: table_ok_def)

lemma applyOnlinePeers_ok [simp]:
  "table_ok (applyOnlinePeers keeps peers v)" "buttons_ok (applyOnlinePeers keeps peers v) = buttons_ok v"
proof -
  have "list_all (\<lambda>p. fst p \<noteq> '''') (concat (map normalize_peer peers))"
    using normalize_peer_nonempty by (auto simp: list_all_iff)
  moreover have "- 1 \<le> selectedPeerRow (applyOnlinePeers keeps peers v)"
    "selectedPeerRow (applyOnlinePeers keeps peers v) < int (length (concat (map normalize_peer peers)))"
    using applyOnlinePeers_row(2) [of keeps peers v] new_row_range [of peers v] by auto
  ultimately show "table_ok (applyOnlinePeers keeps peers v)"
    unfolding table_ok_def applyOnlinePeers_settled(2) using applyOnlinePeers_row(1) applyOnlinePeers_settled(3) by blast
  show "buttons_ok (applyOnlinePeers keeps peers v) = buttons_ok v"
    by (simp add: buttons_ok_def hasFile_def)
qed

lemma reloadData_ok [simp]:
  "table_ok v \<Longrightarrow> table_ok (reloadData keeps v)" "buttons_ok (reloadData keeps v) = buttons_ok v"
  "isSending (reloadData keeps v) = isSending v"
  by (auto simp: reloadData_def view_ok_defs)

lemma clear_file_ok [simp]:
  "table_ok (onClearSelectedFileTap sz v) = table_ok v" "buttons_ok (onClearSelectedFileTap sz v)"
  "isSending (onClearSelectedFileTap sz v) = isSending v"
  by (simp_all add: onClearSelectedFileTap_def)

lemma send_viewDidLoad_ok [simp]:
  "table_ok (send_viewDidLoad keeps sz)" "buttons_ok (send_viewDidLoad keeps sz)" "\<not> isSending (send_viewDidLoad keeps sz)"
  by (simp_all add: send_viewDidLoad_def send_buildUI_def applyOnlinePeers_def select_quietly_def reloadData_def
      tableViewSelectionDidChange_def currentSelectedPeerIP_def refreshEnabledState_def updateSelectedSummaryMode_def
      Let_def view_ok_defs)

subsection \<open>Operations of the receive pane and the container\<close>

lemma on_view_fields [simp]:
  "sendVC (on_send_view f a) = f (sendVC a)" "rtcClient (on_send_view f a) = rtcClient a"
  "receiveVC (on_send_view f a) = receiveVC a" "pendingAutoSend (on_send_view f a) = pendingAutoSend a"
  "pendingPeerIP (on_send_view f a) = pendingPeerIP a" "alerts (on_send_view f a) = alerts a"
  "sendVC (on_receive_view g a) = sendVC a" "rtcClient (on_receive_view g a) = rtcClient a"
  "receiveVC (on_receive_view g a) = g (receiveVC a)"
  "sendVC (on_client h a) = sendVC a" "rtcClient (on_client h a) = h (rtcClient a)"
  "receiveVC (on_client h a) = receiveVC a" "pendingAutoSend (on_client h a) = pendingAutoSend a"
  "pendingPeerIP (on_client h a) = pendingPeerIP a" "alerts (on_client h a) = alerts a"
  "sendVC (raise_alert t a) = sendVC a" "rtcClient (raise_alert t a) = rtcClient a"
  "receiveVC (raise_alert t a) = receiveVC a" "pendingAutoSend (raise_alert t a) = pendingAutoSend a"
  "pendingPeerIP (raise_alert t a) = pendingPeerIP a"
  by (simp_all add: on_send_view_def on_receive_view_def on_client_def raise_alert_def)

lemma parts_frame [simp]:
  "offer_ok (on_send_view f a) = offer_ok a" "panes_ok (on_send_view f a) = panes_ok a" "pending_ok (on_send_view f a) = pending_ok a"
  "panes_ok (on_receive_view g a) = panes_ok a" "pending_ok (on_receive_view g a) = pending_ok a"
  "offer_ok (on_client h a) = offer_ok a" "panes_ok (on_client h a) = panes_ok a" "pending_ok (on_client h a) = pending_ok a"
  "offer_ok (raise_alert t a) = offer_ok a" "panes_ok (raise_alert t a) = panes_ok a" "pending_ok (raise_alert t a) = pending_ok a"
  "offer_ok (a\<lparr>rtcClient := c\<rparr>) = offer_ok a" "panes_ok (a\<lparr>rtcClient := c\<rparr>) = panes_ok a" "pending_ok (a\<lparr>rtcClient := c\<rparr>) = pending_ok a"
  "offer_ok (a\<lparr>sendVC := v\<rparr>) = offer_ok a" "panes_ok (a\<lparr>sendVC := v\<rparr>) = panes_ok a" "pending_ok (a\<lparr>sendVC := v\<rparr>) = pending_ok a"
  "offer_ok (a\<lparr>panels := ps\<rparr>) = offer_ok a" "panes_ok (a\<lparr>panels := ps\<rparr>) = panes_ok a" "pending_ok (a\<lparr>panels := ps\<rparr>) = pending_ok a"
  "offer_ok (a\<lparr>expectingPeerListRefreshAck := b\<rparr>) = offer_ok a" "panes_ok (a\<lparr>expectingPeerListRefreshAck := b\<rparr>) = panes_ok a"
  "pending_ok (a\<lparr>expectingPeerListRefreshAck := b\<rparr>) = pending_ok a"
  "offer_ok (a\<lparr>pendingPeerIP := ip, pendingAutoSend := p\<rparr>) = offer_ok a" "panes_ok (a\<lparr>pendingPeerIP := ip, pendingAutoSend := p\<rparr>) = panes_ok a"
  "panes_ok (a\<lparr>incomingName := n, incomingSize := sz\<rparr>) = panes_ok a" "pending_ok (a\<lparr>incomingName := n, incomingSize := sz\<rparr>) = pending_ok a"
  by (simp_all add: offer_ok_def panes_ok_def pending_ok_def on_send_view_def on_receive_view_def on_client_def raise_alert_def)

lemma setSelectedItem_ok [simp]:
  "panes_ok (setSelectedItem item a)" "offer_ok (setSelectedItem item a) = offer_ok a"
  "pending_ok (setSelectedItem item a) = pending_ok a" "sendVC (setSelectedItem item a) = sendVC a"
  "rtcClient (setSelectedItem item a) = rtcClient a"
  by (simp_all add: setSelectedItem_def panes_ok_def offer_ok_def pending_ok_def)

lemma offer_ok_receive:
  "offer_ok a \<Longrightarrow> offer_ok (on_receive_view hideReceivingPanel a)"
  "offer_ok a \<Longrightarrow> offer_ok (on_receive_view (setReceiveProgress now p m n) a)"
  "offer_ok a \<Longrightarrow> offer_ok (on_receive_view (receive_updatePeerInfo info) a)"
  "offer_ok a \<Longrightarrow> offer_ok (on_receive_view (beginReceiving now name sz) a)"
  by (auto simp: offer_ok_def on_receive_view_def hideReceivingPanel_def setReceiveProgress_def
      showReceivingPanel_def receive_updatePeerInfo_def beginReceiving_def Let_def)

lemma offer_ok_offered:
  "offer_ok a \<Longrightarrow> offer_ok (on_receive_view (presentIncomingOffer name sz) (a\<lparr>incomingName := name, incomingSize := sz\<rparr>))"
  by (simp add: offer_ok_def on_receive_view_def presentIncomingOffer_def hideReceivingPanel_def Let_def split: option.split)

lemma offer_ok_finished:
  "offer_ok a \<Longrightarrow> offer_ok ((on_receive_view (resetToIdle st) a)\<lparr>incomingName := None, incomingSize := 0\<rparr>)"
  by (simp add: offer_ok_def on_receive_view_def resetToIdle_def hideReceivingPanel_def Let_def)

lemma updateConnectionState_inv: "app_inv a \<Longrightarrow> app_inv (updateConnectionState a)"
  by (simp add: app_inv_def updateConnectionState_def)

lemma file_chosen_inv: "app_inv a \<Longrightarrow> app_inv (file_chosen t r a)"
  by (auto simp: app_inv_def file_chosen_def updateConnectionState_def split: option.split)

subsection \<open>Client operations called from the main thread\<close>

lemma client_call_sending [simp]:
  "sending (connectToPeerIP ip c) = sending c" "sending (refreshOnlinePeers c) = sending c"
  "sending (cancelFileTransfer c) = sending c" "sending (rejectIncomingFileWithReason r c) = sending c"
  by (simp_all add: connectToPeerIP_def refreshOnlinePeers_def cancelFileTransfer_def rejectIncomingFileWithReason_def split: option.split)

lemma accept_sending [simp]: "sending (acceptIncomingFileToURL dest created open_res c) = sending c"
  by (simp add: acceptIncomingFileToURL_def Let_def split: option.split) (simp add: sending_def)

lemma sendFileAtURL_sending:
  "sendFileAtURL u n e c = (SendNo err, c') \<Longrightarrow> c' = c" "sendFileAtURL u n e c = (SendYes, c') \<Longrightarrow> sending c'"
  by (auto simp: sendFileAtURL_def Let_def split: if_splits option.splits) (simp_all add: sending_def)

lemma connect_inv: "app_inv a \<Longrightarrow> ip \<noteq> '''' \<Longrightarrow>
  app_inv (on_client (connectToPeerIP (Some ip)) (on_send_view (setSendStatusText t)
     (a\<lparr>pendingPeerIP := Some ip, pendingAutoSend := True\<rparr>)))"
  by (simp add: app_inv_def) (simp add: pending_ok_def)

lemma onSend_inv:
  assumes "app_inv a"
  shows "app_inv (onSend open_err a)"
proof (cases "selectedFileURL (sendVC a)")
  case (Some u)
  consider "hasDirectoryPath u" | "\<not> hasDirectoryPath u" "\<not> isDataChannelOpen (rtcClient a)"
    | err c where "\<not> hasDirectoryPath u" "isDataChannelOpen (rtcClient a)"
        "sendFileAtURL (url_path u) (Some (lastPathComponent u)) open_err (rtcClient a) = (SendNo err, c)"
    | c where "\<not> hasDirectoryPath u" "isDataChannelOpen (rtcClient a)"
        "sendFileAtURL (url_path u) (Some (lastPathComponent u)) open_err (rtcClient a) = (SendYes, c)"
    by (metis prod.exhaust send_result.exhaust)
  then show ?thesis
  proof cases
    case 2
    with Some assms connect_inv show ?thesis by (auto simp: onSend_def app_inv_def split: option.split)
  next
    case (3 err c)
    from sendFileAtURL_sending(1) [OF 3(3)] 3 Some assms show ?thesis by (simp add: onSend_def app_inv_def)
  next
    case (4 c)
    from sendFileAtURL_sending(2) [OF 4(3)] 4 Some assms show ?thesis by (simp add: onSend_def app_inv_def)
  qed (use Some assms in \<open>simp add: onSend_def app_inv_def\<close>)
qed (use assms in \<open>simp add: onSend_def\<close>)

lemma onSelectPeerIP_inv: "app_inv a \<Longrightarrow> app_inv (onSelectPeerIP ip a)"
  using connect_inv [of a ip] by (auto simp: onSelectPeerIP_def app_inv_def split: option.split)

lemma selectRow_inv:
  assumes inv: "app_inv a" and row: "- 1 \<le> row" "row < int (length (onlinePeers (sendVC a)))"
  shows "app_inv (selectRow keeps row a)"
proof -
  let ?v = "(sendVC a)\<lparr>tableSelectedRow := row, selectedPeerRow := row\<rparr>"
  have v: "app_inv (a\<lparr>sendVC := ?v\<rparr>)" using inv row by (auto simp: app_inv_def view_ok_defs)
  have "\<not> suppressPeerSelectActions (sendVC a)" using inv by (simp add: app_inv_def table_ok_def)
  then consider "tableViewSelectionDidChange keeps ((sendVC a)\<lparr>tableSelectedRow := row\<rparr>) = (reloadData keeps ?v, None)"
    | ip where "tableViewSelectionDidChange keeps ((sendVC a)\<lparr>tableSelectedRow := row\<rparr>) = (?v, Some ip)"
    by (cases "0 \<le> row \<and> row < int (length (onlinePeers (sendVC a)))")
      (simp_all add: tableViewSelectionDidChange_def Let_def)
  then show ?thesis
  proof cases
    case 1
    with v inv show ?thesis by (simp add: selectRow_def) (simp add: app_inv_def)
  next
    case (2 ip)
    from onSelectPeerIP_inv [OF v, of ip] have "app_inv (on_send_view (reloadData keeps) (onSelectPeerIP ip (a\<lparr>sendVC := ?v\<rparr>)))"
      by (simp add: app_inv_def)
    with 2 inv show ?thesis by (simp add: selectRow_def)
  qed
qed

lemma fileTransferDidFinish_inv:
  assumes "app_inv (a\<lparr>rtcClient := client\<rparr>)" and "\<not> sending (rtcClient a)"
  shows "app_inv (fileTransferDidFinish e a)"
proof -
  have "app_inv ((on_receive_view (resetToIdle WaitingForSender) (on_send_view (\<lambda>v. setSendStatusText t
      (setSendingInProgress False (setSendingInProgress False v))) a))\<lparr>incomingName := None, incomingSize := 0\<rparr>)" for t
    using assms by (simp add: app_inv_def offer_ok_finished)
  moreover have "(raise_alert x b)\<lparr>incomingName := None, incomingSize := 0\<rparr> =
      raise_alert x (b\<lparr>incomingName := None, incomingSize := 0\<rparr>)" for x b
    by (simp add: raise_alert_def)
  moreover have "app_inv (raise_alert x b) = app_inv b" for x b by (simp add: app_inv_def)
  ultimately show ?thesis by (simp add: fileTransferDidFinish_def Let_def split: option.split)
qed

lemma deliver_inv:
  assumes "app_inv a" and "\<forall>e. ev \<noteq> FileTransferDidFinish e"
  shows "app_inv (deliver keeps now open_err ev a)"
proof (cases ev)
  case (DataChannelStateDidChange st)
  let ?b = "(updateConnectionState a)\<lparr>pendingAutoSend := False, pendingPeerIP := None\<rparr>"
  have "app_inv ?b" using updateConnectionState_inv [OF assms(1)] by (simp add: app_inv_def pending_ok_def offer_ok_def panes_ok_def)
  with DataChannelStateDidChange updateConnectionState_inv [OF assms(1)] show ?thesis
    by (simp add: dataChannelStateDidChange_def Let_def onSend_inv)
next
  case (DidReceivePeerName n ip r)
  with assms show ?thesis by (cases ip) (simp_all add: app_inv_def offer_ok_receive)
next
  case (DidUpdateOnlinePeers ps)
  with assms show ?thesis by (simp add: didUpdateOnlinePeers_def app_inv_def Let_def)
next
  case (FileReceiveOffered n sz)
  with assms offer_ok_offered show ?thesis by (simp add: fileReceiveOffered_def app_inv_def)
qed (use assms in \<open>simp_all add: app_inv_def offer_ok_receive\<close>)

lemma reset_transfer_sending: "\<not> sending (reset_transfer c)"
  by (simp add: sending_def reset_transfer_def)

lemma run_main_block_inv:
  assumes inv: "app_inv a"
  shows "app_inv (run_main_block keeps now open_err a)"
proof (cases "mainQ (rtcClient a)")
  case (Cons t ts)
  let ?c = "(rtcClient a)\<lparr>mainQ := ts\<rparr>"
  have q: "app_inv (a\<lparr>rtcClient := ?c\<rparr>)" using inv by (simp add: app_inv_def)
  have run: "run_main (rtcClient a) = run_main_task t ?c" by (simp add: run_main_def Cons)
  show ?thesis
  proof (cases "\<exists>e. t = TCleanup e")
    case True
    with inv run show ?thesis
      by (auto simp: run_main_block_def intro!: fileTransferDidFinish_inv [where client = "rtcClient a"] simp: reset_transfer_sending)
  next
    case False
    then obtain c ev where t: "run_main_task t ?c = (c, [ev])" "sending c = sending ?c" "\<forall>e. ev \<noteq> FileTransferDidFinish e"
      by (cases t) auto
    with inv have "app_inv (a\<lparr>rtcClient := c\<rparr>)" by (simp add: app_inv_def)
    from deliver_inv [OF this t(3)] show ?thesis by (simp add: run_main_block_def run t(1))
  qed
qed (use inv in \<open>simp add: run_main_block_def run_main_def\<close>)

lemma app_handle_inv: "app_inv a \<Longrightarrow> app_inv (app_handle keeps e a)"
proof (induction e)
  case (PanelDone n result now created open_res)
  then have "app_inv (a\<lparr>panels := ps\<rparr>)" for ps by (simp add: app_inv_def)
  then show ?case
    using PanelDone file_chosen_inv
    by (auto simp: panel_done_def destination_chosen_def split: panel.split option.split)
      (simp_all add: app_inv_def offer_ok_receive)
qed (simp_all add: selectRow_inv onSend_inv run_main_block_inv, simp_all add: app_inv_def onCancel_def onRefreshPeers_def onAccept_def
    onReject_def offer_ok_receive split: option.split)

subsection \<open>Reachable states\<close>

lemma app_launch_inv: "app_inv (app_launch keeps files addresses)"
proof -
  have "offer_ok (on_receive_view (\<lambda>v. v\<lparr>hostWindow := True\<rparr>) a)" if "receiveVC a = receive_viewDidLoad addresses" for a
    using that by (simp add: offer_ok_def on_receive_view_def receive_viewDidLoad_def receive_buildUI_def resetToIdle_def
        hideReceivingPanel_def Let_def)
  moreover have "\<not> sending (start (client_init files))"
    by (simp add: sending_def start_def setupWebSocket_def setupPeerConnection_def receiveSignal_def client_init_def)
  ultimately show ?thesis
    by (simp add: app_launch_def app_inv_def updateConnectionState_def setSelectedItem_def Let_def)
      (simp add: pending_ok_def panes_ok_def on_send_view_def)
qed

lemma app_step_inv: "app_step keeps a b \<Longrightarrow> app_inv a \<Longrightarrow> app_inv b"
proof (erule app_step_cases)
  fix c assume "app_inv a" and "b = a\<lparr>rtcClient := c\<rparr>" and "client_bg (rtcClient a) c"
  then show "app_inv b" by (simp add: app_inv_def client_bg_sending)
qed (simp add: app_handle_inv)

definition launched :: "(int \<Rightarrow> nat \<Rightarrow> bool) \<Rightarrow> app \<Rightarrow> bool" where
  "launched keeps a \<longleftrightarrow> (\<exists>files addresses. a = app_launch keeps files addresses)"

interpretation application: safe_system "launched keeps" "app_step keeps" app_inv for keeps
  by unfold_locales (auto simp: launched_def app_launch_inv intro: app_step_inv)

text \<open>
  C4. In every state the application can reach, whatever the user taps and whatever the client does meanwhile on
  its own threads, the controls tell the truth: "cancel" is enabled exactly while the client has a file open
  for sending, "send" exactly when a file (not a folder) is chosen and none is being sent; the row selected in
  the table is the controller's row and is in the list; one pane shows, the selected one; "save as" and
  "reject" are enabled together and offer the name and size the container remembers; and an automatic send is
  pending exactly when a device is remembered for it.
\<close>

theorem controls_follow_client:
  assumes "(app_step keeps)\<^sup>*\<^sup>* (app_launch keeps files addresses) a"
  shows "cancelButton_enabled (sendVC a) = (sendHandle (rtcClient a) \<noteq> None)
    \<and> sendButton_enabled (sendVC a) = (hasFile (sendVC a) \<and> sendHandle (rtcClient a) = None)
    \<and> tableSelectedRow (sendVC a) = selectedPeerRow (sendVC a)
    \<and> selectedPeerRow (sendVC a) \<in> {- 1 ..< int (length (onlinePeers (sendVC a)))}
    \<and> [receivePane_hidden a, sendPane_hidden a, settingsPane_hidden a] =
        map (\<lambda>i. selectedItem a \<noteq> i) [SidebarReceive, SidebarSend, SidebarSettings]
    \<and> rejectButton_enabled (receiveVC a) = saveAsButton_enabled (receiveVC a)
    \<and> (saveAsButton_enabled (receiveVC a) \<longrightarrow> currentIncomingSize (receiveVC a) = incomingSize a)
    \<and> pendingAutoSend a = (pendingPeerIP a \<noteq> None)"
proof -
  have "app_inv a" using assms by (intro application.inv_reachable) (auto simp: launched_def)
  then have "isSending (sendVC a) = (sendHandle (rtcClient a) \<noteq> None)" "table_ok (sendVC a)" "buttons_ok (sendVC a)"
    "offer_ok a" "panes_ok a" "pending_ok a"
    by (simp_all add: app_inv_def sending_def)
  then show ?thesis
    unfolding table_ok_def buttons_ok_def offer_ok_def panes_ok_def pending_ok_def Let_def by (simp del: not_None_eq)
qed

definition demo_files :: "string \<Rightarrow> byte list option" where
  "demo_files = [''f'' \<mapsto> [1, 2, 3]]"

definition demo_url :: url where
  "demo_url = \<lparr>url_path = ''f'', hasDirectoryPath = False, lastPathComponent = ''f''\<rparr>"

definition demo_keeps :: "int \<Rightarrow> nat \<Rightarrow> bool" where
  "demo_keeps r n \<longleftrightarrow> r < int n"

text \<open>A file is chosen, the data channel is open and "send" is tapped.\<close>

definition demo_channel :: data_channel where
  "demo_channel = \<lparr>ready = kOpen, bufferedAmount = 0, accepts = True\<rparr>"

definition demo_app :: app where
  "demo_app = app_launch demo_keeps demo_files []"

definition demo_chosen :: app where
  "demo_chosen = app_handle demo_keeps (PanelDone 0 (Some demo_url) 0 True None) (app_handle demo_keeps TapChooseFile demo_app)"

definition demo_sending :: app where
  "demo_sending = app_handle demo_keeps (TapSend None) (demo_chosen\<lparr>rtcClient := (rtcClient demo_chosen)\<lparr>dataChannel := Some demo_channel\<rparr>\<rparr>)"

lemmas app_eval = app_launch_def send_viewDidLoad_def send_buildUI_def applyOnlinePeers_def select_quietly_def reloadData_def
  tableViewSelectionDidChange_def currentSelectedPeerIP_def refreshEnabledState_def updateSelectedSummaryMode_def Let_def
  receive_viewDidLoad_def receive_buildUI_def resetToIdle_def hideReceivingPanel_def updateConnectionState_def setSelectedItem_def
  on_send_view_def on_receive_view_def on_client_def raise_alert_def setPeerConnected_def hasFile_def isDataChannelOpen_def
  readyState_of_def start_def setupWebSocket_def setupPeerConnection_def receiveSignal_def client_init_def panel_done_def
  file_chosen_def setSelectedFileName_def setSendStatusText_def setSendingInProgress_def

lemma demo_app_eq: "demo_app = app_launch demo_keeps demo_files []"
  by (simp add: demo_app_def)

lemma demo_chosen_fields:
  "selectedFileURL (sendVC demo_chosen) = Some demo_url" "isSending (sendVC demo_chosen) = False"
  "sendButton_enabled (sendVC demo_chosen)" "rtcClient demo_chosen = start (client_init demo_files)"
  "onlinePeers (sendVC demo_chosen) = []" "pendingPeerIP demo_chosen = None" "pendingAutoSend demo_chosen = False"
  by (simp_all add: demo_chosen_def demo_app_def app_eval demo_url_def)

lemma demo_sending_reachable: "(app_step demo_keeps)\<^sup>*\<^sup>* demo_app demo_sending"
proof -
  have "app_step demo_keeps demo_app (app_handle demo_keeps TapChooseFile demo_app)" by (rule main_thread)
  moreover have "app_step demo_keeps (app_handle demo_keeps TapChooseFile demo_app) demo_chosen"
    unfolding demo_chosen_def by (rule main_thread)
  moreover have "app_step demo_keeps demo_chosen (demo_chosen\<lparr>rtcClient := (rtcClient demo_chosen)\<lparr>dataChannel := Some demo_channel\<rparr>\<rparr>)"
    by (rule background) (rule bg_channel)
  moreover have "app_step demo_keeps (demo_chosen\<lparr>rtcClient := (rtcClient demo_chosen)\<lparr>dataChannel := Some demo_channel\<rparr>\<rparr>) demo_sending"
    unfolding demo_sending_def by (rule main_thread)
  ultimately show ?thesis by (meson rtranclp.rtrancl_into_rtrancl rtranclp.rtrancl_refl)
qed

lemma demo_sending_handle: "sendHandle (rtcClient demo_sending) = Some (''f'', 0)"
proof -
  have "file_size ''f'' (c\<lparr>dataChannel := Some demo_channel\<rparr>) = 3" if "c = start (client_init demo_files)" for c
    using that by (simp add: file_size_def start_def setupWebSocket_def setupPeerConnection_def receiveSignal_def client_init_def demo_files_def)
  then show ?thesis
    by (simp add: demo_sending_def onSend_def demo_chosen_fields demo_url_def sendFileAtURL_def isDataChannelOpen_def
        readyState_of_def demo_channel_def sendControlJSON_def sendData_def Let_def
        start_def setupWebSocket_def setupPeerConnection_def receiveSignal_def client_init_def)
qed

theorem controls_follow_client_witness:
  "cancelButton_enabled (sendVC demo_sending) \<and> \<not> sendButton_enabled (sendVC demo_sending)"
  using controls_follow_client [OF demo_sending_reachable [unfolded demo_app_eq]] demo_sending_handle by simp

section \<open>Choosing a device\<close>

definition pair_request_json :: "string \<Rightarrow> json" where
  "pair_request_json ip = JObj [(''type'', JStr ''pair_request''), (''targetIP'', JStr ip)]"

lemma connect_sends: "socket c \<Longrightarrow> ip \<noteq> '''' \<Longrightarrow>
  connectToPeerIP (Some ip) c = c\<lparr>signalOut := signalOut c @ [pair_request_json ip]\<rparr>"
  by (simp add: connectToPeerIP_def sendSignalingJSONObject_def pair_request_json_def)

text \<open>Alerts of a click on the device \<open>ip\<close>.\<close>

definition select_alerts :: "string \<Rightarrow> app \<Rightarrow> alert_text list" where
  "select_alerts ip a =
     (if pendingPeerIP a = Some ip \<and> \<not> isDataChannelOpen (rtcClient a) then []
      else case selectedFileURL (sendVC a) of
        None \<Rightarrow> [AlertChooseFile]
      | Some u \<Rightarrow> if hasDirectoryPath u then [AlertFolder]
                  else if isDataChannelOpen (rtcClient a) then [AlertAlreadyConnected] else [])"

text \<open>The click asks the server for a connection.\<close>

definition requests :: "string \<Rightarrow> app \<Rightarrow> bool" where
  "requests ip a \<longleftrightarrow> hasFile (sendVC a) \<and> \<not> isDataChannelOpen (rtcClient a) \<and> pendingPeerIP a \<noteq> Some ip"

lemma onSelectPeerIP_outcome:
  assumes "pending_ok a" and "socket (rtcClient a)" and "ip \<noteq> ''''"
  shows "rtcClient (onSelectPeerIP ip a) =
      (if requests ip a then (rtcClient a)\<lparr>signalOut := signalOut (rtcClient a) @ [pair_request_json ip]\<rparr> else rtcClient a)"
    and "pendingPeerIP (onSelectPeerIP ip a) = (if requests ip a then Some ip else pendingPeerIP a)"
    and "alerts (onSelectPeerIP ip a) = alerts a @ select_alerts ip a"
    and "selectedPeerRow (sendVC (onSelectPeerIP ip a)) = selectedPeerRow (sendVC a)"
  using assms
  by (auto simp: onSelectPeerIP_def requests_def hasFile_def select_alerts_def pending_ok_def connect_sends
      raise_alert_def setSendStatusText_def on_send_view_def on_client_def split: option.split)

lemma selectRow_click:
  assumes inv: "app_inv a" and row: "0 \<le> row" "row < int (length (onlinePeers (sendVC a)))" "row \<noteq> selectedPeerRow (sendVC a)"
  shows "app_handle keeps (SelectRow row) a =
    on_send_view (reloadData keeps) (onSelectPeerIP (fst (onlinePeers (sendVC a) ! nat row))
      (a\<lparr>sendVC := (sendVC a)\<lparr>tableSelectedRow := row, selectedPeerRow := row\<rparr>\<rparr>))"
  using assms by (simp add: selectRow_def tableViewSelectionDidChange_def Let_def app_inv_def table_ok_def)

lemma onSelectPeerIP_table:
  "tableSelectedRow (sendVC (onSelectPeerIP ip a)) = tableSelectedRow (sendVC a)"
  "onlinePeers (sendVC (onSelectPeerIP ip a)) = onlinePeers (sendVC a)"
  by (simp_all add: onSelectPeerIP_def raise_alert_def on_client_def on_send_view_def setSendStatusText_def split: option.split)

text \<open>
  C16. A click on another device in the list, in every reachable state: the device becomes the chosen one, and one
  pair request for it is sent exactly if a file (not a folder) is chosen, no channel is open and that device is
  not already the one being waited for; then it is remembered for the automatic send. In every other
  case nothing is sent and the user gets the alert for the first obstacle, none if the device is already
  waited for. The device stays the chosen one unless the table drops the row in the reload that follows
  (\<open>keeps\<close>), and then none is chosen. (Hypothesis: the socket is up.)
\<close>

theorem select_peer_outcome:
  assumes reach: "(app_step keeps)\<^sup>*\<^sup>* (app_launch keeps files addresses) a"
    and sock: "socket (rtcClient a)"
    and row: "0 \<le> row" "row < int (length (onlinePeers (sendVC a)))" "row \<noteq> selectedPeerRow (sendVC a)"
  shows "let ip = fst (onlinePeers (sendVC a) ! nat row); b = app_handle keeps (SelectRow row) a in
      rtcClient b = (if requests ip a then (rtcClient a)\<lparr>signalOut := signalOut (rtcClient a) @ [pair_request_json ip]\<rparr>
                     else rtcClient a)
    \<and> pendingPeerIP b = (if requests ip a then Some ip else pendingPeerIP a)
    \<and> alerts b = alerts a @ select_alerts ip a
    \<and> currentSelectedPeerIP (sendVC b) = (if keeps row (length (onlinePeers (sendVC a))) then Some ip else None)"
proof -
  have inv: "app_inv a" using reach by (intro application.inv_reachable) (auto simp: launched_def)
  define ip where "ip = fst (onlinePeers (sendVC a) ! nat row)"
  have ip: "ip \<noteq> ''''" using inv row by (auto simp: ip_def app_inv_def table_ok_def list_all_length)
  let ?a = "a\<lparr>sendVC := (sendVC a)\<lparr>tableSelectedRow := row, selectedPeerRow := row\<rparr>\<rparr>"
  have p: "pending_ok ?a" using inv by (simp add: app_inv_def)
  have same: "requests ip ?a = requests ip a" "select_alerts ip ?a = select_alerts ip a"
    by (simp_all add: requests_def select_alerts_def hasFile_def cong: option.case_cong)
  note out = onSelectPeerIP_outcome [OF p, simplified, OF sock ip, unfolded same]
  have "row \<noteq> - 1" using row by simp
  then have "currentSelectedPeerIP (reloadData keeps (sendVC (onSelectPeerIP ip ?a))) =
      (if keeps row (length (onlinePeers (sendVC a))) then Some ip else None)"
    using out ip row by (simp add: reloadData_def onSelectPeerIP_table currentSelectedPeerIP_def ip_def [symmetric] Let_def)
  with out show ?thesis unfolding selectRow_click [OF inv row] Let_def ip_def [symmetric] by simp
qed

definition demo_peers_frame :: signal_event where
  "demo_peers_frame = Frame (Some (Some (JObj [(''type'', JStr ''peers''), (''peers'', JArr [demo_peer ''p'', demo_peer ''q''])])))"

definition demo_notified :: app where
  "demo_notified = demo_chosen\<lparr>rtcClient := dispatch_main (TOnlinePeers [(''p'', ''p''), (''q'', ''q'')]) (rtcClient demo_chosen)\<rparr>"

definition demo_listed :: app where
  "demo_listed = app_handle demo_keeps (RunMain 0 None) demo_notified"

lemma demo_chosen_reachable: "(app_step demo_keeps)\<^sup>*\<^sup>* demo_app demo_chosen"
  unfolding demo_chosen_def by (meson main_thread rtranclp.rtrancl_into_rtrancl rtranclp.rtrancl_refl)

lemma demo_peers_step:
  "signal_step strict_framework demo_peers_frame (rtcClient demo_chosen)
   = Inr (dispatch_main (TOnlinePeers [(''p'', ''p''), (''q'', ''q'')]) (rtcClient demo_chosen))"
  by (simp add: signal_step_def demo_peers_frame_def handle_signal_def dispatch_signal_def container_def subscript_def
      normalize_peers_def demo_peer_def demo_chosen_fields Let_def dispatch_main_def
      start_def setupWebSocket_def setupPeerConnection_def receiveSignal_def client_init_def)

lemma demo_listed_reachable: "(app_step demo_keeps)\<^sup>*\<^sup>* demo_app demo_listed"
proof -
  have "app_step demo_keeps demo_chosen demo_notified"
    unfolding demo_notified_def by (rule background, rule bg_signal, rule demo_peers_step)
  moreover have "app_step demo_keeps demo_notified demo_listed" unfolding demo_listed_def by (rule main_thread)
  ultimately show ?thesis using demo_chosen_reachable by (meson rtranclp.rtrancl_into_rtrancl)
qed

lemma demo_listed_fields:
  "onlinePeers (sendVC demo_listed) = [(''p'', ''p''), (''q'', ''q'')]" "selectedFileURL (sendVC demo_listed) = Some demo_url"
  "rtcClient demo_listed = start (client_init demo_files)" "pendingPeerIP demo_listed = None" "pendingAutoSend demo_listed = False"
  "selectedPeerRow (sendVC demo_listed) = - 1"
proof -
  have n: "concat (map normalize_peer (map peer_dict [(''p'', ''p''), (''q'', ''q'')])) = [(''p'', ''p''), (''q'', ''q'')]"
    by (simp add: peer_dict_def Let_def)
  have c: "run_main (rtcClient demo_notified) = (start (client_init demo_files), [DidUpdateOnlinePeers [(''p'', ''p''), (''q'', ''q'')]])"
    by (simp add: demo_notified_def demo_chosen_fields run_main_def dispatch_main_def
        start_def setupWebSocket_def setupPeerConnection_def receiveSignal_def client_init_def)
  have e: "expectingPeerListRefreshAck demo_notified = False"
    by (simp add: demo_notified_def demo_chosen_def demo_app_def app_eval)
  have d: "demo_listed = demo_notified\<lparr>rtcClient := start (client_init demo_files),
      sendVC := applyOnlinePeers demo_keeps (map peer_dict [(''p'', ''p''), (''q'', ''q'')]) (sendVC demo_notified)\<rparr>"
    by (simp add: demo_listed_def run_main_block_def c didUpdateOnlinePeers_def e on_send_view_def Let_def)
  have "currentSelectedPeerIP (sendVC demo_notified) = None"
    by (auto simp: demo_notified_def demo_chosen_fields currentSelectedPeerIP_def Let_def)
  then have "new_row (map peer_dict [(''p'', ''p''), (''q'', ''q'')]) (sendVC demo_notified) = - 1" by (simp add: new_row_def)
  then show "selectedPeerRow (sendVC demo_listed) = - 1"
    using applyOnlinePeers_row(2) [of demo_keeps "map peer_dict [(''p'', ''p''), (''q'', ''q'')]" "sendVC demo_notified"]
    by (auto simp: d)
  show "onlinePeers (sendVC demo_listed) = [(''p'', ''p''), (''q'', ''q'')]"
    unfolding d by (simp add: applyOnlinePeers_settled(2) n del: map_map list.map)
qed (simp_all add: demo_notified_def demo_chosen_fields demo_listed_def run_main_block_def run_main_def dispatch_main_def didUpdateOnlinePeers_def
      start_def setupWebSocket_def setupPeerConnection_def receiveSignal_def client_init_def Let_def on_send_view_def)

theorem select_peer_outcome_witness:
  "signalOut (rtcClient (app_handle demo_keeps (SelectRow 1) demo_listed)) = [pair_request_json ''q'']"
  using select_peer_outcome [OF demo_listed_reachable [unfolded demo_app_eq], of 1]
  by (simp add: demo_listed_fields demo_keeps_def requests_def hasFile_def demo_url_def isDataChannelOpen_def
      readyState_of_def start_def setupWebSocket_def setupPeerConnection_def receiveSignal_def client_init_def Let_def)

end
