(* ===== verification/App_Behaviour.thy ===== *)
theory App_Behaviour
  imports Transfer_App
begin

text \<open>
  Courses of events in the application of \<open>Transfer_App\<close>: the automatic send when a channel opens, what becomes of a
  refused request, the end of a transfer and an offer that is withdrawn while its save panel is open.
\<close>

section \<open>The automatic send\<close>

text \<open>A file can be offered: the channel takes it, no transfer is under way, the file is not empty.\<close>

definition can_offer :: "url \<Rightarrow> client \<Rightarrow> bool" where
  "can_offer u c \<longleftrightarrow> isDataChannelOpen c \<and> channel_takes c \<and> sendHandle c = None \<and> recvHandle c = None \<and>
     file_size (url_path u) c \<noteq> 0"

definition offer_of :: "url \<Rightarrow> client \<Rightarrow> data_buffer" where
  "offer_of u c = Text (Some (ft_offer (lastPathComponent u) (file_size (url_path u) c) (chunkSize c)))"

definition offering :: "url \<Rightarrow> client \<Rightarrow> client" where
  "offering u c = c\<lparr>transferCancelled := False, sendHandle := Some (url_path u, 0),
     sendTotalBytes := file_size (url_path u) c, sendBytesSent := 0, dcOut := dcOut c @ [offer_of u c]\<rparr>"

lemma sendFileAtURL_offers:
  assumes "can_offer u c"
  shows "sendFileAtURL (url_path u) (Some (lastPathComponent u)) None c = (SendYes, offering u c)"
proof -
  have "channel_takes (c\<lparr>transferCancelled := False, sendHandle := h, sendTotalBytes := m, sendBytesSent := n\<rparr>)" for h m n
    using assms by (simp add: can_offer_def channel_takes_def)
  with assms show ?thesis
    by (simp add: can_offer_def sendFileAtURL_def offering_def offer_of_def sendControlJSON_def sendData_def Let_def)
qed

definition sending_pane :: "send_view \<Rightarrow> send_view" where
  "sending_pane v = setSendingInProgress True (setSendingInProgress True (setSendStatusText WaitingConfirmation v))"

lemma onSend_offers:
  assumes "selectedFileURL (sendVC a) = Some u" and "\<not> hasDirectoryPath u" and "can_offer u (rtcClient a)"
  shows "onSend None a = on_send_view sending_pane (on_client (offering u) a)"
proof -
  have "isDataChannelOpen (rtcClient a)" using assms(3) by (simp add: can_offer_def)
  with assms sendFileAtURL_offers [OF assms(3)] show ?thesis
    by (simp add: onSend_def sending_pane_def [abs_def] on_client_def)
qed

lemma run_state_change:
  assumes "mainQ (rtcClient a) = TStateDidChange st # q"
  shows "app_handle keeps (RunMain now open_err) a = dataChannelStateDidChange open_err st (on_client (mainQ_update (\<lambda>_. q)) a)"
  using assms by (simp add: run_main_block_def run_main_def on_client_def)

lemma can_offer_mainQ [simp]: "can_offer u (c\<lparr>mainQ := q\<rparr>) = can_offer u c" "offer_of u (c\<lparr>mainQ := q\<rparr>) = offer_of u c"
  by (simp_all add: can_offer_def offer_of_def isDataChannelOpen_def readyState_of_def channel_takes_def file_size_def)

lemma open_starts_sending:
  fixes keeps :: "int \<Rightarrow> nat \<Rightarrow> bool" and now :: int
  assumes "pendingAutoSend a" and "selectedFileURL (sendVC a) = Some u" and "\<not> hasDirectoryPath u"
    and "can_offer u (rtcClient a)" and "mainQ (rtcClient a) = TStateDidChange kOpen # q"
  defines "b \<equiv> app_handle keeps (RunMain now None) a"
  shows "rtcClient b = offering u ((rtcClient a)\<lparr>mainQ := q\<rparr>)" and "isSending (sendVC b)" and "\<not> pendingAutoSend b"
    and "alerts b = alerts a"
proof -
  let ?a = "(updateConnectionState (on_client (mainQ_update (\<lambda>_. q)) a))\<lparr>pendingAutoSend := False, pendingPeerIP := None\<rparr>"
  have "onSend None ?a = on_send_view sending_pane (on_client (offering u) ?a)"
    using assms by (intro onSend_offers) (simp_all add: updateConnectionState_def)
  moreover have "b = onSend None ?a"
    using assms unfolding b_def run_state_change [OF assms(5)]
    by (simp add: dataChannelStateDidChange_def Let_def updateConnectionState_def)
  ultimately have b: "b = on_send_view sending_pane (on_client (offering u) ?a)" by simp
  show "rtcClient b = offering u ((rtcClient a)\<lparr>mainQ := q\<rparr>)" "isSending (sendVC b)" "\<not> pendingAutoSend b"
    "alerts b = alerts a"
    unfolding b by (simp_all add: updateConnectionState_def sending_pane_def)
qed

text \<open>
  C15. When the channel opens while a send is pending, the chosen file is offered, once: the block that reports the
  opening sends one offer with the file's name and size and puts the pane into the sending state, and
  a second report of the opening, which the client can post for the same channel, sends nothing and
  raises no alert.
\<close>

theorem autosend_once:
  assumes "pendingAutoSend a" and "selectedFileURL (sendVC a) = Some u" and "\<not> hasDirectoryPath u"
    and "can_offer u (rtcClient a)" and "mainQ (rtcClient a) = TStateDidChange kOpen # TStateDidChange kOpen # q"
  shows "let b = app_handle keeps (RunMain now None) a; d = app_handle keeps (RunMain later open_err) b in
      dcOut (rtcClient b) = dcOut (rtcClient a) @ [offer_of u (rtcClient a)] \<and> isSending (sendVC b)
    \<and> sendHandle (rtcClient b) = Some (url_path u, 0)
    \<and> dcOut (rtcClient d) = dcOut (rtcClient b) \<and> alerts d = alerts a \<and> isSending (sendVC d)"
proof -
  let ?b = "app_handle keeps (RunMain now None) a"
  note b = open_starts_sending [OF assms, where keeps = keeps and now = now]
  have q: "mainQ (rtcClient ?b) = TStateDidChange kOpen # q" unfolding b(1) by (simp add: offering_def)
  have d: "app_handle keeps (RunMain later open_err) ?b = updateConnectionState (on_client (mainQ_update (\<lambda>_. q)) ?b)"
    unfolding run_state_change [OF q] using b(3) by (simp add: dataChannelStateDidChange_def updateConnectionState_def Let_def)
  show ?thesis
    unfolding Let_def d using b by (simp add: updateConnectionState_def offering_def)
qed

definition demo_waiting :: app where
  "demo_waiting = demo_listed\<lparr>pendingAutoSend := True, pendingPeerIP := Some ''q'',
     rtcClient := (rtcClient demo_listed)\<lparr>dataChannel := Some demo_channel, mainQ := [TStateDidChange kOpen, TStateDidChange kOpen]\<rparr>\<rparr>"

lemma demo_can_offer: "can_offer demo_url ((start (client_init demo_files))\<lparr>dataChannel := Some demo_channel, mainQ := q\<rparr>)"
  by (simp add: can_offer_def isDataChannelOpen_def readyState_of_def channel_takes_def demo_channel_def file_size_def demo_files_def
      demo_url_def start_def setupWebSocket_def setupPeerConnection_def receiveSignal_def client_init_def)

theorem autosend_once_witness:
  "dcOut (rtcClient (app_handle demo_keeps (RunMain 0 None) demo_waiting)) = [offer_of demo_url (rtcClient demo_waiting)]"
  using autosend_once [of demo_waiting demo_url "[]" demo_keeps 0 0 None] demo_can_offer
  by (simp add: demo_waiting_def demo_listed_fields demo_url_def Let_def)
    (simp add: start_def setupWebSocket_def setupPeerConnection_def receiveSignal_def client_init_def)

section \<open>A refused request stays pending\<close>

definition error_frame :: "string \<Rightarrow> json option option" where
  "error_frame reason = Some (Some (JObj [(''type'', JStr ''error''), (''reason'', JStr reason)]))"

lemma error_frame_ignored: "handle_signal fw (error_frame reason) c = Inr (c\<lparr>receiveArmed := True\<rparr>)"
  by (simp add: handle_signal_def error_frame_def dispatch_signal_def container_def subscript_def receiveSignal_def Let_def)

lemma onSelectPeerIP_ignored:
  "pendingAutoSend a \<Longrightarrow> pendingPeerIP a = Some ip \<Longrightarrow> \<not> isDataChannelOpen (rtcClient a) \<Longrightarrow> onSelectPeerIP ip a = a"
  by (simp add: onSelectPeerIP_def)

lemma did_open_reports:
  "\<not> isDataChannelOpen c \<Longrightarrow> didOpenDataChannel d c = dispatch_main (TStateDidChange kOpen) (c\<lparr>dataChannel := Some d\<rparr>)"
  by (simp add: didOpenDataChannel_def isDataChannelOpen_def)

text \<open>
  C27. A request that the server refuses is never given up. While a send to a device \<open>ip\<close> is pending and no channel is
  open, an error reply (busy, target not found) changes nothing; asking for the same device again sends
  nothing; and the next channel that opens, whichever device opened it, gets the offer of the chosen file:
  the device remembered for the send is not compared with the one that connected.
\<close>

theorem refused_request_stays_pending:
  assumes "pendingAutoSend a" and "pendingPeerIP a = Some ip" and "\<not> isDataChannelOpen (rtcClient a)"
    and "selectedFileURL (sendVC a) = Some u" and "\<not> hasDirectoryPath u" and "mainQ (rtcClient a) = []"
    and "ready d = kOpen" and "accepts d" and "sendHandle (rtcClient a) = None" and "recvHandle (rtcClient a) = None"
    and "file_size (url_path u) (rtcClient a) \<noteq> 0"
  shows "let c = (rtcClient a)\<lparr>receiveArmed := True\<rparr>; a1 = a\<lparr>rtcClient := c\<rparr>; a2 = onSelectPeerIP ip a1;
           a3 = a2\<lparr>rtcClient := didOpenDataChannel d (rtcClient a2)\<rparr>; a4 = app_handle keeps (RunMain now None) a3 in
      handle_signal fw (error_frame reason) (rtcClient a) = Inr c \<and> a2 = a1
    \<and> dcOut (rtcClient a4) = dcOut (rtcClient a) @ [offer_of u (rtcClient a)] \<and> isSending (sendVC a4)"
proof -
  let ?c = "(rtcClient a)\<lparr>receiveArmed := True\<rparr>"
  let ?a1 = "a\<lparr>rtcClient := ?c\<rparr>" and ?c3 = "?c\<lparr>dataChannel := Some d, mainQ := [TStateDidChange kOpen]\<rparr>"
  let ?a3 = "a\<lparr>rtcClient := ?c3\<rparr>"
  have no: "\<not> isDataChannelOpen ?c" using assms(3) by (simp add: isDataChannelOpen_def readyState_of_def)
  have a2: "onSelectPeerIP ip ?a1 = ?a1" using assms no by (intro onSelectPeerIP_ignored) simp_all
  have open3: "didOpenDataChannel d ?c = ?c3" using did_open_reports [OF no] assms(6) by (simp add: dispatch_main_def)
  have can: "can_offer u ?c3"
    using assms by (simp add: can_offer_def isDataChannelOpen_def readyState_of_def channel_takes_def file_size_def)
  have off: "offer_of u ?c3 = offer_of u (rtcClient a)" by (simp add: offer_of_def file_size_def)
  have "rtcClient (app_handle keeps (RunMain now None) ?a3) = offering u (?c3\<lparr>mainQ := []\<rparr>)"
    "isSending (sendVC (app_handle keeps (RunMain now None) ?a3))"
    using open_starts_sending [of ?a3 u "[]" keeps now] assms can by simp_all
  then show ?thesis
    using a2 open3 off by (simp add: error_frame_ignored Let_def offering_def)
qed

theorem refused_request_stays_pending_witness:
  "isSending (sendVC (app_handle demo_keeps (RunMain 0 None)
     (demo_listed\<lparr>pendingAutoSend := True, pendingPeerIP := Some ''q'',
        rtcClient := didOpenDataChannel demo_channel ((rtcClient demo_listed)\<lparr>receiveArmed := True\<rparr>)\<rparr>)))"
proof -
  let ?a = "demo_listed\<lparr>pendingAutoSend := True, pendingPeerIP := Some ''q''\<rparr>"
  have c: "\<not> isDataChannelOpen (rtcClient ?a)" "mainQ (rtcClient ?a) = []" "sendHandle (rtcClient ?a) = None"
    "recvHandle (rtcClient ?a) = None" "file_size (url_path demo_url) (rtcClient ?a) \<noteq> 0"
    by (simp_all add: demo_listed_fields start_def setupWebSocket_def setupPeerConnection_def receiveSignal_def client_init_def
        isDataChannelOpen_def readyState_of_def file_size_def demo_files_def demo_url_def)
  have s: "onSelectPeerIP ''q'' (?a\<lparr>rtcClient := (rtcClient ?a)\<lparr>receiveArmed := True\<rparr>\<rparr>) = ?a\<lparr>rtcClient := (rtcClient ?a)\<lparr>receiveArmed := True\<rparr>\<rparr>"
    using c(1) by (intro onSelectPeerIP_ignored) (simp_all add: isDataChannelOpen_def readyState_of_def)
  have f: "pendingAutoSend ?a" "pendingPeerIP ?a = Some ''q''" "selectedFileURL (sendVC ?a) = Some demo_url"
    "\<not> hasDirectoryPath demo_url" "ready demo_channel = kOpen" "accepts demo_channel"
    by (simp_all add: demo_listed_fields demo_url_def demo_channel_def)
  note R = refused_request_stays_pending [OF f(1,2) c(1) f(3,4) c(2) f(5,6) c(3,4,5), of demo_keeps 0 strict_framework "''busy''"]
  from R show ?thesis unfolding Let_def s by (simp del: app_handle.simps)
qed

section \<open>The end of a transfer\<close>

text \<open>
  Whatever the outcome and whatever state the panes were in, the end of a transfer leaves both panes idle: not
  sending, progress at zero, no offer to accept, the receiving panel hidden and the remembered offer gone;
  an alert is raised exactly for an error that is not the user's cancellation. The text of the outcome is hidden
  whenever a file is still chosen, so after every completed send it is not seen.
\<close>

theorem finish_resets_panes:
  "let b = fileTransferDidFinish e a in
     \<not> isSending (sendVC b) \<and> sendProgress (sendVC b) = Progress 0 1 \<and> sendProgress_hidden (sendVC b)
   \<and> sendButton_enabled (sendVC b) = hasFile (sendVC a) \<and> \<not> cancelButton_enabled (sendVC b)
   \<and> sendStatusLabel (sendVC b) =
       (case e of None \<Rightarrow> TransferDone | Some er \<Rightarrow> if code er = 10 then TransferCancelled else TransferFailed)
   \<and> sendStatusLabel_hidden (sendVC b) = hasFile (sendVC a)
   \<and> \<not> saveAsButton_enabled (receiveVC b) \<and> \<not> rejectButton_enabled (receiveVC b) \<and> receivingOverlay_hidden (receiveVC b)
   \<and> incomingName b = None \<and> incomingSize b = 0
   \<and> alerts b = alerts a @
       (case e of None \<Rightarrow> [] | Some er \<Rightarrow> if code er = 10 then [] else [AlertTransferEnded (localizedDescription er)])"
  by (cases e) (simp_all add: fileTransferDidFinish_def raise_alert_def on_receive_view_def on_send_view_def resetToIdle_def
      hideReceivingPanel_def setSendStatusText_def setSendingInProgress_def refreshEnabledState_def hasFile_def Let_def)

section \<open>An offer withdrawn while its save panel is open\<close>

definition control :: "json \<Rightarrow> data_buffer" where
  "control j = Text (Some j)"

text \<open>An offer of three bytes comes in, "save as" opens its panel, the sender cancels, and then the panel is confirmed.\<close>

definition receiver_open :: app where
  "receiver_open = demo_app\<lparr>rtcClient := (rtcClient demo_app)\<lparr>dataChannel := Some demo_channel\<rparr>\<rparr>"

definition offered_client :: client where
  "offered_client = (rtcClient receiver_open)\<lparr>incomingFileName := Some ''g'', recvTotalBytes := 3, recvBytesReceived := 0, mainQ := [TReceiveOffered]\<rparr>"

definition receiver_offered :: app where
  "receiver_offered = app_handle demo_keeps (RunMain 0 None) (receiver_open\<lparr>rtcClient := offered_client\<rparr>)"

definition receiver_asking :: app where
  "receiver_asking = app_handle demo_keeps TapSaveAs receiver_offered"

definition withdrawn_client :: client where
  "withdrawn_client = (rtcClient receiver_asking)\<lparr>mainQ := [TCleanup (Some (NSError 13 ''Cancelled/Rejected''))]\<rparr>"

definition receiver_withdrawn :: app where
  "receiver_withdrawn = app_handle demo_keeps (RunMain 0 None) (receiver_asking\<lparr>rtcClient := withdrawn_client\<rparr>)"

definition receiver_confirmed :: app where
  "receiver_confirmed = app_handle demo_keeps (PanelDone 0 (Some demo_url) 0 True None) receiver_withdrawn"

lemma demo_client: "rtcClient demo_app = start (client_init demo_files)"
  by (simp add: demo_app_def app_eval)

lemmas client_eval = start_def setupWebSocket_def setupPeerConnection_def receiveSignal_def client_init_def

lemma offer_arrives:
  "didReceiveMessageWithBuffer None (control (ft_offer ''g'' 3 16384)) (rtcClient receiver_open) = Inr offered_client"
  by (simp add: didReceiveMessageWithBuffer_def control_def ft_offer_def on_text_def container_def on_ft_offer_def ull_value_def
      receiver_open_def offered_client_def demo_client client_eval dispatch_main_def Let_def)

lemma receiver_offered_fields:
  "rtcClient receiver_offered = offered_client\<lparr>mainQ := []\<rparr>" "incomingName receiver_offered = Some ''g''"
  "incomingSize receiver_offered = 3" "saveAsButton_enabled (receiveVC receiver_offered)" "panels receiver_offered = []"
  "hostWindow (receiveVC receiver_offered)"
  by (simp_all add: receiver_offered_def run_main_block_def run_main_def offered_client_def receiver_open_def demo_client client_eval
      fileReceiveOffered_def presentIncomingOffer_def setSelectedItem_def on_receive_view_def hideReceivingPanel_def Let_def
      demo_app_def app_launch_def updateConnectionState_def on_send_view_def)

lemma receiver_asking_fields:
  "receiver_asking = receiver_offered\<lparr>panels := [SavePanel ''g'']\<rparr>"
  by (simp add: receiver_asking_def onAccept_def receiver_offered_fields)

lemma withdrawal_arrives:
  "didReceiveMessageWithBuffer None (control (ft_simple ''ft_cancel'')) (rtcClient receiver_asking) = Inr withdrawn_client"
  by (simp add: didReceiveMessageWithBuffer_def control_def ft_simple_def on_text_def container_def receiver_asking_fields
      withdrawn_client_def cleanupTransferWithError_def dispatch_main_def receiver_offered_fields Let_def)

lemma receiver_withdrawn_fields:
  "rtcClient receiver_withdrawn = reset_transfer (offered_client\<lparr>mainQ := []\<rparr>)" "incomingName receiver_withdrawn = None"
  "incomingSize receiver_withdrawn = 0" "panels receiver_withdrawn = [SavePanel ''g'']" "hostWindow (receiveVC receiver_withdrawn)"
  by (simp_all add: receiver_withdrawn_def run_main_block_def run_main_def withdrawn_client_def receiver_asking_fields
      receiver_offered_fields fileTransferDidFinish_def raise_alert_def on_receive_view_def on_send_view_def resetToIdle_def
      hideReceivingPanel_def Let_def)

lemma receiver_confirmed_reachable: "(app_step demo_keeps)\<^sup>*\<^sup>* (app_launch demo_keeps demo_files []) receiver_confirmed"
proof -
  have "app_step demo_keeps demo_app receiver_open" unfolding receiver_open_def by (rule background) (rule bg_channel)
  moreover have "app_step demo_keeps receiver_open (receiver_open\<lparr>rtcClient := offered_client\<rparr>)"
    by (rule background, rule bg_message, rule offer_arrives)
  moreover have "app_step demo_keeps (receiver_open\<lparr>rtcClient := offered_client\<rparr>) receiver_offered"
    unfolding receiver_offered_def by (rule main_thread)
  moreover have "app_step demo_keeps receiver_offered receiver_asking" unfolding receiver_asking_def by (rule main_thread)
  moreover have "app_step demo_keeps receiver_asking (receiver_asking\<lparr>rtcClient := withdrawn_client\<rparr>)"
    by (rule background, rule bg_message, rule withdrawal_arrives)
  moreover have "app_step demo_keeps (receiver_asking\<lparr>rtcClient := withdrawn_client\<rparr>) receiver_withdrawn"
    unfolding receiver_withdrawn_def by (rule main_thread)
  moreover have "app_step demo_keeps receiver_withdrawn receiver_confirmed" unfolding receiver_confirmed_def by (rule main_thread)
  ultimately show ?thesis unfolding demo_app_eq [symmetric] by (meson rtranclp.rtrancl_into_rtrancl rtranclp.rtrancl_refl)
qed

text \<open>
  The application can reach a state in which the receiving panel covers the window although nothing is being
  received and no offer is remembered: the save panel of an offer that was withdrawn meanwhile is
  confirmed, the client ignores the acceptance and sends nothing, but the pane starts receiving.
\<close>

theorem withdrawn_offer_shows_receiving:
  "\<exists>a. (app_step demo_keeps)\<^sup>*\<^sup>* (app_launch demo_keeps demo_files []) a
     \<and> \<not> receivingOverlay_hidden (receiveVC a) \<and> recvHandle (rtcClient a) = None \<and> incomingName a = None
     \<and> dcOut (rtcClient a) = [] \<and> mainQ (rtcClient a) = []"
proof -
  have "rtcClient receiver_confirmed = reset_transfer (offered_client\<lparr>mainQ := []\<rparr>)"
    "\<not> receivingOverlay_hidden (receiveVC receiver_confirmed)" "incomingName receiver_confirmed = None"
    by (simp_all add: receiver_confirmed_def panel_done_def destination_chosen_def receiver_withdrawn_fields
        acceptIncomingFileToURL_def reset_transfer_def on_client_def on_receive_view_def beginReceiving_def showReceivingPanel_def Let_def)
  moreover have "dcOut (reset_transfer (offered_client\<lparr>mainQ := []\<rparr>)) = []"
    "mainQ (reset_transfer (offered_client\<lparr>mainQ := []\<rparr>)) = []" "recvHandle (reset_transfer (offered_client\<lparr>mainQ := []\<rparr>)) = None"
    by (simp_all add: reset_transfer_def offered_client_def receiver_open_def demo_client client_eval)
  ultimately show ?thesis using receiver_confirmed_reachable by (intro exI [of _ receiver_confirmed]) simp
qed

end
