(* ===== verification/Pairing.thy ===== *)
theory Pairing
  imports Signaling_Server Transfer_App
begin

text \<open>
  The signaling server and two clients together: a request for a connection, the roles the server hands out, and
  the exchange of session descriptions through the server's relay. A turn of the server takes the last message a
  client wrote to its socket; a turn of a client takes the last frame the server wrote to it; a completion
  answers the newest outstanding call of the peer connection.
\<close>

definition server_turn :: "nat \<Rightarrow> client \<Rightarrow> server \<Rightarrow> server" where
  "server_turn i c s = on_message i (Some (last (signalOut c))) s"

definition frame_to :: "nat \<Rightarrow> server \<Rightarrow> json" where
  "frame_to i s = last (map snd (filter (\<lambda>m. fst m = i) (outbox s)))"

definition client_turn :: "framework \<Rightarrow> nat \<Rightarrow> server \<Rightarrow> client \<Rightarrow> crash + client" where
  "client_turn fw i s c = signal_step fw (Frame (Some (Some (frame_to i s)))) c"

definition completion :: "framework \<Rightarrow> pc_result \<Rightarrow> client \<Rightarrow> crash + client" where
  "completion fw r c = signal_step fw (Completion (length (pcPending c) - 1) r) c"

text \<open>The offerer's part up to its offer: the role, the report that the partner has joined, two completions.\<close>

definition offerer_part :: "framework \<Rightarrow> nat \<Rightarrow> server \<Rightarrow> server \<Rightarrow> string \<Rightarrow> client \<Rightarrow> crash + client" where
  "offerer_part fw w s1 s2 offer a =
     bindE (client_turn fw w s1 a) (\<lambda>a1.
     bindE (client_turn fw w s2 a1) (\<lambda>a2.
     bindE (completion fw (ResultSdp SdpOffer offer) a2) (\<lambda>a3.
     completion fw ResultOk a3)))"

text \<open>The answerer's part: the role and the offer, then three completions up to its answer.\<close>

definition answerer_part :: "framework \<Rightarrow> nat \<Rightarrow> server \<Rightarrow> server \<Rightarrow> string \<Rightarrow> client \<Rightarrow> crash + client" where
  "answerer_part fw t s1 s3 answer b =
     bindE (client_turn fw t s1 b) (\<lambda>b1.
     bindE (client_turn fw t s3 b1) (\<lambda>b2.
     bindE (completion fw ResultOk b2) (\<lambda>b3.
     bindE (completion fw (ResultSdp SdpAnswer answer) b3) (\<lambda>b4.
     completion fw ResultOk b4))))"

text \<open>The whole negotiation, with no other traffic in between.\<close>

definition negotiate ::
  "framework \<Rightarrow> nat \<Rightarrow> nat \<Rightarrow> string \<Rightarrow> string \<Rightarrow> string \<Rightarrow> server \<Rightarrow> client \<Rightarrow> client
   \<Rightarrow> crash + server \<times> client \<times> client" where
  "negotiate fw w t key offer answer s a b =
     (let a0 = connectToPeerIP (Some key) a;
          s1 = server_turn w a0 s;
          s2 = (case timers s1 of [] \<Rightarrow> s1 | wt # rest \<Rightarrow> on_timeout wt (s1\<lparr>timers := rest\<rparr>))
      in bindE (offerer_part fw w s1 s2 offer a0) (\<lambda>a1.
         let s3 = server_turn w a1 s2
         in bindE (answerer_part fw t s1 s3 answer b) (\<lambda>b1.
            let s4 = server_turn t b1 s3
            in bindE (client_turn fw w s4 a1) (\<lambda>a2.
               bindE (completion fw ResultOk a2) (\<lambda>a3. Inr (s4, a3, b1))))))"

section \<open>The messages\<close>

definition offerer_role :: "string \<Rightarrow> json" where
  "offerer_role self = JObj [(''type'', JStr ''role''), (''role'', JStr ''offerer''), (''selfIP'', JStr self)]"

definition answerer_role :: "string \<Rightarrow> string \<Rightarrow> json" where
  "answerer_role self peer =
     JObj [(''type'', JStr ''role''), (''role'', JStr ''answerer''), (''selfIP'', JStr self), (''peerIP'', JStr peer)]"

definition joined :: "string \<Rightarrow> json" where
  "joined peer = JObj [(''type'', JStr ''peer_joined''), (''peerIP'', JStr peer)]"

definition sdp_message :: "string \<Rightarrow> string \<Rightarrow> json" where
  "sdp_message ty sdp = JObj [(''type'', JStr ty), (''sdp'', JStr sdp)]"

text \<open>Two free sockets, the second listed under \<open>key\<close>; nothing armed.\<close>

definition can_pair :: "nat \<Rightarrow> nat \<Rightarrow> string \<Rightarrow> server \<Rightarrow> bool" where
  "can_pair w t key s \<longleftrightarrow> w \<noteq> t \<and> key \<noteq> '''' \<and> map_of (clientsByIP s) key = Some t \<and> is_open s w \<and> is_open s t \<and>
     partner_of s w = None \<and> partner_of s t = None \<and> timers s = []"

definition fresh_client :: "client \<Rightarrow> bool" where
  "fresh_client c \<longleftrightarrow> peerConnection c \<and> socket c \<and> pcPending c = []"

definition paired :: "nat \<Rightarrow> nat \<Rightarrow> server \<Rightarrow> bool" where
  "paired w t s \<longleftrightarrow> w \<noteq> t \<and> is_open s w \<and> is_open s t \<and> partner_of s w = Some t \<and> partner_of s t = Some w"

lemma frame_to_append [simp]:
  "frame_to i (s\<lparr>outbox := xs @ [(j, m)]\<rparr>) = (if i = j then m else frame_to i (s\<lparr>outbox := xs\<rparr>))"
  by (simp add: frame_to_def)

lemma pair_request_pairs:
  assumes "can_pair w t key s"
  defines "s1 \<equiv> on_message w (Some (pair_request_json key)) s"
  shows "paired w t s1" "timers s1 = [(w, t)]" "frame_to w s1 = offerer_role (ip_of s w)"
    "frame_to t s1 = answerer_role (ip_of s t) (ip_of s w)" "ip_of s1 = ip_of s"
proof -
  obtain cw ct where c: "conns s w = Some cw" "conns s t = Some ct" "readyState cw = OPEN" "readyState ct = OPEN"
    using assms(1) by (auto simp: can_pair_def is_open_def split: option.splits)
  have s1: "s1 = pair_request w (Some (JStr key)) s" by (simp add: s1_def on_message_def pair_request_json_def)
  note d = pair_request_def lookup_target_def can_pair_def upd_conn_def is_open_def partner_of_def ip_of_def ws_send_def Let_def
  show "paired w t s1" "timers s1 = [(w, t)]" "frame_to w s1 = offerer_role (ip_of s w)"
    "frame_to t s1 = answerer_role (ip_of s t) (ip_of s w)"
    using assms(1) c by (auto simp: s1 d paired_def frame_to_def offerer_role_def answerer_role_def)
  show "ip_of s1 = ip_of s" using assms(1) c by (auto simp: s1 d fun_eq_iff)
qed
lemma timeout_reports:
  assumes "paired w t s1" and "timers s1 = [(w, t)]"
  defines "s2 \<equiv> (case timers s1 of [] \<Rightarrow> s1 | wt # rest \<Rightarrow> on_timeout wt (s1\<lparr>timers := rest\<rparr>))"
  shows "paired w t s2" "frame_to w s2 = joined (ip_of s1 t)"
proof -
  have "s2 = ws_send w (joined (ip_of s1 t)) (s1\<lparr>timers := []\<rparr>)"
    using assms by (simp add: s2_def on_timeout_def paired_def is_open_def joined_def ip_of_def)
  then show "paired w t s2" "frame_to w s2 = joined (ip_of s1 t)"
    using assms(1) by (simp_all add: paired_def is_open_def partner_of_def ws_send_def frame_to_def)
qed

lemma relay_delivers:
  assumes "paired i j s"
  shows "ty = ''offer'' \<or> ty = ''answer'' \<Longrightarrow> on_message i (Some (sdp_message ty sdp)) s = ws_send j (sdp_message ty sdp) s"
    and "frame_to j (ws_send j m s) = m" and "paired i j (ws_send j m s)"
  using assms by (auto simp: on_message_def sdp_message_def relay_def paired_def ws_send_def frame_to_def
      is_open_def partner_of_def)

lemma paired_sym: "paired i j s = paired j i s"
  by (auto simp: paired_def)

section \<open>The clients' turns\<close>

lemmas turn_defs = client_turn_def signal_step_def handle_signal_def dispatch_signal_def container_def subscript_def Let_def

lemma offerer_turn:
  "frame_to w s = offerer_role self \<Longrightarrow>
   client_turn fw w s c = Inr (c\<lparr>isOfferer := True, selfIP := Some (JStr self), receiveArmed := True\<rparr>)"
  by (simp add: turn_defs offerer_role_def on_role_def not_null_def receiveSignal_def)

lemma answerer_turn:
  "frame_to t s = answerer_role self peer \<Longrightarrow>
   client_turn fw t s c =
     Inr (c\<lparr>isOfferer := False, selfIP := Some (JStr self), peerIP := Some (JStr peer), receiveArmed := True\<rparr>)"
  by (simp add: turn_defs answerer_role_def on_role_def not_null_def receiveSignal_def)

lemma joined_turn:
  "frame_to w s = joined peer \<Longrightarrow> isOfferer c \<Longrightarrow>
   client_turn fw w s c =
     Inr ((createOffer (c\<lparr>receiveArmed := False, peerIP := Some (JStr peer)\<rparr>))\<lparr>receiveArmed := True\<rparr>)"
  by (simp add: turn_defs joined_def on_peer_joined_def not_null_def receiveSignal_def)

lemma offer_turn:
  "frame_to t s = sdp_message ''offer'' sdp \<Longrightarrow> peerConnection c \<Longrightarrow>
   client_turn fw t s c =
     Inr (c\<lparr>pcLog := pcLog c @ [SetRemoteDescription SdpOffer (Some (JStr sdp))],
            pcPending := pcPending c @ [OfferRemoteSet], receiveArmed := True\<rparr>)"
  by (simp add: turn_defs sdp_message_def pc_async_def receiveSignal_def)

lemma answer_turn:
  "frame_to w s = sdp_message ''answer'' sdp \<Longrightarrow> peerConnection c \<Longrightarrow>
   client_turn fw w s c =
     Inr (c\<lparr>pcLog := pcLog c @ [SetRemoteDescription SdpAnswer (Some (JStr sdp))],
            pcPending := pcPending c @ [AnswerRemoteSet], receiveArmed := True\<rparr>)"
  by (simp add: turn_defs sdp_message_def pc_async_def receiveSignal_def)

lemma completion_newest:
  "pcPending c = hs @ [h] \<Longrightarrow> completion fw r c = Inr (complete h r (c\<lparr>pcPending := hs\<rparr>))"
  by (simp add: completion_def signal_step_def)

lemma fold_add_candidates:
  "peerConnection c \<Longrightarrow>
   fold (\<lambda>k. pc_do (AddIceCandidate k)) ks c = c\<lparr>pcLog := pcLog c @ map AddIceCandidate ks\<rparr>"
  by (induction ks arbitrary: c) (simp_all add: pc_do_def)

lemma flush_adds:
  "peerConnection c \<Longrightarrow>
   flush_candidates c = c\<lparr>hasRemoteDescription := True, pendingCandidates := [],
     pcLog := pcLog c @ map AddIceCandidate (pendingCandidates c)\<rparr>"
  by (simp add: flush_candidates_def fold_add_candidates)

text \<open>The offerer has created its channel and sent its offer; its peer connection has nothing outstanding.\<close>

definition offered :: "client \<Rightarrow> string \<Rightarrow> client \<Rightarrow> bool" where
  "offered a sdp a' \<longleftrightarrow> isOfferer a' \<and> fresh_client a' \<and> pendingCandidates a' = pendingCandidates a \<and>
     (\<exists>out. signalOut a' = out @ [sdp_message ''offer'' sdp]) \<and>
     pcLog a' = pcLog a @ [DataChannelForLabel ''chat'' True (- 1), OfferForConstraints, SetLocalDescription SdpOffer sdp] \<and>
     dataChannel a' = Some \<lparr>ready = kConnecting, bufferedAmount = 0, accepts = False\<rparr>"

lemma offerer_part_offers:
  assumes "fresh_client a" and "frame_to w s1 = offerer_role self" and "frame_to w s2 = joined peer"
  shows "\<exists>a'. offerer_part fw w s1 s2 sdp a = Inr a' \<and> offered a sdp a'"
  using assms
  by (simp add: offerer_part_def offerer_turn joined_turn createOffer_def pc_do_def pc_async_def fresh_client_def Let_def
      completion_newest [where hs = "[]"] sendSignalingJSONObject_def offered_def sdp_message_def)

definition answered :: "client \<Rightarrow> string \<Rightarrow> string \<Rightarrow> client \<Rightarrow> bool" where
  "answered b offer answer b' \<longleftrightarrow> \<not> isOfferer b' \<and> hasRemoteDescription b' \<and> pendingCandidates b' = [] \<and>
     (\<exists>out. signalOut b' = out @ [sdp_message ''answer'' answer]) \<and>
     pcLog b' = pcLog b @ [SetRemoteDescription SdpOffer (Some (JStr offer))] @ map AddIceCandidate (pendingCandidates b)
       @ [AnswerForConstraints, SetLocalDescription SdpAnswer answer]"

lemma answerer_part_answers:
  assumes "fresh_client b" and "frame_to t s1 = answerer_role self peer" and "frame_to t s3 = sdp_message ''offer'' sdp"
  shows "\<exists>b'. answerer_part fw t s1 s3 answer b = Inr b' \<and> answered b sdp answer b'"
  using assms
  by (simp add: answerer_part_def answerer_turn offer_turn fresh_client_def completion_newest [where hs = "[]"] flush_adds
      pc_async_def sendSignalingJSONObject_def answered_def sdp_message_def)

lemma offerer_accepts:
  assumes "fresh_client a" and "frame_to w s4 = sdp_message ''answer'' sdp"
  shows "\<exists>a2 a3. client_turn fw w s4 a = Inr a2 \<and> completion fw ResultOk a2 = Inr a3 \<and>
    isOfferer a3 = isOfferer a \<and> hasRemoteDescription a3 \<and> pendingCandidates a3 = [] \<and> dataChannel a3 = dataChannel a \<and>
    pcLog a3 = pcLog a @ [SetRemoteDescription SdpAnswer (Some (JStr sdp))] @ map AddIceCandidate (pendingCandidates a)"
  using assms by (simp add: answer_turn fresh_client_def completion_newest [where hs = "[]"] flush_adds)

lemma connect_fresh:
  assumes "fresh_client a" and "key \<noteq> ''''"
  shows "fresh_client (connectToPeerIP (Some key) a)" "last (signalOut (connectToPeerIP (Some key) a)) = pair_request_json key"
    "pcLog (connectToPeerIP (Some key) a) = pcLog a" "pendingCandidates (connectToPeerIP (Some key) a) = pendingCandidates a"
  using assms by (simp_all add: fresh_client_def connect_sends)

section \<open>The negotiation succeeds\<close>

text \<open>
  C3. The server and two clients complete a negotiation: if both sockets are open and free and the second is listed under the
  key the first asks for, the run never crashes and ends with the sockets paired, exactly the requester in the
  role of the offerer and holding a new channel, and both peer connections configured with the
  session descriptions of the other side: each has set its own description as local and the other's as remote, in the order the
  protocol prescribes, followed by the candidates that had arrived early, of which none is left
  queued.
\<close>

theorem negotiation_succeeds:
  assumes "can_pair w t key s" and "fresh_client a" and "fresh_client b"
  shows "\<exists>s' a' b'. negotiate fw w t key offer answer s a b = Inr (s', a', b')
    \<and> partner_of s' w = Some t \<and> partner_of s' t = Some w
    \<and> isOfferer a' \<and> \<not> isOfferer b' \<and> dataChannel a' \<noteq> None
    \<and> hasRemoteDescription a' \<and> hasRemoteDescription b' \<and> pendingCandidates a' = [] \<and> pendingCandidates b' = []
    \<and> pcLog a' = pcLog a
        @ [DataChannelForLabel ''chat'' True (- 1), OfferForConstraints, SetLocalDescription SdpOffer offer,
           SetRemoteDescription SdpAnswer (Some (JStr answer))] @ map AddIceCandidate (pendingCandidates a)
    \<and> pcLog b' = pcLog b @ [SetRemoteDescription SdpOffer (Some (JStr offer))] @ map AddIceCandidate (pendingCandidates b)
        @ [AnswerForConstraints, SetLocalDescription SdpAnswer answer]"
proof -
  have key: "key \<noteq> ''''" using assms(1) by (simp add: can_pair_def)
  define a0 s1 s2 where "a0 = connectToPeerIP (Some key) a" and "s1 = server_turn w a0 s"
    and "s2 = (case timers s1 of [] \<Rightarrow> s1 | wt # rest \<Rightarrow> on_timeout wt (s1\<lparr>timers := rest\<rparr>))"
  note a0 = connect_fresh [OF assms(2) key, folded a0_def]
  have "s1 = on_message w (Some (pair_request_json key)) s" by (simp add: s1_def server_turn_def a0)
  note s1 = pair_request_pairs [OF assms(1), folded this]
  note s2 = timeout_reports [OF s1(1,2), folded s2_def]
  obtain a1 where a1: "offerer_part fw w s1 s2 offer a0 = Inr a1" "offered a0 offer a1"
    using offerer_part_offers [OF a0(1) s1(3) s2(2)] by blast
  define s3 where "s3 = server_turn w a1 s2"
  have "last (signalOut a1) = sdp_message ''offer'' offer" using a1(2) by (auto simp: offered_def)
  then have "s3 = ws_send t (sdp_message ''offer'' offer) s2"
    using relay_delivers(1) [OF s2(1)] by (simp add: s3_def server_turn_def)
  with relay_delivers(2,3) [OF s2(1)] have s3: "frame_to t s3 = sdp_message ''offer'' offer" "paired t w s3"
    by (simp_all add: paired_sym)
  obtain b1 where b1: "answerer_part fw t s1 s3 answer b = Inr b1" "answered b offer answer b1"
    using answerer_part_answers [OF assms(3) s1(4) s3(1)] by blast
  define s4 where "s4 = server_turn t b1 s3"
  have "last (signalOut b1) = sdp_message ''answer'' answer" using b1(2) by (auto simp: answered_def)
  then have "s4 = ws_send w (sdp_message ''answer'' answer) s3"
    using relay_delivers(1) [OF s3(2)] by (simp add: s4_def server_turn_def)
  with relay_delivers(2,3) [OF s3(2)] have s4: "frame_to w s4 = sdp_message ''answer'' answer" "paired t w s4" by simp_all
  have f: "fresh_client a1" "isOfferer a1" "pendingCandidates a1 = pendingCandidates a"
    "dataChannel a1 = Some \<lparr>ready = kConnecting, bufferedAmount = 0, accepts = False\<rparr>"
    "pcLog a1 = pcLog a @ [DataChannelForLabel ''chat'' True (- 1), OfferForConstraints, SetLocalDescription SdpOffer offer]"
    using a1(2) a0 by (simp_all add: offered_def)
  obtain a2 a3 where a3: "client_turn fw w s4 a1 = Inr a2" "completion fw ResultOk a2 = Inr a3"
    "isOfferer a3" "hasRemoteDescription a3" "pendingCandidates a3 = []" "dataChannel a3 \<noteq> None"
    "pcLog a3 = pcLog a1 @ [SetRemoteDescription SdpAnswer (Some (JStr answer))] @ map AddIceCandidate (pendingCandidates a)"
    using offerer_accepts [OF f(1) s4(1), of fw] f by auto
  have "negotiate fw w t key offer answer s a b = Inr (s4, a3, b1)"
    unfolding negotiate_def Let_def a0_def [symmetric] s1_def [symmetric] s2_def [symmetric]
    by (simp only: a1 bindE.simps s3_def [symmetric] b1 s4_def [symmetric] a3)
  with s4(2) a3 f b1(2) show ?thesis by (auto simp: paired_def answered_def)
qed

theorem negotiation_succeeds_witness:
  "\<exists>s' a' b'. negotiate strict_framework 1 2 ''b'' ''o'' ''r'' demo_connected (start (client_init (\<lambda>_. None))) (start (client_init (\<lambda>_. None)))
     = Inr (s', a', b') \<and> isOfferer a' \<and> \<not> isOfferer b'"
proof -
  have "can_pair 1 2 ''b'' demo_connected"
    by (simp add: can_pair_def is_open_def partner_of_def demo_connected_conns)
  moreover have "fresh_client (start (client_init (\<lambda>_. None)))"
    by (simp add: fresh_client_def start_def setupWebSocket_def setupPeerConnection_def receiveSignal_def client_init_def)
  ultimately show ?thesis
    using negotiation_succeeds [of 1 2 "''b''" demo_connected _ _ strict_framework "''o''" "''r''"] by blast
qed

end
