(* ===== verification/Sequence_Numbers.thy ===== *)
theory Sequence_Numbers
  imports Prelude
begin

text \<open>
  Wrapping arithmetic, comparison and unwrapping of sequence numbers
  (\<^verbatim>\<open>rtc_base/numerics/mod_ops.h\<close>, \<^verbatim>\<open>sequence_number_util.h\<close>, \<^verbatim>\<open>sequence_number_unwrapper.h\<close>,
  \<^verbatim>\<open>modules/include/module_common_types_public.h\<close>). The type parameter \<^verbatim>\<open>T\<close> is a word type; the
  modulus \<^verbatim>\<open>M\<close> is an argument, 0 standing for the full range of \<^verbatim>\<open>T\<close>. A failed \<^verbatim>\<open>RTC_DCHECK\<close> and a
  64-bit overflow of the unwrapped value are errors.
\<close>

section \<open>Modular arithmetic\<close>

definition Add :: "u64 \<Rightarrow> u64 \<Rightarrow> u64 \<Rightarrow> abort + u64" where
  "Add M a b =
     check (a < M) (let t = M - b mod M; res = a - t in Inr (if t > a then res + M else res))"

definition Subtract :: "u64 \<Rightarrow> u64 \<Rightarrow> u64 \<Rightarrow> abort + u64" where
  "Subtract M a b =
     check (a < M) (let sub = b mod M in Inr (if a < sub then M - (sub - a) else a - sub))"

definition ForwardDiff :: "'a::len word \<Rightarrow> 'a word \<Rightarrow> 'a word \<Rightarrow> abort + 'a word" where
  "ForwardDiff M a b =
     (if M = 0 then Inr (b - a)
      else check (a < M) (check (b < M) (Inr (if a \<le> b then b - a else M - (a - b)))))"

definition ReverseDiff :: "'a::len word \<Rightarrow> 'a word \<Rightarrow> 'a word \<Rightarrow> abort + 'a word" where
  "ReverseDiff M a b =
     (if M = 0 then Inr (a - b)
      else check (a < M) (check (b < M) (Inr (if b \<le> a then a - b else M - (b - a)))))"

definition MinDiff :: "'a::len word \<Rightarrow> 'a word \<Rightarrow> 'a word \<Rightarrow> abort + 'a word" where
  "MinDiff M a b = bindE (ForwardDiff M a b) (\<lambda>f. bindE (ReverseDiff M a b) (\<lambda>r. Inr (min f r)))"

section \<open>Comparison\<close>

text \<open>
  \<^verbatim>\<open>a - b == m\<close>: operands narrower than \<^verbatim>\<open>int\<close> are promoted, so their difference does not wrap.
\<close>

definition promoted_diff_is :: "'a::len word \<Rightarrow> 'a word \<Rightarrow> 'a word \<Rightarrow> bool" where
  "promoted_diff_is a b m \<longleftrightarrow>
     (if LENGTH('a) < 32 then uint a - uint b = uint m else a - b = m)"

definition AheadOrAt :: "'a::len word \<Rightarrow> 'a word \<Rightarrow> 'a word \<Rightarrow> abort + bool" where
  "AheadOrAt M a b =
     (if M = 0 then
        let maxDist = (- 1) div 2 + 1
        in if promoted_diff_is a b maxDist then Inr (b < a)
           else bindE (ForwardDiff 0 b a) (\<lambda>d. Inr (d < maxDist))
      else
        let maxDist = M div 2
        in bindE (if even M then bindE (MinDiff M a b) (\<lambda>d. Inr (d = maxDist)) else Inr False) (\<lambda>far.
             if far then Inr (b < a)
             else bindE (ForwardDiff M b a) (\<lambda>d. Inr (d \<le> maxDist))))"

definition AheadOf :: "'a::len word \<Rightarrow> 'a word \<Rightarrow> 'a word \<Rightarrow> abort + bool" where
  "AheadOf M a b = (if a \<noteq> b then AheadOrAt M a b else Inr False)"

definition AscendingSeqNumComp :: "'a::len word \<Rightarrow> 'a word \<Rightarrow> 'a word \<Rightarrow> abort + bool" where
  "AscendingSeqNumComp M a b = AheadOf M a b"

definition DescendingSeqNumComp :: "'a::len word \<Rightarrow> 'a word \<Rightarrow> 'a word \<Rightarrow> abort + bool" where
  "DescendingSeqNumComp M a b = AheadOf M b a"

definition IsNewer :: "'a::len word \<Rightarrow> 'a word \<Rightarrow> bool" where
  "IsNewer v prev =
     (let kBreakpoint = drop_bit 1 (- 1) + 1
      in if promoted_diff_is v prev kBreakpoint then v > prev
         else v \<noteq> prev \<and> v - prev < kBreakpoint)"

definition IsNewerSequenceNumber :: "u16 \<Rightarrow> u16 \<Rightarrow> bool" where
  "IsNewerSequenceNumber v prev = IsNewer v prev"

definition IsNewerTimestamp :: "u32 \<Rightarrow> u32 \<Rightarrow> bool" where
  "IsNewerTimestamp v prev = IsNewer v prev"

definition LatestSequenceNumber :: "u16 \<Rightarrow> u16 \<Rightarrow> u16" where
  "LatestSequenceNumber a b = (if IsNewerSequenceNumber a b then a else b)"

definition LatestTimestamp :: "u32 \<Rightarrow> u32 \<Rightarrow> u32" where
  "LatestTimestamp a b = (if IsNewerTimestamp a b then a else b)"

section \<open>Unwrapping\<close>

record 't unwrapper =
  last_unwrapped :: int
  last_value :: "'t option"

definition unwrapper_init :: "'a::len word unwrapper" where
  "unwrapper_init = \<lparr>last_unwrapped = 0, last_value = None\<rparr>"

definition seq_modulus :: "'a::len word \<Rightarrow> int" where
  "seq_modulus M = (if M = 0 then 2 ^ LENGTH('a) else uint M)"

definition Delta :: "'a::len word \<Rightarrow> 'a word \<Rightarrow> 'a word \<Rightarrow> abort + int" where
  "Delta M old new =
     bindE (ForwardDiff M old new) (\<lambda>d.
     bindE (AheadOrAt M new old) (\<lambda>ahead.
     Inr (if \<not> ahead then uint d - seq_modulus M else uint d)))"

definition Unwrap :: "'a::len word \<Rightarrow> 'a word \<Rightarrow> 'a word unwrapper \<Rightarrow> abort + (int \<times> 'a word unwrapper)" where
  "Unwrap M v s =
     bindE
       (case last_value s of
          None \<Rightarrow> Inr (uint v)
        | Some l \<Rightarrow> bindE (Delta M l v) (\<lambda>d. i64 (last_unwrapped s + d)))
       (\<lambda>u. Inr (u, \<lparr>last_unwrapped = u, last_value = Some v\<rparr>))"

definition PeekUnwrap :: "'a::len word \<Rightarrow> 'a word \<Rightarrow> 'a word unwrapper \<Rightarrow> abort + int" where
  "PeekUnwrap M v s =
     (case last_value s of
        None \<Rightarrow> Inr (uint v)
      | Some l \<Rightarrow> bindE (Delta M l v) (\<lambda>d. i64 (last_unwrapped s + d)))"

definition Reset :: "'a::len word unwrapper \<Rightarrow> 'a word unwrapper" where
  "Reset s = unwrapper_init"

fun unwrap_all :: "'a::len word \<Rightarrow> 'a word list \<Rightarrow> 'a word unwrapper \<Rightarrow> abort + int list" where
  "unwrap_all M [] s = Inr []"
| "unwrap_all M (v # vs) s =
     bindE (Unwrap M v s) (\<lambda>(u, s'). bindE (unwrap_all M vs s') (\<lambda>us. Inr (u # us)))"

section \<open>Addition and subtraction are exact\<close>

lemma u64_mod_uint: "uint (a mod b :: u64) = uint a mod uint b"
  by (rule uint_mod_distrib)

lemma uint_less_minus:
  fixes a b :: "'a::len word"
  assumes "b \<le> a"
  shows "uint (a - b) = uint a - uint b"
  using assms by (rule uint_minus_simple_alt [THEN iffD1])

lemma u64_residue:
  fixes a b M :: u64
  assumes "a < M"
  shows "uint a < uint M" "uint M < 2 ^ 64" "0 \<le> uint b mod uint M" "uint b mod uint M < uint M"
proof -
  show lt: "uint a < uint M" using assms by (simp add: word_less_def)
  then have "0 < uint M" using uint_ge_0 [of a] by linarith
  then show "0 \<le> uint b mod uint M" "uint b mod uint M < uint M" by simp_all
  show "uint M < 2 ^ 64" using uint_lt2p [of M] by simp
qed

lemma Add_exact:
  assumes "a < M"
  shows "Add M a b = Inr (word_of_int ((uint a + uint b) mod uint M))"
proof -
  define m where "m = uint M"
  define r where "r = uint b mod m"
  note m = u64_residue(1,2) [OF assms, folded m_def] u64_residue(3,4) [OF assms, of b, folded m_def, folded r_def]
  have t: "M - b mod M = word_of_int (m - r)"
    by (simp add: m_def r_def word_of_int_eq_iff wi_hom_sub [symmetric] u64_mod_uint flip: word_mod_def)
  have ut: "uint (M - b mod M) = m - r"
    unfolding t uint_word_of_int using m by (simp add: mod_near)
  have lt: "(M - b mod M > a) = (m - r > uint a)" by (simp add: word_less_def ut)
  have wa: "a - (M - b mod M) = word_of_int (uint a - (m - r))"
    unfolding t by (simp add: wi_hom_sub [symmetric])
  have wb: "a - (M - b mod M) + M = word_of_int (uint a - (m - r) + m)"
    unfolding wa by (simp add: m_def wi_hom_add [symmetric])
  have "(uint a + uint b) mod m = (uint a + r) mod m" by (simp add: r_def mod_simps)
  also have "\<dots> = (if m - r > uint a then uint a - (m - r) + m else uint a - (m - r))"
    using m by (intro mod_add_residue) simp_all
  finally show ?thesis using assms unfolding Add_def Let_def lt wa wb by (auto simp: m_def)
qed

lemma Subtract_exact:
  assumes "a < M"
  shows "Subtract M a b = Inr (word_of_int ((uint a - uint b) mod uint M))"
proof -
  define m where "m = uint M"
  define r where "r = uint b mod m"
  note m = u64_residue(1,2) [OF assms, folded m_def] u64_residue(3,4) [OF assms, of b, folded m_def, folded r_def]
  have br: "uint (b mod M) = r" by (simp add: r_def m_def u64_mod_uint)
  have wr: "b mod M = word_of_int r" by (simp flip: br)
  have lt: "(a < b mod M) = (uint a < r)" by (simp add: word_less_def br)
  have wa: "a - b mod M = word_of_int (uint a - r)" unfolding wr by (simp add: wi_hom_sub [symmetric])
  have wb: "M - (b mod M - a) = word_of_int (uint a - r + m)"
    unfolding wr by (simp add: m_def wi_hom_sub [symmetric] wi_hom_add [symmetric])
  have "(uint a - uint b) mod m = (uint a - r) mod m" by (simp add: r_def mod_simps)
  also have "\<dots> = (if uint a < r then uint a - r + m else uint a - r)"
    using m by (intro mod_diff_residue) simp_all
  finally show ?thesis using assms unfolding Subtract_def Let_def lt wa wb by (auto simp: m_def)
qed

text \<open>
  Modular addition and subtraction. Below the modulus both return the exact residue, although
  the intermediate difference wraps around and \<open>a + b\<close> itself may exceed 64 bits; a first argument
  at or above the modulus fails the check.
\<close>

theorem mod_add_subtract_exact:
  "Add M a b = (if a < M then Inr (word_of_int ((uint a + uint b) mod uint M)) else Inl CheckFailed)
   \<and> Subtract M a b = (if a < M then Inr (word_of_int ((uint a - uint b) mod uint M)) else Inl CheckFailed)"
  by (simp add: Add_exact Subtract_exact) (simp add: Add_def Subtract_def check_def)

section \<open>Differences as residues\<close>

text \<open>The sequence number of an integer position.\<close>

definition seq_of :: "'a::len word \<Rightarrow> int \<Rightarrow> 'a word" where
  "seq_of M x = word_of_int (x mod seq_modulus M)"

lemma seq_modulus_pos [simp]: "0 < seq_modulus M"
  by (simp add: seq_modulus_def word_neq_0_conv word_less_def flip: word_gt_0)

lemma seq_modulus_le: "seq_modulus (M :: 'a::len word) \<le> 2 ^ LENGTH('a)"
  using uint_lt2p [of M] by (auto simp: seq_modulus_def intro: less_imp_le)

lemma uint_seq_of: "uint (seq_of M x) = x mod seq_modulus M"
  for M :: "'a::len word"
proof -
  have "0 \<le> x mod seq_modulus M" "x mod seq_modulus M < 2 ^ LENGTH('a)"
    by simp (rule less_le_trans [OF pos_mod_bound [OF seq_modulus_pos] seq_modulus_le])
  then show ?thesis by (simp add: seq_of_def uint_word_of_int mod_near)
qed

lemma seq_of_less: "M \<noteq> 0 \<Longrightarrow> seq_of M x < M"
  using pos_mod_bound [OF seq_modulus_pos, of x M]
  unfolding word_less_def uint_seq_of by (auto simp: seq_modulus_def split: if_splits)

lemma seq_of_uint: "M = 0 \<or> v < M \<Longrightarrow> seq_of M (uint v) = v"
  using uint_lt2p [of v]
  by (intro word_uint_eqI) (auto simp: uint_seq_of seq_modulus_def word_less_def mod_near)

lemma uint_residue_diff:
  fixes M :: "'a::len word"
  assumes "M \<noteq> 0"
  shows "uint (if seq_of M x \<le> seq_of M y then seq_of M y - seq_of M x else M - (seq_of M x - seq_of M y))
    = (y - x) mod seq_modulus M"
proof -
  let ?N = "seq_modulus M" and ?a = "x mod seq_modulus M" and ?b = "y mod seq_modulus M"
  have N: "?N = uint M" using assms by (simp add: seq_modulus_def)
  have ab: "0 \<le> ?a" "?a < ?N" "0 \<le> ?b" "?b < ?N" by simp_all
  have r: "(y - x) mod ?N = (if ?b < ?a then ?b - ?a + ?N else ?b - ?a)"
    using mod_diff_residue [OF ab(3,4,1,2)] by (simp add: mod_simps)
  show ?thesis
  proof (cases "seq_of M x \<le> seq_of M y")
    case True
    then show ?thesis using r by (auto simp: uint_less_minus uint_seq_of word_le_def)
  next
    case False
    then have 1: "uint (seq_of M x - seq_of M y) = ?a - ?b" "?b < ?a"
      by (auto simp: uint_less_minus uint_seq_of word_le_def)
    have "seq_of M x - seq_of M y \<le> M" using 1 ab unfolding word_le_def N [symmetric] by linarith
    then have "uint (M - (seq_of M x - seq_of M y)) = ?N - (?a - ?b)" by (simp add: uint_less_minus 1 N)
    with False r 1 show ?thesis by simp
  qed
qed

lemma ForwardDiff_seq_of: "ForwardDiff M (seq_of M x) (seq_of M y) = Inr (seq_of M (y - x))"
proof (cases "M = 0")
  case True
  have "seq_of M y - seq_of M x = seq_of M (y - x)"
    using True by (intro word_uint_eqI) (simp add: uint_word_ariths uint_seq_of seq_modulus_def mod_simps)
  with True show ?thesis by (simp add: ForwardDiff_def)
next
  case False
  with uint_residue_diff [OF False, of x y] show ?thesis
    by (auto simp: ForwardDiff_def seq_of_less intro!: word_uint_eqI simp: uint_seq_of)
qed

lemma ReverseDiff_swap: "ReverseDiff M a b = ForwardDiff M b a"
  by (auto simp: ReverseDiff_def ForwardDiff_def check_def)

lemma MinDiff_seq_of: "MinDiff M (seq_of M x) (seq_of M y) = Inr (min (seq_of M (y - x)) (seq_of M (x - y)))"
  by (simp add: MinDiff_def ReverseDiff_swap ForwardDiff_seq_of)

section \<open>Comparison near and far\<close>

lemma half_range: "(- 1 :: 'a::len word) div 2 + 1 = drop_bit 1 (- 1) + 1"
  by (simp add: drop_bit_eq_div)

lemma uint_half: "uint ((- 1 :: 'a::len word) div 2 + 1) = 2 ^ (LENGTH('a) - 1)"
  unfolding half_range by (rule uint_half_range)

lemma promoted_diff_uint:
  fixes a b m :: "'a::len word"
  assumes "promoted_diff_is a b m"
  shows "(uint a - uint b) mod 2 ^ LENGTH('a) = uint m"
proof (cases "LENGTH('a) < 32")
  case True
  with assms have "uint a - uint b = uint m" by (simp add: promoted_diff_is_def)
  then show ?thesis by (simp add: mod_near uint_lt2p)
next
  case False
  with assms show ?thesis by (auto simp: promoted_diff_is_def uint_word_ariths)
qed

text \<open>
  What the comparison decides: less than half the range forward is ahead, more is behind, and at
  exactly half the greater value is ahead.
\<close>

definition ahead_or_at :: "'a::len word \<Rightarrow> 'a word \<Rightarrow> 'a word \<Rightarrow> bool" where
  "ahead_or_at M a b \<longleftrightarrow>
     (let d = (uint a - uint b) mod seq_modulus M
      in if 2 * d = seq_modulus M then b < a else 2 * d < seq_modulus M)"

definition seq_valid :: "'a::len word \<Rightarrow> 'a word \<Rightarrow> bool" where
  "seq_valid M a \<longleftrightarrow> M = 0 \<or> a < M"

lemma seq_of_valid [simp]: "seq_valid M (seq_of M x)"
  using seq_of_less by (auto simp: seq_valid_def)

lemma AheadOrAt_full:
  fixes a b :: "'a::len word"
  shows "AheadOrAt 0 a b = Inr (ahead_or_at 0 a b)"
proof -
  let ?N = "2 ^ LENGTH('a) :: int" and ?h = "2 ^ (LENGTH('a) - 1) :: int"
  have N: "seq_modulus (0 :: 'a word) = ?N" by (simp add: seq_modulus_def)
  have h: "?N = 2 * ?h" by (rule pow_half [symmetric])
  define d where "d = (uint a - uint b) mod ?N"
  have lt: "(a - b < (- 1) div 2 + 1) = (d < ?h)"
    unfolding word_less_def uint_half d_def by (simp only: uint_word_ariths)
  have far: "d = ?h" if "promoted_diff_is a b ((- 1) div 2 + 1)"
    using promoted_diff_uint [OF that] by (simp only: uint_half d_def)
  have "b < a \<longrightarrow> promoted_diff_is a b ((- 1) div 2 + 1)" if "d = ?h"
  proof
    assume "b < a"
    then have "uint (a - b) = uint a - uint b" by (intro uint_less_minus) simp
    moreover have "uint (a - b) = ?h" using that by (simp add: uint_word_ariths d_def)
    ultimately show "promoted_diff_is a b ((- 1) div 2 + 1)"
      unfolding promoted_diff_is_def word_uint_eq_iff uint_half by simp
  qed
  with far lt h show ?thesis
    unfolding AheadOrAt_def ahead_or_at_def Let_def N ForwardDiff_def d_def [symmetric] by auto
qed

lemma AheadOrAt_mod:
  fixes a b M :: "'a::len word"
  assumes "M \<noteq> 0" "a < M" "b < M"
  shows "AheadOrAt M a b = Inr (ahead_or_at M a b)"
proof -
  let ?N = "seq_modulus M"
  have N: "?N = uint M" using assms(1) by (simp add: seq_modulus_def)
  have h: "uint (M div 2) = ?N div 2"
  proof (cases "2 \<le> LENGTH('a)")
    case False
    then have L: "LENGTH('a) = 1" using len_gt_0 [where 'a = 'a] by linarith
    then have "uint M < 2" using uint_lt2p [of M] by simp
    moreover have "uint (M div 2) = 0" using L by (simp add: uint_div_distrib)
    ultimately show ?thesis using uint_ge_0 [of M] unfolding N by simp
  qed (simp add: N uint_div_distrib)
  have ev: "even M = even ?N" by (simp add: N even_uint)
  define d where "d = (uint a - uint b) mod ?N"
  have s: "a = seq_of M (uint a)" "b = seq_of M (uint b)" using assms by (simp_all add: seq_of_uint)
  have F: "ForwardDiff M a b = Inr (seq_of M (uint b - uint a))" "ForwardDiff M b a = Inr (seq_of M (uint a - uint b))"
    using ForwardDiff_seq_of [of M "uint a" "uint b"] ForwardDiff_seq_of [of M "uint b" "uint a"] s by simp_all
  have d: "0 \<le> d" "d < ?N" by (simp_all add: d_def)
  have d': "(uint b - uint a) mod ?N = (if d = 0 then 0 else ?N - d)"
    using zmod_zminus1_eq_if [of "uint a - uint b" ?N] by (simp add: d_def)
  have u: "uint (min (seq_of M (uint b - uint a)) (seq_of M (uint a - uint b))) = (if 2 * d \<le> ?N then d else ?N - d)"
    using d d' by (auto simp: min_def word_le_def uint_seq_of d_def [symmetric])
  have far: "(min (seq_of M (uint b - uint a)) (seq_of M (uint a - uint b)) = M div 2) = (2 * d = ?N)" if "even M"
    unfolding word_uint_eq_iff u h using that d unfolding ev by auto
  have le: "(seq_of M (uint a - uint b) \<le> M div 2) = (d \<le> ?N div 2)"
    by (simp only: word_le_def h uint_seq_of d_def)
  have odd: "2 * d \<noteq> ?N" if "odd M" using that ev by (metis dvd_triv_left)
  have half: "(d \<le> ?N div 2) = (2 * d < ?N \<or> 2 * d = ?N)" by presburger
  show ?thesis
  proof (cases "even M")
    case True
    show ?thesis
      using assms(1) True
      by (simp add: AheadOrAt_def Let_def MinDiff_def ReverseDiff_swap F far le half ahead_or_at_def d_def [symmetric])
  next
    case False
    show ?thesis
      using assms(1) False odd
      by (simp add: AheadOrAt_def Let_def F le half ahead_or_at_def d_def [symmetric])
  qed
qed

lemma AheadOrAt_char: "seq_valid M a \<Longrightarrow> seq_valid M b \<Longrightarrow> AheadOrAt M a b = Inr (ahead_or_at M a b)"
  by (cases "M = 0") (auto simp: seq_valid_def AheadOrAt_full AheadOrAt_mod)

lemma AheadOf_char:
  "seq_valid M a \<Longrightarrow> seq_valid M b \<Longrightarrow> AheadOf M a b = Inr (a \<noteq> b \<and> ahead_or_at M a b)"
  by (simp add: AheadOf_def AheadOrAt_char)

lemma ahead_or_at_near:
  assumes "2 * \<bar>x - y\<bar> < seq_modulus M"
  shows "ahead_or_at M (seq_of M x) (seq_of M y) \<longleftrightarrow> y \<le> x"
proof -
  have "(uint (seq_of M x) - uint (seq_of M y)) mod seq_modulus M = (x - y) mod seq_modulus M"
    by (simp add: uint_seq_of mod_simps)
  also have "\<dots> = (if y \<le> x then x - y else x - y + seq_modulus M)"
    using assms by (auto intro: mod_near)
  finally show ?thesis using assms by (auto simp: ahead_or_at_def)
qed

lemma AheadOf_total:
  assumes v: "seq_valid M a" "seq_valid M b" "a \<noteq> b"
  shows "\<exists>x. AheadOf M a b = Inr x \<and> AheadOf M b a = Inr (\<not> x)"
proof -
  define d where "d = (uint a - uint b) mod seq_modulus M"
  have d: "0 \<le> d" "d < seq_modulus M" by (simp_all add: d_def)
  have d': "(uint b - uint a) mod seq_modulus M = (if d = 0 then 0 else seq_modulus M - d)"
    using zmod_zminus1_eq_if [of "uint a - uint b" "seq_modulus M"] by (simp add: d_def)
  have "d \<noteq> 0"
  proof
    assume "d = 0"
    then have "uint a mod seq_modulus M = uint b mod seq_modulus M" by (simp add: d_def mod_eq_dvd_iff mod_0_imp_dvd)
    moreover have "seq_of M (uint a) = a" "seq_of M (uint b) = b" using v by (simp_all add: seq_valid_def seq_of_uint)
    ultimately show False using v(3) by (metis seq_of_def)
  qed
  with d d' v show ?thesis by (auto simp: AheadOf_char ahead_or_at_def d_def [symmetric])
qed

lemma ahead_or_at_refl: "ahead_or_at M a a"
  using seq_modulus_pos [of M] by (simp add: ahead_or_at_def less_imp_neq)

lemma AheadOf_near:
  assumes near: "2 * \<bar>x - y\<bar> < seq_modulus M"
  shows "AheadOf M (seq_of M x) (seq_of M y) = Inr (y < x)"
proof -
  have near': "2 * \<bar>y - x\<bar> < seq_modulus M" using near by (simp add: abs_minus_commute)
  have "seq_of M x = seq_of M y \<longleftrightarrow> x = y"
    using ahead_or_at_near [OF near] ahead_or_at_near [OF near'] ahead_or_at_refl [of M "seq_of M x"]
    by (metis order_antisym)
  then show ?thesis using ahead_or_at_near [OF near] by (simp add: AheadOf_char) linarith
qed

text \<open>
  Comparison of sequence numbers, for every unsigned type and modulus. Of two different valid
  numbers exactly one is ahead of the other; and for positions less than half the range apart the
  comparison is the order of the positions, however often the numbers have wrapped in between.
\<close>

theorem ahead_of_order:
  fixes a b M :: "'a::len word"
  shows "(seq_valid M a \<and> seq_valid M b \<and> a \<noteq> b \<longrightarrow>
      (\<exists>x. AheadOf M a b = Inr x \<and> AheadOf M b a = Inr (\<not> x)))
    \<and> (2 * \<bar>x - y\<bar> < seq_modulus M \<longrightarrow> AheadOf M (seq_of M x) (seq_of M y) = Inr (y < x))"
  using AheadOf_total AheadOf_near by blast

theorem ahead_of_order_witness:
  "AheadOf (0 :: u16) 2 65533 = Inr True \<and> AheadOf (0 :: u16) 65533 2 = Inr False"
proof -
  have s: "seq_of (0 :: u16) 65533 = 65533" "seq_of (0 :: u16) 65538 = 2"
    by (simp_all add: seq_of_def seq_modulus_def)
  have "seq_modulus (0 :: u16) = 65536" by (simp add: seq_modulus_def)
  with ahead_of_order [where M = "0 :: u16" and x = 65538 and y = 65533 and a = 2 and b = 65533]
  show ?thesis by (auto simp: s seq_valid_def)
qed

lemma AheadOf_IsNewer: "AheadOf 0 v p = Inr (IsNewer v p)"
  unfolding AheadOf_def AheadOrAt_def IsNewer_def half_range ForwardDiff_def Let_def by auto

lemma IsNewer_total: "v \<noteq> p \<Longrightarrow> IsNewer v p = (\<not> IsNewer p v)"
  using AheadOf_total [of 0 v p] by (simp add: seq_valid_def AheadOf_IsNewer)

lemma IsNewer_irrefl [simp]: "\<not> IsNewer v v"
  using AheadOf_IsNewer [of v v] by (simp add: AheadOf_def)

text \<open>
  The two comparisons of the code base agree: \<^verbatim>\<open>IsNewer\<close> of \<^verbatim>\<open>module_common_types_public.h\<close> is
  \<^verbatim>\<open>AheadOf\<close> of \<^verbatim>\<open>sequence_number_util.h\<close> over the full range, for every unsigned type, including the
  types that C promotes to \<^verbatim>\<open>int\<close>; and the latest of two numbers does not depend on their order.
\<close>

theorem is_newer_is_ahead_of:
  "AheadOf 0 (v :: 'a::len word) prev = Inr (IsNewer v prev)
   \<and> LatestSequenceNumber a b = LatestSequenceNumber b a \<and> LatestTimestamp t u = LatestTimestamp u t"
  using AheadOf_IsNewer IsNewer_total [of a b] IsNewer_total [of t u]
  by (auto simp: LatestSequenceNumber_def LatestTimestamp_def IsNewerSequenceNumber_def IsNewerTimestamp_def)

section \<open>Unwrapping recovers the positions\<close>

text \<open>
  What a wrapped number space offers an unwrapper: the number of a position, and a signed distance
  that is right for positions less than half the space apart.
\<close>

locale wrapped_space =
  fixes modulus :: int
    and number :: "int \<Rightarrow> 'n"
    and distance :: "'n \<Rightarrow> 'n \<Rightarrow> abort + int"
  assumes distance_near: "2 * \<bar>y - x\<bar> < modulus \<Longrightarrow> distance (number x) (number y) = Inr (y - x)"
begin

text \<open>Summing the distances along a track of near positions gives the positions back.\<close>

fun track :: "int \<Rightarrow> 'n \<Rightarrow> 'n list \<Rightarrow> abort + int list" where
  "track u l [] = Inr []"
| "track u l (v # vs) = bindE (distance l v) (\<lambda>d. bindE (track (u + d) v vs) (\<lambda>us. Inr ((u + d) # us)))"

lemma track_near:
  "successively (\<lambda>x y. 2 * \<bar>y - x\<bar> < modulus) (x # xs) \<Longrightarrow> track x (number x) (map number xs) = Inr xs"
proof (induction xs arbitrary: x)
  case (Cons y ys)
  then have "2 * \<bar>y - x\<bar> < modulus" "successively (\<lambda>x y. 2 * \<bar>y - x\<bar> < modulus) (y # ys)"
    by simp_all
  with Cons.IH [of y] show ?case by (simp add: distance_near)
qed simp

end

lemma Delta_near:
  assumes "2 * \<bar>y - x\<bar> < seq_modulus M"
  shows "Delta M (seq_of M x) (seq_of M y) = Inr (y - x)"
proof -
  have "(y - x) mod seq_modulus M = (if x \<le> y then y - x else y - x + seq_modulus M)"
    using assms by (auto intro: mod_near)
  then show ?thesis
    using AheadOrAt_char [of M "seq_of M y" "seq_of M x"] ahead_or_at_near [OF assms]
    by (simp add: Delta_def ForwardDiff_seq_of uint_seq_of)
qed

interpretation seqnum: wrapped_space "seq_modulus M" "seq_of M" "Delta M" for M
  by unfold_locales (rule Delta_near)

lemma unwrap_all_track:
  assumes "seqnum.track M u l vs = Inr us" and "\<forall>z\<in>set us. in_i64 z"
  shows "unwrap_all M vs \<lparr>last_unwrapped = u, last_value = Some l\<rparr> = Inr us"
  using assms
proof (induction vs arbitrary: u l us)
  case (Cons v vs)
  then obtain d us' where d: "Delta M l v = Inr d" "seqnum.track M (u + d) v vs = Inr us'" "us = (u + d) # us'"
    by auto
  with Cons.IH [OF d(2)] Cons.prems(2) show ?case by (simp add: Unwrap_def)
qed simp

text \<open>
  C18. The unwrapper recovers positions. Feed it the wrapped numbers of a track of positions that starts
  within the range and moves by less than half the range at a time, forwards or backwards: it returns
  exactly the positions, as long as they fit in 64 bits. This holds for every unsigned type and modulus.
\<close>

theorem unwrap_recovers_positions:
  assumes "successively (\<lambda>x y. 2 * \<bar>y - x\<bar> < seq_modulus M) (x # xs)"
    and "0 \<le> x" and "x < seq_modulus M" and "\<forall>z\<in>set xs. in_i64 z"
  shows "unwrap_all M (map (seq_of M) (x # xs)) unwrapper_init = Inr (x # xs)"
proof -
  have "uint (seq_of M x) = x" using assms(2,3) by (simp add: uint_seq_of mod_near)
  with unwrap_all_track [OF seqnum.track_near [OF assms(1)] assms(4)]
  show ?thesis by (simp add: Unwrap_def unwrapper_init_def)
qed

theorem unwrap_recovers_positions_witness:
  "unwrap_all (0 :: u16) [65534, 1, 40, 65535, 30000, 60000, 24464] unwrapper_init
     = Inr [65534, 65537, 65576, 65535, 95536, 125536, 155536]"
proof -
  let ?xs = "[65537, 65576, 65535, 95536, 125536, 155536] :: int list"
  have "seq_modulus (0 :: u16) = 65536" by (simp add: seq_modulus_def)
  then have "unwrap_all (0 :: u16) (map (seq_of 0) (65534 # ?xs)) unwrapper_init = Inr (65534 # ?xs)"
    by (intro unwrap_recovers_positions) (simp_all add: in_i64_def)
  then show ?thesis by (simp add: seq_of_def seq_modulus_def)
qed

end
