(* ===== verification/Byte_IO.thy ===== *)
theory Byte_IO
  imports Prelude
begin

text \<open>
  Integers as bytes: \<^verbatim>\<open>ByteReader\<close> and \<^verbatim>\<open>ByteWriter\<close> (\<^verbatim>\<open>modules/rtp_rtcp/source/byte_io.h\<close>) and the
  memory accessors of \<^verbatim>\<open>rtc_base/byte_order.h\<close>. Memory is a byte list; touching bytes outside it is
  an error. \<^verbatim>\<open>T\<close> is a word type, \<^verbatim>\<open>B\<close> the number of bytes; a signed \<^verbatim>\<open>T\<close> is the integer its word
  denotes in two's complement.
\<close>

unbundle bit_operations_syntax

section \<open>ByteReader and ByteWriter, general case\<close>

definition InternalReadBigEndian :: "nat \<Rightarrow> byte list \<Rightarrow> 'a::len word" where
  "InternalReadBigEndian B data =
     foldl (\<lambda>val i. val OR push_bit ((B - 1 - i) * 8) (ucast (data ! i))) 0 [0..<B]"

definition InternalReadLittleEndian :: "nat \<Rightarrow> byte list \<Rightarrow> 'a::len word" where
  "InternalReadLittleEndian B data =
     foldl (\<lambda>val i. val OR push_bit (i * 8) (ucast (data ! i))) 0 [0..<B]"

definition InternalWriteBigEndian :: "nat \<Rightarrow> 'a::len word \<Rightarrow> byte list \<Rightarrow> byte list" where
  "InternalWriteBigEndian B val data =
     foldl (\<lambda>d i. d[i := ucast (drop_bit ((B - 1 - i) * 8) val)]) data [0..<B]"

definition InternalWriteLittleEndian :: "nat \<Rightarrow> 'a::len word \<Rightarrow> byte list \<Rightarrow> byte list" where
  "InternalWriteLittleEndian B val data =
     foldl (\<lambda>d i. d[i := ucast (drop_bit (i * 8) val)]) data [0..<B]"

section \<open>Specializations\<close>

text \<open>One, two, four and eight bytes. \<open>get\<close> is the cast of one byte to \<^verbatim>\<open>T\<close>.\<close>

abbreviation get :: "byte list \<Rightarrow> nat \<Rightarrow> 'a::len word" where
  "get data i \<equiv> ucast (data ! i)"

definition Read1 :: "byte list \<Rightarrow> 'a::len word" where
  "Read1 data = get data 0"

definition ReadBigEndian2 :: "byte list \<Rightarrow> 'a::len word" where
  "ReadBigEndian2 data = ucast (push_bit 8 (get data 0) OR get data 1 :: u32)"

definition ReadLittleEndian2 :: "byte list \<Rightarrow> 'a::len word" where
  "ReadLittleEndian2 data = ucast (get data 0 OR push_bit 8 (get data 1) :: u32)"

definition ReadBigEndian4 :: "byte list \<Rightarrow> 'a::len word" where
  "ReadBigEndian4 data =
     push_bit 24 (get data 0) OR push_bit 16 (get data 1) OR push_bit 8 (get data 2) OR get data 3"

definition ReadLittleEndian4 :: "byte list \<Rightarrow> 'a::len word" where
  "ReadLittleEndian4 data =
     get data 0 OR push_bit 8 (get data 1) OR push_bit 16 (get data 2) OR push_bit 24 (get data 3)"

definition ReadBigEndian8 :: "byte list \<Rightarrow> 'a::len word" where
  "ReadBigEndian8 data =
     push_bit 56 (get data 0) OR push_bit 48 (get data 1) OR push_bit 40 (get data 2) OR
     push_bit 32 (get data 3) OR push_bit 24 (get data 4) OR push_bit 16 (get data 5) OR
     push_bit 8 (get data 6) OR get data 7"

definition ReadLittleEndian8 :: "byte list \<Rightarrow> 'a::len word" where
  "ReadLittleEndian8 data =
     get data 0 OR push_bit 8 (get data 1) OR push_bit 16 (get data 2) OR
     push_bit 24 (get data 3) OR push_bit 32 (get data 4) OR push_bit 40 (get data 5) OR
     push_bit 48 (get data 6) OR push_bit 56 (get data 7)"

definition Write1 :: "'a::len word \<Rightarrow> byte list \<Rightarrow> byte list" where
  "Write1 val data = data[0 := ucast val]"

definition WriteBigEndian2 :: "'a::len word \<Rightarrow> byte list \<Rightarrow> byte list" where
  "WriteBigEndian2 val data = data[0 := ucast (drop_bit 8 val), 1 := ucast val]"

definition WriteLittleEndian2 :: "'a::len word \<Rightarrow> byte list \<Rightarrow> byte list" where
  "WriteLittleEndian2 val data = data[0 := ucast val, 1 := ucast (drop_bit 8 val)]"

definition WriteBigEndian4 :: "'a::len word \<Rightarrow> byte list \<Rightarrow> byte list" where
  "WriteBigEndian4 val data =
     data[0 := ucast (drop_bit 24 val), 1 := ucast (drop_bit 16 val),
          2 := ucast (drop_bit 8 val), 3 := ucast val]"

definition WriteLittleEndian4 :: "'a::len word \<Rightarrow> byte list \<Rightarrow> byte list" where
  "WriteLittleEndian4 val data =
     data[0 := ucast val, 1 := ucast (drop_bit 8 val),
          2 := ucast (drop_bit 16 val), 3 := ucast (drop_bit 24 val)]"

definition WriteBigEndian8 :: "'a::len word \<Rightarrow> byte list \<Rightarrow> byte list" where
  "WriteBigEndian8 val data =
     data[0 := ucast (drop_bit 56 val), 1 := ucast (drop_bit 48 val),
          2 := ucast (drop_bit 40 val), 3 := ucast (drop_bit 32 val),
          4 := ucast (drop_bit 24 val), 5 := ucast (drop_bit 16 val),
          6 := ucast (drop_bit 8 val), 7 := ucast val]"

definition WriteLittleEndian8 :: "'a::len word \<Rightarrow> byte list \<Rightarrow> byte list" where
  "WriteLittleEndian8 val data =
     data[0 := ucast val, 1 := ucast (drop_bit 8 val),
          2 := ucast (drop_bit 16 val), 3 := ucast (drop_bit 24 val),
          4 := ucast (drop_bit 32 val), 5 := ucast (drop_bit 40 val),
          6 := ucast (drop_bit 48 val), 7 := ucast (drop_bit 56 val)]"

section \<open>The classes\<close>

text \<open>
  Which body \<^verbatim>\<open>ByteReader<T, B, false>\<close> selects. The static assertion on the sizes fails to
  compile otherwise and is the hypothesis \<open>8 * B \<le> LENGTH('a)\<close> of the theorems.
\<close>

definition ReadBigEndian :: "nat \<Rightarrow> byte list \<Rightarrow> abort + 'a::len word" where
  "ReadBigEndian B data =
     (if length data < B then Inl OutOfBounds
      else Inr (if B = 1 then Read1 data else if B = 2 then ReadBigEndian2 data
                else if B = 4 then ReadBigEndian4 data else if B = 8 then ReadBigEndian8 data
                else InternalReadBigEndian B data))"

definition ReadLittleEndian :: "nat \<Rightarrow> byte list \<Rightarrow> abort + 'a::len word" where
  "ReadLittleEndian B data =
     (if length data < B then Inl OutOfBounds
      else Inr (if B = 1 then Read1 data else if B = 2 then ReadLittleEndian2 data
                else if B = 4 then ReadLittleEndian4 data else if B = 8 then ReadLittleEndian8 data
                else InternalReadLittleEndian B data))"

definition WriteBigEndian :: "nat \<Rightarrow> 'a::len word \<Rightarrow> byte list \<Rightarrow> abort + byte list" where
  "WriteBigEndian B val data =
     (if length data < B then Inl OutOfBounds
      else Inr (if B = 1 then Write1 val data else if B = 2 then WriteBigEndian2 val data
                else if B = 4 then WriteBigEndian4 val data else if B = 8 then WriteBigEndian8 val data
                else InternalWriteBigEndian B val data))"

definition WriteLittleEndian :: "nat \<Rightarrow> 'a::len word \<Rightarrow> byte list \<Rightarrow> abort + byte list" where
  "WriteLittleEndian B val data =
     (if length data < B then Inl OutOfBounds
      else Inr (if B = 1 then Write1 val data else if B = 2 then WriteLittleEndian2 val data
                else if B = 4 then WriteLittleEndian4 val data else if B = 8 then WriteLittleEndian8 val data
                else InternalWriteLittleEndian B val data))"

text \<open>
  The signed classes. The mask of \<open>SignExtend\<close> shifts the \<^verbatim>\<open>int\<close> literal 1, which is undefined from
  32 bits on. \<open>ReinterpretAsSigned\<close> masks the top bit out and adds the least value back.
\<close>

definition SignExtend :: "nat \<Rightarrow> 'a::len word \<Rightarrow> abort + 'a word" where
  "SignExtend B val =
     (let kMsb = ucast (drop_bit ((B - 1) * 8) val) :: byte
      in if kMsb AND 0x80 \<noteq> 0 then
           (let n = B mod (LENGTH('a) div 8) * 8
            in if n \<ge> 32 then Inl BadShift
               else Inr (NOT (scast (push_bit n 1 - 1 :: 32 word)) OR val))
         else Inr val)"

definition ReinterpretAsSigned :: "'a::len word \<Rightarrow> int" where
  "ReinterpretAsSigned u =
     (let top = push_bit (LENGTH('a) - 1) 1
      in if u AND top \<noteq> 0 then uint (u AND NOT top) - 2 ^ (LENGTH('a) - 1) else uint u)"

definition ReinterpretAsUnsigned :: "int \<Rightarrow> 'a::len word" where
  "ReinterpretAsUnsigned v = word_of_int v"

definition ReadBigEndianSigned :: "'a::len itself \<Rightarrow> nat \<Rightarrow> byte list \<Rightarrow> abort + int" where
  "ReadBigEndianSigned T B data =
     bindE (ReadBigEndian B data) (\<lambda>u :: 'a word.
     bindE (if B < LENGTH('a) div 8 then SignExtend B u else Inr u) (\<lambda>w. Inr (ReinterpretAsSigned w)))"

definition ReadLittleEndianSigned :: "'a::len itself \<Rightarrow> nat \<Rightarrow> byte list \<Rightarrow> abort + int" where
  "ReadLittleEndianSigned T B data =
     bindE (ReadLittleEndian B data) (\<lambda>u :: 'a word.
     bindE (if B < LENGTH('a) div 8 then SignExtend B u else Inr u) (\<lambda>w. Inr (ReinterpretAsSigned w)))"

definition WriteBigEndianSigned :: "'a::len itself \<Rightarrow> nat \<Rightarrow> int \<Rightarrow> byte list \<Rightarrow> abort + byte list" where
  "WriteBigEndianSigned T B v data = WriteBigEndian B (ReinterpretAsUnsigned v :: 'a word) data"

definition WriteLittleEndianSigned :: "'a::len itself \<Rightarrow> nat \<Rightarrow> int \<Rightarrow> byte list \<Rightarrow> abort + byte list" where
  "WriteLittleEndianSigned T B v data = WriteLittleEndian B (ReinterpretAsUnsigned v :: 'a word) data"

section \<open>The specializations are the general case\<close>

lemma upt_small: "[0..<2] = [0, 1 :: nat]" "[0..<4] = [0, 1, 2, 3 :: nat]"
  "[0..<8] = [0, 1, 2, 3, 4, 5, 6, 7 :: nat]"
  by (simp_all add: upt_conv_Cons)

lemma read_special:
  "Read1 data = InternalReadBigEndian 1 data" "Read1 data = InternalReadLittleEndian 1 data"
  "ReadBigEndian4 data = InternalReadBigEndian 4 data" "ReadLittleEndian4 data = InternalReadLittleEndian 4 data"
  "ReadBigEndian8 data = InternalReadBigEndian 8 data" "ReadLittleEndian8 data = InternalReadLittleEndian 8 data"
  by (simp_all add: Read1_def ReadBigEndian4_def ReadLittleEndian4_def ReadBigEndian8_def ReadLittleEndian8_def
      InternalReadBigEndian_def InternalReadLittleEndian_def upt_small or.assoc)

lemma read_special2:
  "ReadBigEndian2 data = InternalReadBigEndian 2 data" "ReadLittleEndian2 data = InternalReadLittleEndian 2 data"
  by (rule bit_word_eqI; auto simp: ReadBigEndian2_def ReadLittleEndian2_def InternalReadBigEndian_def
      InternalReadLittleEndian_def upt_small bit_simps dest: bit_imp_le_length)+

lemma write_special:
  "Write1 val data = InternalWriteBigEndian 1 val data" "Write1 val data = InternalWriteLittleEndian 1 val data"
  "WriteBigEndian2 val data = InternalWriteBigEndian 2 val data"
  "WriteLittleEndian2 val data = InternalWriteLittleEndian 2 val data"
  "WriteBigEndian4 val data = InternalWriteBigEndian 4 val data"
  "WriteLittleEndian4 val data = InternalWriteLittleEndian 4 val data"
  "WriteBigEndian8 val data = InternalWriteBigEndian 8 val data"
  "WriteLittleEndian8 val data = InternalWriteLittleEndian 8 val data"
  by (simp_all add: Write1_def WriteBigEndian2_def WriteLittleEndian2_def WriteBigEndian4_def WriteLittleEndian4_def
      WriteBigEndian8_def WriteLittleEndian8_def InternalWriteBigEndian_def InternalWriteLittleEndian_def upt_small)

lemma one_byte_order:
  "InternalReadBigEndian (Suc 0) data = InternalReadLittleEndian (Suc 0) data"
  "InternalWriteBigEndian (Suc 0) val data = InternalWriteLittleEndian (Suc 0) val data"
  by (simp_all add: InternalReadBigEndian_def InternalReadLittleEndian_def InternalWriteBigEndian_def
      InternalWriteLittleEndian_def)

lemma bytes_general:
  "ReadBigEndian B data = (if length data < B then Inl OutOfBounds else Inr (InternalReadBigEndian B data))"
  "ReadLittleEndian B data = (if length data < B then Inl OutOfBounds else Inr (InternalReadLittleEndian B data))"
  "WriteBigEndian B val data = (if length data < B then Inl OutOfBounds else Inr (InternalWriteBigEndian B val data))"
  "WriteLittleEndian B val data = (if length data < B then Inl OutOfBounds else Inr (InternalWriteLittleEndian B val data))"
  by (simp_all add: ReadBigEndian_def ReadLittleEndian_def WriteBigEndian_def WriteLittleEndian_def
      read_special read_special2 write_special one_byte_order)

section \<open>Bits of what is read and written\<close>

lemma bit_foldl_or:
  "bit (foldl (\<lambda>v i. v OR f i) v0 xs) n \<longleftrightarrow> bit v0 n \<or> (\<exists>i\<in>set xs. bit (f i :: 'a::len word) n)"
  by (induction xs arbitrary: v0) (auto simp: bit_simps)

lemma bit_byte_at:
  "bit (push_bit (8 * i) (ucast (d :: byte)) :: 'a::len word) n \<longleftrightarrow> n < LENGTH('a) \<and> n div 8 = i \<and> bit d (n mod 8)"
proof -
  have "8 * i \<le> n \<and> bit d (n - 8 * i) \<longleftrightarrow> n div 8 = i \<and> bit d (n mod 8)"
  proof
    assume a: "8 * i \<le> n \<and> bit d (n - 8 * i)"
    define k where "k = n - 8 * i"
    have "k < 8" using a bit_imp_le_length [of d k] by (simp add: k_def)
    moreover have "n = 8 * i + k" using a by (simp add: k_def)
    ultimately have "n div 8 = i" "n mod 8 = n - 8 * i" by simp_all
    with a show "n div 8 = i \<and> bit d (n mod 8)" by simp
  next
    assume a: "n div 8 = i \<and> bit d (n mod 8)"
    then have "8 * i \<le> n" "n - 8 * i = n mod 8" using minus_mult_div_eq_mod [of n 8] by auto
    with a show "8 * i \<le> n \<and> bit d (n - 8 * i)" by simp
  qed
  then show ?thesis by (auto simp: bit_simps)
qed

lemma bit_read_little:
  assumes "8 * B \<le> LENGTH('a)"
  shows "bit (InternalReadLittleEndian B data :: 'a::len word) n \<longleftrightarrow> n < 8 * B \<and> bit (data ! (n div 8)) (n mod 8)"
proof -
  have "bit (InternalReadLittleEndian B data :: 'a word) n \<longleftrightarrow>
      (\<exists>i<B. n < LENGTH('a) \<and> n div 8 = i \<and> bit (data ! i) (n mod 8))"
    by (auto simp: InternalReadLittleEndian_def bit_foldl_or mult.commute [of _ 8] bit_byte_at)
  also have "\<dots> \<longleftrightarrow> n < 8 * B \<and> bit (data ! (n div 8)) (n mod 8)"
    using assms by auto
  finally show ?thesis .
qed

lemma bit_read_big:
  assumes "8 * B \<le> LENGTH('a)"
  shows "bit (InternalReadBigEndian B data :: 'a::len word) n \<longleftrightarrow> n < 8 * B \<and> bit (data ! (B - 1 - n div 8)) (n mod 8)"
proof -
  have "bit (InternalReadBigEndian B data :: 'a word) n \<longleftrightarrow>
      (\<exists>i<B. n < LENGTH('a) \<and> n div 8 = B - 1 - i \<and> bit (data ! i) (n mod 8))"
    by (auto simp: InternalReadBigEndian_def bit_foldl_or mult.commute [of _ 8] bit_byte_at)
  also have "\<dots> \<longleftrightarrow> n < 8 * B \<and> bit (data ! (B - 1 - n div 8)) (n mod 8)"
  proof
    assume "n < 8 * B \<and> bit (data ! (B - 1 - n div 8)) (n mod 8)"
    then show "\<exists>i<B. n < LENGTH('a) \<and> n div 8 = B - 1 - i \<and> bit (data ! i) (n mod 8)"
      using assms by (intro exI [of _ "B - 1 - n div 8"]) auto
  qed (use assms in auto)
  finally show ?thesis .
qed

lemma foldl_update:
  "B \<le> length data \<Longrightarrow> foldl (\<lambda>d i. d[i := f i]) data [0..<B] = map f [0..<B] @ drop B data"
proof (induction B)
  case (Suc B)
  then have "drop B data = data ! B # drop (Suc B) data" by (simp add: Cons_nth_drop_Suc)
  with Suc show ?case by (simp add: list_update_append)
qed simp

lemma write_general:
  "B \<le> length data \<Longrightarrow>
    InternalWriteBigEndian B val data = map (\<lambda>i. ucast (drop_bit ((B - 1 - i) * 8) val)) [0..<B] @ drop B data"
  "B \<le> length data \<Longrightarrow>
    InternalWriteLittleEndian B val data = map (\<lambda>i. ucast (drop_bit (i * 8) val)) [0..<B] @ drop B data"
  by (simp_all add: InternalWriteBigEndian_def InternalWriteLittleEndian_def foldl_update)

lemma bit_byte_of: "bit (ucast (drop_bit (i * 8) (val :: 'a::len word)) :: byte) k \<longleftrightarrow> k < 8 \<and> bit val (i * 8 + k)"
  by (auto simp: bit_simps add.commute)

lemma read_write_little:
  assumes "8 * B \<le> LENGTH('a)" "B \<le> length data"
  shows "InternalReadLittleEndian B (InternalWriteLittleEndian B (val :: 'a::len word) data) = take_bit (8 * B) val"
proof (rule bit_word_eqI)
  fix n assume "n < LENGTH('a)"
  have "n div 8 * 8 + n mod 8 = n" by simp
  then show "bit (InternalReadLittleEndian B (InternalWriteLittleEndian B val data) :: 'a word) n = bit (take_bit (8 * B) val) n"
    using assms by (auto simp: bit_read_little write_general nth_append bit_byte_of bit_simps)
qed

lemma read_write_big:
  assumes "8 * B \<le> LENGTH('a)" "B \<le> length data"
  shows "InternalReadBigEndian B (InternalWriteBigEndian B (val :: 'a::len word) data) = take_bit (8 * B) val"
proof (rule bit_word_eqI)
  fix n assume "n < LENGTH('a)"
  have "B - 1 - (B - 1 - n div 8) = n div 8" if "n < 8 * B" using that by auto
  moreover have "n div 8 * 8 + n mod 8 = n" by simp
  ultimately show "bit (InternalReadBigEndian B (InternalWriteBigEndian B val data) :: 'a word) n = bit (take_bit (8 * B) val) n"
    using assms by (auto simp: bit_read_big write_general nth_append bit_byte_of bit_simps)
qed

section \<open>Fields of a message\<close>

text \<open>
  The contract of a fixed-size field codec: writing needs \<open>n\<close> bytes, changes only those, and what
  was written is read back. \<open>rep\<close> is the part of a value that \<open>n\<close> bytes hold.
\<close>

locale field_codec =
  fixes n :: nat
    and put :: "'v \<Rightarrow> byte list \<Rightarrow> abort + byte list"
    and look :: "byte list \<Rightarrow> abort + 'v"
    and rep :: "'v \<Rightarrow> 'v"
  assumes put_short: "length m < n \<Longrightarrow> put v m = Inl OutOfBounds"
    and put_look: "n \<le> length m \<Longrightarrow>
      \<exists>bs. length bs = n \<and> put v m = Inr (bs @ drop n m) \<and> (\<forall>r. look (bs @ r) = Inr (rep v))"
    and look_local: "n \<le> length m \<Longrightarrow> look (take n m @ r) = look m"
begin

text \<open>Reading and writing at an offset, as the callers do with \<^verbatim>\<open>data + offset\<close>.\<close>

definition put_at :: "nat \<Rightarrow> 'v \<Rightarrow> byte list \<Rightarrow> abort + byte list" where
  "put_at off v m = bindE (put v (drop off m)) (\<lambda>r. Inr (take off m @ r))"

definition look_at :: "nat \<Rightarrow> byte list \<Rightarrow> abort + 'v" where
  "look_at off m = look (drop off m)"

lemma put_at_parts:
  assumes "off + n \<le> length m"
  shows "\<exists>bs. length bs = n \<and> put_at off v m = Inr (take off m @ bs @ drop (off + n) m) \<and>
    (\<forall>r. look (bs @ r) = Inr (rep v))"
  using put_look [of "drop off m" v] assms by (auto simp: put_at_def add.commute)

lemma look_put_same:
  assumes "off + n \<le> length m" "put_at off v m = Inr m'"
  shows "look_at off m' = Inr (rep v)" "length m' = length m"
proof -
  from put_at_parts [OF assms(1), of v] assms(2) obtain bs where
    "length bs = n" "m' = take off m @ bs @ drop (off + n) m" "\<forall>r. look (bs @ r) = Inr (rep v)" by auto
  with assms(1) show "look_at off m' = Inr (rep v)" "length m' = length m" by (simp_all add: look_at_def)
qed

lemma look_put_other:
  assumes "off + n \<le> length m" "put_at off v m = Inr m'" "i + n \<le> off \<or> off + n \<le> i" "i + n \<le> length m"
  shows "look_at i m' = look_at i m"
proof -
  from put_at_parts [OF assms(1), of v] assms(2) obtain bs where
    bs: "length bs = n" "m' = take off m @ bs @ drop (off + n) m" by auto
  have same: "take n (drop i m') = take n (drop i m)"
    using assms(1,3,4) bs by (intro nth_equalityI) (auto simp: nth_append)
  have "length m' = length m" using bs assms(1) by simp
  then show ?thesis
    using look_local [of "drop i m'" "[]"] look_local [of "drop i m" "[]"] assms(4) by (simp add: look_at_def same)
qed

end

lemma read_prefix:
  "B \<le> length bs \<Longrightarrow> InternalReadBigEndian B (bs @ r) = InternalReadBigEndian B bs"
  "B \<le> length bs \<Longrightarrow> InternalReadLittleEndian B (bs @ r) = InternalReadLittleEndian B bs"
  unfolding InternalReadBigEndian_def InternalReadLittleEndian_def
  by (auto intro!: foldl_cong simp: nth_append)

lemma write_big_codec:
  assumes "8 * B \<le> LENGTH('a)" "B \<le> length m"
  shows "\<exists>bs. length bs = B \<and> WriteBigEndian B (v :: 'a::len word) m = Inr (bs @ drop B m) \<and>
    (\<forall>r. ReadBigEndian B (bs @ r) = Inr (take_bit (8 * B) v))"
proof -
  let ?bs = "map (\<lambda>i. ucast (drop_bit ((B - 1 - i) * 8) v)) [0..<B] :: byte list"
  have "InternalReadBigEndian B ?bs = take_bit (8 * B) v"
    using read_write_big [OF assms, of v] assms(2) by (simp add: write_general read_prefix)
  then have "ReadBigEndian B (?bs @ r) = Inr (take_bit (8 * B) v)" for r
    by (simp add: bytes_general read_prefix)
  with assms(2) show ?thesis by (intro exI [of _ ?bs]) (simp add: bytes_general write_general)
qed

lemma write_little_codec:
  assumes "8 * B \<le> LENGTH('a)" "B \<le> length m"
  shows "\<exists>bs. length bs = B \<and> WriteLittleEndian B (v :: 'a::len word) m = Inr (bs @ drop B m) \<and>
    (\<forall>r. ReadLittleEndian B (bs @ r) = Inr (take_bit (8 * B) v))"
proof -
  let ?bs = "map (\<lambda>i. ucast (drop_bit (i * 8) v)) [0..<B] :: byte list"
  have "InternalReadLittleEndian B ?bs = take_bit (8 * B) v"
    using read_write_little [OF assms, of v] assms(2) by (simp add: write_general read_prefix)
  then have "ReadLittleEndian B (?bs @ r) = Inr (take_bit (8 * B) v)" for r
    by (simp add: bytes_general read_prefix)
  with assms(2) show ?thesis by (intro exI [of _ ?bs]) (simp add: bytes_general write_general)
qed

lemma read_take:
  "InternalReadBigEndian B (take B m) = InternalReadBigEndian B m"
  "InternalReadLittleEndian B (take B m) = InternalReadLittleEndian B m"
  unfolding InternalReadBigEndian_def InternalReadLittleEndian_def by (auto intro!: foldl_cong)

lemma read_local:
  assumes "B \<le> length m"
  shows "ReadBigEndian B (take B m @ r) = ReadBigEndian B m"
    and "ReadLittleEndian B (take B m @ r) = ReadLittleEndian B m"
  using assms by (simp_all add: bytes_general read_prefix read_take)

lemmas codec_rules = write_big_codec write_little_codec read_local bytes_general(3,4)

text \<open>The codecs of the widths in use.\<close>

interpretation be16: field_codec 2 "WriteBigEndian 2" "ReadBigEndian 2" "take_bit 16 :: u16 \<Rightarrow> u16"
  using write_big_codec [of 2, where 'a = 16] by unfold_locales (simp_all add: read_local bytes_general(3))

interpretation be24: field_codec 3 "WriteBigEndian 3" "ReadBigEndian 3" "take_bit 24 :: u32 \<Rightarrow> u32"
  using write_big_codec [of 3, where 'a = 32] by unfold_locales (simp_all add: read_local bytes_general(3))

interpretation be32: field_codec 4 "WriteBigEndian 4" "ReadBigEndian 4" "take_bit 32 :: u32 \<Rightarrow> u32"
  using write_big_codec [of 4, where 'a = 32] by unfold_locales (simp_all add: read_local bytes_general(3))

interpretation be64: field_codec 8 "WriteBigEndian 8" "ReadBigEndian 8" "take_bit 64 :: u64 \<Rightarrow> u64"
  using write_big_codec [of 8, where 'a = 64] by unfold_locales (simp_all add: read_local bytes_general(3))

interpretation le32: field_codec 4 "WriteLittleEndian 4" "ReadLittleEndian 4" "take_bit 32 :: u32 \<Rightarrow> u32"
  using write_little_codec [of 4, where 'a = 32] by unfold_locales (simp_all add: read_local bytes_general(4))

text \<open>
  C29. Bytes round trip, for every unsigned type and every size that fits it, in both byte orders. With
  too little memory writing fails; otherwise it changes only the first \<open>B\<close> bytes, and reading them
  returns the value's low \<open>B\<close> bytes. The hand-written two, four and eight byte cases are included.
\<close>

theorem byte_io_roundtrip:
  assumes "8 * B \<le> LENGTH('a::len)"
  shows "(if length m < B then WriteBigEndian B (v :: 'a word) m = Inl OutOfBounds
          else \<exists>m'. WriteBigEndian B v m = Inr m' \<and> length m' = length m \<and> drop B m' = drop B m \<and>
            ReadBigEndian B m' = Inr (take_bit (8 * B) v))
    \<and> (if length m < B then WriteLittleEndian B v m = Inl OutOfBounds
       else \<exists>m'. WriteLittleEndian B v m = Inr m' \<and> length m' = length m \<and> drop B m' = drop B m \<and>
            ReadLittleEndian B m' = Inr (take_bit (8 * B) v))"
  using write_big_codec [OF assms, of m v] write_little_codec [OF assms, of m v]
  by (auto simp: bytes_general(3,4) not_less)

theorem byte_io_roundtrip_witness:
  "WriteBigEndian 3 (0x01020304 :: u32) [9, 9, 9, 9] = Inr [2, 3, 4, 9] \<and>
   ReadBigEndian 3 [2, 3, 4, 9 :: byte] = (Inr 0x020304 :: abort + u32)"
proof -
  have w: "WriteBigEndian 3 (0x01020304 :: u32) [9, 9, 9, 9] = Inr [2, 3, 4, 9]"
    by (simp add: bytes_general InternalWriteBigEndian_def upt_conv_Cons numeral_3_eq_3)
  have "take_bit 24 (0x01020304 :: u32) = 0x020304" by simp
  with byte_io_roundtrip [of 3 "[9, 9, 9, 9]" "0x01020304 :: u32"] w show ?thesis by auto
qed

section \<open>Signed values\<close>

lemma ReinterpretAsSigned_sint: "ReinterpretAsSigned u = sint u" for u :: "'a::len word"
proof -
  let ?m = "LENGTH('a) - 1"
  have b: "u AND push_bit ?m 1 \<noteq> 0 \<longleftrightarrow> bit u ?m"
    by (simp add: and_exp_eq_0_iff_not_bit push_bit_eq_mult)
  have "uint (u AND NOT (push_bit ?m 1)) = take_bit ?m (uint u)"
    by (rule bit_eqI) (auto simp: bit_simps bit_uint_iff less_diff_conv dest: bit_imp_le_length)
  moreover have "take_bit ?m (uint u) = uint u" if "\<not> bit u ?m"
    using that by (intro bit_eqI)
      (auto simp: bit_simps bit_uint_iff, metis One_nat_def Suc_pred' bit_imp_le_length len_gt_0 less_antisym)
  moreover have "sint u = take_bit ?m (uint u) - 2 ^ ?m * of_bool (bit u ?m)"
    unfolding sint_uint signed_take_bit_eq_take_bit_minus take_bit_Suc_from_most
    using pow_half [where 'a = 'a] by (simp add: bit_uint_iff)
  ultimately show ?thesis unfolding ReinterpretAsSigned_def Let_def b by simp
qed

lemma bit_of_small:
  fixes v :: int
  assumes "- (2 ^ m) \<le> v" "v < 2 ^ m" "m \<le> k"
  shows "bit v k \<longleftrightarrow> v < 0"
proof -
  have "signed_take_bit m v = v" using assms by (simp add: signed_take_bit_int_eq_self)
  moreover have "bit (signed_take_bit m v) k = bit v (min m k)" by (simp add: bit_signed_take_bit_iff)
  ultimately have "bit v k = bit v (min m k)" by simp
  also have "\<dots> = bit v m" using assms(3) by simp
  also have "\<dots> \<longleftrightarrow> v < 0"
    using \<open>signed_take_bit m v = v\<close> by (metis signed_take_bit_negative_iff)
  finally show ?thesis .
qed

text \<open>Sign extension of the low bytes of a value that they can hold gives the value back.\<close>

lemma SignExtend_take:
  fixes v :: int
  assumes L: "LENGTH('a::len) = 8 * S" and B: "0 < B" "B < S"
    and v: "- (2 ^ (8 * B - 1)) \<le> v" "v < 2 ^ (8 * B - 1)"
  shows "SignExtend B (take_bit (8 * B) (word_of_int v :: 'a word)) =
    (if v < 0 \<and> 4 \<le> B then Inl BadShift else Inr (word_of_int v))"
proof -
  let ?u = "take_bit (8 * B) (word_of_int v :: 'a word)"
  have len: "8 * B < LENGTH('a)" using L B by simp
  have neg: "bit v k \<longleftrightarrow> v < 0" if "8 * B - 1 \<le> k" for k using bit_of_small [OF v that] .
  have m: "B mod (LENGTH('a) div 8) * 8 = 8 * B" using L B by simp
  have msb: "(ucast (drop_bit ((B - 1) * 8) ?u) :: byte) AND 0x80 \<noteq> 0 \<longleftrightarrow> v < 0"
  proof -
    have "(0x80 :: byte) = push_bit 7 1" by simp
    then have "(ucast (drop_bit ((B - 1) * 8) ?u) :: byte) AND 0x80 \<noteq> 0 \<longleftrightarrow> bit (ucast (drop_bit ((B - 1) * 8) ?u) :: byte) 7"
      by (simp only: and_exp_eq_0_iff_not_bit push_bit_eq_mult mult_1 not_not)
    also have "\<dots> \<longleftrightarrow> bit v ((B - 1) * 8 + 7)" using B len by (auto simp: bit_simps)
    also have "\<dots> \<longleftrightarrow> v < 0" by (rule neg) (use B in simp)
    finally show ?thesis .
  qed
  have pos: "?u = word_of_int v" if "\<not> v < 0"
  proof (rule bit_word_eqI)
    fix n assume "n < LENGTH('a)"
    then show "bit ?u n = bit (word_of_int v :: 'a word) n"
      using neg [of n] that by (cases "n < 8 * B") (auto simp: bit_simps)
  qed
  have ext: "NOT (scast (push_bit (8 * B) 1 - 1 :: 32 word)) OR ?u = word_of_int v" if "v < 0" "\<not> 4 \<le> B"
  proof (rule bit_word_eqI)
    fix k assume k: "k < LENGTH('a)"
    have "push_bit (8 * B) 1 - 1 = (mask (8 * B) :: 32 word)" by (simp add: mask_eq_exp_minus_1 push_bit_eq_mult)
    moreover have "bit (scast (mask (8 * B) :: 32 word) :: 'a word) k \<longleftrightarrow> k < 8 * B"
      using that k B by (auto simp: bit_simps)
    ultimately show "bit (NOT (scast (push_bit (8 * B) 1 - 1 :: 32 word)) OR ?u) k = bit (word_of_int v :: 'a word) k"
      using neg that k by (auto simp: bit_simps)
  qed
  show ?thesis
    unfolding SignExtend_def Let_def m msb using pos ext by auto
qed

text \<open>
  Signed values round trip in both byte orders when all bytes of the type, or at most three, are
  used. With four to seven bytes of a 64-bit integer every negative value fails: the mask of the sign
  extension shifts the 32-bit literal 1 by 32 bits or more, which is undefined.
\<close>

theorem signed_byte_io_roundtrip:
  fixes T :: "'a::len itself"
  assumes "LENGTH('a) = 8 * S" and "0 < B" and "B \<le> S" and "B \<le> length m"
    and "- (2 ^ (8 * B - 1)) \<le> v" and "v < 2 ^ (8 * B - 1)"
  shows "bindE (WriteBigEndianSigned T B v m) (ReadBigEndianSigned T B) =
      (if v < 0 \<and> 4 \<le> B \<and> B < S then Inl BadShift else Inr v)
    \<and> bindE (WriteLittleEndianSigned T B v m) (ReadLittleEndianSigned T B) =
      (if v < 0 \<and> 4 \<le> B \<and> B < S then Inl BadShift else Inr v)"
proof -
  have len: "8 * B \<le> LENGTH('a)" using assms by simp
  let ?w = "word_of_int v :: 'a word" and ?k = "\<lambda>u :: 'a word.
      bindE (if B < LENGTH('a) div 8 then SignExtend B u else Inr u) (\<lambda>w. Inr (ReinterpretAsSigned w))"
  have "(2 :: int) ^ (8 * B - 1) \<le> 2 ^ (LENGTH('a) - 1)" using len assms(2) by (intro power_increasing) auto
  with assms(5,6) have "signed_take_bit (LENGTH('a) - 1) v = v"
    by (intro signed_take_bit_int_eq_self) linarith+
  then have s: "sint ?w = v"
    by (simp add: sint_uint uint_word_of_int_eq signed_take_bit_take_bit)
  have k: "?k (take_bit (8 * B) ?w) = (if v < 0 \<and> 4 \<le> B \<and> B < S then Inl BadShift else Inr v)"
  proof (cases "B < S")
    case True
    with SignExtend_take [OF assms(1,2) True assms(5,6)] s show ?thesis
      by (simp add: assms(1) ReinterpretAsSigned_sint)
  next
    case False
    with assms(1,3) s show ?thesis by (simp add: ReinterpretAsSigned_sint take_bit_word_eq_self)
  qed
  obtain bs where "WriteBigEndian B ?w m = Inr (bs @ drop B m)" "\<forall>r. ReadBigEndian B (bs @ r) = Inr (take_bit (8 * B) ?w)"
    using write_big_codec [OF len assms(4), of ?w] by blast
  then have 1: "bindE (WriteBigEndianSigned T B v m) (ReadBigEndianSigned T B) = ?k (take_bit (8 * B) ?w)"
    by (simp only: WriteBigEndianSigned_def ReinterpretAsUnsigned_def ReadBigEndianSigned_def bindE.simps simp_thms)
  obtain bs where "WriteLittleEndian B ?w m = Inr (bs @ drop B m)" "\<forall>r. ReadLittleEndian B (bs @ r) = Inr (take_bit (8 * B) ?w)"
    using write_little_codec [OF len assms(4), of ?w] by blast
  then have 2: "bindE (WriteLittleEndianSigned T B v m) (ReadLittleEndianSigned T B) = ?k (take_bit (8 * B) ?w)"
    by (simp only: WriteLittleEndianSigned_def ReinterpretAsUnsigned_def ReadLittleEndianSigned_def bindE.simps simp_thms)
  show ?thesis unfolding 1 2 k by simp
qed

theorem signed_byte_io_roundtrip_witness:
  "bindE (WriteBigEndianSigned TYPE(32) 3 (- 5) [0, 0, 0]) (ReadBigEndianSigned TYPE(32) 3) = Inr (- 5)
   \<and> bindE (WriteBigEndianSigned TYPE(64) 5 (- 5) [0, 0, 0, 0, 0]) (ReadBigEndianSigned TYPE(64) 5) = Inl BadShift"
  using signed_byte_io_roundtrip [of 4 3 "[0, 0, 0]" "- 5" "TYPE(32)"]
    signed_byte_io_roundtrip [of 8 5 "[0, 0, 0, 0, 0]" "- 5" "TYPE(64)"]
  by simp

end
