(* ===== verification/Byte_Order.thy ===== *)
theory Byte_Order
  imports Byte_IO
begin

text \<open>
  \<^verbatim>\<open>rtc_base/byte_order.h\<close>: reading and writing numbers in memory in a fixed byte order on a host
  of either order. \<open>big\<close> says that the host is big endian. \<^verbatim>\<open>memcpy\<close> of a number copies its
  host representation; \<^verbatim>\<open>htobe\<close> and its relatives come from the platform and swap the bytes of a
  number exactly when the two orders differ.
\<close>

unbundle bit_operations_syntax

section \<open>The platform\<close>

definition little_bytes :: "'a::len word \<Rightarrow> byte list" where
  "little_bytes v = map (\<lambda>i. ucast (drop_bit (i * 8) v)) [0..<LENGTH('a) div 8]"

definition of_little_bytes :: "byte list \<Rightarrow> 'a::len word" where
  "of_little_bytes bs = InternalReadLittleEndian (LENGTH('a) div 8) bs"

definition bswap :: "'a::len word \<Rightarrow> 'a word" where
  "bswap v = of_little_bytes (rev (little_bytes v))"

definition host_bytes :: "bool \<Rightarrow> 'a::len word \<Rightarrow> byte list" where
  "host_bytes big v = (if big then rev (little_bytes v) else little_bytes v)"

definition of_host_bytes :: "bool \<Rightarrow> byte list \<Rightarrow> 'a::len word" where
  "of_host_bytes big bs = of_little_bytes (if big then rev bs else bs)"

text \<open>\<^verbatim>\<open>htobe\<close> and \<^verbatim>\<open>betoh\<close> are one function, as are \<^verbatim>\<open>htole\<close> and \<^verbatim>\<open>letoh\<close>.\<close>

definition htobe :: "bool \<Rightarrow> 'a::len word \<Rightarrow> 'a word" where
  "htobe big v = (if big then v else bswap v)"

definition htole :: "bool \<Rightarrow> 'a::len word \<Rightarrow> 'a word" where
  "htole big v = (if big then bswap v else v)"

definition memcpy_to :: "byte list \<Rightarrow> byte list \<Rightarrow> abort + byte list" where
  "memcpy_to m bs = (if length m < length bs then Inl OutOfBounds else Inr (bs @ drop (length bs) m))"

definition memcpy_from :: "nat \<Rightarrow> byte list \<Rightarrow> abort + byte list" where
  "memcpy_from n m = (if length m < n then Inl OutOfBounds else Inr (take n m))"

section \<open>The accessors\<close>

definition Set8 :: "byte list \<Rightarrow> nat \<Rightarrow> u8 \<Rightarrow> abort + byte list" where
  "Set8 m off v = (if off < length m then Inr (m[off := v]) else Inl OutOfBounds)"

definition Get8 :: "byte list \<Rightarrow> nat \<Rightarrow> abort + u8" where
  "Get8 m off = (if off < length m then Inr (m ! off) else Inl OutOfBounds)"

definition SetBE16 :: "bool \<Rightarrow> byte list \<Rightarrow> u16 \<Rightarrow> abort + byte list" where
  "SetBE16 big m v = memcpy_to m (host_bytes big (htobe big v))"

definition SetBE32 :: "bool \<Rightarrow> byte list \<Rightarrow> u32 \<Rightarrow> abort + byte list" where
  "SetBE32 big m v = memcpy_to m (host_bytes big (htobe big v))"

definition SetBE64 :: "bool \<Rightarrow> byte list \<Rightarrow> u64 \<Rightarrow> abort + byte list" where
  "SetBE64 big m v = memcpy_to m (host_bytes big (htobe big v))"

definition GetBE16 :: "bool \<Rightarrow> byte list \<Rightarrow> abort + u16" where
  "GetBE16 big m = bindE (memcpy_from 2 m) (\<lambda>bs. Inr (htobe big (of_host_bytes big bs)))"

definition GetBE32 :: "bool \<Rightarrow> byte list \<Rightarrow> abort + u32" where
  "GetBE32 big m = bindE (memcpy_from 4 m) (\<lambda>bs. Inr (htobe big (of_host_bytes big bs)))"

definition GetBE64 :: "bool \<Rightarrow> byte list \<Rightarrow> abort + u64" where
  "GetBE64 big m = bindE (memcpy_from 8 m) (\<lambda>bs. Inr (htobe big (of_host_bytes big bs)))"

definition SetLE16 :: "bool \<Rightarrow> byte list \<Rightarrow> u16 \<Rightarrow> abort + byte list" where
  "SetLE16 big m v = memcpy_to m (host_bytes big (htole big v))"

definition SetLE32 :: "bool \<Rightarrow> byte list \<Rightarrow> u32 \<Rightarrow> abort + byte list" where
  "SetLE32 big m v = memcpy_to m (host_bytes big (htole big v))"

definition SetLE64 :: "bool \<Rightarrow> byte list \<Rightarrow> u64 \<Rightarrow> abort + byte list" where
  "SetLE64 big m v = memcpy_to m (host_bytes big (htole big v))"

definition GetLE16 :: "bool \<Rightarrow> byte list \<Rightarrow> abort + u16" where
  "GetLE16 big m = bindE (memcpy_from 2 m) (\<lambda>bs. Inr (htole big (of_host_bytes big bs)))"

definition GetLE32 :: "bool \<Rightarrow> byte list \<Rightarrow> abort + u32" where
  "GetLE32 big m = bindE (memcpy_from 4 m) (\<lambda>bs. Inr (htole big (of_host_bytes big bs)))"

definition GetLE64 :: "bool \<Rightarrow> byte list \<Rightarrow> abort + u64" where
  "GetLE64 big m = bindE (memcpy_from 8 m) (\<lambda>bs. Inr (htole big (of_host_bytes big bs)))"

definition IsHostBigEndian :: "bool \<Rightarrow> bool" where
  "IsHostBigEndian big = big"

definition HostToNetwork16 :: "bool \<Rightarrow> u16 \<Rightarrow> u16" where
  "HostToNetwork16 big n = htobe big n"

definition HostToNetwork32 :: "bool \<Rightarrow> u32 \<Rightarrow> u32" where
  "HostToNetwork32 big n = htobe big n"

definition HostToNetwork64 :: "bool \<Rightarrow> u64 \<Rightarrow> u64" where
  "HostToNetwork64 big n = htobe big n"

definition NetworkToHost16 :: "bool \<Rightarrow> u16 \<Rightarrow> u16" where
  "NetworkToHost16 big n = htobe big n"

definition NetworkToHost32 :: "bool \<Rightarrow> u32 \<Rightarrow> u32" where
  "NetworkToHost32 big n = htobe big n"

definition NetworkToHost64 :: "bool \<Rightarrow> u64 \<Rightarrow> u64" where
  "NetworkToHost64 big n = htobe big n"

section \<open>Representations\<close>

lemma little_bytes_write:
  "LENGTH('a) = 8 * S \<Longrightarrow> S \<le> length m \<Longrightarrow>
    InternalWriteLittleEndian S (v :: 'a::len word) m = little_bytes v @ drop S m"
  by (simp add: write_general little_bytes_def)

lemma length_little_bytes [simp]: "length (little_bytes (v :: 'a::len word)) = LENGTH('a) div 8"
  by (simp add: little_bytes_def)

lemma big_bytes_write:
  assumes "LENGTH('a) = 8 * S" "S \<le> length m"
  shows "InternalWriteBigEndian S (v :: 'a::len word) m = rev (little_bytes v) @ drop S m"
proof -
  have "rev (little_bytes v) = map (\<lambda>i. ucast (drop_bit ((S - 1 - i) * 8) v)) [0..<S]"
    using assms(1) by (intro nth_equalityI) (auto simp: little_bytes_def rev_nth)
  then show ?thesis using assms by (simp add: write_general)
qed

lemma of_little_bytes_inverse:
  assumes "LENGTH('a::len) = 8 * S"
  shows "of_little_bytes (little_bytes (v :: 'a word)) = v"
proof -
  have "InternalReadLittleEndian S (InternalWriteLittleEndian S v (replicate S 0)) = take_bit (8 * S) v"
    using assms by (intro read_write_little) simp_all
  then show ?thesis
    using assms by (simp add: little_bytes_write of_little_bytes_def take_bit_word_eq_self)
qed

lemma little_bytes_inverse:
  assumes "LENGTH('a::len) = 8 * S" "length bs = S"
  shows "little_bytes (of_little_bytes bs :: 'a word) = bs"
proof (rule nth_equalityI)
  fix i assume "i < length (little_bytes (of_little_bytes bs :: 'a word))"
  then have i: "i < S" using assms by simp
  show "little_bytes (of_little_bytes bs :: 'a word) ! i = bs ! i"
  proof (rule bit_word_eqI)
    fix k assume k: "k < LENGTH(8)"
    have "(i * 8 + k) div 8 = i" "(i * 8 + k) mod 8 = k" "i * 8 + k < 8 * S" using k i by auto
    then show "bit (little_bytes (of_little_bytes bs :: 'a word) ! i) k = bit (bs ! i) k"
      using i assms k by (simp add: little_bytes_def of_little_bytes_def bit_byte_of bit_read_little)
  qed
qed (use assms in simp)

lemma little_bytes_bswap: "LENGTH('a::len) = 8 * S \<Longrightarrow> little_bytes (bswap (v :: 'a word)) = rev (little_bytes v)"
  by (simp add: bswap_def little_bytes_inverse)

lemma bswap_bswap: "LENGTH('a::len) = 8 * S \<Longrightarrow> bswap (bswap v) = (v :: 'a word)"
  unfolding bswap_def [of "bswap v"] by (simp add: little_bytes_bswap of_little_bytes_inverse)

lemma host_bytes_htobe: "LENGTH('a::len) = 8 * S \<Longrightarrow> host_bytes big (htobe big (v :: 'a word)) = rev (little_bytes v)"
  by (simp add: host_bytes_def htobe_def little_bytes_bswap)

lemma host_bytes_htole: "LENGTH('a::len) = 8 * S \<Longrightarrow> host_bytes big (htole big (v :: 'a word)) = little_bytes v"
  by (simp add: host_bytes_def htole_def little_bytes_bswap)

lemma memcpy_to_write:
  assumes "LENGTH('a::len) = 8 * S"
  shows "memcpy_to m (host_bytes big (htobe big v)) = WriteBigEndian S (v :: 'a word) m"
    and "memcpy_to m (host_bytes big (htole big v)) = WriteLittleEndian S v m"
  using assms by (simp_all add: host_bytes_htobe host_bytes_htole memcpy_to_def bytes_general big_bytes_write
      little_bytes_write)

lemma read_little_rev:
  assumes "8 * B \<le> LENGTH('a)" "length bs = B"
  shows "InternalReadLittleEndian B (rev bs) = (InternalReadBigEndian B bs :: 'a::len word)"
  by (rule bit_word_eqI) (use assms in \<open>auto simp: bit_read_little bit_read_big rev_nth less_mult_imp_div_less mult.commute\<close>)

lemma bswap_of_little:
  assumes "LENGTH('a::len) = 8 * S" "length bs = S"
  shows "bswap (of_little_bytes bs) = (of_little_bytes (rev bs) :: 'a word)"
  using assms by (simp add: bswap_def little_bytes_inverse)

lemma betoh_of_host:
  assumes "LENGTH('a::len) = 8 * S" "length bs = S"
  shows "htobe big (of_host_bytes big bs) = (InternalReadBigEndian S bs :: 'a word)"
    and "htole big (of_host_bytes big bs) = (InternalReadLittleEndian S bs :: 'a word)"
proof -
  have 1: "of_little_bytes (rev bs) = (InternalReadBigEndian S bs :: 'a word)"
    using assms by (simp add: of_little_bytes_def read_little_rev)
  have 2: "bswap (of_little_bytes bs) = (of_little_bytes (rev bs) :: 'a word)"
    "bswap (of_little_bytes (rev bs)) = (of_little_bytes bs :: 'a word)"
    using assms bswap_of_little [of S "rev bs", where 'a = 'a] by (simp_all add: bswap_of_little)
  have 3: "of_little_bytes bs = (InternalReadLittleEndian S bs :: 'a word)"
    using assms by (simp add: of_little_bytes_def)
  show "htobe big (of_host_bytes big bs) = (InternalReadBigEndian S bs :: 'a word)"
    "htole big (of_host_bytes big bs) = (InternalReadLittleEndian S bs :: 'a word)"
    unfolding htobe_def htole_def of_host_bytes_def using 1 2 3 by (auto split: if_split)
qed

lemma memcpy_from_read:
  assumes "LENGTH('a::len) = 8 * S"
  shows "bindE (memcpy_from S m) (\<lambda>bs. Inr (htobe big (of_host_bytes big bs) :: 'a word)) = ReadBigEndian S m"
    and "bindE (memcpy_from S m) (\<lambda>bs. Inr (htole big (of_host_bytes big bs) :: 'a word)) = ReadLittleEndian S m"
  using assms by (simp_all add: memcpy_from_def bytes_general betoh_of_host read_take not_less)

text \<open>
  The memory accessors do not depend on the host: on a host of either byte order they write and
  read exactly the bytes that \<^verbatim>\<open>ByteWriter\<close> and \<^verbatim>\<open>ByteReader\<close> do for the same width and order.
\<close>

theorem byte_order_host_independent:
  "SetBE16 big m v = WriteBigEndian 2 v m \<and> SetBE32 big m w = WriteBigEndian 4 w m \<and>
   SetBE64 big m x = WriteBigEndian 8 x m \<and> SetLE16 big m v = WriteLittleEndian 2 v m \<and>
   SetLE32 big m w = WriteLittleEndian 4 w m \<and> SetLE64 big m x = WriteLittleEndian 8 x m \<and>
   GetBE16 big m = ReadBigEndian 2 m \<and> GetBE32 big m = ReadBigEndian 4 m \<and>
   GetBE64 big m = ReadBigEndian 8 m \<and> GetLE16 big m = ReadLittleEndian 2 m \<and>
   GetLE32 big m = ReadLittleEndian 4 m \<and> GetLE64 big m = ReadLittleEndian 8 m"
  unfolding SetBE16_def SetBE32_def SetBE64_def SetLE16_def SetLE32_def SetLE64_def
    GetBE16_def GetBE32_def GetBE64_def GetLE16_def GetLE32_def GetLE64_def
  by (intro conjI; (rule memcpy_to_write | rule memcpy_from_read); simp)

text \<open>
  Network byte order round trips on every host, in both directions and at every width.
\<close>

theorem network_order_roundtrip:
  "NetworkToHost16 big (HostToNetwork16 big a) = a \<and> HostToNetwork16 big (NetworkToHost16 big a) = a \<and>
   NetworkToHost32 big (HostToNetwork32 big b) = b \<and> HostToNetwork32 big (NetworkToHost32 big b) = b \<and>
   NetworkToHost64 big (HostToNetwork64 big c) = c \<and> HostToNetwork64 big (NetworkToHost64 big c) = c"
  by (simp add: NetworkToHost16_def HostToNetwork16_def NetworkToHost32_def HostToNetwork32_def
      NetworkToHost64_def HostToNetwork64_def htobe_def bswap_bswap [where S = 2] bswap_bswap [where S = 4]
      bswap_bswap [where S = 8])

end
