(* ===== verification/Units.thy ===== *)
theory Units
  imports Prelude
begin

text \<open>
  Quantities with units: \<^verbatim>\<open>rtc_base/numerics/divide_round.h\<close>, \<^verbatim>\<open>rtc_base/units/unit_base.h\<close> and the
  units \<^verbatim>\<open>Timestamp\<close>, \<^verbatim>\<open>TimeDelta\<close>, \<^verbatim>\<open>DataRate\<close>, \<^verbatim>\<open>DataSize\<close>, \<^verbatim>\<open>Frequency\<close> of \<^verbatim>\<open>api/units\<close>. A quantity is
  its 64-bit value, the two extreme values standing for the infinities. The class parameter
  \<^verbatim>\<open>one_sided\<close> is the first argument of the operations of \<^verbatim>\<open>UnitBase\<close>. Integral instances are
  modelled; the floating-point ones are not. Failed checks, 64-bit overflow and division by zero are
  errors.
\<close>

section \<open>Division\<close>

text \<open>Division of C++ truncates towards zero.\<close>

definition tdiv :: "int \<Rightarrow> int \<Rightarrow> int" where
  "tdiv a b = sgn a * sgn b * (\<bar>a\<bar> div \<bar>b\<bar>)"

definition tmod :: "int \<Rightarrow> int \<Rightarrow> int" where
  "tmod a b = a - b * tdiv a b"

definition DivideRoundUp :: "int \<Rightarrow> int \<Rightarrow> abort + int" where
  "DivideRoundUp dividend divisor =
     check (dividend \<ge> 0) (check (divisor > 0)
       (let quotient = tdiv dividend divisor; remainder = tmod dividend divisor
        in i64 (quotient + (if remainder > 0 then 1 else 0))))"

definition DivideRoundToNearest :: "int \<Rightarrow> int \<Rightarrow> abort + int" where
  "DivideRoundToNearest dividend divisor =
     check (divisor > 0)
       (if dividend < 0 then
          let half_of_divisor = tdiv divisor 2; quotient = tdiv dividend divisor;
              remainder = tmod dividend divisor
          in if - remainder > half_of_divisor then i64 (quotient - 1) else Inr quotient
        else
          let half_of_divisor = tdiv (divisor - 1) 2; quotient = tdiv dividend divisor;
              remainder = tmod dividend divisor
          in if remainder > half_of_divisor then i64 (quotient + 1) else Inr quotient)"

section \<open>UnitBase\<close>

definition PlusInfinityVal :: int where
  "PlusInfinityVal = 2 ^ 63 - 1"

definition MinusInfinityVal :: int where
  "MinusInfinityVal = - (2 ^ 63)"

definition IsPlusInfinity :: "int \<Rightarrow> bool" where
  "IsPlusInfinity v \<longleftrightarrow> v = PlusInfinityVal"

definition IsMinusInfinity :: "int \<Rightarrow> bool" where
  "IsMinusInfinity v \<longleftrightarrow> v = MinusInfinityVal"

definition IsInfinite :: "int \<Rightarrow> bool" where
  "IsInfinite v \<longleftrightarrow> v = PlusInfinityVal \<or> v = MinusInfinityVal"

definition IsFinite :: "int \<Rightarrow> bool" where
  "IsFinite v \<longleftrightarrow> \<not> IsInfinite v"

definition IsZero :: "int \<Rightarrow> bool" where
  "IsZero v \<longleftrightarrow> v = 0"

definition FromValue :: "bool \<Rightarrow> int \<Rightarrow> abort + int" where
  "FromValue one_sided v =
     check (one_sided \<longrightarrow> v \<ge> 0) (check (v > MinusInfinityVal) (check (v < PlusInfinityVal) (Inr v)))"

definition FromFraction :: "bool \<Rightarrow> int \<Rightarrow> int \<Rightarrow> abort + int" where
  "FromFraction one_sided denominator v =
     check (one_sided \<longrightarrow> v \<ge> 0)
       (check (v > tdiv MinusInfinityVal denominator) (check (v < tdiv PlusInfinityVal denominator)
         (i64 (v * denominator))))"

definition ToValue :: "int \<Rightarrow> abort + int" where
  "ToValue v = check (IsFinite v) (Inr v)"

definition ToValueOr :: "int \<Rightarrow> int \<Rightarrow> int" where
  "ToValueOr fallback v = (if IsFinite v then v else fallback)"

definition ToFraction :: "int \<Rightarrow> int \<Rightarrow> abort + int" where
  "ToFraction denominator v = check (IsFinite v) (DivideRoundToNearest v denominator)"

definition ToFractionOr :: "int \<Rightarrow> int \<Rightarrow> int \<Rightarrow> abort + int" where
  "ToFractionOr denominator fallback v =
     (if IsFinite v then DivideRoundToNearest v denominator else Inr fallback)"

definition ToMultiple :: "int \<Rightarrow> int \<Rightarrow> abort + int" where
  "ToMultiple factor v =
     bindE (ToValue v) (\<lambda>x.
       check (x \<ge> tdiv MinusInfinityVal factor) (check (x \<le> tdiv PlusInfinityVal factor)
         (i64 (x * factor))))"

section \<open>RelativeUnit\<close>

definition unit_add :: "bool \<Rightarrow> int \<Rightarrow> int \<Rightarrow> abort + int" where
  "unit_add one_sided a b =
     (if IsPlusInfinity a \<or> IsPlusInfinity b
      then check (\<not> IsMinusInfinity a) (check (\<not> IsMinusInfinity b) (Inr PlusInfinityVal))
      else if IsMinusInfinity a \<or> IsMinusInfinity b
      then check (\<not> IsPlusInfinity a) (check (\<not> IsPlusInfinity b) (Inr MinusInfinityVal))
      else bindE (ToValue a) (\<lambda>x. bindE (ToValue b) (\<lambda>y. bindE (i64 (x + y)) (FromValue one_sided))))"

definition unit_sub :: "bool \<Rightarrow> int \<Rightarrow> int \<Rightarrow> abort + int" where
  "unit_sub one_sided a b =
     (if IsPlusInfinity a \<or> IsMinusInfinity b
      then check (\<not> IsMinusInfinity a) (check (\<not> IsPlusInfinity b) (Inr PlusInfinityVal))
      else if IsMinusInfinity a \<or> IsPlusInfinity b
      then check (\<not> IsPlusInfinity a) (check (\<not> IsMinusInfinity b) (Inr MinusInfinityVal))
      else bindE (ToValue a) (\<lambda>x. bindE (ToValue b) (\<lambda>y. bindE (i64 (x - y)) (FromValue one_sided))))"

definition unit_div :: "bool \<Rightarrow> int \<Rightarrow> int \<Rightarrow> abort + int" where
  "unit_div one_sided a scalar =
     bindE (ToValue a) (\<lambda>x. if scalar = 0 then Inl DivByZero else FromValue one_sided (tdiv x scalar))"

definition unit_mul :: "bool \<Rightarrow> int \<Rightarrow> int \<Rightarrow> abort + int" where
  "unit_mul one_sided a scalar =
     bindE (ToValue a) (\<lambda>x. bindE (i64 (x * scalar)) (FromValue one_sided))"

definition unit_neg :: "bool \<Rightarrow> int \<Rightarrow> abort + int" where
  "unit_neg one_sided a =
     (if IsPlusInfinity a then Inr MinusInfinityVal
      else if IsMinusInfinity a then Inr PlusInfinityVal
      else unit_mul one_sided a (- 1))"

definition RoundTo :: "bool \<Rightarrow> int \<Rightarrow> int \<Rightarrow> abort + int" where
  "RoundTo one_sided resolution v =
     check (IsFinite v) (check (IsFinite resolution) (check (resolution > 0)
       (bindE (i64 (v + tdiv resolution 2)) (\<lambda>x. unit_mul one_sided (tdiv x resolution) resolution))))"

definition RoundUpTo :: "bool \<Rightarrow> int \<Rightarrow> int \<Rightarrow> abort + int" where
  "RoundUpTo one_sided resolution v =
     check (IsFinite v) (check (IsFinite resolution) (check (resolution > 0)
       (bindE (i64 (v + resolution)) (\<lambda>y. bindE (i64 (y - 1)) (\<lambda>x.
          unit_mul one_sided (tdiv x resolution) resolution)))))"

definition RoundDownTo :: "bool \<Rightarrow> int \<Rightarrow> int \<Rightarrow> abort + int" where
  "RoundDownTo one_sided resolution v =
     check (IsFinite v) (check (IsFinite resolution) (check (resolution > 0)
       (unit_mul one_sided (tdiv v resolution) resolution)))"

section \<open>TimeDelta and Timestamp\<close>

definition TimeDelta_Seconds :: "int \<Rightarrow> abort + int" where
  "TimeDelta_Seconds v = FromFraction False 1000000 v"

definition TimeDelta_Minutes :: "int \<Rightarrow> abort + int" where
  "TimeDelta_Minutes v = bindE (i64 (v * 60)) TimeDelta_Seconds"

definition TimeDelta_Millis :: "int \<Rightarrow> abort + int" where
  "TimeDelta_Millis v = FromFraction False 1000 v"

definition TimeDelta_Micros :: "int \<Rightarrow> abort + int" where
  "TimeDelta_Micros v = FromValue False v"

definition TimeDelta_Abs :: "int \<Rightarrow> abort + int" where
  "TimeDelta_Abs d = bindE (ToValue d) (\<lambda>u. if u < 0 then bindE (i64 (- u)) TimeDelta_Micros else Inr d)"

definition Timestamp_Seconds :: "int \<Rightarrow> abort + int" where
  "Timestamp_Seconds v = FromFraction False 1000000 v"

definition Timestamp_Millis :: "int \<Rightarrow> abort + int" where
  "Timestamp_Millis v = FromFraction False 1000 v"

definition Timestamp_Micros :: "int \<Rightarrow> abort + int" where
  "Timestamp_Micros v = FromValue False v"

definition time_seconds :: "int \<Rightarrow> abort + int" where
  "time_seconds t = ToFraction 1000000 t"

definition time_ms :: "int \<Rightarrow> abort + int" where
  "time_ms t = ToFraction 1000 t"

definition time_us :: "int \<Rightarrow> abort + int" where
  "time_us t = ToValue t"

definition time_ns :: "int \<Rightarrow> abort + int" where
  "time_ns t = ToMultiple 1000 t"

definition time_seconds_or :: "int \<Rightarrow> int \<Rightarrow> abort + int" where
  "time_seconds_or fallback t = ToFractionOr 1000000 fallback t"

definition time_ms_or :: "int \<Rightarrow> int \<Rightarrow> abort + int" where
  "time_ms_or fallback t = ToFractionOr 1000 fallback t"

definition time_us_or :: "int \<Rightarrow> int \<Rightarrow> int" where
  "time_us_or fallback t = ToValueOr fallback t"

definition Timestamp_add :: "int \<Rightarrow> int \<Rightarrow> abort + int" where
  "Timestamp_add t d =
     (if IsPlusInfinity t \<or> IsPlusInfinity d
      then check (\<not> IsMinusInfinity t) (check (\<not> IsMinusInfinity d) (Inr PlusInfinityVal))
      else if IsMinusInfinity t \<or> IsMinusInfinity d
      then check (\<not> IsPlusInfinity t) (check (\<not> IsPlusInfinity d) (Inr MinusInfinityVal))
      else bindE (time_us t) (\<lambda>x. bindE (time_us d) (\<lambda>y. bindE (i64 (x + y)) Timestamp_Micros)))"

definition Timestamp_sub_delta :: "int \<Rightarrow> int \<Rightarrow> abort + int" where
  "Timestamp_sub_delta t d =
     (if IsPlusInfinity t \<or> IsMinusInfinity d
      then check (\<not> IsMinusInfinity t) (check (\<not> IsPlusInfinity d) (Inr PlusInfinityVal))
      else if IsMinusInfinity t \<or> IsPlusInfinity d
      then check (\<not> IsPlusInfinity t) (check (\<not> IsMinusInfinity d) (Inr MinusInfinityVal))
      else bindE (time_us t) (\<lambda>x. bindE (time_us d) (\<lambda>y. bindE (i64 (x - y)) Timestamp_Micros)))"

definition Timestamp_diff :: "int \<Rightarrow> int \<Rightarrow> abort + int" where
  "Timestamp_diff t u =
     (if IsPlusInfinity t \<or> IsMinusInfinity u
      then check (\<not> IsMinusInfinity t) (check (\<not> IsPlusInfinity u) (Inr PlusInfinityVal))
      else if IsMinusInfinity t \<or> IsPlusInfinity u
      then check (\<not> IsPlusInfinity t) (check (\<not> IsMinusInfinity u) (Inr MinusInfinityVal))
      else bindE (time_us t) (\<lambda>x. bindE (time_us u) (\<lambda>y. bindE (i64 (x - y)) TimeDelta_Micros)))"

section \<open>DataSize, Frequency and DataRate\<close>

definition DataSize_Bytes :: "int \<Rightarrow> abort + int" where
  "DataSize_Bytes v = FromValue True v"

definition bytes :: "int \<Rightarrow> abort + int" where
  "bytes s = ToValue s"

definition Frequency_MilliHertz :: "int \<Rightarrow> abort + int" where
  "Frequency_MilliHertz v = FromValue True v"

definition Frequency_Hertz :: "int \<Rightarrow> abort + int" where
  "Frequency_Hertz v = FromFraction True 1000 v"

definition Frequency_KiloHertz :: "int \<Rightarrow> abort + int" where
  "Frequency_KiloHertz v = FromFraction True 1000000 v"

definition hertz :: "int \<Rightarrow> abort + int" where
  "hertz f = ToFraction 1000 f"

definition millihertz :: "int \<Rightarrow> abort + int" where
  "millihertz f = ToValue f"

text \<open>Integer division, as the compiler does it.\<close>

definition idiv :: "int \<Rightarrow> int \<Rightarrow> abort + int" where
  "idiv a b = (if b = 0 then Inl DivByZero else i64 (tdiv a b))"

definition per_interval :: "int \<Rightarrow> int \<Rightarrow> abort + int" where
  "per_interval nominator interval =
     check (nominator \<le> tdiv PlusInfinityVal (1000 * 1000000))
       (check (IsFinite interval) (check (\<not> IsZero interval)
         (bindE (i64 (nominator * (1000 * 1000000))) (\<lambda>n. bindE (ToValue interval) (\<lambda>u.
          bindE (idiv n u) Frequency_MilliHertz)))))"

definition per_frequency :: "int \<Rightarrow> int \<Rightarrow> abort + int" where
  "per_frequency nominator frequency =
     check (nominator \<le> tdiv PlusInfinityVal (1000000 * 1000))
       (check (IsFinite frequency) (check (\<not> IsZero frequency)
         (bindE (i64 (nominator * (1000000 * 1000))) (\<lambda>n. bindE (millihertz frequency) (\<lambda>u.
          bindE (idiv n u) TimeDelta_Micros)))))"

definition BitsPerSec :: "int \<Rightarrow> abort + int" where
  "BitsPerSec v = FromValue True v"

definition BytesPerSec :: "int \<Rightarrow> abort + int" where
  "BytesPerSec v = FromFraction True 8 v"

definition KilobitsPerSec :: "int \<Rightarrow> abort + int" where
  "KilobitsPerSec v = FromFraction True 1000 v"

definition bps :: "int \<Rightarrow> abort + int" where
  "bps r = ToValue r"

definition bytes_per_sec :: "int \<Rightarrow> abort + int" where
  "bytes_per_sec r = ToFraction 8 r"

definition kbps :: "int \<Rightarrow> abort + int" where
  "kbps r = ToFraction 1000 r"

definition Microbits :: "int \<Rightarrow> abort + int" where
  "Microbits s =
     bindE (bytes s) (\<lambda>n. check (n \<le> tdiv PlusInfinityVal 8000000) (i64 (n * 8000000)))"

definition MillibytePerSec :: "int \<Rightarrow> abort + int" where
  "MillibytePerSec r =
     bindE (bps r) (\<lambda>n. check (n \<le> tdiv PlusInfinityVal (1000 div 8)) (i64 (n * (1000 div 8))))"

definition size_per_time :: "int \<Rightarrow> int \<Rightarrow> abort + int" where
  "size_per_time sz duration =
     bindE (Microbits sz) (\<lambda>m. bindE (time_us duration) (\<lambda>u. bindE (idiv m u) BitsPerSec))"

definition size_per_rate :: "int \<Rightarrow> int \<Rightarrow> abort + int" where
  "size_per_rate sz rate =
     bindE (Microbits sz) (\<lambda>m. bindE (bps rate) (\<lambda>b. bindE (idiv m b) TimeDelta_Micros))"

definition rate_times :: "int \<Rightarrow> int \<Rightarrow> abort + int" where
  "rate_times rate duration =
     bindE (bps rate) (\<lambda>b. bindE (time_us duration) (\<lambda>u. bindE (i64 (b * u)) (\<lambda>microbits.
     bindE (i64 (microbits + 4000000)) (\<lambda>m. DataSize_Bytes (tdiv m 8000000)))))"

definition rate_per_frequency :: "int \<Rightarrow> int \<Rightarrow> abort + int" where
  "rate_per_frequency rate frequency =
     bindE (millihertz frequency) (\<lambda>h. bindE (MillibytePerSec rate) (\<lambda>m. bindE (idiv m h) DataSize_Bytes))"

definition rate_per_size :: "int \<Rightarrow> int \<Rightarrow> abort + int" where
  "rate_per_size rate sz =
     bindE (MillibytePerSec rate) (\<lambda>m. bindE (bytes sz) (\<lambda>n. bindE (idiv m n) Frequency_MilliHertz))"

definition size_times_frequency :: "int \<Rightarrow> int \<Rightarrow> abort + int" where
  "size_times_frequency sz frequency =
     bindE
       (if IsZero frequency then Inr True
        else bindE (bytes sz) (\<lambda>n. bindE (millihertz frequency) (\<lambda>h.
               bindE (idiv (tdiv PlusInfinityVal 8) h) (\<lambda>q. Inr (n \<le> q))))) (\<lambda>ok.
     check ok
       (bindE (bytes sz) (\<lambda>n. bindE (i64 (n * 8)) (\<lambda>b. bindE (millihertz frequency) (\<lambda>h.
        bindE (i64 (b * h)) (\<lambda>m. bindE (i64 (m + 500)) (\<lambda>x. BitsPerSec (tdiv x 1000))))))))"

section \<open>Division rounds as named\<close>

lemma tdiv_pos: "0 \<le> a \<Longrightarrow> 0 < b \<Longrightarrow> tdiv a b = a div b"
  by (cases "a = 0") (simp_all add: tdiv_def)

lemma tdiv_neg: "a < 0 \<Longrightarrow> 0 < b \<Longrightarrow> tdiv a b = - ((- a) div b)"
  by (simp add: tdiv_def)

lemma tmod_pos: "0 \<le> a \<Longrightarrow> 0 < b \<Longrightarrow> tmod a b = a mod b"
  by (simp add: tmod_def tdiv_pos minus_mult_div_eq_mod)

lemma tmod_neg:
  assumes "a < 0" "0 < b"
  shows "tmod a b = - ((- a) mod b)"
proof -
  have "b * - ((- a) div b) = - (b * ((- a) div b))" by simp
  then show ?thesis
    using minus_mult_div_eq_mod [of "- a" b] unfolding tmod_def tdiv_neg [OF assms] by linarith
qed

lemma div_eqI:
  fixes a b q :: int
  assumes "0 < b" "b * q \<le> a" "a < b * q + b"
  shows "a div b = q"
  by (rule int_div_pos_eq [where r = "a - b * q"]) (use assms in auto)

lemma div_le_self: "0 < b \<Longrightarrow> 0 \<le> a \<Longrightarrow> 0 \<le> a div b \<and> a div b \<le> a" for a b :: int
  using zdiv_mono2 [of a 1 b] by (simp add: pos_imp_zdiv_nonneg_iff)

text \<open>Rounding to nearest with ties upwards, as one division.\<close>

lemma nearest_div:
  fixes a b :: int
  assumes "0 < b"
  shows "(2 * a + b) div (2 * b) = (if b \<le> 2 * (a mod b) then a div b + 1 else a div b)"
proof -
  define q r where "q = a div b" and "r = a mod b"
  have r: "0 \<le> r" "r < b" using assms by (simp_all add: r_def)
  have "a = b * q + r" by (simp add: q_def r_def)
  then have "2 * a + b = (2 * r + b) + (2 * b) * q" by (simp add: algebra_simps)
  then have "(2 * a + b) div (2 * b) = q + (2 * r + b) div (2 * b)"
    using assms by (simp only: div_mult_self2)
  also have "(2 * r + b) div (2 * b) = (if b \<le> 2 * r then 1 else 0)"
    using r by (intro div_eqI) auto
  finally show ?thesis by (simp add: q_def r_def)
qed

lemma nearest_div_neg:
  fixes a b :: int
  assumes "0 < b"
  shows "(b - 2 * a) div (2 * b) = (if b < 2 * (a mod b) then - (a div b) - 1 else - (a div b))"
proof -
  define q r where "q = a div b" and "r = a mod b"
  have r: "0 \<le> r" "r < b" using assms by (simp_all add: r_def)
  have "a = b * q + r" by (simp add: q_def r_def)
  then have "b - 2 * a = (b - 2 * r) + (2 * b) * (- q)" by (simp add: algebra_simps)
  then have "(b - 2 * a) div (2 * b) = - q + (b - 2 * r) div (2 * b)"
    using assms by (simp only: div_mult_self2)
  also have "(b - 2 * r) div (2 * b) = (if b < 2 * r then - 1 else 0)"
    using r by (intro div_eqI) auto
  finally show ?thesis by (simp add: q_def r_def)
qed

lemma DivideRoundToNearest_eq:
  assumes "0 < b" "in_i64 a"
  shows "DivideRoundToNearest a b = Inr ((2 * a + b) div (2 * b))"
proof (cases "a < 0")
  case True
  define c where "c = - a"
  have c: "0 < c" "c \<le> 2 ^ 63" using True assms(2) by (auto simp: c_def in_i64_def)
  have r: "0 \<le> c mod b" "c mod b < b" using assms(1) by simp_all
  have h: "(c mod b > b div 2) = (b < 2 * (c mod b))" by linarith
  have q: "0 \<le> c div b" "c div b \<le> c" using div_le_self [OF assms(1), of c] c by auto
  have "c div b < c" if "b < 2 * (c mod b)"
  proof (cases "b = 1")
    case False
    then show ?thesis using int_div_less_self [of c b] c assms(1) by simp
  qed (use that r in simp)
  then have "in_i64 (- (c div b) - 1)" if "b < 2 * (c mod b)" using that q c by (auto simp: in_i64_def)
  moreover have "(2 * a + b) div (2 * b) = (b - 2 * c) div (2 * b)" by (simp add: c_def add.commute)
  ultimately show ?thesis
    using assms(1) True nearest_div_neg [OF assms(1), of c] h
    unfolding DivideRoundToNearest_def Let_def tdiv_neg [OF True assms(1)] tmod_neg [OF True assms(1)] c_def [symmetric]
    by (auto simp: tdiv_pos)
next
  case False
  then have a: "0 \<le> a" "a < 2 ^ 63" using assms(2) by (auto simp: in_i64_def)
  have r: "0 \<le> a mod b" "a mod b < b" using assms(1) by simp_all
  have h: "(a mod b > (b - 1) div 2) = (b \<le> 2 * (a mod b))" by linarith
  have q: "0 \<le> a div b" "a div b \<le> a" using div_le_self [OF assms(1), of a] a by auto
  have "a div b < a" if "b \<le> 2 * (a mod b)"
  proof (cases "b = 1 \<or> a = 0")
    case False
    then show ?thesis using int_div_less_self [of a b] a assms(1) by simp
  qed (use that r assms(1) in auto)
  then have "in_i64 (a div b + 1)" if "b \<le> 2 * (a mod b)" using that q a by (auto simp: in_i64_def)
  with assms(1) False nearest_div [OF assms(1), of a] h a show ?thesis
    unfolding DivideRoundToNearest_def Let_def by (auto simp: tdiv_pos tmod_pos)
qed

lemma DivideRoundUp_eq:
  assumes "0 < b" "0 \<le> a" "in_i64 a"
  shows "DivideRoundUp a b = Inr ((a + b - 1) div b)"
proof -
  define q r where "q = a div b" and "r = a mod b"
  have r: "0 \<le> r" "r < b" using assms by (simp_all add: r_def)
  have "a + b - 1 = (r + b - 1) + b * q" by (simp add: q_def r_def)
  then have "(a + b - 1) div b = q + (r + b - 1) div b" using assms(1) by (simp only: div_mult_self2)
  also have "(r + b - 1) div b = (if r > 0 then 1 else 0)" using r by (intro div_eqI) auto
  finally have eq: "(a + b - 1) div b = q + (if r > 0 then 1 else 0)" .
  have "q \<le> a" "0 \<le> q" using div_le_self [OF assms(1,2)] by (auto simp: q_def)
  moreover have "q < a" if "r > 0"
    using that int_div_less_self [of a b] assms(1,2) r by (cases "a = 0"; cases "b = 1") (auto simp: q_def r_def)
  ultimately have "in_i64 (q + (if r > 0 then 1 else 0))" using assms(3) by (auto simp: in_i64_def)
  then show ?thesis
    using assms(1,2) eq unfolding DivideRoundUp_def Let_def
    by (simp add: tdiv_pos tmod_pos q_def [symmetric] r_def [symmetric])
qed

text \<open>
  Rounding division. For a positive divisor and any 64-bit dividend neither function overflows:
  rounding up gives the ceiling (of a non-negative dividend), rounding to nearest gives the nearest
  integer, negative dividends included, with ties towards plus infinity. Other arguments fail a check.
\<close>

theorem divide_round_exact:
  assumes "in_i64 a"
  shows "DivideRoundUp a b = (if 0 \<le> a \<and> 0 < b then Inr ((a + b - 1) div b) else Inl CheckFailed)
    \<and> DivideRoundToNearest a b = (if 0 < b then Inr ((2 * a + b) div (2 * b)) else Inl CheckFailed)"
  using DivideRoundUp_eq [OF _ _ assms] DivideRoundToNearest_eq [OF _ assms]
  by (auto simp: DivideRoundUp_def DivideRoundToNearest_def check_def)

theorem divide_round_exact_witness:
  "DivideRoundUp 7 2 = Inr 4 \<and> DivideRoundToNearest (- 5) 2 = Inr (- 2) \<and> DivideRoundToNearest 5 2 = Inr 3"
  using divide_round_exact [of 7 2] divide_round_exact [of "- 5" 2] divide_round_exact [of 5 2]
  by (simp add: in_i64_def)

section \<open>Conversions round trip\<close>

lemmas inf_vals = PlusInfinityVal_def MinusInfinityVal_def
lemmas unit_finite = IsFinite_def IsInfinite_def IsPlusInfinity_def IsMinusInfinity_def

lemma FromFraction_value:
  assumes "0 < den" "FromFraction os den v = Inr t"
  shows "t = v * den" "IsFinite t" "in_i64 t"
proof -
  from assms(2) have t: "t = v * den" "in_i64 t" "v > tdiv MinusInfinityVal den" "v < tdiv PlusInfinityVal den"
    by (auto simp: FromFraction_def)
  have 1: "v < PlusInfinityVal div den" using t(4) assms(1) by (simp add: tdiv_pos inf_vals)
  have 2: "- v < (2 ^ 63) div den" using t(3) assms(1) by (simp add: tdiv_neg inf_vals)
  have "v * den \<noteq> PlusInfinityVal" using 1 assms(1) nonzero_mult_div_cancel_right [of den v] by force
  moreover have "v * den \<noteq> MinusInfinityVal"
  proof
    assume "v * den = MinusInfinityVal"
    then have "2 ^ 63 = (- v) * den" by (simp add: inf_vals)
    then show False using 2 assms(1) nonzero_mult_div_cancel_right [of den "- v"] by auto
  qed
  ultimately show "IsFinite t" by (simp add: unit_finite t)
  show "t = v * den" "in_i64 t" by (rule t)+
qed

lemma FromFraction_ToFraction:
  assumes "0 < den" "FromFraction os den v = Inr t"
  shows "ToFraction den t = Inr v"
proof -
  note t = FromFraction_value [OF assms]
  have "2 * t + den = (2 * v + 1) * den" by (simp add: t(1) algebra_simps)
  then have "(2 * t + den) div (2 * den) = v" using assms(1) by simp
  then show ?thesis using t assms(1) by (simp add: ToFraction_def DivideRoundToNearest_eq)
qed

lemma FromValue_ToValue: "FromValue os v = Inr t \<Longrightarrow> ToValue t = Inr v"
  by (auto simp: FromValue_def ToValue_def unit_finite)

text \<open>
  Every unit gives back the number it was made from: whenever a constructor accepts a number, the
  accessor of the same scale returns exactly that number, for time deltas, timestamps, frequencies,
  data rates and data sizes.
\<close>

theorem unit_conversion_roundtrip:
  "(TimeDelta_Seconds v = Inr t \<or> Timestamp_Seconds v = Inr t \<longrightarrow> time_seconds t = Inr v) \<and>
   (TimeDelta_Millis v = Inr t \<or> Timestamp_Millis v = Inr t \<longrightarrow> time_ms t = Inr v) \<and>
   (TimeDelta_Micros v = Inr t \<or> Timestamp_Micros v = Inr t \<longrightarrow> time_us t = Inr v) \<and>
   (Frequency_Hertz v = Inr t \<longrightarrow> hertz t = Inr v) \<and>
   (Frequency_MilliHertz v = Inr t \<longrightarrow> millihertz t = Inr v) \<and>
   (BytesPerSec v = Inr t \<longrightarrow> bytes_per_sec t = Inr v) \<and>
   (KilobitsPerSec v = Inr t \<longrightarrow> kbps t = Inr v) \<and>
   (BitsPerSec v = Inr t \<longrightarrow> bps t = Inr v) \<and> (DataSize_Bytes v = Inr t \<longrightarrow> bytes t = Inr v)"
  unfolding TimeDelta_Seconds_def Timestamp_Seconds_def time_seconds_def TimeDelta_Millis_def Timestamp_Millis_def
    time_ms_def TimeDelta_Micros_def Timestamp_Micros_def time_us_def Frequency_Hertz_def hertz_def
    Frequency_MilliHertz_def millihertz_def BytesPerSec_def bytes_per_sec_def KilobitsPerSec_def kbps_def
    BitsPerSec_def bps_def DataSize_Bytes_def bytes_def
  by (intro conjI impI; (elim disjE)?; (rule FromFraction_ToFraction [rotated] | rule FromValue_ToValue); simp)

theorem unit_conversion_roundtrip_witness:
  "TimeDelta_Seconds (- 3) = Inr (- 3000000) \<and> time_seconds (- 3000000) = Inr (- 3) \<and>
   KilobitsPerSec 7 = Inr 7000 \<and> kbps 7000 = Inr 7"
proof -
  have 1: "TimeDelta_Seconds (- 3) = Inr (- 3000000)" "KilobitsPerSec 7 = Inr 7000"
    by (simp_all add: TimeDelta_Seconds_def KilobitsPerSec_def FromFraction_def inf_vals tdiv_def in_i64_def)
  with unit_conversion_roundtrip [of "- 3" "- 3000000"] unit_conversion_roundtrip [of 7 7000]
  show ?thesis by blast
qed

section \<open>Arithmetic with infinities\<close>

text \<open>
  Addition of relative units, on every pair of 64-bit values. Finite values give their sum, and an
  error when it is not a finite 64-bit value or is negative in a one-sided unit; an infinity absorbs
  finite values and itself; opposite infinities fail a check.
\<close>

theorem unit_add_outcome:
  assumes "in_i64 a" and "in_i64 b"
  shows "unit_add os a b =
    (if IsFinite a \<and> IsFinite b then
       (if \<not> in_i64 (a + b) then Inl SignedOverflow
        else if (os \<and> a + b < 0) \<or> \<not> IsFinite (a + b) then Inl CheckFailed else Inr (a + b))
     else if IsFinite a \<or> a = b then Inr b
     else if IsFinite b then Inr a else Inl CheckFailed)"
  using assms
  by (auto simp: unit_add_def unit_finite inf_vals check_def ToValue_def i64_def FromValue_def in_i64_def)

theorem unit_add_outcome_witness:
  "unit_add False (2 ^ 62) (2 ^ 62) = Inl SignedOverflow \<and> unit_add True 3 (- 4) = Inl CheckFailed \<and>
   unit_add False PlusInfinityVal 5 = Inr PlusInfinityVal \<and>
   unit_add False PlusInfinityVal MinusInfinityVal = Inl CheckFailed"
  using unit_add_outcome [of "2 ^ 62" "2 ^ 62" False] unit_add_outcome [of 3 "- 4" True]
    unit_add_outcome [of PlusInfinityVal 5 False] unit_add_outcome [of PlusInfinityVal MinusInfinityVal False]
  by (simp add: in_i64_def unit_finite inf_vals)

text \<open>
  The contract of a relative unit towards code that accumulates quantities: adding commutes, and
  what was added to a finite quantity can be taken off again.
\<close>

locale relative_unit =
  fixes legal :: "int \<Rightarrow> bool"
    and plus_eq :: "int \<Rightarrow> int \<Rightarrow> abort + int"
    and minus_eq :: "int \<Rightarrow> int \<Rightarrow> abort + int"
  assumes plus_comm: "plus_eq a b = plus_eq b a"
    and plus_value: "IsFinite a \<Longrightarrow> IsFinite b \<Longrightarrow> plus_eq a b = Inr c \<Longrightarrow> c = a + b \<and> IsFinite c \<and> legal c"
    and minus_plus: "legal a \<Longrightarrow> IsFinite a \<Longrightarrow> IsFinite b \<Longrightarrow> plus_eq a b = Inr c \<Longrightarrow> minus_eq c b = Inr a"
begin

fun add_all :: "int \<Rightarrow> int list \<Rightarrow> abort + int" where
  "add_all a [] = Inr a"
| "add_all a (b # bs) = bindE (plus_eq a b) (\<lambda>c. add_all c bs)"

fun remove_all :: "int \<Rightarrow> int list \<Rightarrow> abort + int" where
  "remove_all c [] = Inr c"
| "remove_all c (b # bs) = bindE (minus_eq c b) (\<lambda>a. remove_all a bs)"

lemma remove_all_append: "remove_all c (xs @ ys) = bindE (remove_all c xs) (\<lambda>a. remove_all a ys)"
  by (induction xs arbitrary: c) (simp_all add: bindE_assoc)

lemma add_all_value:
  "legal a \<Longrightarrow> IsFinite a \<Longrightarrow> \<forall>b\<in>set bs. IsFinite b \<Longrightarrow> add_all a bs = Inr c \<Longrightarrow> c = a + sum_list bs \<and> IsFinite c"
proof (induction bs arbitrary: a)
  case (Cons b bs)
  then obtain d where d: "plus_eq a b = Inr d" "add_all d bs = Inr c" by auto
  from Cons.prems have b: "IsFinite b" by simp
  have v: "d = a + b" "legal d" "IsFinite d" using plus_value [OF Cons.prems(2) b d(1)] by blast+
  have "\<forall>x\<in>set bs. IsFinite x" using Cons.prems(3) by simp
  from Cons.IH [OF v(2,3) this d(2)] v(1) show ?case by auto
qed simp

lemma remove_add_all:
  "legal a \<Longrightarrow> IsFinite a \<Longrightarrow> \<forall>b\<in>set bs. IsFinite b \<Longrightarrow> add_all a bs = Inr c \<Longrightarrow> remove_all c (rev bs) = Inr a"
proof (induction bs arbitrary: a)
  case (Cons b bs)
  then obtain d where d: "plus_eq a b = Inr d" "add_all d bs = Inr c" by auto
  from Cons.prems have b: "IsFinite b" by simp
  have "legal d" "IsFinite d" using plus_value [OF Cons.prems(2) b d(1)] by blast+
  with Cons.prems Cons.IH [of d] d have "remove_all c (rev bs) = Inr d" by simp
  with minus_plus [OF Cons.prems(1,2) b d(1)] show ?case by (simp add: remove_all_append)
qed simp

end

lemma unit_add_comm: "unit_add os a b = unit_add os b a"
  by (auto simp: unit_add_def add.commute check_def ToValue_def)

lemma unit_add_value:
  "IsFinite a \<Longrightarrow> IsFinite b \<Longrightarrow> unit_add os a b = Inr c \<Longrightarrow> c = a + b \<and> IsFinite c \<and> (os \<longrightarrow> 0 \<le> c) \<and> in_i64 c"
  by (auto simp: unit_add_def FromValue_def ToValue_def unit_finite)

lemma unit_sub_add:
  assumes "os \<longrightarrow> 0 \<le> a" "in_i64 a" "IsFinite a" "IsFinite b" "unit_add os a b = Inr c"
  shows "unit_sub os c b = Inr a"
  using assms unit_add_value [OF assms(3-5)]
  by (auto simp: unit_sub_def FromValue_def ToValue_def unit_finite inf_vals in_i64_def)

text \<open>Time deltas, and the three units that hold no negative values.\<close>

interpretation time_delta: relative_unit in_i64 "unit_add False" "unit_sub False"
  by unfold_locales (auto simp: unit_add_comm intro: unit_sub_add dest: unit_add_value)

interpretation one_sided_unit: relative_unit "\<lambda>a. 0 \<le> a \<and> in_i64 a" "unit_add True" "unit_sub True"
  by unfold_locales (auto simp: unit_add_comm intro: unit_sub_add dest: unit_add_value)

text \<open>
  Timestamps and time deltas are inverse: if the difference of two finite timestamps is a time
  delta, adding it to the earlier one gives the later one back, and taking it off the later one gives
  the earlier one; conversely the difference after adding a delta is that delta.
\<close>

theorem timestamp_delta_inverse:
  assumes "in_i64 t" "in_i64 u" "in_i64 d" "IsFinite t" "IsFinite u" "IsFinite d"
  shows "(Timestamp_diff t u = Inr d \<longrightarrow> Timestamp_add u d = Inr t \<and> Timestamp_sub_delta t d = Inr u)
    \<and> (Timestamp_add u d = Inr t \<longrightarrow> Timestamp_diff t u = Inr d)"
  using assms
  by (auto simp: Timestamp_diff_def Timestamp_add_def Timestamp_sub_delta_def time_us_def ToValue_def
      Timestamp_Micros_def TimeDelta_Micros_def FromValue_def unit_finite inf_vals in_i64_def)

theorem timestamp_delta_inverse_witness:
  "Timestamp_diff 5 12 = Inr (- 7) \<and> Timestamp_add 12 (- 7) = Inr 5 \<and> Timestamp_sub_delta 5 (- 7) = Inr 12"
proof -
  have "Timestamp_diff 5 12 = Inr (- 7)"
    by (simp add: Timestamp_diff_def time_us_def ToValue_def TimeDelta_Micros_def FromValue_def unit_finite inf_vals
        in_i64_def)
  with timestamp_delta_inverse [of 5 12 "- 7"] show ?thesis by (simp add: in_i64_def unit_finite inf_vals)
qed

section \<open>Rounding to a resolution\<close>

lemma unit_mul_value: "0 \<le> x \<Longrightarrow> 0 < s \<Longrightarrow> x * s < PlusInfinityVal \<Longrightarrow> unit_mul os x s = Inr (x * s)"
proof -
  assume a: "0 \<le> x" "0 < s" "x * s < PlusInfinityVal"
  have p: "0 \<le> x * s" using a by simp
  have "x \<le> x * s" using a mult_left_mono [of 1 s x] by simp
  with a p show ?thesis
    by (auto simp: unit_mul_def ToValue_def FromValue_def unit_finite inf_vals in_i64_def i64_def)
qed

text \<open>
  Rounding a non-negative quantity to a resolution \<open>r\<close>: down gives the greatest multiple not above
  it, up the least multiple not below it, nearest the multiple at most half a resolution away. For
  negative quantities the truncating division breaks this: rounding \<open>-7\<close> up to a multiple of 5 gives 0,
  rounding it down gives \<open>-5\<close>, and \<open>-8\<close> is rounded to \<open>-5\<close>, which is not the nearest multiple.
\<close>

theorem round_to_resolution:
  "(0 \<le> v \<and> 0 < r \<and> v + r < PlusInfinityVal \<longrightarrow>
     RoundDownTo os r v = Inr (v div r * r) \<and> RoundUpTo os r v = Inr ((v + r - 1) div r * r) \<and>
     RoundTo os r v = Inr ((v + r div 2) div r * r))
   \<and> RoundUpTo False 5 (- 7) = Inr 0 \<and> RoundDownTo False 5 (- 7) = Inr (- 5) \<and>
     RoundTo False 5 (- 8) = Inr (- 5)"
proof (intro conjI impI)
  assume a: "0 \<le> v \<and> 0 < r \<and> v + r < PlusInfinityVal"
  then have f: "IsFinite v" "IsFinite r" by (auto simp: unit_finite inf_vals)
  have m: "unit_mul os (x div r) r = Inr (x div r * r)" "0 \<le> x div r" if "0 \<le> x" "x < PlusInfinityVal" for x
  proof -
    show "0 \<le> x div r" using that a by (simp add: pos_imp_zdiv_nonneg_iff)
    have "x div r * r \<le> x" using div_mult_mod_eq [of x r] pos_mod_sign [of r x] a by linarith
    with that a \<open>0 \<le> x div r\<close> show "unit_mul os (x div r) r = Inr (x div r * r)" by (intro unit_mul_value) auto
  qed
  have h: "0 \<le> r div 2" "r div 2 \<le> r" using a by auto
  show "RoundDownTo os r v = Inr (v div r * r)"
    using a f m(1) [of v] by (simp add: RoundDownTo_def tdiv_pos)
  show "RoundUpTo os r v = Inr ((v + r - 1) div r * r)"
    using a f m(1) [of "v + r - 1"] by (simp add: RoundUpTo_def tdiv_pos in_i64_def inf_vals)
  have x: "0 \<le> v + r div 2" "v + r div 2 < PlusInfinityVal" using a h by linarith+
  then have "in_i64 (v + r div 2)" unfolding in_i64_def inf_vals by linarith
  with a f x m(1) [OF x] show "RoundTo os r v = Inr ((v + r div 2) div r * r)"
    by (simp add: RoundTo_def tdiv_pos)
qed (simp_all add: RoundUpTo_def RoundDownTo_def RoundTo_def unit_mul_def ToValue_def FromValue_def unit_finite
    inf_vals in_i64_def tdiv_def)

theorem round_to_resolution_witness:
  "RoundDownTo True 10 27 = Inr 20 \<and> RoundUpTo True 10 27 = Inr 30 \<and> RoundTo True 10 25 = Inr 30"
  using round_to_resolution [of 27 10 True] round_to_resolution [of 25 10 True] by (simp add: inf_vals)

section \<open>Rates, sizes and durations\<close>

text \<open>
  Data rate times duration, for a rate and a duration that are not negative. The size is the
  number of bytes rounded to nearest, and the operation has no check of its range: from
  \<open>2\<^sup>6\<^sup>3 - 4000000\<close> microbits on (a little over five hours at 500 Mbit/s) it overflows.
\<close>

theorem rate_times_duration:
  assumes "0 \<le> rate" "0 \<le> duration" "IsFinite rate" "IsFinite duration"
  shows "rate_times rate duration =
    (if rate * duration + 4000000 < 2 ^ 63 then Inr ((rate * duration + 4000000) div 8000000)
     else Inl SignedOverflow)"
proof -
  have p: "0 \<le> rate * duration" using assms by simp
  have q: "0 \<le> (rate * duration + 4000000) div 8000000"
    "(rate * duration + 4000000) div 8000000 \<le> rate * duration + 4000000"
    using div_le_self [of 8000000 "rate * duration + 4000000"] p by auto
  have "(rate * duration + 4000000) div 8000000 < PlusInfinityVal" if "rate * duration + 4000000 < 2 ^ 63"
    using that p by (simp add: inf_vals)
  with assms p q show ?thesis
    by (auto simp: rate_times_def bps_def time_us_def ToValue_def i64_def in_i64_def DataSize_Bytes_def FromValue_def
        tdiv_pos inf_vals)
qed

theorem rate_times_duration_witness:
  "rate_times 500000000 18000000000 = Inr 1125000000000 \<and>
   rate_times 1000000000 18000000000 = Inl SignedOverflow"
  using rate_times_duration [of 500000000 18000000000] rate_times_duration [of 1000000000 18000000000]
  by (simp add: unit_finite inf_vals)

end
