(* ===== verification/Used_Ids.thy ===== *)
theory Used_Ids
  imports Prelude
begin

text \<open>
  \<^verbatim>\<open>pc/used_ids.h\<close>: giving colliding payload types and header extensions of a session description
  new ids. The class \<^verbatim>\<open>UsedIds\<close> and its two subclasses are one state with a kind, on which the
  virtual functions dispatch. The loops that search for an unused id are recursive functions.
\<close>

section \<open>State\<close>

datatype IdDomain = kOneByteOnly | kTwoByteAllowed

datatype id_kind = Plain | PayloadTypes | HeaderExtensions IdDomain

record used_ids =
  kind :: id_kind
  min_allowed_id :: int
  max_allowed_id :: int
  next_id :: int
  next_extension_id :: int
  id_set :: "int set"

definition kFirstDynamicPayloadTypeLowerRange :: int where
  "kFirstDynamicPayloadTypeLowerRange = 35"

definition kLastDynamicPayloadTypeLowerRange :: int where
  "kLastDynamicPayloadTypeLowerRange = 63"

definition kFirstDynamicPayloadTypeUpperRange :: int where
  "kFirstDynamicPayloadTypeUpperRange = 96"

definition kLastDynamicPayloadTypeUpperRange :: int where
  "kLastDynamicPayloadTypeUpperRange = 127"

definition kMinId :: int where "kMinId = 1"

definition kMaxId :: int where "kMaxId = 255"

definition kOneByteHeaderExtensionMaxId :: int where "kOneByteHeaderExtensionMaxId = 14"

lemmas id_consts =
  kFirstDynamicPayloadTypeLowerRange_def kLastDynamicPayloadTypeLowerRange_def
  kFirstDynamicPayloadTypeUpperRange_def kLastDynamicPayloadTypeUpperRange_def
  kMinId_def kMaxId_def kOneByteHeaderExtensionMaxId_def

definition UsedIds :: "int \<Rightarrow> int \<Rightarrow> used_ids" where
  "UsedIds lo hi =
     \<lparr>kind = Plain, min_allowed_id = lo, max_allowed_id = hi, next_id = hi, next_extension_id = 0, id_set = {}\<rparr>"

definition UsedPayloadTypes :: used_ids where
  "UsedPayloadTypes =
     (UsedIds kFirstDynamicPayloadTypeLowerRange kLastDynamicPayloadTypeUpperRange)\<lparr>kind := PayloadTypes\<rparr>"

definition UsedRtpHeaderExtensionIds :: "IdDomain \<Rightarrow> used_ids" where
  "UsedRtpHeaderExtensionIds id_domain =
     (UsedIds kMinId (if id_domain = kTwoByteAllowed then kMaxId else kOneByteHeaderExtensionMaxId))
       \<lparr>kind := HeaderExtensions id_domain, next_extension_id := kOneByteHeaderExtensionMaxId\<rparr>"

section \<open>Operations\<close>

definition IsIdValid :: "int \<Rightarrow> bool \<Rightarrow> bool" where
  "IsIdValid codec_id rtcp_mux =
     (if rtcp_mux \<and> codec_id > kLastDynamicPayloadTypeLowerRange \<and> codec_id < kFirstDynamicPayloadTypeUpperRange
      then False else codec_id \<ge> 0 \<and> codec_id \<le> kLastDynamicPayloadTypeUpperRange)"

definition IsIdUsed :: "used_ids \<Rightarrow> int \<Rightarrow> bool" where
  "IsIdUsed s new_id =
     (if kind s = PayloadTypes \<and> new_id > kLastDynamicPayloadTypeLowerRange \<and>
         new_id < kFirstDynamicPayloadTypeUpperRange
      then True else new_id \<in> id_set s)"

text \<open>The two search loops.\<close>

function search_down :: "(int \<Rightarrow> bool) \<Rightarrow> int \<Rightarrow> int \<Rightarrow> int" where
  "search_down used lo i = (if used i \<and> i \<ge> lo then search_down used lo (i - 1) else i)"
  by auto
termination by (relation "measure (\<lambda>(used, lo, i). nat (i - lo + 1))") auto

function search_up :: "(int \<Rightarrow> bool) \<Rightarrow> int \<Rightarrow> int \<Rightarrow> int" where
  "search_up used hi i = (if used i \<and> i \<le> hi then search_up used hi (i + 1) else i)"
  by auto
termination by (relation "measure (\<lambda>(used, hi, i). nat (hi - i + 1))") auto

declare search_down.simps [simp del] search_up.simps [simp del]

definition FindUnusedId_base :: "used_ids \<Rightarrow> abort + (int \<times> used_ids)" where
  "FindUnusedId_base s =
     (let n = search_down (IsIdUsed s) (min_allowed_id s) (next_id s)
      in check (n \<ge> min_allowed_id s) (Inr (n, s\<lparr>next_id := n\<rparr>)))"

definition FindUnusedId_ext :: "IdDomain \<Rightarrow> used_ids \<Rightarrow> abort + (int \<times> used_ids)" where
  "FindUnusedId_ext idd s =
     (let lo = min_allowed_id s; hi = max_allowed_id s; m = kOneByteHeaderExtensionMaxId;
          n1 = (if next_extension_id s \<le> m then search_down (IsIdUsed s) lo (next_extension_id s)
                else next_extension_id s);
          n2 = (if idd = kTwoByteAllowed then
                  let n = (if n1 < lo then m + 2 else n1)
                  in if n > m then search_up (IsIdUsed s) hi n else n
                else n1)
      in check (n2 \<ge> lo) (check (n2 \<le> hi) (Inr (n2, s\<lparr>next_extension_id := n2\<rparr>))))"

definition FindUnusedId :: "used_ids \<Rightarrow> abort + (int \<times> used_ids)" where
  "FindUnusedId s = (case kind s of HeaderExtensions d \<Rightarrow> FindUnusedId_ext d s | _ \<Rightarrow> FindUnusedId_base s)"

definition SetIdUsed :: "int \<Rightarrow> used_ids \<Rightarrow> abort + used_ids" where
  "SetIdUsed new_id s =
     check (new_id \<ge> min_allowed_id s) (check (new_id \<le> max_allowed_id s) (check (\<not> IsIdUsed s new_id)
       (Inr (s\<lparr>id_set := insert new_id (id_set s)\<rparr>))))"

text \<open>The id of the structure and the state, after the call.\<close>

definition FindAndSetIdUsed :: "int \<Rightarrow> used_ids \<Rightarrow> abort + (int \<times> used_ids)" where
  "FindAndSetIdUsed original_id s =
     (if original_id > max_allowed_id s \<or> original_id < min_allowed_id s then Inr (original_id, s)
      else
        bindE (if IsIdUsed s original_id then FindUnusedId s else Inr (original_id, s)) (\<lambda>(new_id, s1).
        bindE (SetIdUsed new_id s1) (\<lambda>s2. Inr (new_id, s2))))"

section \<open>The allocator contract\<close>

text \<open>
  What the callers rely on, given all ids of a description in turn: an id outside the range is left
  alone; inside it, the id afterwards is in the range, was not taken, and is taken from then on; an id
  that was free keeps its value. A call fails only when no id is left.
\<close>

locale id_allocator =
  fixes inv :: "'s \<Rightarrow> bool"
    and in_range :: "'s \<Rightarrow> int \<Rightarrow> bool"
    and taken :: "'s \<Rightarrow> int set"
    and busy :: "'s \<Rightarrow> int \<Rightarrow> bool"
    and reserved :: "'s \<Rightarrow> int set"
    and allocatable :: "'s \<Rightarrow> int set"
    and assign :: "int \<Rightarrow> 's \<Rightarrow> abort + (int \<times> 's)"
  assumes taken_busy: "inv s \<Longrightarrow> i \<in> taken s \<union> reserved s \<Longrightarrow> busy s i"
    and outside: "inv s \<Longrightarrow> \<not> in_range s i \<Longrightarrow> assign i s = Inr (i, s)"
    and keeps: "inv s \<Longrightarrow> assign i s = Inr (j, t) \<Longrightarrow> 
      inv t \<and> in_range t = in_range s \<and> reserved t = reserved s \<and> allocatable t = allocatable s"
    and inside: "inv s \<Longrightarrow> in_range s i \<Longrightarrow> assign i s = Inr (j, t) \<Longrightarrow>
      in_range s j \<and> \<not> busy s j \<and> taken t = insert j (taken s) \<and> (\<not> busy s i \<longrightarrow> j = i)"
    and total: "inv s \<Longrightarrow> in_range s i \<Longrightarrow> \<exists>j\<in>allocatable s. \<not> busy s j \<Longrightarrow> \<exists>r. assign i s = Inr r"
begin

fun assign_all :: "int list \<Rightarrow> 's \<Rightarrow> abort + (int list \<times> 's)" where
  "assign_all [] s = Inr ([], s)"
| "assign_all (i # is) s = bindE (assign i s) (\<lambda>(j, t). bindE (assign_all is t) (\<lambda>(js, u). Inr (j # js, u)))"

lemma assign_all_inv: "inv s \<Longrightarrow> assign_all is s = Inr (js, t) \<Longrightarrow> inv t"
proof (induction "is" arbitrary: s js)
  case (Cons i "is")
  then obtain j u ks where "assign i s = Inr (j, u)" "assign_all is u = Inr (ks, t)" by (auto split: prod.splits)
  with Cons keeps show ?case by blast
qed simp

lemma assign_all_fresh:
  "inv s \<Longrightarrow> assign_all is s = Inr (js, t) \<Longrightarrow>
   length js = length is \<and> distinct (filter (in_range s) js) \<and>
   (\<forall>j\<in>set js. in_range s j \<longrightarrow> j \<notin> taken s \<union> reserved s) \<and>
   (\<forall>(i, j)\<in>set (zip is js). in_range s j = in_range s i \<and> (\<not> in_range s i \<longrightarrow> j = i))"
proof (induction "is" arbitrary: s js t)
  case (Cons i "is")
  then obtain j u ks where a: "assign i s = Inr (j, u)" "assign_all is u = Inr (ks, t)" "js = j # ks"
    by (auto split: prod.splits)
  note k = keeps [OF Cons.prems(1) a(1)]
  from Cons.IH [OF _ a(2)] k have IH: "length ks = length is" "distinct (filter (in_range s) ks)"
    "\<forall>k\<in>set ks. in_range s k \<longrightarrow> k \<notin> taken u \<union> reserved s"
    "\<forall>(i, j)\<in>set (zip is ks). in_range s j = in_range s i \<and> (\<not> in_range s i \<longrightarrow> j = i)" by auto
  show ?case
  proof (cases "in_range s i")
    case True
    from inside [OF Cons.prems(1) True a(1)] taken_busy [OF Cons.prems(1), of j] IH True show ?thesis
      by (auto simp: a(3))
  next
    case False
    from outside [OF Cons.prems(1) False] a(1) IH False show ?thesis by (auto simp: a(3))
  qed
qed simp

end

section \<open>The searches\<close>

lemma search_down_spec:
  "search_down used lo i \<le> i \<and> (\<forall>k. search_down used lo i < k \<and> k \<le> i \<longrightarrow> used k) \<and>
   (lo \<le> search_down used lo i \<longrightarrow> \<not> used (search_down used lo i))"
proof (induction used lo i rule: search_down.induct)
  case (1 used lo i)
  show ?case
  proof (cases "used i \<and> lo \<le> i")
    case True
    have all: "used k" if "search_down used lo (i - 1) < k" "k \<le> i" for k
      using 1 [OF True] that True by (cases "k = i") auto
    show ?thesis unfolding search_down.simps [of used lo i] using 1 [OF True] True all by auto
  next
    case False
    then show ?thesis unfolding search_down.simps [of used lo i] by auto
  qed
qed

lemma search_up_spec:
  "i \<le> search_up used hi i \<and> (\<forall>k. i \<le> k \<and> k < search_up used hi i \<longrightarrow> used k) \<and>
   (search_up used hi i \<le> hi \<longrightarrow> \<not> used (search_up used hi i))"
proof (induction used hi i rule: search_up.induct)
  case (1 used hi i)
  show ?case
  proof (cases "used i \<and> i \<le> hi")
    case True
    have all: "used k" if "i \<le> k" "k < search_up used hi (i + 1)" for k
      using 1 [OF True] that True by (cases "k = i") auto
    show ?thesis unfolding search_up.simps [of used hi i] using 1 [OF True] True all by auto
  next
    case False
    then show ?thesis unfolding search_up.simps [of used hi i] by auto
  qed
qed

section \<open>The invariant of the search positions\<close>

definition ids_inv :: "used_ids \<Rightarrow> bool" where
  "ids_inv s =
     (case kind s of
        HeaderExtensions d \<Rightarrow>
          min_allowed_id s = 1 \<and> max_allowed_id s = (if d = kTwoByteAllowed then 255 else 14) \<and>
          (if next_extension_id s \<le> 14
           then \<forall>i. next_extension_id s < i \<and> i \<le> 14 \<longrightarrow> IsIdUsed s i
           else d = kTwoByteAllowed \<and> 16 \<le> next_extension_id s \<and>
             (\<forall>i. 1 \<le> i \<and> i \<le> 14 \<or> 16 \<le> i \<and> i < next_extension_id s \<longrightarrow> IsIdUsed s i))
      | _ \<Rightarrow> next_id s \<le> max_allowed_id s \<and> (\<forall>i. next_id s < i \<and> i \<le> max_allowed_id s \<longrightarrow> IsIdUsed s i))"

definition ids_range :: "used_ids \<Rightarrow> int \<Rightarrow> bool" where
  "ids_range s i \<longleftrightarrow> min_allowed_id s \<le> i \<and> i \<le> max_allowed_id s"

text \<open>Every id of the range can be allocated but header extension 15.\<close>

definition ids_allocatable :: "used_ids \<Rightarrow> int set" where
  "ids_allocatable s =
     {i. ids_range s i \<and> (case kind s of HeaderExtensions _ \<Rightarrow> i \<noteq> 15 | _ \<Rightarrow> True)}"

definition found_ok :: "used_ids \<Rightarrow> abort + (int \<times> used_ids) \<Rightarrow> bool" where
  "found_ok s r =
     (case r of
        Inr (n, t) \<Rightarrow> ids_range s n \<and> \<not> IsIdUsed s n \<and> ids_inv t \<and> id_set t = id_set s \<and> kind t = kind s \<and>
          min_allowed_id t = min_allowed_id s \<and> max_allowed_id t = max_allowed_id s
      | Inl _ \<Rightarrow> \<forall>i\<in>ids_allocatable s. IsIdUsed s i)"

lemma found_base:
  assumes inv: "ids_inv s" and kind: "\<forall>d. kind s \<noteq> HeaderExtensions d"
  shows "found_ok s (FindUnusedId_base s)"
proof -
  let ?n = "search_down (IsIdUsed s) (min_allowed_id s) (next_id s)"
  note sp = search_down_spec [of "IsIdUsed s" "min_allowed_id s" "next_id s"]
  have i: "next_id s \<le> max_allowed_id s" "\<And>i. next_id s < i \<Longrightarrow> i \<le> max_allowed_id s \<Longrightarrow> IsIdUsed s i"
    using inv kind by (cases "kind s"; auto simp: ids_inv_def)+
  have u: "IsIdUsed s i" if "?n < i" "i \<le> max_allowed_id s" for i
    using sp i(2) [of i] that by (cases "i \<le> next_id s") auto
  have k: "IsIdUsed (s\<lparr>next_id := m\<rparr>) = IsIdUsed s" for m by (auto simp: IsIdUsed_def fun_eq_iff)
  show ?thesis
  proof (cases "min_allowed_id s \<le> ?n")
    case True
    then show ?thesis using sp i u kind
      by (cases "kind s") (auto simp: found_ok_def FindUnusedId_base_def Let_def ids_range_def ids_inv_def k)
  next
    case False
    then show ?thesis using u
      by (auto simp: found_ok_def FindUnusedId_base_def Let_def ids_allocatable_def ids_range_def)
  qed
qed

lemma found_ext:
  assumes inv: "ids_inv s" and kind: "kind s = HeaderExtensions d"
  shows "found_ok s (FindUnusedId_ext d s)"
proof -
  let ?u = "IsIdUsed s" and ?n0 = "next_extension_id s" and ?hi = "if d = kTwoByteAllowed then 255 else 14 :: int"
  have b: "min_allowed_id s = 1" "max_allowed_id s = ?hi" using inv kind by (auto simp: ids_inv_def)
  have k: "IsIdUsed (s\<lparr>next_extension_id := m\<rparr>) = ?u" for m by (auto simp: IsIdUsed_def fun_eq_iff)
  have ok: "found_ok s (Inr (n, s\<lparr>next_extension_id := n\<rparr>))"
    if "1 \<le> n" "n \<le> ?hi" "\<not> ?u n" "n \<le> 14 \<Longrightarrow> \<forall>i. n < i \<and> i \<le> 14 \<longrightarrow> ?u i"
      "14 < n \<Longrightarrow> 16 \<le> n \<and> (\<forall>i. 1 \<le> i \<and> i \<le> 14 \<or> 16 \<le> i \<and> i < n \<longrightarrow> ?u i)" for n
    using that kind b by (auto simp: found_ok_def ids_range_def ids_inv_def k split: if_splits)
  have split: "i \<noteq> 15 \<Longrightarrow> i \<le> 14 \<or> 16 \<le> i" for i :: int by linarith
  have fail: "found_ok s (Inl e)"
    if "\<forall>i. 1 \<le> i \<and> i \<le> 14 \<longrightarrow> ?u i" "d = kTwoByteAllowed \<Longrightarrow> \<forall>i. 16 \<le> i \<and> i \<le> 255 \<longrightarrow> ?u i" for e
    using that kind b by (cases d) (auto simp: found_ok_def ids_allocatable_def ids_range_def dest!: split)
  have up: "found_ok s (check (1 \<le> search_up ?u 255 n) (check (search_up ?u 255 n \<le> 255)
      (Inr (search_up ?u 255 n, s\<lparr>next_extension_id := search_up ?u 255 n\<rparr>))))"
    if "16 \<le> n" "d = kTwoByteAllowed" "\<forall>i. 1 \<le> i \<and> i \<le> 14 \<or> 16 \<le> i \<and> i < n \<longrightarrow> ?u i" for n
  proof -
    note sp = search_up_spec [of n ?u 255]
    have all: "?u i" if "16 \<le> i" "i < search_up ?u 255 n" for i
      using sp that \<open>\<forall>i. _ \<longrightarrow> ?u i\<close> by (cases "i < n") auto
    show ?thesis
    proof (cases "search_up ?u 255 n \<le> 255")
      case True
      then show ?thesis using sp that all by (auto intro!: ok simp: that(2))
    next
      case False
      then show ?thesis using sp that all by (auto intro!: fail)
    qed
  qed
  show ?thesis
  proof (cases "?n0 \<le> 14")
    case True
    let ?n1 = "search_down ?u 1 ?n0"
    note sp = search_down_spec [of ?u 1 ?n0]
    have n0: "\<forall>i. ?n0 < i \<and> i \<le> 14 \<longrightarrow> ?u i" using inv kind True by (auto simp: ids_inv_def)
    have all: "\<forall>i. ?n1 < i \<and> i \<le> 14 \<longrightarrow> ?u i"
      using sp n0 by (metis not_le)
    show ?thesis
    proof (cases "1 \<le> ?n1")
      case one: True
      then have "FindUnusedId_ext d s = Inr (?n1, s\<lparr>next_extension_id := ?n1\<rparr>)"
        using True sp b by (cases d) (auto simp: FindUnusedId_ext_def Let_def kOneByteHeaderExtensionMaxId_def check_def)
      moreover have "found_ok s (Inr (?n1, s\<lparr>next_extension_id := ?n1\<rparr>))"
        using one True sp all by (intro ok) auto
      ultimately show ?thesis by simp
    next
      case none: False
      show ?thesis
      proof (cases d)
        case kOneByteOnly
        then have "FindUnusedId_ext d s = Inl CheckFailed"
          using True none b by (auto simp: FindUnusedId_ext_def Let_def kOneByteHeaderExtensionMaxId_def)
        then show ?thesis using all none kOneByteOnly by (auto intro!: fail)
      next
        case kTwoByteAllowed
        with up [of 16] True none b all show ?thesis
          by (simp add: FindUnusedId_ext_def Let_def kOneByteHeaderExtensionMaxId_def)
      qed
    qed
  next
    case False
    then have "d = kTwoByteAllowed" "16 \<le> ?n0" "\<forall>i. 1 \<le> i \<and> i \<le> 14 \<or> 16 \<le> i \<and> i < ?n0 \<longrightarrow> ?u i"
      using inv kind by (auto simp: ids_inv_def)
    with up [of ?n0] False b show ?thesis
      by (simp add: FindUnusedId_ext_def Let_def kOneByteHeaderExtensionMaxId_def)
  qed
qed

lemma FindUnusedId_spec: "ids_inv s \<Longrightarrow> found_ok s (FindUnusedId s)"
  by (cases "kind s") (simp_all add: FindUnusedId_def found_base found_ext)

section \<open>The classes are allocators\<close>

lemma ids_inv_init:
  "ids_inv (UsedIds lo hi)" "ids_inv UsedPayloadTypes" "ids_inv (UsedRtpHeaderExtensionIds d)"
  by (auto simp: ids_inv_def UsedIds_def UsedPayloadTypes_def UsedRtpHeaderExtensionIds_def id_consts)

lemma SetIdUsed_Inr:
  "SetIdUsed n s = Inr t \<longleftrightarrow> ids_range s n \<and> \<not> IsIdUsed s n \<and> t = s\<lparr>id_set := insert n (id_set s)\<rparr>"
  by (auto simp: SetIdUsed_def ids_range_def)

lemma SetIdUsed_inv:
  assumes "ids_inv s"
  shows "ids_inv (s\<lparr>id_set := insert n (id_set s)\<rparr>)"
proof -
  have "IsIdUsed s i \<Longrightarrow> IsIdUsed (s\<lparr>id_set := insert n (id_set s)\<rparr>) i" for i by (auto simp: IsIdUsed_def)
  with assms show ?thesis by (auto simp: ids_inv_def split: id_kind.splits if_splits)
qed

text \<open>The outcome of one call inside the range.\<close>

definition ids_reserved :: "used_ids \<Rightarrow> int set" where
  "ids_reserved s = (if kind s = PayloadTypes then {64..95} else {})"

lemma FindAndSetIdUsed_inside:
  assumes inv: "ids_inv s" and r: "ids_range s i" and a: "FindAndSetIdUsed i s = Inr (j, t)"
  shows "ids_range s j \<and> \<not> IsIdUsed s j \<and> id_set t = insert j (id_set s) \<and> (\<not> IsIdUsed s i \<longrightarrow> j = i) \<and>
    ids_inv t \<and> ids_range t = ids_range s \<and> ids_reserved t = ids_reserved s \<and> ids_allocatable t = ids_allocatable s"
proof -
  obtain u where u: "ids_range u j" "\<not> IsIdUsed u j" "t = u\<lparr>id_set := insert j (id_set u)\<rparr>"
    and f: "if IsIdUsed s i then FindUnusedId s = Inr (j, u) else j = i \<and> u = s"
  proof (cases "IsIdUsed s i")
    case True
    with a r obtain u where "FindUnusedId s = Inr (j, u)" "SetIdUsed j u = Inr t"
      by (auto simp: FindAndSetIdUsed_def ids_range_def)
    with True that [of u] show ?thesis by (simp add: SetIdUsed_Inr)
  next
    case False
    with a r have "j = i" "SetIdUsed i s = Inr t" by (auto simp: FindAndSetIdUsed_def ids_range_def)
    with False that [of s] show ?thesis by (simp add: SetIdUsed_Inr)
  qed
  show ?thesis
  proof (cases "IsIdUsed s i")
    case True
    with FindUnusedId_spec [OF inv] f u SetIdUsed_inv [of u j] show ?thesis
      by (auto simp: found_ok_def ids_range_def ids_allocatable_def ids_reserved_def fun_eq_iff)
  next
    case False
    with f u inv show ?thesis by (auto simp: SetIdUsed_inv ids_range_def ids_allocatable_def ids_reserved_def fun_eq_iff)
  qed
qed

lemma FindAndSetIdUsed_outside: "\<not> ids_range s i \<Longrightarrow> FindAndSetIdUsed i s = Inr (i, s)"
  by (auto simp: FindAndSetIdUsed_def ids_range_def)

lemma FindAndSetIdUsed_total:
  assumes inv: "ids_inv s" and r: "ids_range s i" and free: "\<exists>j\<in>ids_allocatable s. \<not> IsIdUsed s j"
  shows "\<exists>r. FindAndSetIdUsed i s = Inr r"
proof (cases "IsIdUsed s i")
  case True
  from FindUnusedId_spec [OF inv] free obtain n u where n: "FindUnusedId s = Inr (n, u)"
    by (cases "FindUnusedId s") (auto simp: found_ok_def)
  with FindUnusedId_spec [OF inv] have "ids_range u n" "\<not> IsIdUsed u n"
    by (auto simp: found_ok_def ids_range_def IsIdUsed_def)
  with n True r show ?thesis by (auto simp: FindAndSetIdUsed_def ids_range_def SetIdUsed_def)
next
  case False
  with r show ?thesis by (auto simp: FindAndSetIdUsed_def ids_range_def SetIdUsed_def)
qed

interpretation ids: id_allocator ids_inv ids_range id_set IsIdUsed ids_reserved ids_allocatable FindAndSetIdUsed
proof
  fix s i j t
  show "ids_inv s \<Longrightarrow> i \<in> id_set s \<union> ids_reserved s \<Longrightarrow> IsIdUsed s i"
    by (auto simp: IsIdUsed_def ids_reserved_def id_consts split: if_splits)
  show "ids_inv s \<Longrightarrow> \<not> ids_range s i \<Longrightarrow> FindAndSetIdUsed i s = Inr (i, s)" by (rule FindAndSetIdUsed_outside)
  show "ids_inv s \<Longrightarrow> FindAndSetIdUsed i s = Inr (j, t) \<Longrightarrow>
      ids_inv t \<and> ids_range t = ids_range s \<and> ids_reserved t = ids_reserved s \<and> ids_allocatable t = ids_allocatable s"
    using FindAndSetIdUsed_inside [of s i j t] FindAndSetIdUsed_outside [of s i] by (cases "ids_range s i") simp_all
  show "ids_inv s \<Longrightarrow> ids_range s i \<Longrightarrow> FindAndSetIdUsed i s = Inr (j, t) \<Longrightarrow>
      ids_range s j \<and> \<not> IsIdUsed s j \<and> id_set t = insert j (id_set s) \<and> (\<not> IsIdUsed s i \<longrightarrow> j = i)"
    using FindAndSetIdUsed_inside by blast
  show "ids_inv s \<Longrightarrow> ids_range s i \<Longrightarrow> \<exists>j\<in>ids_allocatable s. \<not> IsIdUsed s j \<Longrightarrow> \<exists>r. FindAndSetIdUsed i s = Inr r"
    by (rule FindAndSetIdUsed_total)
qed

section \<open>The choice of a new id\<close>

text \<open>
  The id that replaces a colliding one: the highest free id, counting down; for header extensions the highest free id of
  the one-byte range, and only when there is none the lowest free two-byte id.
\<close>

definition first_choice :: "used_ids \<Rightarrow> int \<Rightarrow> bool" where
  "first_choice s n \<longleftrightarrow>
     n \<in> ids_allocatable s \<and> \<not> IsIdUsed s n \<and>
     (\<forall>j\<in>ids_allocatable s. \<not> IsIdUsed s j \<longrightarrow>
        (case kind s of
           HeaderExtensions _ \<Rightarrow> if n \<le> 14 then j \<le> n \<or> 14 < j else n \<le> j
         | _ \<Rightarrow> j \<le> n))"

lemma first_choice_unique:
  assumes n: "first_choice s n" and m: "first_choice s m"
  shows "n = m"
proof -
  from n m have "case kind s of HeaderExtensions _ \<Rightarrow> if n \<le> 14 then m \<le> n \<or> 14 < m else n \<le> m | _ \<Rightarrow> m \<le> n"
    unfolding first_choice_def by blast
  moreover from n m have "case kind s of HeaderExtensions _ \<Rightarrow> if m \<le> 14 then n \<le> m \<or> 14 < n else m \<le> n | _ \<Rightarrow> n \<le> m"
    unfolding first_choice_def by blast
  ultimately show ?thesis by (cases "kind s") (auto split: if_splits)
qed

lemma FindUnusedId_position:
  "FindUnusedId s = Inr (n, t) \<Longrightarrow>
   (case kind s of HeaderExtensions _ \<Rightarrow> next_extension_id t = n | _ \<Rightarrow> next_id t = n)"
  by (auto simp: FindUnusedId_def FindUnusedId_base_def FindUnusedId_ext_def Let_def check_def
      split: id_kind.splits if_splits)

lemma FindUnusedId_choice:
  assumes inv: "ids_inv s" and f: "FindUnusedId s = Inr (n, t)"
  shows "first_choice s n"
proof -
  from FindUnusedId_spec [OF inv] f have t: "ids_range s n" "\<not> IsIdUsed s n" "ids_inv t" "id_set t = id_set s"
    "kind t = kind s" "min_allowed_id t = min_allowed_id s" "max_allowed_id t = max_allowed_id s"
    by (auto simp: found_ok_def)
  have u: "IsIdUsed t = IsIdUsed s" using t(4,5) by (simp add: IsIdUsed_def fun_eq_iff)
  show ?thesis
  proof (cases "kind s")
    case (HeaderExtensions d)
    with FindUnusedId_position [OF f] t u have p: "min_allowed_id s = 1" "max_allowed_id s = (if d = kTwoByteAllowed then 255 else 14)"
      "if n \<le> 14 then \<forall>i. n < i \<and> i \<le> 14 \<longrightarrow> IsIdUsed s i
       else 16 \<le> n \<and> (\<forall>i. 1 \<le> i \<and> i \<le> 14 \<or> 16 \<le> i \<and> i < n \<longrightarrow> IsIdUsed s i)"
      by (auto simp: ids_inv_def split: if_splits)
    have "n \<noteq> 15" using p(3) by (auto split: if_splits)
    moreover have "if n \<le> 14 then j \<le> n \<or> 14 < j else n \<le> j" if j: "j \<in> ids_allocatable s" "\<not> IsIdUsed s j" for j
    proof -
      have "1 \<le> j" "j \<noteq> 15" using j(1) HeaderExtensions p(1) by (auto simp: ids_allocatable_def ids_range_def)
      then show ?thesis using p(3) j(2) by (smt (verit) not_le)
    qed
    ultimately show ?thesis using t(1,2) HeaderExtensions by (simp add: first_choice_def ids_allocatable_def)
  qed (use FindUnusedId_position [OF f] t u in
      \<open>force simp: first_choice_def ids_allocatable_def ids_inv_def ids_range_def not_le [symmetric]\<close>)+
qed

text \<open>One call on a colliding id.\<close>

lemma FindAndSetIdUsed_collision:
  assumes inv: "ids_inv s" and r: "ids_range s i" and u: "IsIdUsed s i"
  shows "if \<exists>j\<in>ids_allocatable s. \<not> IsIdUsed s j
    then \<exists>n t. FindAndSetIdUsed i s = Inr (n, t) \<and> first_choice s n \<and> id_set t = insert n (id_set s)
    else \<exists>e. FindAndSetIdUsed i s = Inl e"
proof (cases "\<exists>j\<in>ids_allocatable s. \<not> IsIdUsed s j")
  case True
  from FindAndSetIdUsed_total [OF inv r True] obtain n t where a: "FindAndSetIdUsed i s = Inr (n, t)" by auto
  then obtain v where "FindUnusedId s = Inr (n, v)" using u r by (auto simp: FindAndSetIdUsed_def ids_range_def)
  then have "first_choice s n" by (rule FindUnusedId_choice [OF inv])
  with True a FindAndSetIdUsed_inside [OF inv r a] show ?thesis by auto
next
  case False
  have "\<exists>e. FindUnusedId s = Inl e"
  proof (cases "FindUnusedId s")
    case (Inr nt)
    then have "first_choice s (fst nt)" by (intro FindUnusedId_choice [OF inv, of _ "snd nt"]) simp
    with False show ?thesis unfolding first_choice_def by blast
  qed simp
  then obtain e where "FindUnusedId s = Inl e" by blast
  with u r have "FindAndSetIdUsed i s = Inl e" by (auto simp: FindAndSetIdUsed_def ids_range_def)
  with False show ?thesis by auto
qed

text \<open>
  C19. The ids of a session description after the helper has seen them all: the dynamic ones are pairwise
  different, every id outside the dynamic range is as it was, no id enters or leaves the range, and no payload type is
  left in the range reserved for RTCP. And the next call, whatever its id, is determined: outside the range nothing
  happens; a free id keeps its value and is taken; a colliding one is replaced by the first choice among the free ids
  (\<open>first_choice\<close>), and the call fails exactly when no id that can be handed out is free. Header extension id 15
  is the one id of a range that is never handed out.
\<close>

theorem used_ids_distinct:
  assumes "s = UsedIds lo hi \<or> s = UsedPayloadTypes \<or> s = UsedRtpHeaderExtensionIds d"
    and "ids.assign_all is s = Inr (js, t)"
  shows "length js = length is \<and> distinct (filter (ids_range s) js) \<and>
    (\<forall>(i, j)\<in>set (zip is js). ids_range s j = ids_range s i \<and> (\<not> ids_range s i \<longrightarrow> j = i)) \<and>
    (s = UsedPayloadTypes \<longrightarrow> (\<forall>j\<in>set js. \<not> (64 \<le> j \<and> j \<le> 95))) \<and>
    (if \<not> ids_range t i then FindAndSetIdUsed i t = Inr (i, t)
     else if \<not> IsIdUsed t i then \<exists>u. FindAndSetIdUsed i t = Inr (i, u) \<and> id_set u = insert i (id_set t)
     else if \<exists>j\<in>ids_allocatable t. \<not> IsIdUsed t j
     then \<exists>n u. FindAndSetIdUsed i t = Inr (n, u) \<and> first_choice t n \<and> id_set u = insert n (id_set t)
     else \<exists>e. FindAndSetIdUsed i t = Inl e)"
proof -
  have inv: "ids_inv s" using assms(1) ids_inv_init by auto
  have invt: "ids_inv t" by (rule ids.assign_all_inv [OF inv assms(2)])
  note f = ids.assign_all_fresh [OF inv assms(2)]
  have "\<not> (64 \<le> j \<and> j \<le> 95)" if "s = UsedPayloadTypes" "j \<in> set js" for j
  proof
    assume j: "64 \<le> j \<and> j \<le> 95"
    then have "ids_range s j" "j \<in> ids_reserved s"
      using that(1) by (auto simp: ids_range_def ids_reserved_def UsedPayloadTypes_def UsedIds_def id_consts)
    with f that(2) show False by auto
  qed
  moreover have "\<exists>u. FindAndSetIdUsed i t = Inr (i, u) \<and> id_set u = insert i (id_set t)"
    if "ids_range t i" "\<not> IsIdUsed t i"
    using that by (auto simp: FindAndSetIdUsed_def ids_range_def SetIdUsed_def)
  ultimately show ?thesis
    using f FindAndSetIdUsed_outside [of t i] FindAndSetIdUsed_collision [OF invt, of i] by simp
qed

theorem used_ids_distinct_witness:
  "\<exists>js t. ids.assign_all [111, 96, 111, 0, 70] UsedPayloadTypes = Inr (js, t) \<and>
     js = [111, 96, 127, 0, 126] \<and> distinct (filter (ids_range UsedPayloadTypes) js) \<and>
     (\<exists>u. FindAndSetIdUsed 36 t = Inr (36, u))"
proof -
  let ?t = "UsedPayloadTypes\<lparr>next_id := 126, id_set := {126, 127, 96, 111}\<rparr>"
  have a: "ids.assign_all [111, 96, 111, 0, 70] UsedPayloadTypes = Inr ([111, 96, 127, 0, 126], ?t)"
    by (simp add: FindAndSetIdUsed_def UsedPayloadTypes_def UsedIds_def id_consts IsIdUsed_def SetIdUsed_def
        FindUnusedId_def FindUnusedId_base_def search_down.simps Let_def)
  have b: "ids_range ?t 36" "\<not> IsIdUsed ?t 36"
    by (simp_all add: ids_range_def IsIdUsed_def UsedPayloadTypes_def UsedIds_def id_consts)
  note u = used_ids_distinct [of UsedPayloadTypes 0 0 kOneByteOnly, OF _ a, of 36]
  have "\<exists>u. FindAndSetIdUsed 36 ?t = Inr (36, u)" using u b by auto
  moreover have "distinct (filter (ids_range UsedPayloadTypes) [111, 96, 127, 0, 126])" using u by blast
  ultimately show ?thesis using a by blast
qed

end
