(* ===== verification/Swap_Queue.thy ===== *)
theory Swap_Queue
  imports Prelude "HOL-Library.Sublist"
begin

text \<open>
  \<^verbatim>\<open>rtc_base/swap_queue.h\<close>: a fixed-size queue between one producer and one consumer. The first part
  models the calls one at a time and shows that they are a bounded first-in first-out queue. The
  second part models the two threads: each call is the sequence of its accesses to the shared state,
  interleaved in any order, the atomic accesses being sequentially consistent.
\<close>

section \<open>The queue\<close>

record 'a swap_queue =
  next_write_index :: nat
  next_read_index :: nat
  num_elements :: nat
  queue :: "'a list"

definition VerifyQueueSlots :: "('a \<Rightarrow> bool) \<Rightarrow> 'a list \<Rightarrow> bool" where
  "VerifyQueueSlots ver q \<longleftrightarrow> (\<forall>v\<in>set q. ver v)"

definition SwapQueue :: "('a \<Rightarrow> bool) \<Rightarrow> nat \<Rightarrow> 'a \<Rightarrow> abort + 'a swap_queue" where
  "SwapQueue ver sz prototype =
     check (VerifyQueueSlots ver (replicate sz prototype))
       (Inr \<lparr>next_write_index = 0, next_read_index = 0, num_elements = 0, queue = replicate sz prototype\<rparr>)"

definition Clear :: "'a swap_queue \<Rightarrow> abort + 'a swap_queue" where
  "Clear s =
     (let n = length (queue s);
          r = next_read_index s + num_elements s;
          r' = (if r \<ge> n then r - n else r)
      in check (r' < n) (Inr (s\<lparr>next_read_index := r', num_elements := 0\<rparr>)))"

text \<open>The result flag, what \<^verbatim>\<open>*input\<close> holds afterwards, and the queue.\<close>

definition Insert :: "('a \<Rightarrow> bool) \<Rightarrow> 'a \<Rightarrow> 'a swap_queue \<Rightarrow> abort + (bool \<times> 'a \<times> 'a swap_queue)" where
  "Insert ver input s =
     check (ver input)
       (let n = length (queue s); w = next_write_index s; old = num_elements s in
        if old = n then Inr (False, input, s)
        else if n \<le> w then Inl OutOfBounds
        else
          let w' = (if Suc w = n then 0 else Suc w)
          in check (w' < n) (check (old < n)
               (Inr (True, queue s ! w,
                 s\<lparr>queue := (queue s)[w := input], num_elements := Suc old, next_write_index := w'\<rparr>))))"

definition Remove :: "('a \<Rightarrow> bool) \<Rightarrow> 'a \<Rightarrow> 'a swap_queue \<Rightarrow> abort + (bool \<times> 'a \<times> 'a swap_queue)" where
  "Remove ver output s =
     check (ver output)
       (let n = length (queue s); r = next_read_index s in
        if num_elements s = 0 then Inr (False, output, s)
        else if n \<le> r then Inl OutOfBounds
        else
          let r' = (if Suc r = n then 0 else Suc r)
          in check (r' < n)
               (Inr (True, queue s ! r,
                 s\<lparr>queue := (queue s)[r := output], num_elements := num_elements s - 1, next_read_index := r'\<rparr>)))"

definition SizeAtLeast :: "'a swap_queue \<Rightarrow> nat" where
  "SizeAtLeast s = num_elements s"

section \<open>Ring positions\<close>

lemma ring_inc: "w < n \<Longrightarrow> (if Suc w = n then 0 else Suc w) = Suc w mod n"
  by auto

lemma ring_add: "r < n \<Longrightarrow> k \<le> n \<Longrightarrow> (if r + k \<ge> n then r + k - n else r + k) = (r + k) mod n" for n :: nat
  by (auto simp: le_mod_geq mod_if)

lemma ring_neq:
  fixes n :: nat
  assumes "i < j" "j - i < n"
  shows "(a + i) mod n \<noteq> (a + j) mod n"
proof
  assume "(a + i) mod n = (a + j) mod n"
  then have "n dvd (a + j) - (a + i)" using assms(1) by (metis mod_eq_dvd_iff_nat add_le_cancel_left less_imp_le)
  then have "n dvd j - i" by simp
  with assms show False by (simp add: nat_dvd_not_less)
qed

section \<open>A bounded first-in first-out queue\<close>

definition contents :: "'a swap_queue \<Rightarrow> 'a list" where
  "contents s = map (\<lambda>i. queue s ! ((next_read_index s + i) mod length (queue s))) [0..<num_elements s]"

definition sq_inv :: "('a \<Rightarrow> bool) \<Rightarrow> 'a swap_queue \<Rightarrow> bool" where
  "sq_inv ver s \<longleftrightarrow>
     0 < length (queue s) \<and> next_read_index s < length (queue s) \<and> num_elements s \<le> length (queue s) \<and>
     next_write_index s = (next_read_index s + num_elements s) mod length (queue s) \<and>
     (\<forall>v\<in>set (queue s). ver v)"

text \<open>
  The contract of a bounded queue with an item test, over an abstraction to the list of what it
  holds. Items travel both ways: every call hands back an item that passes the test.
\<close>

locale bounded_fifo =
  fixes inv :: "'q \<Rightarrow> bool"
    and holds :: "'q \<Rightarrow> 'a list"
    and capacity :: "'q \<Rightarrow> nat"
    and ok :: "'a \<Rightarrow> bool"
    and insert_op :: "'a \<Rightarrow> 'q \<Rightarrow> abort + (bool \<times> 'a \<times> 'q)"
    and remove_op :: "'a \<Rightarrow> 'q \<Rightarrow> abort + (bool \<times> 'a \<times> 'q)"
  assumes insert_law: "inv q \<Longrightarrow> ok x \<Longrightarrow>
      \<exists>y q'. insert_op x q = Inr (length (holds q) < capacity q, y, q') \<and> inv q' \<and> ok y \<and> capacity q' = capacity q \<and>
        holds q' = (if length (holds q) < capacity q then holds q @ [x] else holds q)"
    and remove_law: "inv q \<Longrightarrow> ok e \<Longrightarrow>
      \<exists>y q'. remove_op e q = Inr (holds q \<noteq> [], y, q') \<and> inv q' \<and> ok y \<and> capacity q' = capacity q \<and>
        holds q' = tl (holds q) \<and> (holds q \<noteq> [] \<longrightarrow> y = hd (holds q))"
begin

fun insert_list :: "'a list \<Rightarrow> 'q \<Rightarrow> abort + 'q" where
  "insert_list [] q = Inr q"
| "insert_list (x # xs) q = bindE (insert_op x q) (\<lambda>(_, _, q'). insert_list xs q')"

fun remove_list :: "'a list \<Rightarrow> 'q \<Rightarrow> abort + ('a list \<times> 'q)" where
  "remove_list [] q = Inr ([], q)"
| "remove_list (e # es) q = bindE (remove_op e q) (\<lambda>(_, y, q'). bindE (remove_list es q') (\<lambda>(ys, q''). Inr (y # ys, q'')))"

lemma insert_list_holds:
  "inv q \<Longrightarrow> \<forall>x\<in>set xs. ok x \<Longrightarrow> length (holds q) + length xs \<le> capacity q \<Longrightarrow>
   \<exists>q'. insert_list xs q = Inr q' \<and> inv q' \<and> holds q' = holds q @ xs \<and> capacity q' = capacity q"
proof (induction xs arbitrary: q)
  case (Cons x xs)
  from insert_law [OF Cons.prems(1), of x] Cons.prems obtain y q' where
    "insert_op x q = Inr (True, y, q')" "inv q'" "capacity q' = capacity q" "holds q' = holds q @ [x]" by auto
  with Cons.IH [of q'] Cons.prems show ?case by auto
qed simp

lemma remove_list_holds:
  "inv q \<Longrightarrow> \<forall>e\<in>set es. ok e \<Longrightarrow> length es \<le> length (holds q) \<Longrightarrow>
   \<exists>q'. remove_list es q = Inr (take (length es) (holds q), q') \<and> inv q' \<and> holds q' = drop (length es) (holds q)"
proof (induction es arbitrary: q)
  case (Cons e es)
  then have ne: "holds q \<noteq> []" by auto
  from remove_law [OF Cons.prems(1), of e] Cons.prems ne obtain y q' where
    1: "remove_op e q = Inr (True, y, q')" "inv q'" "holds q' = tl (holds q)" "y = hd (holds q)" by auto
  have "length es \<le> length (holds q')" using Cons.prems 1 by simp
  with Cons.IH [of q'] Cons.prems 1(2) obtain q'' where
    "remove_list es q' = Inr (take (length es) (holds q'), q'')" "inv q''" "holds q'' = drop (length es) (holds q')" by auto
  with 1 ne show ?case by (cases "holds q") auto
qed simp

text \<open>A full round: what goes in comes out, in order.\<close>

lemma insert_remove_list:
  assumes "inv q" "holds q = []" "\<forall>x\<in>set xs. ok x" "\<forall>e\<in>set es. ok e" "length xs \<le> capacity q" "length es = length xs"
  shows "\<exists>q' q''. insert_list xs q = Inr q' \<and> remove_list es q' = Inr (xs, q'') \<and> holds q'' = []"
proof -
  from insert_list_holds [OF assms(1,3)] assms(2,5) obtain q'
    where q': "insert_list xs q = Inr q'" "inv q'" "holds q' = xs" by auto
  with remove_list_holds [OF q'(2) assms(4)] assms(6) show ?thesis by auto
qed

end

lemma length_contents [simp]: "length (contents s) = num_elements s"
  by (simp add: contents_def)

lemma sq_inv_write: "sq_inv ver s \<Longrightarrow> next_write_index s < length (queue s)"
  by (simp add: sq_inv_def)

lemma set_list_update: "ver x \<Longrightarrow> \<forall>v\<in>set xs. ver v \<Longrightarrow> \<forall>v\<in>set (xs[i := x]). ver v"
  using set_update_subset_insert [of xs i x] by blast

lemma Insert_law:
  assumes inv: "sq_inv ver s" and x: "ver x"
  shows "\<exists>y t. Insert ver x s = Inr (num_elements s < length (queue s), y, t) \<and> sq_inv ver t \<and> ver y \<and>
    length (queue t) = length (queue s) \<and>
    contents t = (if num_elements s < length (queue s) then contents s @ [x] else contents s)"
proof (cases "num_elements s < length (queue s)")
  case False
  then have "num_elements s = length (queue s)" using inv by (simp add: sq_inv_def)
  with inv x show ?thesis by (auto simp: Insert_def)
next
  case True
  let ?n = "length (queue s)" and ?w = "next_write_index s" and ?r = "next_read_index s" and ?k = "num_elements s"
  let ?t = "s\<lparr>queue := (queue s)[?w := x], num_elements := Suc ?k, next_write_index := Suc ?w mod ?n\<rparr>"
  have w: "?w < ?n" "?w = (?r + ?k) mod ?n" using inv by (simp_all add: sq_inv_def)
  have wi: "(if Suc ?w = ?n then 0 else Suc ?w) = Suc ?w mod ?n" "Suc ?w mod ?n < ?n"
    by (rule ring_inc [OF w(1)], rule mod_less_divisor) (use w(1) in linarith)
  have ins: "Insert ver x s = Inr (True, queue s ! ?w, ?t)"
    using True x w wi(2) unfolding Insert_def Let_def wi(1) by (simp add: check_def)
  have "(queue s)[?w := x] ! ((?r + i) mod ?n) = queue s ! ((?r + i) mod ?n)" if "i < ?k" for i
  proof -
    have "(?r + i) mod ?n \<noteq> ?w" unfolding w(2) using that True by (intro ring_neq) auto
    then show ?thesis by simp
  qed
  then have "contents ?t = contents s @ [x]"
    using w by (simp add: contents_def)
  moreover have "sq_inv ver ?t"
    using inv True x set_list_update [of ver x "queue s" ?w] by (auto simp: sq_inv_def mod_Suc_eq)
  moreover have "ver (queue s ! ?w)" using inv w by (simp add: sq_inv_def)
  ultimately show ?thesis using ins True by auto
qed

lemma Remove_law:
  assumes inv: "sq_inv ver s" and e: "ver e"
  shows "\<exists>y t. Remove ver e s = Inr (contents s \<noteq> [], y, t) \<and> sq_inv ver t \<and> ver y \<and>
    length (queue t) = length (queue s) \<and> contents t = tl (contents s) \<and> (contents s \<noteq> [] \<longrightarrow> y = hd (contents s))"
proof (cases "num_elements s = 0")
  case True
  then have "contents s = []" by (simp add: contents_def)
  with True inv e show ?thesis by (auto simp: Remove_def)
next
  case False
  let ?n = "length (queue s)" and ?r = "next_read_index s" and ?k = "num_elements s"
  let ?t = "s\<lparr>queue := (queue s)[?r := e], num_elements := ?k - 1, next_read_index := Suc ?r mod ?n\<rparr>"
  have r: "?r < ?n" "?k \<le> ?n" using inv by (simp_all add: sq_inv_def)
  have ri: "(if Suc ?r = ?n then 0 else Suc ?r) = Suc ?r mod ?n" "Suc ?r mod ?n < ?n"
    by (rule ring_inc [OF r(1)], rule mod_less_divisor) (use r(1) in linarith)
  have rem: "Remove ver e s = Inr (True, queue s ! ?r, ?t)"
    using False e r ri(2) unfolding Remove_def Let_def ri(1) by (simp add: check_def)
  have "(queue s)[?r := e] ! ((Suc ?r mod ?n + i) mod ?n) = queue s ! ((?r + Suc i) mod ?n)" if "Suc i < ?k" for i
    using ring_neq [of 0 "Suc i" ?n ?r] that r by (simp add: mod_add_left_eq)
  then have "contents ?t = tl (contents s)"
    using False by (intro nth_equalityI) (auto simp: contents_def nth_tl)
  moreover have "hd (contents s) = queue s ! ?r" using False r by (simp add: contents_def hd_map)
  moreover have "next_write_index s = (Suc ?r mod ?n + (?k - 1)) mod ?n"
  proof -
    have "(Suc ?r mod ?n + (?k - 1)) mod ?n = (Suc ?r + (?k - 1)) mod ?n" by (rule mod_add_left_eq)
    also have "Suc ?r + (?k - 1) = ?r + ?k" using False by simp
    finally show ?thesis using inv by (simp add: sq_inv_def)
  qed
  then have "sq_inv ver ?t"
    using inv r e set_list_update [of ver e "queue s" ?r] by (auto simp: sq_inv_def)
  moreover have "ver (queue s ! ?r)" using inv r by (simp add: sq_inv_def)
  moreover have "contents s \<noteq> []" using False by (simp add: contents_def)
  ultimately show ?thesis using rem by auto
qed

interpretation swapq: bounded_fifo "sq_inv ver" contents "\<lambda>s. length (queue s)" ver "Insert ver" "Remove ver" for ver
  using Insert_law Remove_law by unfold_locales (auto, fastforce+)

lemma SwapQueue_inv:
  assumes "SwapQueue ver sz prototype = Inr s" "0 < sz"
  shows "sq_inv ver s" "contents s = []" "length (queue s) = sz"
  using assms by (auto simp: SwapQueue_def VerifyQueueSlots_def sq_inv_def contents_def)

text \<open>
  The queue is first-in first-out. Up to its size, any items inserted into a new queue are
  removed in the same order, whatever was inserted in exchange; nothing fails a check. A further insert
  into a full queue answers false and hands the item back.
\<close>

theorem swap_queue_fifo:
  assumes "SwapQueue ver sz prototype = Inr s" and "0 < sz"
    and "\<forall>x\<in>set xs. ver x" and "\<forall>e\<in>set es. ver e" and "length xs \<le> sz" and "length es = length xs"
  shows "\<exists>t u. swapq.insert_list ver xs s = Inr t \<and> swapq.remove_list ver es t = Inr (xs, u) \<and> SizeAtLeast u = 0
    \<and> (length xs = sz \<longrightarrow> (\<forall>x. ver x \<longrightarrow> Insert ver x t = Inr (False, x, t)))"
proof -
  note s = SwapQueue_inv [OF assms(1,2)]
  from swapq.insert_list_holds [OF s(1) assms(3)] s(2,3) assms(5) obtain t
    where t: "swapq.insert_list ver xs s = Inr t" "sq_inv ver t" "contents t = xs" "length (queue t) = sz" by auto
  from swapq.remove_list_holds [OF t(2) assms(4)] t(3) assms(6) obtain u
    where u: "swapq.remove_list ver es t = Inr (xs, u)" "contents u = []" by auto
  have "num_elements t = length xs" "num_elements u = 0"
    using t(3) u(2) length_contents [of t] length_contents [of u] by simp_all
  with t u show ?thesis by (auto simp: SizeAtLeast_def Insert_def)
qed

theorem swap_queue_fifo_witness:
  "\<exists>s t u. SwapQueue (\<lambda>_. True) 3 (0 :: nat) = Inr s \<and> swapq.insert_list (\<lambda>_. True) [7, 8, 9] s = Inr t \<and>
     swapq.remove_list (\<lambda>_. True) [1, 1, 1] t = Inr ([7, 8, 9], u)"
proof -
  obtain s where "SwapQueue (\<lambda>_. True) 3 (0 :: nat) = Inr s" by (simp add: SwapQueue_def VerifyQueueSlots_def)
  with swap_queue_fifo [OF this, of "[7, 8, 9]" "[1, 1, 1]"] show ?thesis by auto
qed

section \<open>The two threads\<close>

text \<open>
  Where each thread is within a call. The producer: between calls; past the test that there is room
  with its item; past the swap; past the increment of the count. The consumer: the same for a removal,
  or past the exchange of a clear. \<open>inserted\<close> records the items in the order their insertion took
  effect, \<open>taken\<close> the items removed or cleared away.
\<close>

datatype 'a producer = PIdle | PLoaded 'a | PSwapped 'a | PAdded

datatype 'a consumer = CIdle | CLoaded 'a | CSwapped 'a | CSubbed | CCleared nat

record 'a threads =
  shared :: "'a swap_queue"
  prod :: "'a producer"
  cons :: "'a consumer"
  inserted :: "'a list"
  taken :: "'a list"

inductive thread_step :: "'a threads \<Rightarrow> 'a threads \<Rightarrow> bool" where
  p_load: "prod s = PIdle \<Longrightarrow> num_elements (shared s) \<noteq> length (queue (shared s)) \<Longrightarrow>
     thread_step s (s\<lparr>prod := PLoaded x\<rparr>)"
| p_swap: "prod s = PLoaded x \<Longrightarrow>
     thread_step s (s\<lparr>prod := PSwapped x,
       shared := (shared s)\<lparr>queue := (queue (shared s))[next_write_index (shared s) := x]\<rparr>\<rparr>)"
| p_add: "prod s = PSwapped x \<Longrightarrow>
     thread_step s (s\<lparr>prod := PAdded, inserted := inserted s @ [x],
       shared := (shared s)\<lparr>num_elements := Suc (num_elements (shared s))\<rparr>\<rparr>)"
| p_inc: "prod s = PAdded \<Longrightarrow> w = next_write_index (shared s) \<Longrightarrow>
     thread_step s (s\<lparr>prod := PIdle, shared := (shared s)\<lparr>next_write_index :=
       (if Suc w = length (queue (shared s)) then 0 else Suc w)\<rparr>\<rparr>)"
| c_load: "cons s = CIdle \<Longrightarrow> num_elements (shared s) \<noteq> 0 \<Longrightarrow> thread_step s (s\<lparr>cons := CLoaded e\<rparr>)"
| c_swap: "cons s = CLoaded e \<Longrightarrow>
     thread_step s (s\<lparr>cons := CSwapped (queue (shared s) ! next_read_index (shared s)),
       shared := (shared s)\<lparr>queue := (queue (shared s))[next_read_index (shared s) := e]\<rparr>\<rparr>)"
| c_sub: "cons s = CSwapped y \<Longrightarrow>
     thread_step s (s\<lparr>cons := CSubbed, taken := taken s @ [y],
       shared := (shared s)\<lparr>num_elements := num_elements (shared s) - 1\<rparr>\<rparr>)"
| c_inc: "cons s = CSubbed \<Longrightarrow> r = next_read_index (shared s) \<Longrightarrow>
     thread_step s (s\<lparr>cons := CIdle, shared := (shared s)\<lparr>next_read_index :=
       (if Suc r = length (queue (shared s)) then 0 else Suc r)\<rparr>\<rparr>)"
| c_exchange: "cons s = CIdle \<Longrightarrow>
     thread_step s (s\<lparr>cons := CCleared (num_elements (shared s)), taken := inserted s,
       shared := (shared s)\<lparr>num_elements := 0\<rparr>\<rparr>)"
| c_clear: "cons s = CCleared k \<Longrightarrow> r = next_read_index (shared s) + k \<Longrightarrow>
     thread_step s (s\<lparr>cons := CIdle, shared := (shared s)\<lparr>next_read_index :=
       (if r \<ge> length (queue (shared s)) then r - length (queue (shared s)) else r)\<rparr>\<rparr>)"

inductive_cases thread_step_cases: "thread_step s t"

text \<open>Where the threads effectively stand in the ring.\<close>

definition read_pos :: "'a threads \<Rightarrow> nat" where
  "read_pos s =
     (case cons s of
        CSubbed \<Rightarrow> Suc (next_read_index (shared s)) mod length (queue (shared s))
      | CCleared k \<Rightarrow> (next_read_index (shared s) + k) mod length (queue (shared s))
      | _ \<Rightarrow> next_read_index (shared s))"

definition write_pos :: "'a threads \<Rightarrow> nat" where
  "write_pos s =
     (case prod s of PAdded \<Rightarrow> Suc (next_write_index (shared s)) mod length (queue (shared s))
      | _ \<Rightarrow> next_write_index (shared s))"

text \<open>The \<open>i\<close>-th item in the queue; the front one is already in the consumer's hands after its swap.\<close>

definition item_at :: "'a threads \<Rightarrow> nat \<Rightarrow> 'a" where
  "item_at s i =
     (case cons s of
        CSwapped y \<Rightarrow> if i = 0 then y else queue (shared s) ! ((read_pos s + i) mod length (queue (shared s)))
      | _ \<Rightarrow> queue (shared s) ! ((read_pos s + i) mod length (queue (shared s))))"

definition ring_ok :: "'a threads \<Rightarrow> bool" where
  "ring_ok s \<longleftrightarrow>
     next_read_index (shared s) < length (queue (shared s)) \<and>
     next_write_index (shared s) < length (queue (shared s)) \<and>
     num_elements (shared s) \<le> length (queue (shared s)) \<and>
     write_pos s = (read_pos s + num_elements (shared s)) mod length (queue (shared s)) \<and>
     (\<forall>k. cons s = CCleared k \<longrightarrow> k \<le> length (queue (shared s)))"

definition room_ok :: "'a threads \<Rightarrow> bool" where
  "room_ok s \<longleftrightarrow>
     (\<forall>x. prod s = PLoaded x \<or> prod s = PSwapped x \<longrightarrow> num_elements (shared s) < length (queue (shared s))) \<and>
     (\<forall>x. prod s = PSwapped x \<longrightarrow> queue (shared s) ! next_write_index (shared s) = x) \<and>
     (\<forall>y. cons s = CLoaded y \<or> cons s = CSwapped y \<longrightarrow> 0 < num_elements (shared s))"

definition fifo_ok :: "'a threads \<Rightarrow> bool" where
  "fifo_ok s \<longleftrightarrow> inserted s = taken s @ map (item_at s) [0..<num_elements (shared s)]"

definition threads_inv :: "'a threads \<Rightarrow> bool" where
  "threads_inv s \<longleftrightarrow> ring_ok s \<and> room_ok s \<and> fifo_ok s"

lemmas pos_defs = read_pos_def write_pos_def
lemmas threads_defs = threads_inv_def ring_ok_def room_ok_def fifo_ok_def

lemma read_pos_cong:
  "cons t = cons s \<Longrightarrow> next_read_index (shared t) = next_read_index (shared s) \<Longrightarrow>
   length (queue (shared t)) = length (queue (shared s)) \<Longrightarrow> read_pos t = read_pos s"
  by (simp add: read_pos_def split: consumer.split)

lemma write_pos_cong:
  "prod t = prod s \<Longrightarrow> next_write_index (shared t) = next_write_index (shared s) \<Longrightarrow>
   length (queue (shared t)) = length (queue (shared s)) \<Longrightarrow> write_pos t = write_pos s"
  by (simp add: write_pos_def split: producer.split)

lemma item_at_cong:
  "cons t = cons s \<Longrightarrow> next_read_index (shared t) = next_read_index (shared s) \<Longrightarrow>
   queue (shared t) = queue (shared s) \<Longrightarrow> item_at t = item_at s"
  using read_pos_cong [of t s] by (simp add: item_at_def fun_eq_iff split: consumer.split)

lemma threads_invD:
  assumes "threads_inv s"
  shows "next_read_index (shared s) < length (queue (shared s))"
    "next_write_index (shared s) < length (queue (shared s))"
    "num_elements (shared s) \<le> length (queue (shared s))"
    "write_pos s = (read_pos s + num_elements (shared s)) mod length (queue (shared s))"
    "cons s = CCleared k \<Longrightarrow> k \<le> length (queue (shared s))"
    "prod s = PLoaded x \<Longrightarrow> num_elements (shared s) < length (queue (shared s))"
    "prod s = PSwapped x \<Longrightarrow> num_elements (shared s) < length (queue (shared s))"
    "prod s = PSwapped x \<Longrightarrow> queue (shared s) ! next_write_index (shared s) = x"
    "cons s = CLoaded y \<Longrightarrow> 0 < num_elements (shared s)"
    "cons s = CSwapped y \<Longrightarrow> 0 < num_elements (shared s)"
    "inserted s = taken s @ map (item_at s) [0..<num_elements (shared s)]"
  using assms unfolding threads_defs by blast+

lemma threads_invI:
  assumes "next_read_index (shared s) < length (queue (shared s))"
    "next_write_index (shared s) < length (queue (shared s))"
    "num_elements (shared s) \<le> length (queue (shared s))"
    "write_pos s = (read_pos s + num_elements (shared s)) mod length (queue (shared s))"
    "inserted s = taken s @ map (item_at s) [0..<num_elements (shared s)]"
    "\<And>k. cons s = CCleared k \<Longrightarrow> k \<le> length (queue (shared s))"
    "\<And>x. prod s = PLoaded x \<or> prod s = PSwapped x \<Longrightarrow> num_elements (shared s) < length (queue (shared s))"
    "\<And>x. prod s = PSwapped x \<Longrightarrow> queue (shared s) ! next_write_index (shared s) = x"
    "\<And>y. cons s = CLoaded y \<or> cons s = CSwapped y \<Longrightarrow> 0 < num_elements (shared s)"
  shows "threads_inv s"
  using assms unfolding threads_defs by blast

lemma p_load_inv:
  assumes inv: "threads_inv s" and p: "prod s = PIdle" and k: "num_elements (shared s) \<noteq> length (queue (shared s))"
  shows "threads_inv (s\<lparr>prod := PLoaded x\<rparr>)" (is "threads_inv ?t")
proof (rule threads_invI)
  have same: "item_at ?t = item_at s" "read_pos ?t = read_pos s" "write_pos ?t = write_pos s"
    using p by - ((rule item_at_cong read_pos_cong, simp_all)+, simp add: write_pos_def)
  show "write_pos ?t = (read_pos ?t + num_elements (shared ?t)) mod length (queue (shared ?t))"
    unfolding same using threads_invD(4) [OF inv] by simp
  show "inserted ?t = taken ?t @ map (item_at ?t) [0..<num_elements (shared ?t)]"
    unfolding same using threads_invD(11) [OF inv] by simp
  show "num_elements (shared ?t) < length (queue (shared ?t))" using threads_invD(3) [OF inv] k by simp
qed (use threads_invD(1-3,5,9,10) [OF inv] in auto)

lemma p_swap_inv:
  assumes inv: "threads_inv s" and p: "prod s = PLoaded x"
  shows "threads_inv (s\<lparr>prod := PSwapped x,
       shared := (shared s)\<lparr>queue := (queue (shared s))[next_write_index (shared s) := x]\<rparr>\<rparr>)" (is "threads_inv ?t")
proof (rule threads_invI)
  let ?n = "length (queue (shared s))" and ?w = "next_write_index (shared s)" and ?k = "num_elements (shared s)"
  have k: "?k < ?n" by (rule threads_invD(6) [OF inv p])
  have w: "?w = (read_pos s + ?k) mod ?n" using threads_invD(4) [OF inv] p by (simp add: write_pos_def)
  have r: "read_pos ?t = read_pos s" by (rule read_pos_cong) simp_all
  have ne: "?w \<noteq> (read_pos s + i) mod ?n" if "i < ?k" for i
    unfolding w using that k by (intro not_sym [OF ring_neq]) auto
  have i: "item_at ?t i = item_at s i" if "i < ?k" for i
    using ne [OF that] unfolding item_at_def r by (auto split: consumer.split)
  show "write_pos ?t = (read_pos ?t + num_elements (shared ?t)) mod length (queue (shared ?t))"
    unfolding r using w by (simp add: write_pos_def)
  have "map (item_at ?t) [0..<?k] = map (item_at s) [0..<?k]" using i by (intro map_cong) auto
  then show "inserted ?t = taken ?t @ map (item_at ?t) [0..<num_elements (shared ?t)]"
    using threads_invD(11) [OF inv] by simp
  show "num_elements (shared ?t) < length (queue (shared ?t))" using k by simp
qed (use threads_invD(1-3,5,9,10) [OF inv] in auto)

lemma p_add_inv:
  assumes inv: "threads_inv s" and p: "prod s = PSwapped x"
  shows "threads_inv (s\<lparr>prod := PAdded, inserted := inserted s @ [x],
       shared := (shared s)\<lparr>num_elements := Suc (num_elements (shared s))\<rparr>\<rparr>)" (is "threads_inv ?t")
proof (rule threads_invI)
  let ?n = "length (queue (shared s))" and ?w = "next_write_index (shared s)" and ?k = "num_elements (shared s)"
  have k: "?k < ?n" by (rule threads_invD(7) [OF inv p])
  have w: "?w = (read_pos s + ?k) mod ?n" using threads_invD(4) [OF inv] p by (simp add: write_pos_def)
  have r: "read_pos ?t = read_pos s" by (rule read_pos_cong) simp_all
  have i: "item_at ?t = item_at s" by (rule item_at_cong) simp_all
  have "queue (shared s) ! ((read_pos s + ?k) mod ?n) = x" using threads_invD(8) [OF inv p] unfolding w .
  then have "item_at s ?k = x"
    using threads_invD(10) [OF inv] unfolding item_at_def by (auto split: consumer.split)
  then show "inserted ?t = taken ?t @ map (item_at ?t) [0..<num_elements (shared ?t)]"
    unfolding i using threads_invD(11) [OF inv] by simp
  have "Suc ?w mod ?n = Suc (read_pos s + ?k) mod ?n" unfolding w by (rule mod_Suc_eq)
  then show "write_pos ?t = (read_pos ?t + num_elements (shared ?t)) mod length (queue (shared ?t))"
    unfolding r by (simp add: write_pos_def)
  show "num_elements (shared ?t) \<le> length (queue (shared ?t))" using k by simp
qed (use threads_invD(1,2,5) [OF inv] in auto)

lemma p_inc_inv:
  assumes inv: "threads_inv s" and p: "prod s = PAdded" and w: "w = next_write_index (shared s)"
  shows "threads_inv (s\<lparr>prod := PIdle, shared := (shared s)\<lparr>next_write_index :=
       (if Suc w = length (queue (shared s)) then 0 else Suc w)\<rparr>\<rparr>)" (is "threads_inv ?t")
proof (rule threads_invI)
  let ?n = "length (queue (shared s))"
  have lt: "w < ?n" using threads_invD(2) [OF inv] w by simp
  have same: "item_at ?t = item_at s" "read_pos ?t = read_pos s"
    by (rule item_at_cong, simp, simp, simp, rule read_pos_cong, simp_all)
  have v: "write_pos ?t = write_pos s" unfolding ring_inc [OF lt] using p by (simp add: write_pos_def w)
  show "write_pos ?t = (read_pos ?t + num_elements (shared ?t)) mod length (queue (shared ?t))"
    unfolding v same using threads_invD(4) [OF inv] by simp
  show "inserted ?t = taken ?t @ map (item_at ?t) [0..<num_elements (shared ?t)]"
    unfolding same using threads_invD(11) [OF inv] by simp
  show "next_write_index (shared ?t) < length (queue (shared ?t))" using lt by (auto simp: less_Suc_eq Suc_lessI)
qed (use threads_invD(1,3,5,9,10) [OF inv] in auto)

lemma c_load_inv:
  assumes inv: "threads_inv s" and c: "cons s = CIdle" and k: "num_elements (shared s) \<noteq> 0"
  shows "threads_inv (s\<lparr>cons := CLoaded e\<rparr>)" (is "threads_inv ?t")
proof (rule threads_invI)
  have same: "item_at ?t = item_at s" "read_pos ?t = read_pos s" "write_pos ?t = write_pos s"
    using c by - (simp add: item_at_def read_pos_def fun_eq_iff, simp add: read_pos_def, rule write_pos_cong, simp_all)
  show "write_pos ?t = (read_pos ?t + num_elements (shared ?t)) mod length (queue (shared ?t))"
    unfolding same using threads_invD(4) [OF inv] by simp
  show "inserted ?t = taken ?t @ map (item_at ?t) [0..<num_elements (shared ?t)]"
    unfolding same using threads_invD(11) [OF inv] by simp
qed (use threads_invD(1-3,6-8) [OF inv] k in auto)

lemma c_swap_inv:
  assumes inv: "threads_inv s" and c: "cons s = CLoaded e"
  shows "threads_inv (s\<lparr>cons := CSwapped (queue (shared s) ! next_read_index (shared s)),
       shared := (shared s)\<lparr>queue := (queue (shared s))[next_read_index (shared s) := e]\<rparr>\<rparr>)" (is "threads_inv ?t")
proof (rule threads_invI)
  let ?n = "length (queue (shared s))" and ?r = "next_read_index (shared s)" and ?k = "num_elements (shared s)"
  have k: "0 < ?k" "?k \<le> ?n" "?r < ?n" using threads_invD(1,3) [OF inv] threads_invD(9) [OF inv c] by simp_all
  have rp: "read_pos s = ?r" "read_pos ?t = ?r" using c by (simp_all add: read_pos_def)
  have ne: "?r \<noteq> (?r + i) mod ?n" if "0 < i" "i < ?n" for i
    using ring_neq [of 0 i ?n ?r] that k(3) by simp
  have "item_at ?t i = item_at s i" if "i < ?k" for i
    unfolding item_at_def rp using that c k ne [of i] by (cases "i = 0") simp_all
  then have "map (item_at ?t) [0..<?k] = map (item_at s) [0..<?k]" by (intro map_cong) auto
  then show "inserted ?t = taken ?t @ map (item_at ?t) [0..<num_elements (shared ?t)]"
    using threads_invD(11) [OF inv] by simp
  have wp: "write_pos ?t = write_pos s" by (rule write_pos_cong) simp_all
  show "write_pos ?t = (read_pos ?t + num_elements (shared ?t)) mod length (queue (shared ?t))"
    unfolding wp rp using threads_invD(4) [OF inv] unfolding rp by simp
  show "queue (shared ?t) ! next_write_index (shared ?t) = x" if "prod ?t = PSwapped x" for x
  proof -
    have p: "prod s = PSwapped x" using that by simp
    have "next_write_index (shared s) = (?r + ?k) mod ?n"
      using threads_invD(4) [OF inv] p unfolding rp by (simp add: write_pos_def)
    then have "?r \<noteq> next_write_index (shared s)" using ne [OF k(1) threads_invD(7) [OF inv p]] by metis
    with threads_invD(8) [OF inv p] show ?thesis by simp
  qed
qed (use threads_invD(1-3,6,7,9) [OF inv] c in auto)

lemma c_sub_inv:
  assumes inv: "threads_inv s" and c: "cons s = CSwapped y"
  shows "threads_inv (s\<lparr>cons := CSubbed, taken := taken s @ [y],
       shared := (shared s)\<lparr>num_elements := num_elements (shared s) - 1\<rparr>\<rparr>)" (is "threads_inv ?t")
proof (rule threads_invI)
  let ?n = "length (queue (shared s))" and ?r = "next_read_index (shared s)" and ?k = "num_elements (shared s)"
  have k: "0 < ?k" by (rule threads_invD(10) [OF inv c])
  have rp: "read_pos s = ?r" "read_pos ?t = Suc ?r mod ?n" using c by (simp_all add: read_pos_def)
  have "item_at ?t i = item_at s (Suc i)" for i
    unfolding item_at_def rp using c by (simp add: mod_add_left_eq)
  moreover have "item_at s 0 = y" using c by (simp add: item_at_def)
  moreover have "map (item_at s) [0..<?k] = item_at s 0 # map (\<lambda>i. item_at s (Suc i)) [0..<?k - 1]"
    using k by (intro nth_equalityI) (auto simp: nth_Cons')
  ultimately show "inserted ?t = taken ?t @ map (item_at ?t) [0..<num_elements (shared ?t)]"
    using threads_invD(11) [OF inv] by simp
  have "(Suc ?r mod ?n + (?k - 1)) mod ?n = (Suc ?r + (?k - 1)) mod ?n" by (rule mod_add_left_eq)
  also have "Suc ?r + (?k - 1) = ?r + ?k" using k by simp
  finally have e: "(Suc ?r mod ?n + (?k - 1)) mod ?n = (?r + ?k) mod ?n" .
  have wp: "write_pos ?t = write_pos s" by (rule write_pos_cong) simp_all
  show "write_pos ?t = (read_pos ?t + num_elements (shared ?t)) mod length (queue (shared ?t))"
    unfolding wp rp using threads_invD(4) [OF inv] e unfolding rp by simp
  show "num_elements (shared ?t) < length (queue (shared ?t))"
    using k threads_invD(3) [OF inv] by simp
qed (use threads_invD(1-3,8) [OF inv] in auto)

lemma c_inc_inv:
  assumes inv: "threads_inv s" and c: "cons s = CSubbed" and r: "r = next_read_index (shared s)"
  shows "threads_inv (s\<lparr>cons := CIdle, shared := (shared s)\<lparr>next_read_index :=
       (if Suc r = length (queue (shared s)) then 0 else Suc r)\<rparr>\<rparr>)" (is "threads_inv ?t")
proof (rule threads_invI)
  let ?n = "length (queue (shared s))"
  have lt: "r < ?n" using threads_invD(1) [OF inv] r by simp
  have rp: "read_pos ?t = read_pos s" unfolding ring_inc [OF lt] using c by (simp add: read_pos_def r)
  have it: "item_at ?t = item_at s" unfolding item_at_def rp using c by simp
  have wp: "write_pos ?t = write_pos s" by (rule write_pos_cong) simp_all
  show "write_pos ?t = (read_pos ?t + num_elements (shared ?t)) mod length (queue (shared ?t))"
    unfolding wp rp using threads_invD(4) [OF inv] by simp
  show "inserted ?t = taken ?t @ map (item_at ?t) [0..<num_elements (shared ?t)]"
    unfolding it using threads_invD(11) [OF inv] by simp
  show "next_read_index (shared ?t) < length (queue (shared ?t))" using lt by (auto simp: less_Suc_eq Suc_lessI)
qed (use threads_invD(2,3,6-8) [OF inv] in auto)

lemma c_exchange_inv:
  assumes inv: "threads_inv s" and c: "cons s = CIdle"
  shows "threads_inv (s\<lparr>cons := CCleared (num_elements (shared s)), taken := inserted s,
       shared := (shared s)\<lparr>num_elements := 0\<rparr>\<rparr>)" (is "threads_inv ?t")
proof (rule threads_invI)
  have wp: "write_pos ?t = write_pos s" by (rule write_pos_cong) simp_all
  show "write_pos ?t = (read_pos ?t + num_elements (shared ?t)) mod length (queue (shared ?t))"
    unfolding wp using threads_invD(4) [OF inv] c by (simp add: read_pos_def)
  show "num_elements (shared ?t) < length (queue (shared ?t))"
    using threads_invD(1) [OF inv] by auto
qed (use threads_invD(1-3,8) [OF inv] in auto)

lemma c_clear_inv:
  assumes inv: "threads_inv s" and c: "cons s = CCleared k" and r: "r = next_read_index (shared s) + k"
  shows "threads_inv (s\<lparr>cons := CIdle, shared := (shared s)\<lparr>next_read_index :=
       (if r \<ge> length (queue (shared s)) then r - length (queue (shared s)) else r)\<rparr>\<rparr>)" (is "threads_inv ?t")
proof (rule threads_invI)
  let ?n = "length (queue (shared s))"
  have lt: "next_read_index (shared s) < ?n" "k \<le> ?n"
    using threads_invD(1) [OF inv] threads_invD(5) [OF inv c] by simp_all
  have rr: "(if r \<ge> ?n then r - ?n else r) = r mod ?n" unfolding r by (rule ring_add [OF lt])
  have rp: "read_pos ?t = read_pos s" unfolding rr using c by (simp add: read_pos_def r)
  have it: "item_at ?t = item_at s" unfolding item_at_def rp using c by simp
  have wp: "write_pos ?t = write_pos s" by (rule write_pos_cong) simp_all
  show "write_pos ?t = (read_pos ?t + num_elements (shared ?t)) mod length (queue (shared ?t))"
    unfolding wp rp using threads_invD(4) [OF inv] by simp
  show "inserted ?t = taken ?t @ map (item_at ?t) [0..<num_elements (shared ?t)]"
    unfolding it using threads_invD(11) [OF inv] by simp
  show "next_read_index (shared ?t) < length (queue (shared ?t))" using lt r by (auto split: if_split)
qed (use threads_invD(2,3,6-8) [OF inv] in auto)

lemmas thread_invs = p_load_inv p_swap_inv p_add_inv p_inc_inv c_load_inv c_swap_inv c_sub_inv c_inc_inv
  c_exchange_inv c_clear_inv

lemma thread_step_inv: "thread_step s t \<Longrightarrow> threads_inv s \<Longrightarrow> threads_inv t"
  by (induction rule: thread_step.induct) (rule thread_invs; assumption)+

definition threads_start :: "'a swap_queue \<Rightarrow> 'a threads" where
  "threads_start q = \<lparr>shared = q, prod = PIdle, cons = CIdle, inserted = [], taken = []\<rparr>"

definition fresh_queue :: "'a threads \<Rightarrow> bool" where
  "fresh_queue s \<longleftrightarrow> (\<exists>ver sz proto q. 0 < sz \<and> SwapQueue ver sz proto = Inr q \<and> s = threads_start q)"

interpretation swap_threads: safe_system fresh_queue thread_step threads_inv
proof
  fix s :: "'a threads"
  assume "fresh_queue s"
  then obtain ver sz proto and q :: "'a swap_queue" where q: "0 < sz" "SwapQueue ver sz proto = Inr q" "s = threads_start q"
    by (auto simp: fresh_queue_def)
  then have "q = \<lparr>next_write_index = 0, next_read_index = 0, num_elements = 0, queue = replicate sz proto\<rparr>"
    by (simp add: SwapQueue_def)
  with q show "threads_inv s" by (simp add: threads_start_def threads_defs pos_defs)
qed (rule thread_step_inv)

text \<open>
  C13. The queue is safe between two threads. Under every interleaving of the producer's and the
  consumer's accesses, clears included: the indices stay within the buffer and the count within its size;
  the two threads never have the same slot open for their swap; and the items taken out are, in order,
  a prefix of the items put in.
\<close>

theorem swap_queue_threads_safe:
  assumes "fresh_queue s" and "thread_step\<^sup>*\<^sup>* s t"
  shows "next_read_index (shared t) < length (queue (shared t)) \<and>
    next_write_index (shared t) < length (queue (shared t)) \<and>
    num_elements (shared t) \<le> length (queue (shared t)) \<and>
    (\<forall>x e. prod t = PLoaded x \<and> cons t = CLoaded e \<longrightarrow> next_write_index (shared t) \<noteq> next_read_index (shared t)) \<and>
    prefix (taken t) (inserted t) \<and> length (inserted t) = length (taken t) + num_elements (shared t)"
proof -
  have inv: "threads_inv t" by (rule swap_threads.inv_reachable [OF assms])
  have "next_write_index (shared t) \<noteq> next_read_index (shared t)" if "prod t = PLoaded x" "cons t = CLoaded e" for x e
  proof -
    have k: "0 < num_elements (shared t)" "num_elements (shared t) < length (queue (shared t))"
      and w: "next_write_index (shared t) = (next_read_index (shared t) + num_elements (shared t)) mod length (queue (shared t))"
      and r: "next_read_index (shared t) < length (queue (shared t))"
      using threads_invD(9) [OF inv that(2)] threads_invD(6) [OF inv that(1)] threads_invD(4,1) [OF inv] that
      by (simp_all add: pos_defs)
    show ?thesis using ring_neq [of 0 "num_elements (shared t)" "length (queue (shared t))" "next_read_index (shared t)"]
        k r unfolding w by simp
  qed
  with threads_invD(1-3,11) [OF inv] show ?thesis by (auto simp: prefix_def)
qed

theorem swap_queue_threads_safe_witness:
  "\<exists>s t. fresh_queue s \<and> thread_step\<^sup>*\<^sup>* s t \<and> prod t = PLoaded (7 :: nat) \<and> prefix (taken t) (inserted t)"
proof -
  let ?q = "\<lparr>next_write_index = 0, next_read_index = 0, num_elements = 0, queue = [0, 0 :: nat]\<rparr>"
  let ?s = "threads_start ?q" and ?t = "(threads_start ?q)\<lparr>prod := PLoaded 7\<rparr>"
  have "SwapQueue (\<lambda>_. True) 2 (0 :: nat) = Inr ?q" by (simp add: SwapQueue_def VerifyQueueSlots_def numeral_2_eq_2)
  then have f: "fresh_queue ?s" unfolding fresh_queue_def by (metis zero_less_numeral)
  have "thread_step ?s ?t" by (rule thread_step.p_load) (simp_all add: threads_start_def)
  then have r: "thread_step\<^sup>*\<^sup>* ?s ?t" by (rule r_into_rtranclp)
  from swap_queue_threads_safe [OF f r] f r show ?thesis by (intro exI [of _ ?s] exI [of _ ?t]) simp
qed

end
