(* ===== verification/Buffer.thy ===== *)
theory Buffer
  imports Prelude
begin

text \<open>
  \<^verbatim>\<open>rtc_base/buffer.h\<close>: \<^verbatim>\<open>BufferT\<close>, a growable array that does not initialise its memory, and its
  variant that zeroes memory before releasing it. A heap block is a list of cells, \<open>None\<close> a cell never
  written; \<open>freed\<close> records the content of every block given back to the allocator. The checks are those
  of a debug build, in which a buffer that was moved from is made inconsistent on purpose. Theorems: the
  operations refine operations on lists, and the zeroing variant never releases a block with data in it.
\<close>

section \<open>Memory blocks\<close>

type_synonym 'a block = "'a option list"

text \<open>No array is larger than \<^verbatim>\<open>PTRDIFF_MAX\<close>.\<close>

definition alloc_limit :: nat where
  "alloc_limit = 2 ^ 63 - 1"

definition new_block :: "nat \<Rightarrow> abort + 'a block" where
  "new_block n = (if n \<le> alloc_limit then Inr (replicate n None) else Inl OutOfMemory)"

definition put_cells :: "nat \<Rightarrow> 'a block \<Rightarrow> 'a block \<Rightarrow> 'a block" where
  "put_cells off src dst = take off dst @ src @ drop (off + length src) dst"

definition memcpy_cells :: "nat \<Rightarrow> 'a block \<Rightarrow> 'a block \<Rightarrow> abort + 'a block" where
  "memcpy_cells off src dst =
     (if off + length src \<le> length dst then Inr (put_cells off src dst) else Inl OutOfBounds)"

definition ExplicitZeroMemory :: "nat \<Rightarrow> nat \<Rightarrow> 'a::zero block \<Rightarrow> abort + 'a block" where
  "ExplicitZeroMemory off n blk = memcpy_cells off (replicate n (Some 0)) blk"

definition block_of :: "'a block option \<Rightarrow> 'a block" where
  "block_of p = (case p of Some blk \<Rightarrow> blk | None \<Rightarrow> [])"

text \<open>The \<open>n\<close> elements a source pointer gives access to.\<close>

definition read_source :: "'a block option \<Rightarrow> nat \<Rightarrow> abort + 'a block" where
  "read_source src n =
     (case src of
        None \<Rightarrow> Inl CheckFailed
      | Some xs \<Rightarrow> if n \<le> length xs then Inr (take n xs) else Inl OutOfBounds)"

section \<open>The buffer\<close>

record 'a buffer =
  bsize :: nat
  bcapacity :: nat
  bdata :: "'a block option"
  freed :: "'a block list"

definition IsConsistent :: "'a buffer \<Rightarrow> bool" where
  "IsConsistent b \<longleftrightarrow> (bdata b \<noteq> None \<or> bcapacity b = 0) \<and> bsize b \<le> bcapacity b"

text \<open>Give the block back to the allocator.\<close>

definition release :: "'a buffer \<Rightarrow> 'a buffer" where
  "release b = (case bdata b of None \<Rightarrow> b | Some blk \<Rightarrow> b\<lparr>bdata := None, freed := freed b @ [blk]\<rparr>)"

definition MaybeZeroCompleteBuffer :: "bool \<Rightarrow> 'a::zero buffer \<Rightarrow> abort + 'a buffer" where
  "MaybeZeroCompleteBuffer zf b =
     (if zf \<and> 0 < bcapacity b
      then bindE (ExplicitZeroMemory 0 (bcapacity b) (block_of (bdata b))) (\<lambda>blk. Inr (b\<lparr>bdata := Some blk\<rparr>))
      else Inr b)"

definition ZeroTrailingData :: "nat \<Rightarrow> 'a::zero buffer \<Rightarrow> abort + 'a buffer" where
  "ZeroTrailingData n b =
     check (IsConsistent b) (check (n \<le> bcapacity b - bsize b)
       (bindE (ExplicitZeroMemory (bsize b) n (block_of (bdata b))) (\<lambda>blk. Inr (b\<lparr>bdata := Some blk\<rparr>))))"

definition OnMovedFrom :: "'a buffer \<Rightarrow> abort + 'a buffer" where
  "OnMovedFrom b = check (bdata b = None) (Inr (b\<lparr>bsize := 1, bcapacity := 0\<rparr>))"

definition EnsureCapacityWithHeadroom :: "bool \<Rightarrow> nat \<Rightarrow> bool \<Rightarrow> 'a::zero buffer \<Rightarrow> abort + 'a buffer" where
  "EnsureCapacityWithHeadroom zf capacity extra_headroom b =
     check (IsConsistent b)
       (if capacity \<le> bcapacity b then Inr b
        else
          let new_capacity =
            (if extra_headroom then max capacity ((bcapacity b + bcapacity b div 2) mod 2 ^ 64) else capacity)
          in bindE (new_block new_capacity) (\<lambda>raw.
             bindE (case bdata b of None \<Rightarrow> Inr raw | Some blk \<Rightarrow> memcpy_cells 0 (take (bsize b) blk) raw) (\<lambda>new_data.
             bindE (MaybeZeroCompleteBuffer zf b) (\<lambda>b.
             let b' = (release b)\<lparr>bdata := Some new_data, bcapacity := new_capacity\<rparr>
             in check (IsConsistent b') (Inr b')))))"

section \<open>Construction and destruction\<close>

definition BufferT_empty :: "'a buffer" where
  "BufferT_empty = \<lparr>bsize = 0, bcapacity = 0, bdata = None, freed = []\<rparr>"

definition BufferT_sized :: "nat \<Rightarrow> nat \<Rightarrow> abort + 'a buffer" where
  "BufferT_sized sz capacity =
     (let c = max sz capacity
      in bindE (if 0 < c then bindE (new_block c) (\<lambda>blk. Inr (Some blk)) else Inr None) (\<lambda>p.
           let b = \<lparr>bsize = sz, bcapacity = c, bdata = p, freed = []\<rparr> in check (IsConsistent b) (Inr b)))"

definition BufferT_copy :: "'a block option \<Rightarrow> nat \<Rightarrow> nat \<Rightarrow> abort + 'a buffer" where
  "BufferT_copy src sz capacity =
     bindE (BufferT_sized sz capacity) (\<lambda>b.
       if 0 < sz
       then bindE (read_source src sz) (\<lambda>xs.
            bindE (memcpy_cells 0 xs (block_of (bdata b))) (\<lambda>blk. Inr (b\<lparr>bdata := Some blk\<rparr>)))
       else Inr b)"

definition CreateWithCapacity :: "nat \<Rightarrow> abort + 'a buffer" where
  "CreateWithCapacity capacity = BufferT_sized 0 capacity"

definition CreateUninitializedWithSize :: "nat \<Rightarrow> abort + 'a buffer" where
  "CreateUninitializedWithSize sz = BufferT_sized sz sz"

definition BufferT_destroy :: "bool \<Rightarrow> 'a::zero buffer \<Rightarrow> abort + 'a buffer" where
  "BufferT_destroy zf b = bindE (MaybeZeroCompleteBuffer zf b) (\<lambda>b. Inr (release b))"

text \<open>The buffer made and the one moved from. The release history stays with the old object.\<close>

definition BufferT_move :: "'a buffer \<Rightarrow> abort + ('a buffer \<times> 'a buffer)" where
  "BufferT_move buf =
     check (IsConsistent buf)
       (let b = \<lparr>bsize = bsize buf, bcapacity = bcapacity buf, bdata = bdata buf, freed = []\<rparr>
        in check (IsConsistent b)
             (bindE (OnMovedFrom (buf\<lparr>bdata := None\<rparr>)) (\<lambda>buf. Inr (b, buf))))"

text \<open>Move assignment: the target, then the source. The source frees the target's old block.\<close>

definition BufferT_move_assign :: "bool \<Rightarrow> 'a::zero buffer \<Rightarrow> 'a buffer \<Rightarrow> abort + ('a buffer \<times> 'a buffer)" where
  "BufferT_move_assign zf this buf =
     check (IsConsistent buf)
       (bindE (MaybeZeroCompleteBuffer zf this) (\<lambda>this.
        let this' = this\<lparr>bsize := bsize buf, bcapacity := bcapacity buf, bdata := bdata buf\<rparr>;
            buf' = release (buf\<lparr>bdata := bdata this\<rparr>)
        in bindE (OnMovedFrom buf') (\<lambda>buf'. Inr (this', buf'))))"

section \<open>Access\<close>

definition BufferT_size :: "'a buffer \<Rightarrow> abort + nat" where
  "BufferT_size b = check (IsConsistent b) (Inr (bsize b))"

definition BufferT_capacity :: "'a buffer \<Rightarrow> abort + nat" where
  "BufferT_capacity b = check (IsConsistent b) (Inr (bcapacity b))"

definition BufferT_empty_p :: "'a buffer \<Rightarrow> abort + bool" where
  "BufferT_empty_p b = check (IsConsistent b) (Inr (bsize b = 0))"

definition BufferT_data :: "'a buffer \<Rightarrow> abort + 'a block option" where
  "BufferT_data b = check (IsConsistent b) (Inr (bdata b))"

definition load_cell :: "'a block \<Rightarrow> nat \<Rightarrow> abort + 'a" where
  "load_cell blk i =
     (if i < length blk then (case blk ! i of Some x \<Rightarrow> Inr x | None \<Rightarrow> Inl UninitRead) else Inl OutOfBounds)"

definition BufferT_get :: "'a buffer \<Rightarrow> nat \<Rightarrow> abort + 'a" where
  "BufferT_get b i = check (i < bsize b) (bindE (BufferT_data b) (\<lambda>p. load_cell (block_of p) i))"

definition BufferT_put :: "'a buffer \<Rightarrow> nat \<Rightarrow> 'a \<Rightarrow> abort + 'a buffer" where
  "BufferT_put b i x =
     check (i < bsize b) (bindE (BufferT_data b) (\<lambda>p.
       bindE (memcpy_cells i [Some x] (block_of p)) (\<lambda>blk. Inr (b\<lparr>bdata := Some blk\<rparr>))))"

text \<open>Element by element, up to the first difference.\<close>

fun cells_equal :: "'a block \<Rightarrow> 'a block \<Rightarrow> nat \<Rightarrow> nat \<Rightarrow> abort + bool" where
  "cells_equal xs ys i 0 = Inr True"
| "cells_equal xs ys i (Suc n) =
     bindE (load_cell xs i) (\<lambda>x. bindE (load_cell ys i) (\<lambda>y.
       if x \<noteq> y then Inr False else cells_equal xs ys (Suc i) n))"

definition BufferT_eq :: "'a buffer \<Rightarrow> 'a buffer \<Rightarrow> abort + bool" where
  "BufferT_eq a b =
     check (IsConsistent a)
       (if bsize a \<noteq> bsize b then Inr False
        else cells_equal (block_of (bdata a)) (block_of (bdata b)) 0 (bsize a))"

section \<open>Modification\<close>

definition AppendData :: "bool \<Rightarrow> 'a block option \<Rightarrow> nat \<Rightarrow> 'a::zero buffer \<Rightarrow> abort + 'a buffer" where
  "AppendData zf src n b =
     (if n = 0 then Inr b
      else check (src \<noteq> None) (check (IsConsistent b)
        (let new_size = (bsize b + n) mod 2 ^ 64
         in bindE (EnsureCapacityWithHeadroom zf new_size True b) (\<lambda>b.
            bindE (read_source src n) (\<lambda>xs.
            bindE (memcpy_cells (bsize b) xs (block_of (bdata b))) (\<lambda>blk.
            let b' = b\<lparr>bdata := Some blk, bsize := new_size\<rparr>
            in check (IsConsistent b') (Inr b')))))))"

definition SetSize :: "bool \<Rightarrow> nat \<Rightarrow> 'a::zero buffer \<Rightarrow> abort + 'a buffer" where
  "SetSize zf n b =
     (let old_size = bsize b
      in bindE (EnsureCapacityWithHeadroom zf n True b) (\<lambda>b.
           let b = b\<lparr>bsize := n\<rparr>
           in if zf \<and> bsize b < old_size then ZeroTrailingData (old_size - bsize b) b else Inr b))"

text \<open>
  \<open>setter\<close> is given the cells of its view and answers the count it claims to have written and the
  cells as it leaves them; it fails if it writes outside the view.
\<close>

definition AppendData_setter ::
  "bool \<Rightarrow> nat \<Rightarrow> ('a block \<Rightarrow> nat \<times> 'a block) \<Rightarrow> 'a::zero buffer \<Rightarrow> abort + (nat \<times> 'a buffer)" where
  "AppendData_setter zf max_elements setter b =
     check (IsConsistent b)
       (let old_size = bsize b
        in bindE (SetSize zf ((old_size + max_elements) mod 2 ^ 64) b) (\<lambda>b.
           bindE (BufferT_data b) (\<lambda>p.
           if length (block_of p) < old_size + max_elements then Inl OutOfBounds
           else
             let view = take max_elements (drop old_size (block_of p));
                 (written, cells) = setter view
             in if length cells \<noteq> length view then Inl OutOfBounds
                else check (written \<le> max_elements)
                  (let b' = b\<lparr>bdata := map_option (put_cells old_size cells) p, bsize := old_size + written\<rparr>
                   in check (IsConsistent b') (Inr (written, b'))))))"

definition SetData :: "bool \<Rightarrow> 'a block option \<Rightarrow> nat \<Rightarrow> 'a::zero buffer \<Rightarrow> abort + 'a buffer" where
  "SetData zf src n b =
     check (IsConsistent b)
       (let old_size = bsize b
        in bindE (AppendData zf src n (b\<lparr>bsize := 0\<rparr>)) (\<lambda>b.
           if zf \<and> bsize b < old_size then ZeroTrailingData (old_size - bsize b) b else Inr b))"

definition SetData_setter ::
  "bool \<Rightarrow> nat \<Rightarrow> ('a block \<Rightarrow> nat \<times> 'a block) \<Rightarrow> 'a::zero buffer \<Rightarrow> abort + (nat \<times> 'a buffer)" where
  "SetData_setter zf max_elements setter b =
     check (IsConsistent b)
       (let old_size = bsize b
        in bindE (AppendData_setter zf max_elements setter (b\<lparr>bsize := 0\<rparr>)) (\<lambda>(written, b).
           if zf \<and> bsize b < old_size
           then bindE (ZeroTrailingData (old_size - bsize b) b) (\<lambda>b. Inr (written, b))
           else Inr (written, b)))"

definition EnsureCapacity :: "bool \<Rightarrow> nat \<Rightarrow> 'a::zero buffer \<Rightarrow> abort + 'a buffer" where
  "EnsureCapacity zf capacity b = EnsureCapacityWithHeadroom zf capacity False b"

definition BufferT_Clear :: "bool \<Rightarrow> 'a::zero buffer \<Rightarrow> abort + 'a buffer" where
  "BufferT_Clear zf b =
     bindE (MaybeZeroCompleteBuffer zf b) (\<lambda>b.
       let b' = b\<lparr>bsize := 0\<rparr> in check (IsConsistent b') (Inr b'))"

definition BufferT_swap :: "'a buffer \<Rightarrow> 'a buffer \<Rightarrow> 'a buffer \<times> 'a buffer" where
  "BufferT_swap a b =
     (a\<lparr>bsize := bsize b, bcapacity := bcapacity b, bdata := bdata b\<rparr>,
      b\<lparr>bsize := bsize a, bcapacity := bcapacity a, bdata := bdata a\<rparr>)"

section \<open>Well-formed buffers and their content\<close>

definition buf_wf :: "'a buffer \<Rightarrow> bool" where
  "buf_wf b \<longleftrightarrow> length (block_of (bdata b)) = bcapacity b \<and> bcapacity b \<le> alloc_limit"

definition buf_ok :: "'a buffer \<Rightarrow> bool" where
  "buf_ok b \<longleftrightarrow> buf_wf b \<and> bsize b \<le> bcapacity b"

definition elems :: "'a buffer \<Rightarrow> 'a block" where
  "elems b = take (bsize b) (block_of (bdata b))"

definition all_zero :: "'a::zero block \<Rightarrow> bool" where
  "all_zero blk \<longleftrightarrow> (\<forall>c\<in>set blk. c = Some 0)"

definition zero_freed :: "'a::zero buffer \<Rightarrow> bool" where
  "zero_freed b \<longleftrightarrow> (\<forall>blk\<in>set (freed b). all_zero blk)"

text \<open>An allocation for \<open>n\<close> elements with headroom stays below the limit.\<close>

definition fits :: "nat \<Rightarrow> 'a buffer \<Rightarrow> bool" where
  "fits n b \<longleftrightarrow> n \<le> bcapacity b \<or> n \<le> alloc_limit \<and> bcapacity b + bcapacity b div 2 \<le> alloc_limit"

lemma block_of_simps [simp]: "block_of None = []" "block_of (Some blk) = blk"
  by (simp_all add: block_of_def)

lemma put_cells_length [simp]: "off + length src \<le> length dst \<Longrightarrow> length (put_cells off src dst) = length dst"
  by (simp add: put_cells_def)

lemma take_put_cells: "off + length src \<le> length dst \<Longrightarrow>
    take (off + length src) (put_cells off src dst) = take off dst @ src"
  by (simp add: put_cells_def)

lemma take_put_cells_low: "n \<le> off \<Longrightarrow> off \<le> length dst \<Longrightarrow> take n (put_cells off src dst) = take n dst"
  by (simp add: put_cells_def)

lemma buf_ok_consistent [simp]: "buf_ok b \<Longrightarrow> IsConsistent b"
  by (cases "bdata b") (auto simp: buf_ok_def buf_wf_def IsConsistent_def)

lemma length_elems [simp]: "buf_ok b \<Longrightarrow> length (elems b) = bsize b"
  by (simp add: buf_ok_def buf_wf_def elems_def)

lemma release_simps [simp]:
  "bsize (release b) = bsize b" "bcapacity (release b) = bcapacity b" "bdata (release b) = None"
  by (simp_all add: release_def split: option.split)

lemma freed_release: "freed (release b) = freed b @ (case bdata b of None \<Rightarrow> [] | Some blk \<Rightarrow> [blk])"
  by (simp add: release_def split: option.split)

lemma MaybeZero_law:
  assumes "buf_wf b"
  shows "\<exists>t. MaybeZeroCompleteBuffer zf b = Inr t \<and> buf_wf t \<and> bsize t = bsize b \<and> bcapacity t = bcapacity b
    \<and> freed t = freed b \<and> (zf \<longrightarrow> all_zero (block_of (bdata t))) \<and> (\<not> zf \<longrightarrow> t = b)"
proof (cases "zf \<and> 0 < bcapacity b")
  case True
  with assms show ?thesis
    by (auto simp: MaybeZeroCompleteBuffer_def ExplicitZeroMemory_def memcpy_cells_def buf_wf_def put_cells_def
        all_zero_def)
next
  case False
  with assms show ?thesis
    by (auto simp: MaybeZeroCompleteBuffer_def buf_wf_def all_zero_def)
qed

lemma alloc_limit_headroom: "c \<le> alloc_limit \<Longrightarrow> (c + c div 2) mod 2 ^ 64 = c + c div 2"
  by (rule mod_less) (simp add: alloc_limit_def)

lemma Ensure_law:
  assumes ok: "buf_ok b"
  shows "EnsureCapacityWithHeadroom zf n hr b = Inl OutOfMemory \<and> \<not> fits n b \<or>
    (\<exists>t. EnsureCapacityWithHeadroom zf n hr b = Inr t \<and> buf_ok t \<and> elems t = elems b \<and> bsize t = bsize b \<and>
       max n (bcapacity b) \<le> bcapacity t \<and> (n \<le> bcapacity b \<longrightarrow> t = b) \<and> (zf \<and> zero_freed b \<longrightarrow> zero_freed t))"
proof (cases "n \<le> bcapacity b")
  case True
  with ok show ?thesis by (simp add: EnsureCapacityWithHeadroom_def)
next
  case False
  let ?c = "if hr then max n (bcapacity b + bcapacity b div 2) else n"
  have h: "(bcapacity b + bcapacity b div 2) mod 2 ^ 64 = bcapacity b + bcapacity b div 2"
    using ok by (intro alloc_limit_headroom) (simp add: buf_ok_def buf_wf_def)
  note def = EnsureCapacityWithHeadroom_def [of zf n hr b, unfolded h]
  show ?thesis
  proof (cases "?c \<le> alloc_limit")
    case False
    with \<open>\<not> n \<le> bcapacity b\<close> ok have "EnsureCapacityWithHeadroom zf n hr b = Inl OutOfMemory"
      by (simp add: def new_block_def Let_def)
    moreover have "\<not> fits n b" using False \<open>\<not> n \<le> bcapacity b\<close> by (auto simp: fits_def split: if_splits)
    ultimately show ?thesis by simp
  next
    case True
    obtain z where z: "MaybeZeroCompleteBuffer zf b = Inr z" "buf_wf z" "bsize z = bsize b" "freed z = freed b"
      "zf \<longrightarrow> all_zero (block_of (bdata z))"
      using MaybeZero_law [of b zf] ok by (auto simp: buf_ok_def)
    have sz: "bsize b \<le> ?c" using ok False by (auto simp: buf_ok_def)
    let ?d = "put_cells 0 (elems b) (replicate ?c None)"
    let ?t = "(release z)\<lparr>bdata := Some ?d, bcapacity := ?c\<rparr>"
    have d: "length ?d = ?c" "take (bsize b) ?d = elems b"
      using ok sz take_put_cells [of 0 "elems b" "replicate ?c None"] by simp_all
    have cp: "(case bdata b of None \<Rightarrow> Inr (replicate ?c None)
        | Some blk \<Rightarrow> memcpy_cells 0 (take (bsize b) blk) (replicate ?c None)) = Inr ?d"
      using ok sz
      by (cases "bdata b") (auto simp: memcpy_cells_def buf_ok_def buf_wf_def elems_def put_cells_def)
    have tok: "buf_ok ?t" using d sz True z(3) by (simp add: buf_ok_def buf_wf_def)
    have "EnsureCapacityWithHeadroom zf n hr b = Inr ?t"
      using False True ok tok cp by (simp add: def new_block_def z(1) Let_def)
    moreover have "zf \<and> zero_freed b \<longrightarrow> zero_freed ?t"
      using z(4,5) by (cases "bdata z") (auto simp: zero_freed_def freed_release)
    moreover have "elems ?t = elems b" using d z(3) by (simp add: elems_def)
    ultimately show ?thesis using tok False z(3) by auto
  qed
qed

section \<open>What each operation does to the content\<close>

lemma Ensure_sound:
  assumes "EnsureCapacityWithHeadroom zf n hr b = Inr t" "buf_ok b"
  shows "buf_ok t" "elems t = elems b" "bsize t = bsize b" "n \<le> bcapacity t" "bcapacity b \<le> bcapacity t"
    "zf \<Longrightarrow> zero_freed b \<Longrightarrow> zero_freed t" "n \<le> bcapacity b \<Longrightarrow> t = b"
  using Ensure_law [of b zf n hr] assms by auto

lemma Ensure_total: "buf_ok b \<Longrightarrow> fits n b \<Longrightarrow> \<exists>t. EnsureCapacityWithHeadroom zf n hr b = Inr t"
  using Ensure_law [of b zf n hr] by auto

lemma buf_ok_block: "buf_ok b \<Longrightarrow> length (block_of (bdata b)) = bcapacity b" "buf_ok b \<Longrightarrow> bsize b \<le> bcapacity b"
  "buf_ok b \<Longrightarrow> bcapacity b < 2 ^ 64"
  by (simp_all add: buf_ok_def buf_wf_def alloc_limit_def)

lemma zero_freed_cong: "freed t = freed b \<Longrightarrow> zero_freed t = zero_freed b"
  by (simp add: zero_freed_def)

lemma ZeroTrailing_law:
  assumes "buf_ok b" "n \<le> bcapacity b - bsize b"
  shows "\<exists>t. ZeroTrailingData n b = Inr t \<and> buf_ok t \<and> elems t = elems b \<and> bsize t = bsize b \<and>
    bcapacity t = bcapacity b \<and> freed t = freed b \<and>
    take n (drop (bsize b) (block_of (bdata t))) = replicate n (Some 0)"
  using assms buf_ok_block [OF assms(1)]
  by (auto simp: ZeroTrailingData_def ExplicitZeroMemory_def memcpy_cells_def buf_ok_def buf_wf_def elems_def
      put_cells_def)

lemma AppendData_sound:
  assumes a: "AppendData zf src n b = Inr t" and ok: "buf_ok b"
  shows "buf_ok t \<and> bsize t = bsize b + n \<and> bcapacity b \<le> bcapacity t \<and> (zf \<and> zero_freed b \<longrightarrow> zero_freed t) \<and>
    (\<exists>xs. (n = 0 \<or> src = Some xs \<and> n \<le> length xs) \<and> elems t = elems b @ take n xs)"
proof (cases "n = 0")
  case True
  with a ok show ?thesis by (auto simp: AppendData_def)
next
  case False
  let ?n = "(bsize b + n) mod 2 ^ 64"
  from a False obtain e xs where e: "EnsureCapacityWithHeadroom zf ?n True b = Inr e"
    and xs: "src = Some xs" "n \<le> length xs" and m: "bsize e + n \<le> length (block_of (bdata e))"
    and t: "t = e\<lparr>bdata := Some (put_cells (bsize e) (take n xs) (block_of (bdata e))), bsize := ?n\<rparr>"
    by (auto simp: AppendData_def Let_def read_source_def memcpy_cells_def split: option.splits if_splits)
  note es = Ensure_sound [OF e ok]
  have n: "?n = bsize b + n" using m buf_ok_block [OF es(1)] es(3) by (intro mod_less) linarith
  have len: "length (take n xs) = n" using xs(2) by simp
  have tk: "take (bsize e + n) (put_cells (bsize e) (take n xs) (block_of (bdata e))) = elems e @ take n xs"
    using take_put_cells [of "bsize e" "take n xs" "block_of (bdata e)"] m len by (simp add: elems_def)
  have "buf_ok t"
    using es(1) m len n es(3) unfolding t by (simp add: buf_ok_def buf_wf_def)
  moreover have "elems t = elems b @ take n xs" using tk es(2,3) n unfolding t by (simp add: elems_def)
  moreover have "bsize t = bsize b + n" "freed t = freed e" "bcapacity t = bcapacity e" using n unfolding t by simp_all
  ultimately show ?thesis using es(5,6) xs zero_freed_cong [of t e] by auto
qed

lemma AppendData_total:
  assumes ok: "buf_ok b" and f: "fits (bsize b + length xs) b"
  shows "\<exists>t. AppendData zf (Some xs) (length xs) b = Inr t"
proof (cases "xs = []")
  case False
  have "bsize b + length xs \<le> alloc_limit" using f ok by (auto simp: fits_def buf_ok_def buf_wf_def)
  then have n: "(bsize b + length xs) mod 2 ^ 64 = bsize b + length xs"
    by (intro mod_less) (simp add: alloc_limit_def)
  obtain e where e: "EnsureCapacityWithHeadroom zf (bsize b + length xs) True b = Inr e"
    using Ensure_total [OF ok f] by blast
  note es = Ensure_sound [OF e ok]
  have "IsConsistent (e\<lparr>bdata := Some d, bsize := bsize b + length xs\<rparr>)" for d
    using es(4) by (simp add: IsConsistent_def)
  with es(3,4) buf_ok_block(1) [OF es(1)] False ok e n show ?thesis
    by (auto simp: AppendData_def Let_def read_source_def memcpy_cells_def)
qed (simp add: AppendData_def)

lemma SetSize_sound:
  assumes a: "SetSize zf n b = Inr t" and ok: "buf_ok b"
  shows "buf_ok t" "bsize t = n" "bcapacity b \<le> bcapacity t" "zf \<Longrightarrow> zero_freed b \<Longrightarrow> zero_freed t"
    "take (bsize b) (elems t) = take n (elems b)"
proof -
  from a obtain e where e: "EnsureCapacityWithHeadroom zf n True b = Inr e"
    and z: "(if zf \<and> n < bsize b then ZeroTrailingData (bsize b - n) (e\<lparr>bsize := n\<rparr>)
        else Inr (e\<lparr>bsize := n\<rparr>)) = Inr t"
    by (auto simp: SetSize_def Let_def cong: if_cong)
  note es = Ensure_sound [OF e ok]
  let ?e = "e\<lparr>bsize := n\<rparr>"
  have eok: "buf_ok ?e" using es(1,4) by (simp add: buf_ok_def buf_wf_def)
  have lim: "bsize b - n \<le> bcapacity ?e - bsize ?e" using es(3) buf_ok_block(2) [OF es(1)] by simp
  have el: "take (bsize b) (elems ?e) = take n (elems b)"
    using es(2,3) by (simp add: elems_def min.commute) (metis es(2,3) elems_def take_take)
  from z ZeroTrailing_law [OF eok lim] have t: "buf_ok t" "elems t = elems ?e" "bsize t = n"
    "bcapacity t = bcapacity e" "freed t = freed e"
    using eok by (auto split: if_splits)
  show "buf_ok t" "bsize t = n" "bcapacity b \<le> bcapacity t" "zf \<Longrightarrow> zero_freed b \<Longrightarrow> zero_freed t"
    "take (bsize b) (elems t) = take n (elems b)"
    using t es(5,6) el zero_freed_cong [of t e] by simp_all
qed

lemma SetSize_total:
  assumes ok: "buf_ok b" and f: "fits n b"
  shows "\<exists>t. SetSize zf n b = Inr t"
proof -
  obtain e where e: "EnsureCapacityWithHeadroom zf n True b = Inr e" using Ensure_total [OF ok f] by blast
  note es = Ensure_sound [OF e ok]
  have eok: "buf_ok (e\<lparr>bsize := n\<rparr>)" using es(1,4) by (simp add: buf_ok_def buf_wf_def)
  have lim: "bsize b - n \<le> bcapacity (e\<lparr>bsize := n\<rparr>) - bsize (e\<lparr>bsize := n\<rparr>)"
    using es(3) buf_ok_block(2) [OF es(1)] by simp
  from ZeroTrailing_law [OF eok lim] e show ?thesis by (auto simp: SetSize_def Let_def)
qed

lemma AppendData_setter_sound:
  assumes a: "AppendData_setter zf k setter b = Inr (w, t)" and ok: "buf_ok b"
  shows "buf_ok t" "bsize t = bsize b + w" "w \<le> k" "bcapacity b \<le> bcapacity t"
    "zf \<Longrightarrow> zero_freed b \<Longrightarrow> zero_freed t"
    "\<exists>view. length view = k \<and> w = fst (setter view) \<and> elems t = elems b @ take w (snd (setter view))"
proof -
  let ?n = "(bsize b + k) mod 2 ^ 64"
  from a obtain e p where e: "SetSize zf ?n b = Inr e" and p: "bdata e = p"
    and room: "bsize b + k \<le> length (block_of p)"
    and cells: "length (snd (setter (take k (drop (bsize b) (block_of p))))) = k"
      "w = fst (setter (take k (drop (bsize b) (block_of p))))" "w \<le> k"
    and t: "t = e\<lparr>bdata := map_option (put_cells (bsize b) (snd (setter (take k (drop (bsize b) (block_of p)))))) p,
        bsize := bsize b + w\<rparr>"
    by (auto simp: AppendData_setter_def Let_def BufferT_data_def split: if_splits prod.splits)
  let ?view = "take k (drop (bsize b) (block_of p))" and ?cells = "snd (setter (take k (drop (bsize b) (block_of p))))"
  note es = SetSize_sound [OF e ok]
  have n: "?n = bsize b + k"
    using room p buf_ok_block [OF es(1)] by (intro mod_less) simp
  have pc: "length (put_cells (bsize b) ?cells (block_of p)) = length (block_of p)" using room cells(1) by simp
  have bo: "block_of (bdata t) = put_cells (bsize b) ?cells (block_of p)"
    using room cells(1) unfolding t by (cases p) (simp_all add: put_cells_def)
  show tok: "buf_ok t"
    using es(1) p pc room cells(3) bo unfolding t by (auto simp: buf_ok_def buf_wf_def)
  show "bsize t = bsize b + w" "w \<le> k" "bcapacity b \<le> bcapacity t" using cells es(3) unfolding t by simp_all
  show "zf \<Longrightarrow> zero_freed b \<Longrightarrow> zero_freed t" using es(4) zero_freed_cong [of t e] unfolding t by simp
  have "take (bsize b) (block_of p) = elems b"
    using es(5) es(2) n p ok by (simp add: elems_def min_def)
  then have "elems t = elems b @ take w ?cells"
    using bo room cells(1,3) buf_ok_block(1,2) [OF ok] unfolding elems_def t by (simp add: put_cells_def min_def)
  then show "\<exists>view. length view = k \<and> w = fst (setter view) \<and> elems t = elems b @ take w (snd (setter view))"
    using cells(2) room by (intro exI [of _ ?view]) auto
qed

lemma trim_tail_law:
  assumes ok: "buf_ok b" and o: "old \<le> bcapacity b"
  shows "\<exists>t. (if zf \<and> bsize b < old then ZeroTrailingData (old - bsize b) b else Inr b) = Inr t \<and> buf_ok t \<and>
    elems t = elems b \<and> bsize t = bsize b \<and> bcapacity t = bcapacity b \<and> freed t = freed b"
proof -
  have "old - bsize b \<le> bcapacity b - bsize b" using o by (rule diff_le_mono)
  from ZeroTrailing_law [OF ok this] ok show ?thesis by auto
qed

lemma SetData_sound:
  assumes a: "SetData zf src n b = Inr t" and ok: "buf_ok b"
  shows "buf_ok t \<and> bsize t = n \<and> bcapacity b \<le> bcapacity t \<and> (zf \<and> zero_freed b \<longrightarrow> zero_freed t) \<and>
    (\<exists>xs. (n = 0 \<or> src = Some xs \<and> n \<le> length xs) \<and> elems t = take n xs)"
proof -
  from a obtain e where e: "AppendData zf src n (b\<lparr>bsize := 0\<rparr>) = Inr e"
    and z: "(if zf \<and> bsize e < bsize b then ZeroTrailingData (bsize b - bsize e) e else Inr e) = Inr t"
    by (auto simp: SetData_def Let_def cong: if_cong)
  have bok: "buf_ok (b\<lparr>bsize := 0\<rparr>)" using ok by (simp add: buf_ok_def buf_wf_def)
  note es = AppendData_sound [OF e bok]
  have "bsize b \<le> bcapacity e" using es buf_ok_block(2) [OF ok] by simp
  with trim_tail_law [of e "bsize b" zf] es z have "buf_ok t" "elems t = elems e" "bsize t = bsize e"
    "bcapacity t = bcapacity e" "freed t = freed e" by auto
  moreover have "elems (b\<lparr>bsize := 0\<rparr>) = []" by (simp add: elems_def)
  ultimately show ?thesis
    using es zero_freed_cong [of t e] zero_freed_cong [of "b\<lparr>bsize := 0\<rparr>" b] by auto
qed

lemma SetData_total:
  assumes ok: "buf_ok b" and f: "fits (length xs) b"
  shows "\<exists>t. SetData zf (Some xs) (length xs) b = Inr t"
proof -
  have bok: "buf_ok (b\<lparr>bsize := 0\<rparr>)" using ok by (simp add: buf_ok_def buf_wf_def)
  have "fits (bsize (b\<lparr>bsize := 0\<rparr>) + length xs) (b\<lparr>bsize := 0\<rparr>)" using f by (simp add: fits_def)
  then obtain e where e: "AppendData zf (Some xs) (length xs) (b\<lparr>bsize := 0\<rparr>) = Inr e"
    using AppendData_total [OF bok] by blast
  note es = AppendData_sound [OF e bok]
  have "bsize b \<le> bcapacity e" using es buf_ok_block(2) [OF ok] by simp
  with trim_tail_law [of e "bsize b" zf] es e ok show ?thesis by (auto simp: SetData_def Let_def)
qed

lemma SetData_setter_sound:
  assumes a: "SetData_setter zf k setter b = Inr (w, t)" and ok: "buf_ok b"
  shows "buf_ok t" "zf \<Longrightarrow> zero_freed b \<Longrightarrow> zero_freed t"
    "\<exists>view. length view = k \<and> w = fst (setter view) \<and> elems t = take w (snd (setter view))"
proof -
  have bok: "buf_ok (b\<lparr>bsize := 0\<rparr>)" "elems (b\<lparr>bsize := 0\<rparr>) = []" using ok by (simp_all add: buf_ok_def buf_wf_def elems_def)
  from a obtain e where e: "AppendData_setter zf k setter (b\<lparr>bsize := 0\<rparr>) = Inr (w, e)"
    and z: "(if zf \<and> bsize e < bsize b then ZeroTrailingData (bsize b - bsize e) e else Inr e) = Inr t"
    by (auto simp: SetData_setter_def Let_def split: if_splits)
  note es = AppendData_setter_sound [OF e bok(1)]
  have "bsize b \<le> bcapacity e" using es(4) buf_ok_block(2) [OF ok] by simp
  with trim_tail_law [of e "bsize b" zf] es(1) z have t: "buf_ok t" "elems t = elems e" "freed t = freed e" by auto
  show "buf_ok t" "zf \<Longrightarrow> zero_freed b \<Longrightarrow> zero_freed t"
    using t es(5) zero_freed_cong [of t e] zero_freed_cong [of "b\<lparr>bsize := 0\<rparr>" b] by simp_all
  show "\<exists>view. length view = k \<and> w = fst (setter view) \<and> elems t = take w (snd (setter view))"
    using es(6) t(2) bok(2) by auto
qed

lemma Clear_law:
  assumes "buf_wf b"
  shows "\<exists>t. BufferT_Clear zf b = Inr t \<and> buf_ok t \<and> elems t = [] \<and> bcapacity t = bcapacity b \<and> freed t = freed b"
proof -
  obtain z where z: "MaybeZeroCompleteBuffer zf b = Inr z" "buf_wf z" "bcapacity z = bcapacity b" "freed z = freed b"
    using MaybeZero_law [OF assms, of zf] by blast
  then have ok: "buf_ok (z\<lparr>bsize := 0\<rparr>)" by (simp add: buf_ok_def buf_wf_def)
  then show ?thesis using z by (auto simp: BufferT_Clear_def Let_def elems_def)
qed

section \<open>An append-only sink\<close>

text \<open>
  What a writer needs of the buffer it fills: appending keeps the content and adds to it, and succeeds
  while the content is within a bound.
\<close>

locale append_sink =
  fixes ok :: "'s \<Rightarrow> bool"
    and content :: "'s \<Rightarrow> 'a list"
    and bound :: nat
    and append :: "'a list \<Rightarrow> 's \<Rightarrow> abort + 's"
  assumes append_total: "ok s \<Longrightarrow> length (content s) + length xs \<le> bound \<Longrightarrow> \<exists>t. append xs s = Inr t"
    and append_keeps: "append xs s = Inr t \<Longrightarrow> ok s \<Longrightarrow> ok t \<and> content t = content s @ xs"
begin

fun append_all :: "'a list list \<Rightarrow> 's \<Rightarrow> abort + 's" where
  "append_all [] s = Inr s"
| "append_all (xs # xss) s = bindE (append xs s) (append_all xss)"

lemma append_all_content:
  "ok s \<Longrightarrow> length (content s) + length (concat xss) \<le> bound \<Longrightarrow>
   \<exists>t. append_all xss s = Inr t \<and> ok t \<and> content t = content s @ concat xss"
proof (induction xss arbitrary: s)
  case (Cons xs xss)
  then obtain t where t: "append xs s = Inr t" using append_total [of s xs] by auto
  note k = append_keeps [OF t Cons.prems(1)]
  with Cons.prems have "length (content t) + length (concat xss) \<le> bound" by simp
  with Cons.IH [of t] k t show ?case by auto
qed simp

end

definition sink_bound :: nat where
  "sink_bound = 2 ^ 62"

lemma fits_sink: "buf_ok b \<Longrightarrow> n \<le> sink_bound \<Longrightarrow> fits n b"
  by (auto simp: fits_def sink_bound_def alloc_limit_def)

interpretation buf: append_sink buf_ok elems sink_bound "\<lambda>xs. AppendData zf (Some xs) (length xs)" for zf
proof
  show "\<exists>t. AppendData zf (Some xs) (length xs) s = Inr t"
    if "buf_ok s" "length (elems s) + length xs \<le> sink_bound" for s :: "'a buffer" and xs
    using that by (intro AppendData_total fits_sink) auto
  show "buf_ok t \<and> elems t = elems s @ xs"
    if "AppendData zf (Some xs) (length xs) s = Inr t" "buf_ok s" for s t :: "'a buffer" and xs
    using AppendData_sound [OF that] by auto
qed

section \<open>Refinement of lists\<close>

text \<open>
  C8. A buffer refines a list. On a well-formed buffer, for requests of up to \<open>2\<^sup>6\<^sup>2\<close> elements, no
  operation fails a check, leaves its block or loses data: appending appends, setting replaces, a
  smaller size truncates, a larger one keeps the content in front, asking for capacity and reallocating change
  nothing, and clearing empties without giving memory up.
\<close>

theorem buffer_refines_list:
  assumes "buf_ok b" and "bsize b + length xs \<le> sink_bound" and "n \<le> sink_bound"
  shows "(\<exists>t. AppendData zf (Some xs) (length xs) b = Inr t \<and> buf_ok t \<and> elems t = elems b @ xs) \<and>
    (\<exists>t. SetData zf (Some xs) (length xs) b = Inr t \<and> buf_ok t \<and> elems t = xs) \<and>
    (\<exists>t. SetSize zf n b = Inr t \<and> buf_ok t \<and> length (elems t) = n \<and> take (bsize b) (elems t) = take n (elems b)) \<and>
    (\<exists>t. EnsureCapacity zf n b = Inr t \<and> buf_ok t \<and> elems t = elems b \<and> n \<le> bcapacity t) \<and>
    (\<exists>t. BufferT_Clear zf b = Inr t \<and> buf_ok t \<and> elems t = [] \<and> bcapacity t = bcapacity b)"
proof (intro conjI)
  have f: "fits (bsize b + length xs) b" "fits (length xs) b" "fits n b"
    using fits_sink [OF assms(1)] assms(2,3) by auto
  obtain t where t: "AppendData zf (Some xs) (length xs) b = Inr t" using AppendData_total [OF assms(1) f(1)] by blast
  then show "\<exists>t. AppendData zf (Some xs) (length xs) b = Inr t \<and> buf_ok t \<and> elems t = elems b @ xs"
    using buf.append_keeps [OF t assms(1)] by blast
  obtain t where t: "SetData zf (Some xs) (length xs) b = Inr t" using SetData_total [OF assms(1) f(2)] by blast
  then show "\<exists>t. SetData zf (Some xs) (length xs) b = Inr t \<and> buf_ok t \<and> elems t = xs"
    using SetData_sound [OF t assms(1)] by auto
  obtain t where t: "SetSize zf n b = Inr t" using SetSize_total [OF assms(1) f(3)] by blast
  note s = SetSize_sound [OF t assms(1)]
  show "\<exists>t. SetSize zf n b = Inr t \<and> buf_ok t \<and> length (elems t) = n \<and> take (bsize b) (elems t) = take n (elems b)"
    using s(2,5) length_elems [OF s(1)] t s(1) by auto
  obtain t where t: "EnsureCapacity zf n b = Inr t"
    using Ensure_total [OF assms(1) f(3)] unfolding EnsureCapacity_def by blast
  then show "\<exists>t. EnsureCapacity zf n b = Inr t \<and> buf_ok t \<and> elems t = elems b \<and> n \<le> bcapacity t"
    using Ensure_sound(1,2,4) [OF t [unfolded EnsureCapacity_def] assms(1)] by blast
  have "buf_wf b" using assms(1) by (simp add: buf_ok_def)
  then show "\<exists>t. BufferT_Clear zf b = Inr t \<and> buf_ok t \<and> elems t = [] \<and> bcapacity t = bcapacity b"
    using Clear_law [of b zf] by blast
qed

theorem buffer_refines_list_witness:
  "\<exists>t. AppendData True (Some [Some 7, Some (8 :: nat)]) 2 BufferT_empty = Inr t \<and> elems t = [Some 7, Some 8]"
proof -
  have "buf_ok (BufferT_empty :: nat buffer)" by (simp add: buf_ok_def buf_wf_def BufferT_empty_def alloc_limit_def)
  moreover have "bsize (BufferT_empty :: nat buffer) + length [Some 7, Some (8 :: nat)] \<le> sink_bound"
    by (simp add: BufferT_empty_def sink_bound_def)
  ultimately show ?thesis
    using buffer_refines_list [of BufferT_empty "[Some 7, Some (8 :: nat)]" 0 True]
    by (auto simp: elems_def BufferT_empty_def numeral_2_eq_2)
qed

section \<open>Released memory\<close>

text \<open>
  The life of one object of the zeroing variant: it is constructed, operated on, moved from, assigned
  to, and destroyed.
\<close>

inductive buffer_step :: "'a::zero buffer \<Rightarrow> 'a buffer \<Rightarrow> bool" where
  s_append: "AppendData True src n b = Inr t \<Longrightarrow> buffer_step b t"
| s_append_setter: "AppendData_setter True k f b = Inr (w, t) \<Longrightarrow> buffer_step b t"
| s_set: "SetData True src n b = Inr t \<Longrightarrow> buffer_step b t"
| s_set_setter: "SetData_setter True k f b = Inr (w, t) \<Longrightarrow> buffer_step b t"
| s_size: "SetSize True n b = Inr t \<Longrightarrow> buffer_step b t"
| s_capacity: "EnsureCapacity True n b = Inr t \<Longrightarrow> buffer_step b t"
| s_clear: "BufferT_Clear True b = Inr t \<Longrightarrow> buffer_step b t"
| s_put: "BufferT_put b i x = Inr t \<Longrightarrow> buffer_step b t"
| s_moved: "BufferT_move b = Inr (other, t) \<Longrightarrow> buffer_step b t"
| s_assigned: "buf_ok src \<Longrightarrow> BufferT_move_assign True b src = Inr (t, src') \<Longrightarrow> buffer_step b t"
| s_assigned_from: "buf_wf this \<Longrightarrow> BufferT_move_assign True this b = Inr (this', t) \<Longrightarrow> buffer_step b t"

definition buffer_fresh :: "'a buffer \<Rightarrow> bool" where
  "buffer_fresh b \<longleftrightarrow> b = BufferT_empty \<or> (\<exists>n c. BufferT_sized n c = Inr b) \<or> (\<exists>src n c. BufferT_copy src n c = Inr b)"

definition zeroing_inv :: "'a::zero buffer \<Rightarrow> bool" where
  "zeroing_inv b \<longleftrightarrow> buf_wf b \<and> zero_freed b"

lemma wf_consistent_ok: "buf_wf b \<Longrightarrow> IsConsistent b \<Longrightarrow> buf_ok b"
  by (simp add: buf_ok_def IsConsistent_def)

lemma Ensure_consistent: "EnsureCapacityWithHeadroom zf n hr b = Inr t \<Longrightarrow> IsConsistent b"
  by (simp add: EnsureCapacityWithHeadroom_def)

lemma move_assign_zero:
  assumes "buf_wf this" "buf_wf buf" "BufferT_move_assign True this buf = Inr (this', buf')"
  shows "buf_wf this' \<and> freed this' = freed this" "buf_wf buf'" "zero_freed buf \<Longrightarrow> zero_freed buf'"
proof -
  obtain z where z: "MaybeZeroCompleteBuffer True this = Inr z" "buf_wf z" "freed z = freed this"
      "all_zero (block_of (bdata z))"
    using MaybeZero_law [OF assms(1), of True] by auto
  with assms have e: "this' = z\<lparr>bsize := bsize buf, bcapacity := bcapacity buf, bdata := bdata buf\<rparr>"
      "OnMovedFrom (release (buf\<lparr>bdata := bdata z\<rparr>)) = Inr buf'"
    by (auto simp: BufferT_move_assign_def Let_def)
  show "buf_wf this' \<and> freed this' = freed this" using e(1) assms(2) z(3) by (simp add: buf_wf_def)
  show "buf_wf buf'" using e(2) by (auto simp: OnMovedFrom_def buf_wf_def)
  show "zero_freed buf \<Longrightarrow> zero_freed buf'"
    using e(2) z(4) by (cases "bdata z") (auto simp: OnMovedFrom_def zero_freed_def freed_release)
qed

lemma buffer_step_inv: "buffer_step b t \<Longrightarrow> zeroing_inv b \<Longrightarrow> zeroing_inv t"
proof (induction rule: buffer_step.induct)
  case (s_append src n b t)
  show ?case
  proof (cases "n = 0")
    case False
    with s_append have "buf_ok b" by (auto simp: AppendData_def zeroing_inv_def intro: wf_consistent_ok)
    with AppendData_sound [OF s_append(1)] s_append(2) show ?thesis by (auto simp: zeroing_inv_def buf_ok_def)
  qed (use s_append in \<open>simp add: AppendData_def\<close>)
next
  case (s_append_setter k f b w t)
  then have "buf_ok b" by (auto simp: AppendData_setter_def zeroing_inv_def intro: wf_consistent_ok)
  with AppendData_setter_sound(1,5) [OF s_append_setter(1)] s_append_setter show ?case
    by (auto simp: zeroing_inv_def buf_ok_def)
next
  case (s_set src n b t)
  then have "buf_ok b" by (auto simp: SetData_def zeroing_inv_def intro: wf_consistent_ok)
  with SetData_sound [OF s_set(1)] s_set show ?case by (auto simp: zeroing_inv_def buf_ok_def)
next
  case (s_set_setter k f b w t)
  then have "buf_ok b" by (auto simp: SetData_setter_def zeroing_inv_def intro: wf_consistent_ok)
  with SetData_setter_sound(1,2) [OF s_set_setter(1)] s_set_setter show ?case by (auto simp: zeroing_inv_def buf_ok_def)
next
  case (s_size n b t)
  then have "buf_ok b"
    by (auto simp: SetSize_def Let_def zeroing_inv_def dest: Ensure_consistent intro: wf_consistent_ok)
  with SetSize_sound(1,4) [OF s_size(1)] s_size show ?case by (auto simp: zeroing_inv_def buf_ok_def)
next
  case (s_capacity n b t)
  then have "buf_ok b"
    by (auto simp: EnsureCapacity_def zeroing_inv_def dest: Ensure_consistent intro: wf_consistent_ok)
  with Ensure_sound(1,6) [OF s_capacity(1) [unfolded EnsureCapacity_def]] s_capacity show ?case
    by (auto simp: zeroing_inv_def buf_ok_def)
next
  case (s_clear b t)
  then show ?case using Clear_law [of b True] zero_freed_cong [of t b] by (auto simp: zeroing_inv_def buf_ok_def)
next
  case (s_put b i x t)
  then show ?case
    by (auto simp: BufferT_put_def BufferT_data_def memcpy_cells_def zeroing_inv_def buf_wf_def zero_freed_def
        split: if_splits)
next
  case (s_moved b other t)
  then show ?case
    by (auto simp: BufferT_move_def Let_def OnMovedFrom_def zeroing_inv_def buf_wf_def zero_freed_def)
next
  case (s_assigned src b t src')
  then show ?case using move_assign_zero(1) [OF _ _ s_assigned(2)] zero_freed_cong [of t b]
    by (auto simp: zeroing_inv_def buf_ok_def)
next
  case (s_assigned_from this b this' t)
  then show ?case using move_assign_zero(2,3) [OF _ _ s_assigned_from(2)] by (auto simp: zeroing_inv_def)
qed

lemma buffer_fresh_inv:
  assumes "buffer_fresh b"
  shows "zeroing_inv b"
proof -
  have sized: "buf_wf b \<and> freed b = []" if "BufferT_sized n c = Inr b" for n c and b :: "'a buffer"
    using that by (auto simp: BufferT_sized_def Let_def new_block_def buf_wf_def max_def split: if_splits)
  have copied: "buf_wf b \<and> freed b = []" if c: "BufferT_copy src n c = Inr b" for src n c and b :: "'a buffer"
  proof -
    from c obtain a :: "'a buffer" where a: "BufferT_sized n c = Inr a" by (auto simp: BufferT_copy_def)
    from c a sized [OF a] show ?thesis
      by (auto simp: BufferT_copy_def buf_wf_def memcpy_cells_def split: if_splits)
  qed
  from assms sized copied show ?thesis
    by (auto simp: buffer_fresh_def zeroing_inv_def zero_freed_def BufferT_empty_def buf_wf_def)
qed

interpretation zeroing: safe_system buffer_fresh buffer_step zeroing_inv
  by unfold_locales (auto intro: buffer_fresh_inv buffer_step_inv)

text \<open>
  C9. The zeroing variant never releases data. However the buffer was constructed and whatever was
  done with it (writes, setters that leave data behind their count, reallocation, moves in either
  direction), it can be destroyed, and every block it has then given back to the allocator held only zeros.
\<close>

theorem zeroing_buffer_releases_zeros:
  assumes "buffer_fresh b" and "buffer_step\<^sup>*\<^sup>* b t"
  shows "\<exists>u. BufferT_destroy True t = Inr u \<and> (\<forall>blk\<in>set (freed u). \<forall>c\<in>set blk. c = Some 0)"
proof -
  have inv: "buf_wf t" "zero_freed t" using zeroing.inv_reachable [OF assms] by (simp_all add: zeroing_inv_def)
  obtain z where z: "MaybeZeroCompleteBuffer True t = Inr z" "freed z = freed t" "all_zero (block_of (bdata z))"
    using MaybeZero_law [OF inv(1), of True] by auto
  with inv(2) show ?thesis
    by (cases "bdata z") (auto simp: BufferT_destroy_def freed_release zero_freed_def all_zero_def)
qed

theorem zeroing_buffer_releases_zeros_witness:
  "\<exists>t u. AppendData True (Some [Some (5 :: nat)]) 1 BufferT_empty = Inr t \<and> BufferT_destroy True t = Inr u \<and>
     freed u = [[Some 0]]"
proof -
  let ?t = "\<lparr>bsize = 1, bcapacity = 1, bdata = Some [Some (5 :: nat)], freed = []\<rparr>"
  have a: "AppendData True (Some [Some (5 :: nat)]) 1 BufferT_empty = Inr ?t"
    by (simp add: AppendData_def BufferT_empty_def IsConsistent_def EnsureCapacityWithHeadroom_def new_block_def
        alloc_limit_def MaybeZeroCompleteBuffer_def release_def read_source_def memcpy_cells_def put_cells_def Let_def)
  have "buffer_fresh (BufferT_empty :: nat buffer)" by (simp add: buffer_fresh_def)
  moreover have "buffer_step\<^sup>*\<^sup>* BufferT_empty ?t" using s_append [OF a] by blast
  ultimately obtain u
    where u: "BufferT_destroy True ?t = Inr u" "\<forall>blk\<in>set (freed u). \<forall>c\<in>set blk. c = Some 0"
    using zeroing_buffer_releases_zeros by blast
  moreover have "length (freed u) = 1" "length (hd (freed u)) = 1"
    using u(1) by (auto simp: BufferT_destroy_def MaybeZeroCompleteBuffer_def ExplicitZeroMemory_def memcpy_cells_def
        put_cells_def freed_release)
  ultimately have "freed u = [[Some 0]]" by (auto simp: length_Suc_conv)
  with a u(1) show ?thesis by blast
qed

section \<open>Moving and comparing\<close>

text \<open>
  Moves and comparison. Moving a well-formed buffer hands its content over and leaves the source
  inconsistent, so that in a debug build every later use of it but clearing, assignment and destruction fails a check;
  clearing makes it an empty buffer again. Two well-formed buffers whose content was written compare equal exactly when
  their contents are equal.
\<close>

theorem buffer_move_and_compare:
  assumes "buf_ok b" and "buf_ok c" and "elems b = map Some xs" and "elems c = map Some ys"
  shows "(\<exists>m r. BufferT_move b = Inr (m, r) \<and> buf_ok m \<and> elems m = elems b \<and> BufferT_size r = Inl CheckFailed \<and>
      SetData zf (Some zs) n r = Inl CheckFailed \<and>
      (\<exists>e. BufferT_Clear zf r = Inr e \<and> buf_ok e \<and> elems e = [])) \<and>
    BufferT_eq b c = Inr (xs = ys)"
proof (intro conjI)
  let ?r = "b\<lparr>bsize := 1, bcapacity := 0, bdata := None\<rparr>"
  have m: "BufferT_move b = Inr (\<lparr>bsize = bsize b, bcapacity = bcapacity b, bdata = bdata b, freed = []\<rparr>, ?r)"
    using buf_ok_consistent [OF assms(1)] by (simp add: BufferT_move_def IsConsistent_def OnMovedFrom_def Let_def)
  have r: "\<not> IsConsistent ?r" "buf_wf ?r" by (simp_all add: IsConsistent_def buf_wf_def)
  obtain e where e: "BufferT_Clear zf ?r = Inr e \<and> buf_ok e \<and> elems e = []" using Clear_law [OF r(2), of zf] by blast
  show "\<exists>m r. BufferT_move b = Inr (m, r) \<and> buf_ok m \<and> elems m = elems b \<and> BufferT_size r = Inl CheckFailed \<and>
      SetData zf (Some zs) n r = Inl CheckFailed \<and> (\<exists>e. BufferT_Clear zf r = Inr e \<and> buf_ok e \<and> elems e = [])"
    unfolding m using assms(1) r(1) e
    by (auto simp: buf_ok_def buf_wf_def elems_def BufferT_size_def SetData_def)
  have load: "load_cell (block_of (bdata d)) i = Inr (zs ! i)" if "buf_ok d" "elems d = map Some zs" "i < length zs"
    for d :: "'a buffer" and zs i
  proof -
    have l: "length zs = bsize d" using that(1,2) length_elems [of d] by simp
    then have "block_of (bdata d) ! i = elems d ! i" using that(3) by (simp add: elems_def)
    with that l buf_ok_block(1,2) [OF that(1)] show ?thesis by (simp add: load_cell_def)
  qed
  have eq: "cells_equal (block_of (bdata b)) (block_of (bdata c)) i n = Inr (drop i xs = drop i ys)"
    if "length xs = i + n" "length ys = i + n" for i n
    using that
  proof (induction n arbitrary: i)
    case (Suc n)
    have "drop i xs = xs ! i # drop (Suc i) xs" "drop i ys = ys ! i # drop (Suc i) ys"
      using Suc.prems by (simp_all add: Cons_nth_drop_Suc)
    with Suc load [OF assms(1,3), of i] load [OF assms(2,4), of i] show ?case by auto
  qed simp
  have l: "bsize b = length xs" "bsize c = length ys"
    using assms length_elems [of b] length_elems [of c] by simp_all
  show "BufferT_eq b c = Inr (xs = ys)"
    using assms(1) l eq [of 0 "length xs"] by (auto simp: BufferT_eq_def)
qed

theorem buffer_move_and_compare_witness:
  "BufferT_eq \<lparr>bsize = 1, bcapacity = 2, bdata = Some [Some (5 :: nat), None], freed = []\<rparr>
     \<lparr>bsize = 1, bcapacity = 1, bdata = Some [Some 5], freed = []\<rparr> = Inr True"
proof -
  let ?b = "\<lparr>bsize = 1, bcapacity = 2, bdata = Some [Some (5 :: nat), None], freed = []\<rparr>"
  let ?c = "\<lparr>bsize = 1, bcapacity = 1, bdata = Some [Some (5 :: nat)], freed = []\<rparr>"
  have "buf_ok ?b" "buf_ok ?c" "elems ?b = map Some [5]" "elems ?c = map Some [5]"
    by (simp_all add: buf_ok_def buf_wf_def elems_def alloc_limit_def)
  from buffer_move_and_compare [OF this] show ?thesis by simp
qed

end
