(* ===== verification/Byte_Buffer.thy ===== *)
theory Byte_Buffer
  imports Buffer Byte_Order
begin

text \<open>
  \<^verbatim>\<open>rtc_base/byte_buffer.h\<close>: \<^verbatim>\<open>ByteBufferWriterT\<close>, which serialises numbers in network byte order and as
  variable-length integers into a \<^verbatim>\<open>BufferT\<close> (zeroing or not). \<open>big\<close> is the byte order of the host. The
  reader of the same header is declared there only; what is written is read back here with \<^verbatim>\<open>ByteReader\<close> and
  with the published decoding of variable-length integers.
\<close>

unbundle bit_operations_syntax

section \<open>The writer\<close>

definition kDefaultCapacity :: nat where
  "kDefaultCapacity = 4096"

definition Construct :: "bool \<Rightarrow> byte block option \<Rightarrow> nat \<Rightarrow> byte buffer \<Rightarrow> abort + byte buffer" where
  "Construct zf bs n b = (if bs \<noteq> None then AppendData zf bs n b else EnsureCapacity zf n b)"

definition ByteBufferWriter_default :: "bool \<Rightarrow> abort + byte buffer" where
  "ByteBufferWriter_default zf = Construct zf None kDefaultCapacity BufferT_empty"

definition ByteBufferWriter_bytes :: "bool \<Rightarrow> byte block option \<Rightarrow> nat \<Rightarrow> abort + byte buffer" where
  "ByteBufferWriter_bytes zf bs n = Construct zf bs n BufferT_empty"

definition WriteBytesInternal :: "bool \<Rightarrow> byte list \<Rightarrow> byte buffer \<Rightarrow> abort + byte buffer" where
  "WriteBytesInternal zf bs b = AppendData zf (Some (map Some bs)) (length bs) b"

definition WriteUInt8 :: "bool \<Rightarrow> u8 \<Rightarrow> byte buffer \<Rightarrow> abort + byte buffer" where
  "WriteUInt8 zf val = WriteBytesInternal zf [val]"

definition WriteUInt16 :: "bool \<Rightarrow> bool \<Rightarrow> u16 \<Rightarrow> byte buffer \<Rightarrow> abort + byte buffer" where
  "WriteUInt16 zf big val = WriteBytesInternal zf (take 2 (host_bytes big (HostToNetwork16 big val)))"

definition WriteUInt24 :: "bool \<Rightarrow> bool \<Rightarrow> u32 \<Rightarrow> byte buffer \<Rightarrow> abort + byte buffer" where
  "WriteUInt24 zf big val = WriteBytesInternal zf (take 3 (drop 1 (host_bytes big (HostToNetwork32 big val))))"

definition WriteUInt32 :: "bool \<Rightarrow> bool \<Rightarrow> u32 \<Rightarrow> byte buffer \<Rightarrow> abort + byte buffer" where
  "WriteUInt32 zf big val = WriteBytesInternal zf (take 4 (host_bytes big (HostToNetwork32 big val)))"

definition WriteUInt64 :: "bool \<Rightarrow> bool \<Rightarrow> u64 \<Rightarrow> byte buffer \<Rightarrow> abort + byte buffer" where
  "WriteUInt64 zf big val = WriteBytesInternal zf (take 8 (host_bytes big (HostToNetwork64 big val)))"

lemma drop_bit_decreases: "unat (drop_bit 7 v) < unat v" if "0x80 \<le> v" for v :: u64
proof -
  have v: "0x80 \<le> unat v" using that by (simp add: word_le_nat_alt)
  have "unat (drop_bit 7 v) = unat v div 2 ^ 7" by (simp add: drop_bit_eq_div unat_div)
  also have "\<dots> < unat v" using v by (intro div_less_dividend) auto
  finally show ?thesis .
qed

function WriteUVarint :: "bool \<Rightarrow> u64 \<Rightarrow> byte buffer \<Rightarrow> abort + byte buffer" where
  "WriteUVarint zf val b =
     (if 0x80 \<le> val
      then bindE (WriteBytesInternal zf [ucast val OR 0x80] b) (WriteUVarint zf (drop_bit 7 val))
      else WriteBytesInternal zf [ucast val] b)"
  by auto
termination
  by (relation "measure (\<lambda>(zf, val, b). unat val)") (simp_all add: drop_bit_decreases)

definition WriteString :: "bool \<Rightarrow> byte list \<Rightarrow> byte buffer \<Rightarrow> abort + byte buffer" where
  "WriteString zf val = WriteBytesInternal zf val"

definition WriteBytes :: "bool \<Rightarrow> byte list \<Rightarrow> byte buffer \<Rightarrow> abort + byte buffer" where
  "WriteBytes zf val = WriteBytesInternal zf val"

text \<open>The answer is the offset of the returned pointer in the buffer's block.\<close>

definition ReserveWriteBuffer :: "bool \<Rightarrow> nat \<Rightarrow> byte buffer \<Rightarrow> abort + (nat \<times> byte buffer)" where
  "ReserveWriteBuffer zf len b =
     bindE (BufferT_size b) (\<lambda>n. bindE (SetSize zf ((n + len) mod 2 ^ 64) b) (\<lambda>b.
       bindE (BufferT_data b) (\<lambda>_. Inr (0, b))))"

definition Resize :: "bool \<Rightarrow> nat \<Rightarrow> byte buffer \<Rightarrow> abort + byte buffer" where
  "Resize zf n = SetSize zf n"

definition Writer_Clear :: "bool \<Rightarrow> byte buffer \<Rightarrow> abort + byte buffer" where
  "Writer_Clear zf = BufferT_Clear zf"

definition Extract :: "byte buffer \<Rightarrow> abort + (byte buffer \<times> byte buffer)" where
  "Extract b = BufferT_move b"

definition DataView :: "byte buffer \<Rightarrow> abort + byte block" where
  "DataView b = bindE (BufferT_data b) (\<lambda>p. bindE (BufferT_size b) (\<lambda>n. Inr (take n (block_of p))))"

section \<open>Variable-length integers\<close>

text \<open>The bytes of a value, least significant group of seven bits first.\<close>

function uvarint :: "u64 \<Rightarrow> byte list" where
  "uvarint val = (if 0x80 \<le> val then (ucast val OR 0x80) # uvarint (drop_bit 7 val) else [ucast val])"
  by auto
termination
  by (relation "measure unat") (simp_all add: drop_bit_decreases)

declare uvarint.simps [simp del] WriteUVarint.simps [simp del]

text \<open>The published decoding: seven bits per byte, the top bit says that another byte follows.\<close>

fun uvarint_decode :: "byte list \<Rightarrow> (nat \<times> byte list) option" where
  "uvarint_decode [] = None"
| "uvarint_decode (x # xs) =
     (if 0x80 \<le> x
      then (case uvarint_decode xs of Some (n, rest) \<Rightarrow> Some (unat x - 0x80 + 128 * n, rest) | None \<Rightarrow> None)
      else Some (unat x, xs))"

lemma low_byte_marked:
  "unat ((ucast v :: byte) OR 0x80) = unat v mod 128 + 128" "0x80 \<le> (ucast v :: byte) OR 0x80" for v :: u64
proof -
  have "(ucast v :: byte) OR 0x80 = (ucast v AND 0x7f) + 0x80"
  proof -
    have "((ucast v :: byte) AND 0x7f) AND 0x80 = 0" by (simp add: and.assoc)
    then have "((ucast v :: byte) AND 0x7f) + 0x80 = (ucast v AND 0x7f) OR 0x80"
      by (simp add: disjunctive_add_eq_or)
    also have "\<dots> = (ucast v OR 0x80) AND (0x7f OR 0x80)" by (simp only: bit.disj_conj_distrib2)
    also have "(0x7f :: byte) OR 0x80 = - 1" by simp
    finally show ?thesis by simp
  qed
  moreover have "unat ((ucast v :: byte) AND 0x7f) = unat v mod 128"
  proof -
    have "(ucast v :: byte) AND 0x7f = take_bit 7 (ucast v)"
      by (simp add: take_bit_eq_mask mask_eq_exp_minus_1)
    then have "unat ((ucast v :: byte) AND 0x7f) = take_bit 7 (unat (ucast v :: byte))"
      by (simp add: unsigned_take_bit_eq)
    then show ?thesis by (simp add: unsigned_ucast_eq take_bit_eq_mod mod_mod_cancel)
  qed
  ultimately show "unat ((ucast v :: byte) OR 0x80) = unat v mod 128 + 128" "0x80 \<le> (ucast v :: byte) OR 0x80"
    by (simp_all add: unat_word_ariths word_le_nat_alt)
qed

lemma low_byte_last: "unat (ucast v :: byte) = unat v" "\<not> 0x80 \<le> (ucast v :: byte)" if "\<not> 0x80 \<le> v" for v :: u64
proof -
  have v: "unat v < 128" using that by (simp add: word_le_nat_alt)
  then show u: "unat (ucast v :: byte) = unat v" by (simp add: unsigned_ucast_eq take_bit_nat_eq_self)
  show "\<not> 0x80 \<le> (ucast v :: byte)" using v u by (simp add: word_le_nat_alt)
qed

lemma uvarint_decodes: "uvarint_decode (uvarint v @ rest) = Some (unat v, rest)"
proof (induction v rule: uvarint.induct)
  case (1 v)
  show ?case
  proof (cases "0x80 \<le> v")
    case True
    have "unat (drop_bit 7 v) = unat v div 128" by (simp add: drop_bit_eq_div unat_div)
    with 1 [OF True] True low_byte_marked [of v] show ?thesis by (simp add: uvarint.simps [of v])
  next
    case False
    with low_byte_last [OF False] show ?thesis by (simp add: uvarint.simps [of v])
  qed
qed

lemma uvarint_length: "unat v < 128 ^ n \<Longrightarrow> 0 < n \<Longrightarrow> length (uvarint v) \<le> n"
proof (induction n arbitrary: v)
  case (Suc n)
  show ?case
  proof (cases "0x80 \<le> v")
    case True
    then have "0x80 \<le> unat v" by (simp add: word_le_nat_alt)
    with Suc.prems have "0 < n" by (cases n) auto
    moreover have "unat (drop_bit 7 v) < 128 ^ n"
      using Suc.prems by (simp add: drop_bit_eq_div unat_div less_mult_imp_div_less mult.commute)
    ultimately show ?thesis using Suc.IH True by (simp add: uvarint.simps [of v])
  qed (simp add: uvarint.simps [of v])
qed simp

section \<open>Fields of a message\<close>

datatype field = U8 u8 | U16 u16 | U24 u32 | U32 u32 | U64 u64 | UVar u64 | Raw "byte list"

fun write_field :: "bool \<Rightarrow> bool \<Rightarrow> field \<Rightarrow> byte buffer \<Rightarrow> abort + byte buffer" where
  "write_field zf big (U8 v) = WriteUInt8 zf v"
| "write_field zf big (U16 v) = WriteUInt16 zf big v"
| "write_field zf big (U24 v) = WriteUInt24 zf big v"
| "write_field zf big (U32 v) = WriteUInt32 zf big v"
| "write_field zf big (U64 v) = WriteUInt64 zf big v"
| "write_field zf big (UVar v) = WriteUVarint zf v"
| "write_field zf big (Raw bs) = WriteBytes zf bs"

fun write_fields :: "bool \<Rightarrow> bool \<Rightarrow> field list \<Rightarrow> byte buffer \<Rightarrow> abort + byte buffer" where
  "write_fields zf big [] b = Inr b"
| "write_fields zf big (f # fs) b = bindE (write_field zf big f b) (write_fields zf big fs)"

text \<open>The bytes a field stands for on the wire, independently of the host.\<close>

fun wire :: "field \<Rightarrow> byte list" where
  "wire (U8 v) = [v]"
| "wire (U16 v) = rev (little_bytes v)"
| "wire (U24 v) = tl (rev (little_bytes v))"
| "wire (U32 v) = rev (little_bytes v)"
| "wire (U64 v) = rev (little_bytes v)"
| "wire (UVar v) = uvarint v"
| "wire (Raw bs) = bs"

text \<open>Reading one field of known shape: the value, and the bytes after it.\<close>

datatype shape = S8 | S16 | S24 | S32 | S64 | SVar | SRaw nat

fun shape_of :: "field \<Rightarrow> shape" where
  "shape_of (U8 v) = S8"
| "shape_of (U16 v) = S16"
| "shape_of (U24 v) = S24"
| "shape_of (U32 v) = S32"
| "shape_of (U64 v) = S64"
| "shape_of (UVar v) = SVar"
| "shape_of (Raw bs) = SRaw (length bs)"

definition read_as :: "('v \<Rightarrow> field) \<Rightarrow> nat \<Rightarrow> (byte list \<Rightarrow> abort + 'v) \<Rightarrow> byte list \<Rightarrow> (field \<times> byte list) option" where
  "read_as mk n rd bs = (case rd bs of Inr v \<Rightarrow> Some (mk v, drop n bs) | Inl e \<Rightarrow> None)"

fun read_field :: "shape \<Rightarrow> byte list \<Rightarrow> (field \<times> byte list) option" where
  "read_field S8 bs = read_as U8 1 (ReadBigEndian 1) bs"
| "read_field S16 bs = read_as U16 2 (ReadBigEndian 2) bs"
| "read_field S24 bs = read_as U24 3 (ReadBigEndian 3) bs"
| "read_field S32 bs = read_as U32 4 (ReadBigEndian 4) bs"
| "read_field S64 bs = read_as U64 8 (ReadBigEndian 8) bs"
| "read_field SVar bs = map_option (\<lambda>(n, rest). (UVar (of_nat n), rest)) (uvarint_decode bs)"
| "read_field (SRaw n) bs = (if n \<le> length bs then Some (Raw (take n bs), drop n bs) else None)"

fun read_fields :: "shape list \<Rightarrow> byte list \<Rightarrow> (field list \<times> byte list) option" where
  "read_fields [] bs = Some ([], bs)"
| "read_fields (s # ss) bs =
     (case read_field s bs of
        None \<Rightarrow> None
      | Some (f, rest) \<Rightarrow> map_option (\<lambda>(fs, r). (f # fs, r)) (read_fields ss rest))"

text \<open>What a field keeps of its value: 24 bits of a 32-bit one.\<close>

fun kept :: "field \<Rightarrow> field" where
  "kept (U24 v) = U24 (take_bit 24 v)"
| "kept f = f"

lemma be_bytes_read:
  assumes "LENGTH('a::len) = 8 * S"
  shows "ReadBigEndian S (rev (little_bytes v) @ rest) = (Inr v :: abort + 'a word)"
proof -
  have "InternalWriteBigEndian S v (replicate S 0 @ rest) = rev (little_bytes v) @ rest"
    using big_bytes_write [OF assms, of "replicate S 0 @ rest" v] by simp
  moreover have "InternalReadBigEndian S (InternalWriteBigEndian S v (replicate S 0 @ rest)) = take_bit (8 * S) v"
    using assms by (intro read_write_big) simp_all
  moreover have "S \<le> length (rev (little_bytes v) @ rest)" using assms by simp
  ultimately show ?thesis using assms by (simp add: bytes_general take_bit_word_eq_self)
qed

lemma be_low_bytes_read: "ReadBigEndian 3 (tl (rev (little_bytes v)) @ rest) = Inr (take_bit 24 (v :: u32))"
proof -
  have w: "InternalWriteBigEndian 3 v (replicate 3 0 @ rest) = tl (rev (little_bytes v)) @ rest"
    by (simp add: write_general little_bytes_def upt_conv_Cons numeral_3_eq_3)
  have "InternalReadBigEndian 3 (InternalWriteBigEndian 3 v (replicate 3 0 @ rest)) = take_bit (8 * 3) v"
    by (rule read_write_big) simp_all
  then show ?thesis unfolding w by (simp add: bytes_general)
qed

lemma read_field_wire: "read_field (shape_of f) (wire f @ rest) = Some (kept f, rest)"
proof (cases f)
  case (U8 v)
  have "ReadBigEndian 1 ([v] @ rest) = Inr v" by (simp add: bytes_general InternalReadBigEndian_def)
  then show ?thesis using U8 by (simp add: read_as_def)
next
  case (U16 v)
  have "ReadBigEndian 2 (rev (little_bytes v) @ rest) = Inr v" using be_bytes_read [of 2 v rest] by simp
  then show ?thesis using U16 by (simp add: read_as_def)
next
  case (U24 v)
  then show ?thesis using be_low_bytes_read [of v rest] by (simp add: read_as_def)
next
  case (U32 v)
  have "ReadBigEndian 4 (rev (little_bytes v) @ rest) = Inr v" using be_bytes_read [of 4 v rest] by simp
  then show ?thesis using U32 by (simp add: read_as_def)
next
  case (U64 v)
  have "ReadBigEndian 8 (rev (little_bytes v) @ rest) = Inr v" using be_bytes_read [of 8 v rest] by simp
  then show ?thesis using U64 by (simp add: read_as_def)
qed (simp_all add: uvarint_decodes)

lemma read_fields_wire:
  "read_fields (map shape_of fs) (concat (map wire fs) @ rest) = Some (map kept fs, rest)"
  by (induction fs) (simp_all add: read_field_wire)

section \<open>What the writer writes\<close>

lemma WriteBytesInternal_law:
  assumes "buf_ok b" "bsize b + length bs \<le> sink_bound"
  shows "\<exists>t. WriteBytesInternal zf bs b = Inr t \<and> buf_ok t \<and> elems t = elems b @ map Some bs"
proof -
  have "length (elems b) + length (map Some bs) \<le> sink_bound" using assms by simp
  from buf.append_total [OF assms(1) this, of zf] obtain t where
    t: "AppendData zf (Some (map Some bs)) (length (map Some bs)) b = Inr t" by blast
  with buf.append_keeps [OF t assms(1)] show ?thesis by (simp add: WriteBytesInternal_def)
qed

lemma WriteUVarint_appends:
  "WriteUVarint zf v b = buf.append_all zf (map (\<lambda>x. [Some x]) (uvarint v)) b"
proof (induction zf v b rule: WriteUVarint.induct)
  case (1 zf v b)
  have w: "WriteBytesInternal zf [x] c = AppendData zf (Some [Some x]) (Suc 0) c" for x c
    by (simp add: WriteBytesInternal_def)
  show ?case
  proof (cases "0x80 \<le> v")
    case True
    show ?thesis
      using 1 [OF True] True
      by (cases "WriteBytesInternal zf [ucast v OR 0x80] b")
        (simp_all add: WriteUVarint.simps [of zf v b] uvarint.simps [of v] flip: w)
  next
    case False
    then show ?thesis
      by (cases "WriteBytesInternal zf [ucast v] b")
        (simp_all add: WriteUVarint.simps [of zf v b] uvarint.simps [of v] flip: w)
  qed
qed

lemma host_wire:
  "take 2 (host_bytes big (HostToNetwork16 big a)) = wire (U16 a)"
  "take 3 (drop 1 (host_bytes big (HostToNetwork32 big c))) = wire (U24 c)"
  "take 4 (host_bytes big (HostToNetwork32 big c)) = wire (U32 c)"
  "take 8 (host_bytes big (HostToNetwork64 big d)) = wire (U64 d)"
  by (simp_all add: HostToNetwork16_def HostToNetwork32_def HostToNetwork64_def host_bytes_htobe [where S = 2]
      host_bytes_htobe [where S = 4] host_bytes_htobe [where S = 8] drop_Suc)

lemma write_field_law:
  assumes "buf_ok b" "bsize b + length (wire f) \<le> sink_bound"
  shows "\<exists>t. write_field zf big f b = Inr t \<and> buf_ok t \<and> elems t = elems b @ map Some (wire f)"
proof (cases f)
  case (UVar v)
  let ?xss = "map (\<lambda>x. [Some x]) (uvarint v)"
  have c: "concat ?xss = map Some (uvarint v)" by (induction "uvarint v") simp_all
  then have "length (elems b) + length (concat ?xss) \<le> sink_bound" using assms UVar by simp
  from buf.append_all_content [OF assms(1) this, of zf] c UVar show ?thesis by (simp add: WriteUVarint_appends)
qed (use assms WriteBytesInternal_law [of b "wire f" zf] in
    \<open>simp_all only: write_field.simps WriteUInt8_def WriteUInt16_def WriteUInt24_def WriteUInt32_def WriteUInt64_def
      WriteBytes_def host_wire wire.simps\<close>)

lemma write_fields_law:
  "buf_ok b \<Longrightarrow> bsize b + length (concat (map wire fs)) \<le> sink_bound \<Longrightarrow>
   \<exists>t. write_fields zf big fs b = Inr t \<and> buf_ok t \<and> elems t = elems b @ map Some (concat (map wire fs))"
proof (induction fs arbitrary: b)
  case (Cons f fs)
  then obtain t where t: "write_field zf big f b = Inr t" "buf_ok t" "elems t = elems b @ map Some (wire f)"
    using write_field_law [of b f zf big] by auto
  then have "bsize t = bsize b + length (wire f)" using Cons.prems(1) length_elems [of t] by simp
  with Cons.IH [OF t(2)] Cons.prems(2) t show ?case by auto
qed simp

lemma default_writer: "\<exists>w. ByteBufferWriter_default zf = Inr w \<and> buf_ok w \<and> elems w = []"
proof -
  have e: "buf_ok (BufferT_empty :: byte buffer)" "elems (BufferT_empty :: byte buffer) = []"
    by (simp_all add: buf_ok_def buf_wf_def BufferT_empty_def elems_def)
  have "fits kDefaultCapacity (BufferT_empty :: byte buffer)"
    using e(1) by (intro fits_sink) (simp_all add: kDefaultCapacity_def sink_bound_def)
  from Ensure_total [OF e(1) this, of zf False] obtain w
    where w: "EnsureCapacityWithHeadroom zf kDefaultCapacity False (BufferT_empty :: byte buffer) = Inr w" by blast
  with Ensure_sound(1,2) [OF w e(1)] e(2) show ?thesis
    by (simp add: ByteBufferWriter_default_def Construct_def EnsureCapacity_def)
qed

text \<open>
  C30. What the writer writes is read back. On a host of either byte order, any fields of up to \<open>2\<^sup>6\<^sup>2\<close>
  bytes in all are written without failure, and reading the buffer with \<^verbatim>\<open>ByteReader\<close> and the published
  decoding of variable-length integers gives the fields back (24-bit fields their low 24 bits) with
  nothing left over.
\<close>

theorem byte_buffer_roundtrip:
  assumes "length (concat (map wire fs)) \<le> sink_bound"
  shows "\<exists>w t bs. ByteBufferWriter_default zf = Inr w \<and> write_fields zf big fs w = Inr t \<and>
    DataView t = Inr (map Some bs) \<and> read_fields (map shape_of fs) bs = Some (map kept fs, [])"
proof -
  obtain w where w: "ByteBufferWriter_default zf = Inr w" "buf_ok w" "elems w = []" using default_writer by blast
  then have "bsize w = 0" using length_elems [of w] by simp
  with write_fields_law [OF w(2), of fs zf big] assms w(3) obtain t where
    t: "write_fields zf big fs w = Inr t" "buf_ok t" "elems t = map Some (concat (map wire fs))" by auto
  have "DataView t = Inr (elems t)" using t(2) by (simp add: DataView_def BufferT_data_def BufferT_size_def elems_def)
  with t w(1) read_fields_wire [of fs "[]"] show ?thesis by auto
qed

theorem byte_buffer_roundtrip_witness:
  "\<exists>w t bs. ByteBufferWriter_default False = Inr w \<and> write_fields False True [U16 258, UVar 300] w = Inr t \<and>
     DataView t = Inr (map Some bs) \<and> read_fields [S16, SVar] bs = Some ([U16 258, UVar 300], [])"
proof -
  have "length (uvarint 300) \<le> 10" by (rule uvarint_length) simp_all
  then have "length (concat (map wire [U16 258, UVar 300])) \<le> sink_bound" by (simp add: sink_bound_def)
  from byte_buffer_roundtrip [OF this, of False True] show ?thesis by simp
qed

text \<open>
  The variable-length writer is exact for every 64-bit value: it terminates, appends one to ten
  bytes, and these decode to the value whatever follows them.
\<close>

theorem uvarint_write_exact:
  assumes "buf_ok b" and "bsize b + 10 \<le> sink_bound"
  shows "\<exists>t bs. WriteUVarint zf v b = Inr t \<and> elems t = elems b @ map Some bs \<and> 1 \<le> length bs \<and> length bs \<le> 10 \<and>
    (\<forall>rest. uvarint_decode (bs @ rest) = Some (unat v, rest))"
proof -
  have l: "length (uvarint v) \<le> 10" "1 \<le> length (uvarint v)"
    using unsigned_less [of v, where 'a = nat] by (intro uvarint_length) (simp_all add: uvarint.simps [of v])
  with write_field_law [OF assms(1), of "UVar v" zf False] assms(2) show ?thesis
    by (auto simp: uvarint_decodes)
qed

theorem uvarint_write_exact_witness:
  "\<exists>t. WriteUVarint False 300 BufferT_empty = Inr t \<and> elems t = [Some 0xac, Some 0x02]"
proof -
  have ok: "buf_ok (BufferT_empty :: byte buffer)" "bsize (BufferT_empty :: byte buffer) + 10 \<le> sink_bound"
    "elems (BufferT_empty :: byte buffer) = []"
    by (simp_all add: buf_ok_def buf_wf_def BufferT_empty_def sink_bound_def elems_def)
  from uvarint_write_exact [OF ok(1,2), of False 300] obtain t bs where
    "WriteUVarint False 300 BufferT_empty = Inr t" "elems t = map Some bs" using ok(3) by auto
  moreover have "WriteUVarint False 300 BufferT_empty = Inr u \<Longrightarrow> elems u = [Some 0xac, Some 0x02]" for u
  proof -
    assume u: "WriteUVarint False 300 BufferT_empty = Inr u"
    have "uvarint 300 = [0xac, 0x02]" by (simp add: uvarint.simps)
    with write_field_law [OF ok(1), of "UVar 300" False False] u ok(3) show ?thesis
      by (auto simp: sink_bound_def BufferT_empty_def)
  qed
  ultimately show ?thesis by blast
qed

end
