(* ===== verification/Event_Processor.thy ===== *)
theory Event_Processor
  imports Prelude "HOL-Library.Multiset" "HOL-Library.Sublist"
begin

text \<open>
  \<^verbatim>\<open>logging/rtc_event_log/rtc_event_processor_order.h\<close> and \<^verbatim>\<open>rtc_event_processor.h\<close>: the order in which events
  of an event log are handled. The first part is the table that ranks events of one timestamp by their type,
  one case per specialisation of \<^verbatim>\<open>TieBreaker\<close>. The second part is the processor: lists of events are added
  to it, and it hands the elements of each to their handlers one by one. Which list comes next is decided by code
  outside the headers (\<^verbatim>\<open>ProcessEventsInOrder\<close>), and so is the merged order; the theorems are about the lists and
  hold for every choice.
\<close>

section \<open>Ranks\<close>

datatype TypeOrder =
    Start
  | StreamConfig | IceCondidateConfig | IceCandidateEvent | DtlsTransportState | DtlsWritable | RouteChange
  | RtpIn | RtcpIn | GenericPacketIn | GenericAckIn
  | BweRemoteEstimate | BweProbeFailure | BweProbeSuccess | BweDelayBased | BweLossBased | BweProbeCreated | BweScream
  | AudioNetworkAdaptation | NetEqSetMinDelay | AudioPlayout | FrameDecoded
  | RtpOut | RtcpOut | GenericPacketOut
  | AlrState
  | Stop

text \<open>\<^verbatim>\<open>static_cast<int>\<close>: the enumerators count from 0.\<close>

definition TypeOrders :: "TypeOrder list" where
  "TypeOrders =
     [Start, StreamConfig, IceCondidateConfig, IceCandidateEvent, DtlsTransportState, DtlsWritable, RouteChange,
      RtpIn, RtcpIn, GenericPacketIn, GenericAckIn, BweRemoteEstimate, BweProbeFailure, BweProbeSuccess, BweDelayBased,
      BweLossBased, BweProbeCreated, BweScream, AudioNetworkAdaptation, NetEqSetMinDelay, AudioPlayout, FrameDecoded,
      RtpOut, RtcpOut, GenericPacketOut, AlrState, Stop]"

fun index_in :: "'a list \<Rightarrow> 'a \<Rightarrow> nat" where
  "index_in [] x = 0"
| "index_in (y # ys) x = (if x = y then 0 else Suc (index_in ys x))"

definition rank :: "TypeOrder \<Rightarrow> int" where
  "rank t = int (index_in TypeOrders t)"

datatype PacketDirection = kIncomingPacket | kOutgoingPacket

section \<open>The events\<close>

datatype connectivity_event =
    LoggedStartEvent | LoggedStopEvent
  | LoggedAudioRecvConfig | LoggedAudioSendConfig | LoggedVideoRecvConfig | LoggedVideoSendConfig
  | LoggedIceCandidatePairConfig | LoggedIceCandidatePairEvent | LoggedDtlsTransportState | LoggedDtlsWritableState
  | LoggedRouteChangeEvent

datatype estimate_event =
    LoggedRemoteEstimateEvent | LoggedBweProbeFailureEvent | LoggedBweProbeSuccessEvent | LoggedBweDelayBasedUpdate
  | LoggedBweLossBasedUpdate | LoggedBweProbeClusterCreatedEvent | LoggedBweScreamUpdate

datatype processing_event =
    LoggedAudioNetworkAdaptationEvent | LoggedNetEqSetMinimumDelayEvent | LoggedAudioPlayoutEvent
  | LoggedFrameDecoded | LoggedAlrStateEvent

text \<open>What the table reads of an RTP header, and of the summary of a packet.\<close>

record rtp_extension =
  hasTransportSequenceNumber :: bool
  transportSequenceNumber :: u16

datatype rtp_event =
    LoggedRtpPacket rtp_extension
  | LoggedPacketInfo bool u16
  | LoggedRtpPacketIncoming rtp_extension
  | LoggedRtpPacketOutgoing rtp_extension

datatype rtcp_event =
    LoggedRtcpPacketIncoming | LoggedRtcpPacketOutgoing
  | LoggedRtcpPacketTransportFeedback | LoggedRtcpCongestionControlFeedback | LoggedRtcpPacketLossNotification
  | LoggedRtcpPacketSenderReport | LoggedRtcpPacketReceiverReport | LoggedRtcpPacketExtendedReports
  | LoggedRtcpPacketNack | LoggedRtcpPacketRemb | LoggedRtcpPacketFir | LoggedRtcpPacketPli | LoggedRtcpPacketBye

datatype logged_event =
  Connectivity connectivity_event | Estimate estimate_event | Processing processing_event
  | Rtp rtp_event | Rtcp rtcp_event

section \<open>The table\<close>

fun connectivity_order :: "connectivity_event \<Rightarrow> TypeOrder" where
  "connectivity_order LoggedStartEvent = Start"
| "connectivity_order LoggedStopEvent = Stop"
| "connectivity_order LoggedAudioRecvConfig = StreamConfig"
| "connectivity_order LoggedAudioSendConfig = StreamConfig"
| "connectivity_order LoggedVideoRecvConfig = StreamConfig"
| "connectivity_order LoggedVideoSendConfig = StreamConfig"
| "connectivity_order LoggedIceCandidatePairConfig = IceCondidateConfig"
| "connectivity_order LoggedIceCandidatePairEvent = IceCandidateEvent"
| "connectivity_order LoggedDtlsTransportState = DtlsTransportState"
| "connectivity_order LoggedDtlsWritableState = DtlsWritable"
| "connectivity_order LoggedRouteChangeEvent = RouteChange"

fun estimate_order :: "estimate_event \<Rightarrow> TypeOrder" where
  "estimate_order LoggedRemoteEstimateEvent = BweRemoteEstimate"
| "estimate_order LoggedBweProbeFailureEvent = BweProbeFailure"
| "estimate_order LoggedBweProbeSuccessEvent = BweProbeSuccess"
| "estimate_order LoggedBweDelayBasedUpdate = BweDelayBased"
| "estimate_order LoggedBweLossBasedUpdate = BweLossBased"
| "estimate_order LoggedBweProbeClusterCreatedEvent = BweProbeCreated"
| "estimate_order LoggedBweScreamUpdate = BweScream"

fun processing_order :: "processing_event \<Rightarrow> TypeOrder" where
  "processing_order LoggedAudioNetworkAdaptationEvent = AudioNetworkAdaptation"
| "processing_order LoggedNetEqSetMinimumDelayEvent = NetEqSetMinDelay"
| "processing_order LoggedAudioPlayoutEvent = AudioPlayout"
| "processing_order LoggedFrameDecoded = FrameDecoded"
| "processing_order LoggedAlrStateEvent = AlrState"

definition by_direction :: "TypeOrder \<Rightarrow> TypeOrder \<Rightarrow> PacketDirection \<Rightarrow> TypeOrder" where
  "by_direction inward outward d = (if d = kIncomingPacket then inward else outward)"

text \<open>The classes that know their direction ignore the argument.\<close>

fun rtp_order :: "PacketDirection \<Rightarrow> rtp_event \<Rightarrow> TypeOrder" where
  "rtp_order d (LoggedRtpPacket p) = by_direction RtpIn RtpOut d"
| "rtp_order d (LoggedPacketInfo has s) = by_direction RtpIn RtpOut d"
| "rtp_order d (LoggedRtpPacketIncoming p) = RtpIn"
| "rtp_order d (LoggedRtpPacketOutgoing p) = RtpOut"

fun rtcp_order :: "PacketDirection \<Rightarrow> rtcp_event \<Rightarrow> TypeOrder" where
  "rtcp_order d LoggedRtcpPacketIncoming = RtcpIn"
| "rtcp_order d LoggedRtcpPacketOutgoing = RtcpOut"
| "rtcp_order d LoggedRtcpPacketTransportFeedback = by_direction RtcpIn RtcpOut d"
| "rtcp_order d LoggedRtcpCongestionControlFeedback = by_direction RtcpIn RtcpOut d"
| "rtcp_order d LoggedRtcpPacketLossNotification = by_direction RtcpIn RtcpOut d"
| "rtcp_order d LoggedRtcpPacketSenderReport = by_direction RtcpIn RtcpOut d"
| "rtcp_order d LoggedRtcpPacketReceiverReport = by_direction RtcpIn RtcpOut d"
| "rtcp_order d LoggedRtcpPacketExtendedReports = by_direction RtcpIn RtcpOut d"
| "rtcp_order d LoggedRtcpPacketNack = by_direction RtcpIn RtcpOut d"
| "rtcp_order d LoggedRtcpPacketRemb = by_direction RtcpIn RtcpOut d"
| "rtcp_order d LoggedRtcpPacketFir = by_direction RtcpIn RtcpOut d"
| "rtcp_order d LoggedRtcpPacketPli = by_direction RtcpIn RtcpOut d"
| "rtcp_order d LoggedRtcpPacketBye = by_direction RtcpIn RtcpOut d"

fun type_order :: "PacketDirection \<Rightarrow> logged_event \<Rightarrow> TypeOrder" where
  "type_order d (Connectivity e) = connectivity_order e"
| "type_order d (Estimate e) = estimate_order e"
| "type_order d (Processing e) = processing_order e"
| "type_order d (Rtp e) = rtp_order d e"
| "type_order d (Rtcp e) = rtcp_order d e"

definition extension_seq_num :: "rtp_extension \<Rightarrow> u16 option" where
  "extension_seq_num p = (if hasTransportSequenceNumber p then Some (transportSequenceNumber p) else None)"

fun rtp_seq_num :: "rtp_event \<Rightarrow> u16 option" where
  "rtp_seq_num (LoggedRtpPacket p) = extension_seq_num p"
| "rtp_seq_num (LoggedPacketInfo has s) = (if has then Some s else None)"
| "rtp_seq_num (LoggedRtpPacketIncoming p) = extension_seq_num p"
| "rtp_seq_num (LoggedRtpPacketOutgoing p) = extension_seq_num p"

fun transport_seq_num_accessor :: "logged_event \<Rightarrow> u16 option" where
  "transport_seq_num_accessor (Rtp e) = rtp_seq_num e"
| "transport_seq_num_accessor e = None"

section \<open>The processor\<close>

text \<open>
  An event list: the elements not yet handled, and the ranks its next element is compared by. \<open>handled\<close>
  records the elements given to their handlers, with the list they came from.
\<close>

record 'a event_list =
  pending :: "'a list"
  list_type_order :: int
  list_seq_num :: "'a \<Rightarrow> u16 option"
  list_insertion_order :: int

record 'a processor =
  event_lists :: "'a event_list list"
  num_insertions :: int
  handled :: "(nat \<times> 'a) list"

definition RtcEventProcessor :: "'a processor" where
  "RtcEventProcessor = \<lparr>event_lists = [], num_insertions = 0, handled = []\<rparr>"

definition AddEvents_ordered ::
  "'a list \<Rightarrow> int \<Rightarrow> ('a \<Rightarrow> u16 option) \<Rightarrow> int \<Rightarrow> 'a processor \<Rightarrow> abort + 'a processor" where
  "AddEvents_ordered iterable order accessor insertion p =
     (if iterable = [] then Inr p
      else if num_insertions p = 2 ^ 31 - 1 then Inl SignedOverflow
      else Inr (p\<lparr>num_insertions := num_insertions p + 1,
        event_lists := event_lists p @
          [\<lparr>pending = iterable, list_type_order = order, list_seq_num = accessor, list_insertion_order = insertion\<rparr>]\<rparr>))"

text \<open>
  \<open>kind\<close> gives the event of an element. Every element of one list is of one class, the one whose
  rank the list gets.
\<close>

definition AddEvents ::
  "('a \<Rightarrow> logged_event) \<Rightarrow> PacketDirection \<Rightarrow> 'a list \<Rightarrow> 'a processor \<Rightarrow> abort + 'a processor" where
  "AddEvents kind d iterable p =
     AddEvents_ordered iterable (rank (type_order d (kind (hd iterable)))) (transport_seq_num_accessor \<circ> kind)
       (num_insertions p) p"

definition IsEmpty :: "'a event_list \<Rightarrow> bool" where
  "IsEmpty l \<longleftrightarrow> pending l = []"

definition GetNextTime :: "('a \<Rightarrow> int) \<Rightarrow> 'a event_list \<Rightarrow> abort + int" where
  "GetNextTime log_time_us l = check (\<not> IsEmpty l) (Inr (log_time_us (hd (pending l))))"

definition GetTypeOrder :: "'a event_list \<Rightarrow> int" where
  "GetTypeOrder l = list_type_order l"

definition GetTransportSeqNum :: "'a event_list \<Rightarrow> abort + u16 option" where
  "GetTransportSeqNum l = check (\<not> IsEmpty l) (Inr (list_seq_num l (hd (pending l))))"

definition GetInsertionOrder :: "'a event_list \<Rightarrow> int" where
  "GetInsertionOrder l = list_insertion_order l"

definition ProcessNext :: "nat \<Rightarrow> 'a processor \<Rightarrow> abort + 'a processor" where
  "ProcessNext i p =
     (if length (event_lists p) \<le> i then Inl OutOfBounds
      else let l = event_lists p ! i
           in check (\<not> IsEmpty l)
                (Inr (p\<lparr>handled := handled p @ [(i, hd (pending l))],
                  event_lists := (event_lists p)[i := l\<lparr>pending := tl (pending l)\<rparr>]\<rparr>)))"

section \<open>The ranks follow the phases of a session\<close>

text \<open>
  The phases the comments of the table describe: start; configuration and connectivity; incoming
  packets; bandwidth estimation; general processing; outgoing packets; application-limited state; stop.
\<close>

fun rtp_phase :: "PacketDirection \<Rightarrow> rtp_event \<Rightarrow> nat" where
  "rtp_phase d (LoggedRtpPacketIncoming p) = 2"
| "rtp_phase d (LoggedRtpPacketOutgoing p) = 5"
| "rtp_phase d e = (if d = kIncomingPacket then 2 else 5)"

fun rtcp_phase :: "PacketDirection \<Rightarrow> rtcp_event \<Rightarrow> nat" where
  "rtcp_phase d LoggedRtcpPacketIncoming = 2"
| "rtcp_phase d LoggedRtcpPacketOutgoing = 5"
| "rtcp_phase d e = (if d = kIncomingPacket then 2 else 5)"

fun phase :: "PacketDirection \<Rightarrow> logged_event \<Rightarrow> nat" where
  "phase d (Connectivity LoggedStartEvent) = 0"
| "phase d (Connectivity LoggedStopEvent) = 7"
| "phase d (Connectivity e) = 1"
| "phase d (Estimate e) = 3"
| "phase d (Processing LoggedAlrStateEvent) = 6"
| "phase d (Processing e) = 4"
| "phase d (Rtp e) = rtp_phase d e"
| "phase d (Rtcp e) = rtcp_phase d e"

definition phase_first :: "int list" where
  "phase_first = [0, 1, 7, 11, 18, 22, 25, 26]"

definition phase_last :: "int list" where
  "phase_last = [0, 6, 10, 17, 21, 24, 25, 26]"

lemmas rank_defs = rank_def TypeOrders_def phase_first_def phase_last_def

lemma rank_in_phase:
  "phase d e < 8 \<and> phase_first ! phase d e \<le> rank (type_order d e) \<and> rank (type_order d e) \<le> phase_last ! phase d e"
proof (cases e)
  case (Connectivity c)
  then show ?thesis by (cases c) (simp_all add: rank_defs)
next
  case (Estimate c)
  then show ?thesis by (cases c) (simp_all add: rank_defs)
next
  case (Processing c)
  then show ?thesis by (cases c) (simp_all add: rank_defs)
next
  case (Rtp c)
  then show ?thesis by (cases c) (simp_all add: rank_defs by_direction_def)
next
  case (Rtcp c)
  then show ?thesis by (cases c) (simp_all add: rank_defs by_direction_def)
qed

lemma phases_apart: "m < n \<Longrightarrow> n < 8 \<Longrightarrow> phase_last ! m < phase_first ! n"
  by (auto simp: phase_first_def phase_last_def less_Suc_eq numeral_eq_Suc)

text \<open>
  Among events of one timestamp the table keeps the phases apart: an event of an earlier phase
  always ranks strictly before an event of a later one, whatever the direction each is added with. The
  rank does not depend on the payload of a packet, and only packets that carry a transport
  sequence number have one to break ties with.
\<close>

theorem type_order_respects_phases:
  "(phase d e < phase d' e' \<longrightarrow> rank (type_order d e) < rank (type_order d' e')) \<and>
   (transport_seq_num_accessor e \<noteq> None \<longrightarrow> phase d e \<in> {2, 5})"
proof (intro conjI impI)
  assume l: "phase d e < phase d' e'"
  from rank_in_phase [of d e] rank_in_phase [of d' e'] phases_apart [OF l]
  show "rank (type_order d e) < rank (type_order d' e')" by auto
next
  assume s: "transport_seq_num_accessor e \<noteq> None"
  then obtain r where r: "e = Rtp r" by (cases e) auto
  show "phase d e \<in> {2, 5}" unfolding r by (cases r) auto
qed

theorem type_order_respects_phases_witness:
  "rank (type_order kIncomingPacket (Rtcp LoggedRtcpPacketNack)) <
   rank (type_order kOutgoingPacket (Rtcp LoggedRtcpPacketNack))"
  using type_order_respects_phases [of kIncomingPacket "Rtcp LoggedRtcpPacketNack" kOutgoingPacket
      "Rtcp LoggedRtcpPacketNack"] by simp

section \<open>Runs of the processor\<close>

text \<open>
  Lists are added and their elements handled, in any order: which list \<^verbatim>\<open>ProcessNext\<close> is called on is not
  decided in the headers, so it is left open.
\<close>

datatype 'a processor_op = Add PacketDirection "'a list" | Next nat

fun processor_step :: "('a \<Rightarrow> logged_event) \<Rightarrow> 'a processor_op \<Rightarrow> 'a processor \<Rightarrow> abort + 'a processor" where
  "processor_step kind (Add d xs) p = AddEvents kind d xs p"
| "processor_step kind (Next i) p = ProcessNext i p"

fun processor_run :: "('a \<Rightarrow> logged_event) \<Rightarrow> 'a processor_op list \<Rightarrow> 'a processor \<Rightarrow> abort + 'a processor" where
  "processor_run kind [] p = Inr p"
| "processor_run kind (x # xs) p = bindE (processor_step kind x p) (processor_run kind xs)"

text \<open>The lists a run adds: an empty one is not kept.\<close>

fun additions :: "'a processor_op list \<Rightarrow> (PacketDirection \<times> 'a list) list" where
  "additions [] = []"
| "additions (Add d xs # ops) = (if xs = [] then [] else [(d, xs)]) @ additions ops"
| "additions (Next i # ops) = additions ops"

definition handled_from :: "nat \<Rightarrow> 'a processor \<Rightarrow> 'a list" where
  "handled_from i p = map snd (filter (\<lambda>x. fst x = i) (handled p))"

definition list_of :: "nat \<Rightarrow> 'a processor \<Rightarrow> 'a list" where
  "list_of i p = pending (event_lists p ! i)"

definition list_exact ::
  "('a \<Rightarrow> logged_event) \<Rightarrow> (PacketDirection \<times> 'a list) list \<Rightarrow> 'a processor \<Rightarrow> nat \<Rightarrow> bool" where
  "list_exact kind ads p i \<longleftrightarrow>
     (case ads ! i of (d, xs) \<Rightarrow>
        handled_from i p @ list_of i p = xs \<and>
        GetTypeOrder (event_lists p ! i) = rank (type_order d (kind (hd xs))) \<and>
        GetInsertionOrder (event_lists p ! i) = int i \<and>
        list_seq_num (event_lists p ! i) = transport_seq_num_accessor \<circ> kind)"

definition lists_inv :: "('a \<Rightarrow> logged_event) \<Rightarrow> (PacketDirection \<times> 'a list) list \<Rightarrow> 'a processor \<Rightarrow> bool" where
  "lists_inv kind ads p \<longleftrightarrow>
     length (event_lists p) = length ads \<and> num_insertions p = int (length ads) \<and>
     (\<forall>x\<in>set (handled p). fst x < length ads) \<and> (\<forall>i<length ads. list_exact kind ads p i)"

lemmas list_defs = list_exact_def handled_from_def list_of_def GetTypeOrder_def GetInsertionOrder_def

lemma ProcessNext_eq:
  "ProcessNext i p = Inr q \<longleftrightarrow> i < length (event_lists p) \<and> list_of i p \<noteq> [] \<and>
     q = p\<lparr>handled := handled p @ [(i, hd (list_of i p))],
           event_lists := (event_lists p)[i := (event_lists p ! i)\<lparr>pending := tl (list_of i p)\<rparr>]\<rparr>"
  by (auto simp: ProcessNext_def Let_def IsEmpty_def list_of_def)

lemma handled_from_none: "\<forall>x\<in>set (handled p). fst x < i \<Longrightarrow> handled_from i p = []"
  by (auto simp: handled_from_def filter_empty_conv)

lemma lists_inv_add:
  assumes inv: "lists_inv kind ads p" and a: "AddEvents kind d xs p = Inr q"
  shows "lists_inv kind (ads @ additions [Add d xs]) q"
proof (cases "xs = []")
  case False
  let ?l = "\<lparr>pending = xs, list_type_order = rank (type_order d (kind (hd xs))),
    list_seq_num = transport_seq_num_accessor \<circ> kind, list_insertion_order = num_insertions p\<rparr>"
  have q: "q = p\<lparr>num_insertions := num_insertions p + 1, event_lists := event_lists p @ [?l]\<rparr>"
    using a False by (simp add: AddEvents_def AddEvents_ordered_def split: if_splits)
  have n: "length (event_lists p) = length ads" "num_insertions p = int (length ads)"
    "\<forall>x\<in>set (handled p). fst x < length ads" using inv by (simp_all add: lists_inv_def)
  have "list_exact kind (ads @ [(d, xs)]) q i" if i: "i < Suc (length ads)" for i
  proof (cases "i < length ads")
    case True
    then have "list_exact kind ads p i" using inv by (simp add: lists_inv_def)
    with True n(1) show ?thesis by (simp add: list_defs q nth_append)
  next
    case new: False
    with i have "i = length ads" by simp
    with handled_from_none [OF n(3)] n(1,2) show ?thesis by (simp add: list_defs q nth_append)
  qed
  with n False show ?thesis by (auto simp: lists_inv_def q)
qed (use assms in \<open>simp add: AddEvents_def AddEvents_ordered_def\<close>)

lemma lists_inv_next:
  assumes inv: "lists_inv kind ads p" and s: "ProcessNext i p = Inr q"
  shows "lists_inv kind ads q"
proof -
  have i: "i < length (event_lists p)" "list_of i p \<noteq> []"
    and q: "q = p\<lparr>handled := handled p @ [(i, hd (list_of i p))],
           event_lists := (event_lists p)[i := (event_lists p ! i)\<lparr>pending := tl (list_of i p)\<rparr>]\<rparr>"
    using s by (simp_all add: ProcessNext_eq)
  have "list_exact kind ads q j" if "j < length ads" for j
  proof -
    have "list_exact kind ads p j" "length (event_lists p) = length ads" using inv that by (simp_all add: lists_inv_def)
    with i that show ?thesis by (cases "j = i") (auto simp: list_defs q nth_list_update)
  qed
  with inv i show ?thesis by (auto simp: lists_inv_def q)
qed

lemma lists_inv_run:
  "processor_run kind ops p = Inr q \<Longrightarrow> lists_inv kind ads p \<Longrightarrow> lists_inv kind (ads @ additions ops) q"
proof (induction ops arbitrary: p ads)
  case (Cons x ops)
  then obtain r where r: "processor_step kind x p = Inr r" "processor_run kind ops r = Inr q" by auto
  show ?case
  proof (cases x)
    case (Add d xs)
    with r(1) have "lists_inv kind (ads @ additions [Add d xs]) r" by (intro lists_inv_add [OF Cons.prems(2)]) simp
    from Cons.IH [OF r(2) this] Add show ?thesis by (cases "xs = []") simp_all
  next
    case (Next i)
    with r(1) have "lists_inv kind ads r" by (intro lists_inv_next [OF Cons.prems(2)]) simp
    from Cons.IH [OF r(2) this] Next show ?thesis by simp
  qed
qed simp

text \<open>
  After any run from a new processor there is one list per non-empty addition, in the order of the additions and with
  that position as its insertion order; each carries the rank of its class and direction; and its elements have been handled in
  the list's order, none skipped or repeated, with the rest pending. Asking a list for its next element, its time or its
  sequence number aborts exactly when all its elements have been handled.
\<close>

theorem lists_handled_in_order:
  assumes "processor_run kind ops RtcEventProcessor = Inr p"
  shows "length (event_lists p) = length (additions ops) \<and>
    (\<forall>i<length (additions ops). list_exact kind (additions ops) p i \<and>
       ((\<exists>q. ProcessNext i p = Inr q) \<longleftrightarrow> handled_from i p \<noteq> snd (additions ops ! i)) \<and>
       ((\<exists>t. GetNextTime tm (event_lists p ! i) = Inr t) \<longleftrightarrow> handled_from i p \<noteq> snd (additions ops ! i)) \<and>
       ((\<exists>n. GetTransportSeqNum (event_lists p ! i) = Inr n) \<longleftrightarrow> handled_from i p \<noteq> snd (additions ops ! i)))"
proof -
  have "lists_inv kind [] RtcEventProcessor" by (simp add: lists_inv_def RtcEventProcessor_def)
  from lists_inv_run [OF assms this]
  have inv: "length (event_lists p) = length (additions ops)" "\<forall>i<length (additions ops). list_exact kind (additions ops) p i"
    by (simp_all add: lists_inv_def)
  have e: "handled_from i p \<noteq> snd (additions ops ! i) \<longleftrightarrow> list_of i p \<noteq> []" if "i < length (additions ops)" for i
  proof -
    have "handled_from i p @ list_of i p = snd (additions ops ! i)"
      using inv(2) that by (cases "additions ops ! i") (force simp: list_exact_def)
    then show ?thesis by (metis append_Nil2 append_self_conv)
  qed
  have n: "((\<exists>q. ProcessNext i p = Inr q) \<longleftrightarrow> list_of i p \<noteq> []) \<and>
      ((\<exists>t. GetNextTime tm (event_lists p ! i) = Inr t) \<longleftrightarrow> list_of i p \<noteq> []) \<and>
      ((\<exists>n. GetTransportSeqNum (event_lists p ! i) = Inr n) \<longleftrightarrow> list_of i p \<noteq> [])" if "i < length (event_lists p)" for i
    using that by (auto simp: ProcessNext_eq GetNextTime_def GetTransportSeqNum_def IsEmpty_def list_of_def)
  show ?thesis using inv e n by auto
qed

theorem lists_handled_in_order_witness:
  "\<exists>p. processor_run (\<lambda>_. Connectivity LoggedStartEvent)
       [Add kIncomingPacket [10, 30 :: int], Add kIncomingPacket [], Next 0, Add kIncomingPacket [20], Next 1, Next 0]
       RtcEventProcessor = Inr p \<and>
     length (event_lists p) = 2 \<and> (\<nexists>q. ProcessNext 0 p = Inr q)"
proof -
  let ?ops = "[Add kIncomingPacket [10, 30 :: int], Add kIncomingPacket [], Next 0, Add kIncomingPacket [20], Next 1, Next 0]"
  obtain p where p: "processor_run (\<lambda>_. Connectivity LoggedStartEvent) ?ops RtcEventProcessor = Inr p"
    and h: "handled p = [(0, 10), (1, 20), (0, 30)]"
    by (simp add: AddEvents_def AddEvents_ordered_def RtcEventProcessor_def ProcessNext_def IsEmpty_def Let_def)
  have "length (event_lists p) = 2" "(\<exists>q. ProcessNext 0 p = Inr q) \<longleftrightarrow> handled_from 0 p \<noteq> [10, 30]"
    using lists_handled_in_order [OF p] by auto
  then show ?thesis using p h by (auto simp: handled_from_def)
qed

end
