(* ===== verification/Array_View.thy ===== *)
theory Array_View
  imports Prelude
begin

text \<open>
  \<^verbatim>\<open>api/array_view.h\<close>: \<^verbatim>\<open>ArrayView\<close>, a pointer and a count that do not own the array. A pointer into an array
  is the index of its element, \<open>None\<close> the null pointer; the array itself is passed where elements are read
  or written. The size of a view is fixed by its type or variable.
\<close>

section \<open>Views\<close>

datatype extent = Fixed nat | Variable

record view =
  vextent :: extent
  vdata :: "nat option"
  vsize :: nat

definition dynamic_extent :: nat where
  "dynamic_extent = 2 ^ 64 - 1"

text \<open>The three base classes: fixed non-zero, fixed zero, variable.\<close>

definition ArrayViewBase :: "extent \<Rightarrow> nat option \<Rightarrow> nat \<Rightarrow> view" where
  "ArrayViewBase ext p n =
     (case ext of
        Fixed 0 \<Rightarrow> \<lparr>vextent = ext, vdata = None, vsize = 0\<rparr>
      | Fixed k \<Rightarrow> \<lparr>vextent = ext, vdata = p, vsize = k\<rparr>
      | Variable \<Rightarrow> \<lparr>vextent = ext, vdata = (if n = 0 then None else p), vsize = n\<rparr>)"

definition ArrayView :: "extent \<Rightarrow> nat option \<Rightarrow> nat \<Rightarrow> abort + view" where
  "ArrayView ext p n =
     (let v = ArrayViewBase ext p n
      in check ((if n = 0 then None else p) = vdata v) (check (n = vsize v)
           (check ((vdata v = None) = (vsize v = 0)) (Inr v))))"

definition ArrayView_null :: "extent \<Rightarrow> abort + view" where
  "ArrayView_null ext = ArrayView ext None 0"

definition ArrayView_null_size :: "extent \<Rightarrow> nat \<Rightarrow> abort + view" where
  "ArrayView_null_size ext n = bindE (ArrayView ext None n) (\<lambda>v. check (0 = n) (Inr v))"

text \<open>From a C array, a \<^verbatim>\<open>std::array\<close>, or any type with \<^verbatim>\<open>data()\<close> and \<^verbatim>\<open>size()\<close> that starts at \<open>p\<close>.\<close>

definition ArrayView_of :: "extent \<Rightarrow> nat option \<times> nat \<Rightarrow> abort + view" where
  "ArrayView_of ext u = ArrayView ext (fst u) (snd u)"

definition view_empty :: "view \<Rightarrow> bool" where
  "view_empty v = (case vextent v of Fixed 0 \<Rightarrow> True | Fixed k \<Rightarrow> False | Variable \<Rightarrow> vsize v = 0)"

section \<open>Access\<close>

definition pointer_add :: "nat option \<Rightarrow> nat \<Rightarrow> abort + nat option" where
  "pointer_add p k =
     (case p of Some i \<Rightarrow> Inr (Some (i + k)) | None \<Rightarrow> if k = 0 then Inr None else Inl OutOfBounds)"

definition element_index :: "view \<Rightarrow> nat \<Rightarrow> abort + nat" where
  "element_index v idx =
     check (idx < vsize v) (case vdata v of None \<Rightarrow> Inl CheckFailed | Some i \<Rightarrow> Inr (i + idx))"

definition load :: "'a list \<Rightarrow> nat \<Rightarrow> abort + 'a" where
  "load m i = (if i < length m then Inr (m ! i) else Inl OutOfBounds)"

definition view_get :: "'a list \<Rightarrow> view \<Rightarrow> nat \<Rightarrow> abort + 'a" where
  "view_get m v idx = bindE (element_index v idx) (load m)"

definition view_put :: "'a list \<Rightarrow> view \<Rightarrow> nat \<Rightarrow> 'a \<Rightarrow> abort + 'a list" where
  "view_put m v idx x =
     bindE (element_index v idx) (\<lambda>i. if i < length m then Inr (m[i := x]) else Inl OutOfBounds)"

definition view_begin :: "view \<Rightarrow> nat option" where
  "view_begin v = vdata v"

definition view_end :: "view \<Rightarrow> abort + nat option" where
  "view_end v = pointer_add (vdata v) (vsize v)"

text \<open>Iteration from \<^verbatim>\<open>begin()\<close> up to \<^verbatim>\<open>end()\<close>, and the reverse iterators from \<^verbatim>\<open>end()\<close> down to \<^verbatim>\<open>begin()\<close>.\<close>

fun load_range :: "'a list \<Rightarrow> nat \<Rightarrow> nat \<Rightarrow> abort + 'a list" where
  "load_range m i 0 = Inr []"
| "load_range m i (Suc n) = bindE (load m i) (\<lambda>x. bindE (load_range m (Suc i) n) (\<lambda>xs. Inr (x # xs)))"

definition iterate :: "'a list \<Rightarrow> view \<Rightarrow> abort + 'a list" where
  "iterate m v =
     bindE (view_end v) (\<lambda>e.
       case (view_begin v, e) of (Some b, Some e) \<Rightarrow> load_range m b (e - b) | _ \<Rightarrow> Inr [])"

definition iterate_reverse :: "'a list \<Rightarrow> view \<Rightarrow> abort + 'a list" where
  "iterate_reverse m v = bindE (iterate m v) (\<lambda>xs. Inr (rev xs))"

section \<open>Parts of a view\<close>

definition subspan :: "view \<Rightarrow> nat \<Rightarrow> nat \<Rightarrow> abort + view" where
  "subspan v offset count =
     check (offset \<le> vsize v)
       (let n = (if count = dynamic_extent then vsize v - offset else count)
        in check (count = dynamic_extent \<or> count \<le> vsize v - offset)
             (bindE (pointer_add (vdata v) offset) (\<lambda>p. ArrayView Variable p n)))"

definition subview :: "view \<Rightarrow> nat \<Rightarrow> nat \<Rightarrow> abort + view" where
  "subview v offset n =
     (if offset < vsize v
      then bindE (pointer_add (vdata v) offset) (\<lambda>p. ArrayView Variable p (min n (vsize v - offset)))
      else ArrayView_null Variable)"

definition subview_from :: "view \<Rightarrow> nat \<Rightarrow> abort + view" where
  "subview_from v offset = subview v offset (vsize v)"

definition view_eq :: "view \<Rightarrow> view \<Rightarrow> bool" where
  "view_eq a b \<longleftrightarrow> vdata a = vdata b \<and> vsize a = vsize b"

definition MakeArrayView :: "nat option \<Rightarrow> nat \<Rightarrow> abort + view" where
  "MakeArrayView p n = ArrayView Variable p n"

definition reinterpret_array_view :: "view \<Rightarrow> abort + view" where
  "reinterpret_array_view v = ArrayView (vextent v) (vdata v) (vsize v)"

section \<open>Well-formed views and what they show\<close>

definition view_wf :: "view \<Rightarrow> bool" where
  "view_wf v \<longleftrightarrow> (vdata v = None \<longleftrightarrow> vsize v = 0) \<and> (\<forall>k. vextent v = Fixed k \<longrightarrow> vsize v = k)"

text \<open>The view lies within the array.\<close>

definition view_in :: "'a list \<Rightarrow> view \<Rightarrow> bool" where
  "view_in m v \<longleftrightarrow> view_wf v \<and> (\<forall>i. vdata v = Some i \<longrightarrow> i + vsize v \<le> length m)"

definition shown :: "'a list \<Rightarrow> view \<Rightarrow> 'a list" where
  "shown m v = (case vdata v of None \<Rightarrow> [] | Some i \<Rightarrow> take (vsize v) (drop i m))"

lemma ArrayView_outcome:
  "ArrayView ext p n =
     (if (\<forall>k. ext = Fixed k \<longrightarrow> n = k) \<and> (p = None \<longrightarrow> n = 0)
      then Inr \<lparr>vextent = ext, vdata = (if n = 0 then None else p), vsize = n\<rparr> else Inl CheckFailed)"
  by (auto simp: ArrayView_def ArrayViewBase_def Let_def check_def split: extent.split nat.split)

lemma ArrayView_wf: "ArrayView ext p n = Inr v \<Longrightarrow> view_wf v"
  by (auto simp: ArrayView_outcome view_wf_def split: if_splits)

lemma view_wfE:
  assumes "view_wf v"
  obtains "vdata v = None" "vsize v = 0" | i where "vdata v = Some i" "0 < vsize v"
  using assms by (cases "vdata v") (auto simp: view_wf_def)

lemma length_shown: "view_in m v \<Longrightarrow> length (shown m v) = vsize v"
  by (auto simp: view_in_def shown_def view_wf_def split: option.split)

lemma load_range_all: "i + n \<le> length m \<Longrightarrow> load_range m i n = Inr (take n (drop i m))"
proof (induction n arbitrary: i)
  case (Suc n)
  then have "drop i m = m ! i # drop (Suc i) m" by (simp add: Cons_nth_drop_Suc)
  with Suc show ?case by (simp add: load_def)
qed simp

lemma subview_shown:
  assumes "view_in m v"
  shows "\<exists>w. subview v off n = Inr w \<and> view_in m w \<and> shown m w = take n (drop off (shown m v))"
proof (cases "off < vsize v")
  case True
  with assms obtain i where i: "vdata v = Some i" "i + vsize v \<le> length m"
    by (cases "vdata v") (auto simp: view_in_def view_wf_def)
  with True show ?thesis
    by (auto simp: subview_def pointer_add_def ArrayView_outcome view_in_def view_wf_def shown_def drop_take
        min_def add.commute)
next
  case False
  with assms length_shown [OF assms] show ?thesis
    by (auto simp: subview_def ArrayView_null_def ArrayView_outcome view_in_def view_wf_def shown_def)
qed

lemma subspan_shown:
  assumes "view_in m v"
  shows "subspan v off cnt =
    (if off \<le> vsize v \<and> (cnt = dynamic_extent \<or> off + cnt \<le> vsize v)
     then subview v off (if cnt = dynamic_extent then vsize v else cnt) else Inl CheckFailed)"
proof -
  from assms have "view_wf v" by (simp add: view_in_def)
  then show ?thesis
    by (cases rule: view_wfE)
      (auto simp: subspan_def subview_def ArrayView_null_def pointer_add_def ArrayView_outcome Let_def min_def check_def)
qed

text \<open>
  Views slice arrays. On a view that lies within an array: element access succeeds exactly below
  the view's size and reads the element shown there; a write changes that element of the array and no other;
  iteration in both directions gives the elements shown; \<^verbatim>\<open>subview\<close> never fails and shows the requested part,
  cut off at the end of the view; \<^verbatim>\<open>subspan\<close> fails exactly when the requested part is not inside the view, and
  otherwise agrees with \<^verbatim>\<open>subview\<close>.
\<close>

theorem array_view_slices:
  assumes "view_in m v"
  shows "view_get m v i = (if i < vsize v then Inr (shown m v ! i) else Inl CheckFailed) \<and>
    (i < vsize v \<longrightarrow> (\<exists>m'. view_put m v i x = Inr m' \<and> length m' = length m \<and> view_in m' v \<and>
      shown m' v = (shown m v)[i := x] \<and> (\<forall>j<length m. vdata v \<noteq> None \<and> j \<noteq> the (vdata v) + i \<longrightarrow> m' ! j = m ! j))) \<and>
    iterate m v = Inr (shown m v) \<and> iterate_reverse m v = Inr (rev (shown m v)) \<and>
    (\<exists>w. subview v off n = Inr w \<and> view_in m w \<and> shown m w = take n (drop off (shown m v))) \<and>
    subspan v off cnt =
      (if off \<le> vsize v \<and> (cnt = dynamic_extent \<or> off + cnt \<le> vsize v)
       then subview v off (if cnt = dynamic_extent then vsize v else cnt) else Inl CheckFailed)"
proof (intro conjI subview_shown [OF assms] subspan_shown [OF assms])
  from assms have wf: "view_wf v" by (simp add: view_in_def)
  show "view_get m v i = (if i < vsize v then Inr (shown m v ! i) else Inl CheckFailed)"
    using wf assms by (cases rule: view_wfE)
      (auto simp: view_get_def element_index_def load_def shown_def view_in_def)
  show "i < vsize v \<longrightarrow> (\<exists>m'. view_put m v i x = Inr m' \<and> length m' = length m \<and> view_in m' v \<and>
      shown m' v = (shown m v)[i := x] \<and> (\<forall>j<length m. vdata v \<noteq> None \<and> j \<noteq> the (vdata v) + i \<longrightarrow> m' ! j = m ! j))"
    using wf assms by (cases rule: view_wfE)
      (auto simp: view_put_def element_index_def shown_def view_in_def drop_update_swap take_update_swap)
  show it: "iterate m v = Inr (shown m v)"
    using wf assms by (cases rule: view_wfE)
      (auto simp: iterate_def view_end_def view_begin_def pointer_add_def shown_def view_in_def load_range_all)
  show "iterate_reverse m v = Inr (rev (shown m v))" by (simp add: iterate_reverse_def it)
qed

theorem array_view_slices_witness:
  "\<exists>v w. ArrayView (Fixed 3) (Some 1) 3 = Inr v \<and> subview v 1 9 = Inr w \<and> shown [7, 8, 9, 10, 11 :: int] w = [9, 10]"
proof -
  let ?v = "\<lparr>vextent = Fixed 3, vdata = Some 1, vsize = 3\<rparr>"
  have 1: "ArrayView (Fixed 3) (Some 1) 3 = Inr ?v" by (simp add: ArrayView_outcome)
  have "view_in [7, 8, 9, 10, 11 :: int] ?v"
    by (simp add: view_in_def view_wf_def)
  from array_view_slices [OF this, of 0 0 1 9 0] 1 show ?thesis by (auto simp: shown_def)
qed

end
