(* ===== verification/Inline_Vector.thy ===== *)
theory Inline_Vector
  imports Prelude
begin

text \<open>
  \<^verbatim>\<open>rtc_base/bounded_inline_vector.h\<close> and \<^verbatim>\<open>bounded_inline_vector_impl.h\<close>: a vector of constant capacity that keeps its
  elements inline and constructs and destroys them by hand. A cell is raw memory or holds a live object; for
  element types with a trivial life cycle (\<open>tr\<close>) memory may be copied and overwritten freely, for the others
  constructing over a live object and destroying raw memory are failures. \<open>husk\<close> is what a move leaves in its source.
\<close>

section \<open>Cells and element loops\<close>

datatype 'a cell = Raw | Live 'a

definition construct :: "bool \<Rightarrow> nat \<Rightarrow> 'a \<Rightarrow> 'a cell list \<Rightarrow> abort + 'a cell list" where
  "construct tr i x cs =
     (if length cs \<le> i then Inl OutOfBounds
      else if \<not> tr \<and> cs ! i \<noteq> Raw then Inl BadLifetime
      else Inr (cs[i := Live x]))"

definition destroy :: "nat \<Rightarrow> 'a cell list \<Rightarrow> abort + 'a cell list" where
  "destroy i cs =
     (if length cs \<le> i then Inl OutOfBounds
      else if cs ! i = Raw then Inl BadLifetime
      else Inr (cs[i := Raw]))"

fun InitializeElements :: "bool \<Rightarrow> nat \<Rightarrow> 'a list \<Rightarrow> 'a cell list \<Rightarrow> abort + 'a cell list" where
  "InitializeElements tr i [] cs = Inr cs"
| "InitializeElements tr i (x # xs) cs = bindE (construct tr i x cs) (InitializeElements tr (Suc i) xs)"

text \<open>Default initialisation of a trivial type leaves an indeterminate value.\<close>

definition default_construct :: "bool \<Rightarrow> 'a \<Rightarrow> nat \<Rightarrow> 'a cell list \<Rightarrow> abort + 'a cell list" where
  "default_construct tr d i cs = bindE (construct tr i d cs) (\<lambda>cs. Inr (if tr then cs[i := Raw] else cs))"

fun DefaultInitializeElements :: "bool \<Rightarrow> 'a \<Rightarrow> nat \<Rightarrow> nat \<Rightarrow> 'a cell list \<Rightarrow> abort + 'a cell list" where
  "DefaultInitializeElements tr d i 0 cs = Inr cs"
| "DefaultInitializeElements tr d i (Suc n) cs =
     bindE (default_construct tr d i cs) (DefaultInitializeElements tr d (Suc i) n)"

definition copy_cell :: "bool \<Rightarrow> nat \<Rightarrow> 'a cell list \<Rightarrow> 'a cell list \<Rightarrow> abort + 'a cell list" where
  "copy_cell tr i src dst =
     (if length src \<le> i \<or> length dst \<le> i then Inl OutOfBounds
      else case src ! i of
        Live x \<Rightarrow> construct tr i x dst
      | Raw \<Rightarrow> if tr then Inr (dst[i := Raw]) else Inl BadLifetime)"

fun CopyElements :: "bool \<Rightarrow> 'a cell list \<Rightarrow> nat \<Rightarrow> nat \<Rightarrow> 'a cell list \<Rightarrow> abort + 'a cell list" where
  "CopyElements tr src i 0 dst = Inr dst"
| "CopyElements tr src i (Suc n) dst = bindE (copy_cell tr i src dst) (CopyElements tr src (Suc i) n)"

text \<open>The source after a move, and the destination.\<close>

definition move_source :: "bool \<Rightarrow> ('a \<Rightarrow> 'a) \<Rightarrow> nat \<Rightarrow> 'a cell list \<Rightarrow> 'a cell list" where
  "move_source tr husk n src =
     (if tr then src else map (\<lambda>c. case c of Raw \<Rightarrow> Raw | Live x \<Rightarrow> Live (husk x)) (take n src) @ drop n src)"

definition MoveElements ::
  "bool \<Rightarrow> ('a \<Rightarrow> 'a) \<Rightarrow> 'a cell list \<Rightarrow> nat \<Rightarrow> 'a cell list \<Rightarrow> abort + ('a cell list \<times> 'a cell list)" where
  "MoveElements tr husk src n dst =
     bindE (CopyElements tr src 0 n dst) (\<lambda>dst. Inr (move_source tr husk n src, dst))"

fun DestroyElements :: "bool \<Rightarrow> nat \<Rightarrow> nat \<Rightarrow> 'a cell list \<Rightarrow> abort + 'a cell list" where
  "DestroyElements tr i 0 cs = Inr cs"
| "DestroyElements tr i (Suc n) cs =
     (if tr then Inr cs else bindE (destroy i cs) (DestroyElements tr (Suc i) n))"

section \<open>Storage\<close>

text \<open>The three storage kinds: non-trivial, trivial and small (copied whole), trivial and large.\<close>

datatype storage_kind = Nontrivial | TrivialSmall | TrivialLarge

definition trivial :: "storage_kind \<Rightarrow> bool" where
  "trivial k \<longleftrightarrow> k \<noteq> Nontrivial"

record 'a storage =
  ssize :: int
  sdata :: "'a cell list"

definition blank :: "nat \<Rightarrow> 'a cell list" where
  "blank cap = replicate cap Raw"

definition Storage_of :: "storage_kind \<Rightarrow> nat \<Rightarrow> 'a list \<Rightarrow> abort + 'a storage" where
  "Storage_of k cap xs =
     bindE (InitializeElements (trivial k) 0 xs (blank cap)) (\<lambda>cs. Inr \<lparr>ssize = int (length xs), sdata = cs\<rparr>)"

definition Storage_copy :: "storage_kind \<Rightarrow> 'a storage \<Rightarrow> abort + 'a storage" where
  "Storage_copy k other =
     (if k = TrivialSmall then Inr other
      else bindE (CopyElements (trivial k) (sdata other) 0 (nat (ssize other)) (blank (length (sdata other))))
             (\<lambda>cs. Inr \<lparr>ssize = ssize other, sdata = cs\<rparr>))"

text \<open>The new object and the source. The trivial kinds declare no move and copy instead.\<close>

definition Storage_move ::
  "storage_kind \<Rightarrow> ('a \<Rightarrow> 'a) \<Rightarrow> 'a storage \<Rightarrow> abort + ('a storage \<times> 'a storage)" where
  "Storage_move k husk other =
     (if k \<noteq> Nontrivial then bindE (Storage_copy k other) (\<lambda>s. Inr (s, other))
      else bindE (MoveElements False husk (sdata other) (nat (ssize other)) (blank (length (sdata other))))
             (\<lambda>(src, cs). Inr (\<lparr>ssize = ssize other, sdata = cs\<rparr>, other\<lparr>sdata := src\<rparr>)))"

text \<open>Assignment between two objects. Self-assignment by copy returns at once.\<close>

definition Storage_copy_assign :: "storage_kind \<Rightarrow> 'a storage \<Rightarrow> 'a storage \<Rightarrow> abort + 'a storage" where
  "Storage_copy_assign k this other =
     (case k of
        TrivialSmall \<Rightarrow> Inr other
      | TrivialLarge \<Rightarrow>
          bindE (CopyElements True (sdata other) 0 (nat (ssize other)) (sdata this))
            (\<lambda>cs. Inr \<lparr>ssize = ssize other, sdata = cs\<rparr>)
      | Nontrivial \<Rightarrow>
          bindE (DestroyElements False 0 (nat (ssize this)) (sdata this)) (\<lambda>cs.
          bindE (CopyElements False (sdata other) 0 (nat (ssize other)) cs) (\<lambda>cs.
            Inr \<lparr>ssize = ssize other, sdata = cs\<rparr>)))"

definition Storage_move_assign ::
  "storage_kind \<Rightarrow> ('a \<Rightarrow> 'a) \<Rightarrow> 'a storage \<Rightarrow> 'a storage \<Rightarrow> abort + ('a storage \<times> 'a storage)" where
  "Storage_move_assign k husk this other =
     (if k \<noteq> Nontrivial then bindE (Storage_copy_assign k this other) (\<lambda>s. Inr (s, other))
      else bindE (DestroyElements False 0 (nat (ssize this)) (sdata this)) (\<lambda>cs.
           bindE (MoveElements False husk (sdata other) (nat (ssize other)) cs) (\<lambda>(src, cs).
             Inr (\<lparr>ssize = ssize other, sdata = cs\<rparr>, other\<lparr>sdata := src\<rparr>))))"

text \<open>Self-assignment by move: the elements are destroyed and the emptied storage is moved onto itself.\<close>

definition Storage_move_self :: "('a \<Rightarrow> 'a) \<Rightarrow> 'a storage \<Rightarrow> abort + 'a storage" where
  "Storage_move_self husk s =
     bindE (DestroyElements False 0 (nat (ssize s)) (sdata s)) (\<lambda>cs.
     bindE (MoveElements False husk cs (nat 0) cs) (\<lambda>(src, cs). Inr \<lparr>ssize = 0, sdata = cs\<rparr>))"

definition Storage_destroy :: "storage_kind \<Rightarrow> 'a storage \<Rightarrow> abort + 'a storage" where
  "Storage_destroy k s =
     bindE (DestroyElements (trivial k) 0 (nat (ssize s)) (sdata s)) (\<lambda>cs. Inr (s\<lparr>sdata := cs\<rparr>))"

section \<open>The vector\<close>

definition BoundedInlineVector_convert :: "storage_kind \<Rightarrow> nat \<Rightarrow> 'a storage \<Rightarrow> abort + 'a storage" where
  "BoundedInlineVector_convert k cap other =
     check (ssize other \<le> int cap)
       (bindE (CopyElements (trivial k) (sdata other) 0 (nat (ssize other)) (blank cap))
         (\<lambda>cs. Inr \<lparr>ssize = ssize other, sdata = cs\<rparr>))"

definition BoundedInlineVector_convert_move ::
  "storage_kind \<Rightarrow> ('a \<Rightarrow> 'a) \<Rightarrow> nat \<Rightarrow> 'a storage \<Rightarrow> abort + ('a storage \<times> 'a storage)" where
  "BoundedInlineVector_convert_move k husk cap other =
     check (ssize other \<le> int cap)
       (bindE (MoveElements (trivial k) husk (sdata other) (nat (ssize other)) (blank cap))
         (\<lambda>(src, cs). Inr (\<lparr>ssize = ssize other, sdata = cs\<rparr>, other\<lparr>sdata := src\<rparr>)))"

definition BoundedInlineVector_assign :: "storage_kind \<Rightarrow> 'a storage \<Rightarrow> 'a storage \<Rightarrow> abort + 'a storage" where
  "BoundedInlineVector_assign k this other =
     bindE (DestroyElements (trivial k) 0 (nat (ssize this)) (sdata this)) (\<lambda>cs.
     check (ssize other \<le> int (length (sdata this)))
       (bindE (CopyElements (trivial k) (sdata other) 0 (nat (ssize other)) cs)
         (\<lambda>cs. Inr \<lparr>ssize = ssize other, sdata = cs\<rparr>)))"

definition BoundedInlineVector_move_assign ::
  "storage_kind \<Rightarrow> ('a \<Rightarrow> 'a) \<Rightarrow> 'a storage \<Rightarrow> 'a storage \<Rightarrow> abort + ('a storage \<times> 'a storage)" where
  "BoundedInlineVector_move_assign k husk this other =
     bindE (DestroyElements (trivial k) 0 (nat (ssize this)) (sdata this)) (\<lambda>cs.
     check (ssize other \<le> int (length (sdata this)))
       (bindE (MoveElements (trivial k) husk (sdata other) (nat (ssize other)) cs)
         (\<lambda>(src, cs). Inr (\<lparr>ssize = ssize other, sdata = cs\<rparr>, other\<lparr>sdata := src\<rparr>))))"

definition resize :: "storage_kind \<Rightarrow> 'a \<Rightarrow> int \<Rightarrow> 'a storage \<Rightarrow> abort + 'a storage" where
  "resize k d new_size s =
     check (0 \<le> new_size) (check (new_size \<le> int (length (sdata s)))
       (bindE
         (if ssize s < new_size
          then DefaultInitializeElements (trivial k) d (nat (ssize s)) (nat (new_size - ssize s)) (sdata s)
          else if new_size < ssize s
          then DestroyElements (trivial k) (nat new_size) (nat (ssize s - new_size)) (sdata s)
          else Inr (sdata s))
         (\<lambda>cs. Inr \<lparr>ssize = new_size, sdata = cs\<rparr>)))"

definition vector_at :: "'a storage \<Rightarrow> int \<Rightarrow> abort + 'a cell" where
  "vector_at s i = check (0 \<le> i) (check (i < ssize s)
     (if nat i < length (sdata s) then Inr (sdata s ! nat i) else Inl OutOfBounds))"

section \<open>The loops on a segment of memory\<close>

lemma copy_segment:
  "length S = i \<Longrightarrow> length A = i \<Longrightarrow> length D = length Y \<Longrightarrow> tr \<or> Raw \<notin> set Y \<and> set D \<subseteq> {Raw} \<Longrightarrow>
   CopyElements tr (S @ Y @ T) i (length Y) (A @ D @ R) = Inr (A @ Y @ R)"
proof (induction Y arbitrary: i S A D)
  case (Cons y Y)
  from Cons.prems(3) obtain d D' where D: "D = d # D'" by (cases D) auto
  have "copy_cell tr i (S @ (y # Y) @ T) (A @ D @ R) = Inr ((A @ [y]) @ D' @ R)"
    using Cons.prems by (cases y) (auto simp: copy_cell_def construct_def nth_append D list_update_append)
  with Cons.IH [of "S @ [y]" "Suc i" "A @ [y]" D'] Cons.prems show ?case by (auto simp: D)
qed simp

lemma init_segment:
  "length A = i \<Longrightarrow> length D = length xs \<Longrightarrow> tr \<or> set D \<subseteq> {Raw} \<Longrightarrow>
   InitializeElements tr i xs (A @ D @ R) = Inr (A @ map Live xs @ R)"
proof (induction xs arbitrary: i A D)
  case (Cons x xs)
  from Cons.prems(2) obtain d D' where D: "D = d # D'" by (cases D) auto
  have "construct tr i x (A @ D @ R) = Inr ((A @ [Live x]) @ D' @ R)"
    using Cons.prems by (auto simp: construct_def nth_append D list_update_append)
  with Cons.IH [of "A @ [Live x]" "Suc i" D'] Cons.prems show ?case by (auto simp: D)
qed simp

lemma default_segment:
  "length A = i \<Longrightarrow> tr \<or> set D \<subseteq> {Raw} \<Longrightarrow>
   DefaultInitializeElements tr d i (length D) (A @ D @ R) =
     Inr (A @ replicate (length D) (if tr then Raw else Live d) @ R)"
proof (induction D arbitrary: i A)
  case (Cons c D)
  let ?c = "if tr then Raw else Live d"
  have "default_construct tr d i (A @ (c # D) @ R) = Inr ((A @ [?c]) @ D @ R)"
    using Cons.prems by (auto simp: default_construct_def construct_def nth_append list_update_append)
  with Cons.IH [of "A @ [?c]" "Suc i"] Cons.prems show ?case by auto
qed simp

lemma destroy_segment:
  "length A = i \<Longrightarrow> Raw \<notin> set Y \<Longrightarrow>
   DestroyElements False i (length Y) (A @ Y @ R) = Inr (A @ replicate (length Y) Raw @ R)"
proof (induction Y arbitrary: i A)
  case (Cons y Y)
  have "destroy i (A @ (y # Y) @ R) = Inr ((A @ [Raw]) @ Y @ R)"
    using Cons.prems by (auto simp: destroy_def nth_append list_update_append)
  with Cons.IH [of "A @ [Raw]" "Suc i"] Cons.prems show ?case by simp
qed simp

lemma destroy_trivial [simp]: "DestroyElements True i n cs = Inr cs"
  by (cases n) simp_all

section \<open>The storage invariant\<close>

text \<open>The first \<open>ssize\<close> cells are the elements; of a non-trivial type they are alive and the rest is raw.\<close>

definition velems :: "'a storage \<Rightarrow> 'a cell list" where
  "velems s = take (nat (ssize s)) (sdata s)"

definition vec_ok :: "storage_kind \<Rightarrow> nat \<Rightarrow> 'a storage \<Rightarrow> bool" where
  "vec_ok k cap s \<longleftrightarrow> 0 \<le> ssize s \<and> nat (ssize s) \<le> cap \<and> length (sdata s) = cap \<and>
     (k = Nontrivial \<longrightarrow> Raw \<notin> set (velems s) \<and> set (drop (nat (ssize s)) (sdata s)) \<subseteq> {Raw})"

lemma vec_ok_split:
  assumes "vec_ok k cap s"
  obtains D where "sdata s = velems s @ D" "length (velems s) = nat (ssize s)" "length D = cap - nat (ssize s)"
    "k = Nontrivial \<Longrightarrow> Raw \<notin> set (velems s) \<and> set D \<subseteq> {Raw}"
  using assms by (intro that [of "drop (nat (ssize s)) (sdata s)"]) (auto simp: vec_ok_def velems_def)

lemma vec_okI:
  "k = Nontrivial \<longrightarrow> Raw \<notin> set Y \<and> set R \<subseteq> {Raw} \<Longrightarrow> n = int (length Y) \<Longrightarrow> cap = length Y + length R \<Longrightarrow>
   vec_ok k cap \<lparr>ssize = n, sdata = Y @ R\<rparr> \<and> velems \<lparr>ssize = n, sdata = Y @ R\<rparr> = Y"
  by (auto simp: vec_ok_def velems_def)

lemma copy_into:
  assumes ok: "vec_ok k c other" and D: "length cs = cap" "nat (ssize other) \<le> cap"
    and raw: "k = Nontrivial \<longrightarrow> set cs \<subseteq> {Raw}"
  shows "\<exists>t. CopyElements (trivial k) (sdata other) 0 (nat (ssize other)) cs = Inr t \<and>
    vec_ok k cap \<lparr>ssize = ssize other, sdata = t\<rparr> \<and> velems \<lparr>ssize = ssize other, sdata = t\<rparr> = velems other"
proof -
  obtain R where o: "sdata other = velems other @ R" "length (velems other) = nat (ssize other)"
    "k = Nontrivial \<Longrightarrow> Raw \<notin> set (velems other) \<and> set R \<subseteq> {Raw}" using vec_ok_split [OF ok] by metis
  let ?n = "nat (ssize other)"
  have cs: "cs = [] @ take ?n cs @ drop ?n cs" by simp
  have sub: "set (take ?n cs) \<subseteq> set cs" "set (drop ?n cs) \<subseteq> set cs" by (rule set_take_subset set_drop_subset)+
  have "CopyElements (trivial k) ([] @ velems other @ R) 0 (length (velems other)) ([] @ take ?n cs @ drop ?n cs)
      = Inr ([] @ velems other @ drop ?n cs)"
    using o D raw sub by (intro copy_segment) (auto simp: trivial_def)
  moreover have "vec_ok k cap \<lparr>ssize = ssize other, sdata = velems other @ drop ?n cs\<rparr> \<and>
      velems \<lparr>ssize = ssize other, sdata = velems other @ drop ?n cs\<rparr> = velems other"
    using o D raw sub ok by (intro vec_okI) (auto simp: vec_ok_def)
  ultimately show ?thesis using o by auto
qed

lemma destroyed:
  assumes "vec_ok k cap s"
  shows "\<exists>cs. DestroyElements (trivial k) 0 (nat (ssize s)) (sdata s) = Inr cs \<and> length cs = cap \<and>
    (k = Nontrivial \<longrightarrow> set cs \<subseteq> {Raw}) \<and> (k \<noteq> Nontrivial \<longrightarrow> cs = sdata s)"
proof (cases "k = Nontrivial")
  case True
  obtain D where s: "sdata s = velems s @ D" "length (velems s) = nat (ssize s)" "length D = cap - nat (ssize s)"
    "Raw \<notin> set (velems s)" "set D \<subseteq> {Raw}" using vec_ok_split [OF assms] True by metis
  from destroy_segment [of "[]" 0 "velems s" D] s True assms show ?thesis
    by (auto simp: trivial_def vec_ok_def)
next
  case False
  with assms show ?thesis by (simp add: trivial_def vec_ok_def)
qed

lemma blank_facts [simp]: "length (blank cap) = cap" "set (blank cap) \<subseteq> {Raw}"
  by (auto simp: blank_def)

lemma moved_source:
  assumes "vec_ok k cap s"
  shows "vec_ok k cap (s\<lparr>sdata := move_source (trivial k) husk (nat (ssize s)) (sdata s)\<rparr>)"
proof -
  let ?f = "\<lambda>c. case c of Raw \<Rightarrow> Raw | Live x \<Rightarrow> Live (husk x)"
  have "Raw \<notin> ?f ` C" if "Raw \<notin> C" for C using that by (auto split: cell.splits)
  with assms show ?thesis by (auto simp: vec_ok_def velems_def move_source_def trivial_def)
qed

section \<open>What each operation does\<close>

lemma Storage_of_law:
  assumes "length xs \<le> cap"
  shows "\<exists>t. Storage_of k cap xs = Inr t \<and> vec_ok k cap t \<and> velems t = map Live xs"
proof -
  have b: "blank cap = [] @ replicate (length xs) Raw @ replicate (cap - length xs) Raw"
    using assms by (simp add: blank_def flip: replicate_add)
  have "InitializeElements (trivial k) 0 xs (blank cap) = Inr ([] @ map Live xs @ replicate (cap - length xs) Raw)"
    unfolding b by (intro init_segment) auto
  moreover have "vec_ok k cap \<lparr>ssize = int (length xs), sdata = map Live xs @ replicate (cap - length xs) Raw\<rparr> \<and>
      velems \<lparr>ssize = int (length xs), sdata = map Live xs @ replicate (cap - length xs) Raw\<rparr> = map Live xs"
    using assms by (intro vec_okI) auto
  ultimately show ?thesis by (auto simp: Storage_of_def)
qed

lemma resize_law:
  assumes ok: "vec_ok k cap s" and n: "0 \<le> n" "n \<le> int cap"
  shows "\<exists>t. resize k d n s = Inr t \<and> vec_ok k cap t \<and>
    velems t = take (nat n) (velems s) @ replicate (nat n - nat (ssize s)) (if trivial k then Raw else Live d)"
proof -
  obtain D where s: "sdata s = velems s @ D" "length (velems s) = nat (ssize s)" "length D = cap - nat (ssize s)"
    "k = Nontrivial \<Longrightarrow> Raw \<notin> set (velems s) \<and> set D \<subseteq> {Raw}" using vec_ok_split [OF ok] by metis
  have z: "0 \<le> ssize s" "length (sdata s) = cap" "nat (ssize s) \<le> cap" using ok by (simp_all add: vec_ok_def)
  let ?c = "if trivial k then Raw else Live d"
  have grow: "\<exists>t. resize k d n s = Inr t \<and> vec_ok k cap t \<and> velems t = velems s @ replicate (nat n - nat (ssize s)) ?c"
    if "ssize s < n"
  proof -
    let ?m = "nat n - nat (ssize s)"
    have m: "nat (n - ssize s) = ?m" "?m \<le> length D" using that z n s(3) by auto
    have sub: "set (take ?m D) \<subseteq> set D" "set (drop ?m D) \<subseteq> set D" by (rule set_take_subset set_drop_subset)+
    have "DefaultInitializeElements (trivial k) d (nat (ssize s)) (length (take ?m D)) (velems s @ take ?m D @ drop ?m D)
        = Inr (velems s @ replicate (length (take ?m D)) ?c @ drop ?m D)"
      using s sub by (intro default_segment) (auto simp: trivial_def)
    then have "resize k d n s = Inr \<lparr>ssize = n, sdata = (velems s @ replicate ?m ?c) @ drop ?m D\<rparr>"
      using that n z m s(1) by (simp add: resize_def)
    moreover have "vec_ok k cap \<lparr>ssize = n, sdata = (velems s @ replicate ?m ?c) @ drop ?m D\<rparr> \<and>
        velems \<lparr>ssize = n, sdata = (velems s @ replicate ?m ?c) @ drop ?m D\<rparr> = velems s @ replicate ?m ?c"
    proof (rule vec_okI)
      show "k = Nontrivial \<longrightarrow> Raw \<notin> set (velems s @ replicate ?m ?c) \<and> set (drop ?m D) \<subseteq> {Raw}"
        using s(4) sub by (auto simp: trivial_def)
      have nn: "nat (ssize s) \<le> nat n" "nat n \<le> cap" using that n z(1) by auto
      show "n = int (length (velems s @ replicate ?m ?c))" using s(2) nn n(1) by simp
      show "cap = length (velems s @ replicate ?m ?c) + length (drop ?m D)" using s(2,3) nn by simp
    qed
    ultimately show ?thesis by auto
  qed
  have shrink: "\<exists>t. resize k d n s = Inr t \<and> vec_ok k cap t \<and> velems t = take (nat n) (velems s)" if "n \<le> ssize s"
  proof -
    let ?A = "take (nat n) (velems s)" and ?Y = "drop (nat n) (velems s)"
    have l: "length ?A = nat n" "length ?Y = nat (ssize s - n)" using that s(2) n by auto
    have sub: "set ?A \<subseteq> set (velems s)" "set ?Y \<subseteq> set (velems s)" by (rule set_take_subset set_drop_subset)+
    have sd: "sdata s = ?A @ ?Y @ D" using s(1) by simp
    let ?R = "if k = Nontrivial then replicate (length ?Y) Raw @ D else ?Y @ D"
    have d: "DestroyElements (trivial k) (nat n) (length ?Y) (?A @ ?Y @ D) = Inr (?A @ ?R)"
      using destroy_segment [OF l(1), of ?Y D] s(4) sub by (auto simp: trivial_def)
    have "n = ssize s \<Longrightarrow> ?A @ ?R = sdata s" using sd l by auto
    then have "resize k d n s = Inr \<lparr>ssize = n, sdata = ?A @ ?R\<rparr>"
      using that n z d l(2) unfolding resize_def sd [symmetric] by (cases "n = ssize s") (simp_all add: d)
    moreover have "vec_ok k cap \<lparr>ssize = n, sdata = ?A @ ?R\<rparr> \<and> velems \<lparr>ssize = n, sdata = ?A @ ?R\<rparr> = ?A"
    proof (rule vec_okI)
      show "k = Nontrivial \<longrightarrow> Raw \<notin> set ?A \<and> set ?R \<subseteq> {Raw}" using s(4) sub by auto
      show "n = int (length ?A)" using l n by simp
      have "nat n + nat (ssize s - n) = nat (ssize s)" using that n by simp
      moreover have "length ?R = length ?Y + length D" by simp
      ultimately show "cap = length ?A + length ?R" using l s(3) z(3) by linarith
    qed
    ultimately show ?thesis by auto
  qed
  show ?thesis
  proof (cases "ssize s < n")
    case True
    with grow s(2) show ?thesis by auto
  next
    case False
    with shrink n show ?thesis by auto
  qed
qed

lemma Storage_copy_law:
  assumes "vec_ok k cap s"
  shows "\<exists>t. Storage_copy k s = Inr t \<and> vec_ok k cap t \<and> velems t = velems s"
proof (cases "k = TrivialSmall")
  case False
  have len: "length (sdata s) = cap" "nat (ssize s) \<le> cap" using assms by (simp_all add: vec_ok_def)
  from copy_into [OF assms, of "blank cap" cap] len False show ?thesis by (auto simp: Storage_copy_def)
qed (use assms in \<open>simp add: Storage_copy_def\<close>)

lemma convert_law:
  assumes "vec_ok k c other"
  shows "if ssize other \<le> int cap
    then \<exists>t. BoundedInlineVector_convert k cap other = Inr t \<and> vec_ok k cap t \<and> velems t = velems other
    else BoundedInlineVector_convert k cap other = Inl CheckFailed"
proof -
  have "nat (ssize other) \<le> cap" if "ssize other \<le> int cap" using that assms by (simp add: vec_ok_def)
  with copy_into [OF assms, of "blank cap" cap] show ?thesis by (auto simp: BoundedInlineVector_convert_def)
qed

lemma assign_law:
  assumes t: "vec_ok k cap this" and other: "vec_ok k c other"
  shows "if ssize other \<le> int cap
    then \<exists>t. BoundedInlineVector_assign k this other = Inr t \<and> vec_ok k cap t \<and> velems t = velems other
    else BoundedInlineVector_assign k this other = Inl CheckFailed"
proof -
  obtain cs where cs: "DestroyElements (trivial k) 0 (nat (ssize this)) (sdata this) = Inr cs" "length cs = cap"
      "k = Nontrivial \<longrightarrow> set cs \<subseteq> {Raw}" using destroyed [OF t] by blast
  have len: "length (sdata this) = cap" using t by (simp add: vec_ok_def)
  have "nat (ssize other) \<le> cap" if "ssize other \<le> int cap" using that other by (simp add: vec_ok_def)
  with copy_into [OF other cs(2) _ cs(3)] cs(1) len show ?thesis by (auto simp: BoundedInlineVector_assign_def)
qed

lemma move_assign_law:
  assumes t: "vec_ok Nontrivial cap this" and other: "vec_ok Nontrivial cap other"
  shows "\<exists>t src. Storage_move_assign Nontrivial husk this other = Inr (t, src) \<and> vec_ok Nontrivial cap t \<and>
    velems t = velems other \<and> vec_ok Nontrivial cap src \<and> ssize src = ssize other"
proof -
  obtain cs where cs: "DestroyElements (trivial Nontrivial) 0 (nat (ssize this)) (sdata this) = Inr cs" "length cs = cap"
      "Nontrivial = Nontrivial \<longrightarrow> set cs \<subseteq> {Raw}" using destroyed [OF t] by blast
  have "nat (ssize other) \<le> cap" using other by (simp add: vec_ok_def)
  from copy_into [OF other cs(2) this cs(3)] obtain u where
    u: "CopyElements (trivial Nontrivial) (sdata other) 0 (nat (ssize other)) cs = Inr u"
      "vec_ok Nontrivial cap \<lparr>ssize = ssize other, sdata = u\<rparr>"
      "velems \<lparr>ssize = ssize other, sdata = u\<rparr> = velems other" by blast
  have "\<not> trivial Nontrivial" by (simp add: trivial_def)
  with cs(1) u moved_source [OF other, of husk] show ?thesis
    by (auto simp: Storage_move_assign_def MoveElements_def)
qed

text \<open>
  C32. The vector refines a list and keeps the life cycle of its elements. With the first \<^verbatim>\<open>size\<close> cells
  alive and the rest raw, construction, copying, assignment across capacities, resizing and move assignment never
  construct over a live object, never destroy or read raw memory, never leave the array, and
  keep the elements; growing beyond the capacity fails a check; destruction leaves no live object behind.
\<close>

theorem inline_vector_life_cycle:
  assumes "vec_ok k cap s" and "vec_ok k c other" and "length xs \<le> cap"
  shows "(\<exists>t. Storage_of k cap xs = Inr t \<and> vec_ok k cap t \<and> velems t = map Live xs) \<and>
    (\<exists>t. Storage_copy k s = Inr t \<and> vec_ok k cap t \<and> velems t = velems s) \<and>
    (if ssize other \<le> int cap
     then \<exists>t. BoundedInlineVector_assign k s other = Inr t \<and> vec_ok k cap t \<and> velems t = velems other
     else BoundedInlineVector_assign k s other = Inl CheckFailed) \<and>
    (if 0 \<le> n \<and> n \<le> int cap
     then \<exists>t. resize k d n s = Inr t \<and> vec_ok k cap t \<and>
       velems t = take (nat n) (velems s) @ replicate (nat n - nat (ssize s)) (if trivial k then Raw else Live d)
     else resize k d n s = Inl CheckFailed) \<and>
    (k = Nontrivial \<and> c = cap \<longrightarrow> (\<exists>t src. Storage_move_assign k husk s other = Inr (t, src) \<and> vec_ok k cap t \<and>
       velems t = velems other \<and> vec_ok k cap src)) \<and>
    (\<exists>t. Storage_destroy k s = Inr t \<and> (k = Nontrivial \<longrightarrow> set (sdata t) \<subseteq> {Raw}))"
proof (intro conjI Storage_of_law [OF assms(3)] Storage_copy_law [OF assms(1)] assign_law [OF assms(1,2)])
  have "length (sdata s) = cap" using assms(1) by (simp add: vec_ok_def)
  then show "if 0 \<le> n \<and> n \<le> int cap
     then \<exists>t. resize k d n s = Inr t \<and> vec_ok k cap t \<and>
       velems t = take (nat n) (velems s) @ replicate (nat n - nat (ssize s)) (if trivial k then Raw else Live d)
     else resize k d n s = Inl CheckFailed"
    using resize_law [OF assms(1), of n d] by (auto simp: resize_def check_def)
  show "k = Nontrivial \<and> c = cap \<longrightarrow> (\<exists>t src. Storage_move_assign k husk s other = Inr (t, src) \<and> vec_ok k cap t \<and>
       velems t = velems other \<and> vec_ok k cap src)"
    using move_assign_law [of cap s other husk] assms(1,2) by auto
  obtain cs where "DestroyElements (trivial k) 0 (nat (ssize s)) (sdata s) = Inr cs" "k = Nontrivial \<longrightarrow> set cs \<subseteq> {Raw}"
    using destroyed [OF assms(1)] by blast
  then show "\<exists>t. Storage_destroy k s = Inr t \<and> (k = Nontrivial \<longrightarrow> set (sdata t) \<subseteq> {Raw})"
    by (auto simp: Storage_destroy_def)
qed

theorem inline_vector_life_cycle_witness:
  "\<exists>t. resize Nontrivial (0 :: nat) 3 \<lparr>ssize = 1, sdata = [Live 7, Raw, Raw]\<rparr> = Inr t \<and> velems t = [Live 7, Live 0, Live 0]"
proof -
  let ?s = "\<lparr>ssize = 1, sdata = [Live (7 :: nat), Raw, Raw]\<rparr>"
  have "vec_ok Nontrivial 3 ?s" by (simp add: vec_ok_def velems_def)
  from inline_vector_life_cycle [OF this this, of "[]" 3 0 id] show ?thesis
    by (auto simp: velems_def trivial_def numeral_eq_Suc)
qed

end
