(* ===== verification/Safe_Numerics.thy ===== *)
theory Safe_Numerics
  imports Prelude
begin

text \<open>
  \<^verbatim>\<open>rtc_base/numerics/safe_compare.h\<close>, \<^verbatim>\<open>safe_conversions.h\<close>, \<^verbatim>\<open>safe_conversions_impl.h\<close> and \<^verbatim>\<open>safe_minmax.h\<close> for the
  integer types. A type is a value of \<open>int_type\<close> and the templates, which compute on types and their limits at
  compile time, are functions on it; an integer is the \<open>int\<close> it stands for. The conversions of the language
  (integer promotion, usual arithmetic conversions, wrapping casts) are written out, so that the theorems say that
  the code avoids their traps. An enumeration is its underlying type.
\<close>

section \<open>Integer types of the language\<close>

datatype int_type = I8 | I16 | I32 | I64 | U8 | U16 | U32 | U64

fun sizeof :: "int_type \<Rightarrow> nat" where
  "sizeof I8 = 1" | "sizeof I16 = 2" | "sizeof I32 = 4" | "sizeof I64 = 8"
| "sizeof U8 = 1" | "sizeof U16 = 2" | "sizeof U32 = 4" | "sizeof U64 = 8"

fun is_signed :: "int_type \<Rightarrow> bool" where
  "is_signed I8 = True" | "is_signed I16 = True" | "is_signed I32 = True" | "is_signed I64 = True"
| "is_signed U8 = False" | "is_signed U16 = False" | "is_signed U32 = False" | "is_signed U64 = False"

fun make_unsigned :: "int_type \<Rightarrow> int_type" where
  "make_unsigned I8 = U8" | "make_unsigned I16 = U16" | "make_unsigned I32 = U32" | "make_unsigned I64 = U64"
| "make_unsigned t = t"

definition lowest :: "int_type \<Rightarrow> int" where
  "lowest t = (if is_signed t then - (2 ^ (8 * sizeof t - 1)) else 0)"

definition highest :: "int_type \<Rightarrow> int" where
  "highest t = (if is_signed t then 2 ^ (8 * sizeof t - 1) - 1 else 2 ^ (8 * sizeof t) - 1)"

definition in_range :: "int_type \<Rightarrow> int \<Rightarrow> bool" where
  "in_range t v \<longleftrightarrow> lowest t \<le> v \<and> v \<le> highest t"

definition static_cast :: "int_type \<Rightarrow> int \<Rightarrow> int" where
  "static_cast t v = (v - lowest t) mod 2 ^ (8 * sizeof t) + lowest t"

definition promote :: "int_type \<Rightarrow> int_type" where
  "promote t = (if sizeof t < 4 then I32 else t)"

text \<open>The common type of a binary operator's operands.\<close>

definition common :: "int_type \<Rightarrow> int_type \<Rightarrow> int_type" where
  "common t u =
     (let t = promote t; u = promote u
      in if is_signed t = is_signed u then (if sizeof t < sizeof u then u else t)
         else if is_signed t then (if sizeof u < sizeof t then t else u)
         else (if sizeof t < sizeof u then u else t))"

section \<open>Comparison\<close>

datatype cmp_op = EqOp | NeOp | LtOp | LeOp | GtOp | GeOp

fun holds :: "cmp_op \<Rightarrow> int \<Rightarrow> int \<Rightarrow> bool" where
  "holds EqOp a b = (a = b)" | "holds NeOp a b = (a \<noteq> b)" | "holds LtOp a b = (a < b)"
| "holds LeOp a b = (a \<le> b)" | "holds GtOp a b = (a > b)" | "holds GeOp a b = (a \<ge> b)"

text \<open>The operator of the language on operands of two types.\<close>

definition Op :: "cmp_op \<Rightarrow> int_type \<Rightarrow> int_type \<Rightarrow> int \<Rightarrow> int \<Rightarrow> bool" where
  "Op opr t u a b = holds opr (static_cast (common t u) a) (static_cast (common t u) b)"

fun LargerIntImpl :: "nat \<Rightarrow> int_type option" where
  "LargerIntImpl n = (if n = 1 then Some I16 else if n = 2 then Some I32 else if n = 4 then Some I64 else None)"

definition LargerInt :: "int_type \<Rightarrow> int_type \<Rightarrow> int_type option" where
  "LargerInt t u = LargerIntImpl (if sizeof t < sizeof u \<or> sizeof t < 8 then sizeof t else 0)"

definition MakeUnsigned :: "int_type \<Rightarrow> int \<Rightarrow> int" where
  "MakeUnsigned t a = static_cast (make_unsigned t) a"

definition Cmp :: "cmp_op \<Rightarrow> int_type \<Rightarrow> int_type \<Rightarrow> int \<Rightarrow> int \<Rightarrow> bool" where
  "Cmp opr t u a b =
     (if is_signed t = is_signed u then Op opr t u a b
      else if is_signed t
      then (case LargerInt u t of
              Some l \<Rightarrow> Op opr t l a (static_cast l b)
            | None \<Rightarrow> if a < 0 then Op opr I32 I32 (- 1) 0 else Op opr (make_unsigned t) u (MakeUnsigned t a) b)
      else (case LargerInt t u of
              Some l \<Rightarrow> Op opr l u (static_cast l a) b
            | None \<Rightarrow> if b < 0 then Op opr I32 I32 0 (- 1) else Op opr t (make_unsigned u) a (MakeUnsigned u b)))"

definition Safe :: "cmp_op \<Rightarrow> int_type \<Rightarrow> int_type \<Rightarrow> int \<Rightarrow> int \<Rightarrow> bool" where
  "Safe opr t u a b = Cmp opr (promote t) (promote u) a b"

section \<open>Conversion\<close>

datatype DstRange = OVERLAPS_RANGE | CONTAINS_RANGE

definition StaticRangeCheck :: "int_type \<Rightarrow> int_type \<Rightarrow> DstRange" where
  "StaticRangeCheck dst src =
     (if is_signed dst \<and> is_signed src
      then (if sizeof dst * 8 - 1 \<ge> sizeof src * 8 - 1 then CONTAINS_RANGE else OVERLAPS_RANGE)
      else if \<not> is_signed dst \<and> \<not> is_signed src
      then (if sizeof dst \<ge> sizeof src then CONTAINS_RANGE else OVERLAPS_RANGE)
      else if is_signed dst
      then (if sizeof dst * 8 - 1 \<ge> sizeof src * 8 then CONTAINS_RANGE else OVERLAPS_RANGE)
      else OVERLAPS_RANGE)"

datatype RangeCheckResult = TYPE_VALID | TYPE_UNDERFLOW | TYPE_OVERFLOW | TYPE_INVALID

fun range_check_result :: "bool \<Rightarrow> bool \<Rightarrow> RangeCheckResult" where
  "range_check_result True True = TYPE_VALID"
| "range_check_result False True = TYPE_OVERFLOW"
| "range_check_result True False = TYPE_UNDERFLOW"
| "range_check_result False False = TYPE_INVALID"

definition RangeCheck :: "int_type \<Rightarrow> int_type \<Rightarrow> int \<Rightarrow> RangeCheckResult" where
  "RangeCheck dst src v =
     (let le_max = Op LeOp src src v (static_cast src (highest dst))
      in case StaticRangeCheck dst src of
        CONTAINS_RANGE \<Rightarrow> TYPE_VALID
      | OVERLAPS_RANGE \<Rightarrow>
          if is_signed dst \<and> is_signed src
          then range_check_result le_max (Op GeOp src src v (static_cast src (lowest dst)))
          else if \<not> is_signed dst \<and> \<not> is_signed src then range_check_result le_max True
          else if is_signed dst
          then (if sizeof dst > sizeof src then TYPE_VALID else range_check_result le_max True)
          else if sizeof dst * 8 \<ge> sizeof src * 8 - 1
          then range_check_result True (Op GeOp src src v (static_cast src 0))
          else range_check_result le_max (Op GeOp src src v (static_cast src 0)))"

definition IsValueInRangeForNumericType :: "int_type \<Rightarrow> int_type \<Rightarrow> int \<Rightarrow> bool" where
  "IsValueInRangeForNumericType dst src v \<longleftrightarrow> RangeCheck dst src v = TYPE_VALID"

definition checked_cast :: "int_type \<Rightarrow> int_type \<Rightarrow> int \<Rightarrow> abort + int" where
  "checked_cast dst src v = check (IsValueInRangeForNumericType dst src v) (Inr (static_cast dst v))"

definition dchecked_cast :: "int_type \<Rightarrow> int_type \<Rightarrow> int \<Rightarrow> abort + int" where
  "dchecked_cast dst src v = check (IsValueInRangeForNumericType dst src v) (Inr (static_cast dst v))"

definition saturated_cast :: "int_type \<Rightarrow> int_type \<Rightarrow> int \<Rightarrow> abort + int" where
  "saturated_cast dst src v =
     (case RangeCheck dst src v of
        TYPE_VALID \<Rightarrow> Inr (static_cast dst v)
      | TYPE_UNDERFLOW \<Rightarrow> Inr (lowest dst)
      | TYPE_OVERFLOW \<Rightarrow> Inr (highest dst)
      | TYPE_INVALID \<Rightarrow> Inl CheckFailed)"

section \<open>Minimum, maximum and clamping\<close>

definition min_t :: "int_type \<Rightarrow> int_type \<Rightarrow> int_type" where
  "min_t t u =
     (if Safe LtOp t u (lowest t) (lowest u) then t
      else if Safe GtOp t u (lowest t) (lowest u) then u
      else if Safe LeOp t u (highest t) (highest u) then t else u)"

definition max_t :: "int_type \<Rightarrow> int_type \<Rightarrow> int_type" where
  "max_t t u = (if Safe GeOp t u (highest t) (highest u) then t else u)"

text \<open>
  The requested result type if there is one, otherwise the computed one. \<open>None\<close>: a static assertion
  fails and the call does not compile.
\<close>

definition TypeOr :: "int_type option \<Rightarrow> int_type \<Rightarrow> int_type option" where
  "TypeOr req b =
     (let t = (case req of None \<Rightarrow> b | Some a \<Rightarrow> a)
      in if Safe LeOp t b (lowest t) (lowest b) \<and> Safe GeOp t b (highest t) (highest b) then Some t else None)"

definition SafeMin :: "int_type option \<Rightarrow> int_type \<Rightarrow> int_type \<Rightarrow> int \<Rightarrow> int \<Rightarrow> int option" where
  "SafeMin req t u a b =
     map_option (\<lambda>r. if Safe LtOp t u a b then static_cast r a else static_cast r b) (TypeOr req (min_t t u))"

definition SafeMax :: "int_type option \<Rightarrow> int_type \<Rightarrow> int_type \<Rightarrow> int \<Rightarrow> int \<Rightarrow> int option" where
  "SafeMax req t u a b =
     map_option (\<lambda>r. if Safe GtOp t u a b then static_cast r a else static_cast r b) (TypeOr req (max_t t u))"

text \<open>The range of a clamped value, as the types of \<^verbatim>\<open>SafeMin\<close> and \<^verbatim>\<open>SafeMax\<close> at compile time give it.\<close>

definition r_min :: "int_type \<Rightarrow> int_type \<Rightarrow> int_type \<Rightarrow> int" where
  "r_min t l h = the (SafeMax None l (min_t h t) (lowest l) (the (SafeMin None h t (lowest h) (lowest t))))"

definition r_max :: "int_type \<Rightarrow> int_type \<Rightarrow> int_type \<Rightarrow> int" where
  "r_max t l h = the (SafeMin None h (max_t l t) (highest h) (the (SafeMax None l t (highest l) (highest t))))"

definition AcceptableType :: "int_type \<Rightarrow> int_type \<Rightarrow> int_type \<Rightarrow> int_type \<Rightarrow> bool" where
  "AcceptableType t l h a \<longleftrightarrow>
     (sizeof a \<le> sizeof l \<or> sizeof a \<le> sizeof h \<or> sizeof a \<le> sizeof t) \<and>
     Safe LeOp a (max_t l (min_t h t)) (lowest a) (r_min t l h) \<and>
     Safe LeOp (min_t h (max_t l t)) a (r_max t l h) (highest a)"

definition best_signed_type :: "int_type \<Rightarrow> int_type \<Rightarrow> int_type \<Rightarrow> int_type" where
  "best_signed_type t l h =
     (if AcceptableType t l h I8 then I8 else if AcceptableType t l h I16 then I16
      else if AcceptableType t l h I32 then I32 else I64)"

definition best_unsigned_type :: "int_type \<Rightarrow> int_type \<Rightarrow> int_type \<Rightarrow> int_type" where
  "best_unsigned_type t l h =
     (if AcceptableType t l h U8 then U8 else if AcceptableType t l h U16 then U16
      else if AcceptableType t l h U32 then U32 else U64)"

definition ClampType :: "int_type \<Rightarrow> int_type \<Rightarrow> int_type \<Rightarrow> int_type option" where
  "ClampType t l h =
     (let s = best_signed_type t l h; u = best_unsigned_type t l h;
          r = (if is_signed t then (if AcceptableType t l h s then s else u)
               else (if AcceptableType t l h u then u else s))
      in if AcceptableType t l h r then Some r else None)"

definition SafeClamp ::
  "int_type option \<Rightarrow> int_type \<Rightarrow> int_type \<Rightarrow> int_type \<Rightarrow> int \<Rightarrow> int \<Rightarrow> int \<Rightarrow> (abort + int) option" where
  "SafeClamp req t l h x lo hi =
     (case ClampType t l h of
        None \<Rightarrow> None
      | Some c \<Rightarrow> map_option (\<lambda>r.
          check (Safe LeOp l h lo hi)
            (Inr (if Safe LeOp t l x lo then static_cast r lo
                  else if Safe GeOp t h x hi then static_cast r hi
                  else static_cast r x)))
          (TypeOr req c))"

section \<open>Casts between ranges\<close>

lemma limits [simp]:
  "lowest I8 = - 128" "lowest I16 = - 32768" "lowest I32 = - 2147483648" "lowest I64 = - 9223372036854775808"
  "lowest U8 = 0" "lowest U16 = 0" "lowest U32 = 0" "lowest U64 = 0"
  "highest I8 = 127" "highest I16 = 32767" "highest I32 = 2147483647" "highest I64 = 9223372036854775807"
  "highest U8 = 255" "highest U16 = 65535" "highest U32 = 4294967295" "highest U64 = 18446744073709551615"
  by (simp_all add: lowest_def highest_def)

lemma highest_lowest: "highest t = lowest t + 2 ^ (8 * sizeof t) - 1"
  by (cases t) simp_all

lemma cast_in_range: "in_range t v \<Longrightarrow> static_cast t v = v"
  by (simp add: static_cast_def in_range_def highest_lowest mod_pos_pos_trivial)

lemma static_cast_range: "in_range t (static_cast t v)"
proof -
  have "0 \<le> (v - lowest t) mod 2 ^ (8 * sizeof t)" "(v - lowest t) mod 2 ^ (8 * sizeof t) < 2 ^ (8 * sizeof t)" by simp_all
  then show ?thesis unfolding in_range_def static_cast_def highest_lowest by linarith
qed

text \<open>\<open>c\<close> can represent every value of \<open>t\<close>.\<close>

definition subrange :: "int_type \<Rightarrow> int_type \<Rightarrow> bool" where
  "subrange t c \<longleftrightarrow> lowest c \<le> lowest t \<and> highest t \<le> highest c"

lemma subrange_in: "subrange t c \<Longrightarrow> in_range t v \<Longrightarrow> in_range c v"
  by (auto simp: subrange_def in_range_def)

lemma Op_exact:
  "in_range (common t u) a \<Longrightarrow> in_range (common t u) b \<Longrightarrow> Op opr t u a b = holds opr a b"
  by (simp add: Op_def cast_in_range)

lemma holds_sign: "a < 0 \<Longrightarrow> 0 \<le> b \<Longrightarrow> holds opr (- 1) 0 = holds opr a b"
  "a < 0 \<Longrightarrow> 0 \<le> b \<Longrightarrow> holds opr 0 (- 1) = holds opr b a"
  by (cases opr; simp)+

lemma common_same: "is_signed t = is_signed u \<Longrightarrow> subrange t (common t u) \<and> subrange u (common t u)"
  by (cases t; cases u) (simp_all add: subrange_def common_def promote_def)

lemma Cmp_exact:
  assumes a: "in_range t a" and b: "in_range u b"
  shows "Cmp opr t u a b = holds opr a b"
proof -
  consider "is_signed t = is_signed u" | "is_signed t" "\<not> is_signed u" | "\<not> is_signed t" "is_signed u" by blast
  then show ?thesis
  proof cases
    case 1
    with common_same [OF 1] a b show ?thesis by (auto simp: Cmp_def intro!: Op_exact intro: subrange_in)
  next
    case 2
    show ?thesis
    proof (cases "LargerInt u t")
      case None
      then have u: "u = U64" using 2 by (cases u; cases t) (simp_all add: LargerInt_def)
      have nn: "0 \<le> b" using b u by (simp add: in_range_def)
      show ?thesis
      proof (cases "a < 0")
        case True
        have "Op opr I32 I32 (- 1) 0 = holds opr (- 1) 0"
          by (rule Op_exact) (simp_all add: in_range_def common_def promote_def)
        with True holds_sign(1) [OF True nn] 2 None show ?thesis by (simp add: Cmp_def)
      next
        case False
        have mu: "MakeUnsigned t a = a" "in_range (common (make_unsigned t) u) a" "in_range (common (make_unsigned t) u) b"
          using 2(1) a b False u by (cases t; simp add: MakeUnsigned_def cast_in_range in_range_def common_def promote_def)+
        with 2 None False show ?thesis by (simp add: Cmp_def Op_exact)
      qed
    next
      case (Some l)
      have "subrange u l" "subrange t (common t l)" "subrange l (common t l)"
        using 2 Some by (cases u; cases t; auto simp: LargerInt_def subrange_def common_def promote_def)+
      with 2 Some a b show ?thesis
        by (simp add: Cmp_def) (metis Op_exact cast_in_range subrange_in)
    qed
  next
    case 3
    show ?thesis
    proof (cases "LargerInt t u")
      case None
      then have u: "t = U64" using 3 by (cases u; cases t) (simp_all add: LargerInt_def)
      have nn: "0 \<le> a" using a u by (simp add: in_range_def)
      show ?thesis
      proof (cases "b < 0")
        case True
        have "Op opr I32 I32 0 (- 1) = holds opr 0 (- 1)"
          by (rule Op_exact) (simp_all add: in_range_def common_def promote_def)
        with True holds_sign(2) [OF True nn] 3 None show ?thesis by (simp add: Cmp_def)
      next
        case False
        have mu: "MakeUnsigned u b = b" "in_range (common t (make_unsigned u)) a" "in_range (common t (make_unsigned u)) b"
          using 3(2) a b False u by (cases u; simp add: MakeUnsigned_def cast_in_range in_range_def common_def promote_def)+
        with 3 None False show ?thesis by (simp add: Cmp_def Op_exact)
      qed
    next
      case (Some l)
      have "subrange t l" "subrange u (common l u)" "subrange l (common l u)"
        using 3 Some by (cases u; cases t; auto simp: LargerInt_def subrange_def common_def promote_def)+
      with 3 Some a b show ?thesis
        by (simp add: Cmp_def) (metis Op_exact cast_in_range subrange_in)
    qed
  qed
qed

lemma subrange_promote: "subrange t (promote t)"
  by (cases t) (simp_all add: subrange_def promote_def)

lemma Safe_exact: "in_range t a \<Longrightarrow> in_range u b \<Longrightarrow> Safe opr t u a b = holds opr a b"
  by (simp add: Safe_def Cmp_exact subrange_in [OF subrange_promote])

text \<open>
  C34. The safe comparisons are the mathematical ones, for all pairs of integer types; the operators of
  the language are not, e.g. \<^verbatim>\<open>-1 < 1u\<close> is false.
\<close>

theorem safe_compare_exact:
  assumes "in_range t a" and "in_range u b"
  shows "Safe opr t u a b = holds opr a b \<and> \<not> Op LtOp I32 U32 (- 1) 1"
  using Safe_exact [OF assms] by (simp add: Op_def static_cast_def common_def promote_def)

theorem safe_compare_exact_witness:
  "Safe LtOp I32 U32 (- 1) 1 \<and> \<not> Op LtOp I32 U32 (- 1) 1"
  using safe_compare_exact [of I32 "- 1" U32 1 LtOp] by (simp add: in_range_def)

section \<open>Conversions are exact or refuse\<close>

definition clamp :: "int \<Rightarrow> int \<Rightarrow> int \<Rightarrow> int" where
  "clamp l h x = max l (min h x)"

lemma contains_range: "StaticRangeCheck dst src = CONTAINS_RANGE \<longleftrightarrow> subrange src dst"
  by (cases dst; cases src) (simp_all add: StaticRangeCheck_def subrange_def)

lemma RangeCheck_exact:
  assumes "in_range src v"
  shows "RangeCheck dst src v =
    (if v < lowest dst then TYPE_UNDERFLOW else if highest dst < v then TYPE_OVERFLOW else TYPE_VALID)"
  using assms
  by (cases dst; cases src)
    (simp_all add: RangeCheck_def StaticRangeCheck_def Op_def common_def promote_def static_cast_def in_range_def)

text \<open>
  For every pair of integer types the conversions act on the value, not on its bits:
  \<^verbatim>\<open>IsValueInRangeForNumericType\<close> is membership in the destination's range, \<^verbatim>\<open>checked_cast\<close> returns the
  value itself or aborts, never another value, and \<^verbatim>\<open>saturated_cast\<close> never aborts and returns
  the value of the destination type nearest to its argument.
\<close>

theorem conversions_exact:
  assumes "in_range src v"
  shows "IsValueInRangeForNumericType dst src v = in_range dst v
    \<and> checked_cast dst src v = (if in_range dst v then Inr v else Inl CheckFailed)
    \<and> dchecked_cast dst src v = checked_cast dst src v
    \<and> saturated_cast dst src v = Inr (clamp (lowest dst) (highest dst) v)
    \<and> in_range dst (clamp (lowest dst) (highest dst) v)"
proof -
  have le: "lowest dst \<le> highest dst" by (cases dst) simp_all
  have iv: "IsValueInRangeForNumericType dst src v = in_range dst v"
    by (simp add: IsValueInRangeForNumericType_def RangeCheck_exact [OF assms] in_range_def)
  moreover have "saturated_cast dst src v = Inr (clamp (lowest dst) (highest dst) v)"
    using le by (simp add: saturated_cast_def RangeCheck_exact [OF assms] clamp_def cast_in_range in_range_def)
  ultimately show ?thesis
    using le by (simp add: checked_cast_def dchecked_cast_def check_def cast_in_range clamp_def in_range_def)
qed

theorem conversions_exact_witness:
  "checked_cast U8 I32 (- 1) = Inl CheckFailed \<and> saturated_cast U8 I32 (- 1) = Inr 0 \<and> saturated_cast I16 U64 70000 = Inr 32767"
  using conversions_exact [of I32 "- 1" U8] conversions_exact [of U64 70000 I16]
  by (simp add: in_range_def clamp_def)

section \<open>Minimum, maximum and clamping are the mathematical ones\<close>

lemma limits_in_range: "in_range t (lowest t)" "in_range t (highest t)"
  by (cases t; simp add: in_range_def)+

lemmas Safe_limits = Safe_exact [OF limits_in_range(1) limits_in_range(1)]
  Safe_exact [OF limits_in_range(2) limits_in_range(2)]

text \<open>The static assertion beside \<^verbatim>\<open>max_t\<close>: types with the same maximum have the same minimum.\<close>

lemma max_t_assertion: "Safe NeOp t u (highest t) (highest u) \<or> Safe EqOp t u (lowest t) (lowest u)"
  unfolding Safe_limits by (cases t; cases u) simp_all

lemma min_t_holds: "in_range t a \<Longrightarrow> in_range u b \<Longrightarrow> in_range (min_t t u) (min a b)"
  unfolding min_t_def Safe_limits in_range_def by (cases t; cases u) auto

lemma max_t_holds: "in_range t a \<Longrightarrow> in_range u b \<Longrightarrow> in_range (max_t t u) (max a b)"
  unfolding max_t_def Safe_limits in_range_def by (cases t; cases u) auto

lemma TypeOr_def': "TypeOr req b = (let t = (case req of None \<Rightarrow> b | Some a \<Rightarrow> a) in if subrange b t then Some t else None)"
  by (simp add: TypeOr_def Safe_limits subrange_def)

lemma TypeOr_None: "TypeOr None b = Some b"
  by (simp add: TypeOr_def' subrange_def)

lemma TypeOr_subrange: "TypeOr req b = Some r \<Longrightarrow> subrange b r"
  by (auto simp: TypeOr_def' Let_def split: if_splits)

lemma SafeMin_exact:
  assumes "in_range t a" and "in_range u b"
  shows "SafeMin req t u a b = map_option (\<lambda>r. min a b) (TypeOr req (min_t t u))"
proof (cases "TypeOr req (min_t t u)")
  case (Some r)
  have "in_range r (min a b)" using TypeOr_subrange [OF Some] min_t_holds [OF assms] by (rule subrange_in)
  then have "static_cast r (min a b) = min a b" by (rule cast_in_range)
  then show ?thesis using Some by (auto simp: SafeMin_def Safe_exact [OF assms] min_def split: if_splits)
qed (simp add: SafeMin_def)

lemma SafeMax_exact:
  assumes "in_range t a" and "in_range u b"
  shows "SafeMax req t u a b = map_option (\<lambda>r. max a b) (TypeOr req (max_t t u))"
proof (cases "TypeOr req (max_t t u)")
  case (Some r)
  have "in_range r (max a b)" using TypeOr_subrange [OF Some] max_t_holds [OF assms] by (rule subrange_in)
  then have "static_cast r (max a b) = max a b" by (rule cast_in_range)
  then show ?thesis using Some by (auto simp: SafeMax_def Safe_exact [OF assms] max_def split: if_splits)
qed (simp add: SafeMax_def)

lemma r_min_exact: "r_min t l h = max (lowest l) (min (lowest h) (lowest t))"
  by (simp add: r_min_def SafeMin_exact SafeMax_exact limits_in_range min_t_holds TypeOr_None)

lemma r_max_exact: "r_max t l h = min (highest h) (max (highest l) (highest t))"
  by (simp add: r_max_def SafeMin_exact SafeMax_exact limits_in_range max_t_holds TypeOr_None)

lemma AcceptableType_exact:
  "AcceptableType t l h a \<longleftrightarrow>
     (sizeof a \<le> sizeof l \<or> sizeof a \<le> sizeof h \<or> sizeof a \<le> sizeof t) \<and>
     lowest a \<le> r_min t l h \<and> r_max t l h \<le> highest a"
proof -
  have "in_range (max_t l (min_t h t)) (r_min t l h)" "in_range (min_t h (max_t l t)) (r_max t l h)"
    by (simp_all add: r_min_exact r_max_exact limits_in_range min_t_holds max_t_holds)
  then show ?thesis by (simp add: AcceptableType_def Safe_exact limits_in_range)
qed

lemma ClampType_acceptable: "ClampType t l h = Some r \<Longrightarrow> AcceptableType t l h r"
  by (auto simp: ClampType_def Let_def split: if_splits)

text \<open>One of the three argument types is always acceptable, so the static assertion of \<^verbatim>\<open>ClampType\<close> never fails.\<close>

lemma some_argument_acceptable: "AcceptableType t l h t \<or> AcceptableType t l h l \<or> AcceptableType t l h h"
  unfolding AcceptableType_exact r_min_exact r_max_exact by (cases l; cases h; cases t; simp)

lemma best_signed_acceptable:
  "is_signed a \<Longrightarrow> AcceptableType t l h a \<Longrightarrow> AcceptableType t l h (best_signed_type t l h)"
  by (cases a) (auto simp: best_signed_type_def)

lemma best_unsigned_acceptable:
  "\<not> is_signed a \<Longrightarrow> AcceptableType t l h a \<Longrightarrow> AcceptableType t l h (best_unsigned_type t l h)"
  by (cases a) (auto simp: best_unsigned_type_def)

lemma ClampType_compiles: "\<exists>r. ClampType t l h = Some r"
proof -
  obtain a where "AcceptableType t l h a" using some_argument_acceptable [of t l h] by blast
  then have "AcceptableType t l h (best_signed_type t l h) \<or> AcceptableType t l h (best_unsigned_type t l h)"
    using best_signed_acceptable best_unsigned_acceptable by blast
  then show ?thesis by (auto simp: ClampType_def Let_def)
qed

lemma clamp_in_r:
  assumes "in_range t x" and "in_range l lo" and "in_range h hi" and "lo \<le> hi"
  shows "r_min t l h \<le> clamp lo hi x" and "clamp lo hi x \<le> r_max t l h"
  using assms by (auto simp: clamp_def r_min_exact r_max_exact in_range_def)

lemma clamp_fits:
  assumes "in_range t x" and "in_range l lo" and "in_range h hi" and "lo \<le> hi"
    and "ClampType t l h = Some c" and "subrange c r"
  shows "static_cast r (clamp lo hi x) = clamp lo hi x"
proof (rule cast_in_range)
  have "in_range c (clamp lo hi x)"
    using ClampType_acceptable [OF assms(5)] clamp_in_r [OF assms(1-4)] by (auto simp: AcceptableType_exact in_range_def)
  then show "in_range r (clamp lo hi x)" by (rule subrange_in [OF assms(6)])
qed

lemma SafeClamp_exact:
  assumes t: "in_range t x" and l: "in_range l lo" and h: "in_range h hi"
    and c: "ClampType t l h = Some c" and r: "TypeOr req c = Some r"
  shows "SafeClamp req t l h x lo hi = Some (if lo \<le> hi then Inr (clamp lo hi x) else Inl CheckFailed)"
proof (cases "lo \<le> hi")
  case True
  have "static_cast r (clamp lo hi x) = clamp lo hi x" by (rule clamp_fits [OF t l h True c TypeOr_subrange [OF r]])
  moreover have "clamp lo hi x = (if x \<le> lo then lo else if x \<ge> hi then hi else x)"
    using True by (auto simp: clamp_def)
  ultimately show ?thesis
    using True c r
    by (auto simp: SafeClamp_def check_def Safe_exact [OF l h] Safe_exact [OF t l] Safe_exact [OF t h] split: if_splits)
qed (use c r in \<open>simp add: SafeClamp_def check_def Safe_exact [OF l h]\<close>)

text \<open>The choice of types: what the templates' comments promise of them.\<close>

lemma min_t_choice:
  "min_t t u \<in> {t, u} \<and> lowest (min_t t u) = min (lowest t) (lowest u) \<and>
   (lowest t = lowest u \<longrightarrow> highest (min_t t u) = min (highest t) (highest u))"
  unfolding min_t_def Safe_limits by (cases t; cases u; simp)

lemma max_t_choice: "max_t t u \<in> {t, u} \<and> highest (max_t t u) = max (highest t) (highest u)"
  unfolding max_t_def Safe_limits by (cases t; cases u; simp)

text \<open>\<open>a\<close> holds every value that clamping can give and is no larger than the largest argument type.\<close>

definition clamp_fits_type :: "int_type \<Rightarrow> int_type \<Rightarrow> int_type \<Rightarrow> int_type \<Rightarrow> bool" where
  "clamp_fits_type t l h a \<longleftrightarrow>
     sizeof a \<le> Max {sizeof t, sizeof l, sizeof h} \<and>
     lowest a \<le> max (lowest l) (min (lowest h) (lowest t)) \<and>
     min (highest h) (max (highest l) (highest t)) \<le> highest a"

lemma clamp_fits_acceptable: "clamp_fits_type t l h a \<longleftrightarrow> AcceptableType t l h a"
  by (auto simp: clamp_fits_type_def AcceptableType_exact r_min_exact r_max_exact)

lemma best_signed_least:
  "is_signed (best_signed_type t l h) \<and>
   (is_signed a \<longrightarrow> AcceptableType t l h a \<longrightarrow> sizeof (best_signed_type t l h) \<le> sizeof a)"
  by (cases a) (auto simp: best_signed_type_def)

lemma best_unsigned_least:
  "\<not> is_signed (best_unsigned_type t l h) \<and>
   (\<not> is_signed a \<longrightarrow> AcceptableType t l h a \<longrightarrow> sizeof (best_unsigned_type t l h) \<le> sizeof a)"
  by (cases a) (auto simp: best_unsigned_type_def)

lemma ClampType_least:
  assumes c: "ClampType t l h = Some c" and a: "AcceptableType t l h a"
  shows "(is_signed a = is_signed c \<longrightarrow> sizeof c \<le> sizeof a) \<and> (is_signed a = is_signed t \<longrightarrow> is_signed c = is_signed t)"
proof -
  note s = best_signed_least [of t l h a] best_unsigned_least [of t l h a]
    best_signed_acceptable [of a t l h] best_unsigned_acceptable [of a t l h]
  show ?thesis using c a s by (cases "is_signed t"; cases "is_signed a") (auto simp: ClampType_def Let_def split: if_splits)
qed

text \<open>
  C35. Over mixed integer types, with the default result type, \<^verbatim>\<open>SafeMin\<close>, \<^verbatim>\<open>SafeMax\<close> and \<^verbatim>\<open>SafeClamp\<close> always
  compile (\<open>Some\<close>) and return the mathematical minimum, maximum and clamped value; \<^verbatim>\<open>SafeClamp\<close> aborts exactly when
  the lower limit exceeds the upper one. The types are the promised ones: that of the minimum is the argument type with the lowest minimum,
  in a tie with the lowest maximum; that of the maximum has the highest maximum; and that of a clamped value holds every value that
  clamping can give, is no larger than the largest argument type, has the signedness of the clamped argument whenever such a type
  can, and is the narrowest type of its signedness that can.
\<close>

theorem safe_minmax_exact:
  assumes "in_range t x" and "in_range l lo" and "in_range h hi"
  shows "SafeMin None l h lo hi = Some (min lo hi) \<and> SafeMax None l h lo hi = Some (max lo hi)
    \<and> SafeClamp None t l h x lo hi = Some (if lo \<le> hi then Inr (clamp lo hi x) else Inl CheckFailed)
    \<and> min_t l h \<in> {l, h} \<and> lowest (min_t l h) = min (lowest l) (lowest h)
    \<and> (lowest l = lowest h \<longrightarrow> highest (min_t l h) = min (highest l) (highest h))
    \<and> max_t l h \<in> {l, h} \<and> highest (max_t l h) = max (highest l) (highest h)
    \<and> (\<exists>c. ClampType t l h = Some c \<and> clamp_fits_type t l h c \<and>
         (\<forall>a. clamp_fits_type t l h a \<longrightarrow>
            (is_signed a = is_signed c \<longrightarrow> sizeof c \<le> sizeof a) \<and>
            (is_signed a = is_signed t \<longrightarrow> is_signed c = is_signed t)))"
proof -
  obtain c where c: "ClampType t l h = Some c" using ClampType_compiles by blast
  note f = SafeClamp_exact [OF assms c TypeOr_None] ClampType_acceptable [OF c] ClampType_least [OF c]
  have "clamp_fits_type t l h c \<and> (\<forall>a. clamp_fits_type t l h a \<longrightarrow>
            (is_signed a = is_signed c \<longrightarrow> sizeof c \<le> sizeof a) \<and>
            (is_signed a = is_signed t \<longrightarrow> is_signed c = is_signed t))"
    unfolding clamp_fits_acceptable using f(2,3) by blast
  with c f(1) min_t_choice [of l h] max_t_choice [of l h] assms show ?thesis
    by (simp add: SafeMin_exact SafeMax_exact TypeOr_None)
qed

theorem safe_minmax_exact_witness:
  "SafeMin None I8 U64 (- 5) 7 = Some (- 5) \<and> SafeMax None I8 U64 (- 5) 7 = Some 7
   \<and> SafeClamp None U64 I8 U64 9 (- 5) 7 = Some (Inr 7)
   \<and> min_t I8 U64 = I8 \<and> lowest (min_t I8 U64) = - 128"
proof -
  note s = safe_minmax_exact [of U64 9 I8 "- 5" U64 7]
  have "min_t I8 U64 = I8" unfolding min_t_def Safe_limits by simp
  moreover have "in_range U64 9" "in_range I8 (- 5)" "in_range U64 7" by (simp_all add: in_range_def)
  ultimately show ?thesis using s by (simp add: clamp_def)
qed

end
