(* ===== verification/Sliding_Windows.thy ===== *)
theory Sliding_Windows
  imports Prelude "HOL-Library.Multiset"
begin

text \<open>
  Filters over the most recent samples: \<^verbatim>\<open>moving_max_counter.h\<close>, \<^verbatim>\<open>windowed_min_filter.h\<close>, \<^verbatim>\<open>percentile_filter.h\<close> and
  \<^verbatim>\<open>moving_percentile_filter.h\<close> of \<^verbatim>\<open>rtc_base/numerics\<close>. Each keeps a clever summary of the window; each is
  shown to answer what the plain definition over the whole window answers. Deques and lists are lists, oldest
  element first; reading the end of an empty one is an abort.
\<close>

section \<open>The last elements of a list\<close>

definition lastn :: "nat \<Rightarrow> 'a list \<Rightarrow> 'a list" where
  "lastn w xs = drop (length xs - w) xs"

definition push :: "nat \<Rightarrow> 'a \<Rightarrow> 'a list \<Rightarrow> 'a list" where
  "push w x ys = (if length ys < w then ys else tl ys) @ [x]"

lemma length_lastn [simp]: "length (lastn w xs) = min w (length xs)"
  by (simp add: lastn_def)

lemma lastn_snoc: "0 < w \<Longrightarrow> lastn w (xs @ [x]) = push w x (lastn w xs)"
proof (cases "length xs < w")
  case False
  assume "0 < w"
  with False show ?thesis by (simp add: lastn_def push_def Suc_diff_le drop_Suc tl_drop)
qed (auto simp: lastn_def push_def)

lemma lastn_Nil [simp]: "lastn w [] = []"
  by (simp add: lastn_def)

lemma lastn_nth: "i < length (lastn w xs) \<Longrightarrow> lastn w xs ! i = xs ! (length xs - min w (length xs) + i)"
  by (auto simp: lastn_def min_def)

section \<open>Contract of a filter over a window\<close>

text \<open>Feeding samples one by one; the first abort ends the run.\<close>

fun feed :: "('a \<Rightarrow> 's \<Rightarrow> abort + 's) \<Rightarrow> 'a list \<Rightarrow> 's \<Rightarrow> abort + 's" where
  "feed ins [] s = Inr s"
| "feed ins (x # xs) s = bindE (ins x s) (feed ins xs)"

lemma feed_snoc: "feed ins (xs @ [x]) s = bindE (feed ins xs s) (ins x)"
proof (induction xs arbitrary: s)
  case Nil
  then show ?case by (cases "ins x s") simp_all
next
  case (Cons y ys)
  then show ?case by (cases "ins y s") simp_all
qed

text \<open>
  A filter relates its state to the whole history; adding a sample never aborts on a related state. A client
  feeds it any samples and reads a state related to the history.
\<close>

locale window_filter =
  fixes start :: 's
    and ins :: "'a \<Rightarrow> 's \<Rightarrow> abort + 's"
    and tracks :: "'a list \<Rightarrow> 's \<Rightarrow> bool"
  assumes tracks_start: "tracks [] start"
    and tracks_ins: "tracks xs s \<Longrightarrow> \<exists>t. ins x s = Inr t \<and> tracks (xs @ [x]) t"
begin

lemma feed_tracks: "\<exists>s. feed ins xs start = Inr s \<and> tracks xs s"
proof (induction xs rule: rev_induct)
  case (snoc x xs)
  then obtain s where s: "feed ins xs start = Inr s" "tracks xs s" by blast
  with tracks_ins show ?case by (fastforce simp: feed_snoc)
qed (simp add: tracks_start)

end

section \<open>Moving maximum over a time window\<close>

record 'a max_counter =
  samples :: "(int \<times> 'a) list"
  window_length_ms :: int
  last_call_time_ms :: int

definition MovingMaxCounter :: "int \<Rightarrow> 'a max_counter" where
  "MovingMaxCounter window = \<lparr>samples = [], window_length_ms = window, last_call_time_ms = - (2 ^ 63)\<rparr>"

definition RollWindow :: "int \<Rightarrow> 'a max_counter \<Rightarrow> abort + 'a max_counter" where
  "RollWindow new_time c =
     check (new_time \<ge> last_call_time_ms c)
       (bindE (i64 (new_time - window_length_ms c)) (\<lambda>window_begin.
          Inr (c\<lparr>last_call_time_ms := new_time, samples := dropWhile (\<lambda>p. fst p < window_begin) (samples c)\<rparr>)))"

text \<open>\<^verbatim>\<open>while (!empty && back <= sample) pop_back\<close>\<close>

definition pop_smaller :: "'a::linorder \<Rightarrow> (int \<times> 'a) list \<Rightarrow> (int \<times> 'a) list" where
  "pop_smaller x ps = rev (dropWhile (\<lambda>p. snd p \<le> x) (rev ps))"

definition MovingMax_Add :: "'a::linorder \<Rightarrow> int \<Rightarrow> 'a max_counter \<Rightarrow> abort + 'a max_counter" where
  "MovingMax_Add sample now c =
     bindE (RollWindow now c) (\<lambda>c.
       let ps = pop_smaller sample (samples c)
       in Inr (c\<lparr>samples := (if ps = [] \<or> fst (last ps) < now then ps @ [(now, sample)] else ps)\<rparr>))"

definition MovingMax_Max :: "int \<Rightarrow> 'a max_counter \<Rightarrow> abort + ('a option \<times> 'a max_counter)" where
  "MovingMax_Max now c =
     bindE (RollWindow now c) (\<lambda>c.
       Inr ((case samples c of [] \<Rightarrow> None | p # _ \<Rightarrow> Some (snd p)), c))"

definition MovingMax_Reset :: "'a max_counter \<Rightarrow> 'a max_counter" where
  "MovingMax_Reset c = c\<lparr>samples := []\<rparr>"

section \<open>Minimum of the last values\<close>

record 'v min_filter =
  max_size :: nat
  windex :: nat
  min_values :: "('v \<times> nat) list"

definition WindowedMinFilter :: "nat \<Rightarrow> abort + 'v min_filter" where
  "WindowedMinFilter window_length =
     check (window_length > 1) (Inr \<lparr>max_size = window_length, windex = 0, min_values = []\<rparr>)"

text \<open>\<^verbatim>\<open>while (back().value >= value) pop_back()\<close>, on the reversed deque.\<close>

fun pop_greater :: "'v::linorder \<Rightarrow> ('v \<times> nat) list \<Rightarrow> abort + ('v \<times> nat) list" where
  "pop_greater v [] = Inl OutOfBounds"
| "pop_greater v (p # ps) = (if fst p \<ge> v then pop_greater v ps else Inr (p # ps))"

definition MinFilter_Insert :: "'v::linorder \<Rightarrow> 'v min_filter \<Rightarrow> abort + 'v min_filter" where
  "MinFilter_Insert v f =
     bindE
       (if min_values f = [] then Inr []
        else
          let mv = (if snd (hd (min_values f)) = windex f then tl (min_values f) else min_values f)
          in if mv = [] then Inl OutOfBounds
             else if fst (hd mv) \<ge> v then Inr []
             else bindE (pop_greater v (rev mv)) (\<lambda>r. Inr (rev r)))
       (\<lambda>mv. check (length mv < max_size f)
          (Inr (f\<lparr>min_values := mv @ [(v, windex f)], windex := (windex f + 1) mod max_size f\<rparr>)))"

definition MinFilter_GetMin :: "'v::zero min_filter \<Rightarrow> 'v" where
  "MinFilter_GetMin f = (case min_values f of [] \<Rightarrow> 0 | p # _ \<Rightarrow> fst p)"

definition MinFilter_Reset :: "'v min_filter \<Rightarrow> 'v min_filter" where
  "MinFilter_Reset f = f\<lparr>min_values := [], windex := 0\<rparr>"

section \<open>Percentiles\<close>

text \<open>
  The multiset is its sorted list; the iterator is the position of the element it points at, which moves with the
  element when something is inserted or erased before it. \<open>target n\<close> is
  \<^verbatim>\<open>static_cast<int64_t>(percentile_ * (n - 1))\<close>, computed in single precision.
\<close>

record 'a percentile_filter =
  set_of :: "'a list"
  percentile_it :: nat
  percentile_index :: int

definition PercentileFilter :: "'a percentile_filter" where
  "PercentileFilter = \<lparr>set_of = [], percentile_it = 0, percentile_index = 0\<rparr>"

text \<open>\<^verbatim>\<open>std::advance\<close>, undefined outside the range of the set.\<close>

definition advance :: "int \<Rightarrow> 'a percentile_filter \<Rightarrow> abort + 'a percentile_filter" where
  "advance d f =
     (let p = int (percentile_it f) + d
      in if 0 \<le> p \<and> p \<le> int (length (set_of f)) then Inr (f\<lparr>percentile_it := nat p\<rparr>) else Inl OutOfBounds)"

definition UpdatePercentileIterator :: "(nat \<Rightarrow> int) \<Rightarrow> 'a percentile_filter \<Rightarrow> abort + 'a percentile_filter" where
  "UpdatePercentileIterator target f =
     (if set_of f = [] then Inr f
      else let index = target (length (set_of f))
           in bindE (advance (index - percentile_index f) f) (\<lambda>f. Inr (f\<lparr>percentile_index := index\<rparr>)))"

text \<open>Insertion at the upper bound; \<open>rank_le\<close> elements are before it.\<close>

definition rank_le :: "'a::linorder \<Rightarrow> 'a list \<Rightarrow> nat" where
  "rank_le x xs = length (takeWhile (\<lambda>y. y \<le> x) xs)"

definition rank_less :: "'a::linorder \<Rightarrow> 'a list \<Rightarrow> nat" where
  "rank_less x xs = length (takeWhile (\<lambda>y. y < x) xs)"

definition Percentile_Insert :: "(nat \<Rightarrow> int) \<Rightarrow> 'a::linorder \<Rightarrow> 'a percentile_filter \<Rightarrow> abort + 'a percentile_filter" where
  "Percentile_Insert target value f =
     (let k = rank_le value (set_of f);
          xs = take k (set_of f) @ value # drop k (set_of f);
          it = (if set_of f \<noteq> [] \<and> k \<le> percentile_it f then percentile_it f + 1 else percentile_it f);
          f1 = f\<lparr>set_of := xs, percentile_it := it\<rparr>
      in if length xs = 1 then UpdatePercentileIterator target (f1\<lparr>percentile_it := 0, percentile_index := 0\<rparr>)
         else if length xs \<le> it then Inl OutOfBounds
         else if value < xs ! it then UpdatePercentileIterator target (f1\<lparr>percentile_index := percentile_index f + 1\<rparr>)
         else UpdatePercentileIterator target f1)"

definition Percentile_Erase ::
  "(nat \<Rightarrow> int) \<Rightarrow> 'a::linorder \<Rightarrow> 'a percentile_filter \<Rightarrow> abort + (bool \<times> 'a percentile_filter)" where
  "Percentile_Erase target value f =
     (let k = rank_less value (set_of f); xs = take k (set_of f) @ drop (Suc k) (set_of f)
      in if k = length (set_of f) \<or> set_of f ! k \<noteq> value then Inr (False, f)
         else bindE
           (if k = percentile_it f then Inr (f\<lparr>set_of := xs\<rparr>)
            else
              let it = (if k < percentile_it f then percentile_it f - 1 else percentile_it f);
                  f1 = f\<lparr>set_of := xs, percentile_it := it\<rparr>
              in if length xs \<le> it then Inl OutOfBounds
                 else Inr (if value \<le> xs ! it then f1\<lparr>percentile_index := percentile_index f - 1\<rparr> else f1))
           (\<lambda>f. bindE (UpdatePercentileIterator target f) (\<lambda>f. Inr (True, f))))"

definition GetPercentileValue :: "'a::zero percentile_filter \<Rightarrow> abort + 'a" where
  "GetPercentileValue f =
     (if set_of f = [] then Inr 0
      else if length (set_of f) \<le> percentile_it f then Inl OutOfBounds else Inr (set_of f ! percentile_it f))"

definition Percentile_Reset :: "'a percentile_filter \<Rightarrow> 'a percentile_filter" where
  "Percentile_Reset f = f\<lparr>set_of := [], percentile_it := 0, percentile_index := 0\<rparr>"

record 'a moving_percentile =
  percentile_filter :: "'a percentile_filter"
  mp_samples :: "'a list"
  samples_stored :: nat
  window_size :: nat

definition MovingPercentileFilter :: "nat \<Rightarrow> abort + 'a moving_percentile" where
  "MovingPercentileFilter window =
     check (window > 0) (Inr \<lparr>percentile_filter = PercentileFilter, mp_samples = [], samples_stored = 0, window_size = window\<rparr>)"

definition MovingPercentile_Insert :: "(nat \<Rightarrow> int) \<Rightarrow> 'a::linorder \<Rightarrow> 'a moving_percentile \<Rightarrow> abort + 'a moving_percentile" where
  "MovingPercentile_Insert target value m =
     bindE (Percentile_Insert target value (percentile_filter m)) (\<lambda>f.
       let m1 = m\<lparr>percentile_filter := f, mp_samples := mp_samples m @ [value], samples_stored := samples_stored m + 1\<rparr>
       in if samples_stored m1 > window_size m1
          then bindE (Percentile_Erase target (hd (mp_samples m1)) f) (\<lambda>(b, f).
                 Inr (m1\<lparr>percentile_filter := f, mp_samples := tl (mp_samples m1), samples_stored := samples_stored m1 - 1\<rparr>))
          else Inr m1)"

definition GetFilteredValue :: "'a::zero moving_percentile \<Rightarrow> abort + 'a" where
  "GetFilteredValue m = GetPercentileValue (percentile_filter m)"

definition MovingPercentile_Reset :: "'a moving_percentile \<Rightarrow> 'a moving_percentile" where
  "MovingPercentile_Reset m =
     m\<lparr>percentile_filter := Percentile_Reset (percentile_filter m), mp_samples := [], samples_stored := 0\<rparr>"

definition GetNumberOfSamplesStored :: "'a moving_percentile \<Rightarrow> nat" where
  "GetNumberOfSamplesStored m = samples_stored m"

section \<open>The moving maximum is the maximum\<close>

text \<open>Operations with the times of their calls, run on the counter and on the whole history.\<close>

datatype 'a max_op = AddSample 'a int | AskMax int

fun op_time :: "'a max_op \<Rightarrow> int" where
  "op_time (AddSample x t) = t"
| "op_time (AskMax t) = t"

fun max_run :: "'a::linorder max_op list \<Rightarrow> 'a max_counter \<Rightarrow> abort + 'a option list" where
  "max_run [] c = Inr []"
| "max_run (AddSample x t # ops) c = bindE (MovingMax_Add x t c) (max_run ops)"
| "max_run (AskMax t # ops) c =
     bindE (MovingMax_Max t c) (\<lambda>(m, c). bindE (max_run ops c) (\<lambda>ms. Inr (m # ms)))"

definition window_max :: "int \<Rightarrow> int \<Rightarrow> (int \<times> 'a::linorder) list \<Rightarrow> 'a option" where
  "window_max w now hist =
     (let xs = map snd (filter (\<lambda>p. now - w \<le> fst p) hist) in if xs = [] then None else Some (Max (set xs)))"

fun max_spec :: "int \<Rightarrow> 'a::linorder max_op list \<Rightarrow> (int \<times> 'a) list \<Rightarrow> 'a option list" where
  "max_spec w [] hist = []"
| "max_spec w (AddSample x t # ops) hist = max_spec w ops (hist @ [(t, x)])"
| "max_spec w (AskMax t # ops) hist = window_max w t hist # max_spec w ops hist"

text \<open>Times increase and samples decrease; every sample of the window is dominated by a kept one that is not older.\<close>

definition max_tracks :: "int \<Rightarrow> (int \<times> 'a::linorder) list \<Rightarrow> 'a max_counter \<Rightarrow> bool" where
  "max_tracks w hist c \<longleftrightarrow> window_length_ms c = w \<and>
     sorted_wrt (\<lambda>p q. fst p < fst q \<and> snd p > snd q) (samples c) \<and> set (samples c) \<subseteq> set hist \<and>
     (\<forall>p \<in> set hist. last_call_time_ms c - w \<le> fst p \<longrightarrow> (\<exists>q \<in> set (samples c). fst p \<le> fst q \<and> snd p \<le> snd q)) \<and>
     (\<forall>p \<in> set hist. fst p \<le> last_call_time_ms c)"

lemma dropWhile_older:
  "sorted_wrt (\<lambda>p q. fst p < fst q \<and> snd p > snd q) ps \<Longrightarrow>
   dropWhile (\<lambda>p. fst p < b) ps = filter (\<lambda>p. b \<le> fst p) ps" for b :: int
  by (induction ps) (fastforce intro: filter_True [symmetric])+

lemma pop_smaller_filter:
  "sorted_wrt (\<lambda>p q. fst p < fst q \<and> snd p > snd q) ps \<Longrightarrow> pop_smaller x ps = filter (\<lambda>p. x < snd p) ps"
proof (induction ps rule: rev_induct)
  case (snoc p ps)
  then have IH: "pop_smaller x ps = filter (\<lambda>p. x < snd p) ps" by (simp add: sorted_wrt_append)
  show ?case
  proof (cases "snd p \<le> x")
    case True
    then have "pop_smaller x (ps @ [p]) = pop_smaller x ps" by (simp add: pop_smaller_def)
    with IH True show ?thesis by simp
  next
    case False
    then have "\<forall>q \<in> set (ps @ [p]). x < snd q" using snoc.prems by (auto simp: sorted_wrt_append)
    then show ?thesis using False by (simp add: pop_smaller_def filter_True)
  qed
qed (simp add: pop_smaller_def)

lemma roll_tracks:
  assumes tr: "max_tracks w hist c" and t: "last_call_time_ms c \<le> now" "in_i64 (now - w)"
  shows "\<exists>d. RollWindow now c = Inr d \<and> max_tracks w hist d \<and> last_call_time_ms d = now \<and>
    (\<forall>q \<in> set (samples d). now - w \<le> fst q)"
proof -
  let ?d = "c\<lparr>last_call_time_ms := now, samples := filter (\<lambda>p. now - w \<le> fst p) (samples c)\<rparr>"
  have "RollWindow now c = Inr ?d"
    using assms by (simp add: RollWindow_def max_tracks_def i64_def dropWhile_older)
  moreover have "max_tracks w hist ?d"
    unfolding max_tracks_def
  proof (intro conjI ballI impI)
    fix p assume p: "p \<in> set hist" "last_call_time_ms ?d - w \<le> fst p"
    with tr t obtain q where "q \<in> set (samples c)" "fst p \<le> fst q" "snd p \<le> snd q"
      by (fastforce simp: max_tracks_def)
    with p show "\<exists>q \<in> set (samples ?d). fst p \<le> fst q \<and> snd p \<le> snd q" by (intro bexI [of _ q]) auto
  next
    fix p assume "p \<in> set hist"
    with tr t show "fst p \<le> last_call_time_ms ?d" by (fastforce simp: max_tracks_def)
  qed (use tr in \<open>auto simp: max_tracks_def sorted_wrt_filter\<close>)
  ultimately show ?thesis by (intro exI [of _ ?d]) simp
qed

lemma add_tracks:
  assumes tr: "max_tracks w hist c" and t: "last_call_time_ms c \<le> now" "in_i64 (now - w)"
  shows "\<exists>d. MovingMax_Add x now c = Inr d \<and> max_tracks w (hist @ [(now, x)]) d \<and> last_call_time_ms d = now"
proof -
  obtain e where e: "RollWindow now c = Inr e" "max_tracks w hist e" "last_call_time_ms e = now"
    using roll_tracks [OF assms] by blast
  define ps where "ps = filter (\<lambda>p. x < snd p) (samples e)"
  have sorted: "sorted_wrt (\<lambda>p q. fst p < fst q \<and> snd p > snd q) (samples e)" using e(2) by (simp add: max_tracks_def)
  have ps: "pop_smaller x (samples e) = ps" by (simp add: ps_def pop_smaller_filter [OF sorted])
  define d where "d = e\<lparr>samples := (if ps = [] \<or> fst (last ps) < now then ps @ [(now, x)] else ps)\<rparr>"
  have "MovingMax_Add x now c = Inr d" by (simp add: MovingMax_Add_def e(1) ps d_def Let_def)
  moreover have "max_tracks w (hist @ [(now, x)]) d"
  proof -
    have sp: "sorted_wrt (\<lambda>p q. fst p < fst q \<and> snd p > snd q) ps" using sorted by (simp add: ps_def sorted_wrt_filter)
    have late: "\<forall>p \<in> set ps. fst p \<le> fst (last ps)"
    proof
      fix p assume "p \<in> set ps"
      with sp show "fst p \<le> fst (last ps)" by (cases ps rule: rev_cases) (fastforce simp: sorted_wrt_append)+
    qed
    have dom: "\<exists>q \<in> set (samples d). now \<le> fst q \<and> x \<le> snd q"
    proof (cases "ps = [] \<or> fst (last ps) < now")
      case True
      then show ?thesis by (simp add: d_def)
    next
      case False
      then have "last ps \<in> set ps" "now \<le> fst (last ps)" by simp_all
      moreover from this have "x < snd (last ps)" by (simp add: ps_def)
      ultimately show ?thesis using False by (auto simp: d_def intro!: bexI [of _ "last ps"])
    qed
    have keep: "\<exists>q \<in> set (samples d). fst p \<le> fst q \<and> snd p \<le> snd q"
      if p: "p \<in> set hist" "now - w \<le> fst p" for p
    proof -
      obtain q where q: "q \<in> set (samples e)" "fst p \<le> fst q" "snd p \<le> snd q"
        using e p by (fastforce simp: max_tracks_def)
      show ?thesis
      proof (cases "x < snd q")
        case True
        with q show ?thesis by (intro bexI [of _ q]) (auto simp: d_def ps_def)
      next
        case False
        have "fst p \<le> now" using e p by (auto simp: max_tracks_def)
        with dom False q show ?thesis by (meson linorder_not_less order_trans)
      qed
    qed
    have "sorted_wrt (\<lambda>p q. fst p < fst q \<and> snd p > snd q) (samples d)"
    proof (cases "ps = [] \<or> fst (last ps) < now")
      case True
      moreover have "\<forall>p \<in> set ps. fst p < now \<and> x < snd p" using True late by (fastforce simp: ps_def)
      ultimately show ?thesis using sp by (simp add: d_def sorted_wrt_append)
    qed (use sp in \<open>simp add: d_def\<close>)
    moreover have "set (samples d) \<subseteq> set (hist @ [(now, x)])" using e(2) by (auto simp: d_def ps_def max_tracks_def)
    moreover have "window_length_ms d = w" "last_call_time_ms d = now" using e by (simp_all add: d_def max_tracks_def)
    ultimately show ?thesis
      using keep dom e by (auto simp: max_tracks_def)
  qed
  moreover have "last_call_time_ms d = now" using e by (simp add: d_def)
  ultimately show ?thesis by blast
qed

lemma ask_tracks:
  assumes tr: "max_tracks w hist c" and t: "last_call_time_ms c \<le> now" "in_i64 (now - w)"
  shows "\<exists>d. MovingMax_Max now c = Inr (window_max w now hist, d) \<and> max_tracks w hist d \<and> last_call_time_ms d = now"
proof -
  obtain d where d: "RollWindow now c = Inr d" "max_tracks w hist d" "last_call_time_ms d = now"
    "\<forall>q \<in> set (samples d). now - w \<le> fst q"
    using roll_tracks [OF assms] by blast
  have "(case samples d of [] \<Rightarrow> None | p # _ \<Rightarrow> Some (snd p)) = window_max w now hist"
  proof (cases "samples d")
    case Nil
    with d have "\<forall>p \<in> set hist. \<not> now - w \<le> fst p" by (fastforce simp: max_tracks_def)
    with Nil show ?thesis by (simp add: window_max_def filter_empty_conv Let_def)
  next
    case (Cons p ps)
    let ?xs = "map snd (filter (\<lambda>p. now - w \<le> fst p) hist)"
    have in_xs: "snd p \<in> set ?xs" using d Cons by (auto simp: max_tracks_def)
    have "y \<le> snd p" if "y \<in> set ?xs" for y
    proof -
      from that obtain q where "q \<in> set hist" "now - w \<le> fst q" "y = snd q" by auto
      with d obtain r where "r \<in> set (samples d)" "y \<le> snd r" by (fastforce simp: max_tracks_def)
      then show ?thesis using d(2) Cons by (fastforce simp: max_tracks_def)
    qed
    with in_xs have "Max (set ?xs) = snd p" by (intro Max_eqI) auto
    moreover have "?xs \<noteq> []" using in_xs by force
    ultimately show ?thesis using Cons by (simp add: window_max_def)
  qed
  with d show ?thesis by (simp add: MovingMax_Max_def)
qed

lemma max_run_exact:
  "max_tracks w hist c \<Longrightarrow> sorted (map op_time ops) \<Longrightarrow> \<forall>t \<in> set (map op_time ops). last_call_time_ms c \<le> t \<and> in_i64 (t - w)
   \<Longrightarrow> max_run ops c = Inr (max_spec w ops hist)"
proof (induction ops arbitrary: c hist)
  case (Cons p ops)
  show ?case
  proof (cases p)
    case (AddSample x t)
    with Cons.prems add_tracks [of w hist c t x] obtain d
      where "MovingMax_Add x t c = Inr d" "max_tracks w (hist @ [(t, x)]) d" "last_call_time_ms d = t" by auto
    with Cons AddSample show ?thesis by auto
  next
    case (AskMax t)
    with Cons.prems ask_tracks [of w hist c t] obtain d
      where "MovingMax_Max t c = Inr (window_max w t hist, d)" "max_tracks w hist d" "last_call_time_ms d = t" by auto
    moreover from this Cons AskMax have "max_run ops d = Inr (max_spec w ops hist)" by auto
    ultimately show ?thesis using AskMax by simp
  qed
qed simp

text \<open>
  For any sequence of additions and queries at times that never go back, the counter never aborts and every query
  answers the maximum of all samples added so far whose time lies in the window that ends at the
  query, none if there is none: the samples the counter forgets do not matter. (Times and window are not negative, so that
  no difference overflows.)
\<close>

theorem moving_max_exact:
  assumes "sorted (map op_time ops)" and "\<forall>t \<in> set (map op_time ops). 0 \<le> t \<and> t < 2 ^ 63" and "0 \<le> w" "w < 2 ^ 63"
  shows "max_run ops (MovingMaxCounter w) = Inr (max_spec w ops [])"
proof (rule max_run_exact)
  show "max_tracks w [] (MovingMaxCounter w)" by (simp add: max_tracks_def MovingMaxCounter_def)
  show "\<forall>t \<in> set (map op_time ops). last_call_time_ms (MovingMaxCounter w) \<le> t \<and> in_i64 (t - w)"
    using assms(2-4) by (fastforce simp: MovingMaxCounter_def in_i64_def)
qed (rule assms(1))

theorem moving_max_exact_witness:
  "max_run [AddSample (5::int) 0, AddSample 3 4, AskMax 9, AskMax 11, AskMax 20] (MovingMaxCounter 10) = Inr [Some 5, Some 3, None]"
  using moving_max_exact [of "[AddSample (5::int) 0, AddSample 3 4, AskMax 9, AskMax 11, AskMax 20]" 10]
  by (simp add: window_max_def)

section \<open>The windowed minimum is the minimum\<close>

text \<open>The positions in \<open>[a, b)\<close> whose value is smaller than every later one.\<close>

definition mins :: "'v::linorder list \<Rightarrow> nat \<Rightarrow> nat \<Rightarrow> nat list" where
  "mins xs a b = filter (\<lambda>i. \<forall>j \<in> {i <..< b}. xs ! i < xs ! j) [a ..< b]"

lemma mins_sorted: "sorted_wrt (\<lambda>i j. i < j \<and> xs ! i < xs ! j) (mins xs a b)"
proof -
  have "sorted_wrt (<) (mins xs a b)" by (simp add: mins_def sorted_wrt_filter)
  then show ?thesis by (rule sorted_wrt_mono_rel [rotated]) (auto simp: mins_def)
qed

lemma mins_last: "a < b \<Longrightarrow> b - 1 \<in> set (mins xs a b)"
  by (auto simp: mins_def)

lemma mins_first: "a < b \<Longrightarrow> mins xs a b = (if \<forall>j \<in> {a <..< b}. xs ! a < xs ! j then [a] else []) @ mins xs (Suc a) b"
  by (simp add: mins_def upt_conv_Cons)

lemma mins_snoc:
  assumes "a \<le> length xs"
  shows "mins (xs @ [v]) a (Suc (length xs)) = filter (\<lambda>i. xs ! i < v) (mins xs a (length xs)) @ [length xs]"
proof -
  have "filter (\<lambda>i. \<forall>j \<in> {i <..< Suc (length xs)}. (xs @ [v]) ! i < (xs @ [v]) ! j) [a ..< length xs] =
      filter (\<lambda>i. xs ! i < v \<and> (\<forall>j \<in> {i <..< length xs}. xs ! i < xs ! j)) [a ..< length xs]"
  proof (rule filter_cong [OF refl])
    fix i assume "i \<in> set [a ..< length xs]"
    then have "{i <..< Suc (length xs)} = insert (length xs) {i <..< length xs}" "i < length xs" by auto
    then show "(\<forall>j \<in> {i <..< Suc (length xs)}. (xs @ [v]) ! i < (xs @ [v]) ! j) =
        (xs ! i < v \<and> (\<forall>j \<in> {i <..< length xs}. xs ! i < xs ! j))"
      by (simp add: nth_append)
  qed
  moreover have "{length xs <..< Suc (length xs)} = {}" by auto
  ultimately show ?thesis using assms by (simp add: mins_def conj_commute)
qed

text \<open>Every value of the range is at least the value of the first minimum.\<close>

lemma mins_dominate:
  assumes "a \<le> j" "j < b"
  shows "\<exists>i \<in> set (mins xs a b). xs ! i \<le> xs ! j"
  using assms
proof (induction "b - j" arbitrary: j rule: less_induct)
  case less
  show ?case
  proof (cases "\<forall>k \<in> {j <..< b}. xs ! j < xs ! k")
    case True
    with less.prems show ?thesis by (intro bexI [of _ j]) (auto simp: mins_def)
  next
    case False
    then obtain k where k: "j < k" "k < b" "xs ! k \<le> xs ! j" by (auto simp: not_less)
    from k less.prems have "b - k < b - j" "a \<le> k" by linarith+
    with less.hyps k(2) obtain i where "i \<in> set (mins xs a b)" "xs ! i \<le> xs ! k" by blast
    with k show ?thesis by (meson order_trans)
  qed
qed

lemma mins_hd_Min:
  assumes "a < b" "b \<le> length xs"
  shows "mins xs a b \<noteq> [] \<and> xs ! hd (mins xs a b) = Min ((!) xs ` {a ..< b})"
proof -
  have ne: "mins xs a b \<noteq> []" using mins_last [OF assms(1), of xs] by force
  then obtain h hs where m: "mins xs a b = h # hs" by (cases "mins xs a b") auto
  then have "h \<in> set (mins xs a b)" by simp
  then have h: "h \<in> {a ..< b}" by (simp add: mins_def)
  have "xs ! h \<le> xs ! j" if "j \<in> {a ..< b}" for j
  proof -
    from that mins_dominate [of a j b xs] obtain i where i: "i \<in> set (mins xs a b)" "xs ! i \<le> xs ! j" by auto
    have "xs ! h \<le> xs ! i" using i(1) mins_sorted [of xs a b] by (auto simp: m)
    with i(2) show ?thesis by simp
  qed
  with h have "Min ((!) xs ` {a ..< b}) = xs ! h" by (intro Min_eqI) auto
  with m show ?thesis by simp
qed

definition min_tracks :: "nat \<Rightarrow> 'v::linorder list \<Rightarrow> 'v min_filter \<Rightarrow> bool" where
  "min_tracks w xs f \<longleftrightarrow> max_size f = w \<and> windex f = length xs mod w \<and>
     min_values f = map (\<lambda>i. (xs ! i, i mod w)) (mins xs (length xs - w) (length xs))"

lemma pop_greater_filter:
  "sorted_wrt (\<lambda>p q. fst p < fst q) ps \<Longrightarrow> ps \<noteq> [] \<Longrightarrow> fst (hd ps) < v \<Longrightarrow>
   pop_greater v (rev ps) = Inr (rev (filter (\<lambda>p. fst p < v) ps))"
proof (induction ps rule: rev_induct)
  case (snoc p ps)
  show ?case
  proof (cases "fst p \<ge> v")
    case True
    then have "ps \<noteq> []" using snoc.prems by (cases ps) auto
    moreover have "hd (ps @ [p]) = hd ps" using \<open>ps \<noteq> []\<close> by simp
    ultimately show ?thesis using snoc True by (auto simp: sorted_wrt_append)
  next
    case False
    then have "\<forall>q \<in> set (ps @ [p]). fst q < v" using snoc.prems by (auto simp: sorted_wrt_append)
    then have "filter (\<lambda>p. fst p < v) (ps @ [p]) = ps @ [p]" by (rule filter_True)
    with False show ?thesis by simp
  qed
qed simp

text \<open>The slot of the oldest value comes round again exactly when the window is full.\<close>

lemma slot_of_oldest:
  fixes w N i :: nat
  assumes "1 < w" "N - w \<le> i" "i < N"
  shows "i mod w = N mod w \<longleftrightarrow> i + w = N"
proof
  assume e: "i mod w = N mod w"
  then have "w dvd N - i" using mod_eq_dvd_iff_nat [of i N w] assms(3) by simp
  then have "w \<le> N - i" using assms(3) by (simp add: dvd_imp_le)
  with assms show "i + w = N" by linarith
qed auto

text \<open>What remains of the deque after the oldest value has left the window.\<close>

lemma min_expire:
  assumes w: "1 < w" and N: "0 < length xs"
    and mv: "mv = map (\<lambda>i. (xs ! i, i mod w)) (mins xs (length xs - w) (length xs))"
  shows "mv \<noteq> [] \<and> (if snd (hd mv) = length xs mod w then tl mv else mv) =
    map (\<lambda>i. (xs ! i, i mod w)) (mins xs (Suc (length xs) - w) (length xs))"
proof -
  let ?N = "length xs"
  let ?a = "?N - w"
  have lt: "?a < ?N" using w N by simp
  have ne: "mins xs ?a ?N \<noteq> []" using mins_last [OF lt, of xs] by force
  have hd_in: "?a \<le> hd (mins xs ?a ?N)" "hd (mins xs ?a ?N) < ?N"
    using ne list.set_sel(1) [OF ne] by (simp_all add: mins_def)
  have slot: "snd (hd mv) = ?N mod w \<longleftrightarrow> hd (mins xs ?a ?N) + w = ?N"
    using slot_of_oldest [OF w hd_in] ne by (simp add: mv hd_map)
  show ?thesis
  proof (cases "?N < w")
    case True
    then have "Suc ?N - w = ?a" by simp
    moreover have "hd (mins xs ?a ?N) + w \<noteq> ?N" using True by simp
    ultimately show ?thesis using ne slot by (simp add: mv)
  next
    case False
    then have s: "Suc ?N - w = Suc ?a" by simp
    show ?thesis
    proof (cases "\<forall>j \<in> {?a <..< ?N}. xs ! ?a < xs ! j")
      case True
      with mins_first [OF lt, of xs] have m: "mins xs ?a ?N = ?a # mins xs (Suc ?a) ?N" by simp
      with slot False show ?thesis by (simp add: mv s)
    next
      case no: False
      with mins_first [OF lt, of xs] have m: "mins xs ?a ?N = mins xs (Suc ?a) ?N" by auto
      have "Suc ?a \<le> hd (mins xs ?a ?N)" using list.set_sel(1) [OF ne] unfolding m by (simp add: mins_def)
      then have "hd (mins xs ?a ?N) + w \<noteq> ?N" using False by linarith
      with slot ne show ?thesis unfolding mv s by (simp add: m)
    qed
  qed
qed

lemma min_insert_tracks:
  assumes w: "1 < w" and tr: "min_tracks w xs f"
  shows "\<exists>g. MinFilter_Insert v f = Inr g \<and> min_tracks w (xs @ [v]) g"
proof -
  let ?N = "length xs" and ?g = "\<lambda>i. (xs ! i, i mod w)"
  let ?a = "Suc ?N - w"
  let ?ms = "mins xs ?a ?N"
  have a: "?a \<le> ?N" using w by simp
  define kept where "kept = map ?g (filter (\<lambda>i. xs ! i < v) ?ms)"
  have f: "max_size f = w" "windex f = ?N mod w" "min_values f = map ?g (mins xs (?N - w) ?N)"
    using tr by (simp_all add: min_tracks_def)
  have len: "length kept < w"
  proof -
    have "length kept \<le> length [?a ..< ?N]"
      unfolding kept_def mins_def length_map by (meson length_filter_le order_trans)
    then show ?thesis using w by simp
  qed
  have trim: "(if min_values f = [] then Inr []
        else let mv = (if snd (hd (min_values f)) = windex f then tl (min_values f) else min_values f)
          in if mv = [] then Inl OutOfBounds else if fst (hd mv) \<ge> v then Inr []
             else bindE (pop_greater v (rev mv)) (\<lambda>r. Inr (rev r))) = Inr kept"
  proof (cases "?N = 0")
    case True
    then show ?thesis by (simp add: f mins_def kept_def)
  next
    case False
    with min_expire [OF w _ f(3)] have e: "min_values f \<noteq> []"
      "(if snd (hd (min_values f)) = windex f then tl (min_values f) else min_values f) = map ?g ?ms"
      by (simp_all add: f)
    have "?a < ?N" using False w by linarith
    then have "?N - 1 \<in> set ?ms" by (rule mins_last)
    then have ne: "?ms \<noteq> []" by force
    have sorted: "sorted_wrt (\<lambda>p q. fst p < fst q) (map ?g ?ms)"
      using mins_sorted [of xs ?a ?N] by (simp add: sorted_wrt_map sorted_wrt_mono_rel [rotated])
    have k: "kept = filter (\<lambda>p. fst p < v) (map ?g ?ms)" by (simp add: kept_def filter_map comp_def)
    show ?thesis
    proof (cases "fst (hd (map ?g ?ms)) \<ge> v")
      case True
      obtain h hs where m: "?ms = h # hs" using ne by (cases ?ms) auto
      from True m have "v \<le> xs ! h" by simp
      moreover have "\<forall>i \<in> set hs. xs ! h < xs ! i" using mins_sorted [of xs ?a ?N] by (simp add: m)
      ultimately have "\<forall>i \<in> set ?ms. \<not> xs ! i < v" by (fastforce simp: m)
      then have "kept = []" by (simp add: kept_def filter_empty_conv)
      with True e ne show ?thesis by (simp add: Let_def)
    next
      case False
      with pop_greater_filter [OF sorted, of v] ne have "pop_greater v (rev (map ?g ?ms)) = Inr (rev kept)"
        by (simp add: k del: rev_map)
      with False e ne show ?thesis by (simp add: Let_def del: rev_map)
    qed
  qed
  have nn: "map (\<lambda>i. ((xs @ [v]) ! i, i mod w)) (mins (xs @ [v]) ?a (Suc ?N)) = kept @ [(v, ?N mod w)]"
    unfolding mins_snoc [OF a] kept_def by (auto simp: mins_def nth_append)
  have "MinFilter_Insert v f = Inr (f\<lparr>min_values := kept @ [(v, ?N mod w)], windex := Suc ?N mod w\<rparr>)"
    unfolding MinFilter_Insert_def trim using len by (simp add: f mod_Suc_eq)
  with nn f show ?thesis by (simp add: min_tracks_def)
qed

lemma set_lastn: "set (lastn w xs) = (!) xs ` {length xs - w ..< length xs}"
proof -
  have "lastn w xs = map ((!) xs) [length xs - w ..< length xs]"
    by (rule nth_equalityI) (simp_all add: lastn_def)
  then show ?thesis by simp
qed

definition min_start :: "nat \<Rightarrow> 'v min_filter" where
  "min_start w = \<lparr>max_size = w, windex = 0, min_values = []\<rparr>"

interpretation windowed_min: window_filter "min_start (n + 2)" MinFilter_Insert "min_tracks (n + 2)" for n
proof
  show "min_tracks (n + 2) [] (min_start (n + 2))" by (simp add: min_tracks_def min_start_def mins_def)
  show "\<exists>t. MinFilter_Insert x s = Inr t \<and> min_tracks (n + 2) (xs @ [x]) t" if "min_tracks (n + 2) xs s" for xs s and x :: 'a
    using that by (intro min_insert_tracks) simp_all
qed

text \<open>
  A filter with a window of at least two values accepts any sequence of values without aborting (its deque is
  never read when it is empty and never outgrows the window), and after it answers the minimum
  of the last values, as many as the window holds; for a smaller window its construction aborts.
\<close>

theorem windowed_min_exact:
  fixes xs :: "'v::{linorder,zero} list"
  assumes "xs \<noteq> []"
  shows "if 1 < w
    then \<exists>f0 f. WindowedMinFilter w = Inr f0 \<and> feed MinFilter_Insert xs f0 = Inr f \<and>
           MinFilter_GetMin f = Min (set (lastn w xs))
    else (WindowedMinFilter w :: abort + 'v min_filter) = Inl CheckFailed"
proof (cases "1 < w")
  case True
  then obtain n where w: "w = n + 2" by (metis add.commute less_iff_succ_less_eq nat_le_iff_add one_add_one plus_1_eq_Suc)
  from windowed_min.feed_tracks [of xs n] obtain f
    where f: "feed MinFilter_Insert xs (min_start w) = Inr f" "min_tracks w xs f" unfolding w by blast
  have lt: "length xs - w < length xs" using assms True by simp
  note m = mins_hd_Min [OF lt order_refl]
  have "MinFilter_GetMin f = xs ! hd (mins xs (length xs - w) (length xs))"
    using f(2) m by (cases "mins xs (length xs - w) (length xs)") (auto simp: MinFilter_GetMin_def min_tracks_def)
  with f m True show ?thesis by (simp add: WindowedMinFilter_def min_start_def set_lastn)
qed (simp add: WindowedMinFilter_def)

theorem windowed_min_exact_witness:
  "\<exists>f0 f. WindowedMinFilter 2 = Inr f0 \<and> feed MinFilter_Insert [1, 5, 3 :: int] f0 = Inr f \<and> MinFilter_GetMin f = 3"
  using windowed_min_exact [of "[1, 5, 3 :: int]" 2] by (simp add: lastn_def)

section \<open>Percentiles\<close>

text \<open>The float arithmetic of the target index stays inside the set.\<close>

definition target_ok :: "(nat \<Rightarrow> int) \<Rightarrow> bool" where
  "target_ok target \<longleftrightarrow> (\<forall>n > 0. 0 \<le> target n \<and> target n < int n)"

text \<open>The set holds the observations in order and the iterator is at the target.\<close>

definition percentile_tracks :: "(nat \<Rightarrow> int) \<Rightarrow> 'a::linorder list \<Rightarrow> 'a percentile_filter \<Rightarrow> bool" where
  "percentile_tracks target xs f \<longleftrightarrow> set_of f = sort xs \<and>
     (xs \<noteq> [] \<longrightarrow> percentile_index f = target (length xs) \<and> int (percentile_it f) = target (length xs))"

lemma rank_le_insort: "sorted ys \<Longrightarrow> take (rank_le x ys) ys @ x # drop (rank_le x ys) ys = insort x ys"
proof (induction ys)
  case (Cons y ys)
  show ?case
  proof (cases "y \<le> x")
    case True
    show ?thesis
    proof (cases "x \<le> y")
      case xy: True
      with True have "x = y" by simp
      have "sorted ys" "\<forall>z \<in> set ys. y \<le> z" using Cons.prems by simp_all
      then have "take (rank_le y ys) ys @ y # drop (rank_le y ys) ys = y # ys"
        using Cons.IH \<open>x = y\<close> by (simp add: insort_is_Cons)
      with \<open>x = y\<close> show ?thesis by (simp add: rank_le_def)
    next
      case False
      with Cons True show ?thesis by (simp add: rank_le_def)
    qed
  next
    case False
    then have "x \<le> y" by simp
    with False show ?thesis by (simp add: rank_le_def)
  qed
qed (simp add: rank_le_def)

lemma rank_le_nth: "sorted ys \<Longrightarrow> i < length ys \<Longrightarrow> rank_le x ys \<le> i \<longleftrightarrow> x < ys ! i"
proof -
  assume s: "sorted ys" and i: "i < length ys"
  show ?thesis
  proof
    assume "rank_le x ys \<le> i"
    then have "rank_le x ys < length ys" using i by simp
    then have "\<not> ys ! rank_le x ys \<le> x" unfolding rank_le_def by (rule nth_length_takeWhile)
    moreover have "ys ! rank_le x ys \<le> ys ! i" using s \<open>rank_le x ys \<le> i\<close> i by (simp add: sorted_nth_mono)
    ultimately show "x < ys ! i" by simp
  next
    assume x: "x < ys ! i"
    show "rank_le x ys \<le> i"
    proof (rule ccontr)
      assume "\<not> rank_le x ys \<le> i"
      then have "i < length (takeWhile (\<lambda>y. y \<le> x) ys)" by (simp add: rank_le_def)
      then have "takeWhile (\<lambda>y. y \<le> x) ys ! i \<le> x" by (metis nth_mem set_takeWhileD)
      with \<open>i < length (takeWhile (\<lambda>y. y \<le> x) ys)\<close> x show False by (simp add: takeWhile_nth)
    qed
  qed
qed

lemma rank_less_nth: "sorted ys \<Longrightarrow> i < length ys \<Longrightarrow> rank_less x ys \<le> i \<longleftrightarrow> x \<le> ys ! i"
proof -
  assume s: "sorted ys" and i: "i < length ys"
  show ?thesis
  proof
    assume "rank_less x ys \<le> i"
    then have "rank_less x ys < length ys" using i by simp
    then have "\<not> ys ! rank_less x ys < x" unfolding rank_less_def by (rule nth_length_takeWhile)
    moreover have "ys ! rank_less x ys \<le> ys ! i" using s \<open>rank_less x ys \<le> i\<close> i by (simp add: sorted_nth_mono)
    ultimately show "x \<le> ys ! i" by simp
  next
    assume x: "x \<le> ys ! i"
    show "rank_less x ys \<le> i"
    proof (rule ccontr)
      assume "\<not> rank_less x ys \<le> i"
      then have "i < length (takeWhile (\<lambda>y. y < x) ys)" by (simp add: rank_less_def)
      then have "takeWhile (\<lambda>y. y < x) ys ! i < x" by (metis nth_mem set_takeWhileD)
      with \<open>i < length (takeWhile (\<lambda>y. y < x) ys)\<close> x show False by (simp add: takeWhile_nth)
    qed
  qed
qed

text \<open>Removing the first occurrence.\<close>

lemma rank_less_remove:
  assumes "sorted ys" "x \<in> set ys"
  shows "rank_less x ys < length ys" "ys ! rank_less x ys = x"
    "take (rank_less x ys) ys @ drop (Suc (rank_less x ys)) ys = remove1 x ys"
proof -
  obtain i where i: "i < length ys" "ys ! i = x" using assms(2) by (auto simp: in_set_conv_nth)
  with rank_less_nth [OF assms(1), of i x] have le: "rank_less x ys \<le> i" by simp
  with i show lt: "rank_less x ys < length ys" by simp
  have "x \<le> ys ! rank_less x ys" using rank_less_nth [OF assms(1) lt] by blast
  moreover have "ys ! rank_less x ys \<le> x" using sorted_nth_mono [OF assms(1) le i(1)] i(2) by simp
  ultimately show e: "ys ! rank_less x ys = x" by simp
  have ni: "x \<notin> set (take (rank_less x ys) ys)"
    using set_takeWhileD [of x "\<lambda>y. y < x" ys] takeWhile_eq_take [of "\<lambda>y. y < x" ys] by (auto simp: rank_less_def)
  have "remove1 x (take (rank_less x ys) ys @ x # drop (Suc (rank_less x ys)) ys) =
      take (rank_less x ys) ys @ drop (Suc (rank_less x ys)) ys" using ni by (simp add: remove1_append)
  moreover have "take (rank_less x ys) ys @ x # drop (Suc (rank_less x ys)) ys = ys"
    using id_take_nth_drop [OF lt] e by simp
  ultimately show "take (rank_less x ys) ys @ drop (Suc (rank_less x ys)) ys = remove1 x ys" by simp
qed

lemma update_iterator:
  assumes "target_ok target" and "set_of f \<noteq> []" and "int (percentile_it f) = percentile_index f"
  shows "UpdatePercentileIterator target f =
    Inr (f\<lparr>percentile_it := nat (target (length (set_of f))), percentile_index := target (length (set_of f))\<rparr>)"
proof -
  have "0 \<le> target (length (set_of f))" "target (length (set_of f)) < int (length (set_of f))"
    using assms(1,2) by (simp_all add: target_ok_def)
  with assms(2,3) show ?thesis by (simp add: UpdatePercentileIterator_def advance_def Let_def)
qed

lemma percentile_insert_tracks:
  assumes ok: "target_ok target" and tr: "percentile_tracks target xs f"
  shows "\<exists>g. Percentile_Insert target x f = Inr g \<and> percentile_tracks target (xs @ [x]) g"
proof -
  let ?k = "rank_le x (sort xs)"
  have s: "set_of f = sort xs" using tr by (simp add: percentile_tracks_def)
  have ins: "take ?k (sort xs) @ x # drop ?k (sort xs) = insort x (sort xs)" by (rule rank_le_insort) simp
  have srt: "sort (xs @ [x]) = insort x (sort xs)" by (rule properties_for_sort) (simp_all add: sorted_insort)
  show ?thesis
  proof (cases "xs = []")
    case True
    let ?g = "f\<lparr>set_of := [x], percentile_it := 0, percentile_index := 0\<rparr>"
    have "Percentile_Insert target x f = UpdatePercentileIterator target ?g"
      using True s by (simp add: Percentile_Insert_def Let_def)
    also have "\<dots> = Inr (?g\<lparr>percentile_it := nat (target 1), percentile_index := target 1\<rparr>)"
      using update_iterator [OF ok, of ?g] by simp
    finally show ?thesis using True ok by (simp add: percentile_tracks_def target_ok_def)
  next
    case False
    let ?it = "percentile_it f" and ?n = "length xs"
    have it: "percentile_index f = int ?it" "?it < ?n"
      using tr False ok by (auto simp: percentile_tracks_def target_ok_def)
    define it where "it = (if ?k \<le> ?it then ?it + 1 else ?it)"
    have before: "x < insort x (sort xs) ! it \<longleftrightarrow> ?k \<le> ?it"
    proof (cases "?k \<le> ?it")
      case True
      then have "insort x (sort xs) ! it = sort xs ! ?it"
        using it(2) unfolding ins [symmetric] it_def by (simp add: nth_append min_def nth_Cons' Suc_diff_le)
      moreover have "x < sort xs ! ?it" using rank_le_nth [of "sort xs" ?it x] it(2) True by simp
      ultimately show ?thesis using True by simp
    next
      case k: False
      then have "insort x (sort xs) ! it = sort xs ! ?it"
        using it(2) unfolding ins [symmetric] it_def by (simp add: nth_append)
      moreover have "\<not> x < sort xs ! ?it" using rank_le_nth [of "sort xs" ?it x] it(2) k by simp
      ultimately show ?thesis using k by simp
    qed
    let ?g = "f\<lparr>set_of := insort x (sort xs), percentile_it := it, percentile_index := int it\<rparr>"
    have "Percentile_Insert target x f = UpdatePercentileIterator target ?g"
    proof -
      have ne: "sort xs \<noteq> []" using False by (metis length_0_conv length_sort)
      have "Percentile_Insert target x f =
          (if x < insort x (sort xs) ! it
           then UpdatePercentileIterator target (f\<lparr>set_of := insort x (sort xs), percentile_it := it, percentile_index := percentile_index f + 1\<rparr>)
           else UpdatePercentileIterator target (f\<lparr>set_of := insort x (sort xs), percentile_it := it\<rparr>))"
        unfolding Percentile_Insert_def Let_def s ins using it(2) ne False by (simp add: it_def)
      also have "\<dots> = UpdatePercentileIterator target ?g"
        unfolding before using it(1) by (cases f) (simp add: it_def add.commute)
      finally show ?thesis .
    qed
    also have "\<dots> = Inr (?g\<lparr>percentile_it := nat (target (Suc ?n)), percentile_index := target (Suc ?n)\<rparr>)"
      using update_iterator [OF ok, of ?g] by (simp add: insort_not_Nil)
    finally show ?thesis using ok by (simp add: percentile_tracks_def srt target_ok_def)
  qed
qed

lemma percentile_erase_tracks:
  assumes ok: "target_ok target" and tr: "percentile_tracks target (x # xs) f"
  shows "\<exists>g. Percentile_Erase target x f = Inr (True, g) \<and> percentile_tracks target xs g"
proof -
  let ?ys = "sort (x # xs)"
  let ?k = "rank_less x ?ys" and ?it = "percentile_it f"
  have s: "set_of f = ?ys" using tr by (simp add: percentile_tracks_def)
  have mem: "x \<in> set ?ys" "sorted ?ys" by (simp_all del: sort_key_simps)
  note rm = rank_less_remove [OF mem(2,1)]
  have rem: "remove1 x ?ys = sort xs" by (simp add: remove1_insort_key)
  have cut: "take ?k ?ys @ drop (Suc ?k) ?ys = sort xs" using rm(3) rem by simp
  have it: "percentile_index f = int ?it" "?it < Suc (length xs)"
    using tr ok by (auto simp: percentile_tracks_def target_ok_def) (metis of_nat_less_iff zero_less_Suc)
  define it where "it = (if ?k < ?it then ?it - 1 else ?it)"
  let ?g = "f\<lparr>set_of := sort xs, percentile_it := it, percentile_index := int it\<rparr>"
  have mid: "(if ?k = ?it then Inr (f\<lparr>set_of := sort xs\<rparr>)
      else if length (sort xs) \<le> it then Inl OutOfBounds
      else Inr (if x \<le> sort xs ! it then f\<lparr>set_of := sort xs, percentile_it := it, percentile_index := percentile_index f - 1\<rparr>
                else f\<lparr>set_of := sort xs, percentile_it := it\<rparr>)) = (Inr ?g :: abort + 'a percentile_filter)" (is "?m = _")
  proof (cases "?k = ?it")
    case True
    then show ?thesis using it(1) by (simp add: it_def)
  next
    case False
    have lt: "it < length xs" using False it(2) rm(1) by (auto simp: it_def)
    have "sort xs ! it = ?ys ! ?it"
      using False rm(1) it(2) unfolding rem [symmetric] rm(3) [symmetric] it_def
      by (auto simp: nth_append min_def)
    then have "x \<le> sort xs ! it \<longleftrightarrow> ?k < ?it"
      using rank_less_nth [OF mem(2), of ?it x] it(2) False by auto
    with False lt it(1) show ?thesis by (auto simp: it_def)
  qed
  have "Percentile_Erase target x f = bindE ?m (\<lambda>f. bindE (UpdatePercentileIterator target f) (\<lambda>f. Inr (True, f)))"
    unfolding Percentile_Erase_def Let_def s cut it_def using rm(1,2) by (simp del: sort_key_simps bindE.simps)
  also have "\<dots> = bindE (Inr ?g) (\<lambda>f. bindE (UpdatePercentileIterator target f) (\<lambda>f. Inr (True, f)))"
    by (simp only: mid)
  also have "\<exists>g. \<dots> = Inr (True, g) \<and> percentile_tracks target xs g"
  proof (cases "xs = []")
    case True
    then show ?thesis by (simp add: UpdatePercentileIterator_def percentile_tracks_def)
  next
    case False
    then have ne: "sort xs \<noteq> []" by (metis length_0_conv length_sort)
    have "UpdatePercentileIterator target ?g = Inr (?g\<lparr>percentile_it := nat (target (length xs)), percentile_index := target (length xs)\<rparr>)"
      using update_iterator [OF ok, of ?g] ne by simp
    then show ?thesis using False ok by (simp add: percentile_tracks_def target_ok_def)
  qed
  finally show ?thesis .
qed

definition moving_tracks :: "(nat \<Rightarrow> int) \<Rightarrow> nat \<Rightarrow> 'a::linorder list \<Rightarrow> 'a moving_percentile \<Rightarrow> bool" where
  "moving_tracks target w xs m \<longleftrightarrow> window_size m = w \<and> mp_samples m = lastn w xs \<and>
     samples_stored m = length (lastn w xs) \<and> percentile_tracks target (lastn w xs) (percentile_filter m)"

lemma moving_insert_tracks:
  assumes ok: "target_ok target" and w: "0 < w" and tr: "moving_tracks target w xs m"
  shows "\<exists>n. MovingPercentile_Insert target x m = Inr n \<and> moving_tracks target w (xs @ [x]) n"
proof -
  let ?ws = "lastn w xs"
  from tr have m: "window_size m = w" "mp_samples m = ?ws" "samples_stored m = length ?ws"
    "percentile_tracks target ?ws (percentile_filter m)"
    by (simp_all add: moving_tracks_def)
  obtain f where f: "Percentile_Insert target x (percentile_filter m) = Inr f" "percentile_tracks target (?ws @ [x]) f"
    using percentile_insert_tracks [OF ok m(4)] by blast
  show ?thesis
  proof (cases "length ?ws < w")
    case True
    then have "lastn w (xs @ [x]) = ?ws @ [x]" by (simp add: lastn_snoc [OF w] push_def del: length_lastn)
    with f m True show ?thesis by (simp add: MovingPercentile_Insert_def moving_tracks_def Let_def del: length_lastn)
  next
    case False
    then have len: "length ?ws = w" by simp
    then obtain h t where ht: "?ws = h # t" using w by (cases ?ws) auto
    have new: "lastn w (xs @ [x]) = t @ [x]" using False by (simp add: lastn_snoc [OF w] push_def ht del: length_lastn)
    have "percentile_tracks target (h # t @ [x]) f" using f(2) by (simp add: ht)
    from percentile_erase_tracks [OF ok this] obtain g
      where g: "Percentile_Erase target h f = Inr (True, g)" "percentile_tracks target (t @ [x]) g" by blast
    from len ht have "length t + 1 = w" by simp
    with f(1) g m len show ?thesis
      unfolding new moving_tracks_def by (simp add: MovingPercentile_Insert_def Let_def ht new del: length_lastn)
  qed
qed

definition moving_start :: "nat \<Rightarrow> 'a moving_percentile" where
  "moving_start w = \<lparr>percentile_filter = PercentileFilter, mp_samples = [], samples_stored = 0, window_size = w\<rparr>"

text \<open>A target that stays inside every set: the index of the minimum, whatever is asked for, where the arithmetic would leave it.\<close>

definition clipped :: "(nat \<Rightarrow> int) \<Rightarrow> nat \<Rightarrow> int" where
  "clipped target n = (if target_ok target then target n else 0)"

lemma clipped_ok: "target_ok (clipped target)" "target_ok target \<Longrightarrow> clipped target = target"
  by (auto simp: target_ok_def clipped_def fun_eq_iff)

interpretation moving_percentile: window_filter "moving_start (Suc n)" "MovingPercentile_Insert (clipped target)"
    "moving_tracks (clipped target) (Suc n)" for n target
proof
  show "moving_tracks (clipped target) (Suc n) [] (moving_start (Suc n))"
    by (simp add: moving_tracks_def moving_start_def percentile_tracks_def PercentileFilter_def)
  show "\<exists>t. MovingPercentile_Insert (clipped target) x s = Inr t \<and> moving_tracks (clipped target) (Suc n) (xs @ [x]) t"
    if "moving_tracks (clipped target) (Suc n) xs s" for xs s and x :: 'a
    using that by (intro moving_insert_tracks clipped_ok) simp_all
qed

text \<open>
  A moving percentile filter accepts any sequence of samples without aborting and then answers the element of the sorted
  window at the target position, where the window is the last \<open>w\<close> samples; it stores exactly those. The iterator is
  only ever moved, never searched for, and is always at that element. Hypothesis: the single-precision
  computation of the position gives one inside the set.
\<close>

theorem moving_percentile_exact:
  fixes xs :: "'a::{linorder,zero} list"
  assumes "target_ok target" and "0 < w" and "xs \<noteq> []"
  shows "\<exists>m0 m. MovingPercentileFilter w = Inr m0 \<and> feed (MovingPercentile_Insert target) xs m0 = Inr m \<and>
    GetFilteredValue m = Inr (sort (lastn w xs) ! nat (target (length (lastn w xs)))) \<and>
    GetNumberOfSamplesStored m = min w (length xs)"
proof -
  obtain n where w: "w = Suc n" using assms(2) by (cases w) auto
  from moving_percentile.feed_tracks [of target xs n] obtain m
    where m: "feed (MovingPercentile_Insert target) xs (moving_start w) = Inr m" "moving_tracks target w xs m"
    unfolding w clipped_ok(2) [OF assms(1)] by blast
  have ne: "lastn w xs \<noteq> []" using assms by (metis length_0_conv length_lastn min_0L min_0R min_def neq0_conv)
  then have pos: "0 < length (lastn w xs)" by (rule length_greater_0_conv [THEN iffD2])
  have t: "0 \<le> target (length (lastn w xs))" "target (length (lastn w xs)) < int (length (lastn w xs))"
    using assms(1) pos unfolding target_ok_def by blast+
  have p: "percentile_tracks target (lastn w xs) (percentile_filter m)" "samples_stored m = min w (length xs)"
    using m(2) by (simp_all add: moving_tracks_def)
  then have "percentile_it (percentile_filter m) = nat (target (length (lastn w xs)))"
    "set_of (percentile_filter m) = sort (lastn w xs)" using ne by (auto simp: percentile_tracks_def)
  moreover have "sort (lastn w xs) \<noteq> []" using ne by (metis length_0_conv length_sort)
  ultimately have "GetFilteredValue m = Inr (sort (lastn w xs) ! nat (target (length (lastn w xs))))"
    using t by (simp add: GetFilteredValue_def GetPercentileValue_def nat_less_iff del: length_lastn)
  with m(1) p(2) assms(2) show ?thesis
    by (simp add: MovingPercentileFilter_def moving_start_def GetNumberOfSamplesStored_def)
qed

theorem moving_percentile_exact_witness:
  "\<exists>m0 m. MovingPercentileFilter 3 = Inr m0 \<and> feed (MovingPercentile_Insert (\<lambda>n. int (n - 1) div 2)) [9, 1, 8, 2 :: int] m0 = Inr m \<and>
     GetFilteredValue m = Inr 2"
proof -
  have "target_ok (\<lambda>n. int (n - 1) div 2)" by (auto simp: target_ok_def)
  from moving_percentile_exact [OF this, of 3 "[9, 1, 8, 2 :: int]"] show ?thesis by (auto simp: lastn_def)
qed

end
