(* ===== verification/Statistics.thy ===== *)
theory Statistics
  imports Complex_Main Sliding_Windows
begin

text \<open>
  \<^verbatim>\<open>rtc_base/numerics/running_statistics.h\<close> and \<^verbatim>\<open>rtc_base/rolling_accumulator.h\<close> for integer samples. The
  \<^verbatim>\<open>double\<close> fields are exact rationals: rounding is not modelled, but a division by zero is, whose result
  (an infinity or NaN) is \<open>None\<close> and stays \<open>None\<close> in every later computation with it.
\<close>

section \<open>Running statistics\<close>

record run_stats =
  ssize :: nat
  smin :: int
  smax :: int
  mean :: "rat option"
  cumul :: "rat option"
  ssum :: rat

text \<open>\<open>lo\<close> and \<open>hi\<close> are the limits of the sample type.\<close>

definition RunningStatistics :: "int \<Rightarrow> int \<Rightarrow> run_stats" where
  "RunningStatistics lo hi = \<lparr>ssize = 0, smin = hi, smax = lo, mean = Some 0, cumul = Some 0, ssum = 0\<rparr>"

definition quot :: "rat \<Rightarrow> nat \<Rightarrow> rat option" where
  "quot x n = (if n = 0 then None else Some (x / of_nat n))"

definition Stats_AddSample :: "int \<Rightarrow> run_stats \<Rightarrow> run_stats" where
  "Stats_AddSample sample s =
     (let x = of_int sample; n = ssize s + 1;
          m' = Option.bind (mean s) (\<lambda>m. map_option (\<lambda>q. m + q) (quot (x - m) n));
          c' = Option.bind (mean s) (\<lambda>m. Option.bind m' (\<lambda>m2. map_option (\<lambda>c. c + (x - m) * (x - m2)) (cumul s)))
      in s\<lparr>smax := max (smax s) sample, smin := min (smin s) sample, ssum := ssum s + x, ssize := n, mean := m', cumul := c'\<rparr>)"

definition RemoveSample :: "int \<Rightarrow> run_stats \<Rightarrow> abort + run_stats" where
  "RemoveSample sample s =
     check (ssize s > 0)
       (let x = of_int sample; n = ssize s - 1;
            m' = Option.bind (mean s) (\<lambda>m. map_option (\<lambda>q. m - q) (quot (x - m) n));
            c' = Option.bind (mean s) (\<lambda>m. Option.bind m' (\<lambda>m2. map_option (\<lambda>c. c - (x - m) * (x - m2)) (cumul s)))
        in Inr (s\<lparr>ssize := n, mean := m', cumul := c'\<rparr>))"

definition merge_delta :: "rat \<Rightarrow> nat \<Rightarrow> rat \<Rightarrow> rat" where
  "merge_delta new_mean n m = of_nat n * (new_mean * (new_mean - 2 * m) + m * m)"

definition MergeStatistics :: "run_stats \<Rightarrow> run_stats \<Rightarrow> run_stats" where
  "MergeStatistics s t =
     (if ssize t = 0 then s
      else
        let n = ssize s + ssize t;
            m' = Option.bind (mean s) (\<lambda>ms. Option.bind (mean t) (\<lambda>mt. quot (ms * of_nat (ssize s) + mt * of_nat (ssize t)) n));
            c' = Option.bind (mean s) (\<lambda>ms. Option.bind (mean t) (\<lambda>mt. Option.bind m' (\<lambda>m.
                   Option.bind (cumul s) (\<lambda>cs. map_option (\<lambda>ct.
                     cs + merge_delta m (ssize s) ms + ct + merge_delta m (ssize t) mt) (cumul t)))))
        in s\<lparr>smax := max (smax s) (smax t), smin := min (smin s) (smin t), cumul := c', mean := m', ssize := n\<rparr>)"

definition Size :: "run_stats \<Rightarrow> nat" where
  "Size s = ssize s"

definition GetMin :: "run_stats \<Rightarrow> int option" where
  "GetMin s = (if ssize s = 0 then None else Some (smin s))"

definition GetMax :: "run_stats \<Rightarrow> int option" where
  "GetMax s = (if ssize s = 0 then None else Some (smax s))"

definition GetSum :: "run_stats \<Rightarrow> rat option" where
  "GetSum s = (if ssize s = 0 then None else Some (ssum s))"

text \<open>The outer option is the absence of samples, the inner one a value that is not a number.\<close>

definition GetMean :: "run_stats \<Rightarrow> rat option option" where
  "GetMean s = (if ssize s = 0 then None else Some (mean s))"

definition GetVariance :: "run_stats \<Rightarrow> rat option option" where
  "GetVariance s = (if ssize s = 0 then None else Some (Option.bind (cumul s) (\<lambda>c. quot c (ssize s))))"

section \<open>Rolling accumulator\<close>

record rolling =
  stats :: run_stats
  next_index :: nat
  rmax :: int
  max_stale :: bool
  rmin :: int
  min_stale :: bool
  rsamples :: "int list"

definition rolling_reset :: "int \<Rightarrow> int \<Rightarrow> rolling \<Rightarrow> rolling" where
  "rolling_reset lo hi r =
     r\<lparr>stats := RunningStatistics lo hi, next_index := 0, rmax := 0, max_stale := False, rmin := 0, min_stale := False\<rparr>"

definition RollingAccumulator :: "int \<Rightarrow> int \<Rightarrow> nat \<Rightarrow> abort + rolling" where
  "RollingAccumulator lo hi max_count =
     check (max_count > 0)
       (Inr (rolling_reset lo hi
          \<lparr>stats = RunningStatistics lo hi, next_index = 0, rmax = 0, max_stale = False, rmin = 0, min_stale = False,
           rsamples = replicate max_count 0\<rparr>))"

definition max_count :: "rolling \<Rightarrow> nat" where
  "max_count r = length (rsamples r)"

definition rcount :: "rolling \<Rightarrow> nat" where
  "rcount r = Size (stats r)"

definition Rolling_AddSample :: "int \<Rightarrow> rolling \<Rightarrow> abort + rolling" where
  "Rolling_AddSample sample r =
     (if max_count r \<le> next_index r then Inl OutOfBounds
      else
        bindE
          (if rcount r = max_count r
           then let old = rsamples r ! next_index r
                in bindE (RemoveSample old (stats r)) (\<lambda>s.
                     Inr (r\<lparr>stats := s, max_stale := (max_stale r \<or> old \<ge> rmax r), min_stale := (min_stale r \<or> old \<le> rmin r)\<rparr>))
           else Inr r)
          (\<lambda>r. let newmax = (rcount r = 0 \<or> sample \<ge> rmax r); newmin = (rcount r = 0 \<or> sample \<le> rmin r)
                in Inr (r\<lparr>rsamples := (rsamples r)[next_index r := sample],
                          rmax := (if newmax then sample else rmax r), max_stale := (max_stale r \<and> \<not> newmax),
                          rmin := (if newmin then sample else rmin r), min_stale := (min_stale r \<and> \<not> newmin),
                          stats := Stats_AddSample sample (stats r),
                          next_index := (next_index r + 1) mod max_count r\<rparr>)))"

definition ComputeMax :: "rolling \<Rightarrow> abort + (int \<times> rolling)" where
  "ComputeMax r =
     (if max_stale r
      then check (rcount r > 0)
        (let m = fold (\<lambda>i m. max m (rsamples r ! ((next_index r + i) mod max_count r))) [1 ..< rcount r] (rsamples r ! next_index r)
         in Inr (m, r\<lparr>rmax := m, max_stale := False\<rparr>))
      else Inr (rmax r, r))"

definition ComputeMin :: "rolling \<Rightarrow> abort + (int \<times> rolling)" where
  "ComputeMin r =
     (if min_stale r
      then check (rcount r > 0)
        (let m = fold (\<lambda>i m. min m (rsamples r ! ((next_index r + i) mod max_count r))) [1 ..< rcount r] (rsamples r ! next_index r)
         in Inr (m, r\<lparr>rmin := m, min_stale := False\<rparr>))
      else Inr (rmin r, r))"

definition ComputeMean :: "rolling \<Rightarrow> rat option" where
  "ComputeMean r = (case GetMean (stats r) of None \<Rightarrow> Some 0 | Some m \<Rightarrow> m)"


text \<open>One turn of the weighting loop: the weighted sum, the current weight and the sum of the weights.\<close>

definition weigh :: "rolling \<Rightarrow> rat \<Rightarrow> nat \<Rightarrow> rat \<times> rat \<times> rat \<Rightarrow> rat \<times> rat \<times> rat" where
  "weigh r rate i =
     (\<lambda>(acc, w, tot). (acc + (w * rate) * of_int (rsamples r ! ((next_index r + max_count r - i - 1) mod max_count r)),
                         w * rate, tot + w * rate))"

definition ComputeWeightedMean :: "rat \<Rightarrow> rolling \<Rightarrow> rat option" where
  "ComputeWeightedMean rate r =
     (if rcount r < 1 \<or> rate \<le> 0 \<or> rate \<ge> 1 then ComputeMean r
      else case fold (weigh r rate) [0 ..< rcount r] (0, 1, 0) of (acc, w, tot) \<Rightarrow> Some (acc / tot))"

section \<open>The mean and the deviation are exact\<close>

definition total :: "int list \<Rightarrow> rat" where
  "total xs = of_int (sum_list xs)"

definition squares :: "int list \<Rightarrow> rat" where
  "squares xs = of_int (sum_list (map (\<lambda>x. x * x) xs))"

definition average :: "int list \<Rightarrow> rat" where
  "average xs = total xs / of_nat (length xs)"

text \<open>The sum of the squared deviations from the average.\<close>

definition deviation :: "int list \<Rightarrow> rat" where
  "deviation xs = sum_list (map (\<lambda>x. (of_int x - average xs) ^ 2) xs)"

lemma sum_sq_shift:
  "sum_list (map (\<lambda>x. (of_int x - c) ^ 2) xs) = squares xs - 2 * c * total xs + of_nat (length xs) * c ^ 2" for c :: rat
  by (induction xs) (simp_all add: squares_def total_def power2_eq_square algebra_simps)

lemma deviation_eq: "xs \<noteq> [] \<Longrightarrow> deviation xs = squares xs - total xs ^ 2 / of_nat (length xs)"
  unfolding deviation_def sum_sq_shift by (simp add: average_def power2_eq_square field_simps)

lemma deviation_Nil [simp]: "deviation [] = 0" "average [] = 0"
  by (simp_all add: deviation_def average_def)

definition stats_track :: "int list \<Rightarrow> run_stats \<Rightarrow> bool" where
  "stats_track xs s \<longleftrightarrow> ssize s = length xs \<and> mean s = Some (average xs) \<and> cumul s = Some (deviation xs)"

lemma total_Cons: "total (x # xs) = of_int x + total xs" "squares (x # xs) = of_int x * of_int x + squares xs"
  by (simp_all add: total_def squares_def)

text \<open>The identities of Welford's update and of the merge.\<close>

lemma welford_mean:
  fixes n t y :: rat
  assumes "n \<noteq> 0" "n + 1 \<noteq> 0"
  shows "(t + y) / (n + 1) = t / n + (y - t / n) / (n + 1)"
  using assms by (simp add: divide_simps) (simp add: algebra_simps)

lemma welford_deviation:
  fixes n t y q :: rat
  assumes "n \<noteq> 0" "n + 1 \<noteq> 0"
  shows "q + y * y - (t + y)\<^sup>2 / (n + 1) = q - t\<^sup>2 / n + (y - t / n) * (y - (t + y) / (n + 1))"
  using assms by (simp add: divide_simps power2_eq_square) (simp add: algebra_simps)

lemma merge_deviation:
  fixes n k t u q r :: rat
  assumes "n \<noteq> 0" "k \<noteq> 0" "n + k \<noteq> 0"
  defines "m \<equiv> (t / n * n + u / k * k) / (n + k)"
  shows "q - t\<^sup>2 / n + n * (m * (m - 2 * (t / n)) + t / n * (t / n)) + (r - u\<^sup>2 / k)
      + k * (m * (m - 2 * (u / k)) + u / k * (u / k)) = q + r - (t + u)\<^sup>2 / (n + k)"
  unfolding m_def using assms by (simp add: divide_simps power2_eq_square) (simp add: algebra_simps)

lemma length_rat: "xs \<noteq> [] \<Longrightarrow> (of_nat (length xs) :: rat) \<noteq> 0" "(of_nat n :: rat) + 1 \<noteq> 0"
  by (simp_all add: add_nonneg_eq_0_iff)

lemma average_Cons: "average (x # xs) = average xs + (of_int x - average xs) / (of_nat (length xs) + 1)"
proof (cases "xs = []")
  case False
  from welford_mean [OF length_rat(1) [OF False] length_rat(2), of "total xs" "of_int x"] show ?thesis
    by (simp add: average_def total_Cons add.commute)
qed (simp add: average_def total_def)

lemma deviation_Cons:
  "deviation (x # xs) = deviation xs + (of_int x - average xs) * (of_int x - average (x # xs))"
proof (cases "xs = []")
  case False
  from welford_deviation [OF length_rat(1) [OF False] length_rat(2), of "squares xs" "of_int x" "total xs"] show ?thesis
    by (simp add: deviation_eq False average_def total_Cons add.commute)
qed (simp add: deviation_def average_def total_def)

lemma add_tracks_stats: "stats_track xs s \<Longrightarrow> stats_track (x # xs) (Stats_AddSample x s)"
  by (simp add: stats_track_def Stats_AddSample_def quot_def Let_def average_Cons deviation_Cons add.commute)

text \<open>The order of the samples does not matter.\<close>

lemma stats_perm: "mset xs = mset ys \<Longrightarrow> average xs = average ys \<and> deviation xs = deviation ys \<and> length xs = length ys"
proof -
  assume m: "mset xs = mset ys"
  have "sum_list xs = sum_list ys" using m by (metis sum_mset_sum_list)
  then have a: "average xs = average ys" using mset_eq_length [OF m] by (simp add: average_def total_def)
  have "mset (map (\<lambda>x. (of_int x - average xs)\<^sup>2) xs) = mset (map (\<lambda>x. (of_int x - average ys)\<^sup>2) ys)"
    using m a by simp
  then have "deviation xs = deviation ys" unfolding deviation_def by (metis sum_mset_sum_list)
  with a mset_eq_length [OF m] show ?thesis by simp
qed

lemma remove_tracks_stats:
  assumes tr: "stats_track xs s" and x: "x \<in> set xs" and two: "2 \<le> length xs"
  shows "\<exists>t. RemoveSample x s = Inr t \<and> stats_track (remove1 x xs) t"
proof -
  let ?ys = "remove1 x xs"
  have m: "mset xs = mset (x # ?ys)" using x by simp
  note p = stats_perm [OF m]
  have len: "length xs = Suc (length ?ys)" "length ?ys \<noteq> 0" using p two by auto
  define a d n where "a = average ?ys" and "d = (of_int x - a)" and "n = (of_nat (length ?ys) :: rat)"
  have n: "n \<noteq> 0" "n + 1 \<noteq> 0" using len(2) length_rat(2) by (simp_all add: n_def)
  have ax: "average xs = a + d / (n + 1)" using p by (simp add: average_Cons a_def d_def n_def)
  have new: "average xs + - ((of_int x - average xs) / n) = a"
    unfolding ax using n by (simp add: d_def divide_simps) (simp add: algebra_simps)
  have "deviation xs = deviation ?ys + (of_int x - a) * (of_int x - average xs)"
    using p by (simp add: deviation_Cons [of x ?ys] a_def)
  then have "deviation xs - (of_int x - average xs) * (of_int x - a) = deviation ?ys" by (simp add: algebra_simps)
  with new tr len show ?thesis
    by (simp add: stats_track_def RemoveSample_def check_def quot_def Let_def n_def a_def)
qed

lemma merge_tracks_stats:
  assumes "stats_track xs s" and "stats_track ys t"
  shows "stats_track (xs @ ys) (MergeStatistics s t)"
proof -
  have tot: "total (xs @ ys) = total xs + total ys" "squares (xs @ ys) = squares xs + squares ys"
    by (simp_all add: total_def squares_def)
  consider "ys = []" | "xs = []" "ys \<noteq> []" | "xs \<noteq> []" "ys \<noteq> []" by blast
  then show ?thesis
  proof cases
    case 2
    with assms show ?thesis
      by (simp add: stats_track_def MergeStatistics_def quot_def Let_def merge_delta_def)
  next
    case 3
    let ?n = "of_nat (length xs) :: rat" and ?k = "of_nat (length ys) :: rat"
    have nz: "?n \<noteq> 0" "?k \<noteq> 0" "?n + ?k \<noteq> 0" using 3 by (simp_all add: add_nonneg_eq_0_iff)
    have "average (xs @ ys) = (average xs * ?n + average ys * ?k) / (?n + ?k)"
      using nz by (simp add: average_def tot)
    moreover from merge_deviation [OF nz, of "squares xs" "total xs" "total ys" "squares ys"]
    have "deviation xs + merge_delta (average (xs @ ys)) (length xs) (average xs) + deviation ys
        + merge_delta (average (xs @ ys)) (length ys) (average ys) = deviation (xs @ ys)"
      using 3 nz by (simp add: deviation_eq merge_delta_def average_def tot)
    ultimately show ?thesis
      using assms 3 by (simp add: stats_track_def MergeStatistics_def quot_def Let_def)
  qed (use assms in \<open>simp add: stats_track_def MergeStatistics_def\<close>)
qed

text \<open>
  In exact arithmetic the running statistics are those of the samples they stand for: adding a sample, removing one of
  at least two and merging keep the mean equal to the average and the accumulated term equal to the sum
  of squared deviations, so the reported mean and variance are the definitions, whatever the order of the operations.
\<close>

theorem running_statistics_exact:
  assumes "stats_track xs s"
  shows "stats_track [] (RunningStatistics lo hi) \<and> stats_track (x # xs) (Stats_AddSample x s)
    \<and> (x \<in> set xs \<and> 2 \<le> length xs \<longrightarrow> (\<exists>t. RemoveSample x s = Inr t \<and> stats_track (remove1 x xs) t))
    \<and> (\<forall>ys t. stats_track ys t \<longrightarrow> stats_track (xs @ ys) (MergeStatistics s t))
    \<and> (xs \<noteq> [] \<longrightarrow> GetMean s = Some (Some (average xs)) \<and> GetVariance s = Some (Some (deviation xs / of_nat (length xs))))"
proof -
  have "stats_track [] (RunningStatistics lo hi)" by (simp add: stats_track_def RunningStatistics_def)
  moreover have "xs \<noteq> [] \<longrightarrow> GetMean s = Some (Some (average xs)) \<and> GetVariance s = Some (Some (deviation xs / of_nat (length xs)))"
    using assms by (simp add: stats_track_def GetMean_def GetVariance_def quot_def)
  ultimately show ?thesis
    using add_tracks_stats [OF assms] remove_tracks_stats [OF assms] merge_tracks_stats [OF assms] by blast
qed

theorem running_statistics_exact_witness:
  "stats_track [7, 4] (Stats_AddSample 7 (Stats_AddSample 4 (RunningStatistics 0 9)))"
proof -
  have 0: "stats_track [] (RunningStatistics 0 9)" by (simp add: stats_track_def RunningStatistics_def)
  have "stats_track [4] (Stats_AddSample 4 (RunningStatistics 0 9))"
    using running_statistics_exact [OF 0, of 0 9 4] by blast
  then show ?thesis using running_statistics_exact [of "[4]" _ 0 9 7] by blast
qed

text \<open>A mean that is not a number stays so.\<close>

lemma poisoned_add: "mean s = None \<Longrightarrow> mean (fold Stats_AddSample xs s) = None"
  by (induction xs arbitrary: s) (simp_all add: Stats_AddSample_def Let_def)

text \<open>
  Removing the only sample divides by zero: the mean is not a number from then on, whatever is
  added later. And neither a removal nor a merge touches the sum, so after one of them \<^verbatim>\<open>GetSum\<close> is in general
  not the sum of the samples the statistics stand for.
\<close>

theorem statistics_removal_faults:
  assumes "stats_track [x] s" and "ssum s = of_int x" and "stats_track ys t" and "ys \<noteq> []" and "ssum t = total ys"
  shows "(\<exists>u. RemoveSample x s = Inr u \<and> (\<forall>zs. mean (fold Stats_AddSample zs u) = None))
    \<and> GetSum (MergeStatistics s t) = Some (of_int x)"
proof -
  from assms(1) have "RemoveSample x s = Inr (s\<lparr>ssize := 0, mean := None, cumul := None\<rparr>)"
    by (simp add: RemoveSample_def stats_track_def quot_def check_def Let_def)
  moreover from assms(1,3,4) have "ssize (MergeStatistics s t) \<noteq> 0" "ssum (MergeStatistics s t) = ssum s"
    by (simp_all add: MergeStatistics_def stats_track_def Let_def)
  ultimately show ?thesis using assms(2) poisoned_add by (auto simp: GetSum_def)
qed

theorem statistics_removal_faults_witness:
  "GetSum (MergeStatistics (Stats_AddSample 4 (RunningStatistics 0 9)) (Stats_AddSample 5 (RunningStatistics 0 9))) = Some 4"
proof -
  have 0: "stats_track [] (RunningStatistics 0 9)" by (simp add: stats_track_def RunningStatistics_def)
  have s: "ssum (Stats_AddSample x (RunningStatistics 0 9)) = of_int x" for x
    by (simp add: Stats_AddSample_def RunningStatistics_def Let_def)
  show ?thesis
    using statistics_removal_faults [OF add_tracks_stats [OF 0, of 4] s add_tracks_stats [OF 0, of 5]] s [of 5]
    by (simp add: total_def)
qed

section \<open>Extremes of the window\<close>

datatype rolling_op = Sample int | AskMaximum | AskMinimum

fun rolling_step :: "rolling_op \<Rightarrow> rolling \<Rightarrow> abort + rolling" where
  "rolling_step (Sample x) r = Rolling_AddSample x r"
| "rolling_step AskMaximum r = bindE (ComputeMax r) (\<lambda>(m, r). Inr r)"
| "rolling_step AskMinimum r = bindE (ComputeMin r) (\<lambda>(m, r). Inr r)"

fun sampled :: "rolling_op list \<Rightarrow> int list" where
  "sampled [] = []"
| "sampled (Sample x # ops) = x # sampled ops"
| "sampled (op # ops) = sampled ops"

lemma sampled_append [simp]: "sampled (xs @ ys) = sampled xs @ sampled ys"
  by (induction xs rule: sampled.induct) simp_all

text \<open>The ring holds the last samples, the next slot being that of the oldest once it is full.\<close>

definition slots_ok :: "nat \<Rightarrow> int list \<Rightarrow> rolling \<Rightarrow> bool" where
  "slots_ok n xs r \<longleftrightarrow> length (rsamples r) = n \<and> ssize (stats r) = min n (length xs) \<and> next_index r = length xs mod n \<and>
     (\<forall>i. length xs - n \<le> i \<and> i < length xs \<longrightarrow> rsamples r ! (i mod n) = xs ! i)"

text \<open>\<open>below\<close>: an upper bound of the window that is attained unless it is stale, which only happens when the ring is full.\<close>

definition bound_ok :: "(int \<Rightarrow> int \<Rightarrow> bool) \<Rightarrow> nat \<Rightarrow> int list \<Rightarrow> int \<Rightarrow> bool \<Rightarrow> bool" where
  "bound_ok below n xs m stale \<longleftrightarrow>
     (if xs = [] then \<not> stale
      else (\<forall>x \<in> set (lastn n xs). below x m) \<and> (\<not> stale \<longrightarrow> m \<in> set (lastn n xs)) \<and> (stale \<longrightarrow> n \<le> length xs))"

definition rolling_tracks :: "nat \<Rightarrow> int list \<Rightarrow> rolling \<Rightarrow> bool" where
  "rolling_tracks n xs r \<longleftrightarrow> slots_ok n xs r \<and> bound_ok (\<le>) n xs (rmax r) (max_stale r) \<and> bound_ok (\<ge>) n xs (rmin r) (min_stale r) \<and>
     (2 \<le> n \<longrightarrow> stats_track (lastn n xs) (stats r))"

lemma set_push: "set (push n x ys) = insert x (set (if length ys < n then ys else tl ys))"
  by (simp add: push_def)

text \<open>One sample more: \<open>old\<close> is the sample that leaves, if one does.\<close>

lemma bound_ok_add:
  assumes n: "0 < n" and b: "bound_ok below n xs m stale" and lin: "\<And>x y. below x y \<or> below y x" "\<And>x. below x x"
      "\<And>x y z. below x y \<Longrightarrow> below y z \<Longrightarrow> below x z"
    and stale': "stale' = (stale \<or> n \<le> length xs \<and> below m (hd (lastn n xs)))"
    and new: "new = (xs = [] \<or> n = 1 \<and> xs \<noteq> [] \<or> below m x)"
  shows "bound_ok below n (xs @ [x]) (if new then x else m) (stale' \<and> \<not> new)"
proof (cases "xs = []")
  case True
  then show ?thesis using n new lin(2) by (simp add: bound_ok_def lastn_def)
next
  case False
  let ?ws = "lastn n xs"
  have ne: "?ws \<noteq> []" using n False by (metis length_0_conv length_lastn min_0L min_0R min_def neq0_conv)
  from b False have ub: "\<forall>y \<in> set ?ws. below y m" and at: "\<not> stale \<longrightarrow> m \<in> set ?ws" and full: "stale \<longrightarrow> n \<le> length xs"
    by (simp_all add: bound_ok_def)
  have w: "lastn n (xs @ [x]) = (if length ?ws < n then ?ws else tl ?ws) @ [x]" by (simp only: lastn_snoc [OF n, of xs x] push_def)
  have sub: "set (tl ?ws) \<subseteq> set ?ws" using ne by (cases ?ws) auto
  show ?thesis
  proof (cases new)
    case new_True: True
    have "\<forall>y \<in> set (lastn n (xs @ [x])). below y x"
    proof (cases "below m x")
      case True
      then show ?thesis using ub sub lin(2,3) unfolding w by (auto split: if_splits) blast+
    next
      case mx: False
      then have "n = 1" using new new_True False by simp
      then have len: "length ?ws = n" using False by (cases xs) simp_all
      with \<open>n = 1\<close> have "tl ?ws = []" by (metis One_nat_def diff_self_eq_0 length_0_conv length_tl)
      then show ?thesis using lin(2) len unfolding w by simp
    qed
    with new_True show ?thesis unfolding w by (simp add: bound_ok_def w)
  next
    case new_False: False
    then have xm: "below x m" using new lin(1) by blast
    have "\<forall>y \<in> set (lastn n (xs @ [x])). below y m" using ub sub xm unfolding w by (auto split: if_splits)
    moreover have "m \<in> set (lastn n (xs @ [x]))" if "\<not> stale'"
    proof -
      from that stale' have ns: "\<not> stale" "\<not> (n \<le> length xs \<and> below m (hd ?ws))" by auto
      with at have "m \<in> set ?ws" by simp
      moreover have "m \<in> set (tl ?ws)" if "\<not> length ?ws < n"
      proof -
        from that have "n \<le> length xs" by simp
        with ns(2) have "m \<noteq> hd ?ws" using lin(2) by metis
        with \<open>m \<in> set ?ws\<close> ne show ?thesis by (cases ?ws) auto
      qed
      ultimately show ?thesis unfolding w by simp
    qed
    moreover have "stale' \<longrightarrow> n \<le> Suc (length xs)" using stale' full by auto
    ultimately show ?thesis using new_False by (simp add: bound_ok_def)
  qed
qed

lemma rolling_start_tracks: "0 < n \<Longrightarrow> \<exists>r. RollingAccumulator lo hi n = Inr r \<and> rolling_tracks n [] r"
  by (simp add: RollingAccumulator_def check_def rolling_reset_def RunningStatistics_def rolling_tracks_def slots_ok_def bound_ok_def
      stats_track_def)

text \<open>The slot about to be overwritten holds the oldest sample of a full ring.\<close>

lemma slots_oldest:
  assumes "slots_ok n xs r" and "0 < n" and "n \<le> length xs"
  shows "rsamples r ! next_index r = hd (lastn n xs)"
proof -
  have "length xs mod n = (length xs - n) mod n" using assms(3) by (simp add: le_mod_geq)
  moreover have "rsamples r ! ((length xs - n) mod n) = xs ! (length xs - n)"
    using assms by (simp add: slots_ok_def)
  ultimately show ?thesis using assms by (simp add: slots_ok_def lastn_def hd_drop_conv_nth)
qed

lemma slots_add:
  assumes ok: "slots_ok n xs r" and n: "0 < n"
    and t: "rsamples t = (rsamples r)[next_index r := x]" "next_index t = (next_index r + 1) mod n"
      "ssize (stats t) = min n (Suc (length xs))"
  shows "slots_ok n (xs @ [x]) t"
proof -
  have "rsamples t ! (i mod n) = (xs @ [x]) ! i" if i: "Suc (length xs) - n \<le> i" "i < Suc (length xs)" for i
  proof (cases "i = length xs")
    case False
    have "i mod n \<noteq> length xs mod n"
    proof
      assume eq: "i mod n = length xs mod n"
      have "n dvd length xs - i" using mod_eq_dvd_iff_nat [of i "length xs" n] eq i by simp
      moreover have "0 < length xs - i" "length xs - i < n" using False i n by auto
      ultimately show False using nat_dvd_not_less by blast
    qed
    moreover have "length xs - n \<le> i" "i < length xs" using False i by auto
    ultimately show ?thesis using ok by (simp add: t(1) slots_ok_def nth_append)
  qed (use ok n in \<open>simp add: t(1) slots_ok_def nth_append\<close>)
  then show ?thesis using ok t n by (simp add: slots_ok_def mod_Suc_eq)
qed

lemma size_removed: "0 < ssize s \<Longrightarrow> \<exists>t. RemoveSample x s = Inr t \<and> ssize t = ssize s - 1"
  by (simp add: RemoveSample_def check_def Let_def)

lemma size_added [simp]: "ssize (Stats_AddSample x s) = Suc (ssize s)"
  by (simp add: Stats_AddSample_def Let_def)

lemma stats_snoc:
  assumes w: "0 < n" and tr: "stats_track (lastn n xs) s"
    and st: "if n \<le> length xs then 2 \<le> n \<and> RemoveSample (hd (lastn n xs)) s = Inr st else st = s"
  shows "stats_track (lastn n (xs @ [x])) (Stats_AddSample x st)"
proof -
  let ?ws = "lastn n xs"
  define ys where "ys = (if n \<le> length xs then tl ?ws else ?ws)"
  have "stats_track ys st"
  proof (cases "n \<le> length xs")
    case True
    then have len: "2 \<le> length ?ws" "length xs \<noteq> 0" using st by auto
    then obtain h t where ht: "?ws = h # t" by (cases ?ws) auto
    with remove_tracks_stats [OF tr, of h] st True len show ?thesis by (auto simp: ys_def)
  qed (use tr st in \<open>simp add: ys_def\<close>)
  then have "stats_track (x # ys) (Stats_AddSample x st)" by (rule add_tracks_stats)
  moreover have "mset (x # ys) = mset (ys @ [x])" by simp
  moreover have "lastn n (xs @ [x]) = ys @ [x]" using w by (auto simp: lastn_snoc [OF w] push_def ys_def min_def)
  ultimately show ?thesis using stats_perm [of "x # ys" "ys @ [x]"] by (simp add: stats_track_def)
qed

lemma rolling_add_tracks:
  assumes tr: "rolling_tracks n xs r" and n: "0 < n"
  shows "\<exists>t. Rolling_AddSample x r = Inr t \<and> rolling_tracks n (xs @ [x]) t"
proof -
  have ring: "slots_ok n xs r" and hi: "bound_ok (\<le>) n xs (rmax r) (max_stale r)"
    and lo: "bound_ok (\<ge>) n xs (rmin r) (min_stale r)" 
    and sts: "2 \<le> n \<longrightarrow> stats_track (lastn n xs) (stats r)" using tr by (simp_all add: rolling_tracks_def)
  have len: "length (rsamples r) = n" "ssize (stats r) = min n (length xs)" "next_index r < n"
    using ring n by (simp_all add: slots_ok_def)
  define full where "full = (n \<le> length xs)"
  define old where "old = hd (lastn n xs)"
  have old: "full \<Longrightarrow> rsamples r ! next_index r = old" using slots_oldest [OF ring n] by (simp add: full_def old_def)
  have "full \<Longrightarrow> 0 < ssize (stats r) \<and> ssize (stats r) = n" using len n by (simp add: full_def)
  then obtain s where s: "full \<Longrightarrow> RemoveSample old (stats r) = Inr s" "full \<Longrightarrow> ssize s = n - 1"
    using size_removed [of "stats r" old] by metis
  define st where "st = (if full then s else stats r)"
  have st: "ssize st = 0 \<longleftrightarrow> xs = [] \<or> n = 1 \<and> xs \<noteq> []" "Suc (ssize st) = min n (Suc (length xs))"
    using s(2) len n by (auto simp: st_def full_def Suc_le_eq)
  define newmax where "newmax = (ssize st = 0 \<or> rmax r \<le> x)"
  define newmin where "newmin = (ssize st = 0 \<or> rmin r \<ge> x)"
  let ?t = "r\<lparr>rsamples := (rsamples r)[next_index r := x],
      rmax := (if newmax then x else rmax r), max_stale := ((max_stale r \<or> full \<and> rmax r \<le> old) \<and> \<not> newmax),
      rmin := (if newmin then x else rmin r), min_stale := ((min_stale r \<or> full \<and> rmin r \<ge> old) \<and> \<not> newmin),
      stats := Stats_AddSample x st, next_index := (next_index r + 1) mod n\<rparr>"
  have "Rolling_AddSample x r = Inr ?t"
  proof (cases full)
    case True
    then show ?thesis using len old s
      by (simp add: Rolling_AddSample_def max_count_def rcount_def Size_def full_def Let_def newmax_def newmin_def st_def)
  next
    case False
    then show ?thesis using len
      by (simp add: Rolling_AddSample_def max_count_def rcount_def Size_def full_def Let_def newmax_def newmin_def st_def)
  qed
  moreover have "slots_ok n (xs @ [x]) ?t" using slots_add [OF ring n, of ?t x] st(2) by simp
  moreover have "bound_ok (\<le>) n (xs @ [x]) (if newmax then x else rmax r) ((max_stale r \<or> full \<and> rmax r \<le> old) \<and> \<not> newmax)"
    by (rule bound_ok_add [OF n hi]) (auto simp: newmax_def full_def old_def st(1))
  moreover have "bound_ok (\<ge>) n (xs @ [x]) (if newmin then x else rmin r) ((min_stale r \<or> full \<and> rmin r \<ge> old) \<and> \<not> newmin)"
    by (rule bound_ok_add [OF n lo]) (auto simp: newmin_def full_def old_def st(1))
  moreover have "2 \<le> n \<longrightarrow> stats_track (lastn n (xs @ [x])) (Stats_AddSample x st)"
    using stats_snoc [OF n, of xs "stats r" st x] sts s(1) by (auto simp: st_def full_def old_def)
  ultimately show ?thesis by (simp add: rolling_tracks_def)
qed

text \<open>A stale maximum is recomputed over the ring, which is then full.\<close>

lemma slots_window:
  assumes "slots_ok n xs r" and "0 < n" and "n \<le> length xs"
  shows "set (lastn n xs) = insert (rsamples r ! next_index r) ((\<lambda>i. rsamples r ! ((next_index r + i) mod n)) ` set [1 ..< n])"
proof -
  let ?f = "\<lambda>i. rsamples r ! ((next_index r + i) mod n)"
  have "xs ! (length xs - n + i) = ?f i" if "i < n" for i
  proof -
    have "(length xs - n + i) mod n = (length xs - n + i + n) mod n" by simp
    also have "\<dots> = (length xs + i) mod n" using assms(3) by simp
    also have "\<dots> = (next_index r + i) mod n" using assms(1) by (simp add: slots_ok_def mod_add_left_eq)
    finally have slot: "(length xs - n + i) mod n = (next_index r + i) mod n" .
    have "length xs - n \<le> length xs - n + i" "length xs - n + i < length xs" using assms(3) that by simp_all
    then have "rsamples r ! ((length xs - n + i) mod n) = xs ! (length xs - n + i)"
      using assms(1) unfolding slots_ok_def by blast
    then show ?thesis by (simp only: slot)
  qed
  then have "lastn n xs = map ?f [0 ..< n]" using assms(3) by (intro nth_equalityI) (simp_all add: lastn_def)
  moreover have "next_index r < n" using assms by (simp add: slots_ok_def)
  ultimately show ?thesis using assms(2) by (simp add: upt_conv_Cons image_iff)
qed

lemma fold_max_Max: "fold (\<lambda>i m. max m (f i)) is a = Max (insert a (f ` set is))" for f :: "'i \<Rightarrow> int"
proof (induction "is" rule: rev_induct)
  case (snoc x xs)
  have "Max (insert (f x) (insert a (f ` set xs))) = max (f x) (Max (insert a (f ` set xs)))" by (rule Max_insert) simp_all
  with snoc show ?case by (simp add: insert_commute max.commute del: Max_insert)
qed simp

lemma fold_min_Min: "fold (\<lambda>i m. min m (f i)) is a = Min (insert a (f ` set is))" for f :: "'i \<Rightarrow> int"
proof (induction "is" rule: rev_induct)
  case (snoc x xs)
  have "Min (insert (f x) (insert a (f ` set xs))) = min (f x) (Min (insert a (f ` set xs)))" by (rule Min_insert) simp_all
  with snoc show ?case by (simp add: insert_commute min.commute del: Min_insert)
qed simp

lemma compute_max_tracks:
  assumes tr: "rolling_tracks n xs r" and n: "0 < n"
  shows "\<exists>m t. ComputeMax r = Inr (m, t) \<and> rolling_tracks n xs t \<and> (xs \<noteq> [] \<longrightarrow> m = Max (set (lastn n xs)))"
proof (cases "max_stale r")
  case True
  then have full: "xs \<noteq> []" "n \<le> length xs" and ring: "slots_ok n xs r"
    using tr by (auto simp: rolling_tracks_def bound_ok_def split: if_splits)
  let ?m = "Max (set (lastn n xs))"
  have ne: "set (lastn n xs) \<noteq> {}" using slots_window [OF ring n full(2)] by (metis insert_not_empty)
  have "ComputeMax r = Inr (?m, r\<lparr>rmax := ?m, max_stale := False\<rparr>)"
    using True full n ring unfolding slots_window [OF ring n full(2)]
    by (simp add: ComputeMax_def check_def rcount_def Size_def max_count_def slots_ok_def Let_def fold_max_Max)
  moreover have "rolling_tracks n xs (r\<lparr>rmax := ?m, max_stale := False\<rparr>)"
    using tr ne full by (simp add: rolling_tracks_def slots_ok_def bound_ok_def)
  ultimately show ?thesis by blast
next
  case False
  have "xs \<noteq> [] \<longrightarrow> rmax r = Max (set (lastn n xs))"
    using tr False by (auto simp: rolling_tracks_def bound_ok_def intro!: Max_eqI [symmetric])
  with tr False show ?thesis by (simp add: ComputeMax_def)
qed

lemma compute_min_tracks:
  assumes tr: "rolling_tracks n xs r" and n: "0 < n"
  shows "\<exists>m t. ComputeMin r = Inr (m, t) \<and> rolling_tracks n xs t \<and> (xs \<noteq> [] \<longrightarrow> m = Min (set (lastn n xs)))"
proof (cases "min_stale r")
  case True
  then have full: "xs \<noteq> []" "n \<le> length xs" and ring: "slots_ok n xs r"
    using tr by (auto simp: rolling_tracks_def bound_ok_def split: if_splits)
  let ?m = "Min (set (lastn n xs))"
  have ne: "set (lastn n xs) \<noteq> {}" using slots_window [OF ring n full(2)] by (metis insert_not_empty)
  have "ComputeMin r = Inr (?m, r\<lparr>rmin := ?m, min_stale := False\<rparr>)"
    using True full n ring unfolding slots_window [OF ring n full(2)]
    by (simp add: ComputeMin_def check_def rcount_def Size_def max_count_def slots_ok_def Let_def fold_min_Min)
  moreover have "rolling_tracks n xs (r\<lparr>rmin := ?m, min_stale := False\<rparr>)"
    using tr ne full by (simp add: rolling_tracks_def slots_ok_def bound_ok_def)
  ultimately show ?thesis by blast
next
  case False
  have "xs \<noteq> [] \<longrightarrow> rmin r = Min (set (lastn n xs))"
    using tr False by (auto simp: rolling_tracks_def bound_ok_def intro!: Min_eqI [symmetric])
  with tr False show ?thesis by (simp add: ComputeMin_def)
qed

lemma rolling_step_tracks:
  assumes "rolling_tracks n (sampled ops) r" and "0 < n"
  shows "\<exists>t. rolling_step op r = Inr t \<and> rolling_tracks n (sampled (ops @ [op])) t"
proof (cases op)
  case (Sample x)
  with rolling_add_tracks [OF assms] show ?thesis by simp
next
  case AskMaximum
  with compute_max_tracks [OF assms] show ?thesis by fastforce
next
  case AskMinimum
  with compute_min_tracks [OF assms] show ?thesis by fastforce
qed

definition rolling_start :: "int \<Rightarrow> int \<Rightarrow> nat \<Rightarrow> rolling" where
  "rolling_start lo hi n = projr (RollingAccumulator lo hi n)"

interpretation rolling_window: window_filter "rolling_start lo hi (Suc n)" rolling_step
  "\<lambda>ops. rolling_tracks (Suc n) (sampled ops)" for lo hi n
proof
  show "rolling_tracks (Suc n) (sampled []) (rolling_start lo hi (Suc n))"
    using rolling_start_tracks [of "Suc n" lo hi] by (auto simp: rolling_start_def)
qed (rule rolling_step_tracks, simp_all)



section \<open>The weighted mean\<close>

text \<open>The samples from the newest to the oldest, each with its power of the rate.\<close>

definition weighted :: "rat \<Rightarrow> int list \<Rightarrow> rat" where
  "weighted rate ys = (\<Sum>i < length ys. rate ^ Suc i * of_int (ys ! i))"

definition weights :: "rat \<Rightarrow> nat \<Rightarrow> rat" where
  "weights rate n = (\<Sum>i < n. rate ^ Suc i)"

lemma weigh_fold:
  assumes "\<And>i. i < k \<Longrightarrow> rsamples r ! ((next_index r + max_count r - i - 1) mod max_count r) = f i"
  shows "fold (weigh r rate) [0 ..< k] (0, 1, 0) = (\<Sum>i < k. rate ^ Suc i * of_int (f i), rate ^ k, weights rate k)"
  using assms by (induction k) (simp_all add: weigh_def weights_def mult.commute)

lemma slots_newest:
  assumes "slots_ok n xs r" and "0 < n" and "i < min n (length xs)"
  shows "rsamples r ! ((next_index r + max_count r - i - 1) mod max_count r) = rev (lastn n xs) ! i"
proof -
  have len: "max_count r = n" "next_index r = length xs mod n" using assms(1) by (simp_all add: slots_ok_def max_count_def)
  have "(length xs mod n + n - i - 1) mod n = (length xs mod n + (n - i - 1)) mod n" using assms(3) by simp
  also have "\<dots> = (length xs + (n - i - 1)) mod n" by (rule mod_add_left_eq)
  also have "\<dots> = ((length xs - Suc i) + n) mod n" using assms(3) by (simp add: add.commute)
  finally have slot: "(length xs mod n + n - i - 1) mod n = (length xs - Suc i) mod n" by simp
  have "length xs - n \<le> length xs - Suc i" "length xs - Suc i < length xs" using assms(3) by auto
  then have "rsamples r ! ((length xs - Suc i) mod n) = xs ! (length xs - Suc i)" using assms(1) unfolding slots_ok_def by blast
  moreover have "rev (lastn n xs) ! i = xs ! (length xs - Suc i)"
    using assms(3) by (simp add: rev_nth lastn_nth min_def split: if_splits)
  ultimately show ?thesis by (simp only: len slot)
qed

lemma weights_pos: "0 < rate \<Longrightarrow> 0 < n \<Longrightarrow> 0 < weights rate n"
  unfolding weights_def by (rule sum_pos) auto

text \<open>
  The weighted mean of a rolling accumulator is the sum of the samples of the window, the newest first, weighted by
  the growing powers of the rate and divided by the positive sum of the weights; for a rate outside the open unit interval
  it is the plain mean.
\<close>

theorem weighted_mean_exact:
  assumes n: "0 < n" and some: "sampled ops \<noteq> []"
  shows "\<exists>r. bindE (RollingAccumulator lo hi n) (feed rolling_step ops) = Inr r \<and>
    (let recent = rev (lastn n (sampled ops)) in
      if 0 < rate \<and> rate < 1
      then 0 < weights rate (length recent) \<and>
        ComputeWeightedMean rate r = Some (weighted rate recent / weights rate (length recent))
      else ComputeWeightedMean rate r = ComputeMean r)"
proof -
  obtain k where k: "n = Suc k" using n by (cases n) auto
  from rolling_window.feed_tracks [of ops lo hi k]
  obtain r where r: "feed rolling_step ops (rolling_start lo hi n) = Inr r" "rolling_tracks n (sampled ops) r"
    unfolding k by blast
  have start: "RollingAccumulator lo hi n = Inr (rolling_start lo hi n)"
    using rolling_start_tracks [OF n, of lo hi] by (auto simp: rolling_start_def)
  let ?recent = "rev (lastn n (sampled ops))"
  have ring: "slots_ok n (sampled ops) r" using r(2) by (simp add: rolling_tracks_def)
  have cnt: "rcount r = length ?recent" "0 < length ?recent"
    using ring n some by (simp_all add: slots_ok_def rcount_def Size_def)
  have "fold (weigh r rate) [0 ..< length ?recent] (0, 1, 0) =
      (weighted rate ?recent, rate ^ length ?recent, weights rate (length ?recent))"
    using weigh_fold [of "length ?recent" r "\<lambda>i. ?recent ! i" rate] slots_newest [OF ring n] by (simp add: weighted_def)
  then have "ComputeWeightedMean rate r = Some (weighted rate ?recent / weights rate (length ?recent))" if "0 < rate" "rate < 1"
    using cnt that by (simp add: ComputeWeightedMean_def del: length_rev length_lastn)
  moreover have "ComputeWeightedMean rate r = ComputeMean r" if "\<not> (0 < rate \<and> rate < 1)"
    using that by (auto simp: ComputeWeightedMean_def not_less)
  ultimately show ?thesis using start r weights_pos [OF _ cnt(2)] by (auto simp: Let_def)
qed

theorem weighted_mean_exact_witness:
  "\<exists>r. bindE (RollingAccumulator 0 99 2) (feed rolling_step [Sample 9, Sample 4, Sample 6]) = Inr r \<and>
     ComputeWeightedMean (1 / 2) r = Some (16 / 3)"
  using weighted_mean_exact [of 2 "[Sample 9, Sample 4, Sample 6]" 0 99 "1 / 2"]
  by (auto simp: lastn_def weights_def weighted_def numeral_2_eq_2)

end
