(* ===== verification/Ref_Counting.thy ===== *)
theory Ref_Counting
  imports Prelude
begin

text \<open>
  \<^verbatim>\<open>rtc_base/ref_counter.h\<close>, \<^verbatim>\<open>rtc_base/ref_counted_object.h\<close> and \<^verbatim>\<open>api/scoped_refptr.h\<close>: objects on a heap
  with their reference counts, and the smart pointers that share them. The pointers in scope are a list of
  variables, each null or an address; a variable that is out of scope is null. A use of an object that was
  deleted is the abort \<open>BadLifetime\<close>. Theorem: under every sequence of pointer operations no such use occurs,
  the count of an object is the number of pointers to it, and an object lives exactly as long as one points to it.
\<close>

section \<open>Counters\<close>

definition RefCounter :: "int \<Rightarrow> 32 word" where
  "RefCounter n = word_of_int n"

definition IncRef :: "32 word \<Rightarrow> 32 word" where
  "IncRef c = c + 1"

datatype RefCountReleaseStatus = kDroppedLastRef | kOtherRefsRemained

definition DecRef :: "32 word \<Rightarrow> RefCountReleaseStatus \<times> 32 word" where
  "DecRef c = (let after = c - 1 in (if after = 0 then kDroppedLastRef else kOtherRefsRemained, after))"

definition HasOneRef :: "32 word \<Rightarrow> bool" where
  "HasOneRef c \<longleftrightarrow> c = 1"

section \<open>Counted objects\<close>

record 'a ref_counted =
  ref_count :: "32 word"
  obj :: 'a

record 'a store =
  cells :: "nat \<Rightarrow> 'a ref_counted option"
  fresh :: nat
  ptrs :: "nat option list"

definition deref :: "nat \<Rightarrow> ('a, 'b) store_scheme \<Rightarrow> abort + 'a ref_counted" where
  "deref p s = (case cells s p of None \<Rightarrow> Inl BadLifetime | Some c \<Rightarrow> Inr c)"

text \<open>\<^verbatim>\<open>new\<close>: the count of a new object is zero.\<close>

definition new_object :: "'a \<Rightarrow> ('a, 'b) store_scheme \<Rightarrow> nat \<times> ('a, 'b) store_scheme" where
  "new_object x s =
     (fresh s, s\<lparr>cells := (cells s)(fresh s := Some \<lparr>ref_count = RefCounter 0, obj = x\<rparr>), fresh := fresh s + 1\<rparr>)"

definition AddRef :: "nat \<Rightarrow> ('a, 'b) store_scheme \<Rightarrow> abort + ('a, 'b) store_scheme" where
  "AddRef p s = bindE (deref p s) (\<lambda>c.
     Inr (s\<lparr>cells := (cells s)(p := Some (c\<lparr>ref_count := IncRef (ref_count c)\<rparr>))\<rparr>))"

text \<open>The last release deletes the object.\<close>

definition Release :: "nat \<Rightarrow> ('a, 'b) store_scheme \<Rightarrow> abort + (RefCountReleaseStatus \<times> ('a, 'b) store_scheme)" where
  "Release p s = bindE (deref p s) (\<lambda>c.
     let (status, n) = DecRef (ref_count c)
     in Inr (status, s\<lparr>cells := (cells s)(p := (if status = kDroppedLastRef then None else Some (c\<lparr>ref_count := n\<rparr>)))\<rparr>))"

definition object_HasOneRef :: "nat \<Rightarrow> ('a, 'b) store_scheme \<Rightarrow> abort + bool" where
  "object_HasOneRef p s = bindE (deref p s) (\<lambda>c. Inr (HasOneRef (ref_count c)))"

section \<open>Smart pointers\<close>

definition add_ref :: "nat option \<Rightarrow> ('a, 'b) store_scheme \<Rightarrow> abort + ('a, 'b) store_scheme" where
  "add_ref p s = (case p of None \<Rightarrow> Inr s | Some a \<Rightarrow> AddRef a s)"

definition drop_ref :: "nat option \<Rightarrow> ('a, 'b) store_scheme \<Rightarrow> abort + ('a, 'b) store_scheme" where
  "drop_ref p s = (case p of None \<Rightarrow> Inr s | Some a \<Rightarrow> bindE (Release a s) (\<lambda>(status, s). Inr s))"

definition set_ptr :: "nat \<Rightarrow> nat option \<Rightarrow> ('a, 'b) store_scheme \<Rightarrow> ('a, 'b) store_scheme" where
  "set_ptr i p s = s\<lparr>ptrs := (ptrs s)[i := p]\<rparr>"

definition refptr_of :: "nat \<Rightarrow> nat option \<Rightarrow> ('a, 'b) store_scheme \<Rightarrow> abort + ('a, 'b) store_scheme" where
  "refptr_of i p s = add_ref p (set_ptr i p s)"

definition refptr_copy :: "nat \<Rightarrow> nat \<Rightarrow> ('a, 'b) store_scheme \<Rightarrow> abort + ('a, 'b) store_scheme" where
  "refptr_copy i j s = refptr_of i (ptrs s ! j) s"

definition refptr_release :: "nat \<Rightarrow> ('a, 'b) store_scheme \<Rightarrow> nat option \<times> ('a, 'b) store_scheme" where
  "refptr_release i s = (ptrs s ! i, set_ptr i None s)"

definition refptr_move :: "nat \<Rightarrow> nat \<Rightarrow> ('a, 'b) store_scheme \<Rightarrow> ('a, 'b) store_scheme" where
  "refptr_move i j s = (let (p, s) = refptr_release j s in set_ptr i p s)"

definition refptr_destroy :: "nat \<Rightarrow> ('a, 'b) store_scheme \<Rightarrow> abort + ('a, 'b) store_scheme" where
  "refptr_destroy i s = bindE (drop_ref (ptrs s ! i) s) (\<lambda>s. Inr (set_ptr i None s))"

text \<open>Assignment of a raw pointer.\<close>

definition refptr_set :: "nat \<Rightarrow> nat option \<Rightarrow> ('a, 'b) store_scheme \<Rightarrow> abort + ('a, 'b) store_scheme" where
  "refptr_set i p s =
     bindE (add_ref p s) (\<lambda>s. bindE (drop_ref (ptrs s ! i) s) (\<lambda>s. Inr (set_ptr i p s)))"

definition refptr_assign :: "nat \<Rightarrow> nat \<Rightarrow> ('a, 'b) store_scheme \<Rightarrow> abort + ('a, 'b) store_scheme" where
  "refptr_assign i j s = refptr_set i (ptrs s ! j) s"

text \<open>Swap with a raw pointer: the pointer the caller is left with, and the store.\<close>

definition refptr_swap_raw :: "nat \<Rightarrow> nat option \<Rightarrow> ('a, 'b) store_scheme \<Rightarrow> nat option \<times> ('a, 'b) store_scheme" where
  "refptr_swap_raw i pp s = (ptrs s ! i, set_ptr i pp s)"

definition refptr_swap :: "nat \<Rightarrow> nat \<Rightarrow> ('a, 'b) store_scheme \<Rightarrow> ('a, 'b) store_scheme" where
  "refptr_swap i j s = (let (p, s) = refptr_swap_raw i (ptrs s ! j) s in set_ptr j p s)"

text \<open>A temporary takes the source, is swapped with the target and destroyed with what the target held.\<close>

definition refptr_move_assign :: "nat \<Rightarrow> nat \<Rightarrow> ('a, 'b) store_scheme \<Rightarrow> abort + ('a, 'b) store_scheme" where
  "refptr_move_assign i j s =
     (let (temp, s) = refptr_release j s; (temp, s) = refptr_swap_raw i temp s in drop_ref temp s)"

definition refptr_eq :: "nat \<Rightarrow> nat \<Rightarrow> ('a, 'b) store_scheme \<Rightarrow> bool" where
  "refptr_eq i j s \<longleftrightarrow> ptrs s ! i = ptrs s ! j"

definition refptr_is_null :: "nat \<Rightarrow> ('a, 'b) store_scheme \<Rightarrow> bool" where
  "refptr_is_null i s \<longleftrightarrow> ptrs s ! i = None"

text \<open>\<^verbatim>\<open>ptr = new T(...)\<close>.\<close>

definition refptr_set_new :: "nat \<Rightarrow> 'a \<Rightarrow> ('a, 'b) store_scheme \<Rightarrow> abort + ('a, 'b) store_scheme" where
  "refptr_set_new i x s = (let (p, s) = new_object x s in refptr_set i (Some p) s)"

section \<open>Ownership\<close>

text \<open>
  References are owned by the pointers in scope and by temporaries \<open>ts\<close> in the course of an operation. \<open>g\<close> is an
  object just made that nobody owns yet.
\<close>

definition owners :: "nat option list \<Rightarrow> ('a, 'b) store_scheme \<Rightarrow> nat \<Rightarrow> nat" where
  "owners ts s p = count_list (ptrs s) (Some p) + count_list ts (Some p)"

definition owned :: "nat option \<Rightarrow> nat option list \<Rightarrow> ('a, 'b) store_scheme \<Rightarrow> bool" where
  "owned g ts s \<longleftrightarrow> length (ptrs s) < 2 ^ 31 \<and> (\<forall>p \<ge> fresh s. cells s p = None) \<and>
     (\<forall>p. cells s p = None \<longrightarrow> owners ts s p = 0) \<and>
     (\<forall>p c. cells s p = Some c \<longrightarrow> ref_count c = of_nat (owners ts s p) \<and> (0 < owners ts s p \<or> g = Some p))"

text \<open>Everything except the counts.\<close>

definition objects :: "('a, 'b) store_scheme \<Rightarrow> nat \<Rightarrow> 'a option" where
  "objects s p = map_option obj (cells s p)"

lemma count_list_update:
  "i < length xs \<Longrightarrow> count_list (xs[i := p]) x + (if xs ! i = x then 1 else 0) = count_list xs x + (if p = x then 1 else 0)"
proof (induction xs arbitrary: i)
  case (Cons y ys)
  then show ?case
  proof (cases i)
    case (Suc k)
    with Cons.IH [of k] Cons.prems show ?thesis by (auto split: if_splits)
  qed simp
qed simp

lemma count_list_nth_pos: "i < length xs \<Longrightarrow> 0 < count_list xs (xs ! i)"
  by (metis count_list_0_iff gr0I nth_mem)

lemma ownedD:
  assumes "owned g ts s"
  shows "cells s p = None \<Longrightarrow> owners ts s p = 0"
    and "cells s p = Some c \<Longrightarrow> ref_count c = of_nat (owners ts s p) \<and> (0 < owners ts s p \<or> g = Some p)"
    and "length (ptrs s) < 2 ^ 31" and "fresh s \<le> p \<Longrightarrow> cells s p = None"
  using assms by (auto simp: owned_def)

lemma ownedI:
  assumes "length (ptrs s) < 2 ^ 31" and "\<And>p. fresh s \<le> p \<Longrightarrow> cells s p = None"
    and "\<And>p. cells s p = None \<Longrightarrow> owners ts s p = 0"
    and "\<And>p c. cells s p = Some c \<Longrightarrow> ref_count c = of_nat (owners ts s p) \<and> (0 < owners ts s p \<or> g = Some p)"
  shows "owned g ts s"
  using assms by (auto simp: owned_def)

lemma owned_alive: "owned g ts s \<Longrightarrow> 0 < owners ts s p \<Longrightarrow> \<exists>c. cells s p = Some c"
  using ownedD(1) [of g ts s p] by (cases "cells s p") auto

lemma owned_null [simp]: "owned g (None # ts) s = owned g ts s"
  by (simp add: owned_def owners_def)

text \<open>A new object, owned by nobody.\<close>

lemma new_owned:
  assumes "owned None ts s"
  shows "owned (Some (fst (new_object x s))) ts (snd (new_object x s))"
proof (rule ownedI)
  have o: "owners ts (snd (new_object x s)) p = owners ts s p" for p by (simp add: owners_def new_object_def)
  have "owners ts s (fresh s) = 0" using ownedD(1,4) [OF assms, of "fresh s"] by simp
  then show "\<And>p c. cells (snd (new_object x s)) p = Some c \<Longrightarrow>
      ref_count c = of_nat (owners ts (snd (new_object x s)) p) \<and>
      (0 < owners ts (snd (new_object x s)) p \<or> Some (fst (new_object x s)) = Some p)"
    unfolding o using ownedD(2) [OF assms] by (auto simp: new_object_def RefCounter_def split: if_splits)
qed (use ownedD [OF assms] in \<open>auto simp: new_object_def owners_def split: if_splits\<close>)

lemma AddRef_owned:
  assumes ow: "owned g ts s" and c: "cells s p = Some c" and g: "g = None \<or> g = Some p"
  shows "\<exists>t. AddRef p s = Inr t \<and> owned None (Some p # ts) t \<and> ptrs t = ptrs s \<and> objects t = objects s \<and>
    store.more t = store.more s \<and> fresh t = fresh s"
proof -
  let ?t = "s\<lparr>cells := (cells s)(p := Some (c\<lparr>ref_count := IncRef (ref_count c)\<rparr>))\<rparr>"
  have o: "owners (Some p # ts) ?t q = owners ts s q + (if q = p then 1 else 0)" for q by (simp add: owners_def)
  have "owned None (Some p # ts) ?t"
  proof (rule ownedI)
    fix q d
    assume d: "cells ?t q = Some d"
    show "ref_count d = of_nat (owners (Some p # ts) ?t q) \<and> (0 < owners (Some p # ts) ?t q \<or> None = Some q)"
      unfolding o using d ownedD(2) [OF ow, of q] c g by (auto simp: IncRef_def split: if_splits)
  next
    show "\<And>q. cells ?t q = None \<Longrightarrow> owners (Some p # ts) ?t q = 0"
      unfolding o using ownedD(1) [OF ow] by (simp split: if_splits)
  qed (use ownedD(3,4) [OF ow] c in \<open>auto simp: split: if_splits\<close>)
  with c show ?thesis by (auto simp: AddRef_def deref_def objects_def)
qed

lemma owners_bound: "length (ptrs s) < 2 ^ 31 \<Longrightarrow> length ts < 2 ^ 31 \<Longrightarrow> owners ts s p < 2 ^ 32"
  using count_le_length [of "ptrs s" "Some p"] count_le_length [of ts "Some p"] by (simp add: owners_def)

lemma of_nat_word_eq: "m < 2 ^ 32 \<Longrightarrow> n < 2 ^ 32 \<Longrightarrow> (of_nat m :: 32 word) = of_nat n \<longleftrightarrow> m = n"
  by (simp add: word_of_nat_eq_iff take_bit_nat_eq_self)

text \<open>Dropping a reference that a temporary owns: the object goes if and only if it was the last one.\<close>

lemma Release_owned:
  assumes ow: "owned None (Some p # ts) s" and ts: "length ts < 2 ^ 30"
  shows "\<exists>st t. Release p s = Inr (st, t) \<and> owned None ts t \<and> ptrs t = ptrs s \<and> store.more t = store.more s \<and> fresh t = fresh s \<and>
    objects t = (if owners ts s p = 0 then (objects s)(p := None) else objects s)"
proof -
  have o: "owners (Some p # ts) s q = owners ts s q + (if q = p then 1 else 0)" for q by (simp add: owners_def)
  obtain c where c: "cells s p = Some c" using owned_alive [OF ow, of p] o by auto
  then have rc: "ref_count c - 1 = of_nat (owners ts s p)" using ownedD(2) [OF ow c] o by simp
  have "(of_nat (owners ts s p) :: 32 word) = of_nat 0 \<longleftrightarrow> owners ts s p = 0"
    using owners_bound [OF ownedD(3) [OF ow]] ts by (intro of_nat_word_eq) simp_all
  then have zero: "ref_count c - 1 = 0 \<longleftrightarrow> owners ts s p = 0" using rc by simp
  let ?t = "s\<lparr>cells := (cells s)(p := (if owners ts s p = 0 then None else Some (c\<lparr>ref_count := ref_count c - 1\<rparr>)))\<rparr>"
  have o': "owners ts ?t q = owners ts s q" for q by (simp add: owners_def)
  have "owned None ts ?t"
  proof (rule ownedI)
    fix q d
    assume d: "cells ?t q = Some d"
    show "ref_count d = of_nat (owners ts ?t q) \<and> (0 < owners ts ?t q \<or> None = Some q)"
      unfolding o' using d ownedD(2) [OF ow, of q] o [of q] rc by (auto split: if_splits)
  next
    fix q
    assume "cells ?t q = None"
    then show "owners ts ?t q = 0" unfolding o' using ownedD(1) [OF ow, of q] o [of q] by (auto split: if_splits)
  qed (use ownedD(3,4) [OF ow] c in \<open>auto split: if_splits\<close>)
  moreover have "objects ?t = (if owners ts s p = 0 then (objects s)(p := None) else objects s)"
    using c by (auto simp: objects_def)
  moreover have "\<exists>st. Release p s = Inr (st, ?t)" using c zero by (simp add: Release_def deref_def DecRef_def Let_def)
  ultimately show ?thesis by auto
qed

text \<open>A temporary and a variable exchange what they own.\<close>

lemma set_ptr_owned:
  assumes i: "i < length (ptrs s)" and ow: "owned g (p # ts) s"
  shows "owned g (ptrs s ! i # ts) (set_ptr i p s)"
proof -
  have o: "owners (ptrs s ! i # ts) (set_ptr i p s) q = owners (p # ts) s q" for q
    using count_list_update [OF i, of p "Some q"] by (auto simp: owners_def set_ptr_def split: if_splits)
  show ?thesis
    by (rule ownedI) (use ownedD [OF ow] in \<open>simp_all add: o\<close>, simp_all add: set_ptr_def)
qed

lemma set_ptr_simps [simp]:
  "cells (set_ptr i p s) = cells s" "fresh (set_ptr i p s) = fresh s" "ptrs (set_ptr i p s) = (ptrs s)[i := p]"
  "store.more (set_ptr i p s) = store.more s" "objects (set_ptr i p s) = objects s"
  by (simp_all add: set_ptr_def objects_def fun_eq_iff)

text \<open>What an operation leaves of the rest: the objects that survive are unchanged.\<close>

definition keeps :: "('a, 'b) store_scheme \<Rightarrow> ('a, 'b) store_scheme \<Rightarrow> bool" where
  "keeps s t \<longleftrightarrow> store.more t = store.more s \<and> fresh t = fresh s \<and> (\<forall>q. objects t q = None \<or> objects t q = objects s q)"

definition alive :: "('a, 'b) store_scheme \<Rightarrow> nat option \<Rightarrow> bool" where
  "alive s p \<longleftrightarrow> (\<forall>a. p = Some a \<longrightarrow> objects s a \<noteq> None)"

lemma alive_None [simp]: "alive s None"
  by (simp add: alive_def)

lemma keeps_refl [simp]: "keeps s s"
  by (simp add: keeps_def)

lemma keeps_trans: "keeps s t \<Longrightarrow> keeps t u \<Longrightarrow> keeps s u"
  unfolding keeps_def by metis

lemma keeps_set_ptr [simp]: "keeps s (set_ptr i p t) = keeps s t" "keeps (set_ptr i p s) t = keeps s t"
  by (simp_all add: keeps_def)

lemma add_ref_owned:
  assumes "owned g ts s" and "alive s p" and "g = None \<or> g = p"
  shows "\<exists>t. add_ref p s = Inr t \<and> owned None (p # ts) t \<and> ptrs t = ptrs s \<and> objects t = objects s \<and> keeps s t"
proof (cases p)
  case (Some a)
  with assms(2) obtain c where "cells s a = Some c" by (auto simp: alive_def objects_def)
  with AddRef_owned [OF assms(1)] assms(3) Some show ?thesis by (fastforce simp: add_ref_def keeps_def)
qed (use assms in \<open>simp add: add_ref_def\<close>)

lemma drop_ref_owned:
  assumes "owned None (p # ts) s" and "length ts < 2 ^ 30"
  shows "\<exists>t. drop_ref p s = Inr t \<and> owned None ts t \<and> ptrs t = ptrs s \<and> keeps s t"
proof (cases p)
  case (Some a)
  with Release_owned [of a ts s] assms show ?thesis by (fastforce simp: drop_ref_def keeps_def split: if_splits)
qed (use assms in \<open>simp add: drop_ref_def\<close>)

text \<open>Changing a variable and counting commute.\<close>

lemma ref_set_ptr:
  "add_ref q (set_ptr i p s) = bindE (add_ref q s) (\<lambda>t. Inr (set_ptr i p t))"
  "drop_ref q (set_ptr i p s) = bindE (drop_ref q s) (\<lambda>t. Inr (set_ptr i p t))"
  by (auto simp: add_ref_def drop_ref_def AddRef_def Release_def deref_def set_ptr_def Let_def split: option.split prod.split)

lemma owned_pointed: "owned None [] s \<Longrightarrow> i < length (ptrs s) \<Longrightarrow> alive s (ptrs s ! i)"
  using owned_alive [of None "[]" s] count_list_nth_pos [of i "ptrs s"]
  by (fastforce simp: alive_def objects_def owners_def)

lemma refptr_set_law:
  assumes ow: "owned g [] s" and p: "alive s p" and g: "g = None \<or> g = p" and i: "i < length (ptrs s)"
  shows "\<exists>t. refptr_set i p s = Inr t \<and> owned None [] t \<and> ptrs t = (ptrs s)[i := p] \<and> keeps s t"
proof -
  from add_ref_owned [OF ow p g] obtain s1 where
    s1: "add_ref p s = Inr s1" "owned None [p] s1" "ptrs s1 = ptrs s" "keeps s s1" by blast
  from i s1 have "owned None [ptrs s ! i] (set_ptr i p s1)" using set_ptr_owned [of i s1 None p "[]"] by simp
  from drop_ref_owned [OF this] obtain t where
    t: "drop_ref (ptrs s ! i) (set_ptr i p s1) = Inr t" "owned None [] t" "ptrs t = (ptrs s)[i := p]" "keeps s1 t"
    using s1(3) by auto
  have "refptr_set i p s = drop_ref (ptrs s ! i) (set_ptr i p s1)"
    using s1 by (simp add: refptr_set_def ref_set_ptr)
  with t keeps_trans [OF s1(4) t(4)] show ?thesis by simp
qed

lemma refptr_of_law:
  assumes "owned None [] s" and "alive s p" and "i < length (ptrs s)" and "ptrs s ! i = None"
  shows "\<exists>t. refptr_of i p s = Inr t \<and> owned None [] t \<and> ptrs t = (ptrs s)[i := p] \<and> keeps s t"
proof -
  from add_ref_owned [OF assms(1,2)] obtain t where
    t: "add_ref p s = Inr t" "owned None [p] t" "ptrs t = ptrs s" "keeps s t" by blast
  with set_ptr_owned [of i t None p "[]"] assms(3,4) show ?thesis by (simp add: refptr_of_def ref_set_ptr)
qed

lemma refptr_move_law:
  assumes ow: "owned None [] s" and i: "i < length (ptrs s)" "j < length (ptrs s)" "i \<noteq> j" "ptrs s ! i = None"
  shows "owned None [] (refptr_move i j s)" "keeps s (refptr_move i j s)"
    "ptrs (refptr_move i j s) = (ptrs s)[j := None, i := ptrs s ! j]"
proof -
  have "owned None [ptrs s ! j] (set_ptr j None s)" using set_ptr_owned [OF i(2), of None None "[]"] ow by simp
  from set_ptr_owned [OF _ this, of i] i show "owned None [] (refptr_move i j s)"
    by (simp add: refptr_move_def refptr_release_def)
qed (simp_all add: refptr_move_def refptr_release_def)

lemma refptr_move_assign_law:
  assumes ow: "owned None [] s" and i: "i < length (ptrs s)" "j < length (ptrs s)"
  shows "\<exists>t. refptr_move_assign i j s = Inr t \<and> owned None [] t \<and> ptrs t = (ptrs s)[j := None, i := ptrs s ! j] \<and> keeps s t"
proof -
  let ?u = "set_ptr j None s"
  have "owned None [ptrs s ! j] ?u" using set_ptr_owned [OF i(2), of None None "[]"] ow by simp
  from set_ptr_owned [OF _ this, of i] i
  have "owned None [ptrs ?u ! i] (set_ptr i (ptrs s ! j) ?u)" by simp
  from drop_ref_owned [OF this] show ?thesis
    by (auto simp: refptr_move_assign_def refptr_release_def refptr_swap_raw_def)
qed

lemma refptr_swap_law:
  assumes ow: "owned None [] s" and i: "i < length (ptrs s)" "j < length (ptrs s)"
  shows "owned None [] (refptr_swap i j s)" "ptrs (refptr_swap i j s) = (ptrs s)[i := ptrs s ! j, j := ptrs s ! i]"
    "keeps s (refptr_swap i j s)"
proof -
  have o: "owners [] (refptr_swap i j s) q = owners [] s q" for q
    using count_list_update [OF i(1), of "ptrs s ! j" "Some q"]
      count_list_update [of j "(ptrs s)[i := ptrs s ! j]" "ptrs s ! i" "Some q"] i
    by (cases "i = j") (auto simp: owners_def refptr_swap_def refptr_swap_raw_def split: if_splits)
  show "owned None [] (refptr_swap i j s)"
    by (rule ownedI) (use ownedD [OF ow] in \<open>simp_all add: o\<close>, simp_all add: refptr_swap_def refptr_swap_raw_def)
qed (simp_all add: refptr_swap_def refptr_swap_raw_def)

lemma refptr_destroy_law:
  assumes "owned None [] s" and "i < length (ptrs s)"
  shows "\<exists>t. refptr_destroy i s = Inr t \<and> owned None [] t \<and> ptrs t = (ptrs s)[i := None] \<and> keeps s t"
proof -
  have "owned None [ptrs s ! i] (set_ptr i None s)" using set_ptr_owned [OF assms(2), of None None "[]"] assms(1) by simp
  from drop_ref_owned [OF this] show ?thesis by (simp add: refptr_destroy_def ref_set_ptr)
qed

lemma refptr_set_new_law:
  assumes ow: "owned None [] s" and i: "i < length (ptrs s)"
  shows "\<exists>t. refptr_set_new i x s = Inr t \<and> owned None [] t \<and> ptrs t = (ptrs s)[i := Some (fresh s)] \<and>
    objects t (fresh s) = Some x \<and> store.more t = store.more s \<and>
    (\<forall>q. q \<noteq> fresh s \<longrightarrow> objects t q = None \<or> objects t q = objects s q)"
proof -
  define u where "u = snd (new_object x s)"
  have u: "fst (new_object x s) = fresh s" "ptrs u = ptrs s" "objects u = (objects s)(fresh s := Some x)"
      "store.more u = store.more s"
    by (auto simp: u_def new_object_def objects_def)
  have a: "alive u (Some (fresh s))" "owned (Some (fresh s)) [] u"
    using new_owned [OF ow, of x] u by (simp_all add: alive_def u_def)
  from refptr_set_law [OF a(2,1)] i u obtain t where
    t: "refptr_set i (Some (fresh s)) u = Inr t" "owned None [] t" "ptrs t = (ptrs s)[i := Some (fresh s)]" "keeps u t" by auto
  have "owners [] t (fresh s) > 0" using t(3) i count_list_nth_pos [of i "ptrs t"] by (simp add: owners_def)
  then have "objects t (fresh s) \<noteq> None" using owned_alive [OF t(2)] by (fastforce simp: objects_def)
  with t(4) u have "objects t (fresh s) = Some x" by (metis fun_upd_same keeps_def)
  moreover have "refptr_set_new i x s = Inr t"
    using t(1) u(1) by (simp add: refptr_set_new_def u_def case_prod_beta)
  ultimately show ?thesis using t u by (auto simp: keeps_def)
qed

text \<open>The count is the number of pointers.\<close>

lemma owned_count:
  assumes ow: "owned None [] s" and c: "cells s p = Some c"
  shows "unat (ref_count c) = count_list (ptrs s) (Some p) \<and> object_HasOneRef p s = Inr (count_list (ptrs s) (Some p) = 1)"
proof -
  have own: "owners [] s p = count_list (ptrs s) (Some p)" by (simp add: owners_def)
  have lt: "owners [] s p < 2 ^ 32" by (rule owners_bound [OF ownedD(3) [OF ow]]) simp
  have "ref_count c = of_nat (owners [] s p)" using ownedD(2) [OF ow c] by simp
  moreover have "(of_nat (owners [] s p) :: 32 word) = of_nat 1 \<longleftrightarrow> owners [] s p = 1"
    by (rule of_nat_word_eq [OF lt]) simp
  moreover have "unat (of_nat (owners [] s p) :: 32 word) = owners [] s p" using lt by (simp add: unat_of_nat)
  ultimately show ?thesis using c by (simp add: object_HasOneRef_def deref_def HasOneRef_def own)
qed

section \<open>Programs over smart pointers\<close>

datatype 'a ptr_op =
    MakeObject nat 'a | CopyPtr nat nat | MovePtr nat nat | DestroyPtr nat
  | AssignRaw nat "nat option" | AssignPtr nat nat | MoveAssignPtr nat nat | SwapPtr nat nat

fun ptr_op_step :: "'a ptr_op \<Rightarrow> 'a store \<Rightarrow> abort + 'a store" where
  "ptr_op_step (MakeObject i x) s = refptr_set_new i x s"
| "ptr_op_step (CopyPtr i j) s = refptr_copy i j s"
| "ptr_op_step (MovePtr i j) s = Inr (refptr_move i j s)"
| "ptr_op_step (DestroyPtr i) s = refptr_destroy i s"
| "ptr_op_step (AssignRaw i p) s = refptr_set i p s"
| "ptr_op_step (AssignPtr i j) s = refptr_assign i j s"
| "ptr_op_step (MoveAssignPtr i j) s = refptr_move_assign i j s"
| "ptr_op_step (SwapPtr i j) s = Inr (refptr_swap i j s)"

text \<open>
  Operations name variables of the program; a constructor is given one that is not in use; a raw pointer is null
  or that of an object some smart pointer holds.
\<close>

fun ptr_op_ok :: "'a ptr_op \<Rightarrow> 'a store \<Rightarrow> bool" where
  "ptr_op_ok (MakeObject i x) s = (i < length (ptrs s))"
| "ptr_op_ok (CopyPtr i j) s = (i < length (ptrs s) \<and> j < length (ptrs s) \<and> ptrs s ! i = None)"
| "ptr_op_ok (MovePtr i j) s = (i < length (ptrs s) \<and> j < length (ptrs s) \<and> i \<noteq> j \<and> ptrs s ! i = None)"
| "ptr_op_ok (DestroyPtr i) s = (i < length (ptrs s))"
| "ptr_op_ok (AssignRaw i p) s = (i < length (ptrs s) \<and> (p = None \<or> p \<in> set (ptrs s)))"
| "ptr_op_ok (AssignPtr i j) s = (i < length (ptrs s) \<and> j < length (ptrs s))"
| "ptr_op_ok (MoveAssignPtr i j) s = (i < length (ptrs s) \<and> j < length (ptrs s))"
| "ptr_op_ok (SwapPtr i j) s = (i < length (ptrs s) \<and> j < length (ptrs s))"

definition ptr_start :: "'a store \<Rightarrow> bool" where
  "ptr_start s \<longleftrightarrow> (\<forall>p. cells s p = None) \<and> set (ptrs s) \<subseteq> {None} \<and> length (ptrs s) < 2 ^ 31"

inductive ptr_step :: "'a store \<Rightarrow> 'a store \<Rightarrow> bool" where
  "ptr_op_ok op s \<Longrightarrow> ptr_op_step op s = Inr t \<Longrightarrow> ptr_step s t"

lemma pointed_alive: "owned None [] s \<Longrightarrow> p = None \<or> p \<in> set (ptrs s) \<Longrightarrow> alive s p"
  using owned_pointed [of s] by (auto simp: in_set_conv_nth)

lemma ptr_op_runs:
  assumes "owned None [] s" and "ptr_op_ok op s"
  shows "\<exists>t. ptr_op_step op s = Inr t \<and> owned None [] t"
proof (cases op)
  case (MakeObject i x)
  with assms refptr_set_new_law [of s i x] show ?thesis by auto
next
  case (CopyPtr i j)
  with assms refptr_of_law [OF assms(1) owned_pointed [OF assms(1)], of j i] show ?thesis by (auto simp: refptr_copy_def)
next
  case (MovePtr i j)
  with assms refptr_move_law(1) show ?thesis by auto
next
  case (DestroyPtr i)
  with assms refptr_destroy_law [of s i] show ?thesis by auto
next
  case (AssignRaw i p)
  with assms refptr_set_law [OF assms(1) pointed_alive [OF assms(1)], of p i] show ?thesis by auto
next
  case (AssignPtr i j)
  with assms refptr_set_law [OF assms(1) owned_pointed [OF assms(1)], of j i] show ?thesis by (auto simp: refptr_assign_def)
next
  case (MoveAssignPtr i j)
  with assms refptr_move_assign_law [of s i j] show ?thesis by auto
next
  case (SwapPtr i j)
  with assms refptr_swap_law(1) show ?thesis by auto
qed

lemma start_owned: "ptr_start s \<Longrightarrow> owned None [] s"
  by (auto simp: ptr_start_def owned_def owners_def count_list_0_iff)

interpretation smart_pointers: safe_system ptr_start ptr_step "owned None []"
proof
  show "owned None [] t" if "ptr_step s t" and "owned None [] s" for s t :: "'a store"
    using that ptr_op_runs [of s] by (fastforce elim: ptr_step.cases)
qed (rule start_owned)

text \<open>
  C11. Whatever a program does with its smart pointers (makes objects, copies, moves, assigns, also from a raw pointer
  and to itself, swaps and destroys pointers), it never uses a deleted object: no operation aborts. An object is
  alive exactly as long as a pointer points to it, and its count is the number of pointers, so that it answers
  \<^verbatim>\<open>HasOneRef\<close> exactly when one pointer is left.
\<close>

theorem reference_counts_exact:
  assumes "ptr_start s0" and "ptr_step\<^sup>*\<^sup>* s0 s"
  shows "(\<forall>p. cells s p \<noteq> None \<longleftrightarrow> Some p \<in> set (ptrs s))
    \<and> (\<forall>p c. cells s p = Some c \<longrightarrow> unat (ref_count c) = count_list (ptrs s) (Some p)
         \<and> object_HasOneRef p s = Inr (count_list (ptrs s) (Some p) = 1))
    \<and> (\<forall>op. ptr_op_ok op s \<longrightarrow> (\<exists>t. ptr_op_step op s = Inr t))"
proof -
  have ow: "owned None [] s" by (rule smart_pointers.inv_reachable [OF assms])
  have own: "owners [] s p = count_list (ptrs s) (Some p)" for p by (simp add: owners_def)
  then have "cells s p \<noteq> None \<longleftrightarrow> Some p \<in> set (ptrs s)" for p
    using ownedD(1) [OF ow, of p] ownedD(2) [OF ow, of p] own [of p]
    by (cases "cells s p") (auto simp: count_list_0_iff, metis count_list_0_iff less_numeral_extra(3))
  with owned_count [OF ow] ptr_op_runs [OF ow] show ?thesis by blast
qed

definition two_pointers :: "nat store" where
  "two_pointers = \<lparr>cells = (\<lambda>_. None), fresh = 0, ptrs = [None, None]\<rparr>"

theorem reference_counts_exact_witness:
  "\<exists>s c. ptr_step\<^sup>*\<^sup>* two_pointers s \<and> cells s 0 = Some c \<and> unat (ref_count c) = 2"
proof -
  have start: "ptr_start two_pointers" by (simp add: ptr_start_def two_pointers_def)
  obtain s where s: "ptr_op_step (MakeObject 0 7) two_pointers = Inr s" "ptrs s = [Some 0, None]" "cells s 0 \<noteq> None"
    by (simp add: two_pointers_def refptr_set_new_def new_object_def refptr_set_def add_ref_def drop_ref_def AddRef_def
        deref_def set_ptr_def)
  obtain c where c: "cells s 0 = Some c" using s(3) by auto
  obtain t where t: "ptr_op_step (CopyPtr 1 0) s = Inr t" "ptrs t = [Some 0, Some 0]" "cells t 0 \<noteq> None"
    using s(2) c by (simp add: refptr_copy_def refptr_of_def add_ref_def AddRef_def deref_def set_ptr_def)
  have "ptr_step two_pointers s" by (rule ptr_step.intros [OF _ s(1)]) (simp add: two_pointers_def)
  moreover have "ptr_step s t" by (rule ptr_step.intros [OF _ t(1)]) (simp add: s(2))
  ultimately have r: "ptr_step\<^sup>*\<^sup>* two_pointers t" by (meson converse_rtranclp_into_rtranclp rtranclp.rtrancl_refl)
  with reference_counts_exact [OF start r] t show ?thesis by fastforce
qed

end
