(* ===== verification/Copy_On_Write.thy ===== *)
theory Copy_On_Write
  imports Buffer Ref_Counting
begin

text \<open>
  \<^verbatim>\<open>rtc_base/copy_on_write_buffer.h\<close>: byte buffers that share one reference counted \<^verbatim>\<open>Buffer\<close>, each a slice
  of it, until one of them is changed. The buffers of a program are the pointers of a store with an offset and a size each.
  \<^verbatim>\<open>UnshareAndEnsureCapacity\<close> and the copy constructor are only declared in the header: they are parameters, and the
  theorems assume what their comments document. Theorem: every operation acts on its buffer as on a list of its own,
  and no other buffer changes.
\<close>

section \<open>Buffers of a program\<close>

record cow_world = "byte buffer store" +
  offs :: "nat \<Rightarrow> nat"
  lens :: "nat \<Rightarrow> nat"

definition set_slice :: "nat \<Rightarrow> nat \<Rightarrow> nat \<Rightarrow> cow_world \<Rightarrow> cow_world" where
  "set_slice i off n w = w\<lparr>offs := (offs w)(i := off), lens := (lens w)(i := n)\<rparr>"

definition put_obj :: "nat \<Rightarrow> 'a \<Rightarrow> ('a, 'b) store_scheme \<Rightarrow> ('a, 'b) store_scheme" where
  "put_obj p x s = s\<lparr>cells := (cells s)(p := map_option (\<lambda>c. c\<lparr>obj := x\<rparr>) (cells s p))\<rparr>"

text \<open>The buffer a non-null pointer leads to.\<close>

definition buffer_of :: "nat \<Rightarrow> cow_world \<Rightarrow> abort + (nat \<times> byte buffer)" where
  "buffer_of i w =
     (case ptrs w ! i of None \<Rightarrow> Inl BadLifetime | Some p \<Rightarrow> bindE (deref p w) (\<lambda>c. Inr (p, obj c)))"

definition Cow_IsConsistent :: "nat \<Rightarrow> cow_world \<Rightarrow> abort + bool" where
  "Cow_IsConsistent i w =
     (if ptrs w ! i \<noteq> None
      then bindE (buffer_of i w) (\<lambda>(p, b). bindE (BufferT_capacity b) (\<lambda>cap. bindE (BufferT_size b) (\<lambda>sz.
        Inr (cap > 0 \<and> offs w i \<le> sz \<and> (offs w i + lens w i) mod 2 ^ 64 \<le> sz))))
      else Inr (lens w i = 0 \<and> offs w i = 0))"

definition consistent :: "nat \<Rightarrow> cow_world \<Rightarrow> abort + 'r \<Rightarrow> abort + 'r" where
  "consistent i w k = bindE (Cow_IsConsistent i w) (\<lambda>ok. check ok k)"

section \<open>Reading\<close>

definition cow_size :: "nat \<Rightarrow> cow_world \<Rightarrow> abort + nat" where
  "cow_size i w = consistent i w (Inr (lens w i))"

definition cow_empty :: "nat \<Rightarrow> cow_world \<Rightarrow> bool" where
  "cow_empty i w \<longleftrightarrow> lens w i = 0"

definition cow_capacity :: "nat \<Rightarrow> cow_world \<Rightarrow> abort + nat" where
  "cow_capacity i w = consistent i w
     (if ptrs w ! i \<noteq> None
      then bindE (buffer_of i w) (\<lambda>(p, b). bindE (BufferT_capacity b) (\<lambda>cap. Inr (cap - offs w i)))
      else Inr 0)"

text \<open>A pointer into a buffer is the buffer's address and an index.\<close>

definition cow_cdata :: "nat \<Rightarrow> cow_world \<Rightarrow> abort + (nat \<times> nat) option" where
  "cow_cdata i w = consistent i w
     (if ptrs w ! i \<noteq> None then bindE (buffer_of i w) (\<lambda>(p, b). bindE (BufferT_data b) (\<lambda>d. Inr (Some (p, offs w i))))
      else Inr None)"

definition peek :: "(nat \<times> nat) option \<Rightarrow> nat \<Rightarrow> cow_world \<Rightarrow> abort + byte" where
  "peek q k w = (case q of None \<Rightarrow> Inl OutOfBounds
     | Some (p, o') \<Rightarrow> bindE (deref p w) (\<lambda>c. load_cell (block_of (bdata (obj c))) (o' + k)))"

definition cow_get :: "nat \<Rightarrow> nat \<Rightarrow> cow_world \<Rightarrow> abort + byte" where
  "cow_get i k w = bindE (cow_size i w) (\<lambda>n. check (k < n) (bindE (cow_cdata i w) (\<lambda>q. peek q k w)))"

section \<open>Sharing\<close>

definition cow_assign :: "nat \<Rightarrow> nat \<Rightarrow> cow_world \<Rightarrow> abort + cow_world" where
  "cow_assign i j w = consistent i w (consistent j w
     (if i \<noteq> j then bindE (refptr_assign i j w) (\<lambda>w. Inr (set_slice i (offs w j) (lens w j) w)) else Inr w))"

definition cow_move_assign :: "nat \<Rightarrow> nat \<Rightarrow> cow_world \<Rightarrow> abort + cow_world" where
  "cow_move_assign i j w = consistent i w (consistent j w
     (bindE (refptr_move_assign i j w) (\<lambda>w. Inr (set_slice j 0 0 (set_slice i (offs w j) (lens w j) w)))))"

definition cow_SetData_buf :: "nat \<Rightarrow> nat \<Rightarrow> cow_world \<Rightarrow> abort + cow_world" where
  "cow_SetData_buf i j w = consistent i w (consistent j w
     (if i \<noteq> j then bindE (refptr_assign i j w) (\<lambda>w. Inr (set_slice i (offs w j) (lens w j) w)) else Inr w))"

definition cow_swap :: "nat \<Rightarrow> nat \<Rightarrow> cow_world \<Rightarrow> cow_world" where
  "cow_swap i j w = (let w' = refptr_swap i j w in set_slice j (offs w i) (lens w i) (set_slice i (offs w j) (lens w j) w'))"

text \<open>\<open>copy\<close> is the copy constructor: the new variable, the source, the world.\<close>

definition cow_Slice :: "(nat \<Rightarrow> nat \<Rightarrow> cow_world \<Rightarrow> abort + cow_world) \<Rightarrow> nat \<Rightarrow> nat \<Rightarrow> nat \<Rightarrow> nat \<Rightarrow> cow_world \<Rightarrow> abort + cow_world" where
  "cow_Slice copy k i offset len w = bindE (copy k i w) (\<lambda>w.
     check (offset \<le> lens w i) (check ((len + offset) mod 2 ^ 64 \<le> lens w i)
       (Inr (set_slice k (offs w k + offset) len w))))"

section \<open>Writing\<close>

definition cow_SetData :: "nat \<Rightarrow> byte block option \<Rightarrow> nat \<Rightarrow> cow_world \<Rightarrow> abort + cow_world" where
  "cow_SetData i data n w = consistent i w
     (bindE
        (case ptrs w ! i of
           None \<Rightarrow> if n > 0 then bindE (BufferT_copy data n n) (\<lambda>b. refptr_set_new i b w) else refptr_set i None w
         | Some p \<Rightarrow> bindE (object_HasOneRef p w) (\<lambda>one.
             if \<not> one then bindE (cow_capacity i w) (\<lambda>cap. bindE (BufferT_copy data n cap) (\<lambda>b. refptr_set_new i b w))
             else bindE (buffer_of i w) (\<lambda>(p, b). bindE (SetData False data n b) (\<lambda>b. Inr (put_obj p b w)))))
        (\<lambda>w. let w = set_slice i 0 n w in consistent i w (Inr w)))"

text \<open>\<open>unshare\<close> is \<^verbatim>\<open>UnshareAndEnsureCapacity\<close>: the capacity, the buffer, the world.\<close>

definition cow_AppendData ::
  "(nat \<Rightarrow> nat \<Rightarrow> cow_world \<Rightarrow> abort + cow_world) \<Rightarrow> nat \<Rightarrow> byte block option \<Rightarrow> nat \<Rightarrow> cow_world \<Rightarrow> abort + cow_world" where
  "cow_AppendData unshare i data n w = consistent i w
     (if ptrs w ! i = None
      then bindE (BufferT_copy data n n) (\<lambda>b. bindE (refptr_set_new i b w) (\<lambda>w.
             let w = set_slice i 0 n w in consistent i w (Inr w)))
      else bindE (cow_capacity i w) (\<lambda>cap.
           bindE (unshare (max cap ((lens w i + n) mod 2 ^ 64)) i w) (\<lambda>w.
           bindE (buffer_of i w) (\<lambda>(p, b).
           bindE (SetSize False ((offs w i + lens w i) mod 2 ^ 64) b) (\<lambda>b.
           bindE (AppendData False data n b) (\<lambda>b.
           let w = set_slice i (offs w i) ((lens w i + n) mod 2 ^ 64) (put_obj p b w)
           in consistent i w (Inr w)))))))"

definition cow_MutableData ::
  "(nat \<Rightarrow> nat \<Rightarrow> cow_world \<Rightarrow> abort + cow_world) \<Rightarrow> nat \<Rightarrow> cow_world \<Rightarrow> abort + ((nat \<times> nat) option \<times> cow_world)" where
  "cow_MutableData unshare i w = consistent i w
     (if ptrs w ! i = None then Inr (None, w)
      else bindE (cow_capacity i w) (\<lambda>cap. bindE (unshare cap i w) (\<lambda>w.
           bindE (buffer_of i w) (\<lambda>(p, b). bindE (BufferT_data b) (\<lambda>d. Inr (Some (p, offs w i), w))))))"

text \<open>The caller writes a byte through the pointer.\<close>

definition poke :: "(nat \<times> nat) option \<Rightarrow> nat \<Rightarrow> byte \<Rightarrow> cow_world \<Rightarrow> abort + cow_world" where
  "poke q k x w = (case q of None \<Rightarrow> Inl OutOfBounds
     | Some (p, o') \<Rightarrow> bindE (deref p w) (\<lambda>c.
         bindE (memcpy_cells (o' + k) [Some x] (block_of (bdata (obj c)))) (\<lambda>blk.
         Inr (put_obj p ((obj c)\<lparr>bdata := Some blk\<rparr>) w))))"

section \<open>The content of a buffer\<close>

definition content :: "cow_world \<Rightarrow> nat \<Rightarrow> byte block" where
  "content w i = (case ptrs w ! i of None \<Rightarrow> []
     | Some p \<Rightarrow> (case objects w p of None \<Rightarrow> [] | Some b \<Rightarrow> take (lens w i) (drop (offs w i) (elems b))))"

definition cow_ok :: "cow_world \<Rightarrow> nat \<Rightarrow> bool" where
  "cow_ok w i \<longleftrightarrow> (case ptrs w ! i of None \<Rightarrow> lens w i = 0 \<and> offs w i = 0
     | Some p \<Rightarrow> (case objects w p of None \<Rightarrow> False
         | Some b \<Rightarrow> buf_ok b \<and> 0 < bcapacity b \<and> offs w i + lens w i \<le> bsize b))"

definition cow_inv :: "cow_world \<Rightarrow> bool" where
  "cow_inv w \<longleftrightarrow> owned None [] w \<and> (\<forall>i < length (ptrs w). cow_ok w i)"

text \<open>Only buffer \<open>i\<close> has changed.\<close>

definition only :: "nat set \<Rightarrow> cow_world \<Rightarrow> cow_world \<Rightarrow> bool" where
  "only is w t \<longleftrightarrow> length (ptrs t) = length (ptrs w) \<and> (\<forall>j < length (ptrs w). j \<notin> is \<longrightarrow> content t j = content w j)"

lemma buf_ok_limit: "buf_ok b \<Longrightarrow> bsize b \<le> alloc_limit" "buf_ok b \<Longrightarrow> bcapacity b \<le> alloc_limit" "alloc_limit < 2 ^ 64"
  by (auto simp: buf_ok_def buf_wf_def alloc_limit_def)

text \<open>The cases of a well-formed buffer.\<close>

lemma cow_okE:
  assumes "cow_ok w i"
  obtains "ptrs w ! i = None" "lens w i = 0" "offs w i = 0"
  | p b where "ptrs w ! i = Some p" "objects w p = Some b" "buf_ok b" "0 < bcapacity b" "offs w i + lens w i \<le> bsize b"
  using assms by (auto simp: cow_ok_def split: option.splits)

lemma buffer_of_Some [simp]: "ptrs w ! i = Some p \<Longrightarrow> objects w p = Some b \<Longrightarrow> buffer_of i w = Inr (p, b)"
  by (auto simp: buffer_of_def deref_def objects_def)

lemma consistent_ok [simp]:
  assumes "cow_ok w i"
  shows "consistent i w k = k"
  using assms
proof (cases rule: cow_okE)
  case (2 p b)
  then have "(offs w i + lens w i) mod 2 ^ 64 \<le> bsize b" using mod_less_eq_dividend le_trans by blast
  moreover have "offs w i \<le> bsize b" using 2 by simp
  ultimately show ?thesis using 2
    by (simp add: consistent_def Cow_IsConsistent_def BufferT_capacity_def BufferT_size_def)
qed (simp add: consistent_def Cow_IsConsistent_def)

lemma capacity_ok: "cow_ok w i \<Longrightarrow> ptrs w ! i = Some p \<Longrightarrow> objects w p = Some b \<Longrightarrow>
    cow_capacity i w = Inr (bcapacity b - offs w i)"
  by (auto simp: cow_capacity_def BufferT_capacity_def cow_ok_def)


lemma world_more: "store.more t = store.more w \<Longrightarrow> offs t = offs w \<and> lens t = lens w" for t w :: cow_world
  by (cases t, cases w) simp

lemma keeps_slices: "keeps w t \<Longrightarrow> offs t = offs w" "keeps w t \<Longrightarrow> lens t = lens w" for t w :: cow_world
  using world_more [of t w] by (simp_all add: keeps_def)

lemma keeps_object:
  assumes "keeps w t" and "owned None [] t" and "i < length (ptrs t)" and "ptrs t ! i = Some q"
  shows "objects t q = objects w q"
proof -
  have "objects t q \<noteq> None" using owned_pointed [OF assms(2,3)] assms(4) by (simp add: alive_def)
  with assms(1) show ?thesis by (metis keeps_def)
qed

lemma set_slice_simps [simp]:
  "ptrs (set_slice i off n w) = ptrs w" "cells (set_slice i off n w) = cells w" "objects (set_slice i off n w) = objects w"
  "offs (set_slice i off n w) = (offs w)(i := off)" "lens (set_slice i off n w) = (lens w)(i := n)"
  by (simp_all add: set_slice_def objects_def fun_eq_iff)

lemma owned_cong: "cells t = cells s \<Longrightarrow> ptrs t = ptrs s \<Longrightarrow> fresh t = fresh s \<Longrightarrow> owned g ts t = owned g ts s"
  by (simp add: owned_def owners_def)

lemma owned_set_slice [simp]: "owned g ts (set_slice i off n w) = owned g ts w"
  by (rule owned_cong) (simp_all add: set_slice_def)

lemma put_obj_simps [simp]:
  "ptrs (put_obj p x s) = ptrs s" "store.more (put_obj p x s) = store.more s" "fresh (put_obj p x s) = fresh s"
  "objects (put_obj p x s) = (if objects s p = None then objects s else (objects s)(p := Some x))"
  by (auto simp: put_obj_def objects_def fun_eq_iff)

lemma put_obj_slices [simp]: "offs (put_obj p x w) = offs w" "lens (put_obj p x w) = lens w" for w :: cow_world
  by (simp_all add: put_obj_def)

lemma owned_put_obj: "owned g ts s \<Longrightarrow> owned g ts (put_obj p x s)"
  by (rule ownedI) (auto simp: put_obj_def owners_def dest: ownedD split: if_splits)

text \<open>A buffer whose slice and object are untouched.\<close>

lemma untouched:
  assumes "owned None [] t" and "j < length (ptrs t)" and "ptrs t ! j = ptrs w ! j" and "offs t j = offs w j" "lens t j = lens w j"
    and "\<And>q. ptrs w ! j = Some q \<Longrightarrow> objects t q = None \<or> objects t q = objects w q"
  shows "content t j = content w j \<and> cow_ok t j = cow_ok w j"
proof (cases "ptrs w ! j")
  case (Some q)
  then have "objects t q \<noteq> None" using owned_pointed [OF assms(1,2)] assms(3) by (simp add: alive_def)
  with assms Some show ?thesis by (auto simp: content_def cow_ok_def)
qed (use assms in \<open>simp add: content_def cow_ok_def\<close>)

text \<open>Buffer \<open>i\<close> gets a new pointer and slice; the objects of the others are left alone.\<close>

lemma one_changed:
  assumes inv: "cow_inv w" and ow: "owned None [] t" and p: "ptrs t = (ptrs w)[i := p]"
    and sl: "offs t = (offs w)(i := off)" "lens t = (lens w)(i := n)"
    and obj: "\<And>j q. j < length (ptrs w) \<Longrightarrow> j \<noteq> i \<Longrightarrow> ptrs w ! j = Some q \<Longrightarrow> objects t q = None \<or> objects t q = objects w q"
    and ok: "i < length (ptrs w) \<Longrightarrow> cow_ok t i"
  shows "cow_inv t \<and> only {i} w t"
proof -
  have "content t j = content w j \<and> cow_ok t j = cow_ok w j" if "j < length (ptrs w)" "j \<noteq> i" for j
    by (rule untouched [OF ow]) (use that p sl obj in auto)
  with inv ok p ow show ?thesis unfolding cow_inv_def only_def by (metis length_list_update singletonI)
qed

lemma fresh_not_pointed: "owned None [] w \<Longrightarrow> j < length (ptrs w) \<Longrightarrow> ptrs w ! j \<noteq> Some (fresh w)"
  using owned_pointed [of w j] ownedD(4) [of None "[]" w "fresh w"] by (auto simp: alive_def objects_def)

text \<open>A new \<^verbatim>\<open>Buffer\<close> for buffer \<open>i\<close>.\<close>

lemma new_buffer_law:
  assumes inv: "cow_inv w" and i: "i < length (ptrs w)" and b: "buf_ok b" "0 < bcapacity b" "n \<le> bsize b"
  shows "\<exists>u t. refptr_set_new i b w = Inr u \<and> t = set_slice i 0 n u \<and> cow_inv t \<and> only {i} w t \<and> content t i = take n (elems b) \<and>
    offs u = offs w \<and> lens u = lens w \<and> ptrs t = (ptrs w)[i := Some (fresh w)] \<and> objects t (fresh w) = Some b"
proof -
  from inv have ow: "owned None [] w" by (simp add: cow_inv_def)
  from refptr_set_new_law [OF ow i] obtain u where
    u: "refptr_set_new i b w = Inr u" "owned None [] u" "ptrs u = (ptrs w)[i := Some (fresh w)]"
      "objects u (fresh w) = Some b" "store.more u = store.more w" "\<And>q. q \<noteq> fresh w \<Longrightarrow> objects u q = None \<or> objects u q = objects w q"
    by blast
  let ?t = "set_slice i 0 n u"
  have m: "offs u = offs w" "lens u = lens w" using world_more [OF u(5)] by simp_all
  have "objects u q = None \<or> objects u q = objects w q" if "j < length (ptrs w)" "ptrs w ! j = Some q" for j q
    using u(6) [of q] fresh_not_pointed [OF ow that(1)] that(2) by auto
  then have "cow_inv ?t \<and> only {i} w ?t"
    by (intro one_changed [OF inv, of _ i "Some (fresh w)" 0 n]) (use u(2-4) m b i in \<open>auto simp: cow_ok_def\<close>)
  moreover have "content ?t i = take n (elems b)" using u i by (simp add: content_def)
  ultimately show ?thesis using u m by auto
qed

text \<open>Buffer \<open>i\<close> is the only one of its object, which is changed in place.\<close>

lemma sole_owner:
  assumes "count_list (ptrs w) (Some p) = 1" and "i < length (ptrs w)" "ptrs w ! i = Some p" "j < length (ptrs w)" "j \<noteq> i"
  shows "ptrs w ! j \<noteq> Some p"
proof
  assume "ptrs w ! j = Some p"
  moreover have "Suc (count_list ((ptrs w)[i := None]) (Some p)) = 1" using count_list_update [OF assms(2), of None "Some p"] assms by simp
  moreover have "0 < count_list ((ptrs w)[i := None]) (((ptrs w)[i := None]) ! j)"
    by (rule count_list_nth_pos) (simp add: assms)
  ultimately show False using assms by simp
qed

lemma put_buffer_law:
  assumes inv: "cow_inv w" and i: "i < length (ptrs w)" "ptrs w ! i = Some p" and sole: "count_list (ptrs w) (Some p) = 1"
    and b: "buf_ok b" "0 < bcapacity b" "off + n \<le> bsize b"
  shows "cow_inv (set_slice i off n (put_obj p b w)) \<and> only {i} w (set_slice i off n (put_obj p b w)) \<and>
    content (set_slice i off n (put_obj p b w)) i = take n (drop off (elems b))"
proof -
  let ?t = "set_slice i off n (put_obj p b w)"
  from inv have ow: "owned None [] w" and ok: "cow_ok w i" using i by (simp_all add: cow_inv_def)
  from ok i obtain b0 where b0: "objects w p = Some b0" by (auto simp: cow_ok_def split: option.splits)
  have "owned None [] ?t" using owned_put_obj [OF ow] by simp
  then have "cow_inv ?t \<and> only {i} w ?t"
    by (rule one_changed [OF inv, of _ i "Some p" off n])
      (use i b b0 sole_owner [OF sole i] in \<open>auto simp: cow_ok_def list_update_id [of "ptrs w" i, unfolded i(2)]\<close>)
  with i b0 show ?thesis by (simp add: content_def)
qed

section \<open>What the declared functions are documented to do\<close>

text \<open>
  \<^verbatim>\<open>UnshareAndEnsureCapacity\<close>: creates a copy of the underlying data if it is referenced from other buffers or there is
  not enough capacity. Only called with a capacity that is positive and can be allocated.
\<close>

definition unshare_ok :: "(nat \<Rightarrow> nat \<Rightarrow> cow_world \<Rightarrow> abort + cow_world) \<Rightarrow> bool" where
  "unshare_ok unshare \<longleftrightarrow>
     (\<forall>c i w p b. cow_inv w \<and> i < length (ptrs w) \<and> ptrs w ! i = Some p \<and> objects w p = Some b \<and> 0 < c \<and> lens w i \<le> c \<and> c \<le> alloc_limit \<longrightarrow>
        (if count_list (ptrs w) (Some p) = 1 \<and> c \<le> bcapacity b - offs w i then unshare c i w = Inr w
         else \<exists>b' u. buf_ok b' \<and> bsize b' = lens w i \<and> elems b' = content w i \<and> c \<le> bcapacity b' \<and>
           refptr_set_new i b' w = Inr u \<and> unshare c i w = Inr (set_slice i 0 (lens w i) u)))"

text \<open>The copy constructor shares the data with an existing buffer.\<close>

definition copy_ok :: "(nat \<Rightarrow> nat \<Rightarrow> cow_world \<Rightarrow> abort + cow_world) \<Rightarrow> bool" where
  "copy_ok copy \<longleftrightarrow>
     (\<forall>k i w. copy k i w = bindE (refptr_copy k i w) (\<lambda>u. Inr (set_slice k (offs w i) (lens w i) u)))"

section \<open>Laws of the operations\<close>

lemma BufferT_copy_law:
  assumes "max (length xs) cap \<le> alloc_limit"
  shows "\<exists>b. BufferT_copy (Some xs) (length xs) cap = Inr b \<and> buf_ok b \<and> bsize b = length xs \<and>
    bcapacity b = max (length xs) cap \<and> elems b = xs"
proof (cases "xs = []")
  case True
  with assms show ?thesis
    by (simp add: BufferT_copy_def BufferT_sized_def new_block_def IsConsistent_def buf_ok_def buf_wf_def elems_def)
next
  case False
  with assms show ?thesis
    by (simp add: BufferT_copy_def BufferT_sized_def new_block_def IsConsistent_def buf_ok_def buf_wf_def elems_def
        read_source_def memcpy_cells_def put_cells_def Let_def)
qed

lemma length_content: "cow_inv w \<Longrightarrow> i < length (ptrs w) \<Longrightarrow> length (content w i) = lens w i"
  by (cases rule: cow_okE [of w i]) (auto simp: cow_inv_def content_def)

lemma unshare_law:
  assumes u: "unshare_ok unshare" and inv: "cow_inv w" and i: "i < length (ptrs w)" "ptrs w ! i = Some p"
    and c: "0 < c" "lens w i \<le> c" "c \<le> alloc_limit"
  shows "\<exists>t q b. unshare c i w = Inr t \<and> cow_inv t \<and> only {} w t \<and> lens t = lens w \<and> ptrs t ! i = Some q \<and>
    objects t q = Some b \<and> buf_ok b \<and> 0 < bcapacity b \<and> count_list (ptrs t) (Some q) = 1 \<and> offs t i + c \<le> bcapacity b"
proof -
  have ok: "cow_ok w i" and ow: "owned None [] w" using inv i by (simp_all add: cow_inv_def)
  then obtain b where b: "objects w p = Some b" "buf_ok b" "0 < bcapacity b" "offs w i + lens w i \<le> bsize b"
    using i by (auto simp: cow_ok_def split: option.splits)
  show ?thesis
  proof (cases "count_list (ptrs w) (Some p) = 1 \<and> c \<le> bcapacity b - offs w i")
    case True
    then have "unshare c i w = Inr w" using u inv i b c unfolding unshare_ok_def by metis
    moreover have "offs w i + c \<le> bcapacity b" using True c(1) by auto
    ultimately show ?thesis using True inv i b by (auto simp: only_def)
  next
    case False
    then obtain b' v where v: "buf_ok b'" "bsize b' = lens w i" "elems b' = content w i" "c \<le> bcapacity b'"
      "refptr_set_new i b' w = Inr v" "unshare c i w = Inr (set_slice i 0 (lens w i) v)"
      using u inv i b c unfolding unshare_ok_def by metis
    let ?t = "set_slice i 0 (lens w i) v"
    have n: "0 < bcapacity b'" "lens w i \<le> bsize b'" using v c by auto
    from new_buffer_law [OF inv i(1) v(1) n] v(5) have
      t: "cow_inv ?t" "only {i} w ?t" "content ?t i = content w i" "lens v = lens w" "ptrs ?t = (ptrs w)[i := Some (fresh w)]"
        "objects ?t (fresh w) = Some b'" using v(2,3) length_content [OF inv i(1)] by auto
    have "count_list (ptrs w) (Some (fresh w)) = 0"
      using fresh_not_pointed [OF ow] by (auto simp: count_list_0_iff in_set_conv_nth)
    then have "count_list (ptrs ?t) (Some (fresh w)) = 1"
      using count_list_update [OF i(1), of "Some (fresh w)" "Some (fresh w)"] fresh_not_pointed [OF ow i(1)] t(5) by simp
    moreover have "only {} w ?t" using t(2,3) by (auto simp: only_def)
    ultimately show ?thesis using t v n i by auto
  qed
qed

text \<open>\<^verbatim>\<open>SetData\<close>.\<close>

lemma SetData_law:
  assumes inv: "cow_inv w" and i: "i < length (ptrs w)" and lim: "length xs \<le> alloc_limit"
    and room: "\<And>p b. ptrs w ! i = Some p \<Longrightarrow> objects w p = Some b \<Longrightarrow>
      if count_list (ptrs w) (Some p) = 1 then fits (length xs) b else xs \<noteq> [] \<or> offs w i < bcapacity b"
  shows "\<exists>t. cow_SetData i (Some xs) (length xs) w = Inr t \<and> cow_inv t \<and> only {i} w t \<and> content t i = xs"
proof -
  have ok: "cow_ok w i" and ow: "owned None [] w" using inv i by (simp_all add: cow_inv_def)
  have fresh_case: ?thesis
    if cap: "max (length xs) cap \<le> alloc_limit" "0 < max (length xs) cap"
      and def: "cow_SetData i (Some xs) (length xs) w = bindE (bindE (BufferT_copy (Some xs) (length xs) cap) (\<lambda>b. refptr_set_new i b w))
        (\<lambda>w. let w = set_slice i 0 (length xs) w in consistent i w (Inr w))" for cap
  proof -
    from BufferT_copy_law [OF cap(1)] obtain b where
      b: "BufferT_copy (Some xs) (length xs) cap = Inr b" "buf_ok b" "bsize b = length xs" "bcapacity b = max (length xs) cap" "elems b = xs" by blast
    from new_buffer_law [OF inv i b(2), of "length xs"] b cap(2) obtain u where
      u: "refptr_set_new i b w = Inr u" "cow_inv (set_slice i 0 (length xs) u)" "only {i} w (set_slice i 0 (length xs) u)"
        "content (set_slice i 0 (length xs) u) i = xs" by auto
    have "cow_ok (set_slice i 0 (length xs) u) i" using u(2,3) i by (simp add: cow_inv_def only_def)
    with u b(1) def show ?thesis by simp
  qed
  show ?thesis
  proof (cases "ptrs w ! i")
    case None
    then have off: "offs w i = 0" "lens w i = 0" using ok by (simp_all add: cow_ok_def)
    show ?thesis
    proof (cases "xs = []")
      case True
      have same: "set_slice i 0 0 w = w" using off by (simp add: set_slice_def fun_upd_idem)
      have "refptr_set i None w = Inr w" using None
        by (simp add: refptr_set_def add_ref_def drop_ref_def set_ptr_def list_update_id [of "ptrs w" i, unfolded None])
      with True None same ok inv show ?thesis by (simp add: cow_SetData_def only_def content_def)
    next
      case False
      with None ok lim fresh_case [of "length xs"] show ?thesis by (simp add: cow_SetData_def)
    qed
  next
    case (Some p)
    then obtain b where b: "objects w p = Some b" "buf_ok b" "0 < bcapacity b" "offs w i + lens w i \<le> bsize b"
      using ok by (auto simp: cow_ok_def split: option.splits)
    obtain c where c: "cells w p = Some c" using b(1) by (auto simp: objects_def)
    note one = owned_count [OF ow c, THEN conjunct2]
    show ?thesis
    proof (cases "count_list (ptrs w) (Some p) = 1")
      case True
      from room [OF Some b(1)] True have f: "fits (length xs) b" by simp
      from SetData_total [OF b(2) f, of False] obtain b' where b': "SetData False (Some xs) (length xs) b = Inr b'" by blast
      have s: "buf_ok b'" "bsize b' = length xs" "elems b' = xs" "bcapacity b \<le> bcapacity b'"
        using SetData_sound [OF b' b(2)] by auto
      let ?t = "set_slice i 0 (length xs) (put_obj p b' w)"
      have t: "cow_inv ?t" "only {i} w ?t" "content ?t i = xs"
        using put_buffer_law [OF inv i Some True s(1), of 0 "length xs"] s b(3) by auto
      have "cow_ok ?t i" using t(1) i by (simp add: cow_inv_def)
      with t b' one True ok b Some show ?thesis by (simp add: cow_SetData_def)
    next
      case False
      from room [OF Some b(1)] False have "0 < max (length xs) (bcapacity b - offs w i)"
        by (auto simp: less_max_iff_disj)
      moreover have "max (length xs) (bcapacity b - offs w i) \<le> alloc_limit" using lim buf_ok_limit(2) [OF b(2)] by simp
      ultimately show ?thesis
        using fresh_case [of "bcapacity b - offs w i"] False ok one Some capacity_ok [OF ok Some b(1)]
        by (simp add: cow_SetData_def)
    qed
  qed
qed

text \<open>\<^verbatim>\<open>AppendData\<close>.\<close>

lemma only_trans: "only is w u \<Longrightarrow> only js u t \<Longrightarrow> only (is \<union> js) w t"
  by (simp add: only_def)

lemma append_in_place:
  assumes b: "buf_ok b" "k \<le> bsize b" "k + length xs \<le> bcapacity b"
  shows "\<exists>b1 b2. SetSize False k b = Inr b1 \<and> AppendData False (Some xs) (length xs) b1 = Inr b2 \<and> buf_ok b2 \<and>
    bcapacity b \<le> bcapacity b2 \<and> bsize b2 = k + length xs \<and> elems b2 = take k (elems b) @ xs"
proof -
  have "fits k b" using b by (simp add: fits_def)
  from SetSize_total [OF b(1) this, of False] obtain b1 where b1: "SetSize False k b = Inr b1" by blast
  note s = SetSize_sound [OF b1 b(1)]
  have e: "elems b1 = take k (elems b)" using s(5) b(2) length_elems [OF s(1)] s(2) by simp
  have "fits (bsize b1 + length xs) b1" using s(2,3) b(3) by (simp add: fits_def)
  from AppendData_total [OF s(1) this, of False] obtain b2 where b2: "AppendData False (Some xs) (length xs) b1 = Inr b2" by blast
  from AppendData_sound [OF b2 s(1)] b1 b2 s e show ?thesis by auto
qed

lemma AppendData_law:
  assumes u: "unshare_ok unshare" and inv: "cow_inv w" and i: "i < length (ptrs w)"
    and lim: "lens w i + length xs \<le> alloc_limit" and ne: "xs \<noteq> []"
  shows "\<exists>t. cow_AppendData unshare i (Some xs) (length xs) w = Inr t \<and> cow_inv t \<and> only {i} w t \<and> content t i = content w i @ xs"
proof (cases "ptrs w ! i")
  case None
  have ok: "cow_ok w i" using inv i by (simp add: cow_inv_def)
  from lim have "max (length xs) (length xs) \<le> alloc_limit" by simp
  from BufferT_copy_law [OF this] obtain b where
    b: "BufferT_copy (Some xs) (length xs) (length xs) = Inr b" "buf_ok b" "bsize b = length xs" "bcapacity b = length xs" "elems b = xs"
    by auto
  from new_buffer_law [OF inv i b(2), of "length xs"] b ne obtain v where
    v: "refptr_set_new i b w = Inr v" "cow_inv (set_slice i 0 (length xs) v)" "only {i} w (set_slice i 0 (length xs) v)"
      "content (set_slice i 0 (length xs) v) i = xs" by auto
  have "cow_ok (set_slice i 0 (length xs) v) i" using v(2,3) i by (simp add: cow_inv_def only_def)
  with None ok b v show ?thesis by (simp add: cow_AppendData_def content_def)
next
  case (Some p)
  have ok: "cow_ok w i" using inv i by (simp add: cow_inv_def)
  obtain b0 where b0: "objects w p = Some b0" "buf_ok b0" using ok Some by (auto simp: cow_ok_def split: option.splits)
  let ?c = "max (bcapacity b0 - offs w i) (lens w i + length xs)"
  have m: "(lens w i + length xs) mod 2 ^ 64 = lens w i + length xs" using lim buf_ok_limit(3) by simp
  have c: "0 < ?c" "lens w i \<le> ?c" "?c \<le> alloc_limit" using ne lim buf_ok_limit(2) [OF b0(2)] by (auto simp: less_max_iff_disj)
  from unshare_law [OF u inv i Some c] obtain t q b where
    t: "unshare ?c i w = Inr t" "cow_inv t" "only {} w t" "lens t = lens w" "ptrs t ! i = Some q" "objects t q = Some b"
      "buf_ok b" "0 < bcapacity b" "count_list (ptrs t) (Some q) = 1" "offs t i + ?c \<le> bcapacity b" by blast
  have it: "i < length (ptrs t)" using t(3) i by (simp add: only_def)
  let ?k = "offs t i + lens t i"
  have k: "?k \<le> bsize b" using t(2,5,6) it by (auto simp: cow_inv_def cow_ok_def)
  have km: "?k mod 2 ^ 64 = ?k" using k buf_ok_limit(1) [OF t(7)] buf_ok_limit(3) by simp
  have "?k + length xs \<le> bcapacity b" using t(4,10) max.cobounded2 [of "lens w i + length xs"] by auto
  from append_in_place [OF t(7) k this] obtain b1 b2 where
    b: "SetSize False ?k b = Inr b1" "AppendData False (Some xs) (length xs) b1 = Inr b2" "buf_ok b2" "bcapacity b \<le> bcapacity b2"
      "bsize b2 = ?k + length xs" "elems b2 = take ?k (elems b) @ xs" by blast
  let ?t = "set_slice i (offs t i) (lens w i + length xs) (put_obj q b2 t)"
  have cw: "content w i = content t i" using t(3) i by (simp add: only_def)
  have "0 < bcapacity b2" "offs t i + (lens w i + length xs) \<le> bsize b2" using t(4,8) b(4,5) by simp_all
  from put_buffer_law [OF t(2) it t(5,9) b(3) this]
  have res: "cow_inv ?t" "only {i} t ?t" "content ?t i = content w i @ xs"
    using b(6) t(4-6) cw k length_elems [OF t(7)] by (auto simp: content_def take_drop add.commute)
  have "cow_ok ?t i" using res(1) it by (simp add: cow_inv_def)
  then have "cow_AppendData unshare i (Some xs) (length xs) w = Inr ?t"
    using ok Some t(1,4-6) b(1,2) km m capacity_ok [OF ok Some b0(1)] by (simp add: cow_AppendData_def)
  with res only_trans [OF t(3) res(2)] show ?thesis by simp
qed

text \<open>All pointers and slices may move, the objects stay.\<close>

lemma rearranged:
  assumes "owned None [] t" and "keeps w u" and "objects t = objects u" and "j < length (ptrs t)"
    and "ptrs t ! j = ptrs w ! k" "offs t j = offs w k" "lens t j = lens w k"
  shows "content t j = content w k \<and> cow_ok t j = cow_ok w k"
proof (cases "ptrs w ! k")
  case (Some q)
  then have "objects t q \<noteq> None" using owned_pointed [OF assms(1,4)] assms(5) by (simp add: alive_def)
  then have "objects t q = objects w q" using assms(2,3) by (metis keeps_def)
  with assms(5-7) Some show ?thesis by (simp add: content_def cow_ok_def split: option.split)
qed (use assms in \<open>simp add: content_def cow_ok_def\<close>)

text \<open>Sharing.\<close>

lemma cow_assign_law:
  assumes inv: "cow_inv w" and i: "i < length (ptrs w)" "j < length (ptrs w)"
  shows "\<exists>t. cow_assign i j w = Inr t \<and> cow_inv t \<and> only {i} w t \<and> content t i = content w j"
proof (cases "i = j")
  case False
  have ow: "owned None [] w" and ok: "cow_ok w i" "cow_ok w j" using inv i by (simp_all add: cow_inv_def)
  from refptr_set_law [OF ow owned_pointed [OF ow i(2)] _ i(1)] obtain u where
    u: "refptr_assign i j w = Inr u" "owned None [] u" "ptrs u = (ptrs w)[i := ptrs w ! j]" "keeps w u"
    by (auto simp: refptr_assign_def)
  let ?t = "set_slice i (offs u j) (lens u j) u"
  have m: "offs u = offs w" "lens u = lens w" using keeps_slices [OF u(4)] by simp_all
  have "owned None [] ?t" "objects ?t = objects u" using u(2) by simp_all
  then have c: "content ?t i = content w j \<and> cow_ok ?t i = cow_ok w j"
    by (rule rearranged [OF _ u(4)]) (use u(3) i m in simp_all)
  have obj: "objects ?t q = None \<or> objects ?t q = objects w q" for q using u(4) by (simp add: keeps_def)
  have "cow_inv ?t \<and> only {i} w ?t"
    by (rule one_changed [OF inv, of _ i "ptrs w ! j" "offs w j" "lens w j", OF _ _ _ _ obj]) (use u(2,3) m c ok in simp_all)
  moreover have "cow_assign i j w = Inr ?t" using False ok u(1) by (simp add: cow_assign_def)
  ultimately show ?thesis using c by blast
qed (use assms in \<open>auto simp: cow_assign_def cow_inv_def only_def\<close>)

lemma cow_move_assign_law:
  assumes inv: "cow_inv w" and i: "i < length (ptrs w)" "j < length (ptrs w)" "i \<noteq> j"
  shows "\<exists>t. cow_move_assign i j w = Inr t \<and> cow_inv t \<and> only {i, j} w t \<and> content t i = content w j \<and> content t j = []"
proof -
  have ow: "owned None [] w" and ok: "cow_ok w i" "cow_ok w j" using inv i by (simp_all add: cow_inv_def)
  from refptr_move_assign_law [OF ow i(1,2)] obtain u where
    u: "refptr_move_assign i j w = Inr u" "owned None [] u" "ptrs u = (ptrs w)[j := None, i := ptrs w ! j]" "keeps w u" by blast
  let ?t = "set_slice j 0 0 (set_slice i (offs u j) (lens u j) u)"
  note m = keeps_slices [OF u(4)]
  have ot: "owned None [] ?t" "objects ?t = objects u" "length (ptrs ?t) = length (ptrs w)" using u by simp_all
  have ci: "content ?t i = content w j \<and> cow_ok ?t i = cow_ok w j"
    by (rule rearranged [OF ot(1) u(4) ot(2)]) (use u i m in simp_all)
  have cj: "content ?t j = []" "cow_ok ?t j" using u i by (simp_all add: content_def cow_ok_def)
  have ck: "content ?t k = content w k \<and> cow_ok ?t k = cow_ok w k" if "k < length (ptrs w)" "k \<noteq> i" "k \<noteq> j" for k
    by (rule rearranged [OF ot(1) u(4) ot(2)]) (use u i m that in simp_all)
  have "cow_ok ?t k" if "k < length (ptrs w)" for k
    using ci cj ck [OF that] ok inv that by (cases "k = i"; cases "k = j") (simp_all add: cow_inv_def)
  with ot ck have "cow_inv ?t \<and> only {i, j} w ?t" by (simp add: cow_inv_def only_def)
  moreover have "cow_move_assign i j w = Inr ?t" using ok u(1) by (simp add: cow_move_assign_def)
  ultimately show ?thesis using ci cj by blast
qed

lemma swap_law:
  assumes inv: "cow_inv w" and i: "i < length (ptrs w)" "j < length (ptrs w)"
  shows "cow_inv (cow_swap i j w) \<and> only {i, j} w (cow_swap i j w) \<and>
    content (cow_swap i j w) i = content w j \<and> content (cow_swap i j w) j = content w i"
proof -
  have ow: "owned None [] w" using inv by (simp add: cow_inv_def)
  note u = refptr_swap_law [OF ow i]
  note m = keeps_slices [OF u(3)]
  let ?t = "cow_swap i j w"
  have ot: "owned None [] ?t" "objects ?t = objects (refptr_swap i j w)" using u(1) by (simp_all add: cow_swap_def)
  have pt: "ptrs ?t = (ptrs w)[i := ptrs w ! j, j := ptrs w ! i]" using u(2) by (simp add: cow_swap_def)
  have sl: "offs ?t = (offs w)(i := offs w j, j := offs w i)" "lens ?t = (lens w)(i := lens w j, j := lens w i)"
    using m by (simp_all add: cow_swap_def)
  have c: "content ?t k = content w (if k = i then j else if k = j then i else k)
      \<and> cow_ok ?t k = cow_ok w (if k = i then j else if k = j then i else k)" if "k < length (ptrs w)" for k
    by (rule rearranged [OF ot(1) u(3) ot(2)]) (use pt sl i that in \<open>simp_all add: nth_list_update\<close>)
  then have "cow_ok ?t k" if "k < length (ptrs w)" for k using inv i that by (simp add: cow_inv_def)
  with ot pt c have "cow_inv ?t \<and> only {i, j} w ?t" by (simp add: cow_inv_def only_def)
  with c [OF i(1)] c [OF i(2)] show ?thesis by auto
qed

lemma lens_limit: "cow_ok w i \<Longrightarrow> lens w i < 2 ^ 64"
  by (erule cow_okE) (use buf_ok_limit in \<open>fastforce+\<close>)

text \<open>A slice of a slice.\<close>

lemma narrowed:
  assumes ok: "cow_ok v k" and r: "off + len \<le> lens v k"
  shows "content (set_slice k (offs v k + off) len v) k = take len (drop off (content v k)) \<and> cow_ok (set_slice k (offs v k + off) len v) k"
  using ok
proof (cases rule: cow_okE)
  case (2 p b)
  have "min len (lens v k - off) = len" using r by simp
  with 2 r show ?thesis by (simp add: content_def cow_ok_def drop_take add.commute)
qed (use r in \<open>simp add: content_def cow_ok_def\<close>)

lemma slice_law:
  assumes cp: "copy_ok copy" and inv: "cow_inv w" and i: "i < length (ptrs w)" "k < length (ptrs w)" "ptrs w ! k = None"
    and k: "i \<noteq> k" and r: "off + len \<le> lens w i"
  shows "\<exists>t. cow_Slice copy k i off len w = Inr t \<and> cow_inv t \<and> only {k} w t \<and> content t k = take len (drop off (content w i))"
proof -
  have ow: "owned None [] w" and ok: "cow_ok w i" using inv i by (simp_all add: cow_inv_def)
  from refptr_of_law [OF ow owned_pointed [OF ow i(1)] i(2,3)] obtain u where
    u: "refptr_copy k i w = Inr u" "owned None [] u" "ptrs u = (ptrs w)[k := ptrs w ! i]" "keeps w u"
    by (auto simp: refptr_copy_def)
  note m = keeps_slices [OF u(4)]
  let ?t = "set_slice k (offs w i + off) len (set_slice k (offs w i) (lens w i) u)"
  let ?v = "set_slice k (offs w i) (lens w i) u"
  have "owned None [] ?v" "objects ?v = objects u" using u(2) by simp_all
  then have v: "content ?v k = content w i \<and> cow_ok ?v k = cow_ok w i"
    by (rule rearranged [OF _ u(4)]) (use u(3) i m in simp_all)
  have c: "content ?t k = take len (drop off (content w i))" "cow_ok ?t k"
    using narrowed [of ?v k off len] v ok r by simp_all
  have obj: "objects ?t q = None \<or> objects ?t q = objects w q" for q using u(4) by (simp add: keeps_def)
  have "cow_inv ?t \<and> only {k} w ?t"
    by (rule one_changed [OF inv, of _ k "ptrs w ! i" "offs w i + off" len, OF _ _ _ _ obj]) (use u(2,3) m c in simp_all)
  moreover have "cow_Slice copy k i off len w = Inr ?t"
    using cp u(1) r m k lens_limit [OF ok] by (simp add: cow_Slice_def copy_ok_def)
  ultimately show ?thesis using c by blast
qed

text \<open>Writing through the pointer.\<close>

lemma put_cell: "k < length d \<Longrightarrow> put_cells k [y] d = d[k := y]"
  by (simp add: put_cells_def upd_conv_take_nth_drop)

lemma set_slice_same: "offs w i = off \<Longrightarrow> lens w i = n \<Longrightarrow> set_slice i off n w = w"
  by (auto simp: set_slice_def fun_upd_idem)

lemma poke_law:
  assumes inv: "cow_inv w" and i: "i < length (ptrs w)" "ptrs w ! i = Some p" and b: "objects w p = Some b" "buf_ok b" "0 < bcapacity b"
    and sole: "count_list (ptrs w) (Some p) = 1" and k: "k < lens w i"
  shows "\<exists>t. poke (Some (p, offs w i)) k x w = Inr t \<and> cow_inv t \<and> only {i} w t \<and> content t i = (content w i)[k := Some x]"
proof -
  let ?d = "block_of (bdata b)"
  let ?b = "b\<lparr>bdata := Some (?d[offs w i + k := Some x])\<rparr>"
  have ok: "offs w i + lens w i \<le> bsize b" using inv i b by (auto simp: cow_inv_def cow_ok_def)
  have len: "length ?d = bcapacity b" "bsize b \<le> bcapacity b" using buf_ok_block [OF b(2)] by simp_all
  have "buf_ok ?b" using b(2) len by (simp add: buf_ok_def buf_wf_def)
  moreover have "elems ?b = (elems b)[offs w i + k := Some x]" by (simp add: elems_def take_update_swap)
  ultimately have t: "cow_inv (put_obj p ?b w) \<and> only {i} w (put_obj p ?b w) \<and>
      content (put_obj p ?b w) i = take (lens w i) (drop (offs w i) ((elems b)[offs w i + k := Some x]))"
    using put_buffer_law [OF inv i sole, of ?b "offs w i" "lens w i"] ok b(3) by (simp add: set_slice_same)
  obtain c where "cells w p = Some c" "obj c = b" using b(1) by (auto simp: objects_def)
  then have "poke (Some (p, offs w i)) k x w = Inr (put_obj p ?b w)"
    using ok k len by (simp add: poke_def deref_def memcpy_cells_def put_cell)
  moreover have "take (lens w i) (drop (offs w i) ((elems b)[offs w i + k := Some x])) = (content w i)[k := Some x]"
    using i b by (simp add: content_def drop_update_swap take_update_swap)
  ultimately show ?thesis using t by auto
qed

lemma MutableData_law:
  assumes u: "unshare_ok unshare" and inv: "cow_inv w" and i: "i < length (ptrs w)" and k: "k < lens w i"
  shows "\<exists>q v t. cow_MutableData unshare i w = Inr (q, v) \<and> only {} w v \<and> poke q k x v = Inr t \<and>
    cow_inv t \<and> only {i} w t \<and> content t i = (content w i)[k := Some x]"
proof -
  have ok: "cow_ok w i" using inv i by (simp add: cow_inv_def)
  then obtain p b where b: "ptrs w ! i = Some p" "objects w p = Some b" "buf_ok b" "offs w i + lens w i \<le> bsize b"
    by (cases rule: cow_okE) (use k in auto)
  let ?c = "bcapacity b - offs w i"
  have c: "0 < ?c" "lens w i \<le> ?c" "?c \<le> alloc_limit" using b k buf_ok_block(2) [OF b(3)] buf_ok_limit(2) [OF b(3)] by auto
  from unshare_law [OF u inv i b(1) c] obtain v q d where
    v: "unshare ?c i w = Inr v" "cow_inv v" "only {} w v" "lens v = lens w" "ptrs v ! i = Some q" "objects v q = Some d"
      "buf_ok d" "0 < bcapacity d" "count_list (ptrs v) (Some q) = 1" by blast
  have iv: "i < length (ptrs v)" "k < lens v i" using v(3,4) i k by (simp_all add: only_def)
  from poke_law [OF v(2) iv(1) v(5-9) iv(2), of x] obtain t where
    t: "poke (Some (q, offs v i)) k x v = Inr t" "cow_inv t" "only {i} v t" "content t i = (content v i)[k := Some x]" by blast
  have "cow_MutableData unshare i w = Inr (Some (q, offs v i), v)"
    using ok b v(1,5-7) capacity_ok [OF ok b(1,2)] by (simp add: cow_MutableData_def BufferT_data_def)
  moreover have "content v i = content w i" using v(3) i by (simp add: only_def)
  ultimately show ?thesis using t v(3) only_trans [OF v(3) t(3)] by auto
qed

lemma get_law:
  assumes inv: "cow_inv w" and i: "i < length (ptrs w)"
  shows "cow_get i k w = check (k < length (content w i)) (load_cell (content w i) k)"
proof -
  have ok: "cow_ok w i" using inv i by (simp add: cow_inv_def)
  from ok show ?thesis
  proof (cases rule: cow_okE)
    case 1
    with ok show ?thesis by (simp add: cow_get_def cow_size_def content_def check_def)
  next
    case (2 p b)
    obtain c where c: "cells w p = Some c" "obj c = b" using 2(2) by (auto simp: objects_def)
    have len: "length (block_of (bdata b)) = bcapacity b" "bsize b \<le> bcapacity b" using buf_ok_block [OF 2(3)] by simp_all
    have "load_cell (block_of (bdata b)) (offs w i + k) = load_cell (content w i) k" if "k < lens w i"
      using 2 that len by (simp add: load_cell_def content_def elems_def)
    with ok 2 c length_content [OF inv i] show ?thesis
      by (simp add: cow_get_def cow_size_def cow_cdata_def BufferT_data_def peek_def deref_def check_def)
  qed
qed

section \<open>Theorems\<close>

text \<open>The allocations of a replacement by \<open>n\<close> bytes succeed, and what it allocates is not of size zero.\<close>

definition room :: "nat \<Rightarrow> cow_world \<Rightarrow> nat \<Rightarrow> bool" where
  "room n w i \<longleftrightarrow> n \<le> alloc_limit \<and>
     (\<forall>p b. ptrs w ! i = Some p \<longrightarrow> objects w p = Some b \<longrightarrow>
        (if count_list (ptrs w) (Some p) = 1 then fits n b else 0 < n \<or> offs w i < bcapacity b))"

text \<open>Functions that do what is documented, and a program with two empty buffers.\<close>

definition unshare_by_copy :: "nat \<Rightarrow> nat \<Rightarrow> cow_world \<Rightarrow> abort + cow_world" where
  "unshare_by_copy c i w = bindE (buffer_of i w) (\<lambda>(p, b).
     if count_list (ptrs w) (Some p) = 1 \<and> c \<le> bcapacity b - offs w i then Inr w
     else bindE (BufferT_copy (Some (content w i)) (lens w i) c) (\<lambda>b'.
          bindE (refptr_set_new i b' w) (\<lambda>u. Inr (set_slice i 0 (lens w i) u))))"

definition share_copy :: "nat \<Rightarrow> nat \<Rightarrow> cow_world \<Rightarrow> abort + cow_world" where
  "share_copy k i w = bindE (refptr_copy k i w) (\<lambda>u. Inr (set_slice k (offs w i) (lens w i) u))"

lemma unshare_by_copy_ok: "unshare_ok unshare_by_copy"
  unfolding unshare_ok_def
proof (intro allI impI)
  fix c i w p b
  assume a: "cow_inv w \<and> i < length (ptrs w) \<and> ptrs w ! i = Some p \<and> objects w p = Some b \<and> 0 < c \<and> lens w i \<le> c \<and> c \<le> alloc_limit"
  then have len: "length (content w i) = lens w i" using length_content by blast
  have "max (length (content w i)) c \<le> alloc_limit" using a len by simp
  from BufferT_copy_law [OF this] obtain b' where
    b': "BufferT_copy (Some (content w i)) (lens w i) c = Inr b'" "buf_ok b'" "bsize b' = lens w i" "bcapacity b' = max (lens w i) c"
      "elems b' = content w i" unfolding len by blast
  obtain u where "refptr_set_new i b' w = Inr u" using refptr_set_new_law [of w i b'] a by (auto simp: cow_inv_def)
  with a b' show "if count_list (ptrs w) (Some p) = 1 \<and> c \<le> bcapacity b - offs w i then unshare_by_copy c i w = Inr w
      else \<exists>b' u. buf_ok b' \<and> bsize b' = lens w i \<and> elems b' = content w i \<and> c \<le> bcapacity b' \<and>
        refptr_set_new i b' w = Inr u \<and> unshare_by_copy c i w = Inr (set_slice i 0 (lens w i) u)"
    by (auto simp: unshare_by_copy_def)
qed

definition two_buffers :: cow_world where
  "two_buffers = \<lparr>cells = (\<lambda>_. None), fresh = 0, ptrs = [None, None], offs = (\<lambda>_. 0), lens = (\<lambda>_. 0)\<rparr>"

lemma two_buffers_inv: "cow_inv two_buffers" "length (ptrs two_buffers) = 2" "ptrs two_buffers ! 1 = None" "lens two_buffers 0 = 0"
  "content two_buffers 0 = []" "content two_buffers 1 = []"
  by (auto simp: cow_inv_def two_buffers_def owned_def owners_def cow_ok_def content_def less_Suc_eq)

lemma limit_positive: "(3 :: nat) \<le> alloc_limit"
  by (simp add: alloc_limit_def)

text \<open>
  C10. Buffers that share their data behave as if each had its own: replacing the content of one, appending to it, and
  asking for its data to write a byte through the pointer, change its content as the same operation on a list does, and leave every other
  buffer, also one that shared the data or is a slice of it, as it was.
\<close>

theorem copy_on_write_isolates:
  assumes "unshare_ok unshare" and "cow_inv w" and "i < length (ptrs w)"
  shows "(room (length xs) w i \<longrightarrow>
      (\<exists>t. cow_SetData i (Some xs) (length xs) w = Inr t \<and> cow_inv t \<and> only {i} w t \<and> content t i = xs))
    \<and> (xs \<noteq> [] \<and> lens w i + length xs \<le> alloc_limit \<longrightarrow>
      (\<exists>t. cow_AppendData unshare i (Some xs) (length xs) w = Inr t \<and> cow_inv t \<and> only {i} w t \<and> content t i = content w i @ xs))
    \<and> (k < length (content w i) \<longrightarrow>
      (\<exists>q v t. cow_MutableData unshare i w = Inr (q, v) \<and> only {} w v \<and> poke q k x v = Inr t \<and> cow_inv t \<and> only {i} w t
        \<and> content t i = (content w i)[k := Some x]))"
proof (intro conjI impI)
  show "\<exists>t. cow_SetData i (Some xs) (length xs) w = Inr t \<and> cow_inv t \<and> only {i} w t \<and> content t i = xs"
    if "room (length xs) w i"
    by (rule SetData_law [OF assms(2,3)]) (use that in \<open>auto simp: room_def split: if_splits\<close>)
qed (use assms AppendData_law MutableData_law length_content in auto)

theorem copy_on_write_isolates_witness:
  "\<exists>t u. cow_SetData 0 (Some [Some 5]) 1 two_buffers = Inr t \<and> cow_AppendData unshare_by_copy 0 (Some [Some 6]) 1 t = Inr u \<and>
     content u 0 = [Some 5, Some 6] \<and> content u 1 = []"
proof -
  have "room (length [Some (5 :: byte)]) two_buffers 0" using limit_positive by (auto simp: room_def two_buffers_def)
  with copy_on_write_isolates [OF unshare_by_copy_ok two_buffers_inv(1), of 0 "[Some 5]"] two_buffers_inv
  obtain t where t: "cow_SetData 0 (Some [Some 5]) 1 two_buffers = Inr t" "cow_inv t" "only {0} two_buffers t" "content t 0 = [Some 5]"
    by auto
  then have l: "0 < length (ptrs t)" "1 < length (ptrs t)" "content t 1 = []" using two_buffers_inv by (auto simp: only_def)
  have "lens t 0 = 1" using length_content [OF t(2) l(1)] t(4) by simp
  then have "lens t 0 + length [Some (6 :: byte)] \<le> alloc_limit" using limit_positive by simp
  with copy_on_write_isolates [OF unshare_by_copy_ok t(2) l(1), of "[Some 6]"] t(4) l obtain u where
    "cow_AppendData unshare_by_copy 0 (Some [Some 6]) 1 t = Inr u" "only {0} t u" "content u 0 = [Some 5, Some 6]" by auto
  with t(1) l show ?thesis by (auto simp: only_def)
qed

text \<open>
  Assigning, moving, swapping and slicing buffers copies no byte and is seen by none of the other buffers: a copy and a
  slice show what the source shows, a moved buffer is empty afterwards, and reading checks the index against the slice, not against
  the buffer it lies in.
\<close>

theorem copy_on_write_shares:
  assumes "copy_ok copy" and "cow_inv w" and "i < length (ptrs w)" and "j < length (ptrs w)"
  shows "(\<exists>t. cow_assign i j w = Inr t \<and> cow_inv t \<and> only {i} w t \<and> content t i = content w j)
    \<and> (i \<noteq> j \<longrightarrow> (\<exists>t. cow_move_assign i j w = Inr t \<and> cow_inv t \<and> only {i, j} w t \<and> content t i = content w j \<and> content t j = []))
    \<and> (cow_inv (cow_swap i j w) \<and> only {i, j} w (cow_swap i j w) \<and> content (cow_swap i j w) i = content w j
        \<and> content (cow_swap i j w) j = content w i)
    \<and> (i \<noteq> j \<and> ptrs w ! j = None \<and> off + len \<le> lens w i \<longrightarrow>
        (\<exists>t. cow_Slice copy j i off len w = Inr t \<and> cow_inv t \<and> only {j} w t \<and> content t j = take len (drop off (content w i))))
    \<and> cow_get i k w = check (k < length (content w i)) (load_cell (content w i) k)"
  using cow_assign_law [OF assms(2-4)] cow_move_assign_law [OF assms(2-4)] swap_law [OF assms(2-4)]
    slice_law [OF assms(1-4)] get_law [OF assms(2,3)] by blast

lemma filled_buffer:
  "\<exists>t. cow_SetData 0 (Some [Some 5, Some 6, Some 7]) 3 two_buffers = Inr t \<and> cow_inv t \<and> length (ptrs t) = 2 \<and>
     content t 0 = [Some 5, Some 6, Some 7] \<and> ptrs t ! 1 = None"
proof -
  from SetData_law [OF two_buffers_inv(1), of 0 "[Some 5, Some 6, Some 7]"] limit_positive two_buffers_inv obtain t where
    t: "cow_SetData 0 (Some [Some 5, Some 6, Some 7]) 3 two_buffers = Inr t" "cow_inv t" "only {0} two_buffers t"
      "content t 0 = [Some 5, Some 6, Some 7]" by (auto simp: two_buffers_def eval_nat_numeral)
  have l: "length (ptrs t) = 2" "content t 1 = []" using t(3) two_buffers_inv by (auto simp: only_def)
  have "ptrs t = [Some 0, None]" using t(1)
    by (auto simp: cow_SetData_def two_buffers_def consistent_def Cow_IsConsistent_def refptr_set_new_def new_object_def refptr_set_def
        add_ref_def AddRef_def deref_def drop_ref_def set_ptr_def Let_def)
  with t l show ?thesis by auto
qed

theorem copy_on_write_shares_witness:
  "\<exists>t u. cow_SetData 0 (Some [Some 5, Some 6, Some 7]) 3 two_buffers = Inr t \<and> cow_Slice share_copy 1 0 1 2 t = Inr u \<and>
     content u 1 = [Some 6, Some 7] \<and> content u 0 = [Some 5, Some 6, Some 7]"
proof -
  have cp: "copy_ok share_copy" by (simp add: copy_ok_def share_copy_def)
  from filled_buffer obtain t where t: "cow_SetData 0 (Some [Some 5, Some 6, Some 7]) 3 two_buffers = Inr t" "cow_inv t" "length (ptrs t) = 2"
    "content t 0 = [Some 5, Some 6, Some 7]" "ptrs t ! 1 = None" by blast
  have "lens t 0 = 3" using length_content [OF t(2), of 0] t(3,4) by simp
  with copy_on_write_shares [OF cp t(2), of 0 1 1 2 0] t obtain u where
    u: "cow_Slice share_copy 1 0 1 2 t = Inr u" "only {1} t u" "content u 1 = [Some 6, Some 7]" by auto
  moreover have "content u 0 = content t 0" using u(2) t(3) by (simp add: only_def)
  ultimately show ?thesis using t by auto
qed

text \<open>
  Two uses without data fail the consistency check of the class: appending no bytes to a buffer that has no data
  yet, and replacing by no bytes the content of a slice at the very end of a shared buffer, since both make an object of capacity zero.
\<close>

theorem copy_on_write_empty_faults:
  assumes "cow_inv w" and "i < length (ptrs w)"
  shows "(ptrs w ! i = None \<longrightarrow> cow_AppendData unshare i (Some []) 0 w = Inl CheckFailed)
    \<and> (\<forall>p b. ptrs w ! i = Some p \<and> objects w p = Some b \<and> count_list (ptrs w) (Some p) \<noteq> 1 \<and> offs w i = bcapacity b \<longrightarrow>
        cow_SetData i (Some []) 0 w = Inl CheckFailed)"
proof -
  define b :: "byte buffer" where "b = \<lparr>bsize = 0, bcapacity = 0, bdata = None, freed = []\<rparr>"
  have ow: "owned None [] w" and ok: "cow_ok w i" using assms by (simp_all add: cow_inv_def)
  have new: "BufferT_copy (Some []) 0 0 = Inr b" by (simp add: BufferT_copy_def BufferT_sized_def IsConsistent_def b_def)
  from refptr_set_new_law [OF ow assms(2), of b] obtain u where
    u: "refptr_set_new i b w = Inr u" "ptrs u = (ptrs w)[i := Some (fresh w)]" "objects u (fresh w) = Some b" by blast
  have "consistent i (set_slice i 0 0 u) k = Inl CheckFailed" for k :: "abort + cow_world"
    using u(2,3) assms(2)
    by (simp add: consistent_def Cow_IsConsistent_def BufferT_capacity_def BufferT_size_def IsConsistent_def b_def)
  note bad = this
  have "cow_AppendData unshare i (Some []) 0 w = Inl CheckFailed" if "ptrs w ! i = None"
    using that ok new u(1) bad by (simp add: cow_AppendData_def)
  moreover have "cow_SetData i (Some []) 0 w = Inl CheckFailed"
    if p: "ptrs w ! i = Some p" "objects w p = Some d" "count_list (ptrs w) (Some p) \<noteq> 1" "offs w i = bcapacity d" for p d
  proof -
    obtain c where "cells w p = Some c" using p(2) by (auto simp: objects_def)
    then have "object_HasOneRef p w = Inr False" using owned_count [OF ow] p(3) by simp
    with p ok new u(1) bad capacity_ok [OF ok p(1,2)] show ?thesis by (simp add: cow_SetData_def)
  qed
  ultimately show ?thesis by blast
qed

theorem copy_on_write_empty_faults_witness:
  "cow_AppendData unshare_by_copy 1 (Some []) 0 two_buffers = Inl CheckFailed"
  using copy_on_write_empty_faults [OF two_buffers_inv(1), of 1 unshare_by_copy] two_buffers_inv by simp

end
