(* ===== verification/Audio_Views.thy ===== *)
theory Audio_Views
  imports Complex_Main Array_View Units
begin

text \<open>
  \<^verbatim>\<open>api/audio/audio_view.h\<close> and the inline part of \<^verbatim>\<open>common_audio/include/audio_util.h\<close>: views of audio samples
  with the channels side by side or one after the other, the conversion between the two, downmixing and the conversion
  of single samples. All samples lie in one memory, so that views may overlap. Conversions of \<^verbatim>\<open>float\<close> values are in
  exact arithmetic.
\<close>

section \<open>Views\<close>

definition kMaxNumberOfAudioChannels :: nat where
  "kMaxNumberOfAudioChannels = 24"

record interleaved =
  ichannels :: nat
  isamples :: nat
  idata :: view

definition InterleavedView :: "nat option \<Rightarrow> nat \<Rightarrow> nat \<Rightarrow> abort + interleaved" where
  "InterleavedView p samples_per_channel num_channels =
     bindE (ArrayView Variable p ((num_channels * samples_per_channel) mod 2 ^ 64)) (\<lambda>d.
       check (num_channels \<le> kMaxNumberOfAudioChannels)
         (check (num_channels = 0 \<or> samples_per_channel \<noteq> 0)
           (Inr \<lparr>ichannels = num_channels, isamples = samples_per_channel, idata = d\<rparr>)))"

definition InterleavedView_array :: "nat option \<Rightarrow> nat \<Rightarrow> nat \<Rightarrow> abort + interleaved" where
  "InterleavedView_array arr N num_channels =
     (if num_channels = 0 then Inl DivByZero
      else bindE (InterleavedView arr (N div num_channels) num_channels) (\<lambda>v. check (N mod num_channels = 0) (Inr v)))"

definition il_empty :: "interleaved \<Rightarrow> bool" where
  "il_empty v = view_empty (idata v)"

definition il_size :: "interleaved \<Rightarrow> nat" where
  "il_size v = vsize (idata v)"

definition il_AsMono :: "interleaved \<Rightarrow> abort + view" where
  "il_AsMono v = check (ichannels v = 1) (check (vsize (idata v) = isamples v) (Inr (idata v)))"

definition il_get :: "'a list \<Rightarrow> interleaved \<Rightarrow> nat \<Rightarrow> abort + 'a" where
  "il_get m v idx = view_get m (idata v) idx"

definition il_put :: "'a list \<Rightarrow> interleaved \<Rightarrow> nat \<Rightarrow> 'a \<Rightarrow> abort + 'a list" where
  "il_put m v idx x = view_put m (idata v) idx x"

text \<open>\<^verbatim>\<open>memcpy\<close> and \<^verbatim>\<open>memset\<close> of \<open>n\<close> samples; the source and the target of a copy must not overlap.\<close>

definition copy_memory :: "'a list \<Rightarrow> nat \<Rightarrow> nat \<Rightarrow> nat \<Rightarrow> abort + 'a list" where
  "copy_memory m dst src n =
     (if dst + n \<le> length m \<and> src + n \<le> length m \<and> (n = 0 \<or> dst + n \<le> src \<or> src + n \<le> dst)
      then Inr (take dst m @ take n (drop src m) @ drop (dst + n) m) else Inl OutOfBounds)"

definition clear_memory :: "'a::zero list \<Rightarrow> nat \<Rightarrow> nat \<Rightarrow> abort + 'a list" where
  "clear_memory m dst n =
     (if dst + n \<le> length m then Inr (take dst m @ replicate n 0 @ drop (dst + n) m) else Inl OutOfBounds)"

definition il_CopyFrom :: "'a list \<Rightarrow> interleaved \<Rightarrow> interleaved \<Rightarrow> abort + 'a list" where
  "il_CopyFrom m v source =
     check (ichannels v = ichannels source) (check (isamples v = isamples source)
       (check (vsize (idata v) \<ge> vsize (idata source))
         (bindE (element_index (idata v) 0) (\<lambda>dst. bindE (element_index (idata source) 0) (\<lambda>src.
            copy_memory m dst src (vsize (idata source)))))))"

text \<open>The channels are given by one pointer each, or all lie behind one pointer.\<close>

datatype channel_data = PtrArray "nat option list" | Coallocated "nat option"

record deinterleaved =
  dchannels :: nat
  dsamples :: nat
  ddata :: channel_data

definition DeinterleavedView :: "nat option \<Rightarrow> nat \<Rightarrow> nat \<Rightarrow> deinterleaved" where
  "DeinterleavedView p samples_per_channel num_channels =
     \<lparr>dchannels = num_channels, dsamples = samples_per_channel, ddata = Coallocated p\<rparr>"

definition DeinterleavedView_ptrs :: "nat option list \<Rightarrow> nat \<Rightarrow> nat \<Rightarrow> deinterleaved" where
  "DeinterleavedView_ptrs channels samples_per_channel num_channels =
     \<lparr>dchannels = num_channels, dsamples = samples_per_channel, ddata = PtrArray channels\<rparr>"

definition DeinterleavedView_vector :: "nat option list \<Rightarrow> nat \<Rightarrow> deinterleaved" where
  "DeinterleavedView_vector channels samples_per_channel =
     \<lparr>dchannels = length channels, dsamples = samples_per_channel, ddata = PtrArray channels\<rparr>"

definition is_ptr_array :: "deinterleaved \<Rightarrow> bool" where
  "is_ptr_array d = (case ddata d of PtrArray ps \<Rightarrow> True | Coallocated p \<Rightarrow> False)"

definition DeinterleavedView_copy :: "deinterleaved \<Rightarrow> deinterleaved" where
  "DeinterleavedView_copy other =
     \<lparr>dchannels = dchannels other, dsamples = dsamples other,
      ddata = (case ddata other of PtrArray ps \<Rightarrow> PtrArray ps | Coallocated p \<Rightarrow> Coallocated p)\<rparr>"

definition channel :: "deinterleaved \<Rightarrow> nat \<Rightarrow> abort + view" where
  "channel d idx =
     check (idx < dchannels d)
       (case ddata d of
          PtrArray ps \<Rightarrow> if idx < length ps then ArrayView Variable (ps ! idx) (dsamples d) else Inl OutOfBounds
        | Coallocated p \<Rightarrow> bindE (pointer_add p ((idx * dsamples d) mod 2 ^ 64)) (\<lambda>q. ArrayView Variable q (dsamples d)))"

definition de_empty :: "deinterleaved \<Rightarrow> bool" where
  "de_empty d \<longleftrightarrow> dchannels d = 0 \<or> dsamples d = 0"

definition de_size :: "deinterleaved \<Rightarrow> nat" where
  "de_size d = (dchannels d * dsamples d) mod 2 ^ 64"

definition de_AsMono :: "deinterleaved \<Rightarrow> abort + view" where
  "de_AsMono d = check (dchannels d \<ge> 1) (channel d 0)"

section \<open>Functions on views\<close>

datatype audio_view = Mono view | Interleaved interleaved | Deinterleaved deinterleaved

fun NumChannels :: "audio_view \<Rightarrow> nat" where
  "NumChannels (Mono v) = 1"
| "NumChannels (Interleaved v) = ichannels v"
| "NumChannels (Deinterleaved v) = dchannels v"

fun IsMono :: "audio_view \<Rightarrow> bool" where
  "IsMono (Mono v) = True"
| "IsMono v = (NumChannels v = 1)"

fun IsInterleavedView :: "audio_view \<Rightarrow> bool" where
  "IsInterleavedView (Deinterleaved v) = False"
| "IsInterleavedView v = True"

fun SamplesPerChannel :: "audio_view \<Rightarrow> nat" where
  "SamplesPerChannel (Mono v) = vsize v"
| "SamplesPerChannel (Interleaved v) = isamples v"
| "SamplesPerChannel (Deinterleaved v) = dsamples v"

text \<open>The contiguous samples of a view, which \<^verbatim>\<open>&view[0]\<close> points to; not defined for separate channels.\<close>

fun flat :: "audio_view \<Rightarrow> abort + view" where
  "flat (Mono v) = Inr v"
| "flat (Interleaved v) = Inr (idata v)"
| "flat (Deinterleaved v) = Inl CheckFailed"

definition CopySamples :: "'a list \<Rightarrow> audio_view \<Rightarrow> audio_view \<Rightarrow> abort + 'a list" where
  "CopySamples m destination source =
     check (NumChannels destination = NumChannels source) (check (SamplesPerChannel destination = SamplesPerChannel source)
       (bindE (flat destination) (\<lambda>d. bindE (flat source) (\<lambda>s.
          check (vsize d \<ge> vsize s)
            (bindE (element_index d 0) (\<lambda>dst. bindE (element_index s 0) (\<lambda>src. copy_memory m dst src (vsize s))))))))"

definition ClearSamples :: "'a::zero list \<Rightarrow> view \<Rightarrow> abort + 'a list" where
  "ClearSamples m v = bindE (element_index v 0) (\<lambda>dst. clear_memory m dst (vsize v))"

definition ClearSamples_count :: "'a::zero list \<Rightarrow> view \<Rightarrow> nat \<Rightarrow> abort + 'a list" where
  "ClearSamples_count m v sample_count =
     check (sample_count \<le> vsize v) (bindE (element_index v 0) (\<lambda>dst. clear_memory m dst sample_count))"

text \<open>\<^verbatim>\<open>DeinterleavedView::Clear\<close>, from channel \<open>i\<close> on.\<close>

fun clear_channels :: "deinterleaved \<Rightarrow> nat \<Rightarrow> nat \<Rightarrow> 'a::zero list \<Rightarrow> abort + 'a list" where
  "clear_channels d i 0 m = Inr m"
| "clear_channels d i (Suc n) m = bindE (channel d i) (\<lambda>v. bindE (ClearSamples m v) (clear_channels d (Suc i) n))"

definition de_Clear :: "deinterleaved \<Rightarrow> 'a::zero list \<Rightarrow> abort + 'a list" where
  "de_Clear d m = clear_channels d 0 (dchannels d) m"

section \<open>Interleaving\<close>

text \<open>The inner loops: \<open>n\<close> samples from \<open>j\<close> on.\<close>

fun take_channel :: "interleaved \<Rightarrow> view \<Rightarrow> nat \<Rightarrow> nat \<Rightarrow> nat \<Rightarrow> 'a list \<Rightarrow> abort + 'a list" where
  "take_channel il ch idx j 0 m = Inr m"
| "take_channel il ch idx j (Suc n) m =
     bindE (il_get m il idx) (\<lambda>x. bindE (view_put m ch j x) (\<lambda>m.
       take_channel il ch (idx + ichannels il) (Suc j) n m))"

fun put_channel :: "interleaved \<Rightarrow> view \<Rightarrow> nat \<Rightarrow> nat \<Rightarrow> nat \<Rightarrow> 'a list \<Rightarrow> abort + 'a list" where
  "put_channel il ch idx j 0 m = Inr m"
| "put_channel il ch idx j (Suc n) m =
     bindE (view_get m ch j) (\<lambda>x. bindE (il_put m il idx x) (\<lambda>m.
       put_channel il ch (idx + ichannels il) (Suc j) n m))"

text \<open>The outer loop over \<open>n\<close> channels from \<open>i\<close> on.\<close>

fun each_channel :: "(nat \<Rightarrow> view \<Rightarrow> 'a list \<Rightarrow> abort + 'a list) \<Rightarrow> deinterleaved \<Rightarrow> nat \<Rightarrow> nat \<Rightarrow> 'a list \<Rightarrow> abort + 'a list" where
  "each_channel body d i 0 m = Inr m"
| "each_channel body d i (Suc n) m =
     bindE (channel d i) (\<lambda>ch. bindE (body i ch m) (each_channel body d (Suc i) n))"

definition Deinterleave :: "interleaved \<Rightarrow> deinterleaved \<Rightarrow> 'a list \<Rightarrow> abort + 'a list" where
  "Deinterleave il d m =
     check (ichannels il = dchannels d) (check (isamples il = dsamples d)
       (each_channel (\<lambda>i ch. take_channel il ch i 0 (isamples il)) d 0 (ichannels il) m))"

definition Interleave :: "deinterleaved \<Rightarrow> interleaved \<Rightarrow> 'a list \<Rightarrow> abort + 'a list" where
  "Interleave d il m =
     check (ichannels il = dchannels d) (check (isamples il = dsamples d)
       (each_channel (\<lambda>i ch. put_channel il ch i 0 (dsamples d)) d 0 (dchannels d) m))"

text \<open>\<^verbatim>\<open>std::copy\<close>, undefined if the target starts inside the source.\<close>

definition std_copy :: "'a list \<Rightarrow> nat \<Rightarrow> nat \<Rightarrow> nat \<Rightarrow> abort + 'a list" where
  "std_copy m src dst n =
     (if dst + n \<le> length m \<and> src + n \<le> length m \<and> \<not> (src \<le> dst \<and> dst < src + n)
      then Inr (take dst m @ take n (drop src m) @ drop (dst + n) m) else Inl OutOfBounds)"

text \<open>Copy the channels whose pointers differ.\<close>

fun CopyAudioIfNeeded :: "nat list \<Rightarrow> nat \<Rightarrow> nat list \<Rightarrow> 'a list \<Rightarrow> abort + 'a list" where
  "CopyAudioIfNeeded (s # src) num_frames (d # dest) m =
     bindE (if s \<noteq> d then std_copy m s d num_frames else Inr m) (CopyAudioIfNeeded src num_frames dest)"
| "CopyAudioIfNeeded src num_frames dest m = Inr m"

section \<open>Reference: samples copied one after the other\<close>

fun copy_all :: "(nat \<times> nat) list \<Rightarrow> 'a list \<Rightarrow> 'a list" where
  "copy_all [] m = m"
| "copy_all ((src, dst) # ps) m = copy_all ps (m[dst := m ! src])"

lemma copy_all_append [simp]: "copy_all (ps @ qs) m = copy_all qs (copy_all ps m)"
  by (induction ps arbitrary: m) auto

lemma length_copy_all [simp]: "length (copy_all ps m) = length m"
  by (induction ps arbitrary: m) auto

lemma copy_all_other: "k \<notin> snd ` set ps \<Longrightarrow> copy_all ps m ! k = m ! k"
  by (induction ps arbitrary: m) auto

text \<open>Targets that are distinct and not sources of the copy get what the sources held before it.\<close>

lemma copy_all_moves:
  assumes "distinct (map snd ps)" and "fst ` set ps \<inter> snd ` set ps = {}" and "snd ` set ps \<subseteq> {..<length m}" and "(a, b) \<in> set ps"
  shows "copy_all ps m ! b = m ! a"
  using assms
proof (induction ps arbitrary: m)
  case (Cons p ps)
  obtain s d where p: "p = (s, d)" by (cases p)
  show ?case
  proof (cases "(a, b) = p")
    case True
    with Cons.prems p have "b \<notin> snd ` set ps" "b < length m" by auto
    with True p show ?thesis by (simp add: copy_all_other)
  next
    case False
    then have ab: "(a, b) \<in> set ps" using Cons.prems(4) by simp
    then have "a \<noteq> d" using Cons.prems(2) p by force
    then have "m[d := m ! s] ! a = m ! a" by simp
    with Cons.IH [of "m[d := m ! s]"] Cons.prems ab p show ?thesis by auto
  qed
qed simp

definition stride :: "nat \<Rightarrow> nat \<Rightarrow> nat \<Rightarrow> nat \<Rightarrow> nat \<Rightarrow> nat \<Rightarrow> (nat \<times> nat) list" where
  "stride c b idx ch j n = map (\<lambda>t. (b + idx + t * c, ch + j + t)) [0 ..< n]"

lemma stride_Suc: "stride c b idx ch j (Suc n) = (b + idx, ch + j) # stride c b (idx + c) ch (Suc j) n"
  by (simp add: stride_def upt_conv_Cons map_Suc_upt [symmetric] add_ac del: upt_Suc)

definition swapped :: "(nat \<times> nat) list \<Rightarrow> (nat \<times> nat) list" where
  "swapped ps = map (\<lambda>(a, b). (b, a)) ps"

text \<open>A view of \<open>n\<close> samples at \<open>b\<close> in a memory of length \<open>len\<close>.\<close>

definition view_at :: "view \<Rightarrow> nat \<Rightarrow> nat \<Rightarrow> nat \<Rightarrow> bool" where
  "view_at v b n len \<longleftrightarrow> vsize v = n \<and> (0 < n \<longrightarrow> vdata v = Some b) \<and> b + n \<le> len"

lemma view_at_get: "view_at v b n (length m) \<Longrightarrow> k < n \<Longrightarrow> view_get m v k = Inr (m ! (b + k))"
  by (simp add: view_at_def view_get_def element_index_def load_def)

lemma view_at_put: "view_at v b n (length m) \<Longrightarrow> k < n \<Longrightarrow> view_put m v k x = Inr (m[b + k := x])"
  by (simp add: view_at_def view_put_def element_index_def)

lemma take_channel_copies:
  assumes "view_at (idata il) b len (length m)" and "view_at ch c k (length m)" and "j + n \<le> k"
    and "\<And>t. t < n \<Longrightarrow> idx + t * ichannels il < len"
  shows "take_channel il ch idx j n m = Inr (copy_all (stride (ichannels il) b idx c j n) m)"
  using assms
proof (induction n arbitrary: idx j m)
  case (Suc n)
  have "idx < len" using Suc.prems(4) [of 0] by simp
  moreover have "idx + ichannels il + t * ichannels il < len" if "t < n" for t
    using Suc.prems(4) [of "Suc t"] that by (simp add: add_ac)
  ultimately show ?case using Suc.IH [of "m[c + j := m ! (b + idx)]" "Suc j" "idx + ichannels il"] Suc.prems
    by (simp add: il_get_def view_at_get view_at_put stride_Suc)
qed (simp add: stride_def)

lemma put_channel_copies:
  assumes "view_at (idata il) b len (length m)" and "view_at ch c k (length m)" and "j + n \<le> k"
    and "\<And>t. t < n \<Longrightarrow> idx + t * ichannels il < len"
  shows "put_channel il ch idx j n m = Inr (copy_all (swapped (stride (ichannels il) b idx c j n)) m)"
  using assms
proof (induction n arbitrary: idx j m)
  case (Suc n)
  have "idx < len" using Suc.prems(4) [of 0] by simp
  moreover have "idx + ichannels il + t * ichannels il < len" if "t < n" for t
    using Suc.prems(4) [of "Suc t"] that by (simp add: add_ac)
  ultimately show ?case using Suc.IH [of "m[b + idx := m ! (c + j)]" "Suc j" "idx + ichannels il"] Suc.prems
    by (simp add: il_put_def view_at_get view_at_put stride_Suc swapped_def)
qed (simp add: stride_def swapped_def)

text \<open>The loop over the channels.\<close>

lemma each_channel_copies:
  assumes "\<And>k m'. i \<le> k \<Longrightarrow> k < i + n \<Longrightarrow> length m' = length m \<Longrightarrow>
      \<exists>ch. channel d k = Inr ch \<and> body k ch m' = Inr (copy_all (P k) m')"
  shows "each_channel body d i n m = Inr (copy_all (concat (map P [i ..< i + n])) m)"
  using assms
proof (induction n arbitrary: i m)
  case (Suc n)
  from Suc.prems [of i m] obtain ch where ch: "channel d i = Inr ch" "body i ch m = Inr (copy_all (P i) m)" by auto
  have "each_channel body d (Suc i) n (copy_all (P i) m) = Inr (copy_all (concat (map P [Suc i ..< Suc i + n])) (copy_all (P i) m))"
    by (rule Suc.IH) (use Suc.prems in simp)
  with ch show ?case by (simp add: upt_conv_Cons del: upt_Suc)
qed simp

section \<open>Where the samples lie\<close>

definition apart :: "nat \<Rightarrow> nat \<Rightarrow> nat \<Rightarrow> nat \<Rightarrow> bool" where
  "apart a n b k \<longleftrightarrow> a + n \<le> b \<or> b + k \<le> a"

text \<open>The interleaved view starts at \<open>b\<close> and channel \<open>k\<close> at \<open>base k\<close>; none of them overlaps another.\<close>

definition layout :: "interleaved \<Rightarrow> nat \<Rightarrow> deinterleaved \<Rightarrow> (nat \<Rightarrow> nat) \<Rightarrow> nat \<Rightarrow> bool" where
  "layout il b d base len \<longleftrightarrow>
     dchannels d = ichannels il \<and> dsamples d = isamples il \<and> view_at (idata il) b (isamples il * ichannels il) len \<and>
     (\<forall>k < ichannels il. (\<exists>ch. channel d k = Inr ch \<and> view_at ch (base k) (isamples il) len) \<and>
        apart (base k) (isamples il) b (isamples il * ichannels il) \<and>
        (\<forall>l < ichannels il. l \<noteq> k \<longrightarrow> apart (base k) (isamples il) (base l) (isamples il)))"

definition in_channels :: "nat \<Rightarrow> nat \<Rightarrow> (nat \<Rightarrow> nat) \<Rightarrow> nat \<Rightarrow> bool" where
  "in_channels c s base x \<longleftrightarrow> (\<exists>k < c. base k \<le> x \<and> x < base k + s)"

definition moves :: "nat \<Rightarrow> nat \<Rightarrow> nat \<Rightarrow> (nat \<Rightarrow> nat) \<Rightarrow> (nat \<times> nat) list" where
  "moves c s b base = map (\<lambda>(k, t). (b + k + t * c, base k + t)) (List.product [0 ..< c] [0 ..< s])"

lemma moves_strides: "moves c s b base = concat (map (\<lambda>k. stride c b k (base k) 0 s) [0 ..< c])"
  by (simp add: moves_def stride_def product_concat_map map_concat comp_def)

lemma swapped_concat: "swapped (concat (map P xs)) = concat (map (\<lambda>k. swapped (P k)) xs)"
  by (simp add: swapped_def map_concat comp_def)

lemma swapped_facts [simp]: "fst ` set (swapped ps) = snd ` set ps" "snd ` set (swapped ps) = fst ` set ps"
  "map snd (swapped ps) = map fst ps" "(a, b) \<in> set (swapped ps) \<longleftrightarrow> (b, a) \<in> set ps"
  by (force simp: swapped_def)+

lemma set_moves: "set (moves c s b base) = (\<lambda>(k, t). (b + k + t * c, base k + t)) ` ({..<c} \<times> {..<s})"
  by (auto simp: moves_def lessThan_atLeast0)

lemma sample_index: "k < c \<Longrightarrow> t < s \<Longrightarrow> k + t * c < s * c" for k t c s :: nat
proof -
  assume "k < c" "t < s"
  then have "k + t * c < Suc t * c" "Suc t * c \<le> s * c" by (simp, intro mult_le_mono1) simp
  then show ?thesis by linarith
qed

lemma sample_unique: "k < c \<Longrightarrow> l < c \<Longrightarrow> k + t * c = l + u * c \<Longrightarrow> k = l \<and> t = u" for k l t u c :: nat
  by (metis add.commute div_mult_self3 mod_mult_self3 div_less mod_less mult_eq_0_iff not_less0 add_0)

lemma layout_channel:
  "layout il b d base len \<Longrightarrow> k < ichannels il \<Longrightarrow> \<exists>ch. channel d k = Inr ch \<and> view_at ch (base k) (isamples il) len"
  by (simp add: layout_def)

lemma moves_facts:
  assumes l: "layout il b d base len" and c: "c = ichannels il" and s: "s = isamples il"
  shows "distinct (map fst (moves c s b base))" "distinct (map snd (moves c s b base))"
    "fst ` set (moves c s b base) \<inter> snd ` set (moves c s b base) = {}"
    "fst ` set (moves c s b base) \<subseteq> {b ..< b + s * c}" "b + s * c \<le> len"
    "snd ` set (moves c s b base) = {x. in_channels c s base x}" "snd ` set (moves c s b base) \<subseteq> {..<len}"
proof -
  show src: "fst ` set (moves c s b base) \<subseteq> {b ..< b + s * c}"
    using sample_index [of _ c _ s] by (auto simp: set_moves add.assoc)
  show "b + s * c \<le> len" using l c s by (simp add: layout_def view_at_def)
  show dst: "snd ` set (moves c s b base) = {x. in_channels c s base x}"
  proof (intro equalityI subsetI)
    fix x
    assume "x \<in> {x. in_channels c s base x}"
    then obtain k where "k < c" "base k \<le> x" "x < base k + s" by (auto simp: in_channels_def)
    then show "x \<in> snd ` set (moves c s b base)"
      unfolding set_moves by (intro image_eqI [of _ _ "(b + k + (x - base k) * c, x)"] image_eqI [of _ _ "(k, x - base k)"]) auto
  qed (auto simp: set_moves in_channels_def)
  show "fst ` set (moves c s b base) \<inter> snd ` set (moves c s b base) = {}"
  proof -
    have "\<not> in_channels c s base x" if "x \<in> {b ..< b + s * c}" for x
    proof -
      have "apart (base k) s b (s * c)" if "k < c" for k using l c s that by (simp add: layout_def)
      with that show ?thesis by (fastforce simp: in_channels_def apart_def)
    qed
    with src dst show ?thesis by blast
  qed
  show "snd ` set (moves c s b base) \<subseteq> {..<len}"
  proof -
    have "base k + s \<le> len" if "k < c" for k using layout_channel [OF l, of k] that c s by (auto simp: view_at_def)
    then show ?thesis unfolding dst by (fastforce simp: in_channels_def)
  qed
  have inj: "inj_on (\<lambda>(k, t). b + k + t * c) ({..<c} \<times> {..<s})"
  proof (rule inj_onI)
    fix x y
    assume x: "x \<in> {..<c} \<times> {..<s}" "y \<in> {..<c} \<times> {..<s}" and "(case x of (k, t) \<Rightarrow> b + k + t * c) = (case y of (k, t) \<Rightarrow> b + k + t * c)"
    then have "fst x + snd x * c = fst y + snd y * c" by (simp add: case_prod_beta)
    with x have "fst x = fst y \<and> snd x = snd y" by (intro sample_unique) auto
    then show "x = y" by (simp add: prod_eq_iff)
  qed
  from inj show "distinct (map fst (moves c s b base))"
    by (simp add: moves_def distinct_map distinct_product comp_def case_prod_beta' lessThan_atLeast0)
  have "k = l' \<and> t = u" if "k < c" "l' < c" "t < s" "u < s" "base k + t = base l' + u" for k l' t u
  proof (cases "k = l'")
    case False
    then have "apart (base k) s (base l') s" using l c s that by (auto simp: layout_def)
    with that show ?thesis by (auto simp: apart_def)
  qed (use that in simp)
  then have "inj_on (\<lambda>(k, t). base k + t) ({..<c} \<times> {..<s})" by (auto simp: inj_on_def)
  then show "distinct (map snd (moves c s b base))"
    by (simp add: moves_def distinct_map distinct_product comp_def case_prod_beta' lessThan_atLeast0)
qed

lemma Deinterleave_copies:
  assumes "layout il b d base (length m)"
  shows "Deinterleave il d m = Inr (copy_all (moves (ichannels il) (isamples il) b base) m)"
proof -
  have "\<exists>ch. channel d k = Inr ch \<and> take_channel il ch k 0 (isamples il) m' = Inr (copy_all (stride (ichannels il) b k (base k) 0 (isamples il)) m')"
    if "k < ichannels il" "length m' = length m" for k and m' :: "'a list"
  proof -
    from layout_channel [OF assms that(1)] obtain ch where
      ch: "channel d k = Inr ch" "view_at ch (base k) (isamples il) (length m)" by blast
    have "view_at (idata il) b (isamples il * ichannels il) (length m)" using assms by (simp add: layout_def)
    with ch that sample_index [of k "ichannels il" _ "isamples il"] show ?thesis
      by (auto intro!: take_channel_copies)
  qed
  then have "each_channel (\<lambda>i ch. take_channel il ch i 0 (isamples il)) d 0 (ichannels il) m =
      Inr (copy_all (concat (map (\<lambda>k. stride (ichannels il) b k (base k) 0 (isamples il)) [0 ..< 0 + ichannels il])) m)"
    by (intro each_channel_copies) simp
  then show ?thesis using assms by (simp add: Deinterleave_def layout_def moves_strides)
qed

lemma Interleave_copies:
  assumes "layout il b d base (length m)"
  shows "Interleave d il m = Inr (copy_all (swapped (moves (ichannels il) (isamples il) b base)) m)"
proof -
  have "\<exists>ch. channel d k = Inr ch \<and>
      put_channel il ch k 0 (isamples il) m' = Inr (copy_all (swapped (stride (ichannels il) b k (base k) 0 (isamples il))) m')"
    if "k < ichannels il" "length m' = length m" for k and m' :: "'a list"
  proof -
    from layout_channel [OF assms that(1)] obtain ch where
      ch: "channel d k = Inr ch" "view_at ch (base k) (isamples il) (length m)" by blast
    have "view_at (idata il) b (isamples il * ichannels il) (length m)" using assms by (simp add: layout_def)
    with ch that sample_index [of k "ichannels il" _ "isamples il"] show ?thesis
      by (auto intro!: put_channel_copies)
  qed
  then have "each_channel (\<lambda>i ch. put_channel il ch i 0 (isamples il)) d 0 (ichannels il) m =
      Inr (copy_all (concat (map (\<lambda>k. swapped (stride (ichannels il) b k (base k) 0 (isamples il))) [0 ..< 0 + ichannels il])) m)"
    by (intro each_channel_copies) simp
  then show ?thesis using assms by (simp add: Interleave_def layout_def moves_strides swapped_concat)
qed

text \<open>
  C31. Separating interleaved audio puts sample \<open>j\<close> of channel \<open>k\<close> at position \<open>j\<close> of that channel's buffer, interleaving puts it
  back, and each changes nothing but its target; so separating the channels of one buffer and interleaving them into
  another one copies it, sample by sample, for every number of channels and samples, provided the buffers do not overlap.
\<close>

theorem interleave_roundtrip:
  assumes l: "layout il b d base (length m)"
  defines "c \<equiv> ichannels il" and "s \<equiv> isamples il"
  shows "\<exists>m1. Deinterleave il d m = Inr m1 \<and> length m1 = length m
      \<and> (\<forall>k < c. \<forall>j < s. m1 ! (base k + j) = m ! (b + k + j * c))
      \<and> (\<forall>x. \<not> in_channels c s base x \<longrightarrow> m1 ! x = m ! x)
      \<and> (\<forall>il2 b2. layout il2 b2 d base (length m) \<longrightarrow>
          (\<exists>m2. Interleave d il2 m1 = Inr m2 \<and> (\<forall>i < s * c. m2 ! (b2 + i) = m ! (b + i))
            \<and> (\<forall>x. x < b2 \<or> b2 + s * c \<le> x \<longrightarrow> m2 ! x = m1 ! x)))"
proof -
  note f = moves_facts [OF l refl refl, folded c_def s_def]
  define m1 where "m1 = copy_all (moves c s b base) m"
  have d1: "Deinterleave il d m = Inr m1" "length m1 = length m"
    using Deinterleave_copies [OF l] by (simp_all add: m1_def c_def s_def)
  have pair: "(b0 + k + j * c, base k + j) \<in> set (moves c s b0 base)" if "k < c" "j < s" for b0 k j
    using that by (force simp: set_moves)
  have chan: "m1 ! (base k + j) = m ! (b + k + j * c)" if "k < c" "j < s" for k j
    unfolding m1_def by (rule copy_all_moves [OF f(2,3,7) pair [OF that]])
  have other: "m1 ! x = m ! x" if "\<not> in_channels c s base x" for x
    unfolding m1_def by (rule copy_all_other) (use that f(6) in blast)
  have again: "\<exists>m2. Interleave d il2 m1 = Inr m2 \<and> (\<forall>i < s * c. m2 ! (b2 + i) = m ! (b + i))
      \<and> (\<forall>x. x < b2 \<or> b2 + s * c \<le> x \<longrightarrow> m2 ! x = m1 ! x)" if l2: "layout il2 b2 d base (length m)" for il2 b2
  proof -
    have cs: "c = ichannels il2" "s = isamples il2" using l l2 by (simp_all add: layout_def c_def s_def)
    note g = moves_facts [OF l2 cs]
    let ?m2 = "copy_all (swapped (moves c s b2 base)) m1"
    have i2: "Interleave d il2 m1 = Inr ?m2" using Interleave_copies [of il2 b2 d base m1] l2 d1(2) cs by simp
    have "?m2 ! (b2 + i) = m ! (b + i)" if i: "i < s * c" for i
    proof -
      have c0: "0 < c" using i by (cases c) auto
      define k j where "k = i mod c" and "j = i div c"
      have kj: "k < c" "j < s" "i = k + j * c" using i c0 by (simp_all add: k_def j_def less_mult_imp_div_less)
      have "?m2 ! (b2 + k + j * c) = m1 ! (base k + j)"
        by (rule copy_all_moves) (use g pair [OF kj(1,2), of b2] d1(2) in \<open>auto simp: swapped_facts\<close>)
      with chan [OF kj(1,2)] kj(3) show ?thesis by (simp add: add.assoc)
    qed
    moreover have "?m2 ! x = m1 ! x" if "x < b2 \<or> b2 + s * c \<le> x" for x
      by (rule copy_all_other) (use that g(4) in auto)
    ultimately show ?thesis using i2 by blast
  qed
  show ?thesis using d1 chan other again by blast
qed

definition stereo :: "nat \<Rightarrow> interleaved" where
  "stereo p = \<lparr>ichannels = 2, isamples = 2, idata = \<lparr>vextent = Variable, vdata = Some p, vsize = 4\<rparr>\<rparr>"

lemma stereo_layout:
  assumes "p = 0 \<or> p = 8"
  shows "layout (stereo p) p (DeinterleavedView (Some 4) 2 2) (\<lambda>k. 4 + 2 * k) 12"
  using assms unfolding layout_def
  by (auto simp: stereo_def DeinterleavedView_def view_at_def apart_def channel_def pointer_add_def ArrayView_outcome less_2_cases_iff)

theorem interleave_roundtrip_witness:
  "\<exists>m1 m2. Deinterleave (stereo 0) (DeinterleavedView (Some 4) 2 2) [1, 2, 3, 4, 0, 0, 0, 0, 0, 0, 0, 0 :: int] = Inr m1 \<and> m1 ! 5 = 3 \<and>
     Interleave (DeinterleavedView (Some 4) 2 2) (stereo 8) m1 = Inr m2 \<and> m2 ! 10 = 3"
proof -
  define m where "m = [1, 2, 3, 4, 0, 0, 0, 0, 0, 0, 0, 0 :: int]"
  define d where "d = DeinterleavedView (Some 4) 2 2"
  have len: "length m = 12" by (simp add: m_def)
  have l: "layout (stereo 0) 0 d (\<lambda>k. 4 + 2 * k) (length m)" "layout (stereo 8) 8 d (\<lambda>k. 4 + 2 * k) (length m)"
    unfolding len d_def by (simp_all add: stereo_layout)
  have c: "ichannels (stereo p) = 2" "isamples (stereo p) = 2" for p by (simp_all add: stereo_def)
  from interleave_roundtrip [OF l(1), unfolded c] obtain m1 where
    m1: "Deinterleave (stereo 0) d m = Inr m1" "\<forall>k < 2. \<forall>j < 2. m1 ! (4 + 2 * k + j) = m ! (0 + k + j * 2)"
      "\<forall>il2 b2. layout il2 b2 d (\<lambda>k. 4 + 2 * k) (length m) \<longrightarrow>
        (\<exists>m2. Interleave d il2 m1 = Inr m2 \<and> (\<forall>i < 2 * 2. m2 ! (b2 + i) = m ! (0 + i))
          \<and> (\<forall>x. x < b2 \<or> b2 + 2 * 2 \<le> x \<longrightarrow> m2 ! x = m1 ! x))" by blast
  from m1(3) l(2) obtain m2 where m2: "Interleave d (stereo 8) m1 = Inr m2" "\<forall>i < 2 * 2. m2 ! (8 + i) = m ! (0 + i)" by blast
  have "m1 ! 5 = 3" using m1(2) [rule_format, of 0 1] by (simp add: m_def)
  moreover have "m2 ! 10 = 3" using m2(2) [rule_format, of 2] by (simp add: m_def)
  ultimately show ?thesis using m1(1) m2(1) unfolding m_def d_def by blast
qed

section \<open>Empty views\<close>

text \<open>
  Clearing or copying samples of a view that has none fails the index check in \<^verbatim>\<open>&view[0]\<close>, and so does clearing a
  view of separate channels that have no samples, although both have nothing to do; with samples they succeed.
\<close>

theorem empty_views_fail:
  "(vsize v = 0 \<longrightarrow> ClearSamples m v = Inl CheckFailed \<and> CopySamples m (Mono v) (Mono v) = Inl CheckFailed)
    \<and> (0 < dchannels d \<and> dsamples d = 0 \<and> ddata d = Coallocated (Some p) \<longrightarrow> de_Clear d m = Inl CheckFailed)
    \<and> (view_in m v \<and> 0 < vsize v \<longrightarrow> (\<exists>m'. ClearSamples m v = Inr m' \<and> shown m' v = replicate (vsize v) 0))"
proof (intro conjI impI)
  assume "view_in m v \<and> 0 < vsize v"
  then obtain i where i: "vdata v = Some i" "i + vsize v \<le> length m" "0 < vsize v" by (cases "vdata v") (auto simp: view_in_def view_wf_def)
  then show "\<exists>m'. ClearSamples m v = Inr m' \<and> shown m' v = replicate (vsize v) 0"
    by (simp add: ClearSamples_def element_index_def clear_memory_def shown_def)
next
  assume d: "0 < dchannels d \<and> dsamples d = 0 \<and> ddata d = Coallocated (Some p)"
  then obtain n where "dchannels d = Suc n" by (cases "dchannels d") auto
  with d show "de_Clear d m = Inl CheckFailed"
    by (simp add: de_Clear_def channel_def pointer_add_def ArrayView_outcome ClearSamples_def element_index_def)
qed (simp_all add: ClearSamples_def CopySamples_def element_index_def)

theorem empty_views_fail_witness:
  "ClearSamples [5 :: int] \<lparr>vextent = Variable, vdata = None, vsize = 0\<rparr> = Inl CheckFailed"
  using empty_views_fail [of "\<lparr>vextent = Variable, vdata = None, vsize = 0\<rparr>" "[5 :: int]"] by simp

section \<open>Downmixing\<close>

text \<open>
  One frame: the channels are added up in the intermediate type, whose range is \<open>lo\<close> to \<open>hi\<close>.
\<close>

fun sum_frame :: "int \<Rightarrow> int \<Rightarrow> int list \<Rightarrow> nat \<Rightarrow> nat \<Rightarrow> int \<Rightarrow> abort + int" where
  "sum_frame lo hi m p 0 acc = Inr acc"
| "sum_frame lo hi m p (Suc n) acc =
     bindE (load m p) (\<lambda>x. if lo \<le> acc + x \<and> acc + x \<le> hi then sum_frame lo hi m (Suc p) n (acc + x) else Inl SignedOverflow)"

fun downmix_frames :: "int \<Rightarrow> int \<Rightarrow> nat \<Rightarrow> nat \<Rightarrow> nat \<Rightarrow> nat \<Rightarrow> int list \<Rightarrow> abort + int list" where
  "downmix_frames lo hi c p q 0 m = Inr m"
| "downmix_frames lo hi c p q (Suc n) m =
     bindE (load m p) (\<lambda>x. bindE (sum_frame lo hi m (Suc p) (c - 1) x) (\<lambda>value.
       bindE (if q < length m then Inr (m[q := tdiv value (int c)]) else Inl OutOfBounds) (\<lambda>m.
         downmix_frames lo hi c (p + c) (Suc q) n m)))"

definition DownmixInterleavedToMonoImpl :: "int \<Rightarrow> int \<Rightarrow> nat \<Rightarrow> nat \<Rightarrow> int \<Rightarrow> nat \<Rightarrow> int list \<Rightarrow> abort + int list" where
  "DownmixInterleavedToMonoImpl lo hi interleaved num_frames num_channels deinterleaved m =
     check (num_channels > 0) (check (num_frames > 0)
       (downmix_frames lo hi (nat num_channels) interleaved deinterleaved num_frames m))"

lemma sum_frame_exact:
  assumes "p + n \<le> length m" and "\<And>i. p \<le> i \<Longrightarrow> i < p + n \<Longrightarrow> tlo \<le> m ! i \<and> m ! i \<le> thi" and "tlo \<le> 0" "0 \<le> thi"
    and "int j * tlo \<le> acc" "acc \<le> int j * thi" and "lo \<le> int (j + n) * tlo" "int (j + n) * thi \<le> hi"
  shows "sum_frame lo hi m p n acc = Inr (acc + sum_list (take n (drop p m))) \<and>
    int (j + n) * tlo \<le> acc + sum_list (take n (drop p m)) \<and> acc + sum_list (take n (drop p m)) \<le> int (j + n) * thi"
  using assms
proof (induction n arbitrary: p j acc)
  case (Suc n)
  have x: "tlo \<le> m ! p" "m ! p \<le> thi" using Suc.prems(2) [of p] by simp_all
  have acc: "int (Suc j) * tlo \<le> acc + m ! p" "acc + m ! p \<le> int (Suc j) * thi" using x Suc.prems(5,6) by (simp_all add: algebra_simps)
  have "int (j + Suc n) * tlo \<le> int (Suc j) * tlo" "int (Suc j) * thi \<le> int (j + Suc n) * thi"
    using Suc.prems(3,4) by (simp_all add: mult_right_mono_neg mult_right_mono)
  then have rng: "lo \<le> acc + m ! p" "acc + m ! p \<le> hi" using acc Suc.prems(7,8) by linarith+
  have d: "drop p m = m ! p # drop (Suc p) m" using Suc.prems(1) by (simp add: Cons_nth_drop_Suc)
  have "sum_frame lo hi m (Suc p) n (acc + m ! p) = Inr (acc + m ! p + sum_list (take n (drop (Suc p) m))) \<and>
      int (Suc j + n) * tlo \<le> acc + m ! p + sum_list (take n (drop (Suc p) m)) \<and>
      acc + m ! p + sum_list (take n (drop (Suc p) m)) \<le> int (Suc j + n) * thi"
    by (rule Suc.IH) (use Suc.prems acc in auto)
  with rng d Suc.prems(1) show ?case by (simp add: load_def add.assoc)
qed simp

lemma tdiv_between:
  assumes "int c * a \<le> v" "v \<le> int c * b" "a \<le> 0" "0 \<le> b" "0 < c"
  shows "a \<le> tdiv v (int c) \<and> tdiv v (int c) \<le> b"
proof (cases "0 \<le> v")
  case True
  then have "tdiv v (int c) = v div int c" using assms(5) by (cases "v = 0") (simp_all add: tdiv_def)
  moreover have "0 \<le> v div int c" "v div int c \<le> b"
    using True assms(2,5) by (simp_all add: pos_imp_zdiv_nonneg_iff) (metis div_le_mono nonzero_mult_div_cancel_left of_nat_0_eq_iff not_gr0 zdiv_mono1 of_nat_0_less_iff)
  ultimately show ?thesis using assms(3) by simp
next
  case False
  then have "tdiv v (int c) = - ((- v) div int c)" using assms(5) by (simp add: tdiv_def)
  moreover have "0 \<le> (- v) div int c" using False assms(5) by (simp add: pos_imp_zdiv_nonneg_iff)
  moreover have "(- v) div int c \<le> - a"
  proof -
    have "(- v) div int c \<le> (int c * - a) div int c" using assms(1,5) by (intro zdiv_mono1) simp_all
    also have "\<dots> = - a" by (rule nonzero_mult_div_cancel_left) (use assms(5) in simp)
    finally show ?thesis .
  qed
  ultimately show ?thesis using assms(4) by simp
qed

definition frame_sum :: "int list \<Rightarrow> nat \<Rightarrow> nat \<Rightarrow> nat \<Rightarrow> int" where
  "frame_sum m p c k = sum_list (take c (drop (p + k * c) m))"

lemma downmix_frames_exact:
  assumes c: "0 < c" and r: "tlo \<le> 0" "0 \<le> thi" "lo \<le> int c * tlo" "int c * thi \<le> hi"
    and "p + n * c \<le> length m" "q + n \<le> length m" "q \<le> p \<or> p + n * c \<le> q"
    and "\<And>i. p \<le> i \<Longrightarrow> i < p + n * c \<Longrightarrow> tlo \<le> m ! i \<and> m ! i \<le> thi"
  shows "\<exists>m'. downmix_frames lo hi c p q n m = Inr m' \<and> length m' = length m \<and>
    (\<forall>k < n. m' ! (q + k) = tdiv (frame_sum m p c k) (int c) \<and> tlo \<le> m' ! (q + k) \<and> m' ! (q + k) \<le> thi) \<and>
    (\<forall>x. x < q \<or> q + n \<le> x \<longrightarrow> m' ! x = m ! x)"
  using assms(6-)
proof (induction n arbitrary: p q m)
  case (Suc n)
  have pl: "p < length m" "p + c \<le> length m" using Suc.prems(1) c by auto
  have d: "take c (drop p m) = m ! p # take (c - 1) (drop (Suc p) m)" using pl c by (cases c) (simp_all add: Cons_nth_drop_Suc [symmetric])
  let ?v = "frame_sum m p c 0"
  have v: "?v = m ! p + sum_list (take (c - 1) (drop (Suc p) m))" using d by (simp add: frame_sum_def)
  have "sum_frame lo hi m (Suc p) (c - 1) (m ! p) = Inr ?v \<and> int (1 + (c - 1)) * tlo \<le> ?v \<and> ?v \<le> int (1 + (c - 1)) * thi"
    unfolding v by (rule sum_frame_exact) (use Suc.prems(4) pl r c in auto)
  then have sf: "sum_frame lo hi m (Suc p) (c - 1) (m ! p) = Inr ?v" "int c * tlo \<le> ?v" "?v \<le> int c * thi" using c by simp_all
  define m1 where "m1 = m[q := tdiv ?v (int c)]"
  have away: "m1 ! i = m ! i" if "p + c \<le> i" "i < p + c + n * c" for i
    using that Suc.prems(3) c by (auto simp: m1_def)
  have "\<exists>m'. downmix_frames lo hi c (p + c) (Suc q) n m1 = Inr m' \<and> length m' = length m1 \<and>
      (\<forall>k < n. m' ! (Suc q + k) = tdiv (frame_sum m1 (p + c) c k) (int c) \<and> tlo \<le> m' ! (Suc q + k) \<and> m' ! (Suc q + k) \<le> thi) \<and>
      (\<forall>x. x < Suc q \<or> Suc q + n \<le> x \<longrightarrow> m' ! x = m1 ! x)"
    by (rule Suc.IH) (use Suc.prems away c in \<open>auto simp: m1_def\<close>)
  then obtain m' where m': "downmix_frames lo hi c (p + c) (Suc q) n m1 = Inr m'" "length m' = length m1"
    "\<And>k. k < n \<Longrightarrow> m' ! (Suc q + k) = tdiv (frame_sum m1 (p + c) c k) (int c) \<and> tlo \<le> m' ! (Suc q + k) \<and> m' ! (Suc q + k) \<le> thi"
    "\<And>x. x < Suc q \<or> Suc q + n \<le> x \<Longrightarrow> m' ! x = m1 ! x" by blast
  have same: "frame_sum m1 (p + c) c k = frame_sum m p c (Suc k)" if "k < n" for k
  proof -
    have "k * c + c \<le> n * c" using that by (metis add.commute mult_Suc mult_le_mono1 Suc_leI)
    then have "take c (drop (p + c + k * c) m1) = take c (drop (p + c + k * c) m)"
      using away Suc.prems(1) by (intro nth_equalityI) (auto simp: m1_def)
    then show ?thesis by (simp add: frame_sum_def add_ac)
  qed
  have first: "m' ! q = tdiv ?v (int c)" using m'(4) [of q] Suc.prems(2) by (simp add: m1_def)
  have run: "downmix_frames lo hi c p q (Suc n) m = Inr m'"
    using m'(1) pl sf(1) Suc.prems(2) by (simp add: load_def m1_def)
  have "m' ! (q + k) = tdiv (frame_sum m p c k) (int c) \<and> tlo \<le> m' ! (q + k) \<and> m' ! (q + k) \<le> thi" if "k < Suc n" for k
  proof (cases k)
    case 0
    with first tdiv_between [OF sf(2,3) r(1,2) c] show ?thesis by simp
  next
    case (Suc j)
    with that m'(3) [of j] same [of j] show ?thesis by simp
  qed
  moreover have "m' ! x = m ! x" if "x < q \<or> q + Suc n \<le> x" for x using m'(4) [of x] that by (auto simp: m1_def)
  moreover have "length m' = length m" using m'(2) by (simp add: m1_def)
  ultimately show ?case using run by blast
qed simp

text \<open>
  Downmixing replaces each frame by the average of its channels, rounded toward zero, also in place (the target
  at or before the source); the sums stay within the intermediate type and the averages within the sample type, if \<open>c\<close> times the range of
  the sample type fits the intermediate one. Nothing but the target changes.
\<close>

theorem downmix_averages:
  assumes "0 < c" and "0 < n" and "tlo \<le> 0" "0 \<le> thi" "lo \<le> int c * tlo" "int c * thi \<le> hi"
    and "p + n * c \<le> length m" "q + n \<le> length m" "q \<le> p \<or> p + n * c \<le> q"
    and "\<forall>i \<in> {p ..< p + n * c}. tlo \<le> m ! i \<and> m ! i \<le> thi"
  shows "\<exists>m'. DownmixInterleavedToMonoImpl lo hi p n (int c) q m = Inr m' \<and> length m' = length m \<and>
    (\<forall>k < n. m' ! (q + k) = tdiv (frame_sum m p c k) (int c) \<and> tlo \<le> m' ! (q + k) \<and> m' ! (q + k) \<le> thi) \<and>
    (\<forall>x. x < q \<or> q + n \<le> x \<longrightarrow> m' ! x = m ! x)"
  using downmix_frames_exact [of c tlo thi lo hi p n m q] assms by (simp add: DownmixInterleavedToMonoImpl_def)

theorem downmix_averages_witness:
  "\<exists>m'. DownmixInterleavedToMonoImpl (- (2 ^ 31)) (2 ^ 31 - 1) 0 2 2 0 [7, -2, 5, 6] = Inr m' \<and> m' ! 0 = 2 \<and> m' ! 1 = 5"
proof -
  have "\<forall>i \<in> {0 ..< 0 + 2 * 2}. - (2 ^ 15) \<le> [7, -2, 5, 6 :: int] ! i \<and> [7, -2, 5, 6 :: int] ! i \<le> 2 ^ 15 - 1"
    by (simp add: atLeast0_lessThan_Suc numeral_eq_Suc)
  from downmix_averages [of 2 2 "- (2 ^ 15)" "2 ^ 15 - 1" "- (2 ^ 31)" "2 ^ 31 - 1" 0 "[7, -2, 5, 6]" 0, OF _ _ _ _ _ _ _ _ _ this]
  obtain m' where m': "DownmixInterleavedToMonoImpl (- (2 ^ 31)) (2 ^ 31 - 1) 0 2 2 0 [7, -2, 5, 6] = Inr m'"
    "\<forall>k < 2. m' ! (0 + k) = tdiv (frame_sum [7, -2, 5, 6] 0 2 k) 2" by auto
  have "m' ! 0 = 2" "m' ! 1 = 5" using m'(2) [rule_format, of 0] m'(2) [rule_format, of 1] by (simp_all add: frame_sum_def tdiv_def numeral_2_eq_2)
  with m'(1) show ?thesis by blast
qed

section \<open>Conversion of samples\<close>

definition S16ToFloat :: "int \<Rightarrow> rat" where
  "S16ToFloat v = of_int v * (1 / 32768)"

text \<open>A conversion to an integer drops the fraction.\<close>

definition to_integer :: "rat \<Rightarrow> int" where
  "to_integer v = (if 0 \<le> v then \<lfloor>v\<rfloor> else \<lceil>v\<rceil>)"

definition FloatS16ToS16 :: "rat \<Rightarrow> int" where
  "FloatS16ToS16 v = (let v = max (min v 32767) (- 32768) in to_integer (v + (if v < 0 then - 1 / 2 else 1 / 2)))"

definition FloatToS16 :: "rat \<Rightarrow> int" where
  "FloatToS16 v = (let v = max (min (v * 32768) 32767) (- 32768) in to_integer (v + (if v < 0 then - 1 / 2 else 1 / 2)))"

definition FloatToFloatS16 :: "rat \<Rightarrow> rat" where
  "FloatToFloatS16 v = max (min v 1) (- 1) * 32768"

definition FloatS16ToFloat :: "rat \<Rightarrow> rat" where
  "FloatS16ToFloat v = max (min v 32768) (- 32768) * (1 / 32768)"

lemma round_away:
  assumes "- 32768 \<le> v" "v \<le> 32767"
  defines "r \<equiv> to_integer (v + (if v < 0 then - 1 / 2 else 1 / 2))"
  shows "- 32768 \<le> r \<and> r \<le> 32767 \<and> \<bar>of_int r - v\<bar> \<le> 1 / 2"
proof (cases "v < 0")
  case True
  then have r: "r = \<lceil>v - 1 / 2\<rceil>" by (simp add: r_def to_integer_def)
  have "of_int r - 1 < v - 1 / 2" "v - 1 / 2 \<le> of_int r" unfolding r by (simp_all add: ceiling_correct)
  moreover have "of_int r < (of_int 1 :: rat)" "of_int (- 32769) < (of_int r :: rat)" using calculation True assms(1) by simp_all
  then have "r < 1" "- 32769 < r" by (simp_all only: of_int_less_iff)
  moreover have "\<bar>of_int r - v\<bar> \<le> 1 / 2" using calculation by (intro abs_leI) linarith+
  ultimately show ?thesis by simp
next
  case False
  then have r: "r = \<lfloor>v + 1 / 2\<rfloor>" by (simp add: r_def to_integer_def)
  have "of_int r \<le> v + 1 / 2" "v + 1 / 2 < of_int r + 1" unfolding r using floor_correct [of "v + 1 / 2"] by simp_all
  moreover have "of_int r < (of_int 32768 :: rat)" "of_int (- 1) < (of_int r :: rat)" using calculation False assms(2) by simp_all
  then have "r < 32768" "- 1 < r" by (simp_all only: of_int_less_iff)
  moreover have "\<bar>of_int r - v\<bar> \<le> 1 / 2" using calculation by (intro abs_leI) linarith+
  ultimately show ?thesis by simp
qed

text \<open>
  Conversion of a 16-bit sample to a float and back is exact, in both scalings; the conversions to 16 bits always
  give a value of 16 bits, the nearest one for a value in range; and the two float scalings are inverse to each other up to clipping.
\<close>

theorem sample_conversions:
  "(- 32768 \<le> x \<and> x \<le> 32767 \<longrightarrow> FloatToS16 (S16ToFloat x) = x \<and> FloatS16ToS16 (of_int x) = x)
    \<and> - 32768 \<le> FloatS16ToS16 v \<and> FloatS16ToS16 v \<le> 32767
    \<and> (- 32768 \<le> v \<and> v \<le> 32767 \<longrightarrow> \<bar>of_int (FloatS16ToS16 v) - v\<bar> \<le> 1 / 2)
    \<and> FloatToS16 v = FloatS16ToS16 (v * 32768) \<and> FloatS16ToFloat (FloatToFloatS16 v) = max (min v 1) (- 1)"
proof -
  have near: "y = x" if "\<bar>of_int y - (of_int x :: rat)\<bar> \<le> 1 / 2" for x y :: int
  proof -
    have "\<bar>of_int (y - x) :: rat\<bar> \<le> 1 / 2" using that by simp
    then have "of_int \<bar>y - x\<bar> < (1 :: rat)" by simp
    then show ?thesis by (simp only: of_int_less_1_iff)
  qed
  have scale: "FloatToS16 v = FloatS16ToS16 (v * 32768)" for v by (simp add: FloatToS16_def FloatS16ToS16_def)
  have b: "- 32768 \<le> FloatS16ToS16 v \<and> FloatS16ToS16 v \<le> 32767
      \<and> \<bar>of_int (FloatS16ToS16 v) - max (min v 32767) (- 32768)\<bar> \<le> 1 / 2" for v
    unfolding FloatS16ToS16_def Let_def by (rule round_away) simp_all
  have exact: "FloatS16ToS16 (of_int x) = x" if "- 32768 \<le> x \<and> x \<le> 32767" for x
  proof -
    have "max (min (of_int x) 32767) (- 32768) = (of_int x :: rat)"
      using that by (metis max.absorb1 min.absorb1 of_int_le_iff of_int_minus of_int_numeral)
    with b [of "of_int x"] show ?thesis by (intro near) simp
  qed
  have "\<bar>of_int (FloatS16ToS16 v) - v\<bar> \<le> 1 / 2" if "- 32768 \<le> v \<and> v \<le> 32767" 
  proof -
    have "max (min v 32767) (- 32768) = v" using that by simp
    then show ?thesis using b [of v] by simp
  qed
  moreover have "FloatS16ToFloat (FloatToFloatS16 v) = max (min v 1) (- 1)"
    by (auto simp: FloatS16ToFloat_def FloatToFloatS16_def min_def max_def)
  ultimately show ?thesis using b scale exact by (auto simp: S16ToFloat_def)
qed

theorem sample_conversions_witness: "FloatToS16 (S16ToFloat (- 32768)) = - 32768"
  using sample_conversions [of "- 32768" 0] by simp

end
