(* ===== verification/Session_Description.thy ===== *)
theory Session_Description
  imports Prelude
begin

text \<open>
  The inline code of \<^verbatim>\<open>media/base/stream_params.h\<close> and \<^verbatim>\<open>pc/session_description.h\<close>: streams and their SSRCs,
  selecting and removing streams, the media sections of a session description with their codecs and streams, and
  the setting for mixed header extensions, which exists per session and per section. What the headers only declare
  (comparison of SSRC group semantics, adding a secondary SSRC, the names of protocols, feedback parameters) is a parameter.
\<close>

section \<open>Streams\<close>

type_synonym ssrc = u32

record SsrcGroup =
  semantics :: string
  group_ssrcs :: "ssrc list"

record StreamParams =
  sp_id :: string
  ssrcs :: "ssrc list"
  ssrc_groups :: "SsrcGroup list"
  cname :: string

definition StreamParams_empty :: StreamParams where
  "StreamParams_empty = \<lparr>sp_id = [], ssrcs = [], ssrc_groups = [], cname = []\<rparr>"

definition CreateLegacy :: "ssrc \<Rightarrow> StreamParams" where
  "CreateLegacy x = StreamParams_empty\<lparr>ssrcs := ssrcs StreamParams_empty @ [x]\<rparr>"

definition first_ssrc :: "StreamParams \<Rightarrow> ssrc" where
  "first_ssrc sp = (if ssrcs sp = [] then 0 else ssrcs sp ! 0)"

definition has_ssrcs :: "StreamParams \<Rightarrow> bool" where
  "has_ssrcs sp \<longleftrightarrow> ssrcs sp \<noteq> []"

definition has_ssrc :: "StreamParams \<Rightarrow> ssrc \<Rightarrow> bool" where
  "has_ssrc sp x \<longleftrightarrow> x \<in> set (ssrcs sp)"

definition add_ssrc :: "ssrc \<Rightarrow> StreamParams \<Rightarrow> StreamParams" where
  "add_ssrc x sp = sp\<lparr>ssrcs := ssrcs sp @ [x]\<rparr>"

definition has_ssrc_groups :: "StreamParams \<Rightarrow> bool" where
  "has_ssrc_groups sp \<longleftrightarrow> ssrc_groups sp \<noteq> []"

text \<open>\<open>has_semantics\<close> is \<^verbatim>\<open>SsrcGroup::has_semantics\<close>.\<close>

definition get_ssrc_group :: "(SsrcGroup \<Rightarrow> string \<Rightarrow> bool) \<Rightarrow> StreamParams \<Rightarrow> string \<Rightarrow> SsrcGroup option" where
  "get_ssrc_group has_semantics sp sem = find (\<lambda>g. has_semantics g sem) (ssrc_groups sp)"

definition has_ssrc_group :: "(SsrcGroup \<Rightarrow> string \<Rightarrow> bool) \<Rightarrow> StreamParams \<Rightarrow> string \<Rightarrow> bool" where
  "has_ssrc_group has_semantics sp sem \<longleftrightarrow> get_ssrc_group has_semantics sp sem \<noteq> None"

record StreamSelector =
  sel_ssrc :: ssrc
  sel_streamid :: string

definition StreamSelector_ssrc :: "ssrc \<Rightarrow> StreamSelector" where
  "StreamSelector_ssrc x = \<lparr>sel_ssrc = x, sel_streamid = []\<rparr>"

definition StreamSelector_id :: "string \<Rightarrow> StreamSelector" where
  "StreamSelector_id s = \<lparr>sel_ssrc = 0, sel_streamid = s\<rparr>"

definition Matches :: "StreamSelector \<Rightarrow> StreamParams \<Rightarrow> bool" where
  "Matches sel sp = (if sel_ssrc sel = 0 then sp_id sp = sel_streamid sel else has_ssrc sp (sel_ssrc sel))"

definition GetStream :: "StreamParams list \<Rightarrow> (StreamParams \<Rightarrow> bool) \<Rightarrow> StreamParams option" where
  "GetStream streams condition = find condition streams"

definition HasStreamWithNoSsrcs :: "StreamParams list \<Rightarrow> bool" where
  "HasStreamWithNoSsrcs streams \<longleftrightarrow> GetStream streams (\<lambda>sp. \<not> has_ssrcs sp) \<noteq> None"

definition GetStreamBySsrc :: "StreamParams list \<Rightarrow> ssrc \<Rightarrow> StreamParams option" where
  "GetStreamBySsrc streams x = GetStream streams (\<lambda>sp. has_ssrc sp x)"

definition GetStreamByIds :: "StreamParams list \<Rightarrow> string \<Rightarrow> StreamParams option" where
  "GetStreamByIds streams i = GetStream streams (\<lambda>sp. sp_id sp = i)"

definition GetStream_selector :: "StreamParams list \<Rightarrow> StreamSelector \<Rightarrow> StreamParams option" where
  "GetStream_selector streams sel = GetStream streams (Matches sel)"

text \<open>\<^verbatim>\<open>remove_if\<close> moves the other elements to the front; if that is all of them nothing is erased.\<close>

definition RemoveStream :: "StreamParams list \<Rightarrow> (StreamParams \<Rightarrow> bool) \<Rightarrow> bool \<times> StreamParams list" where
  "RemoveStream streams condition =
     (let kept = filter (\<lambda>sp. \<not> condition sp) streams
      in if length kept = length streams then (False, streams) else (True, kept))"

definition RemoveStream_selector :: "StreamParams list \<Rightarrow> StreamSelector \<Rightarrow> bool \<times> StreamParams list" where
  "RemoveStream_selector streams sel = RemoveStream streams (Matches sel)"

definition RemoveStreamBySsrc :: "StreamParams list \<Rightarrow> ssrc \<Rightarrow> bool \<times> StreamParams list" where
  "RemoveStreamBySsrc streams x = RemoveStream streams (\<lambda>sp. has_ssrc sp x)"

definition RemoveStreamByIds :: "StreamParams list \<Rightarrow> string \<Rightarrow> bool \<times> StreamParams list" where
  "RemoveStreamByIds streams i = RemoveStream streams (\<lambda>sp. sp_id sp = i)"

section \<open>Media sections\<close>

datatype ExtmapAllowMixed = kNo | kSession | kMedia
datatype RtcpFeedbackType = CCFB | TRANSPORT_CC
datatype MediaType = AUDIO | VIDEO | DATA | UNSUPPORTED

record sctp_part =
  use_sctpmap :: bool
  port :: int
  max_message_size :: int
  sctp_init :: "byte list option"

text \<open>The subclasses and what they add.\<close>

datatype media_kind = AudioKind | VideoKind | SctpKind sctp_part | UnsupportedKind string

text \<open>\<open>'f\<close> are the feedback parameters of a codec.\<close>

record 'f Codec =
  codec_id :: int
  feedback_params :: 'f

record 'f MediaContentDescription =
  mkind :: media_kind
  protocol :: string
  rtcp_fb_ack_ccfb :: bool
  send_streams :: "StreamParams list"
  extmap_allow_mixed_enum :: ExtmapAllowMixed
  codecs :: "'f Codec list"

definition new_description :: "media_kind \<Rightarrow> 'f MediaContentDescription" where
  "new_description k = \<lparr>mkind = k, protocol = [], rtcp_fb_ack_ccfb = False, send_streams = [], extmap_allow_mixed_enum = kMedia, codecs = []\<rparr>"

definition SctpDataContentDescription :: "'f MediaContentDescription" where
  "SctpDataContentDescription =
     new_description (SctpKind \<lparr>use_sctpmap = True, port = 5000, max_message_size = 64 * 1024, sctp_init = None\<rparr>)"

definition media_type :: "'f MediaContentDescription \<Rightarrow> MediaType" where
  "media_type d = (case mkind d of AudioKind \<Rightarrow> AUDIO | VideoKind \<Rightarrow> VIDEO | SctpKind s \<Rightarrow> DATA | UnsupportedKind t \<Rightarrow> UNSUPPORTED)"

text \<open>The casts: the description itself, or the null pointer.\<close>

definition as_audio :: "'f MediaContentDescription \<Rightarrow> 'f MediaContentDescription option" where
  "as_audio d = (case mkind d of AudioKind \<Rightarrow> Some d | _ \<Rightarrow> None)"

definition as_video :: "'f MediaContentDescription \<Rightarrow> 'f MediaContentDescription option" where
  "as_video d = (case mkind d of VideoKind \<Rightarrow> Some d | _ \<Rightarrow> None)"

definition as_sctp :: "'f MediaContentDescription \<Rightarrow> 'f MediaContentDescription option" where
  "as_sctp d = (case mkind d of SctpKind s \<Rightarrow> Some d | _ \<Rightarrow> None)"

definition as_unsupported :: "'f MediaContentDescription \<Rightarrow> 'f MediaContentDescription option" where
  "as_unsupported d = (case mkind d of UnsupportedKind t \<Rightarrow> Some d | _ \<Rightarrow> None)"

text \<open>\<open>is_rtp\<close> and \<open>is_sctp\<close> are \<^verbatim>\<open>IsRtpProtocol\<close> and \<^verbatim>\<open>IsSctpProtocol\<close>.\<close>

definition set_protocol :: "(string \<Rightarrow> bool) \<Rightarrow> (string \<Rightarrow> bool) \<Rightarrow> string \<Rightarrow> 'f MediaContentDescription \<Rightarrow> abort + 'f MediaContentDescription" where
  "set_protocol is_rtp is_sctp p d =
     (case mkind d of
        AudioKind \<Rightarrow> check (is_rtp p) (Inr (d\<lparr>protocol := p\<rparr>))
      | VideoKind \<Rightarrow> check (is_rtp p) (Inr (d\<lparr>protocol := p\<rparr>))
      | SctpKind s \<Rightarrow> check (is_sctp p) (Inr (d\<lparr>protocol := p\<rparr>))
      | UnsupportedKind t \<Rightarrow> Inr (d\<lparr>protocol := p\<rparr>))"

text \<open>\<open>has_cc\<close>: the feedback parameters contain that for transport-wide congestion control.\<close>

definition rtcp_fb_ack_transport_cc :: "('f \<Rightarrow> bool) \<Rightarrow> 'f MediaContentDescription \<Rightarrow> bool" where
  "rtcp_fb_ack_transport_cc has_cc d = list_ex (\<lambda>c. has_cc (feedback_params c)) (codecs d)"

definition preferred_rtcp_cc_ack_type :: "('f \<Rightarrow> bool) \<Rightarrow> 'f MediaContentDescription \<Rightarrow> RtcpFeedbackType option" where
  "preferred_rtcp_cc_ack_type has_cc d =
     (if rtcp_fb_ack_ccfb d then Some CCFB
      else if rtcp_fb_ack_transport_cc has_cc d then Some TRANSPORT_CC
      else None)"

definition AddStream :: "StreamParams \<Rightarrow> 'f MediaContentDescription \<Rightarrow> 'f MediaContentDescription" where
  "AddStream sp d = d\<lparr>send_streams := send_streams d @ [sp]\<rparr>"

definition AddLegacyStream :: "ssrc \<Rightarrow> 'f MediaContentDescription \<Rightarrow> 'f MediaContentDescription" where
  "AddLegacyStream x d = AddStream (CreateLegacy x) d"

text \<open>\<open>add_fid\<close> is \<^verbatim>\<open>StreamParams::AddFidSsrc\<close>, whose answer is ignored.\<close>

definition AddLegacyStream_fid ::
  "(ssrc \<Rightarrow> ssrc \<Rightarrow> StreamParams \<Rightarrow> StreamParams) \<Rightarrow> ssrc \<Rightarrow> ssrc \<Rightarrow> 'f MediaContentDescription \<Rightarrow> 'f MediaContentDescription" where
  "AddLegacyStream_fid add_fid x fid d = AddStream (add_fid x fid (CreateLegacy x)) d"

definition desc_first_ssrc :: "'f MediaContentDescription \<Rightarrow> ssrc" where
  "desc_first_ssrc d = (if send_streams d = [] then 0 else first_ssrc (send_streams d ! 0))"

definition desc_has_ssrcs :: "'f MediaContentDescription \<Rightarrow> bool" where
  "desc_has_ssrcs d = (if send_streams d = [] then False else has_ssrcs (send_streams d ! 0))"

definition set_extmap_allow_mixed_enum :: "ExtmapAllowMixed \<Rightarrow> 'f MediaContentDescription \<Rightarrow> 'f MediaContentDescription" where
  "set_extmap_allow_mixed_enum e d =
     (if e = kMedia \<and> extmap_allow_mixed_enum d = kSession then d else d\<lparr>extmap_allow_mixed_enum := e\<rparr>)"

definition desc_extmap_allow_mixed :: "'f MediaContentDescription \<Rightarrow> bool" where
  "desc_extmap_allow_mixed d \<longleftrightarrow> extmap_allow_mixed_enum d \<noteq> kNo"

definition has_codecs :: "'f MediaContentDescription \<Rightarrow> bool" where
  "has_codecs d = (case mkind d of SctpKind s \<Rightarrow> False | UnsupportedKind t \<Rightarrow> False | _ \<Rightarrow> codecs d \<noteq> [])"

definition HasCodec :: "int \<Rightarrow> 'f MediaContentDescription \<Rightarrow> bool" where
  "HasCodec i d \<longleftrightarrow> find (\<lambda>c. codec_id c = i) (codecs d) \<noteq> None"

definition AddCodec :: "'f Codec \<Rightarrow> 'f MediaContentDescription \<Rightarrow> 'f MediaContentDescription" where
  "AddCodec c d = d\<lparr>codecs := codecs d @ [c]\<rparr>"

text \<open>The loop that replaces the first codec of the same id: \<open>None\<close> if there is none.\<close>

fun replace_codec :: "'f Codec \<Rightarrow> 'f Codec list \<Rightarrow> 'f Codec list option" where
  "replace_codec c [] = None"
| "replace_codec c (x # xs) = (if codec_id x = codec_id c then Some (c # xs) else map_option ((#) x) (replace_codec c xs))"

definition AddOrReplaceCodec :: "'f Codec \<Rightarrow> 'f MediaContentDescription \<Rightarrow> 'f MediaContentDescription" where
  "AddOrReplaceCodec c d =
     (case replace_codec c (codecs d) of Some cs \<Rightarrow> d\<lparr>codecs := cs\<rparr> | None \<Rightarrow> AddCodec c d)"

fun AddCodecs :: "'f Codec list \<Rightarrow> 'f MediaContentDescription \<Rightarrow> 'f MediaContentDescription" where
  "AddCodecs [] d = d"
| "AddCodecs (c # cs) d = AddCodecs cs (AddCodec c d)"

section \<open>Sessions\<close>

datatype MediaProtocolType = kRtp | kSctp | kOther

record 'f ContentInfo =
  ctype :: MediaProtocolType
  rejected :: bool
  bundle_only :: bool
  mid :: string
  media_description :: "'f MediaContentDescription"

definition ContentInfo_init :: "MediaProtocolType \<Rightarrow> string \<Rightarrow> 'f MediaContentDescription \<Rightarrow> bool \<Rightarrow> bool \<Rightarrow> 'f ContentInfo" where
  "ContentInfo_init ty m d rej bundle = \<lparr>ctype = ty, rejected = rej, bundle_only = bundle, mid = m, media_description = d\<rparr>"

record 'f SessionDescription =
  contents :: "'f ContentInfo list"
  msid_signaling :: int
  extmap_allow_mixed :: bool

definition new_session :: "'f SessionDescription" where
  "new_session = \<lparr>contents = [], msid_signaling = 5, extmap_allow_mixed = True\<rparr>"

definition set_extmap_allow_mixed :: "bool \<Rightarrow> 'f SessionDescription \<Rightarrow> 'f SessionDescription" where
  "set_extmap_allow_mixed supported s =
     (let setting = (if supported then kSession else kNo);
          update = (\<lambda>c. if supported \<or> extmap_allow_mixed_enum (media_description c) \<noteq> kMedia
                        then c\<lparr>media_description := set_extmap_allow_mixed_enum setting (media_description c)\<rparr> else c)
      in s\<lparr>extmap_allow_mixed := supported, contents := map update (contents s)\<rparr>)"

section \<open>Selecting and removing streams\<close>

text \<open>What a removal does, in terms of any condition.\<close>

lemma RemoveStream_spec:
  "RemoveStream streams P = (list_ex P streams, filter (\<lambda>sp. \<not> P sp) streams)"
proof (cases "list_ex P streams")
  case True
  then have "length (filter (\<lambda>sp. \<not> P sp) streams) < length streams" by (auto simp: list_ex_iff intro: length_filter_less)
  with True show ?thesis by (simp add: RemoveStream_def)
next
  case False
  then have "filter (\<lambda>sp. \<not> P sp) streams = streams" by (auto simp: list_ex_iff filter_id_conv)
  with False show ?thesis by (simp add: RemoveStream_def)
qed

lemma find_None_filter: "find P (filter (\<lambda>x. \<not> P x) xs) = None"
  by (simp add: find_None_iff)

text \<open>
  Removing streams by a selector removes exactly the matching ones, keeps the others in order, answers whether a lookup by that selector would
  have found one, and afterwards none is found; the same holds for removal by SSRC and by id. A selector made from an SSRC finds what a lookup
  by that SSRC finds, except for the SSRC 0: that selector selects by the empty stream id instead.
\<close>

theorem stream_removal_exact:
  "(\<forall>sel. RemoveStream_selector streams sel = (GetStream_selector streams sel \<noteq> None, filter (\<lambda>sp. \<not> Matches sel sp) streams)
      \<and> GetStream_selector (snd (RemoveStream_selector streams sel)) sel = None)
    \<and> RemoveStreamBySsrc streams x = (GetStreamBySsrc streams x \<noteq> None, filter (\<lambda>sp. \<not> has_ssrc sp x) streams)
    \<and> RemoveStreamByIds streams i = (GetStreamByIds streams i \<noteq> None, filter (\<lambda>sp. sp_id sp \<noteq> i) streams)
    \<and> GetStream_selector streams (StreamSelector_ssrc x) = (if x = 0 then GetStreamByIds streams [] else GetStreamBySsrc streams x)
    \<and> GetStream_selector streams (StreamSelector_id i) = GetStreamByIds streams i"
proof -
  have f: "list_ex P xs \<longleftrightarrow> find P xs \<noteq> None" for P and xs :: "StreamParams list" by (auto simp: find_None_iff list_ex_iff)
  have m: "Matches (StreamSelector_ssrc x) = (if x = 0 then (\<lambda>sp. sp_id sp = []) else (\<lambda>sp. has_ssrc sp x))"
      "Matches (StreamSelector_id i) = (\<lambda>sp. sp_id sp = i)"
    by (simp_all add: fun_eq_iff Matches_def StreamSelector_ssrc_def StreamSelector_id_def)
  show ?thesis
    by (simp add: RemoveStream_selector_def RemoveStreamBySsrc_def RemoveStreamByIds_def RemoveStream_spec GetStream_selector_def GetStreamBySsrc_def
        GetStreamByIds_def GetStream_def find_None_filter f m)
qed

section \<open>The codec table\<close>

definition codec_of :: "'f MediaContentDescription \<Rightarrow> int \<Rightarrow> 'f Codec option" where
  "codec_of d i = find (\<lambda>c. codec_id c = i) (codecs d)"

lemma replace_codec_spec:
  "replace_codec c cs = None \<longleftrightarrow> codec_id c \<notin> codec_id ` set cs"
  "replace_codec c cs = Some cs' \<Longrightarrow> map codec_id cs' = map codec_id cs"
  "replace_codec c cs = Some cs' \<Longrightarrow> find (\<lambda>x. codec_id x = i) cs' = (if i = codec_id c then Some c else find (\<lambda>x. codec_id x = i) cs)"
  by (induction c cs arbitrary: cs' rule: replace_codec.induct) (auto split: if_splits)

lemma find_append: "find P (xs @ ys) = (case find P xs of None \<Rightarrow> find P ys | Some x \<Rightarrow> Some x)"
  by (induction xs) auto

lemma find_id_None: "find (\<lambda>c. codec_id c = i) cs = None \<longleftrightarrow> i \<notin> codec_id ` set cs"
  by (auto simp: find_None_iff)

text \<open>
  The codecs of a section are a table by payload type: \<^verbatim>\<open>AddOrReplaceCodec\<close> updates it at the id of the codec and nowhere else, keeps the ids
  and their order if the id is known and appends it otherwise, so ids stay distinct; \<^verbatim>\<open>AddCodecs\<close> appends, and a codec already there wins.
\<close>

theorem codec_table:
  "codec_of (AddOrReplaceCodec c d) = (codec_of d)(codec_id c := Some c)
    \<and> map codec_id (codecs (AddOrReplaceCodec c d)) = map codec_id (codecs d) @ (if HasCodec (codec_id c) d then [] else [codec_id c])
    \<and> (distinct (map codec_id (codecs d)) \<longrightarrow> distinct (map codec_id (codecs (AddOrReplaceCodec c d))))
    \<and> codec_of (AddCodecs cs d) i = (case codec_of d i of None \<Rightarrow> find (\<lambda>c. codec_id c = i) cs | Some x \<Rightarrow> Some x)"
proof -
  have add: "codecs (AddCodecs cs d) = codecs d @ cs" for cs by (induction cs arbitrary: d) (simp_all add: AddCodec_def)
  have ids: "map codec_id (codecs (AddOrReplaceCodec c d)) = map codec_id (codecs d) @ (if HasCodec (codec_id c) d then [] else [codec_id c])"
    using replace_codec_spec(1,2) [of c "codecs d"]
    by (cases "replace_codec c (codecs d)") (auto simp: AddOrReplaceCodec_def AddCodec_def HasCodec_def find_id_None)
  have "codec_of (AddOrReplaceCodec c d) k = ((codec_of d)(codec_id c := Some c)) k" for k
  proof (cases "replace_codec c (codecs d)")
    case None
    then have "find (\<lambda>x. codec_id x = codec_id c) (codecs d) = None" using replace_codec_spec(1) [of c] find_id_None by metis
    with None show ?thesis
      by (cases "k = codec_id c") (auto simp: AddOrReplaceCodec_def AddCodec_def codec_of_def find_append split: option.split)
  next
    case (Some cs')
    with replace_codec_spec(3) [OF Some] show ?thesis by (simp add: AddOrReplaceCodec_def codec_of_def)
  qed
  moreover have "distinct (map codec_id (codecs d)) \<Longrightarrow> distinct (map codec_id (codecs (AddOrReplaceCodec c d)))"
    unfolding ids by (auto simp: HasCodec_def find_id_None)
  ultimately show ?thesis using ids by (auto simp: codec_of_def add find_append)
qed

theorem codec_table_witness:
  "codec_of (AddOrReplaceCodec \<lparr>codec_id = 96, feedback_params = 7 :: int\<rparr> (AddCodec \<lparr>codec_id = 96, feedback_params = 1\<rparr> (new_description VideoKind))) 96 =
     Some \<lparr>codec_id = 96, feedback_params = 7\<rparr>"
  using codec_table [of "\<lparr>codec_id = 96, feedback_params = 7 :: int\<rparr>" "AddCodec \<lparr>codec_id = 96, feedback_params = 1\<rparr> (new_description VideoKind)" "[]" 96] by simp

section \<open>Mixed header extensions\<close>

definition section_level :: "nat \<Rightarrow> ExtmapAllowMixed \<Rightarrow> 'f SessionDescription \<Rightarrow> 'f SessionDescription" where
  "section_level i e s = s\<lparr>contents := (contents s)[i := (contents s ! i)\<lparr>media_description :=
     set_extmap_allow_mixed_enum e (media_description (contents s ! i))\<rparr>]\<rparr>"

definition level_of :: "'f SessionDescription \<Rightarrow> nat \<Rightarrow> ExtmapAllowMixed" where
  "level_of s i = extmap_allow_mixed_enum (media_description (contents s ! i))"

text \<open>
  Allowing mixed extensions for the session puts every section at session level, also one that had its own setting, and a section
  set at its own level afterwards stays at session level. Forbidding them turns off every section except those at their own level. So
  the setting of a section survives a session that forbids only if the session was not set to allow before: the result depends on the order.
\<close>

theorem extmap_levels:
  assumes "i < length (contents s)"
  shows "level_of (set_extmap_allow_mixed True s) i = kSession
    \<and> level_of (section_level i kMedia (set_extmap_allow_mixed True s)) i = kSession
    \<and> level_of (set_extmap_allow_mixed False s) i = (if level_of s i = kMedia then kMedia else kNo)
    \<and> level_of (set_extmap_allow_mixed False (section_level i kMedia (set_extmap_allow_mixed True s))) i = kNo
    \<and> (level_of s i \<noteq> kSession \<longrightarrow> level_of (set_extmap_allow_mixed False (section_level i kMedia s)) i = kMedia)"
  using assms by (auto simp: level_of_def section_level_def set_extmap_allow_mixed_def set_extmap_allow_mixed_enum_def Let_def)

definition one_section :: "int SessionDescription" where
  "one_section = new_session\<lparr>contents := [ContentInfo_init kRtp ''0'' (new_description AudioKind) False False]\<rparr>"

theorem extmap_levels_witness:
  "level_of (set_extmap_allow_mixed False one_section) 0 = kMedia
    \<and> level_of (set_extmap_allow_mixed False (section_level 0 kMedia (set_extmap_allow_mixed True one_section))) 0 = kNo"
  using extmap_levels [of 0 one_section]
  by (simp add: one_section_def new_session_def ContentInfo_init_def new_description_def level_of_def)

end
