(* ===== verification/Video_Headers.thy ===== *)
theory Video_Headers
  imports Array_View
begin

text \<open>
  Video metadata: \<^verbatim>\<open>vp9_globals.h\<close>, \<^verbatim>\<open>vp8_globals.h\<close>, \<^verbatim>\<open>h264_globals.h\<close>, \<^verbatim>\<open>common_constants.h\<close> and \<^verbatim>\<open>rtp_cvo.h\<close>: the rotation byte, the predefined
  temporal structures of VP9, their copying and comparison, and the headers of VP9, VP8 and H.264 frames. Arrays of the code are lists of
  the declared length, and an index outside them is an abort. Theorems: the structures let a receiver drop layers and switch up, comparison
  looks at exactly what the counts say is valid, what a copy does not carry over, and the rotation survives its byte.
\<close>

unbundle bit_operations_syntax

section \<open>Rotation\<close>

datatype VideoRotation = kVideoRotation_0 | kVideoRotation_90 | kVideoRotation_180 | kVideoRotation_270

fun ConvertVideoRotationToCVOByte :: "VideoRotation \<Rightarrow> u8" where
  "ConvertVideoRotationToCVOByte kVideoRotation_0 = 0"
| "ConvertVideoRotationToCVOByte kVideoRotation_90 = 1"
| "ConvertVideoRotationToCVOByte kVideoRotation_180 = 2"
| "ConvertVideoRotationToCVOByte kVideoRotation_270 = 3"

definition ConvertCVOByteToVideoRotation :: "u8 \<Rightarrow> abort + VideoRotation" where
  "ConvertCVOByteToVideoRotation cvo_byte =
     (let rotation_bits = cvo_byte AND 3 in
      if rotation_bits = 0 then Inr kVideoRotation_0 else if rotation_bits = 1 then Inr kVideoRotation_90
      else if rotation_bits = 2 then Inr kVideoRotation_180 else if rotation_bits = 3 then Inr kVideoRotation_270
      else Inl CheckFailed)"

text \<open>
  The rotation byte: reading back what was written gives the rotation, whatever the camera and flip bits above it hold; every byte is
  read as some rotation, decided by its two low bits, and writing that rotation gives those bits again.
\<close>

theorem rotation_roundtrip:
  "ConvertCVOByteToVideoRotation (ConvertVideoRotationToCVOByte v OR (b AND 252)) = Inr v
   \<and> (\<exists>w. ConvertCVOByteToVideoRotation b = Inr w \<and> ConvertVideoRotationToCVOByte w = b AND 3)"
proof -
  have m: "b AND 3 = 0 \<or> b AND 3 = 1 \<or> b AND 3 = 2 \<or> b AND 3 = 3"
  proof -
    have "b AND 3 = take_bit 2 b" by (simp add: take_bit_eq_mask mask_eq_exp_minus_1)
    then have "unat (b AND 3) < 4" using take_bit_nat_less_exp [of 2 "unat b"] by (simp add: unsigned_take_bit_eq)
    then have "unat (b AND 3) = 0 \<or> unat (b AND 3) = 1 \<or> unat (b AND 3) = 2 \<or> unat (b AND 3) = 3" by linarith
    then show ?thesis by (simp add: word_unat_eq_iff)
  qed
  have low: "(x OR (b AND 252)) AND 3 = x AND 3" for x :: u8 by (simp add: bit.conj_disj_distrib2 and.assoc)
  show ?thesis using m by (cases v) (auto simp: ConvertCVOByteToVideoRotation_def Let_def low low [of 0, simplified])
qed

section \<open>Groups of frames\<close>

definition kMaxVp9RefPics :: nat where
  "kMaxVp9RefPics = 3"

definition kMaxVp9FramesInGof :: nat where
  "kMaxVp9FramesInGof = 255"

definition kMaxVp9NumberOfSpatialLayers :: nat where
  "kMaxVp9NumberOfSpatialLayers = 8"

datatype TemporalStructureMode = kTemporalStructureMode1 | kTemporalStructureMode2 | kTemporalStructureMode3

record GofInfoVP9 =
  num_frames_in_gof :: nat
  temporal_idx :: "u8 list"
  temporal_up_switch :: "bool list"
  num_ref_pics :: "u8 list"
  pid_diff :: "u8 list list"
  pid_start :: u16

text \<open>The assignments for frame \<open>i\<close> with one reference.\<close>

definition set_frame :: "nat \<Rightarrow> u8 \<Rightarrow> u8 \<Rightarrow> GofInfoVP9 \<Rightarrow> GofInfoVP9" where
  "set_frame i tid diff g =
     g\<lparr>temporal_idx := (temporal_idx g)[i := tid], temporal_up_switch := (temporal_up_switch g)[i := True],
       num_ref_pics := (num_ref_pics g)[i := 1], pid_diff := (pid_diff g)[i := (pid_diff g ! i)[0 := diff]]\<rparr>"

definition SetGofInfoVP9 :: "TemporalStructureMode \<Rightarrow> GofInfoVP9 \<Rightarrow> GofInfoVP9" where
  "SetGofInfoVP9 tm g =
     (case tm of
        kTemporalStructureMode1 \<Rightarrow> set_frame 0 0 1 (g\<lparr>num_frames_in_gof := 1\<rparr>)
      | kTemporalStructureMode2 \<Rightarrow> set_frame 1 1 1 (set_frame 0 0 2 (g\<lparr>num_frames_in_gof := 2\<rparr>))
      | kTemporalStructureMode3 \<Rightarrow>
          set_frame 3 2 1 (set_frame 2 1 2 (set_frame 1 2 1 (set_frame 0 0 4 (g\<lparr>num_frames_in_gof := 4\<rparr>)))))"

definition store_at :: "'a list \<Rightarrow> nat \<Rightarrow> 'a \<Rightarrow> abort + 'a list" where
  "store_at m i x = (if i < length m then Inr (m[i := x]) else Inl OutOfBounds)"

text \<open>The inner loop of the copy: \<open>n\<close> references of frame \<open>i\<close> from \<open>r\<close> on.\<close>

fun copy_refs :: "GofInfoVP9 \<Rightarrow> nat \<Rightarrow> nat \<Rightarrow> nat \<Rightarrow> GofInfoVP9 \<Rightarrow> abort + GofInfoVP9" where
  "copy_refs src i r 0 g = Inr g"
| "copy_refs src i r (Suc n) g =
     bindE (load (pid_diff src) i) (\<lambda>row. bindE (load row r) (\<lambda>x.
     bindE (load (pid_diff g) i) (\<lambda>old. bindE (store_at old r x) (\<lambda>new. bindE (store_at (pid_diff g) i new) (\<lambda>d.
       copy_refs src i (Suc r) n (g\<lparr>pid_diff := d\<rparr>))))))"

definition copy_frame :: "GofInfoVP9 \<Rightarrow> nat \<Rightarrow> GofInfoVP9 \<Rightarrow> abort + GofInfoVP9" where
  "copy_frame src i g =
     bindE (load (temporal_idx src) i) (\<lambda>t. bindE (store_at (temporal_idx g) i t) (\<lambda>ts.
     bindE (load (temporal_up_switch src) i) (\<lambda>u. bindE (store_at (temporal_up_switch g) i u) (\<lambda>us.
     bindE (load (num_ref_pics src) i) (\<lambda>k. bindE (store_at (num_ref_pics g) i k) (\<lambda>ks.
       copy_refs src i 0 (unat k) (g\<lparr>temporal_idx := ts, temporal_up_switch := us, num_ref_pics := ks\<rparr>)))))))"

fun copy_frames :: "GofInfoVP9 \<Rightarrow> nat \<Rightarrow> nat \<Rightarrow> GofInfoVP9 \<Rightarrow> abort + GofInfoVP9" where
  "copy_frames src i 0 g = Inr g"
| "copy_frames src i (Suc n) g = bindE (copy_frame src i g) (copy_frames src (Suc i) n)"

definition CopyGofInfoVP9 :: "GofInfoVP9 \<Rightarrow> GofInfoVP9 \<Rightarrow> abort + GofInfoVP9" where
  "CopyGofInfoVP9 src g = copy_frames src 0 (num_frames_in_gof src) (g\<lparr>num_frames_in_gof := num_frames_in_gof src\<rparr>)"

fun refs_eq :: "GofInfoVP9 \<Rightarrow> GofInfoVP9 \<Rightarrow> nat \<Rightarrow> nat \<Rightarrow> nat \<Rightarrow> abort + bool" where
  "refs_eq a b i r 0 = Inr True"
| "refs_eq a b i r (Suc n) =
     bindE (load (pid_diff a) i) (\<lambda>ra. bindE (load ra r) (\<lambda>x. bindE (load (pid_diff b) i) (\<lambda>rb. bindE (load rb r) (\<lambda>y.
       if x \<noteq> y then Inr False else refs_eq a b i (Suc r) n))))"

fun frames_eq :: "GofInfoVP9 \<Rightarrow> GofInfoVP9 \<Rightarrow> nat \<Rightarrow> nat \<Rightarrow> abort + bool" where
  "frames_eq a b i 0 = Inr True"
| "frames_eq a b i (Suc n) =
     bindE (load (temporal_idx a) i) (\<lambda>ta. bindE (load (temporal_idx b) i) (\<lambda>tb.
     bindE (load (temporal_up_switch a) i) (\<lambda>ua. bindE (load (temporal_up_switch b) i) (\<lambda>ub.
     bindE (load (num_ref_pics a) i) (\<lambda>ka. bindE (load (num_ref_pics b) i) (\<lambda>kb.
       if ta \<noteq> tb \<or> ua \<noteq> ub \<or> ka \<noteq> kb then Inr False
       else bindE (refs_eq a b i 0 (unat ka)) (\<lambda>same. if \<not> same then Inr False else frames_eq a b (Suc i) n)))))))"

definition gof_eq :: "GofInfoVP9 \<Rightarrow> GofInfoVP9 \<Rightarrow> abort + bool" where
  "gof_eq a b =
     (if num_frames_in_gof a \<noteq> num_frames_in_gof b \<or> pid_start a \<noteq> pid_start b then Inr False
      else frames_eq a b 0 (num_frames_in_gof a))"

section \<open>What a group means\<close>

definition gof_wf :: "GofInfoVP9 \<Rightarrow> bool" where
  "gof_wf g \<longleftrightarrow> length (temporal_idx g) = 255 \<and> length (temporal_up_switch g) = 255 \<and> length (num_ref_pics g) = 255 \<and>
     length (pid_diff g) = 255 \<and> (\<forall>row \<in> set (pid_diff g). length row = 3) \<and> num_frames_in_gof g \<le> 255 \<and>
     (\<forall>i < num_frames_in_gof g. unat (num_ref_pics g ! i) \<le> 3)"

text \<open>The frames and references that the counts say are valid.\<close>

definition frame_same :: "GofInfoVP9 \<Rightarrow> GofInfoVP9 \<Rightarrow> nat \<Rightarrow> bool" where
  "frame_same a b i \<longleftrightarrow> temporal_idx a ! i = temporal_idx b ! i \<and> temporal_up_switch a ! i = temporal_up_switch b ! i \<and>
     num_ref_pics a ! i = num_ref_pics b ! i \<and> (\<forall>r < unat (num_ref_pics a ! i). pid_diff a ! i ! r = pid_diff b ! i ! r)"

definition gof_same :: "GofInfoVP9 \<Rightarrow> GofInfoVP9 \<Rightarrow> bool" where
  "gof_same a b \<longleftrightarrow> num_frames_in_gof a = num_frames_in_gof b \<and> pid_start a = pid_start b \<and> (\<forall>i < num_frames_in_gof a. frame_same a b i)"

lemma row_length: "gof_wf g \<Longrightarrow> i < 255 \<Longrightarrow> length (pid_diff g ! i) = 3"
  by (simp add: gof_wf_def)

lemma range_Suc: "(\<forall>k. i \<le> k \<and> k < i + Suc n \<longrightarrow> P k) \<longleftrightarrow> P i \<and> (\<forall>k. Suc i \<le> k \<and> k < Suc i + n \<longrightarrow> P k)" for i n :: nat
proof (intro iffI conjI allI impI)
  fix k
  assume "P i \<and> (\<forall>k. Suc i \<le> k \<and> k < Suc i + n \<longrightarrow> P k)" and "i \<le> k \<and> k < i + Suc n"
  then show "P k" by (cases "k = i") auto
qed auto

lemma refs_eq_spec:
  assumes "gof_wf a" "gof_wf b" "i < 255" "r + n \<le> 3"
  shows "refs_eq a b i r n = Inr (\<forall>k. r \<le> k \<and> k < r + n \<longrightarrow> pid_diff a ! i ! k = pid_diff b ! i ! k)"
  using assms(4)
proof (induction n arbitrary: r)
  case (Suc n)
  have l: "i < length (pid_diff a)" "i < length (pid_diff b)" "r < length (pid_diff a ! i)" "r < length (pid_diff b ! i)"
    using assms(1-3) Suc.prems row_length by (simp_all add: gof_wf_def)
  show ?case using range_Suc [of r n "\<lambda>k. pid_diff a ! i ! k = pid_diff b ! i ! k"] Suc.IH [of "Suc r"] Suc.prems l by (simp add: load_def)
qed auto

lemma stop_when:
  "(if \<not> c \<or> \<not> d \<or> \<not> e then Inr False else bindE (Inr p) (\<lambda>same. if \<not> same then Inr False else y)) =
   (if c \<and> d \<and> e \<and> p then y else Inr False)"
  by simp

lemma frames_eq_spec:
  assumes "gof_wf a" "gof_wf b" "num_frames_in_gof a = num_frames_in_gof b" "i + n \<le> num_frames_in_gof a"
  shows "frames_eq a b i n = Inr (\<forall>k. i \<le> k \<and> k < i + n \<longrightarrow> frame_same a b k)"
  using assms(4)
proof (induction n arbitrary: i)
  case (Suc n)
  have i: "i < 255" "i < num_frames_in_gof a" using assms(1) Suc.prems by (simp_all add: gof_wf_def)
  have l: "length (temporal_idx a) = 255" "length (temporal_idx b) = 255" "length (temporal_up_switch a) = 255"
    "length (temporal_up_switch b) = 255" "length (num_ref_pics a) = 255" "length (num_ref_pics b) = 255"
    using assms(1,2) by (simp_all add: gof_wf_def)
  have r: "refs_eq a b i 0 (unat (num_ref_pics a ! i)) = Inr (\<forall>k < unat (num_ref_pics a ! i). pid_diff a ! i ! k = pid_diff b ! i ! k)"
    using refs_eq_spec [OF assms(1,2) i(1), of 0] assms(1) i(2) by (simp add: gof_wf_def)
  have "frames_eq a b i (Suc n) =
      (if temporal_idx a ! i \<noteq> temporal_idx b ! i \<or> temporal_up_switch a ! i \<noteq> temporal_up_switch b ! i \<or> num_ref_pics a ! i \<noteq> num_ref_pics b ! i then Inr False
       else bindE (refs_eq a b i 0 (unat (num_ref_pics a ! i))) (\<lambda>same. if \<not> same then Inr False else frames_eq a b (Suc i) n))"
    using i(1) l by (simp only: frames_eq.simps load_def if_True bindE.simps)
  then have "frames_eq a b i (Suc n) = (if frame_same a b i then frames_eq a b (Suc i) n else Inr False)"
    unfolding r frame_same_def by (simp only: stop_when)
  moreover have "frames_eq a b (Suc i) n = Inr (\<forall>k. Suc i \<le> k \<and> k < Suc i + n \<longrightarrow> frame_same a b k)"
    by (rule Suc.IH) (use Suc.prems in simp)
  ultimately show ?case unfolding range_Suc by simp
qed auto

lemma gof_eq_spec: "gof_wf a \<Longrightarrow> gof_wf b \<Longrightarrow> gof_eq a b = Inr (gof_same a b)"
  by (auto simp: gof_eq_def gof_same_def frames_eq_spec)

section \<open>Copying\<close>

lemma copy_refs_spec:
  assumes src: "gof_wf src" and i: "i < 255" and g: "length (pid_diff g) = 255" "length (pid_diff g ! i) = 3" and n: "r + n \<le> 3"
  shows "copy_refs src i r n g =
    Inr (g\<lparr>pid_diff := (pid_diff g)[i := map (\<lambda>k. if r \<le> k \<and> k < r + n then pid_diff src ! i ! k else pid_diff g ! i ! k) [0 ..< 3]]\<rparr>)"
  using g n
proof (induction n arbitrary: r g)
  case 0
  have "map (\<lambda>k. pid_diff g ! i ! k) [0 ..< 3] = pid_diff g ! i" using 0(2) by (metis map_nth)
  moreover have "(\<lambda>k. if r \<le> k \<and> k < r + 0 then pid_diff src ! i ! k else pid_diff g ! i ! k) = (\<lambda>k. pid_diff g ! i ! k)"
    by (auto simp: fun_eq_iff)
  ultimately show ?case by (simp only: list_update_id copy_refs.simps) simp
next
  case (Suc n)
  have l: "i < length (pid_diff src)" "r < length (pid_diff src ! i)" using src i Suc.prems(3) row_length [OF src i] by (simp_all add: gof_wf_def)
  define h where "h = g\<lparr>pid_diff := (pid_diff g)[i := (pid_diff g ! i)[r := pid_diff src ! i ! r]]\<rparr>"
  have "copy_refs src i r (Suc n) g = copy_refs src i (Suc r) n h"
    using l i Suc.prems by (simp add: load_def store_at_def h_def)
  also have "\<dots> = Inr (h\<lparr>pid_diff := (pid_diff h)[i := map (\<lambda>k. if Suc r \<le> k \<and> k < Suc r + n then pid_diff src ! i ! k else pid_diff h ! i ! k) [0 ..< 3]]\<rparr>)"
    by (rule Suc.IH) (use Suc.prems i in \<open>simp_all add: h_def\<close>)
  also have "map (\<lambda>k. if Suc r \<le> k \<and> k < Suc r + n then pid_diff src ! i ! k else pid_diff h ! i ! k) [0 ..< 3] =
      map (\<lambda>k. if r \<le> k \<and> k < r + Suc n then pid_diff src ! i ! k else pid_diff g ! i ! k) [0 ..< 3]"
    using Suc.prems i by (auto simp: h_def nth_list_update)
  finally show ?case by (simp add: h_def)
qed

text \<open>Copying frame \<open>i\<close> makes it the same and leaves the other frames alone.\<close>

definition frames_kept :: "nat \<Rightarrow> GofInfoVP9 \<Rightarrow> GofInfoVP9 \<Rightarrow> bool" where
  "frames_kept i g h \<longleftrightarrow> (\<forall>k. k \<noteq> i \<longrightarrow> temporal_idx h ! k = temporal_idx g ! k \<and> temporal_up_switch h ! k = temporal_up_switch g ! k \<and>
     num_ref_pics h ! k = num_ref_pics g ! k \<and> pid_diff h ! k = pid_diff g ! k)"

definition arrays_wf :: "GofInfoVP9 \<Rightarrow> bool" where
  "arrays_wf g \<longleftrightarrow> length (temporal_idx g) = 255 \<and> length (temporal_up_switch g) = 255 \<and> length (num_ref_pics g) = 255 \<and>
     length (pid_diff g) = 255 \<and> (\<forall>k < 255. length (pid_diff g ! k) = 3)"

lemma gof_wf_arrays: "gof_wf g \<longleftrightarrow> arrays_wf g \<and> num_frames_in_gof g \<le> 255 \<and> (\<forall>i < num_frames_in_gof g. unat (num_ref_pics g ! i) \<le> 3)"
  by (auto simp: gof_wf_def arrays_wf_def all_set_conv_all_nth)

lemma copy_frame_law:
  assumes src: "gof_wf src" and i: "i < num_frames_in_gof src" and g: "arrays_wf g"
  shows "\<exists>h. copy_frame src i g = Inr h \<and> arrays_wf h \<and> frame_same src h i \<and> frames_kept i g h \<and>
    num_frames_in_gof h = num_frames_in_gof g \<and> pid_start h = pid_start g"
proof -
  have b: "i < 255" "unat (num_ref_pics src ! i) \<le> 3" using src i by (simp_all add: gof_wf_def)
  have s: "length (temporal_idx src) = 255" "length (temporal_up_switch src) = 255" "length (num_ref_pics src) = 255"
    using src by (simp_all add: gof_wf_def)
  have a: "length (temporal_idx g) = 255" "length (temporal_up_switch g) = 255" "length (num_ref_pics g) = 255" "length (pid_diff g) = 255"
    "length (pid_diff g ! i) = 3" using g b(1) by (simp_all add: arrays_wf_def)
  let ?h = "g\<lparr>temporal_idx := (temporal_idx g)[i := temporal_idx src ! i], temporal_up_switch := (temporal_up_switch g)[i := temporal_up_switch src ! i],
      num_ref_pics := (num_ref_pics g)[i := num_ref_pics src ! i]\<rparr>"
  let ?row = "map (\<lambda>k. if 0 \<le> k \<and> k < 0 + unat (num_ref_pics src ! i) then pid_diff src ! i ! k else pid_diff ?h ! i ! k) [0 ..< 3]"
  have "copy_refs src i 0 (unat (num_ref_pics src ! i)) ?h = Inr (?h\<lparr>pid_diff := (pid_diff ?h)[i := ?row]\<rparr>)"
    by (rule copy_refs_spec [OF src b(1)]) (use a b in simp_all)
  then have "copy_frame src i g = Inr (?h\<lparr>pid_diff := (pid_diff ?h)[i := ?row]\<rparr>)"
    using b s a by (simp add: copy_frame_def load_def store_at_def)
  moreover have "arrays_wf (?h\<lparr>pid_diff := (pid_diff ?h)[i := ?row]\<rparr>)" using g b(1) by (auto simp: arrays_wf_def nth_list_update)
  moreover have "frame_same src (?h\<lparr>pid_diff := (pid_diff ?h)[i := ?row]\<rparr>) i" using b a by (simp add: frame_same_def)
  ultimately show ?thesis by (auto simp: frames_kept_def)
qed

lemma frame_same_kept: "frame_same src g k \<Longrightarrow> frames_kept i g h \<Longrightarrow> k \<noteq> i \<Longrightarrow> frame_same src h k"
  by (auto simp: frame_same_def frames_kept_def)

lemma copy_frames_law:
  assumes src: "gof_wf src"
  shows "arrays_wf g \<Longrightarrow> i + n \<le> num_frames_in_gof src \<Longrightarrow> (\<forall>k < i. frame_same src g k) \<Longrightarrow>
    \<exists>h. copy_frames src i n g = Inr h \<and> arrays_wf h \<and> (\<forall>k < i + n. frame_same src h k) \<and>
      num_frames_in_gof h = num_frames_in_gof g \<and> pid_start h = pid_start g"
proof (induction n arbitrary: i g)
  case (Suc n)
  from copy_frame_law [OF src, of i g] Suc.prems obtain h where
    h: "copy_frame src i g = Inr h" "arrays_wf h" "frame_same src h i" "frames_kept i g h"
      "num_frames_in_gof h = num_frames_in_gof g" "pid_start h = pid_start g" by auto
  have "\<forall>k < Suc i. frame_same src h k" using h(3,4) Suc.prems(3) frame_same_kept less_Suc_eq by metis
  with Suc.IH [of h "Suc i"] h Suc.prems show ?case by auto
qed auto

text \<open>
  Copying a group of frames succeeds and copies every valid frame and reference, but not the start of the picture ids: after the
  copy the two compare equal if and only if that happened to be the same. Comparison itself is an equivalence relation which looks only
  at what the counts say is valid.
\<close>

theorem gof_copy_and_compare:
  assumes a: "gof_wf a" and b: "gof_wf b"
  shows "(\<exists>h. CopyGofInfoVP9 a b = Inr h \<and> gof_wf h \<and> (\<forall>i < num_frames_in_gof a. frame_same a h i) \<and>
      num_frames_in_gof h = num_frames_in_gof a \<and> pid_start h = pid_start b \<and> gof_eq a h = Inr (pid_start a = pid_start b))
    \<and> gof_eq a b = Inr (gof_same a b) \<and> gof_same a a \<and> (gof_same a b \<longrightarrow> gof_same b a)
    \<and> (\<forall>c. gof_same a b \<and> gof_same b c \<longrightarrow> gof_same a c)"
proof -
  have "arrays_wf (b\<lparr>num_frames_in_gof := num_frames_in_gof a\<rparr>)" using b by (simp add: gof_wf_arrays arrays_wf_def)
  from copy_frames_law [OF a this, of 0 "num_frames_in_gof a"] obtain h where
    h: "CopyGofInfoVP9 a b = Inr h" "arrays_wf h" "\<forall>i < num_frames_in_gof a. frame_same a h i"
      "num_frames_in_gof h = num_frames_in_gof a" "pid_start h = pid_start b" by (auto simp: CopyGofInfoVP9_def)
  have "unat (num_ref_pics h ! i) \<le> 3" if "i < num_frames_in_gof a" for i
    using a h(3) that by (metis frame_same_def gof_wf_arrays)
  then have wf: "gof_wf h" using a h by (simp add: gof_wf_arrays)
  have "gof_same a h \<longleftrightarrow> pid_start a = pid_start b" using h by (simp add: gof_same_def)
  moreover have "gof_same a a" by (simp add: gof_same_def frame_same_def)
  moreover have "gof_same b a" if "gof_same a b" using that by (simp add: gof_same_def frame_same_def)
  moreover have "gof_same a c" if "gof_same a b" "gof_same b c" for c using that by (simp add: gof_same_def frame_same_def)
  ultimately show ?thesis using h wf gof_eq_spec [OF a wf] gof_eq_spec [OF a b] by auto
qed

section \<open>The predefined temporal structures\<close>

text \<open>Picture \<open>n\<close> of a stream takes the entry \<open>n mod num_frames_in_gof\<close>; its reference lies \<open>pid_diff\<close> pictures back.\<close>

definition layer :: "GofInfoVP9 \<Rightarrow> nat \<Rightarrow> nat" where
  "layer g n = unat (temporal_idx g ! (n mod num_frames_in_gof g))"

text \<open>How many references picture \<open>n\<close> has, and how far back its \<open>j\<close>-th one lies.\<close>

definition ref_count :: "GofInfoVP9 \<Rightarrow> nat \<Rightarrow> nat" where
  "ref_count g n = unat (num_ref_pics g ! (n mod num_frames_in_gof g))"

definition ref_back :: "GofInfoVP9 \<Rightarrow> nat \<Rightarrow> nat \<Rightarrow> nat" where
  "ref_back g n j = unat (pid_diff g ! (n mod num_frames_in_gof g) ! j)"

definition up_switch :: "GofInfoVP9 \<Rightarrow> nat \<Rightarrow> bool" where
  "up_switch g n = temporal_up_switch g ! (n mod num_frames_in_gof g)"

definition layers_of :: "TemporalStructureMode \<Rightarrow> nat" where
  "layers_of tm = (case tm of kTemporalStructureMode1 \<Rightarrow> 1 | kTemporalStructureMode2 \<Rightarrow> 2 | kTemporalStructureMode3 \<Rightarrow> 3)"

lemma gof_tables:
  assumes "arrays_wf g"
  shows "layer (SetGofInfoVP9 kTemporalStructureMode1 g) n = 0" "ref_back (SetGofInfoVP9 kTemporalStructureMode1 g) n 0 = 1"
    "layer (SetGofInfoVP9 kTemporalStructureMode2 g) n = (if n mod 2 = 0 then 0 else 1)"
    "ref_back (SetGofInfoVP9 kTemporalStructureMode2 g) n 0 = (if n mod 2 = 0 then 2 else 1)"
    "layer (SetGofInfoVP9 kTemporalStructureMode3 g) n = (if n mod 4 = 0 then 0 else if n mod 4 = 2 then 1 else 2)"
    "ref_back (SetGofInfoVP9 kTemporalStructureMode3 g) n 0 = (if n mod 4 = 0 then 4 else if n mod 4 = 2 then 2 else 1)"
proof -
  have l: "length (temporal_idx g) = 255" "length (pid_diff g) = 255" "\<And>k. k < 255 \<Longrightarrow> length (pid_diff g ! k) = 3"
    using assms by (simp_all add: arrays_wf_def)
  have r: "length (pid_diff g ! 0) = 3" "length (pid_diff g ! Suc 0) = 3" "length (pid_diff g ! 2) = 3" "length (pid_diff g ! 3) = 3"
    using l(3) by simp_all
  show "layer (SetGofInfoVP9 kTemporalStructureMode1 g) n = 0" "ref_back (SetGofInfoVP9 kTemporalStructureMode1 g) n 0 = 1"
    using l r by (simp_all add: layer_def ref_back_def SetGofInfoVP9_def set_frame_def)
  have m2: "n mod 2 = 0 \<or> n mod 2 = Suc 0" by (simp add: mod2_eq_if)
  show "layer (SetGofInfoVP9 kTemporalStructureMode2 g) n = (if n mod 2 = 0 then 0 else 1)"
    "ref_back (SetGofInfoVP9 kTemporalStructureMode2 g) n 0 = (if n mod 2 = 0 then 2 else 1)"
    using l r m2 by (auto simp: layer_def ref_back_def SetGofInfoVP9_def set_frame_def nth_list_update)
  have "n mod 4 < 4" by simp
  then have m4: "n mod 4 = 0 \<or> n mod 4 = Suc 0 \<or> n mod 4 = 2 \<or> n mod 4 = 3" by linarith
  show "layer (SetGofInfoVP9 kTemporalStructureMode3 g) n = (if n mod 4 = 0 then 0 else if n mod 4 = 2 then 1 else 2)"
    "ref_back (SetGofInfoVP9 kTemporalStructureMode3 g) n 0 = (if n mod 4 = 0 then 4 else if n mod 4 = 2 then 2 else 1)"
    using l r m4 by (auto simp: layer_def ref_back_def SetGofInfoVP9_def set_frame_def nth_list_update)
qed

lemma up_switch_set:
  assumes "arrays_wf g"
  shows "up_switch (SetGofInfoVP9 tm g) n"
proof -
  have l: "length (temporal_up_switch g) = 255" using assms by (simp add: arrays_wf_def)
  have m2: "n mod 2 = 0 \<or> n mod 2 = Suc 0" by (simp add: mod2_eq_if)
  have "n mod 4 < 4" by simp
  then have m4: "n mod 4 = 0 \<or> n mod 4 = Suc 0 \<or> n mod 4 = 2 \<or> n mod 4 = 3" by linarith
  show ?thesis using l m2 m4 by (cases tm) (auto simp: up_switch_def SetGofInfoVP9_def set_frame_def nth_list_update)
qed

lemma ref_count_set:
  assumes "arrays_wf g"
  shows "ref_count (SetGofInfoVP9 tm g) n = 1"
proof -
  have l: "length (num_ref_pics g) = 255" using assms by (simp add: arrays_wf_def)
  have m2: "n mod 2 = 0 \<or> n mod 2 = Suc 0" by (simp add: mod2_eq_if)
  have "n mod 4 < 4" by simp
  then have m4: "n mod 4 = 0 \<or> n mod 4 = Suc 0 \<or> n mod 4 = 2 \<or> n mod 4 = 3" by linarith
  show ?thesis using l m2 m4 by (cases tm) (auto simp: ref_count_def SetGofInfoVP9_def set_frame_def nth_list_update)
qed

text \<open>Every layer of a structure has a picture in it.\<close>

lemma layers_inhabited:
  assumes "arrays_wf g" and "l < layers_of tm"
  shows "\<exists>k. layer (SetGofInfoVP9 tm g) k = l"
proof -
  have "l < 3" using assms(2) by (cases tm) (auto simp: layers_of_def)
  then consider "l = 0" | "l = 1" | "l = 2" by linarith
  then show ?thesis
  proof cases
    case 1
    then show ?thesis using gof_tables [OF assms(1), of 0] by (cases tm) auto
  next
    case 2
    then show ?thesis
      using gof_tables(3) [OF assms(1), of 1] gof_tables(5) [OF assms(1), of 2] assms(2) by (cases tm) (auto simp: layers_of_def)
  next
    case 3
    then show ?thesis using gof_tables(5) [OF assms(1), of 1] assms(2) by (cases tm) (auto simp: layers_of_def)
  qed
qed

text \<open>The one reference of a picture, where it is not before the start of the stream.\<close>

lemma first_reference:
  assumes g: "arrays_wf g" and e: "h = SetGofInfoVP9 tm g" and n: "ref_back h n 0 \<le> n"
  shows "0 < ref_back h n 0 \<and> layer h (n - ref_back h n 0) \<le> layer h n \<and> (0 < layer h n \<longrightarrow> layer h (n - ref_back h n 0) < layer h n)
    \<and> layer h n < layers_of tm
    \<and> up_switch h n
    \<and> (\<forall>c < n. up_switch h c \<and> layer h c < layer h n \<and> n - ref_back h n 0 < c \<longrightarrow> layer h (n - ref_back h n 0) \<le> layer h c)"
proof (cases tm)
  case kTemporalStructureMode1
  then show ?thesis using gof_tables [OF g] by (simp add: e layers_of_def up_switch_set [OF g])
next
  case kTemporalStructureMode2
  have m: "(n - 2) mod 2 = n mod 2" if "2 \<le> n" using that by (simp add: le_mod_geq)
  have o: "(n - 1) mod 2 = 0" if "n mod 2 \<noteq> 0" using that by presburger
  show ?thesis
  proof (cases "n mod 2 = 0")
    case True
    with kTemporalStructureMode2 m n show ?thesis by (auto simp: e gof_tables(3,4) [OF g] layers_of_def up_switch_set [OF g])
  next
    case False
    with kTemporalStructureMode2 o n show ?thesis by (auto simp: e gof_tables(3,4) [OF g] layers_of_def up_switch_set [OF g])
  qed
next
  case kTemporalStructureMode3
  have m: "(n - 4) mod 4 = n mod 4" if "4 \<le> n" using that by (simp add: le_mod_geq)
  have q: "n = 4 * (n div 4) + n mod 4" by simp
  have t: "(n - 2) mod 4 = 0" if "n mod 4 = 2"
  proof -
    have "n - 2 = 4 * (n div 4)" using that q by linarith
    then show ?thesis by simp
  qed
  have o: "(n - 1) mod 4 = 0 \<or> (n - 1) mod 4 = 2" if "n mod 4 \<noteq> 0" "n mod 4 \<noteq> 2"
  proof -
    have "n mod 4 < 4" by simp
    then have "n - 1 = 4 * (n div 4) \<or> n - 1 = 4 * (n div 4) + 2" using that q by linarith
    moreover have "(4 * k + 2) mod 4 = (2 :: nat)" "4 * k mod 4 = (0 :: nat)" for k by presburger+
    ultimately show ?thesis by metis
  qed
  consider "n mod 4 = 0" | "n mod 4 = 2" | "n mod 4 \<noteq> 0" "n mod 4 \<noteq> 2" by blast
  then show ?thesis
  proof cases
    case 1
    with kTemporalStructureMode3 m n show ?thesis by (auto simp: e gof_tables(5,6) [OF g] layers_of_def up_switch_set [OF g])
  next
    case 2
    with kTemporalStructureMode3 t n show ?thesis by (auto simp: e gof_tables(5,6) [OF g] layers_of_def up_switch_set [OF g])
  next
    case 3
    with kTemporalStructureMode3 o n show ?thesis by (auto simp: e gof_tables(5,6) [OF g] layers_of_def up_switch_set [OF g])
  qed
qed

lemma layer_bound: "arrays_wf g \<Longrightarrow> layer (SetGofInfoVP9 tm g) n < layers_of tm"
  by (cases tm) (simp_all add: gof_tables layers_of_def)

text \<open>
  C37. In each predefined structure every layer has pictures, and every picture has exactly one valid reference (\<open>ref_count\<close>). Each
  valid reference lies back in time, in a layer not above the picture's own and strictly below it unless the picture is in the lowest
  layer; so a receiver that drops all layers above any bound still has every reference. And each picture is a switching point as
  flagged: a later picture of a higher layer does not refer to one before it of a layer above its own.
\<close>

theorem temporal_layers_decodable:
  assumes g: "arrays_wf g" and e: "h = SetGofInfoVP9 tm g"
  shows "ref_count h n = 1 \<and> layer h n < layers_of tm \<and> (\<forall>l < layers_of tm. \<exists>k. layer h k = l) \<and> up_switch h n
    \<and> (\<forall>j < ref_count h n. ref_back h n j \<le> n \<longrightarrow>
         0 < ref_back h n j \<and> layer h (n - ref_back h n j) \<le> layer h n \<and>
         (0 < layer h n \<longrightarrow> layer h (n - ref_back h n j) < layer h n) \<and>
         (\<forall>c < n. up_switch h c \<and> layer h c < layer h n \<and> n - ref_back h n j < c \<longrightarrow> layer h (n - ref_back h n j) \<le> layer h c))"
proof -
  have "ref_count h n = 1" unfolding e by (rule ref_count_set [OF g])
  moreover have "layer h n < layers_of tm" unfolding e by (rule layer_bound [OF g])
  moreover have "\<forall>l < layers_of tm. \<exists>k. layer h k = l" using layers_inhabited [OF g, of _ tm] by (simp add: e)
  moreover have "up_switch h n" unfolding e by (rule up_switch_set [OF g])
  ultimately show ?thesis using first_reference [OF g e, of n] by auto
qed

text \<open>A group before it is set: all arrays zero.\<close>

definition zero_gof :: GofInfoVP9 where
  "zero_gof = \<lparr>num_frames_in_gof = 0, temporal_idx = replicate 255 0, temporal_up_switch = replicate 255 False,
     num_ref_pics = replicate 255 0, pid_diff = replicate 255 (replicate 3 0), pid_start = 0\<rparr>"

lemma zero_gof_wf: "gof_wf zero_gof" "arrays_wf zero_gof"
  by (simp_all add: gof_wf_def arrays_wf_def zero_gof_def)

theorem gof_copy_and_compare_witness:
  "gof_eq zero_gof (zero_gof\<lparr>pid_start := 7\<rparr>) = Inr (gof_same zero_gof (zero_gof\<lparr>pid_start := 7\<rparr>))
   \<and> \<not> gof_same zero_gof (zero_gof\<lparr>pid_start := 7\<rparr>)"
proof -
  have "gof_wf (zero_gof\<lparr>pid_start := 7\<rparr>)" using zero_gof_wf(1) by (simp add: gof_wf_def)
  from gof_copy_and_compare [OF zero_gof_wf(1) this] show ?thesis by (simp add: gof_same_def) (simp add: zero_gof_def)
qed

theorem temporal_layers_decodable_witness:
  "layer (SetGofInfoVP9 kTemporalStructureMode3 zero_gof) (6 - ref_back (SetGofInfoVP9 kTemporalStructureMode3 zero_gof) 6 0)
   < layer (SetGofInfoVP9 kTemporalStructureMode3 zero_gof) 6"
proof -
  let ?h = "SetGofInfoVP9 kTemporalStructureMode3 zero_gof"
  have t: "ref_back ?h 6 0 = 2" "layer ?h 6 = 1" using gof_tables(5,6) [OF zero_gof_wf(2), of 6] by simp_all
  from temporal_layers_decodable [OF zero_gof_wf(2) refl, of kTemporalStructureMode3 6] show ?thesis by (auto simp: t)
qed

section \<open>Frame headers\<close>

definition kNoPictureId :: u16 where
  "kNoPictureId = - 1"

definition kNoTl0PicIdx :: u16 where
  "kNoTl0PicIdx = - 1"

definition kNoTemporalIdx :: u8 where
  "kNoTemporalIdx = 255"

definition kNoKeyIdx :: int where
  "kNoKeyIdx = - 1"

definition kNoSpatialIdx :: u8 where
  "kNoSpatialIdx = 255"

definition kNoGofIdx :: u8 where
  "kNoGofIdx = 255"

definition kMaxTwoBytePictureId :: u16 where
  "kMaxTwoBytePictureId = 32767"

record RTPVideoHeaderVP9 =
  inter_pic_predicted :: bool
  flexible_mode :: bool
  beginning_of_frame :: bool
  end_of_frame :: bool
  ss_data_available :: bool
  non_ref_for_inter_layer_pred :: bool
  picture_id :: u16
  max_picture_id :: u16
  tl0_pic_idx :: u16
  hdr_temporal_idx :: u8
  spatial_idx :: u8
  hdr_temporal_up_switch :: bool
  inter_layer_predicted :: bool
  gof_idx :: u8
  hdr_num_ref_pics :: u8
  hdr_pid_diff :: "u8 list"
  ref_picture_id :: "u16 list"
  num_spatial_layers :: nat
  first_active_layer :: nat
  spatial_layer_resolution_present :: bool
  layer_width :: "u16 list"
  layer_height :: "u16 list"
  gof :: GofInfoVP9
  end_of_picture :: bool

definition InitRTPVideoHeaderVP9 :: "RTPVideoHeaderVP9 \<Rightarrow> RTPVideoHeaderVP9" where
  "InitRTPVideoHeaderVP9 h =
     h\<lparr>inter_pic_predicted := False, flexible_mode := False, beginning_of_frame := False, end_of_frame := False,
       ss_data_available := False, non_ref_for_inter_layer_pred := False, picture_id := kNoPictureId,
       max_picture_id := kMaxTwoBytePictureId, tl0_pic_idx := kNoTl0PicIdx, hdr_temporal_idx := kNoTemporalIdx,
       spatial_idx := kNoSpatialIdx, hdr_temporal_up_switch := False, inter_layer_predicted := False, gof_idx := kNoGofIdx,
       hdr_num_ref_pics := 0, num_spatial_layers := 1, first_active_layer := 0, end_of_picture := True\<rparr>"

text \<open>The loops over two pairs of parallel arrays, which return at the first difference.\<close>

fun pairs_eq :: "'a list \<Rightarrow> 'a list \<Rightarrow> 'b list \<Rightarrow> 'b list \<Rightarrow> nat \<Rightarrow> nat \<Rightarrow> abort + bool" where
  "pairs_eq a b c d i 0 = Inr True"
| "pairs_eq a b c d i (Suc n) =
     bindE (load a i) (\<lambda>x. bindE (load b i) (\<lambda>y. bindE (load c i) (\<lambda>u. bindE (load d i) (\<lambda>v.
       if x \<noteq> y \<or> u \<noteq> v then Inr False else pairs_eq a b c d (Suc i) n))))"

text \<open>The fields of the first condition.\<close>

definition fixed_part_eq :: "RTPVideoHeaderVP9 \<Rightarrow> RTPVideoHeaderVP9 \<Rightarrow> bool" where
  "fixed_part_eq l r \<longleftrightarrow>
     \<not> (inter_pic_predicted l \<noteq> inter_pic_predicted r \<or> flexible_mode l \<noteq> flexible_mode r \<or>
        beginning_of_frame l \<noteq> beginning_of_frame r \<or> end_of_frame l \<noteq> end_of_frame r \<or>
        ss_data_available l \<noteq> ss_data_available r \<or> non_ref_for_inter_layer_pred l \<noteq> non_ref_for_inter_layer_pred r \<or>
        picture_id l \<noteq> picture_id r \<or> max_picture_id l \<noteq> max_picture_id r \<or> tl0_pic_idx l \<noteq> tl0_pic_idx r \<or>
        hdr_temporal_idx l \<noteq> hdr_temporal_idx r \<or> spatial_idx l \<noteq> spatial_idx r \<or> gof_idx l \<noteq> gof_idx r \<or>
        hdr_temporal_up_switch l \<noteq> hdr_temporal_up_switch r \<or> inter_layer_predicted l \<noteq> inter_layer_predicted r \<or>
        hdr_num_ref_pics l \<noteq> hdr_num_ref_pics r \<or> end_of_picture l \<noteq> end_of_picture r)"

definition ss_part_eq :: "RTPVideoHeaderVP9 \<Rightarrow> RTPVideoHeaderVP9 \<Rightarrow> abort + bool" where
  "ss_part_eq l r =
     (if spatial_layer_resolution_present l \<noteq> spatial_layer_resolution_present r \<or>
         num_spatial_layers l \<noteq> num_spatial_layers r \<or> first_active_layer l \<noteq> first_active_layer r then Inr False
      else bindE (gof_eq (gof l) (gof r)) (\<lambda>same.
        if \<not> same then Inr False
        else if spatial_layer_resolution_present l
        then pairs_eq (layer_width l) (layer_width r) (layer_height l) (layer_height r) 0 (num_spatial_layers l)
        else Inr True))"

definition vp9_header_eq :: "RTPVideoHeaderVP9 \<Rightarrow> RTPVideoHeaderVP9 \<Rightarrow> abort + bool" where
  "vp9_header_eq l r =
     (if \<not> fixed_part_eq l r then Inr False
      else bindE (pairs_eq (hdr_pid_diff l) (hdr_pid_diff r) (ref_picture_id l) (ref_picture_id r) 0 (unat (hdr_num_ref_pics l))) (\<lambda>same.
        if \<not> same then Inr False else if ss_data_available l then ss_part_eq l r else Inr True))"

definition header_wf :: "RTPVideoHeaderVP9 \<Rightarrow> bool" where
  "header_wf h \<longleftrightarrow> length (hdr_pid_diff h) = 3 \<and> length (ref_picture_id h) = 3 \<and> unat (hdr_num_ref_pics h) \<le> 3 \<and>
     length (layer_width h) = 8 \<and> length (layer_height h) = 8 \<and> num_spatial_layers h \<le> 8 \<and> gof_wf (gof h)"

text \<open>What a header says: the fields that are valid, and nothing of the others.\<close>

record vp9_content =
  c_flags :: "bool list"
  c_ids :: "u16 list"
  c_indices :: "u8 list"
  c_references :: "(u8 \<times> u16) list"
  c_layers :: "((bool \<times> nat \<times> nat) \<times> (u16 \<times> u16) list) option"
  c_frames :: "(u16 \<times> (u8 \<times> bool \<times> u8 list) list) option"

definition gof_content :: "GofInfoVP9 \<Rightarrow> u16 \<times> (u8 \<times> bool \<times> u8 list) list" where
  "gof_content g = (pid_start g, map (\<lambda>i. (temporal_idx g ! i, temporal_up_switch g ! i, take (unat (num_ref_pics g ! i)) (pid_diff g ! i)))
     [0 ..< num_frames_in_gof g])"

definition vp9_content_of :: "RTPVideoHeaderVP9 \<Rightarrow> vp9_content" where
  "vp9_content_of h =
     \<lparr>c_flags = [inter_pic_predicted h, flexible_mode h, beginning_of_frame h, end_of_frame h, ss_data_available h,
        non_ref_for_inter_layer_pred h, hdr_temporal_up_switch h, inter_layer_predicted h, end_of_picture h],
      c_ids = [picture_id h, max_picture_id h, tl0_pic_idx h],
      c_indices = [hdr_temporal_idx h, spatial_idx h, gof_idx h],
      c_references = take (unat (hdr_num_ref_pics h)) (zip (hdr_pid_diff h) (ref_picture_id h)),
      c_layers = (if ss_data_available h
        then Some ((spatial_layer_resolution_present h, num_spatial_layers h, first_active_layer h),
          if spatial_layer_resolution_present h then take (num_spatial_layers h) (zip (layer_width h) (layer_height h)) else [])
        else None),
      c_frames = (if ss_data_available h then Some (gof_content (gof h)) else None)\<rparr>"

lemma pairs_eq_spec:
  assumes "length a = m" "length b = m" "length c = m" "length d = m"
  shows "i + n \<le> m \<Longrightarrow> pairs_eq a b c d i n = Inr (\<forall>k. i \<le> k \<and> k < i + n \<longrightarrow> a ! k = b ! k \<and> c ! k = d ! k)"
proof (induction n arbitrary: i)
  case (Suc n)
  then show ?case
    using range_Suc [of i n "\<lambda>k. a ! k = b ! k \<and> c ! k = d ! k"] assms by (auto simp: load_def)
qed auto

lemma pairs_eq_take:
  assumes "length a = m" "length b = m" "length c = m" "length d = m" "n \<le> m"
  shows "pairs_eq a b c d 0 n = Inr (take n (zip a c) = take n (zip b d))"
proof -
  have "(\<forall>k < n. a ! k = b ! k \<and> c ! k = d ! k) \<longleftrightarrow> take n (zip a c) = take n (zip b d)"
    using assms by (auto simp: list_eq_iff_nth_eq)
  then show ?thesis using pairs_eq_spec [of a m b c d 0 n] assms by simp
qed

lemma take_eq_iff:
  assumes "length x = m" "length y = m" "k \<le> m" "l \<le> m"
  shows "take k x = take l y \<longleftrightarrow> k = l \<and> (\<forall>r < k. x ! r = y ! r)"
proof
  assume t: "take k x = take l y"
  from arg_cong [OF t, of length] assms have "k = l" by simp
  moreover have "x ! r = y ! r" if "r < k" for r using that t \<open>k = l\<close> by (metis nth_take)
  ultimately show "k = l \<and> (\<forall>r < k. x ! r = y ! r)" by simp
qed (use assms in \<open>auto simp: list_eq_iff_nth_eq\<close>)

lemma frame_same_content:
  assumes "gof_wf a" "gof_wf b" "i < num_frames_in_gof a" "i < num_frames_in_gof b"
  shows "(temporal_idx a ! i, temporal_up_switch a ! i, take (unat (num_ref_pics a ! i)) (pid_diff a ! i)) =
    (temporal_idx b ! i, temporal_up_switch b ! i, take (unat (num_ref_pics b ! i)) (pid_diff b ! i)) \<longleftrightarrow> frame_same a b i"
proof -
  have i: "i < 255" "unat (num_ref_pics a ! i) \<le> 3" "unat (num_ref_pics b ! i) \<le> 3" using assms by (simp_all add: gof_wf_def)
  from take_eq_iff [OF row_length [OF assms(1) i(1)] row_length [OF assms(2) i(1)] i(2,3)]
  show ?thesis by (simp add: frame_same_def word_unat_eq_iff)
qed

lemma gof_same_content:
  assumes "gof_wf a" "gof_wf b"
  shows "gof_same a b \<longleftrightarrow> gof_content a = gof_content b"
proof (cases "num_frames_in_gof a = num_frames_in_gof b")
  case True
  then show ?thesis using frame_same_content [OF assms] by (auto simp: gof_same_def gof_content_def)
next
  case False
  then have "length (snd (gof_content a)) \<noteq> length (snd (gof_content b))" by (simp add: gof_content_def)
  then show ?thesis using False by (auto simp: gof_same_def)
qed

lemma refs_content:
  assumes "header_wf l" "header_wf r"
  shows "take (unat (hdr_num_ref_pics l)) (zip (hdr_pid_diff l) (ref_picture_id l)) =
      take (unat (hdr_num_ref_pics r)) (zip (hdr_pid_diff r) (ref_picture_id r)) \<longleftrightarrow>
    hdr_num_ref_pics l = hdr_num_ref_pics r \<and>
      pairs_eq (hdr_pid_diff l) (hdr_pid_diff r) (ref_picture_id l) (ref_picture_id r) 0 (unat (hdr_num_ref_pics l)) = Inr True"
proof -
  let ?k = "unat (hdr_num_ref_pics l)" and ?j = "unat (hdr_num_ref_pics r)"
  let ?x = "zip (hdr_pid_diff l) (ref_picture_id l)" and ?y = "zip (hdr_pid_diff r) (ref_picture_id r)"
  have "length ?x = 3" "length ?y = 3" "?k \<le> 3" "?j \<le> 3" using assms by (simp_all add: header_wf_def)
  then have "take ?k ?x = take ?j ?y \<longleftrightarrow> ?k = ?j \<and> take ?k ?x = take ?k ?y" by (metis length_take min.absorb2)
  moreover have "pairs_eq (hdr_pid_diff l) (hdr_pid_diff r) (ref_picture_id l) (ref_picture_id r) 0 ?k = Inr (take ?k ?x = take ?k ?y)"
    by (rule pairs_eq_take [of _ 3]) (use assms in \<open>simp_all add: header_wf_def\<close>)
  ultimately show ?thesis by (simp add: word_unat_eq_iff)
qed

lemma ss_part_content:
  assumes l: "header_wf l" and r: "header_wf r"
  shows "ss_part_eq l r = Inr
    (((spatial_layer_resolution_present l, num_spatial_layers l, first_active_layer l),
       if spatial_layer_resolution_present l then take (num_spatial_layers l) (zip (layer_width l) (layer_height l)) else []) =
     ((spatial_layer_resolution_present r, num_spatial_layers r, first_active_layer r),
       if spatial_layer_resolution_present r then take (num_spatial_layers r) (zip (layer_width r) (layer_height r)) else [])
     \<and> gof_content (gof l) = gof_content (gof r))"
proof -
  have g: "gof_eq (gof l) (gof r) = Inr (gof_content (gof l) = gof_content (gof r))"
    using l r gof_eq_spec gof_same_content by (simp add: header_wf_def)
  have p: "pairs_eq (layer_width l) (layer_width r) (layer_height l) (layer_height r) 0 (num_spatial_layers l) =
      Inr (take (num_spatial_layers l) (zip (layer_width l) (layer_height l)) = take (num_spatial_layers l) (zip (layer_width r) (layer_height r)))"
    by (rule pairs_eq_take [of _ 8]) (use l r in \<open>simp_all add: header_wf_def\<close>)
  show ?thesis
    by (cases "num_spatial_layers l = num_spatial_layers r") (use p in \<open>auto simp: ss_part_eq_def g\<close>)
qed

text \<open>The content splits along the three parts of the comparison.\<close>

lemma fixed_part_content:
  "fixed_part_eq l r \<longleftrightarrow> c_flags (vp9_content_of l) = c_flags (vp9_content_of r) \<and> c_ids (vp9_content_of l) = c_ids (vp9_content_of r) \<and>
     c_indices (vp9_content_of l) = c_indices (vp9_content_of r) \<and> hdr_num_ref_pics l = hdr_num_ref_pics r"
  by (simp add: fixed_part_eq_def vp9_content_of_def) blast

lemma content_parts:
  assumes l: "header_wf l" and r: "header_wf r"
  shows "vp9_content_of l = vp9_content_of r \<longleftrightarrow> fixed_part_eq l r \<and>
    pairs_eq (hdr_pid_diff l) (hdr_pid_diff r) (ref_picture_id l) (ref_picture_id r) 0 (unat (hdr_num_ref_pics l)) = Inr True \<and>
    (ss_data_available l \<longrightarrow> ss_part_eq l r = Inr True)"
proof -
  have refs: "c_references (vp9_content_of l) = c_references (vp9_content_of r) \<longleftrightarrow> hdr_num_ref_pics l = hdr_num_ref_pics r \<and>
      pairs_eq (hdr_pid_diff l) (hdr_pid_diff r) (ref_picture_id l) (ref_picture_id r) 0 (unat (hdr_num_ref_pics l)) = Inr True"
    unfolding refs_content [OF l r, symmetric] by (simp add: vp9_content_of_def)
  have ss: "c_layers (vp9_content_of l) = c_layers (vp9_content_of r) \<and> c_frames (vp9_content_of l) = c_frames (vp9_content_of r) \<longleftrightarrow>
      (ss_data_available l \<longrightarrow> ss_part_eq l r = Inr True)" if "ss_data_available l = ss_data_available r"
    using that unfolding ss_part_content [OF l r] by (simp add: vp9_content_of_def)
  have avail: "ss_data_available l = ss_data_available r" if "c_flags (vp9_content_of l) = c_flags (vp9_content_of r)"
    using that by (simp add: vp9_content_of_def)
  have split: "vp9_content_of l = vp9_content_of r \<longleftrightarrow>
      c_flags (vp9_content_of l) = c_flags (vp9_content_of r) \<and> c_ids (vp9_content_of l) = c_ids (vp9_content_of r) \<and>
      c_indices (vp9_content_of l) = c_indices (vp9_content_of r) \<and> c_references (vp9_content_of l) = c_references (vp9_content_of r) \<and>
      c_layers (vp9_content_of l) = c_layers (vp9_content_of r) \<and> c_frames (vp9_content_of l) = c_frames (vp9_content_of r)"
    by (metis vp9_content.equality old.unit.exhaust)
  show ?thesis unfolding split fixed_part_content refs using avail ss by blast
qed

text \<open>
  Two VP9 headers compare equal exactly when what they say is equal: all fixed fields, as many references as the count says, and, only when
  scalability data is present, the layer counts, the resolutions if flagged, and the valid frames of the group; no array is indexed outside
  its bounds. Hence two headers just initialized compare equal whatever the memory of the other fields held.
\<close>

theorem vp9_header_comparison:
  assumes l: "header_wf l" and r: "header_wf r"
  shows "vp9_header_eq l r = Inr (vp9_content_of l = vp9_content_of r)
    \<and> vp9_header_eq (InitRTPVideoHeaderVP9 l) (InitRTPVideoHeaderVP9 r) = Inr True"
proof
  let ?same = "pairs_eq (hdr_pid_diff l) (hdr_pid_diff r) (ref_picture_id l) (ref_picture_id r) 0 (unat (hdr_num_ref_pics l))"
  obtain p where p: "?same = Inr p"
    using l r pairs_eq_take [of "hdr_pid_diff l" 3 "hdr_pid_diff r" "ref_picture_id l" "ref_picture_id r"] by (simp add: header_wf_def)
  obtain q where q: "ss_part_eq l r = Inr q" using ss_part_content [OF l r] by simp
  show "vp9_header_eq l r = Inr (vp9_content_of l = vp9_content_of r)"
    unfolding content_parts [OF l r] p q vp9_header_eq_def by simp
  show "vp9_header_eq (InitRTPVideoHeaderVP9 l) (InitRTPVideoHeaderVP9 r) = Inr True"
    by (simp add: vp9_header_eq_def fixed_part_eq_def InitRTPVideoHeaderVP9_def)
qed

definition zero_header :: RTPVideoHeaderVP9 where
  "zero_header = \<lparr>inter_pic_predicted = False, flexible_mode = False, beginning_of_frame = False, end_of_frame = False,
     ss_data_available = False, non_ref_for_inter_layer_pred = False, picture_id = 0, max_picture_id = 0, tl0_pic_idx = 0,
     hdr_temporal_idx = 0, spatial_idx = 0, hdr_temporal_up_switch = False, inter_layer_predicted = False, gof_idx = 0,
     hdr_num_ref_pics = 1, hdr_pid_diff = [1, 2, 3], ref_picture_id = [4, 5, 6], num_spatial_layers = 2, first_active_layer = 0,
     spatial_layer_resolution_present = True, layer_width = replicate 8 320, layer_height = replicate 8 180, gof = zero_gof,
     end_of_picture = False\<rparr>"

theorem vp9_header_comparison_witness:
  "vp9_header_eq zero_header (zero_header\<lparr>ref_picture_id := [4, 0, 0], layer_width := replicate 8 0\<rparr>) = Inr True
   \<and> vp9_header_eq (zero_header\<lparr>ss_data_available := True\<rparr>)
       (zero_header\<lparr>ss_data_available := True, layer_width := replicate 8 0\<rparr>) = Inr False"
proof -
  have w: "header_wf zero_header" "header_wf (zero_header\<lparr>ref_picture_id := [4, 0, 0], layer_width := replicate 8 0\<rparr>)"
    "header_wf (zero_header\<lparr>ss_data_available := True\<rparr>)"
    "header_wf (zero_header\<lparr>ss_data_available := True, layer_width := replicate 8 0\<rparr>)"
    using zero_gof_wf(1) by (simp_all add: header_wf_def zero_header_def)
  have "vp9_content_of zero_header = vp9_content_of (zero_header\<lparr>ref_picture_id := [4, 0, 0], layer_width := replicate 8 0\<rparr>)"
    by (simp add: vp9_content_of_def zero_header_def)
  moreover have "c_layers (vp9_content_of (zero_header\<lparr>ss_data_available := True\<rparr>)) \<noteq>
      c_layers (vp9_content_of (zero_header\<lparr>ss_data_available := True, layer_width := replicate 8 0\<rparr>))"
    by (simp add: vp9_content_of_def zero_header_def zip_replicate)
  ultimately show ?thesis
    using vp9_header_comparison [OF w(1,2)] vp9_header_comparison [OF w(3,4)] by auto
qed

section \<open>VP8 and H.264 headers\<close>

record RTPVideoHeaderVP8 =
  nonReference :: bool
  pictureId :: u16
  tl0PicIdx :: u16
  temporalIdx :: u8
  layerSync :: bool
  keyIdx :: int
  partitionId :: int
  beginningOfPartition :: bool

definition InitRTPVideoHeaderVP8 :: "RTPVideoHeaderVP8 \<Rightarrow> RTPVideoHeaderVP8" where
  "InitRTPVideoHeaderVP8 h =
     h\<lparr>nonReference := False, pictureId := kNoPictureId, tl0PicIdx := kNoTl0PicIdx, temporalIdx := kNoTemporalIdx,
       layerSync := False, keyIdx := kNoKeyIdx, partitionId := 0, beginningOfPartition := False\<rparr>"

definition vp8_header_eq :: "RTPVideoHeaderVP8 \<Rightarrow> RTPVideoHeaderVP8 \<Rightarrow> bool" where
  "vp8_header_eq l r \<longleftrightarrow> nonReference l = nonReference r \<and> pictureId l = pictureId r \<and> tl0PicIdx l = tl0PicIdx r \<and>
     temporalIdx l = temporalIdx r \<and> layerSync l = layerSync r \<and> keyIdx l = keyIdx r \<and> partitionId l = partitionId r \<and>
     beginningOfPartition l = beginningOfPartition r"

datatype H264PacketizationTypes = kH264SingleNalu | kH264StapA | kH264FuA

datatype H264PacketizationMode = NonInterleaved | SingleNalUnit

fun ToString_mode :: "H264PacketizationMode \<Rightarrow> string" where
  "ToString_mode NonInterleaved = ''NonInterleaved''"
| "ToString_mode SingleNalUnit = ''SingleNalUnit''"

record NaluInfo =
  nalu_info_type :: u8
  sps_id :: int
  pps_id :: int

definition nalu_eq :: "NaluInfo \<Rightarrow> NaluInfo \<Rightarrow> bool" where
  "nalu_eq l r \<longleftrightarrow> nalu_info_type l = nalu_info_type r \<and> sps_id l = sps_id r \<and> pps_id l = pps_id r"

record RTPVideoHeaderH264 =
  nalu_type :: u8
  packetization_type :: H264PacketizationTypes
  nalus :: "NaluInfo list"
  packetization_mode :: H264PacketizationMode

definition h264_header_eq :: "RTPVideoHeaderH264 \<Rightarrow> RTPVideoHeaderH264 \<Rightarrow> bool" where
  "h264_header_eq l r \<longleftrightarrow> nalu_type l = nalu_type r \<and> packetization_type l = packetization_type r \<and>
     list_all2 nalu_eq (nalus l) (nalus r) \<and> packetization_mode l = packetization_mode r"

lemma nalu_eq_iff: "nalu_eq = (=)"
  by (intro ext) (auto simp: nalu_eq_def)

text \<open>
  The comparisons of the VP8 and H.264 headers look at every field, so they are equality; initializing a VP8 header sets every field, so
  nothing of its former contents remains; and the packetization modes print differently.
\<close>

theorem plain_header_comparison:
  "vp8_header_eq a b = (a = b) \<and> InitRTPVideoHeaderVP8 a = InitRTPVideoHeaderVP8 b \<and> h264_header_eq c d = (c = d)
   \<and> (ToString_mode m = ToString_mode n) = (m = n)"
  by (cases m; cases n) (auto simp: vp8_header_eq_def InitRTPVideoHeaderVP8_def h264_header_eq_def nalu_eq_iff list.rel_eq)

end
