(* ===== verification/Ntp_Time.thy ===== *)
theory Ntp_Time
  imports Prelude "HOL-Library.Log_Nat"
begin

text \<open>
  \<^verbatim>\<open>system_wrappers/include/ntp_time.h\<close>: NTP times as 64-bit fixed-point numbers, and their conversion to milliseconds and microseconds, which the
  code does in double arithmetic. A double is its rational value; every operation of the code is the exact operation followed by rounding
  to 53 bits, to nearest with ties to even. The values that occur here are far from overflow and underflow of the exponent.
  Theorems: conversions never fail, clamp where they say, and are inverse to each other in spite of the rounding.
\<close>

section \<open>Double arithmetic\<close>

text \<open>The exponent of the leading bit: \<open>2 ^ lead x \<le> \<bar>x\<bar> < 2 ^ (lead x + 1)\<close>.\<close>

definition lead :: "rat \<Rightarrow> int" where
  "lead x =
     (let (n, d) = quotient_of \<bar>x\<bar>; k = bitlen n - bitlen d
      in if 2 powi k \<le> \<bar>x\<bar> then k else k - 1)"

definition nearest_even :: "rat \<Rightarrow> int" where
  "nearest_even y =
     (let f = \<lfloor>y\<rfloor>; r = y - of_int f
      in if r < 1 / 2 then f else if 1 / 2 < r then f + 1 else if even f then f else f + 1)"

definition dbl :: "rat \<Rightarrow> rat" where
  "dbl x = (if x = 0 then 0 else let u = 2 powi (lead x - 52) in of_int (nearest_even (x / u)) * u)"

text \<open>\<^verbatim>\<open>std::round\<close>: to nearest, ties away from zero. Conversion to an integer truncates.\<close>

definition std_round :: "rat \<Rightarrow> int" where
  "std_round x = (if 0 \<le> x then \<lfloor>x + 1 / 2\<rfloor> else - \<lfloor>1 / 2 - x\<rfloor>)"

definition truncate :: "rat \<Rightarrow> int" where
  "truncate x = (if 0 \<le> x then \<lfloor>x\<rfloor> else - \<lfloor>- x\<rfloor>)"

text \<open>\<^verbatim>\<open>dchecked_cast\<close> from a double: the limits are converted to double before the comparison; the cast of a value outside the destination is undefined.\<close>

definition dchecked_cast_double :: "int \<Rightarrow> int \<Rightarrow> rat \<Rightarrow> abort + int" where
  "dchecked_cast_double lo hi x =
     check (dbl (of_int lo) \<le> x \<and> x \<le> dbl (of_int hi))
       (if lo \<le> truncate x \<and> truncate x \<le> hi then Inr (truncate x) else Inl SignedOverflow)"

section \<open>NTP time\<close>

definition kFractionsPerSecond :: u64 where
  "kFractionsPerSecond = 4294967296"

definition NtpTime :: "u32 \<Rightarrow> u32 \<Rightarrow> u64" where
  "NtpTime secs fracs = ucast secs * kFractionsPerSecond + ucast fracs"

definition NtpTime_Set :: "u32 \<Rightarrow> u32 \<Rightarrow> u64 \<Rightarrow> u64" where
  "NtpTime_Set secs fracs v = ucast secs * kFractionsPerSecond + ucast fracs"

definition NtpTime_Reset :: "u64 \<Rightarrow> u64" where
  "NtpTime_Reset v = 0"

definition seconds :: "u64 \<Rightarrow> abort + u32" where
  "seconds v = check (v div kFractionsPerSecond \<le> 4294967295) (Inr (ucast (v div kFractionsPerSecond)))"

definition fractions :: "u64 \<Rightarrow> abort + u32" where
  "fractions v = check (v mod kFractionsPerSecond \<le> 4294967295) (Inr (ucast (v mod kFractionsPerSecond)))"

definition Valid :: "u64 \<Rightarrow> bool" where
  "Valid v \<longleftrightarrow> v \<noteq> 0"

definition kNtpFracPerMs :: rat where
  "kNtpFracPerMs = dbl (4294967296 / 1000)"

definition ToMs :: "u64 \<Rightarrow> abort + int" where
  "ToMs v = bindE (fractions v) (\<lambda>f. bindE (seconds v) (\<lambda>s.
     let frac_ms = dbl (of_nat (unat f) / kNtpFracPerMs) in Inr (1000 * int (unat s) + truncate (dbl (frac_ms + 1 / 2)))))"

definition i64_min :: int where
  "i64_min = - (2 ^ 63)"

definition i64_max :: int where
  "i64_max = 2 ^ 63 - 1"

definition u64_max :: int where
  "u64_max = 2 ^ 64 - 1"

text \<open>A product of a converted integer and a quotient of constants, in double arithmetic and then rounded by \<^verbatim>\<open>std::round\<close>, which is exact on doubles.\<close>

definition product :: "int \<Rightarrow> rat \<Rightarrow> rat" where
  "product n c = dbl (dbl (of_int n) * dbl c)"

definition scaled :: "int \<Rightarrow> rat \<Rightarrow> int" where
  "scaled n c = std_round (product n c)"

definition Int64MsToQ32x32 :: "int \<Rightarrow> abort + int" where
  "Int64MsToQ32x32 milliseconds =
     (let result = of_int (scaled milliseconds (4294967296 / 1000))
      in if result \<le> dbl (of_int i64_min) then Inr i64_min
         else if dbl (of_int i64_max) \<le> result then Inr i64_max
         else dchecked_cast_double i64_min i64_max result)"

definition Int64MsToUQ32x32 :: "int \<Rightarrow> abort + int" where
  "Int64MsToUQ32x32 milliseconds =
     (let result = of_int (scaled milliseconds (4294967296 / 1000))
      in if result \<le> dbl 0 then Inr 0
         else if dbl (of_int u64_max) \<le> result then Inr u64_max
         else dchecked_cast_double 0 u64_max result)"

definition Q32x32ToInt64Ms :: "int \<Rightarrow> abort + int" where
  "Q32x32ToInt64Ms q = dchecked_cast_double i64_min i64_max (of_int (scaled q (1000 / 4294967296)))"

definition UQ32x32ToInt64Ms :: "int \<Rightarrow> abort + int" where
  "UQ32x32ToInt64Ms q = dchecked_cast_double i64_min i64_max (of_int (scaled q (1000 / 4294967296)))"

definition UQ32x32ToInt64Us :: "int \<Rightarrow> abort + int" where
  "UQ32x32ToInt64Us q = dchecked_cast_double i64_min i64_max (of_int (scaled q (1000000 / 4294967296)))"

definition Q32x32ToInt64Us :: "int \<Rightarrow> abort + int" where
  "Q32x32ToInt64Us q = dchecked_cast_double i64_min i64_max (of_int (scaled q (1000000 / 4294967296)))"

section \<open>Rounding errors\<close>

lemma lead_bounds:
  assumes "x \<noteq> 0"
  shows "2 powi (lead x) \<le> \<bar>x\<bar>" "\<bar>x\<bar> < 2 powi (lead x + 1)"
proof -
  obtain n d where q: "quotient_of \<bar>x\<bar> = (n, d)" by (cases "quotient_of \<bar>x\<bar>")
  have d: "0 < d" using q by (rule quotient_of_denom_pos)
  have x: "\<bar>x\<bar> = of_int n / of_int d" using q by (rule quotient_of_div)
  have "0 < \<bar>x\<bar>" using assms by simp
  then have n: "0 < n" using d unfolding x by (simp add: zero_less_divide_iff)
  have pow: "2 powi (int k) = (of_int (2 ^ k) :: rat)" for k by (simp add: power_int_def)
  have low: "2 powi (bitlen m - 1) \<le> (of_int m :: rat)" and high: "(of_int m :: rat) < 2 powi (bitlen m)" if "0 < m" for m
  proof -
    have b: "0 < bitlen m" using that by (metis bitlen_eq_zero_iff bitlen_nonneg less_le not_le)
    have "2 powi (bitlen m - 1) = (of_int (2 ^ nat (bitlen m - 1)) :: rat)" using b pow [of "nat (bitlen m - 1)"] by simp
    then show "2 powi (bitlen m - 1) \<le> (of_int m :: rat)" using bitlen_bounds [OF that] by (simp only: of_int_le_iff)
    have "2 powi (bitlen m) = (of_int (2 ^ nat (bitlen m)) :: rat)" using b pow [of "nat (bitlen m)"] by simp
    then show "(of_int m :: rat) < 2 powi (bitlen m)" using bitlen_bounds [OF that] by (simp only: of_int_less_iff)
  qed
  define k where "k = bitlen n - bitlen d"
  have l: "lead x = (if 2 powi k \<le> \<bar>x\<bar> then k else k - 1)" by (simp add: lead_def q k_def)
  have p: "0 < (2 powi j :: rat)" for j by simp
  have "2 powi (k - 1) * of_int d \<le> (2 powi (k - 1) * 2 powi (bitlen d) :: rat)" using high [OF d] by (intro mult_left_mono) auto
  also have "\<dots> = 2 powi (bitlen n - 1)" by (simp add: k_def flip: power_int_add)
  also have "\<dots> \<le> of_int n" by (rule low [OF n])
  finally have lo: "2 powi (k - 1) \<le> \<bar>x\<bar>" using d unfolding x by (simp add: le_divide_eq)
  have "of_int n < (2 powi (bitlen n) :: rat)" by (rule high [OF n])
  also have "\<dots> = 2 powi (k + 1) * 2 powi (bitlen d - 1)" by (simp add: k_def flip: power_int_add)
  also have "\<dots> \<le> 2 powi (k + 1) * of_int d" using low [OF d] by (intro mult_left_mono) auto
  finally have hi: "\<bar>x\<bar> < 2 powi (k + 1)" using d unfolding x by (simp add: divide_less_eq)
  show "2 powi (lead x) \<le> \<bar>x\<bar>" "\<bar>x\<bar> < 2 powi (lead x + 1)" using lo hi by (auto simp: l)
qed

lemma nearest_even_error: "\<bar>of_int (nearest_even y) - y\<bar> \<le> 1 / 2"
proof -
  have "of_int \<lfloor>y\<rfloor> \<le> y" "y < of_int \<lfloor>y\<rfloor> + 1" by linarith+
  then show ?thesis by (simp add: nearest_even_def Let_def abs_le_iff)
qed

definition eps :: rat where
  "eps = 1 / 2 ^ 53"

lemma dbl_error: "\<bar>dbl x - x\<bar> \<le> eps * \<bar>x\<bar>"
proof (cases "x = 0")
  case False
  define u where "u = (2 powi (lead x - 52) :: rat)"
  have u: "0 < u" by (simp add: u_def)
  have "2 ^ 52 * u = (2 powi 52 * 2 powi (lead x - 52) :: rat)" by (simp add: u_def power_int_def)
  also have "\<dots> = 2 powi (52 + (lead x - 52))" by (rule power_int_add [symmetric]) simp
  also have "\<dots> = 2 powi (lead x)" by (rule arg_cong [of _ _ "\<lambda>k. 2 powi k"]) simp
  also have "\<dots> \<le> \<bar>x\<bar>" by (rule lead_bounds [OF False])
  finally have "u / 2 \<le> eps * \<bar>x\<bar>" by (simp add: eps_def)
  moreover have "\<bar>dbl x - x\<bar> = \<bar>of_int (nearest_even (x / u)) - x / u\<bar> * u"
  proof -
    have "dbl x - x = (of_int (nearest_even (x / u)) - x / u) * u"
      using False u by (simp add: dbl_def u_def [symmetric] Let_def left_diff_distrib)
    then show ?thesis using u by (simp add: abs_mult)
  qed
  moreover have "\<dots> \<le> 1 / 2 * u" using u nearest_even_error by (intro mult_right_mono) auto
  ultimately show ?thesis by simp
qed (simp add: dbl_def)

text \<open>\<open>near n y x\<close>: \<open>y\<close> is \<open>x\<close> up to \<open>n\<close> roundings.\<close>

definition near :: "nat \<Rightarrow> rat \<Rightarrow> rat \<Rightarrow> bool" where
  "near n y x \<longleftrightarrow> \<bar>y - x\<bar> \<le> ((1 + eps) ^ n - 1) * \<bar>x\<bar>"

lemma eps_pow: "1 \<le> (1 + eps) ^ n"
  by (simp add: eps_def one_le_power)

lemma near_abs: "near n y x \<Longrightarrow> \<bar>y\<bar> \<le> (1 + eps) ^ n * \<bar>x\<bar>"
  by (simp add: near_def left_diff_distrib)

lemma near_dbl:
  assumes "near n y x"
  shows "near (Suc n) (dbl y) x"
proof -
  have "\<bar>dbl y - x\<bar> \<le> \<bar>dbl y - y\<bar> + \<bar>y - x\<bar>" by simp
  also have "\<dots> \<le> eps * ((1 + eps) ^ n * \<bar>x\<bar>) + ((1 + eps) ^ n - 1) * \<bar>x\<bar>"
  proof (rule add_mono)
    have "eps * \<bar>y\<bar> \<le> eps * ((1 + eps) ^ n * \<bar>x\<bar>)" by (rule mult_left_mono [OF near_abs [OF assms]]) (simp add: eps_def)
    then show "\<bar>dbl y - y\<bar> \<le> eps * ((1 + eps) ^ n * \<bar>x\<bar>)" using dbl_error [of y] by simp
  qed (use assms in \<open>simp add: near_def\<close>)
  also have "\<dots> = ((1 + eps) ^ Suc n - 1) * \<bar>x\<bar>" by (simp add: algebra_simps)
  finally show ?thesis by (simp add: near_def)
qed

lemma near_mult:
  assumes "near n y x" "near m z w"
  shows "near (n + m) (y * z) (x * w)"
proof -
  have "\<bar>y * z - x * w\<bar> \<le> \<bar>y * (z - w)\<bar> + \<bar>(y - x) * w\<bar>" by (simp add: algebra_simps)
  also have "\<dots> = \<bar>y\<bar> * \<bar>z - w\<bar> + \<bar>y - x\<bar> * \<bar>w\<bar>" by (simp add: abs_mult)
  also have "\<dots> \<le> ((1 + eps) ^ n * \<bar>x\<bar>) * (((1 + eps) ^ m - 1) * \<bar>w\<bar>) + (((1 + eps) ^ n - 1) * \<bar>x\<bar>) * \<bar>w\<bar>"
    using assms near_abs [OF assms(1)] eps_pow [of n] unfolding near_def by (intro add_mono mult_mono) auto
  also have "\<dots> = ((1 + eps) ^ (n + m) - 1) * \<bar>x * w\<bar>" by (simp add: algebra_simps abs_mult power_add)
  finally show ?thesis by (simp add: near_def)
qed

lemma near_refl: "near 0 x x"
  by (simp add: near_def)

lemma eps_pow_small: "(1 + eps) ^ 3 - 1 \<le> 4 * eps"
  by (simp add: eps_def power3_eq_cube)

lemma product_error: "\<bar>product n c - of_int n * c\<bar> \<le> 4 * eps * \<bar>of_int n * c\<bar>"
proof -
  have "near (Suc (Suc 0 + Suc 0)) (product n c) (of_int n * c)"
    unfolding product_def by (intro near_dbl near_mult near_refl)
  then have "\<bar>product n c - of_int n * c\<bar> \<le> ((1 + eps) ^ 3 - 1) * \<bar>of_int n * c\<bar>" by (simp add: near_def numeral_3_eq_3)
  also have "\<dots> \<le> 4 * eps * \<bar>of_int n * c\<bar>" using eps_pow_small by (intro mult_right_mono) auto
  finally show ?thesis .
qed

lemma std_round_error: "\<bar>of_int (std_round x) - x\<bar> \<le> 1 / 2"
proof -
  have "\<bar>of_int \<lfloor>x + 1 / 2\<rfloor> - x\<bar> \<le> 1 / 2" "\<bar>- of_int \<lfloor>1 / 2 - x\<rfloor> - x\<bar> \<le> 1 / 2" by linarith+
  then show ?thesis by (cases "0 \<le> x") (simp_all add: std_round_def)
qed

lemma std_round_unique:
  assumes "\<bar>x - of_int m\<bar> < 1 / 2"
  shows "std_round x = m"
proof -
  have "\<bar>of_int (std_round x) - (of_int m :: rat)\<bar> < 1" using assms std_round_error [of x] by linarith
  then have "\<bar>of_int (std_round x - m) :: rat\<bar> < of_int 1" by simp
  then show ?thesis by (simp only: of_int_less_iff flip: of_int_abs)
qed

lemma scaled_error: "\<bar>of_int (scaled n c) - of_int n * c\<bar> \<le> 1 / 2 + 4 * eps * \<bar>of_int n * c\<bar>"
  using product_error [of n c] std_round_error [of "product n c"] unfolding scaled_def abs_le_iff by linarith

lemma limits_dbl: "dbl (of_int i64_min) = - (2 ^ 63)" "dbl (of_int i64_max) = 2 ^ 63" "dbl (of_int u64_max) = 2 ^ 64" "dbl 0 = 0"
  by code_simp+

lemma truncate_of_int [simp]: "truncate (of_int n) = n"
  by (simp add: truncate_def)

lemma cast_i64: "i64_min \<le> n \<Longrightarrow> n \<le> i64_max \<Longrightarrow> dchecked_cast_double i64_min i64_max (of_int n) = Inr n"
proof -
  assume n: "i64_min \<le> n" "n \<le> i64_max"
  then have "(of_int i64_min :: rat) \<le> of_int n" "of_int n \<le> (of_int i64_max :: rat)" by (simp_all only: of_int_le_iff)
  then show ?thesis using n by (simp add: dchecked_cast_double_def check_def limits_dbl) (simp add: i64_min_def i64_max_def)
qed

lemma cast_u64: "0 \<le> n \<Longrightarrow> n \<le> u64_max \<Longrightarrow> dchecked_cast_double 0 u64_max (of_int n) = Inr n"
proof -
  assume n: "0 \<le> n" "n \<le> u64_max"
  then have "(0 :: rat) \<le> of_int n" "of_int n \<le> (of_int u64_max :: rat)" by (simp_all only: of_int_le_iff of_int_0_le_iff)
  then show ?thesis using n by (simp add: dchecked_cast_double_def check_def limits_dbl) (simp add: u64_max_def)
qed

section \<open>Conversions\<close>

definition ms_factor :: rat where
  "ms_factor = 4294967296 / 1000"

text \<open>A conversion that is not clamped, and back.\<close>

lemma ms_back:
  assumes e: "\<bar>of_int q - of_int ms * ms_factor\<bar> \<le> 1 / 2 + 4 * eps * \<bar>of_int ms * ms_factor\<bar>" and b: "\<bar>ms\<bar> \<le> 4294967296000"
  shows "scaled q (1000 / 4294967296) = ms"
  unfolding scaled_def
proof (rule std_round_unique)
  define c :: rat where "c = 1000 / 4294967296"
  define x :: rat where "x = of_int ms"
  define y :: rat where "y = of_int q * c"
  have m: "\<bar>x\<bar> \<le> 4294967296000" using b unfolding x_def by (metis of_int_abs of_int_le_iff of_int_numeral)
  have "\<bar>y - x\<bar> = \<bar>of_int q - x * ms_factor\<bar> * c" by (simp add: y_def c_def ms_factor_def abs_mult flip: abs_divide) (simp add: field_simps flip: abs_mult abs_divide)
  also have "\<dots> \<le> (1 / 2 + 4 * eps * (\<bar>x\<bar> * ms_factor)) * c"
    using e by (intro mult_right_mono) (simp_all add: x_def c_def abs_mult ms_factor_def)
  also have "\<dots> \<le> 1 / 100" using m by (simp add: eps_def c_def ms_factor_def field_simps)
  finally have d: "\<bar>y - x\<bar> \<le> 1 / 100" .
  have "\<bar>product q c - y\<bar> \<le> 4 * eps * \<bar>y\<bar>" unfolding y_def by (rule product_error)
  also have "\<dots> \<le> 1 / 100"
  proof -
    have "\<bar>y\<bar> \<le> 4294967296001" using d m by linarith
    then show ?thesis by (simp add: eps_def)
  qed
  finally show "\<bar>product q (1000 / 4294967296) - of_int ms\<bar> < 1 / 2" using d unfolding c_def [symmetric] x_def [symmetric] by linarith
qed

text \<open>Where the value lies decides which branch is taken.\<close>

lemma scaled_bounds:
  assumes "\<bar>of_int ms * ms_factor\<bar> \<le> 2 ^ 65"
  shows "\<bar>of_int (scaled ms ms_factor) - of_int ms * ms_factor\<bar> \<le> 20000"
proof -
  have "4 * eps * \<bar>of_int ms * ms_factor\<bar> \<le> 4 * eps * 2 ^ 65" using assms by (intro mult_left_mono) (simp_all add: eps_def)
  then show ?thesis using scaled_error [of ms ms_factor] by (simp add: eps_def)
qed

lemma scaled_large:
  assumes "of_int l * (1 + 8 * eps) \<le> of_int n * c" "0 < l"
  shows "l \<le> scaled n c"
proof -
  define x where "x = of_int n * c"
  have l: "(0 :: rat) < of_int l" using assms(2) by simp
  have x: "of_int l * (1 + 8 * eps) \<le> x" using assms(1) by (simp add: x_def)
  have "of_int l * 1 \<le> of_int l * ((1 + 8 * eps) * (1 - 4 * eps))" using l by (intro mult_left_mono) (simp_all add: eps_def)
  also have "\<dots> \<le> x * (1 - 4 * eps)" using x unfolding mult.assoc [symmetric] by (intro mult_right_mono) (simp_all add: eps_def)
  also have "\<dots> \<le> product n c"
  proof -
    have "0 \<le> x" using x l by (simp add: eps_def)
    moreover have "\<bar>product n c - x\<bar> \<le> 4 * eps * \<bar>x\<bar>" unfolding x_def by (rule product_error)
    ultimately show ?thesis by (simp add: algebra_simps abs_le_iff)
  qed
  finally have "of_int l \<le> product n c" by simp
  then show ?thesis using l by (simp add: scaled_def std_round_def le_floor_iff)
qed

lemma scaled_nonpos: "of_int n * c \<le> 0 \<Longrightarrow> scaled n c \<le> 0"
proof -
  assume x: "of_int n * c \<le> 0"
  have "product n c \<le> of_int n * c * (1 - 4 * eps)" using x product_error [of n c] by (simp add: algebra_simps abs_le_iff)
  also have "\<dots> \<le> 0" using x by (simp add: mult_nonpos_nonneg eps_def)
  finally show ?thesis by (simp add: scaled_def std_round_def le_floor_iff)
qed

lemma scaled_small:
  assumes "of_int n * c \<le> - (of_int l * (1 + 8 * eps))" "0 < l"
  shows "scaled n c \<le> - l"
proof -
  define x where "x = - (of_int n * c)"
  have l: "(0 :: rat) < of_int l" using assms(2) by simp
  have x: "of_int l * (1 + 8 * eps) \<le> x" using assms(1) by (simp add: x_def)
  have "of_int l * 1 \<le> of_int l * ((1 + 8 * eps) * (1 - 4 * eps))" using l by (intro mult_left_mono) (simp_all add: eps_def)
  also have "\<dots> \<le> x * (1 - 4 * eps)" using x unfolding mult.assoc [symmetric] by (intro mult_right_mono) (simp_all add: eps_def)
  also have "\<dots> \<le> - product n c"
  proof -
    have "0 \<le> x" using x l by (simp add: eps_def)
    then show ?thesis using product_error [of n c] by (simp add: x_def algebra_simps abs_le_iff)
  qed
  finally have "product n c \<le> - of_int l" by simp
  then show ?thesis using l by (simp add: scaled_def std_round_def le_floor_iff)
qed

text \<open>At the bounds themselves the products happen to be exact.\<close>

lemma scaled_limits:
  "scaled 4294967296000 ms_factor = 2 ^ 64" "scaled 2147483648000 ms_factor = 2 ^ 63" "scaled (- 2147483648000) ms_factor = - (2 ^ 63)"
  by code_simp+

lemma scaled_from: "4294967296000 \<le> ms \<Longrightarrow> 2 ^ 64 \<le> scaled ms ms_factor" "2147483648000 \<le> ms \<Longrightarrow> 2 ^ 63 \<le> scaled ms ms_factor"
  "ms \<le> - 2147483648000 \<Longrightarrow> scaled ms ms_factor \<le> - (2 ^ 63)"
proof -
  assume "4294967296000 \<le> ms"
  then have "ms = 4294967296000 \<or> 4294967296001 \<le> ms" by linarith
  moreover have "2 ^ 64 \<le> scaled ms ms_factor" if "4294967296001 \<le> ms"
  proof (rule scaled_large)
    have "(4294967296001 :: rat) \<le> of_int ms" using that by (metis of_int_le_iff of_int_numeral)
    then show "of_int (2 ^ 64) * (1 + 8 * eps) \<le> of_int ms * ms_factor" by (simp add: eps_def ms_factor_def)
  qed simp
  ultimately show "2 ^ 64 \<le> scaled ms ms_factor" using scaled_limits(1) by auto
next
  assume "2147483648000 \<le> ms"
  then have "ms = 2147483648000 \<or> 2147483648001 \<le> ms" by linarith
  moreover have "2 ^ 63 \<le> scaled ms ms_factor" if "2147483648001 \<le> ms"
  proof (rule scaled_large)
    have "(2147483648001 :: rat) \<le> of_int ms" using that by (metis of_int_le_iff of_int_numeral)
    then show "of_int (2 ^ 63) * (1 + 8 * eps) \<le> of_int ms * ms_factor" by (simp add: eps_def ms_factor_def)
  qed simp
  ultimately show "2 ^ 63 \<le> scaled ms ms_factor" using scaled_limits(2) by auto
next
  assume "ms \<le> - 2147483648000"
  then have "ms = - 2147483648000 \<or> ms \<le> - 2147483648001" by linarith
  moreover have "scaled ms ms_factor \<le> - (2 ^ 63)" if "ms \<le> - 2147483648001"
  proof (rule scaled_small)
    have "of_int ms \<le> (- 2147483648001 :: rat)" using that by (metis of_int_le_iff of_int_neg_numeral)
    then show "of_int ms * ms_factor \<le> - (of_int (2 ^ 63) * (1 + 8 * eps))" by (simp add: eps_def ms_factor_def)
  qed simp
  ultimately show "scaled ms ms_factor \<le> - (2 ^ 63)" using scaled_limits(3) by auto
qed

lemma ms_in_range:
  assumes "\<bar>ms\<bar> < 4294967296000"
  shows "\<bar>of_int (scaled ms ms_factor) - of_int ms * ms_factor\<bar> \<le> 20000"
proof (rule scaled_bounds)
  have "\<bar>of_int ms\<bar> \<le> (4294967296000 :: rat)" using assms by (metis less_imp_le of_int_abs of_int_le_iff of_int_numeral)
  then show "\<bar>of_int ms * ms_factor\<bar> \<le> 2 ^ 65" by (simp add: ms_factor_def abs_mult)
qed

lemma unsigned_open:
  assumes "0 < ms" "ms < 4294967296000"
  shows "0 < scaled ms ms_factor" "scaled ms ms_factor < u64_max"
proof -
  have "1 \<le> ms" "ms \<le> 4294967295999" using assms by linarith+
  then have "of_int 1 \<le> (of_int ms :: rat)" "of_int ms \<le> (of_int 4294967295999 :: rat)" by (simp_all only: of_int_le_iff)
  then have "4294967 \<le> of_int ms * ms_factor" "of_int ms * ms_factor \<le> 18446744073705256961" by (simp_all add: ms_factor_def)
  moreover have "\<bar>of_int (scaled ms ms_factor) - of_int ms * ms_factor\<bar> \<le> 20000" using assms by (intro ms_in_range) simp
  ultimately have "of_int 0 < (of_int (scaled ms ms_factor) :: rat)" "of_int (scaled ms ms_factor) < (of_int 18446744073709551615 :: rat)"
    unfolding of_int_numeral of_int_0 by linarith+
  then show "0 < scaled ms ms_factor" "scaled ms ms_factor < u64_max" unfolding of_int_less_iff by (simp_all add: u64_max_def)
qed

lemma signed_open:
  assumes "\<bar>ms\<bar> < 2147483648000"
  shows "i64_min < scaled ms ms_factor" "scaled ms ms_factor < i64_max"
proof -
  have "- 2147483647999 \<le> ms" "ms \<le> 2147483647999" using assms by linarith+
  then have "of_int (- 2147483647999) \<le> (of_int ms :: rat)" "of_int ms \<le> (of_int 2147483647999 :: rat)" by (simp_all only: of_int_le_iff)
  then have "- 9223372036850480841 \<le> of_int ms * ms_factor" "of_int ms * ms_factor \<le> 9223372036850480841" unfolding of_int_numeral of_int_minus ms_factor_def by linarith+
  moreover have "\<bar>of_int (scaled ms ms_factor) - of_int ms * ms_factor\<bar> \<le> 20000" using assms by (intro ms_in_range) simp
  ultimately have "of_int (- 9223372036854775808) < (of_int (scaled ms ms_factor) :: rat)" "of_int (scaled ms ms_factor) < (of_int 9223372036854775807 :: rat)"
    unfolding of_int_numeral of_int_minus by linarith+
  then show "i64_min < scaled ms ms_factor" "scaled ms ms_factor < i64_max" unfolding of_int_less_iff by (simp_all add: i64_min_def i64_max_def)
qed

text \<open>The clamping as a function of the scaled value.\<close>

lemma to_unsigned: "Int64MsToUQ32x32 ms =
    Inr (if scaled ms ms_factor \<le> 0 then 0 else if u64_max < scaled ms ms_factor then u64_max else scaled ms ms_factor)"
proof -
  let ?q = "scaled ms ms_factor"
  have "(of_int ?q \<le> (0 :: rat)) = (?q \<le> 0)" by simp
  moreover have "(2 ^ 64 \<le> (of_int ?q :: rat)) = (u64_max < ?q)"
  proof -
    have "(of_int 18446744073709551616 \<le> (of_int ?q :: rat)) = (18446744073709551616 \<le> ?q)" by (simp only: of_int_le_iff)
    then show ?thesis by (simp add: u64_max_def) linarith
  qed
  ultimately show ?thesis by (simp add: Int64MsToUQ32x32_def Let_def limits_dbl cast_u64 flip: ms_factor_def)
qed

lemma to_signed: "Int64MsToQ32x32 ms =
    Inr (if scaled ms ms_factor \<le> i64_min then i64_min else if i64_max < scaled ms ms_factor then i64_max else scaled ms ms_factor)"
proof -
  let ?q = "scaled ms ms_factor"
  have "(of_int ?q \<le> (- (2 ^ 63) :: rat)) = (?q \<le> i64_min)"
  proof -
    have "((of_int ?q :: rat) \<le> of_int (- 9223372036854775808)) = (?q \<le> - 9223372036854775808)" by (simp only: of_int_le_iff)
    then show ?thesis by (simp add: i64_min_def)
  qed
  moreover have "(2 ^ 63 \<le> (of_int ?q :: rat)) = (i64_max < ?q)"
  proof -
    have "(of_int 9223372036854775808 \<le> (of_int ?q :: rat)) = (9223372036854775808 \<le> ?q)" by (simp only: of_int_le_iff)
    then show ?thesis by (simp add: i64_max_def) linarith
  qed
  ultimately show ?thesis by (simp add: Int64MsToQ32x32_def Let_def limits_dbl cast_i64 flip: ms_factor_def)
qed

lemma scaled_close: "\<bar>of_int (scaled ms ms_factor) - of_int ms * ms_factor\<bar> \<le> 1 / 2 + \<bar>of_int ms * ms_factor\<bar> / 2 ^ 51"
  using scaled_error [of ms ms_factor] by (simp add: eps_def)

lemma ms_there_and_back:
  assumes "\<bar>ms\<bar> < 4294967296000"
  shows "dchecked_cast_double i64_min i64_max (of_int (scaled (scaled ms ms_factor) (1000 / 4294967296))) = Inr ms"
proof -
  have "scaled (scaled ms ms_factor) (1000 / 4294967296) = ms" by (rule ms_back [OF scaled_error]) (use assms in simp)
  moreover have "i64_min \<le> ms" "ms \<le> i64_max" using assms by (simp_all add: i64_min_def i64_max_def)
  ultimately show ?thesis by (simp only: cast_i64)
qed

text \<open>
  C38. Conversion of milliseconds to fixed point never fails. Below the bounds (\<open>2 ^ 32\<close> seconds unsigned, \<open>2 ^ 31\<close> signed) the result is within the
  rounding of the exact value, and converting it back gives the same milliseconds in spite of the double arithmetic in
  between; at and beyond the bounds it is the largest or smallest value.
\<close>

theorem ntp_ms_roundtrip:
  "(0 \<le> ms \<and> ms < 4294967296000 \<longrightarrow>
     (\<exists>q. Int64MsToUQ32x32 ms = Inr q \<and> 0 \<le> q \<and> q \<le> u64_max \<and> UQ32x32ToInt64Ms q = Inr ms \<and>
        \<bar>of_int q - of_int ms * ms_factor\<bar> \<le> 1 / 2 + \<bar>of_int ms * ms_factor\<bar> / 2 ^ 51))
   \<and> (ms \<le> 0 \<longrightarrow> Int64MsToUQ32x32 ms = Inr 0) \<and> (4294967296000 \<le> ms \<longrightarrow> Int64MsToUQ32x32 ms = Inr u64_max)
   \<and> (\<bar>ms\<bar> < 2147483648000 \<longrightarrow>
     (\<exists>q. Int64MsToQ32x32 ms = Inr q \<and> i64_min < q \<and> q < i64_max \<and> Q32x32ToInt64Ms q = Inr ms \<and>
        \<bar>of_int q - of_int ms * ms_factor\<bar> \<le> 1 / 2 + \<bar>of_int ms * ms_factor\<bar> / 2 ^ 51))
   \<and> (ms \<le> - 2147483648000 \<longrightarrow> Int64MsToQ32x32 ms = Inr i64_min) \<and> (2147483648000 \<le> ms \<longrightarrow> Int64MsToQ32x32 ms = Inr i64_max)"
proof (intro conjI impI)
  have zero: "Int64MsToUQ32x32 m = Inr 0" if "m \<le> 0" for m
    using that scaled_nonpos [of m ms_factor] by (simp add: to_unsigned ms_factor_def mult_nonpos_nonneg)
  then show "Int64MsToUQ32x32 ms = Inr 0" if "ms \<le> 0" using that .
  show "\<exists>q. Int64MsToUQ32x32 ms = Inr q \<and> 0 \<le> q \<and> q \<le> u64_max \<and> UQ32x32ToInt64Ms q = Inr ms \<and>
      \<bar>of_int q - of_int ms * ms_factor\<bar> \<le> 1 / 2 + \<bar>of_int ms * ms_factor\<bar> / 2 ^ 51" if "0 \<le> ms \<and> ms < 4294967296000"
  proof (cases "ms = 0")
    case True
    moreover have "UQ32x32ToInt64Ms 0 = Inr 0" by code_simp
    ultimately show ?thesis using zero [of 0] by (simp add: u64_max_def)
  next
    case False
    with that have m: "0 < ms" "ms < 4294967296000" by auto
    then have "Int64MsToUQ32x32 ms = Inr (scaled ms ms_factor)" using unsigned_open [OF m] by (simp add: to_unsigned)
    moreover have "UQ32x32ToInt64Ms (scaled ms ms_factor) = Inr ms"
      unfolding UQ32x32ToInt64Ms_def by (rule ms_there_and_back) (use m in simp)
    ultimately show ?thesis using unsigned_open [OF m] scaled_close [of ms] by (intro exI [of _ "scaled ms ms_factor"]) simp
  qed
  show "\<exists>q. Int64MsToQ32x32 ms = Inr q \<and> i64_min < q \<and> q < i64_max \<and> Q32x32ToInt64Ms q = Inr ms \<and>
      \<bar>of_int q - of_int ms * ms_factor\<bar> \<le> 1 / 2 + \<bar>of_int ms * ms_factor\<bar> / 2 ^ 51" if m: "\<bar>ms\<bar> < 2147483648000"
  proof -
    have "Int64MsToQ32x32 ms = Inr (scaled ms ms_factor)" using signed_open [OF m] by (simp add: to_signed)
    moreover have "Q32x32ToInt64Ms (scaled ms ms_factor) = Inr ms"
      unfolding Q32x32ToInt64Ms_def by (rule ms_there_and_back) (use m in simp)
    ultimately show ?thesis using signed_open [OF m] scaled_close [of ms] by (intro exI [of _ "scaled ms ms_factor"]) simp
  qed
  show "Int64MsToUQ32x32 ms = Inr u64_max" if "4294967296000 \<le> ms"
    using scaled_from(1) [OF that] by (simp add: to_unsigned u64_max_def)
  show "Int64MsToQ32x32 ms = Inr i64_min" if "ms \<le> - 2147483648000" using scaled_from(3) [OF that] by (simp add: to_signed i64_min_def)
  show "Int64MsToQ32x32 ms = Inr i64_max" if "2147483648000 \<le> ms" using scaled_from(2) [OF that] by (simp add: to_signed i64_min_def i64_max_def)
qed

theorem ntp_ms_roundtrip_witness:
  "(\<exists>q. Int64MsToUQ32x32 4294967295999 = Inr q \<and> UQ32x32ToInt64Ms q = Inr 4294967295999)
   \<and> Int64MsToUQ32x32 4294967296000 = Inr u64_max \<and> Int64MsToQ32x32 (- 2147483648000) = Inr i64_min"
  using ntp_ms_roundtrip [of 4294967295999] ntp_ms_roundtrip [of 4294967296000] ntp_ms_roundtrip [of "- 2147483648000"] by auto

lemma scaled_down:
  assumes q: "\<bar>of_int q\<bar> \<le> (2 ^ 64 :: rat)" and c: "0 \<le> c" "c \<le> 1000000 / 4294967296"
  shows "dchecked_cast_double i64_min i64_max (of_int (scaled q c)) = Inr (scaled q c)"
    "\<bar>of_int (scaled q c) - of_int q * c\<bar> \<le> 1 / 2 + \<bar>of_int q * c\<bar> / 2 ^ 51"
proof -
  show e: "\<bar>of_int (scaled q c) - of_int q * c\<bar> \<le> 1 / 2 + \<bar>of_int q * c\<bar> / 2 ^ 51"
    using scaled_error [of q c] by (simp add: eps_def)
  have "\<bar>of_int q * c\<bar> \<le> 2 ^ 64 * (1000000 / 4294967296)" unfolding abs_mult using q c by (intro mult_mono) simp_all
  then have x: "\<bar>of_int q * c\<bar> \<le> 4294967296000000" by simp
  then have "\<bar>of_int q * c\<bar> / 2 ^ 51 \<le> 2" by simp
  then have "of_int (- 9223372036854775808) \<le> (of_int (scaled q c) :: rat)" "of_int (scaled q c) \<le> (of_int 9223372036854775807 :: rat)"
    using e x unfolding of_int_numeral of_int_minus by linarith+
  then have "i64_min \<le> scaled q c" "scaled q c \<le> i64_max" unfolding of_int_le_iff by (simp_all add: i64_min_def i64_max_def)
  then show "dchecked_cast_double i64_min i64_max (of_int (scaled q c)) = Inr (scaled q c)" by (rule cast_i64)
qed

text \<open>
  Conversions from fixed point to milliseconds and microseconds never fail, for any 64-bit value, signed or not, and are within
  half a unit and the relative error of double arithmetic of the exact value.
\<close>

theorem ntp_from_fixed_point:
  assumes "i64_min \<le> q \<and> q \<le> i64_max \<or> 0 \<le> q \<and> q \<le> u64_max"
  shows "\<exists>t u. Q32x32ToInt64Ms q = Inr t \<and> UQ32x32ToInt64Ms q = Inr t \<and> Q32x32ToInt64Us q = Inr u \<and> UQ32x32ToInt64Us q = Inr u \<and>
    \<bar>rat_of_int t - of_int q * (1000 / 2 ^ 32)\<bar> \<le> 1 / 2 + \<bar>of_int q * (1000 / 2 ^ 32)\<bar> / 2 ^ 51 \<and>
    \<bar>rat_of_int u - of_int q * (1000000 / 2 ^ 32)\<bar> \<le> 1 / 2 + \<bar>of_int q * (1000000 / 2 ^ 32)\<bar> / 2 ^ 51"
proof -
  have "\<bar>q\<bar> \<le> 18446744073709551616" using assms by (auto simp: i64_min_def i64_max_def u64_max_def)
  then have "of_int \<bar>q\<bar> \<le> (of_int 18446744073709551616 :: rat)" by (simp only: of_int_le_iff)
  then have q: "\<bar>of_int q\<bar> \<le> (2 ^ 64 :: rat)" by simp
  have p: "(2 ^ 32 :: rat) = 4294967296" by simp
  show ?thesis unfolding Q32x32ToInt64Ms_def UQ32x32ToInt64Ms_def Q32x32ToInt64Us_def UQ32x32ToInt64Us_def p
    by (rule exI [of _ "scaled q (1000 / 4294967296)"], rule exI [of _ "scaled q (1000000 / 4294967296)"], intro conjI; rule scaled_down [OF q]) simp_all
qed

theorem ntp_from_fixed_point_witness:
  "\<exists>t. UQ32x32ToInt64Us 18446744073709551615 = Inr t \<and> \<bar>of_int t - (4294967296000000 :: rat)\<bar> \<le> 3"
proof -
  from ntp_from_fixed_point [of 18446744073709551615] obtain t where t: "UQ32x32ToInt64Us 18446744073709551615 = Inr t"
    "\<bar>of_int t - of_int 18446744073709551615 * (1000000 / 2 ^ 32)\<bar> \<le> (1 / 2 + \<bar>of_int 18446744073709551615 * (1000000 / 2 ^ 32)\<bar> / 2 ^ 51 :: rat)"
    by (auto simp: u64_max_def)
  from t(2) have "\<bar>rat_of_int t - 288230376151711743984375 / 67108864\<bar> \<le> 363788239877626067403511 / 151115727451828646838272" by simp
  then have "\<bar>of_int t - (4294967296000000 :: rat)\<bar> \<le> 3" by linarith
  with t(1) show ?thesis by blast
qed

text \<open>
  \<^verbatim>\<open>dchecked_cast\<close> from a double to a 64-bit integer compares with the limits after converting them to double, and the upper limit is not a double: it becomes
  \<open>2 ^ 63\<close> (\<open>2 ^ 64\<close>). So the cast succeeds below, fails its check above, and at exactly that value it passes the check and is undefined;
  the conversions above avoid this by comparing first.
\<close>

theorem double_cast_limits:
  "(\<forall>n. dchecked_cast_double i64_min i64_max (of_int n) =
      (if n < i64_min \<or> 2 ^ 63 < n then Inl CheckFailed else if n = 2 ^ 63 then Inl SignedOverflow else Inr n))
   \<and> (\<forall>n. dchecked_cast_double 0 u64_max (of_int n) =
      (if n < 0 \<or> 2 ^ 64 < n then Inl CheckFailed else if n = 2 ^ 64 then Inl SignedOverflow else Inr n))"
proof (intro conjI allI)
  fix n
  have "((of_int n :: rat) \<le> of_int 9223372036854775808) = (n \<le> 9223372036854775808)"
    "(of_int (- 9223372036854775808) \<le> (of_int n :: rat)) = (- 9223372036854775808 \<le> n)"
    "((of_int n :: rat) \<le> of_int 18446744073709551616) = (n \<le> 18446744073709551616)" by (simp_all only: of_int_le_iff)
  then have r: "((of_int n :: rat) \<le> 2 ^ 63) = (n \<le> 2 ^ 63)" "(- (2 ^ 63) \<le> (of_int n :: rat)) = (i64_min \<le> n)"
    "((of_int n :: rat) \<le> 2 ^ 64) = (n \<le> 2 ^ 64)" by (simp_all add: i64_min_def)
  show "dchecked_cast_double i64_min i64_max (of_int n) =
      (if n < i64_min \<or> 2 ^ 63 < n then Inl CheckFailed else if n = 2 ^ 63 then Inl SignedOverflow else Inr n)"
    unfolding dchecked_cast_double_def limits_dbl r check_def truncate_of_int by (auto simp: i64_min_def i64_max_def)
  show "dchecked_cast_double 0 u64_max (of_int n) =
      (if n < 0 \<or> 2 ^ 64 < n then Inl CheckFailed else if n = 2 ^ 64 then Inl SignedOverflow else Inr n)"
    unfolding dchecked_cast_double_def of_int_0 limits_dbl r check_def truncate_of_int by (auto simp: u64_max_def)
qed

section \<open>Seconds and fractions\<close>

lemma unat_NtpTime: "unat (NtpTime s f) = unat s * 4294967296 + unat f"
proof -
  have b: "unat s < 4294967296" "unat f < 4294967296" using unsigned_less [of s] unsigned_less [of f] by simp_all
  then have "unat s * 4294967296 + unat f < 2 ^ 64" by simp
  then show ?thesis unfolding NtpTime_def kFractionsPerSecond_def
    by (simp add: unat_word_ariths unsigned_ucast_eq take_bit_nat_eq_self b)
qed

lemma parts_of:
  "seconds v = Inr (of_nat (unat v div 4294967296))" "fractions v = Inr (of_nat (unat v mod 4294967296))"
  "unat v div 4294967296 < 4294967296" "unat v mod 4294967296 < 4294967296"
proof -
  have "unat v < 18446744073709551616" using unsigned_less [of v] by simp
  then show d: "unat v div 4294967296 < 4294967296" by (simp add: less_mult_imp_div_less)
  show m: "unat v mod 4294967296 < 4294967296" by simp
  have k: "unat kFractionsPerSecond = 4294967296" by (simp add: kFractionsPerSecond_def)
  have u: "ucast w = (of_nat (unat w) :: u32)" for w :: u64 by simp
  have "v div kFractionsPerSecond \<le> 4294967295" using d by (simp add: word_le_nat_alt unat_div_distrib k)
  moreover have "ucast (v div kFractionsPerSecond) = (of_nat (unat v div 4294967296) :: u32)"
    by (simp only: u unat_div k)
  ultimately show "seconds v = Inr (of_nat (unat v div 4294967296))" by (simp add: seconds_def check_def)
  have "v mod kFractionsPerSecond \<le> 4294967295" using m by (simp add: word_le_nat_alt unat_mod_distrib k)
  moreover have "ucast (v mod kFractionsPerSecond) = (of_nat (unat v mod 4294967296) :: u32)"
    by (simp only: u unat_mod k)
  ultimately show "fractions v = Inr (of_nat (unat v mod 4294967296))" by (simp add: fractions_def check_def)
qed

lemma frac_factor: "\<bar>1 / kNtpFracPerMs - 1 / ms_factor\<bar> \<le> 2 * eps / ms_factor" "0 < kNtpFracPerMs"
proof -
  have e: "\<bar>kNtpFracPerMs - ms_factor\<bar> \<le> eps * ms_factor" using dbl_error [of ms_factor] by (simp add: kNtpFracPerMs_def ms_factor_def)
  then have l: "(1 - eps) * ms_factor \<le> kNtpFracPerMs" by (simp add: left_diff_distrib abs_le_iff)
  moreover have "0 < (1 - eps) * ms_factor" by (simp add: eps_def ms_factor_def)
  ultimately show p: "0 < kNtpFracPerMs" by linarith
  have "\<bar>1 / kNtpFracPerMs - 1 / ms_factor\<bar> = \<bar>ms_factor - kNtpFracPerMs\<bar> / (kNtpFracPerMs * ms_factor)"
  proof -
    have "0 < ms_factor" by (simp add: ms_factor_def)
    then show ?thesis using p by (simp add: diff_frac_eq abs_mult abs_divide)
  qed
  also have "\<dots> \<le> (eps * ms_factor) / (((1 - eps) * ms_factor) * ms_factor)"
    using e l p by (intro frac_le mult_right_mono) (simp_all add: eps_def ms_factor_def abs_minus_commute)
  also have "\<dots> \<le> 2 * eps / ms_factor" by (simp add: eps_def ms_factor_def)
  finally show "\<bar>1 / kNtpFracPerMs - 1 / ms_factor\<bar> \<le> 2 * eps / ms_factor" .
qed

text \<open>The milliseconds of a fraction, to within a half and the error of three roundings.\<close>

lemma frac_ms_error:
  assumes "f < 4294967296"
  shows "\<bar>of_int (truncate (dbl (dbl (of_nat f / kNtpFracPerMs) + 1 / 2))) - of_nat f / ms_factor\<bar> \<le> 1 / 2 + 1 / 2 ^ 40"
proof -
  define x y z :: rat where "x = of_nat f / ms_factor" and "y = of_nat f / kNtpFracPerMs" and "z = dbl y + 1 / 2"
  have "(of_nat f :: rat) \<le> of_nat 4294967296" unfolding of_nat_le_iff using assms by simp
  then have f: "0 \<le> (of_nat f :: rat)" "(of_nat f :: rat) \<le> 4294967296" by simp_all
  have x: "0 \<le> x" "x \<le> 1000" using f by (simp_all add: x_def ms_factor_def)
  have "y - x = of_nat f * (1 / kNtpFracPerMs - 1 / ms_factor)" by (simp add: x_def y_def right_diff_distrib)
  then have "\<bar>y - x\<bar> = of_nat f * \<bar>1 / kNtpFracPerMs - 1 / ms_factor\<bar>" by (simp add: abs_mult)
  also have "\<dots> \<le> 4294967296 * (2 * eps / ms_factor)" using f frac_factor(1) by (intro mult_mono) simp_all
  also have "\<dots> \<le> 1 / 4398046511104" by (simp add: eps_def ms_factor_def)
  finally have xy: "\<bar>y - x\<bar> \<le> 1 / 4398046511104" .
  have "0 \<le> y" using f frac_factor(2) by (simp add: y_def)
  have "\<bar>y\<bar> \<le> 1001" using xy x by linarith
  then have "eps * \<bar>y\<bar> \<le> eps * 1001" by (intro mult_left_mono) (simp_all add: eps_def)
  then have dy: "\<bar>dbl y - y\<bar> \<le> 1 / 8796093022208" using dbl_error [of y] by (simp add: eps_def)
  have "\<bar>z\<bar> \<le> 1003" using dy xy x unfolding z_def by linarith
  then have "eps * \<bar>z\<bar> \<le> eps * 1003" by (intro mult_left_mono) (simp_all add: eps_def)
  then have dz: "\<bar>dbl z - z\<bar> \<le> 1 / 8796093022208" using dbl_error [of z] by (simp add: eps_def)
  have w: "\<bar>dbl z - (x + 1 / 2)\<bar> \<le> 1 / 1099511627776" using dz dy xy unfolding z_def by linarith
  then have "0 \<le> dbl z" using x by linarith
  then have "truncate (dbl z) = \<lfloor>dbl z\<rfloor>" by (simp add: truncate_def)
  then have "\<bar>of_int (truncate (dbl z)) - x\<bar> \<le> 1 / 2 + 1 / 1099511627776" using w by linarith
  then show ?thesis by (simp add: x_def y_def z_def)
qed

text \<open>
  An NTP time is its seconds and fractions: both are read back as they were put together, no check fails, and putting together what was read gives
  the same time. Its milliseconds are within a half (and the error of double arithmetic) of the exact value. Only the time of zero seconds and zero fractions, to which
  \<^verbatim>\<open>Reset\<close> returns, is not valid.
\<close>

theorem ntp_parts:
  "seconds (NtpTime s f) = Inr s \<and> fractions (NtpTime s f) = Inr f
   \<and> (\<exists>s f. seconds v = Inr s \<and> fractions v = Inr f \<and> NtpTime s f = v)
   \<and> (\<exists>t. ToMs v = Inr t \<and> \<bar>of_int t - of_nat (unat v) * (1000 / 2 ^ 32 :: rat)\<bar> \<le> 1 / 2 + 1 / 2 ^ 40)
   \<and> NtpTime_Set s f v = NtpTime s f \<and> \<not> Valid (NtpTime_Reset v) \<and> (Valid (NtpTime s f) \<longleftrightarrow> \<not> (s = 0 \<and> f = 0))"
proof (intro conjI)
  have small: "unat f < 4294967296" using unsigned_less [of f, where 'a = nat] by simp
  show "seconds (NtpTime s f) = Inr s" "fractions (NtpTime s f) = Inr f" using small by (simp_all add: parts_of unat_NtpTime)
  have take: "take_bit 32 (n :: nat) = n" if "n < 4294967296" for n using that by (simp add: take_bit_nat_eq_self)
  have "unat (NtpTime (of_nat (unat v div 4294967296)) (of_nat (unat v mod 4294967296))) = unat v"
    using parts_of(3,4) [of v] by (simp add: unat_NtpTime unsigned_of_nat take)
  then show "\<exists>s f. seconds v = Inr s \<and> fractions v = Inr f \<and> NtpTime s f = v"
    unfolding parts_of(1,2) word_unat_eq_iff [of "NtpTime _ _"] by blast
  let ?s = "unat v div 4294967296" and ?f = "unat v mod 4294967296"
  let ?t = "truncate (dbl (dbl (of_nat ?f / kNtpFracPerMs) + 1 / 2))"
  have "ToMs v = Inr (1000 * int ?s + ?t)" using parts_of(3,4) [of v] by (simp add: ToMs_def parts_of(1,2) unsigned_of_nat take Let_def)
  moreover have e: "?s * 4294967296 + ?f = unat v" by simp
  have "rat_of_nat (?s * 4294967296 + ?f) = of_nat ?s * 4294967296 + of_nat ?f" by (simp only: of_nat_add of_nat_mult of_nat_numeral)
  then have "rat_of_nat (unat v) = of_nat ?s * 4294967296 + of_nat ?f" unfolding e .
  then have "of_nat (unat v) * (1000 / 2 ^ 32 :: rat) = 1000 * of_nat ?s + of_nat ?f / ms_factor"
    by (simp only: ms_factor_def) (simp add: field_simps)
  then have "\<bar>of_int (1000 * int ?s + ?t) - of_nat (unat v) * (1000 / 2 ^ 32 :: rat)\<bar> \<le> 1 / 2 + 1 / 2 ^ 40"
    using frac_ms_error [OF parts_of(4) [of v]] by (simp only:) simp
  ultimately show "\<exists>t. ToMs v = Inr t \<and> \<bar>of_int t - of_nat (unat v) * (1000 / 2 ^ 32 :: rat)\<bar> \<le> 1 / 2 + 1 / 2 ^ 40" by blast
  show "NtpTime_Set s f v = NtpTime s f" "\<not> Valid (NtpTime_Reset v)" by (simp_all add: NtpTime_Set_def NtpTime_def NtpTime_Reset_def Valid_def)
  show "Valid (NtpTime s f) \<longleftrightarrow> \<not> (s = 0 \<and> f = 0)" by (simp add: Valid_def word_unat_eq_iff [of "NtpTime s f"] unat_NtpTime unat_eq_zero)
qed

end
