(* ===== verification/Stream_Collection.thy ===== *)
theory Stream_Collection
  imports Prelude
begin

text \<open>
  \<^verbatim>\<open>pc/stream_collection.h\<close>: the collection of media streams of a peer connection. The streams themselves are objects of the framework; \<open>ident\<close> is
  their \<^verbatim>\<open>id()\<close>, and \<open>audio\<close> and \<open>video\<close> their searches for tracks. Theorems: ids stay unique, and the collection is a map from ids to streams
  that keeps the order of insertion.
\<close>

type_synonym 's collection = "'s list"

definition Create :: "'s collection" where
  "Create = []"

definition Create_copy :: "'s collection \<Rightarrow> 's collection" where
  "Create_copy original = original"

definition count :: "'s collection \<Rightarrow> nat" where
  "count c = length c"

text \<open>An index out of range throws.\<close>

definition at_index :: "'s collection \<Rightarrow> nat \<Rightarrow> abort + 's" where
  "at_index c i = (if i < length c then Inr (c ! i) else Inl OutOfBounds)"

fun find_stream :: "('s \<Rightarrow> string) \<Rightarrow> 's collection \<Rightarrow> string \<Rightarrow> 's option" where
  "find_stream ident [] i = None"
| "find_stream ident (s # c) i = (if ident s = i then Some s else find_stream ident c i)"

fun find_track :: "('s \<Rightarrow> string \<Rightarrow> 't option) \<Rightarrow> 's collection \<Rightarrow> string \<Rightarrow> 't option" where
  "find_track tracks [] i = None"
| "find_track tracks (s # c) i = (case tracks s i of Some t \<Rightarrow> Some t | None \<Rightarrow> find_track tracks c i)"

definition FindAudioTrack :: "('s \<Rightarrow> string \<Rightarrow> 't option) \<Rightarrow> 's collection \<Rightarrow> string \<Rightarrow> 't option" where
  "FindAudioTrack audio c i = find_track audio c i"

definition FindVideoTrack :: "('s \<Rightarrow> string \<Rightarrow> 't option) \<Rightarrow> 's collection \<Rightarrow> string \<Rightarrow> 't option" where
  "FindVideoTrack video c i = find_track video c i"

definition AddMediaStream :: "('s \<Rightarrow> string) \<Rightarrow> 's \<Rightarrow> 's collection \<Rightarrow> 's collection" where
  "AddMediaStream ident s c = (if find_stream ident c (ident s) \<noteq> None then c else c @ [s])"

fun RemoveMediaStream :: "('s \<Rightarrow> string) \<Rightarrow> 's \<Rightarrow> 's collection \<Rightarrow> 's collection" where
  "RemoveMediaStream ident r [] = []"
| "RemoveMediaStream ident r (s # c) = (if ident s = ident r then c else s # RemoveMediaStream ident r c)"

inductive collection_step :: "('s \<Rightarrow> string) \<Rightarrow> 's collection \<Rightarrow> 's collection \<Rightarrow> bool" for ident where
  add: "collection_step ident c (AddMediaStream ident s c)"
| remove: "collection_step ident c (RemoveMediaStream ident s c)"
| copy: "collection_step ident c (Create_copy c)"

section \<open>A map that keeps its order\<close>

definition unique_ids :: "('s \<Rightarrow> string) \<Rightarrow> 's collection \<Rightarrow> bool" where
  "unique_ids ident c \<longleftrightarrow> distinct (map ident c)"

lemma find_stream_None: "find_stream ident c i = None \<longleftrightarrow> i \<notin> ident ` set c"
  by (induction c) auto

lemma find_stream_Some: "find_stream ident c i = Some s \<Longrightarrow> s \<in> set c \<and> ident s = i"
  by (induction c) (auto split: if_splits)

lemma find_stream_append: "find_stream ident (c @ d) i = (case find_stream ident c i of None \<Rightarrow> find_stream ident d i | Some s \<Rightarrow> Some s)"
  by (induction c) auto

lemma remove_filter: "unique_ids ident c \<Longrightarrow> RemoveMediaStream ident r c = filter (\<lambda>s. ident s \<noteq> ident r) c"
  by (induction c) (auto simp: unique_ids_def image_iff intro!: filter_True [symmetric])

lemma find_filter: "find_stream ident (filter (\<lambda>s. ident s \<noteq> k) c) i = (if i = k then None else find_stream ident c i)"
  by (induction c) auto

lemma find_track_iff: "find_track tracks c i = Some t \<longleftrightarrow> (\<exists>n < length c. tracks (c ! n) i = Some t \<and> (\<forall>m < n. tracks (c ! m) i = None))"
proof (induction c)
  case (Cons s c)
  show ?case
  proof (cases "tracks s i")
    case None
    have "(\<exists>n < length (s # c). tracks ((s # c) ! n) i = Some t \<and> (\<forall>m < n. tracks ((s # c) ! m) i = None)) \<longleftrightarrow>
        (\<exists>n < length c. tracks (c ! n) i = Some t \<and> (\<forall>m < n. tracks (c ! m) i = None))"
      using None by (auto simp: Ex_less_Suc2 All_less_Suc2)
    then show ?thesis using None Cons.IH by simp
  next
    case (Some u)
    then show ?thesis by (auto simp: Ex_less_Suc2 All_less_Suc2)
  qed
qed simp

interpretation streams: safe_system "\<lambda>c. c = Create" "collection_step ident" "unique_ids ident" for ident
proof unfold_locales
  fix c d assume "collection_step ident c d" "unique_ids ident c"
  then show "unique_ids ident d"
  proof cases
    case (add s)
    then show ?thesis using \<open>unique_ids ident c\<close> by (auto simp: AddMediaStream_def find_stream_None unique_ids_def)
  next
    case (remove s)
    then show ?thesis using \<open>unique_ids ident c\<close> by (simp add: remove_filter) (simp add: unique_ids_def distinct_map_filter)
  next
    case copy
    then show ?thesis using \<open>unique_ids ident c\<close> by (simp add: Create_copy_def)
  qed
qed (simp add: Create_def unique_ids_def)

text \<open>
  In every collection that additions, removals and copies can produce the ids are unique, and it is a map from ids to streams: adding binds the id
  unless it is bound already, removing unbinds exactly that id, and both keep the order of the others. A track is found in the first stream that has it.
\<close>

theorem stream_collection_map:
  assumes "(collection_step ident)\<^sup>*\<^sup>* Create c"
  shows "unique_ids ident c
    \<and> (\<forall>i. find_stream ident (AddMediaStream ident s c) i =
         (if i = ident s then Some (case find_stream ident c i of None \<Rightarrow> s | Some t \<Rightarrow> t) else find_stream ident c i))
    \<and> (\<forall>i. find_stream ident (RemoveMediaStream ident s c) i = (if i = ident s then None else find_stream ident c i))
    \<and> RemoveMediaStream ident s c = filter (\<lambda>t. ident t \<noteq> ident s) c
    \<and> (\<forall>n t. at_index c n = Inr t \<longrightarrow> n < count c \<and> find_stream ident c (ident t) = Some t)
    \<and> (\<forall>i t. FindAudioTrack tracks c i = Some t \<longleftrightarrow> (\<exists>n < length c. tracks (c ! n) i = Some t \<and> (\<forall>m < n. tracks (c ! m) i = None)))"
proof -
  have u: "unique_ids ident c" using assms by (rule streams.inv_reachable [OF refl])
  have "find_stream ident c (ident t) = Some t" if t: "at_index c n = Inr t" for n t
  proof -
    have m: "t \<in> set c" using t by (auto simp: at_index_def split: if_splits)
    then obtain w where w: "find_stream ident c (ident t) = Some w" by (metis find_stream_None image_eqI not_None_eq)
    then have "w \<in> set c" "ident w = ident t" using find_stream_Some by fastforce+
    then show ?thesis using w m u by (metis distinct_map inj_on_eq_iff unique_ids_def)
  qed
  moreover have "n < count c" if "at_index c n = Inr t" for n t using that by (simp add: at_index_def count_def split: if_splits)
  moreover have "find_stream ident (AddMediaStream ident s c) i =
      (if i = ident s then Some (case find_stream ident c i of None \<Rightarrow> s | Some t \<Rightarrow> t) else find_stream ident c i)" for i
    by (auto simp: AddMediaStream_def find_stream_append split: option.splits)
  ultimately show ?thesis using u by (simp add: remove_filter find_filter FindAudioTrack_def find_track_iff)
qed

theorem stream_collection_map_witness:
  "find_stream fst (AddMediaStream fst (''a'', 2 :: nat) [(''a'', 1)]) ''a'' = Some (''a'', 1)
   \<and> RemoveMediaStream fst (''a'', 5 :: nat) [(''a'', 1)] = []"
proof -
  have "collection_step fst Create (AddMediaStream fst (''a'', 1 :: nat) Create)" by (rule collection_step.add)
  then have "(collection_step fst)\<^sup>*\<^sup>* Create [(''a'', 1 :: nat)]" by (simp add: AddMediaStream_def Create_def r_into_rtranclp)
  note law = stream_collection_map [OF this, of _ "\<lambda>_ _. None :: nat option"]
  from law [of "(''a'', 2)"] have "find_stream fst (AddMediaStream fst (''a'', 2) [(''a'', 1)]) ''a'' =
      (if ''a'' = fst (''a'', 2 :: nat) then Some (case find_stream fst [(''a'', 1)] ''a'' of None \<Rightarrow> (''a'', 2) | Some t \<Rightarrow> t)
       else find_stream fst [(''a'', 1 :: nat)] ''a'')" by blast
  moreover from law [of "(''a'', 5)"] have "RemoveMediaStream fst (''a'', 5 :: nat) [(''a'', 1)] =
      filter (\<lambda>t. fst t \<noteq> fst (''a'', 5 :: nat)) [(''a'', 1)]" by blast
  ultimately show ?thesis by simp
qed

end
