(* ===== verification/Event_Log_Fields.thy ===== *)
theory Event_Log_Fields
  imports Units
begin

text \<open>
  Event log batches: \<^verbatim>\<open>rtc_event_field_extraction.h\<close>, \<^verbatim>\<open>rtc_event_field_encoding.h\<close>, \<^verbatim>\<open>rtc_event_field_encoding_parser.h\<close>, \<^verbatim>\<open>rtc_event_definition.h\<close>,
  \<^verbatim>\<open>rtc_event_log_parse_status.h\<close> and three events defined with them. A definition lists the fields of an event; encoding extracts
  each field from all events of a batch, parsing puts the values into a batch of logged records. The bytes are written and read by code outside the headers
  (\<^verbatim>\<open>EventEncoder\<close>, \<^verbatim>\<open>EventParser\<close>, \<^verbatim>\<open>ToUnsigned\<close>, \<^verbatim>\<open>ToSigned\<close>), which is a parameter. Theorems: parsing what was encoded gives the events back, grouped by
  source where the event asks for it; parsing into a vector that already holds events fails; a failed parse leaves invented events behind.
\<close>

section \<open>Status\<close>

type_synonym parse_status = string

definition Success :: parse_status where
  "Success = []"

text \<open>\<open>line\<close> is the printed line number.\<close>

definition Error :: "string \<Rightarrow> string \<Rightarrow> string \<Rightarrow> parse_status" where
  "Error error file line = error @ '' ('' @ file @ '': '' @ line @ '')''"

definition status_ok :: "parse_status \<Rightarrow> bool" where
  "status_ok s \<longleftrightarrow> s = []"

record 'a status_or =
  or_status :: parse_status
  or_value :: 'a

definition value_of :: "'a status_or \<Rightarrow> abort + 'a" where
  "value_of r = check (status_ok (or_status r)) (Inr (or_value r))"

section \<open>Events and fields\<close>

datatype RtcEventType =
    AlrStateEvent | RouteChangeEvent | RemoteEstimateEvent | AudioNetworkAdaptation | AudioPlayout | AudioReceiveStreamConfig
  | AudioSendStreamConfig | BweUpdateDelayBased | BweUpdateLossBased | BweUpdateScream | DtlsTransportState | DtlsWritableState
  | IceCandidatePairConfig | IceCandidatePairEvent | ProbeClusterCreated | ProbeResultFailure | ProbeResultSuccess
  | RtcpPacketIncoming | RtcpPacketOutgoing | RtpPacketIncoming | RtpPacketOutgoing | VideoReceiveStreamConfig
  | VideoSendStreamConfig | FrameDecoded | NetEqSetMinimumDelay | BeginV3Log | EndV3Log | FakeEvent

text \<open>An event: its type, its time and the members of its subclass.\<close>

record 'e rtc_event =
  GetType :: RtcEventType
  timestamp_us :: int
  members :: 'e

definition timestamp_ms :: "'e rtc_event \<Rightarrow> int" where
  "timestamp_ms e = tdiv (timestamp_us e) 1000"

datatype FieldType = kFixed8 | kFixed32 | kFixed64 | kVarInt | kString

record EventParameters =
  event_name :: string
  event_id :: RtcEventType

record FieldParameters =
  field_name :: string
  field_id :: nat
  field_type :: FieldType
  value_width :: nat

definition kTimestampField :: nat where
  "kTimestampField = 0"

text \<open>The conversions of the framework, per width: \<open>ToSigned\<close> gives its answer and what it leaves in the variable.\<close>

record conversions =
  ToUnsigned :: "nat \<Rightarrow> int \<Rightarrow> u64"
  ToSigned :: "nat \<Rightarrow> u64 \<Rightarrow> bool \<times> int"

record int_kind =
  kind_bits :: nat
  kind_signed :: bool

definition EncodeAsUnsigned :: "conversions \<Rightarrow> int_kind \<Rightarrow> int \<Rightarrow> u64" where
  "EncodeAsUnsigned cv k v = (if kind_signed k then ToUnsigned cv (kind_bits k) v else word_of_int v)"

definition DecodeFromUnsignedToType :: "conversions \<Rightarrow> int_kind \<Rightarrow> u64 \<Rightarrow> int" where
  "DecodeFromUnsignedToType cv k v =
     (if kind_signed k then let (success, signed_value) = ToSigned cv (kind_bits k) v in signed_value
      else uint v mod 2 ^ kind_bits k)"

text \<open>The booleans are unsigned, and conversion to them tests against zero.\<close>

definition encode_bool :: "bool \<Rightarrow> u64" where
  "encode_bool b = (if b then 1 else 0)"

definition decode_bool :: "u64 \<Rightarrow> bool" where
  "decode_bool v \<longleftrightarrow> v \<noteq> 0"

section \<open>Extracting\<close>

fun ExtractRtcEventMember :: "RtcEventType \<Rightarrow> ('e \<Rightarrow> abort + 'v) \<Rightarrow> 'e rtc_event list \<Rightarrow> 'v list \<Rightarrow> abort + 'v list" where
  "ExtractRtcEventMember ty enc [] values = Inr values"
| "ExtractRtcEventMember ty enc (e # es) values =
     check (GetType e = ty) (bindE (enc (members e)) (\<lambda>v. ExtractRtcEventMember ty enc es (values @ [v])))"

record ValuesWithPositions =
  position_mask :: "bool list"
  pos_values :: "u64 list"

fun ExtractRtcEventMember_optional ::
  "RtcEventType \<Rightarrow> ('v \<Rightarrow> u64) \<Rightarrow> ('e \<Rightarrow> 'v option) \<Rightarrow> 'e rtc_event list \<Rightarrow> ValuesWithPositions \<Rightarrow> abort + ValuesWithPositions" where
  "ExtractRtcEventMember_optional ty enc get [] r = Inr r"
| "ExtractRtcEventMember_optional ty enc get (e # es) r =
     check (GetType e = ty)
       (let field = get (members e);
            r1 = r\<lparr>position_mask := position_mask r @ [field \<noteq> None]\<rparr>;
            r2 = (case field of Some x \<Rightarrow> r1\<lparr>pos_values := pos_values r1 @ [enc x]\<rparr> | None \<Rightarrow> r1)
        in ExtractRtcEventMember_optional ty enc get es r2)"

section \<open>Populating\<close>

fun populate_loop :: "('v \<Rightarrow> 'l \<Rightarrow> 'l) \<Rightarrow> 'v list \<Rightarrow> 'l list \<Rightarrow> 'l list" where
  "populate_loop put (v # vs) (l # ls) = put v l # populate_loop put vs ls"
| "populate_loop put _ ls = ls"

definition PopulateRtcEventMember :: "('v \<Rightarrow> 'l \<Rightarrow> 'l) \<Rightarrow> 'v list \<Rightarrow> 'l list \<Rightarrow> abort + parse_status \<times> 'l list" where
  "PopulateRtcEventMember put values output = check (length output = length values) (Inr (Success, populate_loop put values output))"

text \<open>The loop for an enum returns at the first value that does not decode; what was written before stays.\<close>

fun populate_enum_loop :: "('v \<Rightarrow> 't status_or) \<Rightarrow> ('t \<Rightarrow> 'l \<Rightarrow> 'l) \<Rightarrow> 'v list \<Rightarrow> 'l list \<Rightarrow> parse_status \<times> 'l list" where
  "populate_enum_loop decode put (v # vs) (l # ls) =
     (let result = decode v
      in if \<not> status_ok (or_status result) then (or_status result, l # ls)
         else let (st, ls') = populate_enum_loop decode put vs ls in (st, put (or_value result) l # ls'))"
| "populate_enum_loop decode put _ ls = (Success, ls)"

definition PopulateRtcEventMember_enum ::
  "('v \<Rightarrow> 't status_or) \<Rightarrow> ('t \<Rightarrow> 'l \<Rightarrow> 'l) \<Rightarrow> 'v list \<Rightarrow> 'l list \<Rightarrow> abort + parse_status \<times> 'l list" where
  "PopulateRtcEventMember_enum decode put values output =
     check (length output = length values) (Inr (populate_enum_loop decode put values output))"

fun timestamp_loop :: "conversions \<Rightarrow> (int \<Rightarrow> 'l \<Rightarrow> 'l) \<Rightarrow> u64 list \<Rightarrow> 'l list \<Rightarrow> abort + 'l list" where
  "timestamp_loop cv put (v # vs) (l # ls) =
     bindE (Timestamp_Millis (DecodeFromUnsignedToType cv \<lparr>kind_bits = 64, kind_signed = True\<rparr> v)) (\<lambda>t.
     bindE (timestamp_loop cv put vs ls) (\<lambda>ls'. Inr (put t l # ls')))"
| "timestamp_loop cv put _ ls = Inr ls"

definition PopulateRtcEventTimestamp ::
  "conversions \<Rightarrow> (int \<Rightarrow> 'l \<Rightarrow> 'l) \<Rightarrow> u64 list \<Rightarrow> 'l list \<Rightarrow> abort + parse_status \<times> 'l list" where
  "PopulateRtcEventTimestamp cv put values output =
     check (length values = length output) (bindE (timestamp_loop cv put values output) (\<lambda>ls. Inr (Success, ls)))"

text \<open>
  The batch is the view of the whole vector: the subview is computed and not used. The number of elements that are inserted counts the
  old ones too.
\<close>

definition ExtendLoggedBatch :: "'l \<Rightarrow> 'l list \<Rightarrow> nat \<Rightarrow> abort + 'l list" where
  "ExtendLoggedBatch fresh output new_elements =
     (let old_size = length output; output_batch = output @ replicate (old_size + new_elements) fresh
      in check (length output_batch = new_elements) (Inr output_batch))"

section \<open>Definitions of events\<close>

text \<open>A field: how its values leave the events and enter the logged records; which of the overloads is used depends on its type.\<close>

record ('e, 'l) field_definition =
  field_params :: FieldParameters
  extract_field :: "'e rtc_event list \<Rightarrow> abort + u64 list"
  populate_field :: "u64 list \<Rightarrow> 'l list \<Rightarrow> abort + parse_status \<times> 'l list"

definition int_field ::
  "conversions \<Rightarrow> RtcEventType \<Rightarrow> int_kind \<Rightarrow> ('e \<Rightarrow> int) \<Rightarrow> (int \<Rightarrow> 'l \<Rightarrow> 'l) \<Rightarrow> FieldParameters \<Rightarrow> ('e, 'l) field_definition" where
  "int_field cv ty k get put p =
     \<lparr>field_params = p, extract_field = (\<lambda>batch. ExtractRtcEventMember ty (\<lambda>e. Inr (EncodeAsUnsigned cv k (get e))) batch []),
      populate_field = PopulateRtcEventMember (\<lambda>v. put (DecodeFromUnsignedToType cv k v))\<rparr>"

definition bool_field ::
  "RtcEventType \<Rightarrow> ('e \<Rightarrow> bool) \<Rightarrow> (bool \<Rightarrow> 'l \<Rightarrow> 'l) \<Rightarrow> FieldParameters \<Rightarrow> ('e, 'l) field_definition" where
  "bool_field ty get put p =
     \<lparr>field_params = p, extract_field = (\<lambda>batch. ExtractRtcEventMember ty (\<lambda>e. Inr (encode_bool (get e))) batch []),
      populate_field = PopulateRtcEventMember (\<lambda>v. put (decode_bool v))\<rparr>"

definition enum_field ::
  "RtcEventType \<Rightarrow> ('t \<Rightarrow> abort + u64) \<Rightarrow> (u64 \<Rightarrow> 't status_or) \<Rightarrow> ('e \<Rightarrow> 't) \<Rightarrow> ('t \<Rightarrow> 'l \<Rightarrow> 'l) \<Rightarrow> FieldParameters \<Rightarrow> ('e, 'l) field_definition" where
  "enum_field ty encode decode get put p =
     \<lparr>field_params = p, extract_field = (\<lambda>batch. ExtractRtcEventMember ty (\<lambda>e. encode (get e)) batch []),
      populate_field = PopulateRtcEventMember_enum decode put\<rparr>"

text \<open>The encoder and the parser of the framework: \<open>'w\<close> and \<open>'p\<close> are their states, \<open>'b\<close> the bytes.\<close>

record ('e, 'w, 'p, 'b) log_wire =
  EventEncoder :: "EventParameters \<Rightarrow> 'e rtc_event list \<Rightarrow> 'w"
  EncodeField :: "FieldParameters \<Rightarrow> u64 list \<Rightarrow> 'w \<Rightarrow> 'w"
  AsString :: "'w \<Rightarrow> 'b"
  Initialize :: "'b \<Rightarrow> bool \<Rightarrow> parse_status \<times> 'p"
  NumEventsInBatch :: "'p \<Rightarrow> nat"
  ParseNumericField :: "FieldParameters \<Rightarrow> 'p \<Rightarrow> u64 list status_or \<times> 'p"

fun EncodeImpl :: "('e, 'w, 'p, 'b) log_wire \<Rightarrow> ('e, 'l) field_definition list \<Rightarrow> 'w \<Rightarrow> 'e rtc_event list \<Rightarrow> abort + 'w" where
  "EncodeImpl wr [] encoder batch = Inr encoder"
| "EncodeImpl wr (f # rest) encoder batch =
     bindE (extract_field f batch) (\<lambda>values. EncodeImpl wr rest (EncodeField wr (field_params f) values encoder) batch)"

fun ParseImpl :: "('e, 'w, 'p, 'b) log_wire \<Rightarrow> ('e, 'l) field_definition list \<Rightarrow> 'p \<Rightarrow> 'l list \<Rightarrow> abort + parse_status \<times> 'l list" where
  "ParseImpl wr [] parser output_batch = Inr (Success, output_batch)"
| "ParseImpl wr (f # rest) parser output_batch =
     (let (result, parser') = ParseNumericField wr (field_params f) parser
      in if \<not> status_ok (or_status result) then Inr (or_status result, output_batch)
         else bindE (value_of result) (\<lambda>values. bindE (populate_field f values output_batch) (\<lambda>(status, output_batch').
           if \<not> status_ok status then Inr (status, output_batch') else ParseImpl wr rest parser' output_batch')))"

definition EncodeBatch ::
  "('e, 'w, 'p, 'b) log_wire \<Rightarrow> EventParameters \<Rightarrow> ('e, 'l) field_definition list \<Rightarrow> 'e rtc_event list \<Rightarrow> abort + 'b" where
  "EncodeBatch wr ps fds batch =
     bindE (EncodeImpl wr fds (EventEncoder wr ps batch) batch) (\<lambda>encoder. Inr (AsString wr encoder))"

definition timestamp_params :: FieldParameters where
  "timestamp_params = \<lparr>field_name = ''timestamp_ms'', field_id = kTimestampField, field_type = kVarInt, value_width = 64\<rparr>"

definition ParseBatch ::
  "conversions \<Rightarrow> ('e, 'w, 'p, 'b) log_wire \<Rightarrow> 'l \<Rightarrow> (int \<Rightarrow> 'l \<Rightarrow> 'l) \<Rightarrow> ('e, 'l) field_definition list \<Rightarrow> 'b \<Rightarrow> bool \<Rightarrow> 'l list \<Rightarrow>
   abort + parse_status \<times> 'l list" where
  "ParseBatch cv wr fresh put_time fds s batched output =
     (let (status, parser) = Initialize wr s batched
      in if \<not> status_ok status then Inr (status, output)
         else bindE (ExtendLoggedBatch fresh output (NumEventsInBatch wr parser)) (\<lambda>output_batch.
           let (result, parser') = ParseNumericField wr timestamp_params parser
           in if \<not> status_ok (or_status result) then Inr (or_status result, output_batch)
              else bindE (value_of result) (\<lambda>values.
                bindE (PopulateRtcEventTimestamp cv put_time values output_batch) (\<lambda>(status, output_batch').
                  if \<not> status_ok status then Inr (status, output_batch') else ParseImpl wr fds parser' output_batch'))))"

section \<open>Three events\<close>

datatype BandwidthUsage = kBwNormal | kBwUnderusing | kBwOverusing | kLast

text \<open>The last enumerator is only a count; to encode it fails a check.\<close>

fun encode_usage :: "BandwidthUsage \<Rightarrow> abort + u64" where
  "encode_usage kBwNormal = Inr 0"
| "encode_usage kBwUnderusing = Inr 1"
| "encode_usage kBwOverusing = Inr 2"
| "encode_usage kLast = Inl CheckFailed"

definition decode_usage :: "u64 \<Rightarrow> BandwidthUsage status_or" where
  "decode_usage x =
     (if x = 0 then \<lparr>or_status = Success, or_value = kBwNormal\<rparr>
      else if x = 1 then \<lparr>or_status = Success, or_value = kBwUnderusing\<rparr>
      else if x = 2 then \<lparr>or_status = Success, or_value = kBwOverusing\<rparr>
      else \<lparr>or_status = Error ''Failed to decode BandwidthUsage enum'' ''rtc_event_bwe_update_delay_based.h'' ''69'', or_value = kBwNormal\<rparr>)"

record LoggedBweDelayBasedUpdate =
  bwe_timestamp :: int
  bitrate_bps :: int
  detector_state :: BandwidthUsage

definition fresh_bwe :: LoggedBweDelayBasedUpdate where
  "fresh_bwe = \<lparr>bwe_timestamp = MinusInfinityVal, bitrate_bps = 0, detector_state = kBwNormal\<rparr>"

text \<open>The members of the event: the bit rate and the state of the detector.\<close>

definition bwe_fields :: "conversions \<Rightarrow> (int \<times> BandwidthUsage, LoggedBweDelayBasedUpdate) field_definition list" where
  "bwe_fields cv =
     [int_field cv BweUpdateDelayBased \<lparr>kind_bits = 32, kind_signed = True\<rparr> fst (\<lambda>v l. l\<lparr>bitrate_bps := v\<rparr>)
        \<lparr>field_name = ''bitrate_bps'', field_id = 1, field_type = kVarInt, value_width = 32\<rparr>,
      enum_field BweUpdateDelayBased encode_usage decode_usage snd (\<lambda>v l. l\<lparr>detector_state := v\<rparr>)
        \<lparr>field_name = ''detector_state'', field_id = 2, field_type = kVarInt, value_width = 64\<rparr>]"

definition bwe_Encode where
  "bwe_Encode cv wr batch = EncodeBatch wr \<lparr>event_name = ''BweDelayBased'', event_id = BweUpdateDelayBased\<rparr> (bwe_fields cv) batch"

definition bwe_Parse where
  "bwe_Parse cv wr encoded batched output = ParseBatch cv wr fresh_bwe (\<lambda>t l. l\<lparr>bwe_timestamp := t\<rparr>) (bwe_fields cv) encoded batched output"

record LoggedAudioPlayoutEvent =
  playout_timestamp :: int
  playout_ssrc :: int

definition fresh_playout :: LoggedAudioPlayoutEvent where
  "fresh_playout = \<lparr>playout_timestamp = MinusInfinityVal, playout_ssrc = 0\<rparr>"

definition playout_fields :: "conversions \<Rightarrow> (int, LoggedAudioPlayoutEvent) field_definition list" where
  "playout_fields cv =
     [int_field cv AudioPlayout \<lparr>kind_bits = 32, kind_signed = False\<rparr> (\<lambda>e. e) (\<lambda>v l. l\<lparr>playout_ssrc := v\<rparr>)
        \<lparr>field_name = ''ssrc'', field_id = 1, field_type = kFixed32, value_width = 32\<rparr>]"

definition playout_Encode where
  "playout_Encode cv wr batch = EncodeBatch wr \<lparr>event_name = ''AudioPlayout'', event_id = AudioPlayout\<rparr> (playout_fields cv) batch"

text \<open>The loop that sorts the events into the map by source; an absent entry is an empty vector.\<close>

fun sort_by_ssrc :: "LoggedAudioPlayoutEvent list \<Rightarrow> (int \<Rightarrow> LoggedAudioPlayoutEvent list) \<Rightarrow> int \<Rightarrow> LoggedAudioPlayoutEvent list" where
  "sort_by_ssrc [] output = output"
| "sort_by_ssrc (e # es) output = sort_by_ssrc es (output(playout_ssrc e := output (playout_ssrc e) @ [e]))"

definition playout_Parse where
  "playout_Parse cv wr encoded batched output =
     bindE (ParseBatch cv wr fresh_playout (\<lambda>t l. l\<lparr>playout_timestamp := t\<rparr>) (playout_fields cv) encoded batched []) (\<lambda>(status, temp_output).
       Inr (status, sort_by_ssrc temp_output output))"

record LoggedAlrStateEvent =
  alr_timestamp :: int
  in_alr :: bool

definition alr_fields :: "(bool, LoggedAlrStateEvent) field_definition list" where
  "alr_fields =
     [bool_field AlrStateEvent (\<lambda>e. e) (\<lambda>v l. l\<lparr>in_alr := v\<rparr>)
        \<lparr>field_name = ''in_alr'', field_id = 1, field_type = kFixed8, value_width = 1\<rparr>]"

definition alr_Encode where
  "alr_Encode wr batch = EncodeBatch wr \<lparr>event_name = ''AlrState'', event_id = AlrStateEvent\<rparr> alr_fields batch"

section \<open>What the framework promises\<close>

definition conv_ok :: "conversions \<Rightarrow> bool" where
  "conv_ok cv \<longleftrightarrow> (\<forall>b v. 0 < b \<and> b \<le> 64 \<and> - (2 ^ (b - 1)) \<le> v \<and> v < 2 ^ (b - 1) \<longrightarrow>
     ToSigned cv b (ToUnsigned cv b v) = (True, v) \<and> uint (ToUnsigned cv b v) < 2 ^ b)"

text \<open>The fields \<open>fs\<close> can be parsed one after the other.\<close>

fun can_read :: "('e, 'w, 'p, 'b) log_wire \<Rightarrow> 'p \<Rightarrow> (FieldParameters \<times> u64 list) list \<Rightarrow> bool" where
  "can_read wr p [] = True"
| "can_read wr p ((q, vs) # fs) = (fst (ParseNumericField wr q p) = \<lparr>or_status = Success, or_value = vs\<rparr> \<and> can_read wr (snd (ParseNumericField wr q p)) fs)"

definition write_log_fields :: "('e, 'w, 'p, 'b) log_wire \<Rightarrow> (FieldParameters \<times> u64 list) list \<Rightarrow> 'w \<Rightarrow> 'w" where
  "write_log_fields wr fs w = fold (\<lambda>(q, vs). EncodeField wr q vs) fs w"

definition time_kind :: int_kind where
  "time_kind = \<lparr>kind_bits = 64, kind_signed = True\<rparr>"

text \<open>
  A batch with one value per event in every field, within the width of the field and with ascending field numbers, is read
  back as it was written, the time stamps first; \<open>flag\<close> is how the size of the batch is signalled.
\<close>

definition log_wire_ok :: "conversions \<Rightarrow> (nat \<Rightarrow> bool) \<Rightarrow> ('e, 'w, 'p, 'b) log_wire \<Rightarrow> bool" where
  "log_wire_ok cv flag wr \<longleftrightarrow> (\<forall>ps batch fs.
     batch \<noteq> [] \<and> sorted_wrt (<) (kTimestampField # map (field_id \<circ> fst) fs) \<and>
     (\<forall>(q, vs) \<in> set fs. length vs = length batch \<and> (\<forall>v \<in> set vs. uint v < 2 ^ value_width q)) \<longrightarrow>
     (let (st, p) = Initialize wr (AsString wr (write_log_fields wr fs (EventEncoder wr ps batch))) (flag (length batch))
      in st = Success \<and> NumEventsInBatch wr p = length batch \<and>
         can_read wr p ((timestamp_params, map (\<lambda>e. EncodeAsUnsigned cv time_kind (timestamp_ms e)) batch) # fs)))"

section \<open>Batches\<close>

lemma extract_map:
  "\<forall>e \<in> set es. GetType e = ty \<and> enc (members e) = Inr (f e) \<Longrightarrow> ExtractRtcEventMember ty enc es acc = Inr (acc @ map f es)"
  by (induction es arbitrary: acc) (auto simp: check_def)

lemma populate_loop_map: "populate_loop put (map f es) (map g es) = map (\<lambda>e. put (f e) (g e)) es"
  by (induction es) auto

lemma populate_enum_map:
  "\<forall>e \<in> set es. decode (f e) = \<lparr>or_status = Success, or_value = h e\<rparr> \<Longrightarrow>
   populate_enum_loop decode put (map f es) (map g es) = (Success, map (\<lambda>e. put (h e) (g e)) es)"
  by (induction es) (auto simp: status_ok_def Success_def)

lemma int_roundtrip:
  assumes "conv_ok cv" "0 < kind_bits k" "kind_bits k \<le> 64"
    and "if kind_signed k then - (2 ^ (kind_bits k - 1)) \<le> v \<and> v < 2 ^ (kind_bits k - 1) else 0 \<le> v \<and> v < 2 ^ kind_bits k"
  shows "DecodeFromUnsignedToType cv k (EncodeAsUnsigned cv k v) = v" "uint (EncodeAsUnsigned cv k v) < 2 ^ kind_bits k"
proof -
  have "v < 2 ^ 64" if "0 \<le> v" "v < 2 ^ kind_bits k"
    using that(2) power_increasing [of "kind_bits k" 64 "2 :: int"] assms(3) by simp
  then have "uint (word_of_int v :: u64) = v" if "0 \<le> v" "v < 2 ^ kind_bits k"
    using that by (simp add: unsigned_of_int take_bit_int_eq_self)
  then show "DecodeFromUnsignedToType cv k (EncodeAsUnsigned cv k v) = v" "uint (EncodeAsUnsigned cv k v) < 2 ^ kind_bits k"
    using assms by (auto simp: DecodeFromUnsignedToType_def EncodeAsUnsigned_def conv_ok_def split: if_splits)
qed

text \<open>A field is carried when extracting and populating compose to an update of each logged record by its event.\<close>

definition carries :: "('e, 'l) field_definition \<times> ('e rtc_event \<Rightarrow> u64) \<times> ('e rtc_event \<Rightarrow> 'l \<Rightarrow> 'l) \<Rightarrow> 'e rtc_event list \<Rightarrow> bool" where
  "carries t es = (case t of (f, val, upd) \<Rightarrow> extract_field f es = Inr (map val es) \<and>
     (\<forall>e \<in> set es. uint (val e) < 2 ^ value_width (field_params f)) \<and>
     (\<forall>g. populate_field f (map val es) (map g es) = Inr (Success, map (\<lambda>e. upd e (g e)) es)))"

definition on_wire :: "'e rtc_event list \<Rightarrow> (('e, 'l) field_definition \<times> ('e rtc_event \<Rightarrow> u64) \<times> 'u) list \<Rightarrow> (FieldParameters \<times> u64 list) list" where
  "on_wire es ts = map (\<lambda>(f, val, upd). (field_params f, map val es)) ts"

lemma encode_carried:
  "\<forall>t \<in> set ts. carries t es \<Longrightarrow> EncodeImpl wr (map fst ts) w es = Inr (write_log_fields wr (on_wire es ts) w)"
  by (induction ts arbitrary: w) (auto simp: carries_def on_wire_def write_log_fields_def)

lemma parse_carried:
  "\<forall>t \<in> set ts. carries t es \<Longrightarrow> can_read wr p (on_wire es ts) \<Longrightarrow>
   ParseImpl wr (map fst ts) p (map g es) = Inr (Success, map (\<lambda>e. fold (\<lambda>(f, val, upd). upd e) ts (g e)) es)"
proof (induction ts arbitrary: p g)
  case (Cons t ts)
  obtain f val upd where t: "t = (f, val, upd)" by (cases t)
  have c: "populate_field f (map val es) (map g es) = Inr (Success, map (\<lambda>e. upd e (g e)) es)" using Cons.prems(1) by (simp add: carries_def t)
  obtain p' where p': "ParseNumericField wr (field_params f) p = (\<lparr>or_status = Success, or_value = map val es\<rparr>, p')" "can_read wr p' (on_wire es ts)"
    using Cons.prems(2) by (cases "ParseNumericField wr (field_params f) p") (auto simp: on_wire_def t)
  have "ParseImpl wr (map fst ts) p' (map (\<lambda>e. upd e (g e)) es) = Inr (Success, map (\<lambda>e. fold (\<lambda>(f, val, upd). upd e) ts (upd e (g e))) es)"
    by (rule Cons.IH) (use Cons.prems p' in auto)
  then show ?case using p'(1) c by (simp add: t value_of_def status_ok_def Success_def check_def)
qed simp

text \<open>Event times far from the limits of the type, so that they are finite as time stamps.\<close>

definition time_ok :: "'e rtc_event \<Rightarrow> bool" where
  "time_ok e \<longleftrightarrow> \<bar>timestamp_us e\<bar> < 2 ^ 62"

lemma time_millis:
  assumes "time_ok e"
  shows "Timestamp_Millis (timestamp_ms e) = Inr (timestamp_ms e * 1000)" "\<bar>timestamp_ms e\<bar> < 2 ^ 53"
proof -
  have "\<bar>timestamp_ms e\<bar> = \<bar>timestamp_us e\<bar> div 1000" by (simp add: timestamp_ms_def tdiv_def abs_mult sgn_if)
  moreover have "\<bar>timestamp_us e\<bar> div 1000 < 2 ^ 53" using assms by (simp add: time_ok_def div_less_iff_less_mult)
  ultimately show b: "\<bar>timestamp_ms e\<bar> < 2 ^ 53" by simp
  then have "- 9223372036854775 < timestamp_ms e" "timestamp_ms e < 9223372036854775" by simp_all
  then show "Timestamp_Millis (timestamp_ms e) = Inr (timestamp_ms e * 1000)"
    by (simp add: Timestamp_Millis_def FromFraction_def check_def i64_def in_i64_def tdiv_def MinusInfinityVal_def PlusInfinityVal_def)
qed

lemma timestamp_loop_map:
  assumes "conv_ok cv"
  shows "\<forall>e \<in> set es. time_ok e \<Longrightarrow>
    timestamp_loop cv put (map (\<lambda>e. EncodeAsUnsigned cv time_kind (timestamp_ms e)) es) (map g es) =
    Inr (map (\<lambda>e. put (timestamp_ms e * 1000) (g e)) es)"
proof (induction es)
  case (Cons e es)
  have "time_ok e" using Cons.prems by simp
  note t = time_millis [OF this]
  have "DecodeFromUnsignedToType cv time_kind (EncodeAsUnsigned cv time_kind (timestamp_ms e)) = timestamp_ms e"
    by (rule int_roundtrip(1) [OF assms]) (use t(2) in \<open>auto simp: time_kind_def\<close>)
  then show ?case using Cons t(1) by (simp add: time_kind_def [symmetric])
qed simp

lemma batch_parses:
  assumes cv: "conv_ok cv" and wr: "log_wire_ok cv flag wr" and es: "es \<noteq> []" and c: "\<forall>t \<in> set ts. carries t es"
    and ids: "sorted_wrt (<) (kTimestampField # map (\<lambda>(f, _). field_id (field_params f)) ts)" and time: "\<forall>e \<in> set es. time_ok e"
  shows "\<exists>s p. EncodeBatch wr ps (map fst ts) es = Inr s \<and> Initialize wr s (flag (length es)) = (Success, p) \<and>
    ParseBatch cv wr fresh put (map fst ts) s (flag (length es)) [] =
      Inr (Success, map (\<lambda>e. fold (\<lambda>(f, val, upd). upd e) ts (put (timestamp_ms e * 1000) fresh)) es)"
proof -
  define s where "s = AsString wr (write_log_fields wr (on_wire es ts) (EventEncoder wr ps es))"
  obtain st p where i: "Initialize wr s (flag (length es)) = (st, p)" by fastforce
  have "map (field_id \<circ> fst) (on_wire es ts) = map (\<lambda>(f, _). field_id (field_params f)) ts" by (auto simp: on_wire_def)
  moreover have "\<forall>(q, vs) \<in> set (on_wire es ts). length vs = length es \<and> (\<forall>v \<in> set vs. uint v < 2 ^ value_width q)"
    using c by (fastforce simp: on_wire_def carries_def)
  ultimately have "es \<noteq> [] \<and> sorted_wrt (<) (kTimestampField # map (field_id \<circ> fst) (on_wire es ts)) \<and>
      (\<forall>(q, vs) \<in> set (on_wire es ts). length vs = length es \<and> (\<forall>v \<in> set vs. uint v < 2 ^ value_width q))" using es ids by simp
  from wr [unfolded log_wire_ok_def, THEN spec, THEN spec, THEN spec, THEN mp, OF this, of ps] have "st = Success \<and> NumEventsInBatch wr p = length es \<and>
      can_read wr p ((timestamp_params, map (\<lambda>e. EncodeAsUnsigned cv time_kind (timestamp_ms e)) es) # on_wire es ts)"
    unfolding s_def [symmetric] i by (simp only: Let_def prod.case)
  moreover obtain r p' where r: "ParseNumericField wr timestamp_params p = (r, p')" by fastforce
  ultimately have l: "st = Success" "NumEventsInBatch wr p = length es"
    "r = \<lparr>or_status = Success, or_value = map (\<lambda>e. EncodeAsUnsigned cv time_kind (timestamp_ms e)) es\<rparr>" "can_read wr p' (on_wire es ts)" by simp_all
  have fresh: "replicate (length es) fresh = map (\<lambda>_. fresh) es" by (simp add: map_replicate_const)
  have "ParseBatch cv wr fresh put (map fst ts) s (flag (length es)) [] = ParseImpl wr (map fst ts) p' (map (\<lambda>e. put (timestamp_ms e * 1000) fresh) es)"
    using timestamp_loop_map [OF cv time, of put "\<lambda>_. fresh"]
    by (simp add: ParseBatch_def i l r ExtendLoggedBatch_def check_def status_ok_def Success_def value_of_def PopulateRtcEventTimestamp_def fresh)
  moreover have "EncodeBatch wr ps (map fst ts) es = Inr s" by (simp add: EncodeBatch_def encode_carried [OF c] s_def)
  ultimately show ?thesis using i l(1) by (intro exI [of _ s] exI [of _ p]) (simp add: parse_carried [OF c l(4)])
qed

text \<open>The events that are there already make the check of the batch size fail.\<close>

lemma parse_onto_events:
  assumes "Initialize wr s batched = (Success, p)" "output \<noteq> []"
  shows "ParseBatch cv wr fresh put fds s batched output = Inl CheckFailed"
  using assms by (simp add: ParseBatch_def ExtendLoggedBatch_def check_def status_ok_def Success_def)

lemma int_field_carries:
  assumes cv: "conv_ok cv" and k: "0 < kind_bits k" "kind_bits k \<le> 64" "kind_bits k \<le> value_width p"
    and es: "\<forall>e \<in> set es. GetType e = ty \<and> (if kind_signed k then - (2 ^ (kind_bits k - 1)) \<le> get (members e) \<and> get (members e) < 2 ^ (kind_bits k - 1)
      else 0 \<le> get (members e) \<and> get (members e) < 2 ^ kind_bits k)"
  shows "carries (int_field cv ty k get put p, \<lambda>e. EncodeAsUnsigned cv k (get (members e)), \<lambda>e. put (get (members e))) es"
proof -
  have v: "DecodeFromUnsignedToType cv k (EncodeAsUnsigned cv k (get (members e))) = get (members e)"
    "uint (EncodeAsUnsigned cv k (get (members e))) < 2 ^ kind_bits k" if "e \<in> set es" for e
    using int_roundtrip [OF cv k(1,2), of "get (members e)"] es that by blast+
  have "uint (EncodeAsUnsigned cv k (get (members e))) < 2 ^ value_width p" if "e \<in> set es" for e
    using v(2) [OF that] power_increasing [OF k(3), of "2 :: int"] by linarith
  moreover have "map (\<lambda>e. put (DecodeFromUnsignedToType cv k (EncodeAsUnsigned cv k (get (members e)))) (g e)) es = map (\<lambda>e. put (get (members e)) (g e)) es" for g
    using v(1) by simp
  moreover have "ExtractRtcEventMember ty (\<lambda>e. Inr (EncodeAsUnsigned cv k (get e))) es [] = Inr (map (\<lambda>e. EncodeAsUnsigned cv k (get (members e))) es)"
    using extract_map [of es ty "\<lambda>e. Inr (EncodeAsUnsigned cv k (get e))" "\<lambda>e. EncodeAsUnsigned cv k (get (members e))" "[]"] es by simp
  ultimately show ?thesis by (simp add: carries_def int_field_def PopulateRtcEventMember_def check_def populate_loop_map)
qed

definition usage_code :: "BandwidthUsage \<Rightarrow> u64" where
  "usage_code x = (case encode_usage x of Inr v \<Rightarrow> v | Inl _ \<Rightarrow> 0)"

lemma usage_roundtrip:
  assumes "x \<noteq> kLast"
  shows "encode_usage x = Inr (usage_code x)" "decode_usage (usage_code x) = \<lparr>or_status = Success, or_value = x\<rparr>"
  using assms by (cases x; simp add: usage_code_def decode_usage_def)+

lemma uint_64: "uint (w :: u64) < 18446744073709551616"
  using uint_lt2p [of w] by simp

lemma usage_field_carries:
  assumes "\<forall>e \<in> set es. GetType e = ty \<and> get (members e) \<noteq> kLast" "value_width p = 64"
  shows "carries (enum_field ty encode_usage decode_usage get put p, \<lambda>e. usage_code (get (members e)), \<lambda>e. put (get (members e))) es"
proof -
  have "ExtractRtcEventMember ty (\<lambda>e. encode_usage (get e)) es [] = Inr (map (\<lambda>e. usage_code (get (members e))) es)"
    using extract_map [of es ty "\<lambda>e. encode_usage (get e)" "\<lambda>e. usage_code (get (members e))" "[]"] assms(1) usage_roundtrip by simp
  moreover have "populate_enum_loop decode_usage put (map (\<lambda>e. usage_code (get (members e))) es) (map g es) = (Success, map (\<lambda>e. put (get (members e)) (g e)) es)" for g
    by (rule populate_enum_map) (use assms(1) usage_roundtrip in simp)
  ultimately show ?thesis using assms(2) by (simp add: carries_def enum_field_def PopulateRtcEventMember_enum_def check_def uint_64)
qed

lemma bool_field_carries:
  assumes "\<forall>e \<in> set es. GetType e = ty" "value_width p = 1"
  shows "carries (bool_field ty get put p, \<lambda>e. encode_bool (get (members e)), \<lambda>e. put (get (members e))) es"
proof -
  have "decode_bool (encode_bool b) = b" for b by (simp add: decode_bool_def encode_bool_def)
  moreover have "uint (encode_bool b) < 2" for b by (simp add: encode_bool_def)
  moreover have "ExtractRtcEventMember ty (\<lambda>e. Inr (encode_bool (get e))) es [] = Inr (map (\<lambda>e. encode_bool (get (members e))) es)"
    using extract_map [of es ty "\<lambda>e. Inr (encode_bool (get e))" "\<lambda>e. encode_bool (get (members e))" "[]"] assms(1) by simp
  ultimately show ?thesis using assms(2)
    by (simp add: carries_def bool_field_def PopulateRtcEventMember_def check_def populate_loop_map)
qed

definition logged_bwe :: "(int \<times> BandwidthUsage) rtc_event \<Rightarrow> LoggedBweDelayBasedUpdate" where
  "logged_bwe e = \<lparr>bwe_timestamp = timestamp_ms e * 1000, bitrate_bps = fst (members e), detector_state = snd (members e)\<rparr>"

text \<open>
  C39. Parsing an encoded batch of bandwidth updates gives the events back, with their times cut to milliseconds, provided that what the encoder writes the
  parser reads. But it works only into an empty vector: onto events that are there already, as when a log has a second batch, the
  check of the batch size fails.
\<close>

theorem bwe_batch_roundtrip:
  assumes cv: "conv_ok cv" and wr: "log_wire_ok cv flag wr" and es: "es \<noteq> []"
    and ok: "\<forall>e \<in> set es. GetType e = BweUpdateDelayBased \<and> time_ok e \<and> - (2 ^ 31) \<le> fst (members e) \<and> fst (members e) < 2 ^ 31 \<and> snd (members e) \<noteq> kLast"
  shows "\<exists>s. bwe_Encode cv wr es = Inr s \<and> bwe_Parse cv wr s (flag (length es)) [] = Inr (Success, map logged_bwe es) \<and>
    (\<forall>output. output \<noteq> [] \<longrightarrow> bwe_Parse cv wr s (flag (length es)) output = Inl CheckFailed)"
proof -
  let ?f1 = "int_field cv BweUpdateDelayBased \<lparr>kind_bits = 32, kind_signed = True\<rparr> fst (\<lambda>v l. l\<lparr>bitrate_bps := v\<rparr>)
      \<lparr>field_name = ''bitrate_bps'', field_id = 1, field_type = kVarInt, value_width = 32\<rparr>"
  let ?f2 = "enum_field BweUpdateDelayBased encode_usage decode_usage snd (\<lambda>v l. l\<lparr>detector_state := v\<rparr>)
      \<lparr>field_name = ''detector_state'', field_id = 2, field_type = kVarInt, value_width = 64\<rparr>"
  let ?ts = "[(?f1, \<lambda>e. EncodeAsUnsigned cv \<lparr>kind_bits = 32, kind_signed = True\<rparr> (fst (members e)), \<lambda>e l. l\<lparr>bitrate_bps := fst (members e)\<rparr>),
      (?f2, \<lambda>e. usage_code (snd (members e)), \<lambda>e l. l\<lparr>detector_state := snd (members e)\<rparr>)]"
  have 1: "carries (?ts ! 0) es" unfolding nth_Cons_0 by (rule int_field_carries [OF cv]) (use ok in auto)
  have 2: "carries (?ts ! 1) es" unfolding One_nat_def nth_Cons_Suc nth_Cons_0 by (rule usage_field_carries) (use ok in auto)
  have c: "\<forall>t \<in> set ?ts. carries t es" using 1 2 by simp
  have ids: "sorted_wrt (<) (kTimestampField # map (\<lambda>(f, _). field_id (field_params f)) ?ts)"
    by (simp add: kTimestampField_def int_field_def enum_field_def)
  have time: "\<forall>e \<in> set es. time_ok e" using ok by blast
  from batch_parses [OF cv wr es c ids time, of "\<lparr>event_name = ''BweDelayBased'', event_id = BweUpdateDelayBased\<rparr>" fresh_bwe
      "\<lambda>t l. l\<lparr>bwe_timestamp := t\<rparr>"] obtain s p where
    s: "bwe_Encode cv wr es = Inr s" "Initialize wr s (flag (length es)) = (Success, p)"
      "bwe_Parse cv wr s (flag (length es)) [] = Inr (Success, map logged_bwe es)"
    by (auto simp: bwe_Encode_def bwe_Parse_def bwe_fields_def logged_bwe_def fresh_bwe_def)
  then show ?thesis using parse_onto_events [OF s(2)] by (auto simp: bwe_Parse_def)
qed

lemma sort_by_ssrc_spec: "sort_by_ssrc es m k = m k @ filter (\<lambda>e. playout_ssrc e = k) es"
  by (induction es arbitrary: m) auto

definition logged_playout :: "int rtc_event \<Rightarrow> LoggedAudioPlayoutEvent" where
  "logged_playout e = \<lparr>playout_timestamp = timestamp_ms e * 1000, playout_ssrc = members e\<rparr>"

text \<open>
  Parsing an encoded batch of playout events adds to the events of each source those of that source, in order, whatever the map holds already.
\<close>

theorem playout_batch_roundtrip:
  assumes cv: "conv_ok cv" and wr: "log_wire_ok cv flag wr" and es: "es \<noteq> []"
    and ok: "\<forall>e \<in> set es. GetType e = AudioPlayout \<and> time_ok e \<and> 0 \<le> members e \<and> members e < 2 ^ 32"
  shows "\<exists>s. playout_Encode cv wr es = Inr s \<and>
    playout_Parse cv wr s (flag (length es)) output =
      Inr (Success, \<lambda>k. output k @ filter (\<lambda>l. playout_ssrc l = k) (map logged_playout es))"
proof -
  let ?f = "int_field cv AudioPlayout \<lparr>kind_bits = 32, kind_signed = False\<rparr> (\<lambda>e. e) (\<lambda>v l. l\<lparr>playout_ssrc := v\<rparr>)
      \<lparr>field_name = ''ssrc'', field_id = 1, field_type = kFixed32, value_width = 32\<rparr>"
  let ?ts = "[(?f, \<lambda>e. EncodeAsUnsigned cv \<lparr>kind_bits = 32, kind_signed = False\<rparr> (members e), \<lambda>e l. l\<lparr>playout_ssrc := members e\<rparr>)]"
  have 1: "carries (?ts ! 0) es" unfolding nth_Cons_0 by (rule int_field_carries [OF cv]) (use ok in auto)
  have c: "\<forall>t \<in> set ?ts. carries t es" using 1 by simp
  have ids: "sorted_wrt (<) (kTimestampField # map (\<lambda>(f, _). field_id (field_params f)) ?ts)"
    by (simp add: kTimestampField_def int_field_def)
  have time: "\<forall>e \<in> set es. time_ok e" using ok by blast
  from batch_parses [OF cv wr es c ids time, of "\<lparr>event_name = ''AudioPlayout'', event_id = AudioPlayout\<rparr>" fresh_playout
      "\<lambda>t l. l\<lparr>playout_timestamp := t\<rparr>"] obtain s where
    s: "playout_Encode cv wr es = Inr s"
      "ParseBatch cv wr fresh_playout (\<lambda>t l. l\<lparr>playout_timestamp := t\<rparr>) (playout_fields cv) s (flag (length es)) [] = Inr (Success, map logged_playout es)"
    by (auto simp: playout_Encode_def playout_fields_def logged_playout_def fresh_playout_def)
  have "sort_by_ssrc (map logged_playout es) output = (\<lambda>k. output k @ filter (\<lambda>l. playout_ssrc l = k) (map logged_playout es))"
    by (rule ext) (rule sort_by_ssrc_spec)
  then show ?thesis using s by (simp add: playout_Parse_def)
qed

definition fresh_alr :: LoggedAlrStateEvent where
  "fresh_alr = \<lparr>alr_timestamp = MinusInfinityVal, in_alr = False\<rparr>"

text \<open>
  An encoded batch of events on the application-limited state parses back to their times and flags; a flag takes one bit.
\<close>

theorem alr_batch_roundtrip:
  assumes cv: "conv_ok cv" and wr: "log_wire_ok cv flag wr" and es: "es \<noteq> []"
    and ok: "\<forall>e \<in> set es. GetType e = AlrStateEvent \<and> time_ok e"
  shows "\<exists>s. alr_Encode wr es = Inr s \<and>
    ParseBatch cv wr fresh_alr (\<lambda>t l. l\<lparr>alr_timestamp := t\<rparr>) alr_fields s (flag (length es)) [] =
      Inr (Success, map (\<lambda>e. \<lparr>alr_timestamp = timestamp_ms e * 1000, in_alr = members e\<rparr>) es)"
proof -
  let ?f = "bool_field AlrStateEvent (\<lambda>e. e) (\<lambda>v l. l\<lparr>in_alr := v\<rparr>)
      \<lparr>field_name = ''in_alr'', field_id = 1, field_type = kFixed8, value_width = 1\<rparr>"
  let ?ts = "[(?f, \<lambda>e. encode_bool (members e), \<lambda>e l. l\<lparr>in_alr := members e\<rparr>)]"
  have 1: "carries (?ts ! 0) es" unfolding nth_Cons_0 by (rule bool_field_carries) (use ok in auto)
  have c: "\<forall>t \<in> set ?ts. carries t es" using 1 by simp
  have ids: "sorted_wrt (<) (kTimestampField # map (\<lambda>(f, _). field_id (field_params f)) ?ts)"
    by (simp add: kTimestampField_def bool_field_def)
  have time: "\<forall>e \<in> set es. time_ok e" using ok by blast
  from batch_parses [OF cv wr es c ids time, of "\<lparr>event_name = ''AlrState'', event_id = AlrStateEvent\<rparr>" fresh_alr
      "\<lambda>t l. l\<lparr>alr_timestamp := t\<rparr>"] show ?thesis
    by (auto simp: alr_Encode_def alr_fields_def fresh_alr_def)
qed

text \<open>
  When the batch of playout events starts well but its time stamps cannot be read, the status is the error, and yet as many events as the batch announced, which
  nobody logged, are added to source zero.
\<close>

theorem failed_playout_adds_events:
  assumes i: "Initialize wr s batched = (Success, p)"
    and t: "ParseNumericField wr timestamp_params p = (r, parser')" and bad: "\<not> status_ok (or_status r)"
  shows "playout_Parse cv wr s batched output =
    Inr (or_status r, output(0 := output 0 @ replicate (NumEventsInBatch wr p) fresh_playout))"
proof -
  have "ParseBatch cv wr fresh_playout (\<lambda>t l. l\<lparr>playout_timestamp := t\<rparr>) (playout_fields cv) s batched [] =
      Inr (or_status r, replicate (NumEventsInBatch wr p) fresh_playout)"
    using bad by (simp add: ParseBatch_def i t ExtendLoggedBatch_def check_def status_ok_def Success_def)
  moreover have "filter (\<lambda>e. playout_ssrc e = k) (replicate n fresh_playout) = (if k = 0 then replicate n fresh_playout else [])" for k n
    by (simp add: fresh_playout_def)
  ultimately show ?thesis by (simp add: playout_Parse_def fun_eq_iff sort_by_ssrc_spec)
qed

text \<open>
  Extracting an optional field gives the mask of the events that have a value, and the values of exactly those, in order: there are as
  many values as set positions.
\<close>

theorem optional_extraction:
  assumes "\<forall>e \<in> set es. GetType e = ty"
  shows "\<exists>r. ExtractRtcEventMember_optional ty enc get es \<lparr>position_mask = [], pos_values = []\<rparr> = Inr r
    \<and> position_mask r = map (\<lambda>e. get (members e) \<noteq> None) es
    \<and> pos_values r = map (enc \<circ> the) (filter (\<lambda>x. x \<noteq> None) (map (get \<circ> members) es))
    \<and> length (pos_values r) = length (filter id (position_mask r))"
proof -
  have "ExtractRtcEventMember_optional ty enc get es r =
      Inr (r\<lparr>position_mask := position_mask r @ map (\<lambda>e. get (members e) \<noteq> None) es,
        pos_values := pos_values r @ map (enc \<circ> the) (filter (\<lambda>x. x \<noteq> None) (map (get \<circ> members) es))\<rparr>)" for r
    using assms by (induction es arbitrary: r) (auto simp: check_def split: option.splits)
  moreover have "length (filter (\<lambda>x. x \<noteq> None) (map (get \<circ> members) es)) = length (filter id (map (\<lambda>e. get (members e) \<noteq> None) es))"
    by (simp add: filter_map comp_def)
  ultimately show ?thesis by simp
qed

section \<open>A framework that keeps its promises\<close>

definition plain_conv :: conversions where
  "plain_conv = \<lparr>ToUnsigned = (\<lambda>b v. word_of_int (v mod 2 ^ b)),
     ToSigned = (\<lambda>b w. (True, if uint w < 2 ^ (b - 1) then uint w else uint w - 2 ^ b))\<rparr>"

definition plain_log :: "('e, (nat \<times> u64 list) list, (nat \<times> u64 list) list, (nat \<times> u64 list) list) log_wire" where
  "plain_log = \<lparr>EventEncoder = (\<lambda>ps batch. [(0, map (\<lambda>e. EncodeAsUnsigned plain_conv time_kind (timestamp_ms e)) batch)]),
     EncodeField = (\<lambda>q vs w. w @ [(field_id q, vs)]), AsString = (\<lambda>w. w), Initialize = (\<lambda>s batched. (Success, s)),
     NumEventsInBatch = (\<lambda>p. length (snd (hd p))),
     ParseNumericField = (\<lambda>q p. case p of (i, vs) # rest \<Rightarrow> if i = field_id q then (\<lparr>or_status = Success, or_value = vs\<rparr>, rest)
         else (\<lparr>or_status = Error ''no such field'' ''plain'' ''1'', or_value = []\<rparr>, p)
       | [] \<Rightarrow> (\<lparr>or_status = Error ''end'' ''plain'' ''2'', or_value = []\<rparr>, []))\<rparr>"

lemma plain_conv_ok: "conv_ok plain_conv"
  unfolding conv_ok_def
proof (intro allI impI)
  fix b :: nat and v :: int
  assume a: "0 < b \<and> b \<le> 64 \<and> - (2 ^ (b - 1)) \<le> v \<and> v < 2 ^ (b - 1)"
  have p: "(2 :: int) ^ b = 2 * 2 ^ (b - 1)" using a by (metis power_minus_mult mult.commute)
  have "(2 :: int) ^ b \<le> 2 ^ 64" using a by (intro power_increasing) auto
  moreover have m: "0 \<le> v mod 2 ^ b" "v mod 2 ^ b < 2 ^ b" by simp_all
  ultimately have "v mod 2 ^ b < 2 ^ 64" by linarith
  then have u: "uint (word_of_int (v mod 2 ^ b) :: u64) = v mod 2 ^ b" using m(1) by (simp add: unsigned_of_int take_bit_int_eq_self_iff)
  have "v mod 2 ^ b = (if 0 \<le> v then v else v + 2 ^ b)"
  proof (cases "0 \<le> v")
    case False
    have "(v + 2 ^ b) mod 2 ^ b = v + 2 ^ b" using a False p by (intro mod_pos_pos_trivial) linarith+
    then show ?thesis using False by simp
  qed (use a p in simp)
  then show "ToSigned plain_conv b (ToUnsigned plain_conv b v) = (True, v) \<and> uint (ToUnsigned plain_conv b v) < 2 ^ b"
    using u m a p by (auto simp: plain_conv_def)
qed

lemma plain_log_ok: "log_wire_ok plain_conv flag plain_log"
proof -
  have w: "write_log_fields plain_log fs w = w @ map (\<lambda>(q, vs). (field_id q, vs)) fs" for fs and w :: "(nat \<times> u64 list) list"
    by (induction fs arbitrary: w) (auto simp: write_log_fields_def plain_log_def)
  have r: "can_read plain_log (map (\<lambda>(q, vs). (field_id q, vs)) fs) fs" for fs
    by (induction fs) (auto simp: plain_log_def)
  show ?thesis unfolding log_wire_ok_def w using r by (auto simp: plain_log_def timestamp_params_def kTimestampField_def)
qed

theorem bwe_batch_roundtrip_witness:
  "\<exists>s. bwe_Encode plain_conv plain_log [\<lparr>GetType = BweUpdateDelayBased, timestamp_us = 5999, members = (- 3, kBwOverusing)\<rparr>] = Inr s \<and>
    bwe_Parse plain_conv plain_log s False [] = Inr (Success, [\<lparr>bwe_timestamp = 5000, bitrate_bps = - 3, detector_state = kBwOverusing\<rparr>]) \<and>
    bwe_Parse plain_conv plain_log s False [fresh_bwe] = Inl CheckFailed"
  using bwe_batch_roundtrip [OF plain_conv_ok plain_log_ok [of "\<lambda>n. 1 < n"],
      of "[\<lparr>GetType = BweUpdateDelayBased, timestamp_us = 5999, members = (- 3, kBwOverusing)\<rparr>]"]
  by (auto simp: time_ok_def logged_bwe_def timestamp_ms_def tdiv_def)

theorem playout_batch_roundtrip_witness:
  "\<exists>s. playout_Encode plain_conv plain_log [\<lparr>GetType = AudioPlayout, timestamp_us = 1000, members = 7\<rparr>] = Inr s \<and>
    (\<exists>m. playout_Parse plain_conv plain_log s False (\<lambda>_. [fresh_playout]) = Inr (Success, m) \<and>
      m 7 = [fresh_playout, \<lparr>playout_timestamp = 1000, playout_ssrc = 7\<rparr>] \<and> m 8 = [fresh_playout])"
  using playout_batch_roundtrip [OF plain_conv_ok plain_log_ok [of "\<lambda>n. 1 < n"],
      of "[\<lparr>GetType = AudioPlayout, timestamp_us = 1000, members = 7\<rparr>]" "\<lambda>_. [fresh_playout]"]
  by (auto simp: time_ok_def logged_playout_def timestamp_ms_def tdiv_def)

theorem failed_playout_adds_events_witness:
  "\<exists>e m. playout_Parse plain_conv (plain_log :: (int, _, _, _) log_wire) [(3, [1, 2])] True (\<lambda>_. []) = Inr (e, m) \<and> m 0 = [fresh_playout, fresh_playout]"
proof -
  let ?r = "\<lparr>or_status = Error ''no such field'' ''plain'' ''1'', or_value = []\<rparr> :: u64 list status_or"
  have i: "Initialize (plain_log :: (int, _, _, _) log_wire) [(3, [1, 2])] True = (Success, [(3, [1, 2])])" by (simp add: plain_log_def)
  have t: "ParseNumericField (plain_log :: (int, _, _, _) log_wire) timestamp_params [(3, [1, 2])] = (?r, [(3, [1, 2])])"
    by (simp add: plain_log_def timestamp_params_def kTimestampField_def)
  have bad: "\<not> status_ok (or_status ?r)" by (simp add: status_ok_def Error_def)
  have n: "NumEventsInBatch (plain_log :: (int, _, _, _) log_wire) [(3, [1, 2])] = 2" by (simp add: plain_log_def)
  show ?thesis using failed_playout_adds_events [OF i t bad, of plain_conv "\<lambda>_. []"] by (simp add: n numeral_2_eq_2)
qed

theorem optional_extraction_witness:
  "\<exists>r. ExtractRtcEventMember_optional FakeEvent (\<lambda>v. v) id
     [\<lparr>GetType = FakeEvent, timestamp_us = 0, members = Some 4\<rparr>, \<lparr>GetType = FakeEvent, timestamp_us = 0, members = None\<rparr>]
     \<lparr>position_mask = [], pos_values = []\<rparr> = Inr r \<and> position_mask r = [True, False] \<and> pos_values r = [4]"
  using optional_extraction [of "[\<lparr>GetType = FakeEvent, timestamp_us = 0, members = Some 4\<rparr>, \<lparr>GetType = FakeEvent, timestamp_us = 0, members = None\<rparr>]"
      FakeEvent "\<lambda>v. v" id] by auto

theorem alr_batch_roundtrip_witness:
  "\<exists>s. alr_Encode plain_log [\<lparr>GetType = AlrStateEvent, timestamp_us = 2000, members = True\<rparr>] = Inr s \<and>
    ParseBatch plain_conv plain_log fresh_alr (\<lambda>t l. l\<lparr>alr_timestamp := t\<rparr>) alr_fields s False [] =
      Inr (Success, [\<lparr>alr_timestamp = 2000, in_alr = True\<rparr>])"
  using alr_batch_roundtrip [OF plain_conv_ok plain_log_ok [of "\<lambda>n. 1 < n"],
      of "[\<lparr>GetType = AlrStateEvent, timestamp_us = 2000, members = True\<rparr>]"]
  by (auto simp: time_ok_def timestamp_ms_def tdiv_def)

end
