(* ===== verification/Codec_Factories.thy ===== *)
theory Codec_Factories
  imports Prelude
begin

text \<open>
  The codec factories that are assembled from implementations: \<^verbatim>\<open>video_encoder_factory_template.h\<close>, \<^verbatim>\<open>video_decoder_factory_template.h\<close>,
  \<^verbatim>\<open>audio_encoder_factory_template.h\<close> and \<^verbatim>\<open>audio_decoder_factory_template.h\<close>. The template arguments are a list of implementations, each a record of its static
  functions; the recursion over the arguments is recursion over the list. The implementations themselves, the fuzzy matching of
  video formats and the reading of scalability modes are outside the headers. All these factories share one contract, asking the implementations in order, which is the locale
  \<open>ordered_choice\<close>. Theorems: which implementation answers, that the list of formats is the union without repetition, and when what a factory says and what it creates agree.
\<close>

section \<open>Asking in order\<close>

text \<open>\<open>ask\<close> goes through the implementations and lets the first that accepts a request answer it.\<close>

locale ordered_choice =
  fixes accepts :: "'i \<Rightarrow> 'r \<Rightarrow> bool"
    and answer :: "'i \<Rightarrow> 'r \<Rightarrow> 'a"
    and refuse :: 'a
    and ask :: "'i list \<Rightarrow> 'r \<Rightarrow> 'a"
  assumes ask_Nil: "ask [] r = refuse"
    and ask_Cons: "ask (i # is) r = (if accepts i r then answer i r else ask is r)"
begin

lemma ask_find: "ask is r = (case find (\<lambda>i. accepts i r) is of None \<Rightarrow> refuse | Some i \<Rightarrow> answer i r)"
  by (induction "is") (auto simp: ask_Nil ask_Cons)

lemma ask_refused: "\<forall>i \<in> set is. \<not> accepts i r \<Longrightarrow> ask is r = refuse"
  by (induction "is") (auto simp: ask_Nil ask_Cons)

lemma ask_first:
  assumes "\<forall>j < n. \<not> accepts (is ! j) r" "n < length is" "accepts (is ! n) r"
  shows "ask is r = answer (is ! n) r"
  using assms
proof (induction "is" arbitrary: n)
  case (Cons i "is")
  show ?case
  proof (cases n)
    case (Suc m)
    have "ask is r = answer (is ! m) r"
    proof (rule Cons.IH)
      show "\<forall>j < m. \<not> accepts (is ! j) r"
      proof (intro allI impI)
        fix j assume "j < m"
        with Cons.prems(1) Suc have "\<not> accepts ((i # is) ! Suc j) r" by blast
        then show "\<not> accepts (is ! j) r" by simp
      qed
    qed (use Cons.prems Suc in simp_all)
    moreover have "\<not> accepts i r" using Cons.prems(1) Suc by force
    ultimately show ?thesis using Suc by (simp add: ask_Cons)
  qed (use Cons.prems in \<open>simp add: ask_Cons\<close>)
qed simp

lemma ask_append: "ask (is @ js) r = (if \<exists>i \<in> set is. accepts i r then ask is r else ask js r)"
  by (induction "is") (auto simp: ask_Nil ask_Cons)

end

section \<open>Video\<close>

text \<open>The parameters of a format are the entries of the map in the order of their keys.\<close>

record 'm SdpVideoFormat =
  vname :: string
  vparameters :: "(string \<times> string) list"
  scalability_modes :: "'m list"

record ('m, 'v, 'c) video_impl =
  SupportedFormats :: "'m SdpVideoFormat list"
  CreateCodec :: "'v \<Rightarrow> 'm SdpVideoFormat \<Rightarrow> 'c option"
  IsModeSupported :: "'m \<Rightarrow> bool"

definition IsFormatInList :: "'m SdpVideoFormat \<Rightarrow> 'm SdpVideoFormat list \<Rightarrow> bool" where
  "IsFormatInList format supported_formats =
     list_ex (\<lambda>s. vname s = vname format \<and> vparameters s = vparameters format) supported_formats"

text \<open>The loop that appends the formats of the others which are not in the list yet.\<close>

fun add_formats :: "'m SdpVideoFormat list \<Rightarrow> 'm SdpVideoFormat list \<Rightarrow> 'm SdpVideoFormat list" where
  "add_formats supported [] = supported"
| "add_formats supported (f # fs) = add_formats (if IsFormatInList f supported then supported else supported @ [f]) fs"

text \<open>A factory without implementations does not compile; the empty list is only the end of the recursion.\<close>

fun GetSupportedFormatsInternal :: "('m, 'v, 'c) video_impl list \<Rightarrow> 'm SdpVideoFormat list" where
  "GetSupportedFormatsInternal [] = []"
| "GetSupportedFormatsInternal (v # vs) =
     (if vs = [] then SupportedFormats v else add_formats (SupportedFormats v) (GetSupportedFormatsInternal vs))"

definition GetSupportedFormats :: "('m, 'v, 'c) video_impl list \<Rightarrow> 'm SdpVideoFormat list" where
  "GetSupportedFormats vs = GetSupportedFormatsInternal vs"

fun CreateInternal :: "'v \<Rightarrow> ('m, 'v, 'c) video_impl list \<Rightarrow> 'm SdpVideoFormat \<Rightarrow> 'c option" where
  "CreateInternal env [] format = None"
| "CreateInternal env (v # vs) format =
     (if IsFormatInList format (SupportedFormats v) then CreateCodec v env format else CreateInternal env vs format)"

text \<open>\<open>fuzzy\<close> is \<^verbatim>\<open>FuzzyMatchSdpVideoFormat\<close>.\<close>

definition CreateVideoEncoder ::
  "('m SdpVideoFormat list \<Rightarrow> 'm SdpVideoFormat \<Rightarrow> 'm SdpVideoFormat option) \<Rightarrow> ('m, 'v, 'c) video_impl list \<Rightarrow> 'v \<Rightarrow> 'm SdpVideoFormat \<Rightarrow> 'c option" where
  "CreateVideoEncoder fuzzy vs env format =
     (let matched = fuzzy (GetSupportedFormats vs) format
      in CreateInternal env vs (case matched of Some f \<Rightarrow> f | None \<Rightarrow> format))"

text \<open>\<open>from_string\<close> is \<^verbatim>\<open>ScalabilityModeFromString\<close>.\<close>

definition IsScalabilityModeSupported :: "(string \<Rightarrow> 'm option) \<Rightarrow> ('m, 'v, 'c) video_impl \<Rightarrow> string option \<Rightarrow> bool" where
  "IsScalabilityModeSupported from_string v mode_string =
     (case mode_string of None \<Rightarrow> True
      | Some s \<Rightarrow> (case from_string s of None \<Rightarrow> False | Some m \<Rightarrow> IsModeSupported v m))"

fun QueryCodecSupportInternal ::
  "(string \<Rightarrow> 'm option) \<Rightarrow> ('m, 'v, 'c) video_impl list \<Rightarrow> 'm SdpVideoFormat \<times> string option \<Rightarrow> bool" where
  "QueryCodecSupportInternal from_string [] q = False"
| "QueryCodecSupportInternal from_string (v # vs) q =
     (if IsFormatInList (fst q) (SupportedFormats v) then IsScalabilityModeSupported from_string v (snd q)
      else QueryCodecSupportInternal from_string vs q)"

definition QueryCodecSupport ::
  "(string \<Rightarrow> 'm option) \<Rightarrow> ('m, 'v, 'c) video_impl list \<Rightarrow> 'm SdpVideoFormat \<Rightarrow> string option \<Rightarrow> bool" where
  "QueryCodecSupport from_string vs format mode = QueryCodecSupportInternal from_string vs (format, mode)"

text \<open>The decoders: an implementation may or may not want the environment.\<close>

datatype ('m, 'v, 'c) create_decoder = WithEnvironment "'v \<Rightarrow> 'm SdpVideoFormat \<Rightarrow> 'c option" | WithoutEnvironment "'m SdpVideoFormat \<Rightarrow> 'c option"

record ('m, 'v, 'c) decoder_impl =
  DecoderFormats :: "'m SdpVideoFormat list"
  CreateDecoder :: "('m, 'v, 'c) create_decoder"

fun CreateVideoDecoderInternal :: "'v \<Rightarrow> ('m, 'v, 'c) decoder_impl list \<Rightarrow> 'm SdpVideoFormat \<Rightarrow> 'c option" where
  "CreateVideoDecoderInternal env [] format = None"
| "CreateVideoDecoderInternal env (v # vs) format =
     (if IsFormatInList format (DecoderFormats v)
      then (case CreateDecoder v of WithEnvironment c \<Rightarrow> c env format | WithoutEnvironment c \<Rightarrow> c format)
      else CreateVideoDecoderInternal env vs format)"

fun DecoderFormatsInternal :: "('m, 'v, 'c) decoder_impl list \<Rightarrow> 'm SdpVideoFormat list" where
  "DecoderFormatsInternal [] = []"
| "DecoderFormatsInternal (v # vs) =
     (if vs = [] then DecoderFormats v else add_formats (DecoderFormats v) (DecoderFormatsInternal vs))"

section \<open>Audio\<close>

record 'p Options =
  payload_type :: int
  codec_pair_id :: "'p option"

text \<open>
  An implementation of an audio encoder: \<open>'f\<close> are formats, \<open>'g\<close> configurations, \<open>'s\<close> entries of the list of codecs, \<open>'i\<close> the information
  about a codec. Of the three signatures of \<^verbatim>\<open>MakeAudioEncoder\<close> it has at least one.
\<close>

record ('f, 'g, 's, 'i, 'v, 'p, 'c) encoder_trait =
  EncoderConfig :: "'f \<Rightarrow> 'g option"
  AppendEncoders :: "'s list \<Rightarrow> 's list"
  QueryEncoder :: "'g \<Rightarrow> 'i"
  make_with_options :: "('v \<Rightarrow> 'g \<Rightarrow> 'p Options \<Rightarrow> 'c option) option"
  make_with_type :: "('g \<Rightarrow> int \<Rightarrow> 'c option) option"
  make_with_pair :: "('g \<Rightarrow> int \<Rightarrow> 'p option \<Rightarrow> 'c option) option"

text \<open>The ranked overloads: the first signature that is there.\<close>

definition CreateEncoder :: "('f, 'g, 's, 'i, 'v, 'p, 'c) encoder_trait \<Rightarrow> 'v \<Rightarrow> 'g \<Rightarrow> 'p Options \<Rightarrow> 'c option" where
  "CreateEncoder t env config options =
     (case make_with_options t of Some m \<Rightarrow> m env config options
      | None \<Rightarrow> (case make_with_type t of Some m \<Rightarrow> m config (payload_type options)
      | None \<Rightarrow> (case make_with_pair t of Some m \<Rightarrow> m config (payload_type options) (codec_pair_id options) | None \<Rightarrow> None)))"

fun AppendSupportedEncoders :: "('f, 'g, 's, 'i, 'v, 'p, 'c) encoder_trait list \<Rightarrow> 's list \<Rightarrow> 's list" where
  "AppendSupportedEncoders [] specs = specs"
| "AppendSupportedEncoders (t # ts) specs = AppendSupportedEncoders ts (AppendEncoders t specs)"

definition GetSupportedEncoders :: "('f, 'g, 's, 'i, 'v, 'p, 'c) encoder_trait list \<Rightarrow> 's list" where
  "GetSupportedEncoders ts = AppendSupportedEncoders ts []"

fun QueryAudioEncoder :: "('f, 'g, 's, 'i, 'v, 'p, 'c) encoder_trait list \<Rightarrow> 'f \<Rightarrow> 'i option" where
  "QueryAudioEncoder [] format = None"
| "QueryAudioEncoder (t # ts) format =
     (case EncoderConfig t format of Some config \<Rightarrow> Some (QueryEncoder t config) | None \<Rightarrow> QueryAudioEncoder ts format)"

fun CreateAudioEncoder :: "'v \<Rightarrow> 'p Options \<Rightarrow> ('f, 'g, 's, 'i, 'v, 'p, 'c) encoder_trait list \<Rightarrow> 'f \<Rightarrow> 'c option" where
  "CreateAudioEncoder env options [] format = None"
| "CreateAudioEncoder env options (t # ts) format =
     (case EncoderConfig t format of Some config \<Rightarrow> CreateEncoder t env config options | None \<Rightarrow> CreateAudioEncoder env options ts format)"

record ('f, 'g, 's, 'v, 'p, 'c) decoder_trait =
  DecoderConfig :: "'f \<Rightarrow> 'g option"
  AppendDecoders :: "'s list \<Rightarrow> 's list"
  make_env :: "('v \<Rightarrow> 'g \<Rightarrow> 'c option) option"
  make_plain :: "('g \<Rightarrow> 'c option) option"
  make_env_pair :: "('v \<Rightarrow> 'g \<Rightarrow> 'p option \<Rightarrow> 'c option) option"
  make_pair :: "('g \<Rightarrow> 'p option \<Rightarrow> 'c option) option"

definition CreateDecoder_ranked :: "('f, 'g, 's, 'v, 'p, 'c) decoder_trait \<Rightarrow> 'v \<Rightarrow> 'g \<Rightarrow> 'p option \<Rightarrow> 'c option" where
  "CreateDecoder_ranked t env config pair_id =
     (case make_env t of Some m \<Rightarrow> m env config
      | None \<Rightarrow> (case make_plain t of Some m \<Rightarrow> m config
      | None \<Rightarrow> (case make_env_pair t of Some m \<Rightarrow> m env config pair_id
      | None \<Rightarrow> (case make_pair t of Some m \<Rightarrow> m config pair_id | None \<Rightarrow> None))))"

fun AppendSupportedDecoders :: "('f, 'g, 's, 'v, 'p, 'c) decoder_trait list \<Rightarrow> 's list \<Rightarrow> 's list" where
  "AppendSupportedDecoders [] specs = specs"
| "AppendSupportedDecoders (t # ts) specs = AppendSupportedDecoders ts (AppendDecoders t specs)"

definition GetSupportedDecoders :: "('f, 'g, 's, 'v, 'p, 'c) decoder_trait list \<Rightarrow> 's list" where
  "GetSupportedDecoders ts = AppendSupportedDecoders ts []"

fun IsSupportedDecoder :: "('f, 'g, 's, 'v, 'p, 'c) decoder_trait list \<Rightarrow> 'f \<Rightarrow> bool" where
  "IsSupportedDecoder [] format = False"
| "IsSupportedDecoder (t # ts) format = (if DecoderConfig t format \<noteq> None then True else IsSupportedDecoder ts format)"

fun MakeAudioDecoder :: "'v \<Rightarrow> 'p option \<Rightarrow> ('f, 'g, 's, 'v, 'p, 'c) decoder_trait list \<Rightarrow> 'f \<Rightarrow> 'c option" where
  "MakeAudioDecoder env pair_id [] format = None"
| "MakeAudioDecoder env pair_id (t # ts) format =
     (case DecoderConfig t format of Some config \<Rightarrow> CreateDecoder_ranked t env config pair_id | None \<Rightarrow> MakeAudioDecoder env pair_id ts format)"

section \<open>The factories ask in order\<close>

interpretation encoders: ordered_choice "\<lambda>v f. IsFormatInList f (SupportedFormats v)" "\<lambda>v f. CreateCodec v env f" None "CreateInternal env" for env
  by unfold_locales auto

interpretation queries: ordered_choice "\<lambda>v q. IsFormatInList (fst q) (SupportedFormats v)"
    "\<lambda>v q. IsScalabilityModeSupported from_string v (snd q)" False "QueryCodecSupportInternal from_string" for from_string
  by unfold_locales auto

interpretation decoders: ordered_choice "\<lambda>v f. IsFormatInList f (DecoderFormats v)"
    "\<lambda>v f. case CreateDecoder v of WithEnvironment c \<Rightarrow> c env f | WithoutEnvironment c \<Rightarrow> c f" None "CreateVideoDecoderInternal env" for env
  by unfold_locales auto

interpretation audio_queries: ordered_choice "\<lambda>t f. EncoderConfig t f \<noteq> None" "\<lambda>t f. Some (QueryEncoder t (the (EncoderConfig t f)))" None QueryAudioEncoder
  by unfold_locales (auto split: option.splits)

interpretation audio_encoders: ordered_choice "\<lambda>t f. EncoderConfig t f \<noteq> None"
    "\<lambda>t f. CreateEncoder t env (the (EncoderConfig t f)) options" None "CreateAudioEncoder env options" for env options
  by unfold_locales (auto split: option.splits)

interpretation audio_support: ordered_choice "\<lambda>t f. DecoderConfig t f \<noteq> None" "\<lambda>t f. True" False IsSupportedDecoder
  by unfold_locales auto

interpretation audio_decoders: ordered_choice "\<lambda>t f. DecoderConfig t f \<noteq> None"
    "\<lambda>t f. CreateDecoder_ranked t env (the (DecoderConfig t f)) pair_id" None "MakeAudioDecoder env pair_id" for env pair_id
  by unfold_locales (auto split: option.splits)

section \<open>Lists of formats\<close>

text \<open>What the factories compare of a format.\<close>

definition format_key :: "'m SdpVideoFormat \<Rightarrow> string \<times> (string \<times> string) list" where
  "format_key f = (vname f, vparameters f)"

lemma in_list_key: "IsFormatInList f fs \<longleftrightarrow> format_key f \<in> format_key ` set fs"
  by (auto simp: IsFormatInList_def format_key_def list_ex_iff image_iff eq_commute [of "vname f"] eq_commute [of "vparameters f"])

lemma add_formats_append: "\<exists>rest. add_formats fs gs = fs @ rest \<and> set rest \<subseteq> set gs"
proof (induction gs arbitrary: fs)
  case (Cons g gs)
  obtain rest where "add_formats (if IsFormatInList g fs then fs else fs @ [g]) gs = (if IsFormatInList g fs then fs else fs @ [g]) @ rest" "set rest \<subseteq> set gs"
    using Cons.IH by blast
  then show ?case by (cases "IsFormatInList g fs") auto
qed simp

lemma add_formats_keys: "format_key ` set (add_formats fs gs) = format_key ` set fs \<union> format_key ` set gs"
  by (induction gs arbitrary: fs) (auto simp: in_list_key)

lemma add_formats_distinct: "distinct (map format_key fs) \<Longrightarrow> distinct (map format_key (add_formats fs gs))"
  by (induction gs arbitrary: fs) (auto simp: in_list_key)

lemma supported_keys: "format_key ` set (GetSupportedFormatsInternal vs) = (\<Union>v \<in> set vs. format_key ` set (SupportedFormats v))"
  by (induction vs) (auto simp: add_formats_keys)

lemma decoder_keys: "format_key ` set (DecoderFormatsInternal ds) = (\<Union>v \<in> set ds. format_key ` set (DecoderFormats v))"
  by (induction ds) (auto simp: add_formats_keys)

lemma supported_in_list: "IsFormatInList f (GetSupportedFormats vs) \<longleftrightarrow> (\<exists>v \<in> set vs. IsFormatInList f (SupportedFormats v))"
  by (simp add: GetSupportedFormats_def in_list_key supported_keys)

text \<open>
  The formats a video factory announces are those of its implementations: nothing is missing and nothing is added. Those of the first come first and as they are, those of the
  others are filtered, so the list has no format twice if the first implementation has none twice.
\<close>

theorem video_formats_union:
  "(IsFormatInList f (GetSupportedFormats (v # vs)) \<longleftrightarrow> (\<exists>w \<in> set (v # vs). IsFormatInList f (SupportedFormats w)))
   \<and> set (GetSupportedFormats (v # vs)) \<subseteq> (\<Union>w \<in> set (v # vs). set (SupportedFormats w))
   \<and> (\<exists>rest. GetSupportedFormats (v # vs) = SupportedFormats v @ rest)
   \<and> (distinct (map format_key (SupportedFormats v)) \<longrightarrow> distinct (map format_key (GetSupportedFormats (v # vs))))
   \<and> (IsFormatInList f (DecoderFormatsInternal ds) \<longleftrightarrow> (\<exists>d \<in> set ds. IsFormatInList f (DecoderFormats d)))"
proof (intro conjI)
  have sub: "set (GetSupportedFormatsInternal ws) \<subseteq> (\<Union>w \<in> set ws. set (SupportedFormats w))" for ws :: "('a, 'b, 'c) video_impl list"
  proof (induction ws)
    case (Cons w ws)
    obtain rest where "add_formats (SupportedFormats w) (GetSupportedFormatsInternal ws) = SupportedFormats w @ rest"
      "set rest \<subseteq> set (GetSupportedFormatsInternal ws)" using add_formats_append by blast
    then show ?case using Cons.IH by auto
  qed simp
  then show "set (GetSupportedFormats (v # vs)) \<subseteq> (\<Union>w \<in> set (v # vs). set (SupportedFormats w))" unfolding GetSupportedFormats_def .
  show "\<exists>rest. GetSupportedFormats (v # vs) = SupportedFormats v @ rest"
    using add_formats_append [of "SupportedFormats v" "GetSupportedFormatsInternal vs"] by (auto simp: GetSupportedFormats_def)
  show "distinct (map format_key (SupportedFormats v)) \<longrightarrow> distinct (map format_key (GetSupportedFormats (v # vs)))"
    by (simp add: GetSupportedFormats_def add_formats_distinct)
  show "IsFormatInList f (GetSupportedFormats (v # vs)) \<longleftrightarrow> (\<exists>w \<in> set (v # vs). IsFormatInList f (SupportedFormats w))"
    by (rule supported_in_list)
  show "IsFormatInList f (DecoderFormatsInternal ds) \<longleftrightarrow> (\<exists>d \<in> set ds. IsFormatInList f (DecoderFormats d))"
    by (simp add: in_list_key decoder_keys)
qed

text \<open>What the fuzzy matching promises: it chooses among the formats it is given.\<close>

definition fuzzy_ok :: "('m SdpVideoFormat list \<Rightarrow> 'm SdpVideoFormat \<Rightarrow> 'm SdpVideoFormat option) \<Rightarrow> bool" where
  "fuzzy_ok fuzzy \<longleftrightarrow> (\<forall>fs f g. fuzzy fs f = Some g \<longrightarrow> g \<in> set fs)"

lemma find_in_list:
  assumes "IsFormatInList f (GetSupportedFormats vs)"
  obtains v where "find (\<lambda>v. IsFormatInList f (SupportedFormats v)) vs = Some v"
  using assms by (cases "find (\<lambda>v. IsFormatInList f (SupportedFormats v)) vs") (auto simp: supported_in_list find_None_iff)

lemma member_in_list: "f \<in> set fs \<Longrightarrow> IsFormatInList f fs"
  by (simp add: in_list_key)

text \<open>
  C40. A format is created by the first implementation that lists the announced format the fuzzy matching has chosen, and one always does; if nothing is chosen, by the first that lists the format itself.
  A query is about the format itself: without a scalability mode it says whether the format is announced, and with a mode only the first implementation that lists the format is asked, even if a
  later one has the mode. So for a format that is announced only up to fuzzy matching the encoder is created, and the query says that it is not supported.
\<close>

theorem video_factory_answers:
  assumes "fuzzy_ok fuzzy"
  shows "(\<forall>g. fuzzy (GetSupportedFormats vs) f = Some g \<longrightarrow>
            (\<exists>v. find (\<lambda>v. IsFormatInList g (SupportedFormats v)) vs = Some v \<and> CreateVideoEncoder fuzzy vs env f = CreateCodec v env g))
         \<and> (fuzzy (GetSupportedFormats vs) f = None \<longrightarrow>
            CreateVideoEncoder fuzzy vs env f =
              (case find (\<lambda>v. IsFormatInList f (SupportedFormats v)) vs of None \<Rightarrow> None | Some v \<Rightarrow> CreateCodec v env f))
         \<and> (QueryCodecSupport from_string vs f None \<longleftrightarrow> IsFormatInList f (GetSupportedFormats vs))
         \<and> (QueryCodecSupport from_string vs f (Some s) \<longleftrightarrow>
            (\<exists>v m. find (\<lambda>v. IsFormatInList f (SupportedFormats v)) vs = Some v \<and> from_string s = Some m \<and> IsModeSupported v m))
         \<and> CreateVideoDecoderInternal env ds f =
            (case find (\<lambda>d. IsFormatInList f (DecoderFormats d)) ds of None \<Rightarrow> None
             | Some d \<Rightarrow> (case CreateDecoder d of WithEnvironment c \<Rightarrow> c env f | WithoutEnvironment c \<Rightarrow> c f))"
proof (intro conjI)
  show "\<forall>g. fuzzy (GetSupportedFormats vs) f = Some g \<longrightarrow>
            (\<exists>v. find (\<lambda>v. IsFormatInList g (SupportedFormats v)) vs = Some v \<and> CreateVideoEncoder fuzzy vs env f = CreateCodec v env g)"
  proof (intro allI impI)
    fix g assume g: "fuzzy (GetSupportedFormats vs) f = Some g"
    with assms have "IsFormatInList g (GetSupportedFormats vs)" by (auto simp: fuzzy_ok_def intro: member_in_list)
    then obtain v where v: "find (\<lambda>v. IsFormatInList g (SupportedFormats v)) vs = Some v" by (rule find_in_list)
    with g have "CreateVideoEncoder fuzzy vs env f = CreateCodec v env g" by (simp add: CreateVideoEncoder_def encoders.ask_find)
    with v show "\<exists>v. find (\<lambda>v. IsFormatInList g (SupportedFormats v)) vs = Some v \<and> CreateVideoEncoder fuzzy vs env f = CreateCodec v env g" by blast
  qed
  show "fuzzy (GetSupportedFormats vs) f = None \<longrightarrow>
            CreateVideoEncoder fuzzy vs env f =
              (case find (\<lambda>v. IsFormatInList f (SupportedFormats v)) vs of None \<Rightarrow> None | Some v \<Rightarrow> CreateCodec v env f)"
    by (auto simp: CreateVideoEncoder_def encoders.ask_find split: option.split)
  show "QueryCodecSupport from_string vs f None \<longleftrightarrow> IsFormatInList f (GetSupportedFormats vs)"
    by (auto simp: QueryCodecSupport_def queries.ask_find IsScalabilityModeSupported_def supported_in_list find_None_iff find_Some_iff split: option.splits)
  show "QueryCodecSupport from_string vs f (Some s) \<longleftrightarrow>
            (\<exists>v m. find (\<lambda>v. IsFormatInList f (SupportedFormats v)) vs = Some v \<and> from_string s = Some m \<and> IsModeSupported v m)"
    by (auto simp: QueryCodecSupport_def queries.ask_find IsScalabilityModeSupported_def split: option.splits)
  show "CreateVideoDecoderInternal env ds f =
            (case find (\<lambda>d. IsFormatInList f (DecoderFormats d)) ds of None \<Rightarrow> None
             | Some d \<Rightarrow> (case CreateDecoder d of WithEnvironment c \<Rightarrow> c env f | WithoutEnvironment c \<Rightarrow> c f))"
    by (rule decoders.ask_find)
qed

section \<open>Audio factories\<close>

lemma append_encoders:
  assumes "\<And>t specs. t \<in> set ts \<Longrightarrow> AppendEncoders t specs = specs @ own t"
  shows "AppendSupportedEncoders ts specs = specs @ concat (map own ts)"
  using assms by (induction ts arbitrary: specs) auto

lemma append_decoders:
  assumes "\<And>t specs. t \<in> set ds \<Longrightarrow> AppendDecoders t specs = specs @ own t"
  shows "AppendSupportedDecoders ds specs = specs @ concat (map own ds)"
  using assms by (induction ds arbitrary: specs) auto

text \<open>
  An audio factory answers a query and creates an encoder with the same implementation, the first whose configuration accepts the format, and with the same configuration. The query and
  the creation both fail when there is none; an accepted format that the implementation cannot create is not passed on to the next. If every implementation only
  appends its own codecs, the list of codecs is theirs in the order of the implementations, with repetitions.
\<close>

theorem audio_encoder_first_match:
  assumes "\<And>t specs. t \<in> set ts \<Longrightarrow> AppendEncoders t specs = specs @ own t"
  shows "(case find (\<lambda>t. EncoderConfig t f \<noteq> None) ts of
            None \<Rightarrow> QueryAudioEncoder ts f = None \<and> CreateAudioEncoder env options ts f = None
          | Some t \<Rightarrow> QueryAudioEncoder ts f = Some (QueryEncoder t (the (EncoderConfig t f)))
              \<and> CreateAudioEncoder env options ts f = CreateEncoder t env (the (EncoderConfig t f)) options)
         \<and> (QueryAudioEncoder ts f = None \<longleftrightarrow> (\<forall>t \<in> set ts. EncoderConfig t f = None))
         \<and> GetSupportedEncoders ts = concat (map own ts)"
proof (intro conjI)
  show "case find (\<lambda>t. EncoderConfig t f \<noteq> None) ts of
            None \<Rightarrow> QueryAudioEncoder ts f = None \<and> CreateAudioEncoder env options ts f = None
          | Some t \<Rightarrow> QueryAudioEncoder ts f = Some (QueryEncoder t (the (EncoderConfig t f)))
              \<and> CreateAudioEncoder env options ts f = CreateEncoder t env (the (EncoderConfig t f)) options"
    by (simp add: audio_queries.ask_find audio_encoders.ask_find split: option.split)
  show "QueryAudioEncoder ts f = None \<longleftrightarrow> (\<forall>t \<in> set ts. EncoderConfig t f = None)"
    by (induction ts) (auto split: option.splits)
  show "GetSupportedEncoders ts = concat (map own ts)"
    using append_encoders [of ts own "[]"] assms by (simp add: GetSupportedEncoders_def)
qed

text \<open>
  An audio decoder is announced as supported exactly if some implementation accepts its format, and the first that does creates it. Of its signatures the ones without the pair
  identifier are used before those with it: an implementation that offers both never learns the identifier.
\<close>

theorem audio_decoder_first_match:
  assumes "\<And>t specs. t \<in> set ds \<Longrightarrow> AppendDecoders t specs = specs @ own t"
  shows "(IsSupportedDecoder ds f \<longleftrightarrow> (\<exists>t \<in> set ds. DecoderConfig t f \<noteq> None))
         \<and> (case find (\<lambda>t. DecoderConfig t f \<noteq> None) ds of
              None \<Rightarrow> MakeAudioDecoder env pair_id ds f = None
            | Some t \<Rightarrow> MakeAudioDecoder env pair_id ds f = CreateDecoder_ranked t env (the (DecoderConfig t f)) pair_id)
         \<and> (\<forall>t. make_env t \<noteq> None \<longrightarrow> CreateDecoder_ranked t env config pair_id = the (make_env t) env config)
         \<and> (\<forall>t. make_env t \<noteq> None \<or> make_plain t \<noteq> None \<longrightarrow>
              CreateDecoder_ranked t env config pair_id = CreateDecoder_ranked t env config other_id)
         \<and> GetSupportedDecoders ds = concat (map own ds)"
proof (intro conjI)
  show "IsSupportedDecoder ds f \<longleftrightarrow> (\<exists>t \<in> set ds. DecoderConfig t f \<noteq> None)" by (induction ds) auto
  show "case find (\<lambda>t. DecoderConfig t f \<noteq> None) ds of
              None \<Rightarrow> MakeAudioDecoder env pair_id ds f = None
            | Some t \<Rightarrow> MakeAudioDecoder env pair_id ds f = CreateDecoder_ranked t env (the (DecoderConfig t f)) pair_id"
    by (simp add: audio_decoders.ask_find split: option.split)
  show "\<forall>t. make_env t \<noteq> None \<longrightarrow> CreateDecoder_ranked t env config pair_id = the (make_env t) env config"
    by (auto simp: CreateDecoder_ranked_def)
  show "\<forall>t. make_env t \<noteq> None \<or> make_plain t \<noteq> None \<longrightarrow>
              CreateDecoder_ranked t env config pair_id = CreateDecoder_ranked t env config other_id"
    by (auto simp: CreateDecoder_ranked_def split: option.split)
  show "GetSupportedDecoders ds = concat (map own ds)"
    using append_decoders [of ds own "[]"] assms by (simp add: GetSupportedDecoders_def)
qed

section \<open>Concrete factories\<close>

text \<open>Two video implementations; the fuzzy matching here ignores the parameters.\<close>

definition by_name :: "nat SdpVideoFormat list \<Rightarrow> nat SdpVideoFormat \<Rightarrow> nat SdpVideoFormat option" where
  "by_name fs f = find (\<lambda>g. vname g = vname f) fs"

definition fmt :: "string \<Rightarrow> (string \<times> string) list \<Rightarrow> nat SdpVideoFormat" where
  "fmt n ps = \<lparr>vname = n, vparameters = ps, scalability_modes = []\<rparr>"

definition plain_vp8 :: "(nat, unit, nat) video_impl" where
  "plain_vp8 = \<lparr>SupportedFormats = [fmt ''VP8'' []], CreateCodec = (\<lambda>_ _. Some 8), IsModeSupported = (\<lambda>m. m = 1)\<rparr>"

definition plain_vp9 :: "(nat, unit, nat) video_impl" where
  "plain_vp9 = \<lparr>SupportedFormats = [fmt ''VP9'' [(''profile-id'', ''0'')], fmt ''VP8'' []], CreateCodec = (\<lambda>_ _. Some 9), IsModeSupported = (\<lambda>m. True)\<rparr>"

lemmas plain_video_defs = plain_vp8_def plain_vp9_def fmt_def by_name_def

lemma by_name_ok: "fuzzy_ok by_name"
  by (auto simp: fuzzy_ok_def by_name_def find_Some_iff)

lemma plain_announced: "GetSupportedFormats [plain_vp8, plain_vp9] = [fmt ''VP8'' [], fmt ''VP9'' [(''profile-id'', ''0'')]]"
  by (simp add: GetSupportedFormats_def IsFormatInList_def plain_video_defs)

theorem video_formats_union_witness: "distinct (map format_key (GetSupportedFormats [plain_vp8, plain_vp9]))"
proof -
  have "distinct (map format_key (SupportedFormats plain_vp8))" by (simp add: plain_video_defs)
  with video_formats_union [of "fmt ''VP8'' []" plain_vp8 "[plain_vp9]" "[] :: (nat, unit, nat) decoder_impl list"] show ?thesis by blast
qed

theorem video_factory_answers_witness:
  "CreateVideoEncoder by_name [plain_vp8, plain_vp9] () (fmt ''VP9'' []) = Some 9
   \<and> \<not> QueryCodecSupport (\<lambda>s. Some 2) [plain_vp8, plain_vp9] (fmt ''VP9'' []) None
   \<and> \<not> QueryCodecSupport (\<lambda>s. Some 2) [plain_vp8, plain_vp9] (fmt ''VP8'' []) (Some ''L1T2'')"
proof (intro conjI)
  note answers = video_factory_answers [OF by_name_ok, of "[plain_vp8, plain_vp9]" _ "()" "\<lambda>s. Some 2" "''L1T2''" "[]"]
  show "CreateVideoEncoder by_name [plain_vp8, plain_vp9] () (fmt ''VP9'' []) = Some 9"
    using answers [of "fmt ''VP9'' []", THEN conjunct1]
    unfolding plain_announced by (auto simp: IsFormatInList_def plain_video_defs)
  show "\<not> QueryCodecSupport (\<lambda>s. Some 2) [plain_vp8, plain_vp9] (fmt ''VP9'' []) None"
    using answers [of "fmt ''VP9'' []", THEN conjunct2, THEN conjunct2, THEN conjunct1]
    unfolding plain_announced by (simp add: IsFormatInList_def plain_video_defs)
  show "\<not> QueryCodecSupport (\<lambda>s. Some 2) [plain_vp8, plain_vp9] (fmt ''VP8'' []) (Some ''L1T2'')"
    using answers [of "fmt ''VP8'' []", THEN conjunct2, THEN conjunct2, THEN conjunct2, THEN conjunct1]
    by (simp add: IsFormatInList_def plain_video_defs)
qed

definition plain_encoder :: "string \<Rightarrow> (string, nat, string, nat, unit, nat, nat) encoder_trait" where
  "plain_encoder n = \<lparr>EncoderConfig = (\<lambda>f. if f = n then Some (length f) else None), AppendEncoders = (\<lambda>specs. specs @ [n]), QueryEncoder = (\<lambda>g. g),
     make_with_options = None, make_with_type = Some (\<lambda>g ty. Some (g + nat ty)), make_with_pair = None\<rparr>"

definition plain_decoder :: "string \<Rightarrow> (string, nat, string, unit, nat, nat) decoder_trait" where
  "plain_decoder n = \<lparr>DecoderConfig = (\<lambda>f. if f = n then Some (length f) else None), AppendDecoders = (\<lambda>specs. specs @ [n]),
     make_env = None, make_plain = Some (\<lambda>g. Some g), make_env_pair = None, make_pair = None\<rparr>"

lemma plain_encoder_appends: "AppendEncoders (plain_encoder n) specs = specs @ AppendEncoders (plain_encoder n) []"
  by (simp add: plain_encoder_def)

theorem audio_encoder_first_match_witness:
  "GetSupportedEncoders [plain_encoder ''opus'', plain_encoder ''G722''] = [''opus'', ''G722'']
   \<and> CreateAudioEncoder () \<lparr>payload_type = 9, codec_pair_id = None\<rparr> [plain_encoder ''opus'', plain_encoder ''G722''] ''G722'' = Some 13"
proof -
  note first = audio_encoder_first_match [of "[plain_encoder ''opus'', plain_encoder ''G722'']" "\<lambda>t. AppendEncoders t []" "''G722''" "()"
      "\<lparr>payload_type = 9, codec_pair_id = None\<rparr>"]
  have own: "AppendEncoders t specs = specs @ AppendEncoders t []" if "t \<in> set [plain_encoder ''opus'', plain_encoder ''G722'']" for t specs
    using that plain_encoder_appends by auto
  show ?thesis using first [OF own] by (auto simp: plain_encoder_def CreateEncoder_def)
qed

lemma plain_decoder_appends: "AppendDecoders (plain_decoder n) specs = specs @ AppendDecoders (plain_decoder n) []"
  by (simp add: plain_decoder_def)

theorem audio_decoder_first_match_witness:
  "GetSupportedDecoders [plain_decoder ''opus'', plain_decoder ''G722''] = [''opus'', ''G722'']
   \<and> MakeAudioDecoder () (Some 3) [plain_decoder ''opus'', plain_decoder ''G722''] ''G722'' = Some 4"
proof -
  note first = audio_decoder_first_match [of "[plain_decoder ''opus'', plain_decoder ''G722'']" "\<lambda>t. AppendDecoders t []" "''G722''" "()" "Some 3" 0 None]
  have own: "AppendDecoders t specs = specs @ AppendDecoders t []" if "t \<in> set [plain_decoder ''opus'', plain_decoder ''G722'']" for t specs
    using that plain_decoder_appends by auto
  show ?thesis using first [OF own] by (auto simp: plain_decoder_def CreateDecoder_ranked_def)
qed

end
