(* ===== verification/Rtp_Extensions.thy ===== *)
theory Rtp_Extensions
  imports Units Ntp_Time
begin

text \<open>
  Header extensions of RTP packets: the classes of \<^verbatim>\<open>rtp_header_extensions.h\<close>, the table of identifiers in \<^verbatim>\<open>rtp_header_extension_map.h\<close> and the templates of \<^verbatim>\<open>rtp_packet.h\<close> that
  read and write an extension. Finding and allocating the bytes of an extension in a packet, and the \<^verbatim>\<open>Parse\<close> and \<^verbatim>\<open>Write\<close> functions of the classes, are outside the headers.
  Theorems: the conversions between times and send times, which extensions fit a one-byte header, that what was set is read back and nothing else changes, and when setting fails.
\<close>

unbundle bit_operations_syntax

section \<open>Absolute send time\<close>

text \<open>The shift to the left is one of signed values.\<close>

definition To24Bits :: "int \<Rightarrow> abort + u32" where
  "To24Bits time =
     bindE (time_us time) (\<lambda>us.
     let t = tmod us (64 * 1000000)
     in bindE (i64 (t * 2 ^ 18)) (\<lambda>shifted.
     let time6x18 = tdiv shifted 1000000
     in check (time6x18 \<ge> 0) (check (time6x18 < 2 ^ 24) (Inr (of_int time6x18)))))"

definition To24Bits_ntp :: "u64 \<Rightarrow> u32" where
  "To24Bits_ntp ntp_time = ucast (drop_bit 14 ntp_time AND 0x00FFFFFF)"

definition ToTimestamp :: "u32 \<Rightarrow> abort + int" where
  "ToTimestamp time_24bits =
     check (time_24bits < 2 ^ 24) (bindE (i64 (uint time_24bits * 1000000)) (\<lambda>p. Timestamp_Micros (p div 2 ^ 18)))"

lemma tmod_nonneg: "0 \<le> a \<Longrightarrow> 0 < b \<Longrightarrow> tmod a b = a mod b"
  by (cases "a = 0") (auto simp: tmod_def tdiv_def minus_mult_div_eq_mod)

lemma tdiv_nonneg: "0 \<le> a \<Longrightarrow> 0 < b \<Longrightarrow> tdiv a b = a div b"
  by (cases "a = 0") (auto simp: tdiv_def)

lemma floor_bounds: "d * (x div d) \<le> x" "x < d * (x div d) + d" if "0 < d" for x d :: int
  using that mult_div_mod_eq [of d x] pos_mod_bound [of d x] pos_mod_sign [of d x] by linarith+

lemma floor_unique: "0 < d \<Longrightarrow> d * q \<le> x \<Longrightarrow> x < d * q + d \<Longrightarrow> x div d = q" for x d q :: int
  by (rule int_div_pos_eq [where r = "x - d * q"]) simp_all

lemma small_i64: "- 9000000000000000000 \<le> z \<Longrightarrow> z \<le> 9000000000000000000 \<Longrightarrow> in_i64 z"
  by (simp add: in_i64_def)

text \<open>The two conversions on plain numbers: from microseconds within the period and back.\<close>

definition us_to_24 :: "int \<Rightarrow> int" where
  "us_to_24 u = u * 262144 div 1000000"

definition us_of_24 :: "int \<Rightarrow> int" where
  "us_of_24 n = n * 1000000 div 262144"

lemma us_to_24_bounds: "0 \<le> u \<Longrightarrow> u < 64000000 \<Longrightarrow> 0 \<le> us_to_24 u \<and> us_to_24 u < 16777216"
  using floor_bounds [of 1000000 "u * 262144"] unfolding us_to_24_def by linarith

lemma us_of_24_bounds: "0 \<le> n \<Longrightarrow> n < 16777216 \<Longrightarrow> 0 \<le> us_of_24 n \<and> us_of_24 n < 64000000"
  using floor_bounds [of 262144 "n * 1000000"] unfolding us_of_24_def by linarith

lemma us_there_and_back: "us_of_24 (us_to_24 u) \<le> u \<and> u \<le> us_of_24 (us_to_24 u) + 4"
  using floor_bounds [of 1000000 "u * 262144"] floor_bounds [of 262144 "us_to_24 u * 1000000"]
  unfolding us_of_24_def us_to_24_def by linarith

lemma us_back_and_there: "us_to_24 (us_of_24 n) = (if 4096 dvd n then n else n - 1)"
proof (cases "4096 dvd n")
  case True
  then obtain k where n: "n = 4096 * k" by blast
  have "us_of_24 n = 15625 * k" unfolding us_of_24_def n by (rule floor_unique) simp_all
  moreover have "us_to_24 (15625 * k) = n" unfolding us_to_24_def n by (rule floor_unique) simp_all
  ultimately show ?thesis using True by simp
next
  case False
  have "us_of_24 n * 262144 \<noteq> n * 1000000"
  proof
    assume "us_of_24 n * 262144 = n * 1000000"
    then have "us_of_24 n * 4096 = n * 15625" by simp
    then have "4096 dvd n * 15625" by (metis dvd_triv_right)
    moreover have "coprime (4096 :: int) 15625" by (simp add: coprime_iff_gcd_eq_1 gcd_code_int)
    ultimately show False using False by (simp add: coprime_dvd_mult_left_iff)
  qed
  moreover have "262144 * us_of_24 n \<le> n * 1000000" "n * 1000000 < 262144 * us_of_24 n + 262144"
    unfolding us_of_24_def by (rule floor_bounds; simp)+
  ultimately have "us_to_24 (us_of_24 n) = n - 1" unfolding us_to_24_def by (intro floor_unique) simp_all
  with False show ?thesis by simp
qed

lemma To24Bits_nonneg:
  assumes "0 \<le> t" "IsFinite t"
  shows "To24Bits t = Inr (of_int (us_to_24 (t mod 64000000)))"
proof -
  have m: "0 \<le> t mod 64000000" "t mod 64000000 < 64000000" by simp_all
  then have "in_i64 (t mod 64000000 * 262144)" by (intro small_i64) linarith+
  then show ?thesis
    using assms m us_to_24_bounds [OF m]
    by (simp add: To24Bits_def time_us_def ToValue_def tmod_nonneg tdiv_nonneg i64_def check_def Let_def us_to_24_def)
qed

lemma ToTimestamp_value:
  assumes "w < 16777216"
  shows "ToTimestamp w = Inr (us_of_24 (uint w))" "IsFinite (us_of_24 (uint w))" "0 \<le> us_of_24 (uint w)" "us_of_24 (uint w) < 64000000"
proof -
  have w: "0 \<le> uint w" "uint w < 16777216" using assms by (simp_all add: word_less_def)
  note b = us_of_24_bounds [OF w]
  show "0 \<le> us_of_24 (uint w)" "us_of_24 (uint w) < 64000000" using b by simp_all
  show "IsFinite (us_of_24 (uint w))" using b by (simp add: unit_finite PlusInfinityVal_def MinusInfinityVal_def)
  have "in_i64 (uint w * 1000000)" using w by (intro small_i64) linarith+
  moreover have "MinusInfinityVal < us_of_24 (uint w)" "us_of_24 (uint w) < PlusInfinityVal"
    using b unfolding PlusInfinityVal_def MinusInfinityVal_def by simp_all
  ultimately show "ToTimestamp w = Inr (us_of_24 (uint w))"
    using assms by (simp add: ToTimestamp_def i64_def Timestamp_Micros_def FromValue_def check_def us_of_24_def)
qed

lemma uint_of_24: "0 \<le> n \<Longrightarrow> n < 16777216 \<Longrightarrow> uint (of_int n :: u32) = n"
  by (simp add: uint_word_of_int)

lemma of_24_less: "0 \<le> n \<Longrightarrow> n < 16777216 \<Longrightarrow> (of_int n :: u32) < 16777216"
  by (simp add: word_less_def uint_of_24)

lemma split_period:
  fixes a b :: int
  assumes "0 \<le> b" "b < 262144"
  shows "(a * 262144 + b) mod 16777216 = a mod 64 * 262144 + b"
proof -
  have "a * 262144 + b = 16777216 * (a div 64) + (a mod 64 * 262144 + b)" using mult_div_mod_eq [of 64 a] by linarith
  moreover have "0 \<le> a mod 64 * 262144 + b" "a mod 64 * 262144 + b < 16777216"
    using assms pos_mod_bound [of 64 a] pos_mod_sign [of 64 a] by linarith+
  ultimately show ?thesis by (intro int_mod_pos_eq) simp_all
qed

lemma ntp_24: "uint (To24Bits_ntp (NtpTime s f)) = uint s mod 64 * 262144 + uint f div 16384"
proof -
  have "uint (To24Bits_ntp v) = uint v div 16384 mod 16777216" for v
  proof -
    have "(0x00FFFFFF :: u64) = mask 24" by (simp add: mask_eq_exp_minus_1)
    then have "drop_bit 14 v AND 0x00FFFFFF = take_bit 24 (drop_bit 14 v)" by (simp only: take_bit_eq_mask)
    then have "To24Bits_ntp v = ucast (take_bit 24 (drop_bit 14 v))" by (simp only: To24Bits_ntp_def)
    then have "uint (To24Bits_ntp v) = take_bit 32 (take_bit 24 (drop_bit 14 (uint v)))"
      using uint_lt2p [of v] by (simp only: unsigned_ucast_eq unsigned_take_bit_eq unsigned_drop_bit_eq) (simp add: take_bit_int_eq_self)
    then show ?thesis by (simp add: drop_bit_eq_div take_bit_eq_mod mod_mod_cancel)
  qed
  moreover have "uint (NtpTime s f) = uint s * 4294967296 + uint f"
  proof -
    have "int (unat (NtpTime s f)) = int (unat s * 4294967296 + unat f)" by (simp only: unat_NtpTime)
    then show ?thesis by simp
  qed
  moreover have "(uint s * 4294967296 + uint f) div 16384 = uint s * 262144 + uint f div 16384"
    using div_mult_self1 [of 16384 "uint f" "uint s * 262144"] by (simp add: algebra_simps)
  moreover have "(uint s * 262144 + uint f div 16384) mod 16777216 = uint s mod 64 * 262144 + uint f div 16384"
  proof (rule split_period)
    show "0 \<le> uint f div 16384" by (simp only: pos_imp_zdiv_nonneg_iff zero_less_numeral unsigned_greater_eq)
    have "uint f < 4294967296" using uint_lt2p [of f] by simp
    then show "uint f div 16384 < 262144" using floor_bounds(1) [of 16384 "uint f"] by linarith
  qed
  ultimately show ?thesis by simp
qed

text \<open>
  C36. A send time is the time within a period of 64 seconds in units of two to the minus 18 seconds. Every finite time that is not negative converts without a failed check,
  and converting back gives the time within the period, at most four microseconds too early. Converting a send time to a time and back, however, loses one unit
  unless the send time is a multiple of 4096. From an NTP time the send time has the low six bits of the seconds and the high 18 bits of the fraction.
\<close>

theorem abs_send_time_roundtrip:
  shows "(0 \<le> t \<and> IsFinite t \<longrightarrow>
            (\<exists>w u. To24Bits t = Inr w \<and> w < 2 ^ 24 \<and> ToTimestamp w = Inr u \<and> u \<le> t mod 64000000 \<and> t mod 64000000 \<le> u + 4))
         \<and> (w < 2 ^ 24 \<longrightarrow>
            (\<exists>u. ToTimestamp w = Inr u \<and> To24Bits u = Inr (if 4096 dvd uint w then w else w - 1)))
         \<and> uint (To24Bits_ntp (NtpTime s f)) = uint s mod 64 * 2 ^ 18 + uint f div 2 ^ 14"
proof (intro conjI impI)
  assume t: "0 \<le> t \<and> IsFinite t"
  let ?m = "t mod 64000000"
  have b: "0 \<le> us_to_24 ?m" "us_to_24 ?m < 16777216" using us_to_24_bounds [of ?m] by simp_all
  have "ToTimestamp (of_int (us_to_24 ?m)) = Inr (us_of_24 (us_to_24 ?m))"
    using ToTimestamp_value(1) [OF of_24_less [OF b]] by (simp add: uint_of_24 b)
  then show "\<exists>w u. To24Bits t = Inr w \<and> w < 2 ^ 24 \<and> ToTimestamp w = Inr u \<and> u \<le> ?m \<and> ?m \<le> u + 4"
    using To24Bits_nonneg t us_there_and_back [of ?m] of_24_less [OF b] by force
next
  assume "w < 2 ^ 24"
  then have w: "w < 16777216" by simp
  note v = ToTimestamp_value [OF w]
  have "To24Bits (us_of_24 (uint w)) = Inr (of_int (us_to_24 (us_of_24 (uint w))))"
    using To24Bits_nonneg [OF v(3) v(2)] v by simp
  then show "\<exists>u. ToTimestamp w = Inr u \<and> To24Bits u = Inr (if 4096 dvd uint w then w else w - 1)"
    using v(1) by (simp add: us_back_and_there)
qed (simp add: ntp_24)

theorem abs_send_time_roundtrip_witness:
  "(\<exists>w u. To24Bits 100000007 = Inr w \<and> w < 2 ^ 24 \<and> ToTimestamp w = Inr u \<and> u \<le> 36000007 \<and> 36000007 \<le> u + 4)
   \<and> (\<exists>u. ToTimestamp 5 = Inr u \<and> To24Bits u = Inr 4)"
  using abs_send_time_roundtrip [of 100000007 5 0 0] by (simp add: unit_finite PlusInfinityVal_def MinusInfinityVal_def)

text \<open>
  Times that are not a time since some start fail: an infinite time always, and a negative one unless it is at most three microseconds before a multiple of the period,
  in which case truncation gives the send time zero.
\<close>

theorem abs_send_time_failures:
  assumes "t < 0 \<or> \<not> IsFinite t"
  shows "To24Bits t = (if IsFinite t \<and> tmod t 64000000 \<ge> - 3 then Inr 0 else Inl CheckFailed)"
proof (cases "IsFinite t")
  case True
  with assms have t: "t < 0" by simp
  have m: "tmod t 64000000 = - ((- t) mod 64000000)" using t by (simp add: tmod_def tdiv_def minus_mult_div_eq_mod [symmetric])
  define r where "r = (- t) mod 64000000"
  have r: "0 \<le> r" "r < 64000000" by (simp_all add: r_def)
  have "in_i64 (- r * 262144)" using r by (intro small_i64) linarith+
  moreover have "tdiv (- r * 262144) 1000000 = - us_to_24 r"
    using r by (cases "r = 0") (simp_all add: tdiv_def us_to_24_def abs_mult)
  moreover have "us_to_24 r \<le> 0 \<longleftrightarrow> r \<le> 3"
    using r floor_bounds [of 1000000 "r * 262144"] unfolding us_to_24_def by linarith
  moreover have "0 \<le> us_to_24 r" using us_to_24_bounds [OF r] by simp
  ultimately show ?thesis using True m
    by (auto simp: To24Bits_def time_us_def ToValue_def i64_def check_def Let_def r_def [symmetric])
qed (simp add: To24Bits_def time_us_def ToValue_def check_def)

theorem abs_send_time_failures_witness: "To24Bits (- 2) = Inr 0 \<and> To24Bits (- 5000000) = Inl CheckFailed"
  using abs_send_time_failures [of "- 2"] abs_send_time_failures [of "- 5000000"]
  by (simp add: unit_finite PlusInfinityVal_def MinusInfinityVal_def tmod_def tdiv_def)

section \<open>The extensions\<close>

datatype RTPExtensionType = kRtpExtensionNone | kRtpExtensionTransmissionTimeOffset | kRtpExtensionAudioLevel | kRtpExtensionCsrcAudioLevel
  | kRtpExtensionInbandComfortNoise | kRtpExtensionAbsoluteSendTime | kRtpExtensionAbsoluteCaptureTime | kRtpExtensionVideoRotation
  | kRtpExtensionTransportSequenceNumber | kRtpExtensionTransportSequenceNumber02 | kRtpExtensionPlayoutDelay | kRtpExtensionVideoContentType
  | kRtpExtensionVideoLayersAllocation | kRtpExtensionVideoTiming | kRtpExtensionRtpStreamId | kRtpExtensionRepairedRtpStreamId | kRtpExtensionMid
  | kRtpExtensionGenericFrameDescriptor | kRtpExtensionDependencyDescriptor | kRtpExtensionColorSpace | kRtpExtensionVideoFrameTrackingId
  | kRtpExtensionCorruptionDetection | kRtpExtensionNumberOfExtensions

fun type_num :: "RTPExtensionType \<Rightarrow> nat" where
  "type_num kRtpExtensionNone = 0"
| "type_num kRtpExtensionTransmissionTimeOffset = 1"
| "type_num kRtpExtensionAudioLevel = 2"
| "type_num kRtpExtensionCsrcAudioLevel = 3"
| "type_num kRtpExtensionInbandComfortNoise = 4"
| "type_num kRtpExtensionAbsoluteSendTime = 5"
| "type_num kRtpExtensionAbsoluteCaptureTime = 6"
| "type_num kRtpExtensionVideoRotation = 7"
| "type_num kRtpExtensionTransportSequenceNumber = 8"
| "type_num kRtpExtensionTransportSequenceNumber02 = 9"
| "type_num kRtpExtensionPlayoutDelay = 10"
| "type_num kRtpExtensionVideoContentType = 11"
| "type_num kRtpExtensionVideoLayersAllocation = 12"
| "type_num kRtpExtensionVideoTiming = 13"
| "type_num kRtpExtensionRtpStreamId = 14"
| "type_num kRtpExtensionRepairedRtpStreamId = 15"
| "type_num kRtpExtensionMid = 16"
| "type_num kRtpExtensionGenericFrameDescriptor = 17"
| "type_num kRtpExtensionDependencyDescriptor = 18"
| "type_num kRtpExtensionColorSpace = 19"
| "type_num kRtpExtensionVideoFrameTrackingId = 20"
| "type_num kRtpExtensionCorruptionDetection = 21"
| "type_num kRtpExtensionNumberOfExtensions = 22"

text \<open>
  What the sizes of the values depend on: whether a feedback request or HDR metadata is there, and the text. The two classes whose size is computed outside the header,
  \<^verbatim>\<open>AbsoluteCaptureTimeExtension\<close> and \<^verbatim>\<open>CsrcAudioLevel\<close>, are left out.
\<close>

datatype extension_value = AbsoluteSendTime | AudioLevelExtension | TransmissionOffset | TransportSequenceNumber | TransportSequenceNumberV2 bool
  | VideoOrientation | PlayoutDelayLimits | VideoContentTypeExtension | VideoTimingExtension | ColorSpaceExtension bool
  | RtpStreamId string | RepairedRtpStreamId string | RtpMid string | InbandComfortNoiseExtension | VideoFrameTrackingIdExtension

fun kId :: "extension_value \<Rightarrow> RTPExtensionType" where
  "kId AbsoluteSendTime = kRtpExtensionAbsoluteSendTime"
| "kId AudioLevelExtension = kRtpExtensionAudioLevel"
| "kId TransmissionOffset = kRtpExtensionTransmissionTimeOffset"
| "kId TransportSequenceNumber = kRtpExtensionTransportSequenceNumber"
| "kId (TransportSequenceNumberV2 request) = kRtpExtensionTransportSequenceNumber02"
| "kId VideoOrientation = kRtpExtensionVideoRotation"
| "kId PlayoutDelayLimits = kRtpExtensionPlayoutDelay"
| "kId VideoContentTypeExtension = kRtpExtensionVideoContentType"
| "kId VideoTimingExtension = kRtpExtensionVideoTiming"
| "kId (ColorSpaceExtension hdr) = kRtpExtensionColorSpace"
| "kId (RtpStreamId s) = kRtpExtensionRtpStreamId"
| "kId (RepairedRtpStreamId s) = kRtpExtensionRepairedRtpStreamId"
| "kId (RtpMid s) = kRtpExtensionMid"
| "kId InbandComfortNoiseExtension = kRtpExtensionInbandComfortNoise"
| "kId VideoFrameTrackingIdExtension = kRtpExtensionVideoFrameTrackingId"

fun ValueSize :: "extension_value \<Rightarrow> nat" where
  "ValueSize AbsoluteSendTime = 3"
| "ValueSize AudioLevelExtension = 1"
| "ValueSize TransmissionOffset = 3"
| "ValueSize TransportSequenceNumber = 2"
| "ValueSize (TransportSequenceNumberV2 request) = (if request then 4 else 2)"
| "ValueSize VideoOrientation = 1"
| "ValueSize PlayoutDelayLimits = 3"
| "ValueSize VideoContentTypeExtension = 1"
| "ValueSize VideoTimingExtension = 13"
| "ValueSize (ColorSpaceExtension hdr) = (if hdr then 28 else 4)"
| "ValueSize (RtpStreamId s) = length s"
| "ValueSize (RepairedRtpStreamId s) = length s"
| "ValueSize (RtpMid s) = length s"
| "ValueSize InbandComfortNoiseExtension = 1"
| "ValueSize VideoFrameTrackingIdExtension = 2"

text \<open>The table of identifiers: \<open>ids\<close> is an array with one entry per type.\<close>

record RtpHeaderExtensionMap =
  ids :: "u8 list"
  extmap_allow_mixed :: bool

definition GetId :: "RTPExtensionType \<Rightarrow> RtpHeaderExtensionMap \<Rightarrow> abort + u8" where
  "GetId type m =
     check (type_num type > type_num kRtpExtensionNone) (check (type_num type < type_num kRtpExtensionNumberOfExtensions)
       (if type_num type < length (ids m) then Inr (ids m ! type_num type) else Inl OutOfBounds))"

definition IsRegistered :: "RTPExtensionType \<Rightarrow> RtpHeaderExtensionMap \<Rightarrow> abort + bool" where
  "IsRegistered type m = bindE (GetId type m) (\<lambda>id. Inr (id \<noteq> 0))"

definition SetExtmapAllowMixed :: "bool \<Rightarrow> RtpHeaderExtensionMap \<Rightarrow> RtpHeaderExtensionMap" where
  "SetExtmapAllowMixed allow m = m\<lparr>extmap_allow_mixed := allow\<rparr>"

text \<open>
  Every extension class can be looked up in the table without a failed check, and two values have the same type only if they are of the same class. An element of a
  packet with one-byte headers carries one to sixteen bytes: all values fit except a colour space with HDR metadata, a text that is too long, and the empty text.
\<close>

theorem extension_classes:
  assumes "length (ids m) = type_num kRtpExtensionNumberOfExtensions"
  shows "GetId (kId e) m = Inr (ids m ! type_num (kId e))
         \<and> (ValueSize e \<in> {1..16} \<longleftrightarrow>
             e \<noteq> ColorSpaceExtension True \<and> (\<forall>s. e \<in> {RtpStreamId s, RepairedRtpStreamId s, RtpMid s} \<longrightarrow> s \<noteq> [] \<and> length s \<le> 16))
         \<and> (kId e = kId e' \<and> e \<noteq> e' \<longrightarrow>
             (\<exists>a b. e = TransportSequenceNumberV2 a \<and> e' = TransportSequenceNumberV2 b) \<or> (\<exists>a b. e = ColorSpaceExtension a \<and> e' = ColorSpaceExtension b)
             \<or> (\<exists>s t. e = RtpStreamId s \<and> e' = RtpStreamId t) \<or> (\<exists>s t. e = RepairedRtpStreamId s \<and> e' = RepairedRtpStreamId t)
             \<or> (\<exists>s t. e = RtpMid s \<and> e' = RtpMid t))"
proof (intro conjI)
  show "GetId (kId e) m = Inr (ids m ! type_num (kId e))" using assms by (cases e) (simp_all add: GetId_def check_def)
  show "ValueSize e \<in> {1..16} \<longleftrightarrow>
             e \<noteq> ColorSpaceExtension True \<and> (\<forall>s. e \<in> {RtpStreamId s, RepairedRtpStreamId s, RtpMid s} \<longrightarrow> s \<noteq> [] \<and> length s \<le> 16)"
    by (cases e) (auto simp: Suc_le_eq)
  show "kId e = kId e' \<and> e \<noteq> e' \<longrightarrow>
             (\<exists>a b. e = TransportSequenceNumberV2 a \<and> e' = TransportSequenceNumberV2 b) \<or> (\<exists>a b. e = ColorSpaceExtension a \<and> e' = ColorSpaceExtension b)
             \<or> (\<exists>s t. e = RtpStreamId s \<and> e' = RtpStreamId t) \<or> (\<exists>s t. e = RepairedRtpStreamId s \<and> e' = RepairedRtpStreamId t)
             \<or> (\<exists>s t. e = RtpMid s \<and> e' = RtpMid t)"
    by (cases e; cases e'; simp)
qed

theorem extension_classes_witness:
  "GetId (kId (RtpMid ''0'')) \<lparr>ids = (replicate 22 0)[16 := 9], extmap_allow_mixed = False\<rparr> = Inr 9"
  using extension_classes [of "\<lparr>ids = (replicate 22 0)[16 := 9], extmap_allow_mixed = False\<rparr>" "RtpMid ''0''"] by simp

section \<open>Extensions in a packet\<close>

text \<open>A packet: its bytes and the rest of its state, of which the templates use nothing. A view is an offset into the bytes and a size; an empty one has size zero.\<close>

record 'x RtpPacket =
  pbuffer :: "u8 list"
  pstate :: 'x

type_synonym byte_view = "nat \<times> nat"

definition read_view :: "byte_view \<Rightarrow> u8 list \<Rightarrow> u8 list" where
  "read_view v bs = take (snd v) (drop (fst v) bs)"

definition write_view :: "nat \<Rightarrow> u8 list \<Rightarrow> u8 list \<Rightarrow> u8 list" where
  "write_view off new bs = take off bs @ new @ drop (off + length new) bs"

text \<open>An extension class: \<open>Parse\<close> may write to the variable it is given also when it fails; \<open>Write\<close> gives what it leaves in the view.\<close>

record 'a extension_class =
  ext_id :: RTPExtensionType
  Parse :: "u8 list \<Rightarrow> 'a \<Rightarrow> bool \<times> 'a"
  value_size :: "'a \<Rightarrow> nat"
  Write :: "u8 list \<Rightarrow> 'a \<Rightarrow> bool \<times> u8 list"
  kValueSizeBytes :: nat

text \<open>\<open>fnd\<close> and \<open>alloc\<close> are \<^verbatim>\<open>FindExtension\<close> and \<^verbatim>\<open>AllocateExtension\<close>.\<close>

type_synonym 'x finder = "RTPExtensionType \<Rightarrow> 'x RtpPacket \<Rightarrow> byte_view"
type_synonym 'x allocator = "RTPExtensionType \<Rightarrow> nat \<Rightarrow> 'x RtpPacket \<Rightarrow> byte_view \<times> 'x RtpPacket"

definition patch :: "nat \<Rightarrow> u8 list \<Rightarrow> 'x RtpPacket \<Rightarrow> 'x RtpPacket" where
  "patch off new p = p\<lparr>pbuffer := write_view off new (pbuffer p)\<rparr>"

definition GetRawExtension :: "'x finder \<Rightarrow> RTPExtensionType \<Rightarrow> 'x RtpPacket \<Rightarrow> u8 list" where
  "GetRawExtension fnd ty p = read_view (fnd ty p) (pbuffer p)"

definition GetExtension_into :: "'x finder \<Rightarrow> 'a extension_class \<Rightarrow> 'a \<Rightarrow> 'x RtpPacket \<Rightarrow> bool \<times> 'a" where
  "GetExtension_into fnd e first p =
     (let raw = GetRawExtension fnd (ext_id e) p
      in if raw = [] then (False, first) else Parse e raw first)"

text \<open>\<open>fresh\<close> is the value that \<^verbatim>\<open>emplace()\<close> creates.\<close>

definition GetExtension :: "'x finder \<Rightarrow> 'a extension_class \<Rightarrow> 'a \<Rightarrow> 'x RtpPacket \<Rightarrow> 'a option" where
  "GetExtension fnd e fresh p =
     (let raw = GetRawExtension fnd (ext_id e) p
      in if raw = [] then None else (case Parse e raw fresh of (ok, v) \<Rightarrow> if ok then Some v else None))"

definition SetExtension :: "'x allocator \<Rightarrow> 'a extension_class \<Rightarrow> 'a \<Rightarrow> 'x RtpPacket \<Rightarrow> bool \<times> 'x RtpPacket" where
  "SetExtension alloc e v p =
     (case alloc (ext_id e) (value_size e v) p of (buffer, p1) \<Rightarrow>
        if snd buffer = 0 then (False, p1)
        else (case Write e (read_view buffer (pbuffer p1)) v of (ok, new) \<Rightarrow> (ok, patch (fst buffer) new p1)))"

definition SetRawExtension :: "'x allocator \<Rightarrow> RTPExtensionType \<Rightarrow> u8 list \<Rightarrow> 'x RtpPacket \<Rightarrow> bool \<times> 'x RtpPacket" where
  "SetRawExtension alloc ty raw p =
     (case alloc ty (length raw) p of (buffer, p1) \<Rightarrow>
        if snd buffer = 0 then (False, p1) else (True, patch (fst buffer) raw p1))"

definition ReserveExtension :: "'x allocator \<Rightarrow> 'a extension_class \<Rightarrow> 'x RtpPacket \<Rightarrow> bool \<times> 'x RtpPacket" where
  "ReserveExtension alloc e p =
     (case alloc (ext_id e) (kValueSizeBytes e) p of (buffer, p1) \<Rightarrow>
        if snd buffer = 0 then (False, p1) else (True, patch (fst buffer) (replicate (kValueSizeBytes e) 0) p1))"

text \<open>
  What the comments on the two functions say: an allocated view has the size that was asked for and lies in the packet, it is found again whatever is written to it,
  and the other extensions stay as they are.
\<close>

definition store_ok :: "'x finder \<Rightarrow> 'x allocator \<Rightarrow> bool" where
  "store_ok fnd alloc \<longleftrightarrow>
     (\<forall>ty n p off len p'. alloc ty n p = ((off, len), p') \<and> len \<noteq> 0 \<longrightarrow>
        len = n \<and> off + n \<le> length (pbuffer p')
        \<and> (\<forall>new. length new = n \<longrightarrow> fnd ty (patch off new p') = (off, n)
              \<and> (\<forall>other. other \<noteq> ty \<longrightarrow> GetRawExtension fnd other (patch off new p') = GetRawExtension fnd other p)))"

text \<open>A class writes values of the size it announces, filling the view, and reads them back.\<close>

definition carries_value :: "'a extension_class \<Rightarrow> 'a \<Rightarrow> bool" where
  "carries_value e v \<longleftrightarrow>
     (\<forall>old. length old = value_size e v \<longrightarrow>
        (case Write e old v of (ok, new) \<Rightarrow> length new = value_size e v \<and> (ok \<longrightarrow> (\<forall>first. Parse e new first = (True, v)))))"

lemma read_written: "off + length new \<le> length bs \<Longrightarrow> read_view (off, length new) (write_view off new bs) = new"
  by (simp add: read_view_def write_view_def min_def)

lemma stored:
  assumes "store_ok fnd alloc" "alloc ty n p = (buffer, p1)" "snd buffer \<noteq> 0" "length new = n"
  shows "GetRawExtension fnd ty (patch (fst buffer) new p1) = new"
    and "other \<noteq> ty \<Longrightarrow> GetRawExtension fnd other (patch (fst buffer) new p1) = GetRawExtension fnd other p"
    and "new \<noteq> []" "length (read_view buffer (pbuffer p1)) = n"
proof -
  obtain off len where b: "buffer = (off, len)" by (cases buffer)
  have s: "len = n" "off + n \<le> length (pbuffer p1)" "fnd ty (patch off new p1) = (off, n)"
      "other \<noteq> ty \<Longrightarrow> GetRawExtension fnd other (patch off new p1) = GetRawExtension fnd other p" for other
    using assms unfolding store_ok_def b by auto
  show "other \<noteq> ty \<Longrightarrow> GetRawExtension fnd other (patch (fst buffer) new p1) = GetRawExtension fnd other p" using s(4) b by simp
  show "new \<noteq> []" using assms(3,4) s(1) b by auto
  show "length (read_view buffer (pbuffer p1)) = n" using s(1,2) b by (simp add: read_view_def)
  show "GetRawExtension fnd ty (patch (fst buffer) new p1) = new"
    using s(2,3) assms(4) read_written [of off new "pbuffer p1"] b by (simp add: GetRawExtension_def patch_def)
qed

text \<open>
  An extension that was set is read back, by both ways of reading it, and all other extensions of the packet keep their bytes. The same holds for bytes set directly, and a
  reserved extension reads as zeros.
\<close>

theorem set_get_extension:
  assumes "store_ok fnd alloc" "carries_value e v"
  shows "(\<forall>p'. SetExtension alloc e v p = (True, p') \<longrightarrow>
            GetExtension fnd e fresh p' = Some v \<and> GetExtension_into fnd e first p' = (True, v)
            \<and> (\<forall>other. other \<noteq> ext_id e \<longrightarrow> GetRawExtension fnd other p' = GetRawExtension fnd other p))
         \<and> (\<forall>p'. SetRawExtension alloc ty raw p = (True, p') \<longrightarrow>
            GetRawExtension fnd ty p' = raw \<and> (\<forall>other. other \<noteq> ty \<longrightarrow> GetRawExtension fnd other p' = GetRawExtension fnd other p))
         \<and> (\<forall>p'. ReserveExtension alloc e p = (True, p') \<longrightarrow> GetRawExtension fnd (ext_id e) p' = replicate (kValueSizeBytes e) 0)"
proof (intro conjI allI impI)
  fix p' assume set: "SetExtension alloc e v p = (True, p')"
  obtain buffer p1 where al: "alloc (ext_id e) (value_size e v) p = (buffer, p1)" by (cases "alloc (ext_id e) (value_size e v) p")
  obtain ok new where w: "Write e (read_view buffer (pbuffer p1)) v = (ok, new)" by (cases "Write e (read_view buffer (pbuffer p1)) v")
  have b: "snd buffer \<noteq> 0" and ok: "ok" and p': "p' = patch (fst buffer) new p1"
    using set unfolding SetExtension_def al by (auto simp: w split: if_splits)
  have "length (read_view buffer (pbuffer p1)) = value_size e v"
    using stored(4) [OF assms(1) al b, of "replicate (value_size e v) 0"] by simp
  then have new: "length new = value_size e v" "Parse e new x = (True, v)" for x
    using assms(2) w ok unfolding carries_value_def by auto
  note st = stored [OF assms(1) al b new(1)]
  show "GetExtension fnd e fresh p' = Some v" using st(1,3) new(2) by (simp add: GetExtension_def p')
  show "GetExtension_into fnd e first p' = (True, v)" using st(1,3) new(2) by (simp add: GetExtension_into_def p')
  show "GetRawExtension fnd other p' = GetRawExtension fnd other p" if "other \<noteq> ext_id e" for other
    using st(2) that by (simp add: p')
next
  fix p' assume set: "SetRawExtension alloc ty raw p = (True, p')"
  obtain buffer p1 where al: "alloc ty (length raw) p = (buffer, p1)" by (cases "alloc ty (length raw) p")
  have b: "snd buffer \<noteq> 0" and p': "p' = patch (fst buffer) raw p1"
    using set unfolding SetRawExtension_def al by (auto split: if_splits)
  show "GetRawExtension fnd ty p' = raw" using stored(1) [OF assms(1) al b] by (simp add: p')
  show "GetRawExtension fnd other p' = GetRawExtension fnd other p" if "other \<noteq> ty" for other
    using stored(2) [OF assms(1) al b _ that] by (simp add: p')
next
  fix p' assume set: "ReserveExtension alloc e p = (True, p')"
  obtain buffer p1 where al: "alloc (ext_id e) (kValueSizeBytes e) p = (buffer, p1)" by (cases "alloc (ext_id e) (kValueSizeBytes e) p")
  have b: "snd buffer \<noteq> 0" and p': "p' = patch (fst buffer) (replicate (kValueSizeBytes e) 0) p1"
    using set unfolding ReserveExtension_def al by (auto split: if_splits)
  show "GetRawExtension fnd (ext_id e) p' = replicate (kValueSizeBytes e) 0" using stored(1) [OF assms(1) al b] by (simp add: p')
qed

text \<open>
  Setting fails for every value of size zero, such as the empty stream identifier, whatever room there is. When a class refuses to write a value, setting
  fails too, but the extension is in the packet from then on, with whatever bytes were left in it.
\<close>

theorem set_extension_failures:
  assumes "store_ok fnd alloc"
  shows "(value_size e v = 0 \<longrightarrow> fst (SetExtension alloc e v p) = False)
         \<and> fst (SetRawExtension alloc ty [] p) = False
         \<and> (\<forall>buffer p1 new. alloc (ext_id e) (value_size e v) p = (buffer, p1) \<and> snd buffer \<noteq> 0
              \<and> Write e (read_view buffer (pbuffer p1)) v = (False, new) \<and> length new = value_size e v \<longrightarrow>
              fst (SetExtension alloc e v p) = False \<and> GetRawExtension fnd (ext_id e) (snd (SetExtension alloc e v p)) = new \<and> new \<noteq> [])"
proof (intro conjI allI impI)
  have none: "snd (fst (alloc t 0 p)) = 0" for t
    using stored(3) [OF assms, of t 0 p "fst (alloc t 0 p)" "snd (alloc t 0 p)" "[]"] by force
  show "fst (SetExtension alloc e v p) = False" if "value_size e v = 0"
    using none [of "ext_id e"] that by (auto simp: SetExtension_def split: prod.split)
  show "fst (SetRawExtension alloc ty [] p) = False" using none [of ty] by (auto simp: SetRawExtension_def split: prod.split)
  fix buffer p1 new
  assume a: "alloc (ext_id e) (value_size e v) p = (buffer, p1) \<and> snd buffer \<noteq> 0
      \<and> Write e (read_view buffer (pbuffer p1)) v = (False, new) \<and> length new = value_size e v"
  then have r: "SetExtension alloc e v p = (False, patch (fst buffer) new p1)" by (simp add: SetExtension_def)
  note st = stored [OF assms, of "ext_id e" "value_size e v" p buffer p1 new]
  show "fst (SetExtension alloc e v p) = False" by (simp add: r)
  show "GetRawExtension fnd (ext_id e) (snd (SetExtension alloc e v p)) = new" using st(1) a by (simp add: r)
  show "new \<noteq> []" using st(3) a by simp
qed

section \<open>A packet with fixed places\<close>

text \<open>Every type has four bytes at its own place; the state says how many of them are used.\<close>

definition slot_find :: "(RTPExtensionType \<Rightarrow> nat) finder" where
  "slot_find ty p = (4 * type_num ty, min 4 (pstate p ty))"

definition slot_alloc :: "(RTPExtensionType \<Rightarrow> nat) allocator" where
  "slot_alloc ty n p =
     (if n = 0 \<or> 4 < n \<or> length (pbuffer p) < 4 * type_num ty + 4 then ((0, 0), p)
      else ((4 * type_num ty, n), p\<lparr>pstate := (pstate p)(ty := n)\<rparr>))"

lemma type_num_inj: "type_num a = type_num b \<Longrightarrow> a = b"
  by (cases a; cases b; simp)

lemma read_elsewhere:
  assumes "fst v + snd v \<le> off \<or> off + length new \<le> fst v" "off + length new \<le> length bs"
  shows "read_view v (write_view off new bs) = read_view v bs"
proof (rule nth_equalityI)
  show "length (read_view v (write_view off new bs)) = length (read_view v bs)" using assms by (auto simp: read_view_def write_view_def)
  fix i assume "i < length (read_view v (write_view off new bs))"
  then show "read_view v (write_view off new bs) ! i = read_view v bs ! i"
    using assms by (auto simp: read_view_def write_view_def nth_append)
qed

lemma slots_ok: "store_ok slot_find slot_alloc"
  unfolding store_ok_def
proof (intro allI impI)
  fix ty n p off len and p' :: "(RTPExtensionType \<Rightarrow> nat) RtpPacket"
  assume "slot_alloc ty n p = ((off, len), p') \<and> len \<noteq> 0"
  then have a: "n \<le> 4" "4 * type_num ty + 4 \<le> length (pbuffer p)" "off = 4 * type_num ty" "len = n" "p' = p\<lparr>pstate := (pstate p)(ty := n)\<rparr>"
    by (auto simp: slot_alloc_def split: if_splits)
  have other: "GetRawExtension slot_find t (patch off new p') = GetRawExtension slot_find t p" if "t \<noteq> ty" "length new = n" for t new
  proof -
    have "type_num t < type_num ty \<or> type_num ty < type_num t" using that(1) type_num_inj [of t ty] by linarith
    then show ?thesis using a that
      by (auto simp: GetRawExtension_def slot_find_def patch_def intro!: read_elsewhere)
  qed
  then show "len = n \<and> off + n \<le> length (pbuffer p') \<and>
      (\<forall>new. length new = n \<longrightarrow> slot_find ty (patch off new p') = (off, n)
        \<and> (\<forall>other. other \<noteq> ty \<longrightarrow> GetRawExtension slot_find other (patch off new p') = GetRawExtension slot_find other p))"
    using a by (auto simp: slot_find_def patch_def)
qed

text \<open>A class whose value is one byte; it refuses to write values above one hundred.\<close>

definition byte_class :: "RTPExtensionType \<Rightarrow> u8 extension_class" where
  "byte_class ty = \<lparr>ext_id = ty, Parse = (\<lambda>raw first. (True, hd raw)), value_size = (\<lambda>v. 1),
     Write = (\<lambda>old v. if v > 100 then (False, old) else (True, [v])), kValueSizeBytes = 1\<rparr>"

definition blank_packet :: "(RTPExtensionType \<Rightarrow> nat) RtpPacket" where
  "blank_packet = \<lparr>pbuffer = replicate 12 7, pstate = (\<lambda>_. 0)\<rparr>"

lemma byte_class_carries: "carries_value (byte_class ty) v"
  by (simp add: carries_value_def byte_class_def)

theorem set_get_extension_witness:
  "\<exists>p'. SetExtension slot_alloc (byte_class kRtpExtensionAudioLevel) 42 blank_packet = (True, p')
     \<and> GetExtension slot_find (byte_class kRtpExtensionAudioLevel) 0 p' = Some 42"
proof -
  have "\<exists>p'. SetExtension slot_alloc (byte_class kRtpExtensionAudioLevel) 42 blank_packet = (True, p')"
    by (simp add: SetExtension_def slot_alloc_def byte_class_def blank_packet_def)
  then show ?thesis
    using set_get_extension [OF slots_ok byte_class_carries, of _ 42 blank_packet 0 0 kRtpExtensionMid "[]"] by blast
qed

theorem set_extension_failures_witness:
  "fst (SetExtension slot_alloc (byte_class kRtpExtensionAudioLevel) 200 blank_packet) = False
   \<and> GetRawExtension slot_find kRtpExtensionAudioLevel (snd (SetExtension slot_alloc (byte_class kRtpExtensionAudioLevel) 200 blank_packet)) = [7]"
  using set_extension_failures [OF slots_ok, of "byte_class kRtpExtensionAudioLevel" 200 blank_packet kRtpExtensionMid]
  by (simp add: slot_alloc_def byte_class_def blank_packet_def read_view_def)

end
