(* ===== verification/Rtc_Error.thy ===== *)
theory Rtc_Error
  imports Prelude
begin

text \<open>
  Errors and results of the interfaces: \<^verbatim>\<open>rtc_error.h\<close> with the string builder of \<^verbatim>\<open>string_builder.h\<close> it keeps its message in. A program holds a list of results and
  creates, moves and reads them; each operation is one step. Moving an error copies it, because the string builder has no move operation of its own; what moving leaves of a value is the parameter
  \<open>husk\<close>, and the printing of numbers and of the names of error types are parameters too. Theorems: a result is an error or has a value, never both nor neither, so no empty value is ever read; and what
  the text of an error is.
\<close>

section \<open>Errors\<close>

datatype RTCErrorType = NONE | UNSUPPORTED_OPERATION | UNSUPPORTED_PARAMETER | INVALID_PARAMETER | INVALID_RANGE | SYNTAX_ERROR | INVALID_STATE
  | INVALID_MODIFICATION | NETWORK_ERROR | RESOURCE_EXHAUSTED | INTERNAL_ERROR | OPERATION_ERROR_WITH_DATA

datatype RTCErrorDetailType = NO_DETAIL | DATA_CHANNEL_FAILURE | DTLS_FAILURE | FINGERPRINT_FAILURE | SCTP_FAILURE | SDP_SYNTAX_ERROR
  | HARDWARE_ENCODER_NOT_AVAILABLE | HARDWARE_ENCODER_ERROR

text \<open>The string builder is its string.\<close>

definition sb_append :: "string \<Rightarrow> string \<Rightarrow> string" where
  "sb_append s str = str @ s"

definition sb_append_number :: "('n \<Rightarrow> string) \<Rightarrow> 'n \<Rightarrow> string \<Rightarrow> string" where
  "sb_append_number StrCat i str = str @ StrCat i"

definition sb_Clear :: "string \<Rightarrow> string" where
  "sb_Clear str = []"

definition sb_size :: "string \<Rightarrow> nat" where
  "sb_size str = length str"

definition sb_Release :: "string \<Rightarrow> string \<times> string" where
  "sb_Release str = (str, sb_Clear str)"

record RTCError =
  error_type :: RTCErrorType
  message :: string
  error_detail :: RTCErrorDetailType
  sctp_cause_code :: "u16 option"

definition RTCError_default :: RTCError where
  "RTCError_default = \<lparr>error_type = NONE, message = [], error_detail = NO_DETAIL, sctp_cause_code = None\<rparr>"

definition RTCError_of :: "RTCErrorType \<Rightarrow> RTCError" where
  "RTCError_of ty = RTCError_default\<lparr>error_type := ty\<rparr>"

definition RTCError_with :: "RTCErrorType \<Rightarrow> string \<Rightarrow> RTCError" where
  "RTCError_with ty msg = RTCError_default\<lparr>error_type := ty, message := msg\<rparr>"

definition InvalidParameter :: RTCError where "InvalidParameter = RTCError_of INVALID_PARAMETER"

definition InvalidState :: RTCError where "InvalidState = RTCError_of INVALID_STATE"

definition InvalidModification :: RTCError where "InvalidModification = RTCError_of INVALID_MODIFICATION"

definition UnsupportedOperation :: RTCError where "UnsupportedOperation = RTCError_of UNSUPPORTED_OPERATION"

definition UnsupportedParameter :: RTCError where "UnsupportedParameter = RTCError_of UNSUPPORTED_PARAMETER"

definition set_error_type :: "RTCErrorType \<Rightarrow> RTCError \<Rightarrow> RTCError" where
  "set_error_type ty e = e\<lparr>error_type := ty\<rparr>"

definition set_error_detail :: "RTCErrorDetailType \<Rightarrow> RTCError \<Rightarrow> RTCError" where
  "set_error_detail d e = e\<lparr>error_detail := d\<rparr>"

definition set_sctp_cause_code :: "u16 \<Rightarrow> RTCError \<Rightarrow> RTCError" where
  "set_sctp_cause_code c e = e\<lparr>sctp_cause_code := Some c\<rparr>"

definition error_append :: "string \<Rightarrow> RTCError \<Rightarrow> RTCError" where
  "error_append val e = e\<lparr>message := sb_append val (message e)\<rparr>"

definition error_ok :: "RTCError \<Rightarrow> bool" where
  "error_ok e \<longleftrightarrow> error_type e = NONE"

definition error_text :: "(RTCErrorType \<Rightarrow> string) \<Rightarrow> RTCError \<Rightarrow> string" where
  "error_text ToString e =
     ToString (error_type e) @ (if message e \<noteq> [] then '' with message: '' @ [CHR 0x22] @ message e @ [CHR 0x22] else [])"

section \<open>Results\<close>

record 'a RTCErrorOr =
  res_error :: RTCError
  res_value :: "'a option"

definition result_default :: "'a RTCErrorOr" where
  "result_default = \<lparr>res_error = RTCError_of INTERNAL_ERROR, res_value = None\<rparr>"

definition result_of_error :: "RTCError \<Rightarrow> abort + 'a RTCErrorOr" where
  "result_of_error e = check (\<not> error_ok e) (Inr \<lparr>res_error = e, res_value = None\<rparr>)"

definition result_of_value :: "'a \<Rightarrow> 'a RTCErrorOr" where
  "result_of_value v = \<lparr>res_error = RTCError_default, res_value = Some v\<rparr>"

definition result_ok :: "'a RTCErrorOr \<Rightarrow> bool" where
  "result_ok r = error_ok (res_error r)"

text \<open>What a move leaves in the source: its error, and a moved-from value if there was one.\<close>

definition moved_from :: "('a \<Rightarrow> 'a) \<Rightarrow> 'a RTCErrorOr \<Rightarrow> 'a RTCErrorOr" where
  "moved_from husk r = r\<lparr>res_value := map_option husk (res_value r)\<rparr>"

definition result_convert :: "('a \<Rightarrow> 'b) \<Rightarrow> 'a RTCErrorOr \<Rightarrow> 'b RTCErrorOr" where
  "result_convert conv other = \<lparr>res_error = res_error other, res_value = map_option conv (res_value other)\<rparr>"

text \<open>To dereference an optional without a value is undefined.\<close>

definition result_value :: "'a RTCErrorOr \<Rightarrow> abort + 'a" where
  "result_value r = check (result_ok r) (case res_value r of Some v \<Rightarrow> Inr v | None \<Rightarrow> Inl UninitRead)"

definition set_result_value :: "'a \<Rightarrow> 'a RTCErrorOr \<Rightarrow> abort + 'a RTCErrorOr" where
  "set_result_value v r = bindE (result_value r) (\<lambda>_. Inr (r\<lparr>res_value := Some v\<rparr>))"

definition MoveValue :: "('a \<Rightarrow> 'a) \<Rightarrow> 'a RTCErrorOr \<Rightarrow> abort + 'a \<times> 'a RTCErrorOr" where
  "MoveValue husk r = bindE (result_value r) (\<lambda>v. Inr (v, moved_from husk r))"

definition MoveError :: "'a RTCErrorOr \<Rightarrow> RTCError \<times> 'a RTCErrorOr" where
  "MoveError r = (res_error r, r)"

definition result_text :: "(RTCErrorType \<Rightarrow> string) \<Rightarrow> ('a \<Rightarrow> string) option \<Rightarrow> 'a RTCErrorOr \<Rightarrow> abort + string" where
  "result_text ToString AlphaNum r =
     (if result_ok r
      then (case AlphaNum of None \<Rightarrow> Inr ''OK''
            | Some StrCat \<Rightarrow> bindE (result_value r) (\<lambda>v. Inr (''OK'' @ '' with value: '' @ StrCat v)))
      else Inr (error_text ToString (res_error r)))"

section \<open>A program with results\<close>

datatype 'a result_op = NewResult | FromError RTCError | MakeValue 'a | MoveConstruct nat | MoveAssign nat nat | MoveErrorOut nat
  | ReadValue nat | WriteValue nat 'a | TakeValue nat

definition result_at :: "nat \<Rightarrow> 'b list \<Rightarrow> abort + 'b" where
  "result_at i rs = (if i < length rs then Inr (rs ! i) else Inl OutOfBounds)"

text \<open>In a move to itself the value is both source and target of its own assignment.\<close>

fun run_op :: "('a \<Rightarrow> 'a) \<Rightarrow> 'a result_op \<Rightarrow> 'a RTCErrorOr list \<Rightarrow> abort + 'a RTCErrorOr list" where
  "run_op husk NewResult rs = Inr (rs @ [result_default])"
| "run_op husk (FromError e) rs = bindE (result_of_error e) (\<lambda>r. Inr (rs @ [r]))"
| "run_op husk (MakeValue v) rs = Inr (rs @ [result_of_value v])"
| "run_op husk (MoveConstruct i) rs = bindE (result_at i rs) (\<lambda>r. Inr (rs[i := moved_from husk r] @ [r]))"
| "run_op husk (MoveAssign i j) rs = bindE (result_at i rs) (\<lambda>_. bindE (result_at j rs) (\<lambda>r. Inr ((rs[i := r])[j := moved_from husk r])))"
| "run_op husk (MoveErrorOut i) rs = bindE (result_at i rs) (\<lambda>r. Inr (rs[i := snd (MoveError r)]))"
| "run_op husk (ReadValue i) rs = bindE (result_at i rs) (\<lambda>r. bindE (result_value r) (\<lambda>_. Inr rs))"
| "run_op husk (WriteValue i v) rs = bindE (result_at i rs) (\<lambda>r. bindE (set_result_value v r) (\<lambda>r. Inr (rs[i := r])))"
| "run_op husk (TakeValue i) rs = bindE (result_at i rs) (\<lambda>r. bindE (MoveValue husk r) (\<lambda>(v, r). Inr (rs[i := r])))"

inductive result_step :: "('a \<Rightarrow> 'a) \<Rightarrow> 'a RTCErrorOr list \<Rightarrow> 'a RTCErrorOr list \<Rightarrow> bool" for husk where
  op: "run_op husk p rs = Inr rs' \<Longrightarrow> result_step husk rs rs'"

definition result_inv :: "'a RTCErrorOr \<Rightarrow> bool" where
  "result_inv r \<longleftrightarrow> (result_ok r \<longleftrightarrow> res_value r \<noteq> None)"

lemmas result_defs = result_inv_def result_ok_def error_ok_def

lemma moved_from_inv [simp]: "result_inv (moved_from husk r) = result_inv r"
  by (simp add: result_defs moved_from_def)

lemma convert_inv [simp]: "result_inv (result_convert conv r) = result_inv r"
  by (simp add: result_defs result_convert_def)

lemma fresh_inv [simp]: "result_inv result_default" "result_inv (result_of_value v)" "result_of_error e = Inr r \<Longrightarrow> result_inv r"
  by (auto simp: result_defs result_default_def result_of_value_def result_of_error_def RTCError_of_def RTCError_default_def)

lemma set_value_inv: "set_result_value v r = Inr r' \<Longrightarrow> result_inv r'"
  by (auto simp: set_result_value_def result_value_def result_defs split: option.splits)

lemma value_safe: "result_inv r \<Longrightarrow> result_value r = (if result_ok r then Inr (the (res_value r)) else Inl CheckFailed)"
  by (auto simp: result_inv_def result_value_def)

lemma run_op_inv:
  assumes "run_op husk p rs = Inr rs'" "\<forall>r \<in> set rs. result_inv r"
  shows "\<forall>r \<in> set rs'. result_inv r"
  using assms
proof (cases p)
  case (WriteValue i v)
  with assms show ?thesis by (auto simp: result_at_def split: if_splits dest!: set_value_inv subsetD [OF set_update_subset_insert])
qed (auto simp: result_at_def MoveError_def MoveValue_def split: if_splits dest!: subsetD [OF set_update_subset_insert])

interpretation results: safe_system "\<lambda>rs. rs = []" "result_step husk" "\<lambda>rs. \<forall>r \<in> set rs. result_inv r" for husk
  by unfold_locales (auto elim!: result_step.cases dest: run_op_inv)

lemma read_fails:
  assumes "result_inv r"
  shows "bindE (result_value r) f = Inl a \<longleftrightarrow> (if result_ok r then f (the (res_value r)) = Inl a else a = CheckFailed)"
  using value_safe [OF assms] by auto

text \<open>
  C12. However a program creates, moves, reads and overwrites results, each of them is at all times either an error without a value or a value without an error; moving
  a value out or a result away does not change which. So reading never touches an empty value. The only checks that fail are those for making a result of an error that is
  none and for using the value of an error.
\<close>

theorem result_value_or_error:
  assumes "(result_step husk)\<^sup>*\<^sup>* [] rs"
  shows "(\<forall>r \<in> set rs. result_ok r \<longleftrightarrow> res_value r \<noteq> None)
         \<and> run_op husk p rs \<noteq> Inl UninitRead
         \<and> (run_op husk p rs = Inl CheckFailed \<longleftrightarrow>
              (\<exists>e. p = FromError e \<and> error_ok e)
              \<or> (\<exists>i v. p \<in> {ReadValue i, WriteValue i v, TakeValue i} \<and> i < length rs \<and> \<not> result_ok (rs ! i)))"
proof -
  have inv: "\<forall>r \<in> set rs. result_inv r" using results.inv_reachable [OF refl assms] .
  then have i: "i < length rs \<Longrightarrow> result_inv (rs ! i)" for i by simp
  have "run_op husk p rs \<noteq> Inl UninitRead"
    using i by (cases p) (auto simp: bindE_Inl_iff result_at_def result_of_error_def check_def set_result_value_def MoveValue_def value_safe split: if_splits)
  moreover have "run_op husk p rs = Inl CheckFailed \<longleftrightarrow>
              (\<exists>e. p = FromError e \<and> error_ok e)
              \<or> (\<exists>i v. p \<in> {ReadValue i, WriteValue i v, TakeValue i} \<and> i < length rs \<and> \<not> result_ok (rs ! i))"
    using i by (cases p) (auto simp: bindE_Inl_iff result_at_def result_of_error_def check_def set_result_value_def MoveValue_def value_safe split: if_splits)
  ultimately show ?thesis using inv by (simp add: result_inv_def)
qed

theorem result_value_or_error_witness:
  "run_op (\<lambda>_. 0) (TakeValue 0) [result_of_value (5 :: nat)] = Inr [result_of_value 0]
   \<and> run_op (\<lambda>_. 0) (ReadValue 0) [result_of_value (5 :: nat)] \<noteq> Inl CheckFailed"
proof -
  have "result_step (\<lambda>_. 0) [] [result_of_value (5 :: nat)]" by (rule result_step.op [of _ "MakeValue 5"]) simp
  then have "(result_step (\<lambda>_. 0))\<^sup>*\<^sup>* [] [result_of_value (5 :: nat)]" by blast
  from result_value_or_error [OF this, of "ReadValue 0"] show ?thesis
    by (auto simp: result_at_def MoveValue_def result_value_def moved_from_def result_of_value_def result_ok_def error_ok_def RTCError_default_def)
qed

text \<open>
  The text of an error is the name of its type, followed by the pieces its message was built from, in order and in quotes, if they are not all empty. A result that is
  reachable can always be printed: as an error if it is one, otherwise as a success, and converting it to another type changes nothing about that.
\<close>

theorem result_texts:
  assumes "(result_step husk)\<^sup>*\<^sup>* [] rs" "r \<in> set rs"
  shows "error_text ToString (fold error_append parts (RTCError_of ty)) =
           ToString ty @ (if concat parts = [] then [] else '' with message: '' @ [CHR 0x22] @ concat parts @ [CHR 0x22])
         \<and> result_text ToString (Some StrCat) r =
             Inr (if result_ok r then ''OK with value: '' @ StrCat (the (res_value r)) else error_text ToString (res_error r))
         \<and> result_text ToString (Some StrCat') (result_convert conv r) =
             Inr (if result_ok r then ''OK with value: '' @ StrCat' (conv (the (res_value r))) else error_text ToString (res_error r))"
proof (intro conjI)
  have "message (fold error_append parts e) = message e @ concat parts \<and> error_type (fold error_append parts e) = error_type e" for e
    by (induction parts arbitrary: e) (simp_all add: error_append_def sb_append_def)
  then show "error_text ToString (fold error_append parts (RTCError_of ty)) =
           ToString ty @ (if concat parts = [] then [] else '' with message: '' @ [CHR 0x22] @ concat parts @ [CHR 0x22])"
    by (simp add: error_text_def RTCError_of_def RTCError_default_def)
  have inv: "result_inv r" using results.inv_reachable [OF refl assms(1)] assms(2) by blast
  then have inv': "result_inv (result_convert conv r)" by simp
  have conv: "result_ok (result_convert conv r) = result_ok r" "res_error (result_convert conv r) = res_error r"
    by (simp_all add: result_ok_def result_convert_def)
  show "result_text ToString (Some StrCat) r =
             Inr (if result_ok r then ''OK with value: '' @ StrCat (the (res_value r)) else error_text ToString (res_error r))"
    using value_safe [OF inv] by (simp add: result_text_def)
  show "result_text ToString (Some StrCat') (result_convert conv r) =
             Inr (if result_ok r then ''OK with value: '' @ StrCat' (conv (the (res_value r))) else error_text ToString (res_error r))"
    using value_safe [OF inv'] inv conv by (auto simp: result_text_def result_inv_def result_convert_def)
qed

theorem result_texts_witness:
  "error_text (\<lambda>_. ''INVALID_RANGE'') (error_append ''too big'' (error_append ''x '' (RTCError_of INVALID_RANGE))) =
     ''INVALID_RANGE with message: '' @ [CHR 0x22] @ ''x too big'' @ [CHR 0x22]"
proof -
  have "result_step (\<lambda>_. 0) [] [result_of_value (5 :: nat)]" by (rule result_step.op [of _ "MakeValue 5"]) simp
  then have "(result_step (\<lambda>_. 0))\<^sup>*\<^sup>* [] [result_of_value (5 :: nat)]" by blast
  from result_texts [OF this, of "result_of_value 5" "\<lambda>_. ''INVALID_RANGE''" "[''x '', ''too big'']" INVALID_RANGE "\<lambda>_. []" "\<lambda>_. []" "\<lambda>x. x"]
  show ?thesis by simp
qed

end
