(* ===== verification/Media_Settings.thy ===== *)
theory Media_Settings
  imports Rtc_Error
begin

text \<open>
  Settings that change at run time: the options of a video channel (\<^verbatim>\<open>media_channel.h\<close>), the description of a network interface and its listeners (\<^verbatim>\<open>network.h\<close>), and the codes of
  pixel formats (\<^verbatim>\<open>video_common.h\<close>). Theorems: changes of options combine as expected except for the content hint; listeners of a network always know its type; codes and names of formats are inverse.
\<close>

unbundle bit_operations_syntax

section \<open>Options of a video channel\<close>

record 'h VideoOptions =
  video_noise_reduction :: "bool option"
  screencast_min_bitrate_kbps :: "int option"
  is_screencast :: "bool option"
  content_hint :: 'h

definition SetFrom :: "'a option \<Rightarrow> 'a option \<Rightarrow> 'a option" where
  "SetFrom s o' = (if o' \<noteq> None then o' else s)"

definition SetAll :: "'h VideoOptions \<Rightarrow> 'h VideoOptions \<Rightarrow> 'h VideoOptions" where
  "SetAll change v = v\<lparr>video_noise_reduction := SetFrom (video_noise_reduction v) (video_noise_reduction change),
     screencast_min_bitrate_kbps := SetFrom (screencast_min_bitrate_kbps v) (screencast_min_bitrate_kbps change),
     is_screencast := SetFrom (is_screencast v) (is_screencast change)\<rparr>"

definition options_eq :: "'h VideoOptions \<Rightarrow> 'h VideoOptions \<Rightarrow> bool" where
  "options_eq v w \<longleftrightarrow> video_noise_reduction v = video_noise_reduction w
     \<and> screencast_min_bitrate_kbps v = screencast_min_bitrate_kbps w \<and> is_screencast v = is_screencast w"

definition ToStringIfSet :: "('a \<Rightarrow> string) \<Rightarrow> string \<Rightarrow> 'a option \<Rightarrow> string" where
  "ToStringIfSet StrCat key val = (case val of None \<Rightarrow> [] | Some x \<Rightarrow> key @ '': '' @ StrCat x @ '', '')"

definition options_ToString :: "(bool \<Rightarrow> string) \<Rightarrow> (int \<Rightarrow> string) \<Rightarrow> 'h VideoOptions \<Rightarrow> string" where
  "options_ToString flag number v =
     (let ost = sb_append ''VideoOptions {'' [];
          ost = sb_append (ToStringIfSet flag ''noise reduction'' (video_noise_reduction v)) ost;
          ost = sb_append (ToStringIfSet number ''screencast min bitrate kbps'' (screencast_min_bitrate_kbps v)) ost;
          ost = sb_append (ToStringIfSet flag ''is_screencast '' (is_screencast v)) ost;
          ost = sb_append ''}'' ost
      in fst (sb_Release ost))"

fun vector_loop :: "('a \<Rightarrow> string) \<Rightarrow> nat \<Rightarrow> 'a list \<Rightarrow> string \<Rightarrow> string" where
  "vector_loop show_elem i [] ost = ost"
| "vector_loop show_elem i (x # xs) ost =
     vector_loop show_elem (i + 1) xs (sb_append (show_elem x) (if i > 0 then sb_append '', '' ost else ost))"

definition VectorToString :: "('a \<Rightarrow> string) \<Rightarrow> 'a list \<Rightarrow> string" where
  "VectorToString show_elem vals = fst (sb_Release (sb_append '']'' (vector_loop show_elem 0 vals (sb_append ''['' []))))"

lemma SetFrom_laws [simp]: "SetFrom s None = s" "SetFrom s (Some x) = Some x" "SetFrom (SetFrom s a) b = SetFrom s (SetFrom a b)" "SetFrom s s = s"
  by (auto simp: SetFrom_def)

text \<open>
  The options after several changes: each has its most recent value that was set. Changes can be combined before they are applied, applying one twice is applying it once, and
  the content hint is never changed. Equality does not look at the content hint either: options with different hints compare equal.
\<close>

theorem options_changes:
  "SetAll c2 (SetAll c1 v) = SetAll (SetAll c2 c1) v
   \<and> SetAll c1 (SetAll c1 v) = SetAll c1 v
   \<and> is_screencast (fold SetAll cs v) = fold (\<lambda>c s. SetFrom s (is_screencast c)) cs (is_screencast v)
   \<and> content_hint (fold SetAll cs v) = content_hint v
   \<and> (options_eq v w \<longleftrightarrow> v\<lparr>content_hint := h\<rparr> = w\<lparr>content_hint := h\<rparr>)"
proof (intro conjI)
  show "is_screencast (fold SetAll cs v) = fold (\<lambda>c s. SetFrom s (is_screencast c)) cs (is_screencast v)"
    by (induction cs arbitrary: v) (simp_all add: SetAll_def)
  show "content_hint (fold SetAll cs v) = content_hint v" by (induction cs arbitrary: v) (simp_all add: SetAll_def)
  show "options_eq v w \<longleftrightarrow> v\<lparr>content_hint := h\<rparr> = w\<lparr>content_hint := h\<rparr>"
    by (cases v; cases w) (auto simp: options_eq_def)
qed (simp_all add: SetAll_def)

lemma vector_loop_rest: "0 < i \<Longrightarrow> vector_loop show_elem i xs ost = ost @ concat (map (\<lambda>x. '', '' @ show_elem x) xs)"
  by (induction xs arbitrary: i ost) (simp_all add: sb_append_def)

text \<open>
  The text of a vector is its elements in brackets, with a separator between them and none at the ends. The text of options has an entry for each option that is set and none otherwise.
\<close>

theorem settings_texts:
  "VectorToString show_elem [] = ''[]''
   \<and> VectorToString show_elem (x # xs) = ''['' @ show_elem x @ concat (map (\<lambda>y. '', '' @ show_elem y) xs) @ '']''
   \<and> options_ToString flag number v = ''VideoOptions {'' @ ToStringIfSet flag ''noise reduction'' (video_noise_reduction v)
        @ ToStringIfSet number ''screencast min bitrate kbps'' (screencast_min_bitrate_kbps v) @ ToStringIfSet flag ''is_screencast '' (is_screencast v) @ ''}''"
  by (simp add: VectorToString_def options_ToString_def vector_loop_rest sb_append_def sb_Release_def)

section \<open>Networks\<close>

datatype AdapterType = ADAPTER_TYPE_UNKNOWN | ADAPTER_TYPE_ETHERNET | ADAPTER_TYPE_WIFI | ADAPTER_TYPE_CELLULAR | ADAPTER_TYPE_VPN | ADAPTER_TYPE_LOOPBACK
  | ADAPTER_TYPE_ANY | ADAPTER_TYPE_CELLULAR_2G | ADAPTER_TYPE_CELLULAR_3G | ADAPTER_TYPE_CELLULAR_4G | ADAPTER_TYPE_CELLULAR_5G

datatype NetworkPreference = NEUTRAL | NOT_PREFERRED

datatype NetworkSlice = NO_SLICE | UNIFIED_COMMUNICATIONS

text \<open>
  The network with what it has sent to the receivers of its two signals: the types, and the preference, as a receiver reads them when it is called.
\<close>

record 'ip Network =
  ips :: "'ip list"
  scope_id :: int
  ignored :: bool
  net_type :: AdapterType
  underlying_type_for_vpn :: AdapterType
  preference :: int
  active :: bool
  net_id :: u16
  network_preference :: NetworkPreference
  network_slice :: NetworkSlice
  type_signals :: "(AdapterType \<times> AdapterType) list"
  preference_signals :: "NetworkPreference list"

definition NotifyTypeChanged :: "'ip Network \<Rightarrow> 'ip Network" where
  "NotifyTypeChanged n = n\<lparr>type_signals := type_signals n @ [(net_type n, underlying_type_for_vpn n)]\<rparr>"

definition NotifyNetworkPreferenceChanged :: "'ip Network \<Rightarrow> 'ip Network" where
  "NotifyNetworkPreferenceChanged n = n\<lparr>preference_signals := preference_signals n @ [network_preference n]\<rparr>"

definition AddIP :: "'ip \<Rightarrow> 'ip Network \<Rightarrow> 'ip Network" where
  "AddIP ip n = n\<lparr>ips := ips n @ [ip]\<rparr>"

definition ClearIPs :: "'ip Network \<Rightarrow> 'ip Network" where
  "ClearIPs n = n\<lparr>ips := []\<rparr>"

definition set_net_type :: "AdapterType \<Rightarrow> 'ip Network \<Rightarrow> 'ip Network" where
  "set_net_type t n =
     (if net_type n = t then n
      else let n = n\<lparr>net_type := t\<rparr>;
               n = (if t \<noteq> ADAPTER_TYPE_VPN then n\<lparr>underlying_type_for_vpn := ADAPTER_TYPE_UNKNOWN\<rparr> else n)
           in NotifyTypeChanged n)"

definition set_underlying_type_for_vpn :: "AdapterType \<Rightarrow> 'ip Network \<Rightarrow> 'ip Network" where
  "set_underlying_type_for_vpn t n =
     (if underlying_type_for_vpn n = t then n else NotifyTypeChanged (n\<lparr>underlying_type_for_vpn := t\<rparr>))"

definition IsVpn :: "'ip Network \<Rightarrow> bool" where
  "IsVpn n \<longleftrightarrow> net_type n = ADAPTER_TYPE_VPN"

definition IsCellular :: "AdapterType \<Rightarrow> bool" where
  "IsCellular t = (case t of ADAPTER_TYPE_CELLULAR \<Rightarrow> True | ADAPTER_TYPE_CELLULAR_2G \<Rightarrow> True | ADAPTER_TYPE_CELLULAR_3G \<Rightarrow> True
     | ADAPTER_TYPE_CELLULAR_4G \<Rightarrow> True | ADAPTER_TYPE_CELLULAR_5G \<Rightarrow> True | _ \<Rightarrow> False)"

definition set_active :: "bool \<Rightarrow> 'ip Network \<Rightarrow> 'ip Network" where
  "set_active a n = (if active n \<noteq> a then n\<lparr>active := a\<rparr> else n)"

definition set_network_preference :: "NetworkPreference \<Rightarrow> 'ip Network \<Rightarrow> 'ip Network" where
  "set_network_preference val n =
     (if network_preference n = val then n else NotifyNetworkPreferenceChanged (n\<lparr>network_preference := val\<rparr>))"

datatype 'ip network_op = OpAddIP 'ip | OpClearIPs | OpScope int | OpIgnored bool | OpType AdapterType | OpUnderlying AdapterType | OpId u16
  | OpPreference int | OpActive bool | OpNetworkPreference NetworkPreference | OpSlice NetworkSlice

text \<open>The setters without a condition are updates of their field.\<close>

fun network_do :: "'ip network_op \<Rightarrow> 'ip Network \<Rightarrow> 'ip Network" where
  "network_do (OpAddIP ip) n = AddIP ip n"
| "network_do OpClearIPs n = ClearIPs n"
| "network_do (OpScope i) n = n\<lparr>scope_id := i\<rparr>"
| "network_do (OpIgnored b) n = n\<lparr>ignored := b\<rparr>"
| "network_do (OpType t) n = set_net_type t n"
| "network_do (OpUnderlying t) n = set_underlying_type_for_vpn t n"
| "network_do (OpId i) n = n\<lparr>net_id := i\<rparr>"
| "network_do (OpPreference p) n = n\<lparr>preference := p\<rparr>"
| "network_do (OpActive b) n = set_active b n"
| "network_do (OpNetworkPreference p) n = set_network_preference p n"
| "network_do (OpSlice s) n = n\<lparr>network_slice := s\<rparr>"

text \<open>A listener that starts with what is true at \<open>start\<close> and follows the signals.\<close>

definition signals_follow :: "'a \<Rightarrow> 'a list \<Rightarrow> 'a \<Rightarrow> bool" where
  "signals_follow start signals now \<longleftrightarrow> last (start # signals) = now \<and> successively (\<noteq>) (start # signals)"

lemma signals_follow_append: "signals_follow start signals old \<Longrightarrow> old \<noteq> now \<Longrightarrow> signals_follow start (signals @ [now]) now"
  unfolding signals_follow_def using successively_append_iff [of "(\<noteq>)" "start # signals" "[now]"] by auto

definition network_inv :: "AdapterType \<times> AdapterType \<Rightarrow> NetworkPreference \<Rightarrow> 'ip Network \<Rightarrow> bool" where
  "network_inv ty0 p0 n \<longleftrightarrow> signals_follow ty0 (type_signals n) (net_type n, underlying_type_for_vpn n)
     \<and> signals_follow p0 (preference_signals n) (network_preference n)"

lemmas network_defs = AddIP_def ClearIPs_def set_net_type_def set_underlying_type_for_vpn_def set_active_def set_network_preference_def
  NotifyTypeChanged_def NotifyNetworkPreferenceChanged_def

lemma network_do_inv: "network_inv ty0 p0 n \<Longrightarrow> network_inv ty0 p0 (network_do p n)"
  by (cases p) (auto simp: network_inv_def network_defs Let_def intro!: signals_follow_append elim: signals_follow_append)

lemma network_start: "type_signals n = [] \<Longrightarrow> preference_signals n = [] \<Longrightarrow>
    network_inv (net_type n, underlying_type_for_vpn n) (network_preference n) n"
  by (simp add: network_inv_def signals_follow_def)

interpretation networks: safe_system "\<lambda>n. n = n0 \<and> type_signals n = [] \<and> preference_signals n = []" "\<lambda>n n'. \<exists>p. n' = network_do p n"
    "network_inv (net_type n0, underlying_type_for_vpn n0) (network_preference n0)" for n0 :: "'ip Network"
  by unfold_locales (use network_start network_do_inv in blast)+

lemma network_runs: "(\<lambda>n n'. \<exists>p. n' = network_do p n)\<^sup>*\<^sup>* n (fold network_do ops n)"
proof (induction ops arbitrary: n)
  case (Cons p ops)
  have "(\<lambda>n n'. \<exists>p. n' = network_do p n) n (network_do p n)" by blast
  with Cons show ?case by (simp add: converse_rtranclp_into_rtranclp)
qed simp

text \<open>
  Whatever is done to a network, a receiver of its signals that knew the types and the preference at the start knows the current ones, and is never called without a change. After
  a change to a type that is not a VPN the underlying type is unknown; it can be set for any network afterwards.
\<close>

theorem network_signals_exact:
  assumes "type_signals n = []" "preference_signals n = []" "n' = fold network_do ops n"
  shows "last ((net_type n, underlying_type_for_vpn n) # type_signals n') = (net_type n', underlying_type_for_vpn n')
         \<and> successively (\<noteq>) ((net_type n, underlying_type_for_vpn n) # type_signals n')
         \<and> last (network_preference n # preference_signals n') = network_preference n'
         \<and> successively (\<noteq>) (network_preference n # preference_signals n')
         \<and> (net_type n' \<noteq> t \<and> t \<noteq> ADAPTER_TYPE_VPN \<longrightarrow> underlying_type_for_vpn (network_do (OpType t) n') = ADAPTER_TYPE_UNKNOWN)"
proof -
  have "network_inv (net_type n, underlying_type_for_vpn n) (network_preference n) n'"
    unfolding assms(3) using networks.inv_reachable [OF _ network_runs] assms(1,2) by blast
  then show ?thesis by (simp add: network_inv_def signals_follow_def network_defs Let_def)
qed

definition wifi :: "nat Network" where
  "wifi = \<lparr>ips = [], scope_id = 0, ignored = False, net_type = ADAPTER_TYPE_WIFI, underlying_type_for_vpn = ADAPTER_TYPE_UNKNOWN, preference = 0, active = True,
     net_id = 0, network_preference = NEUTRAL, network_slice = NO_SLICE, type_signals = [], preference_signals = []\<rparr>"

theorem network_signals_exact_witness:
  "last ((ADAPTER_TYPE_WIFI, ADAPTER_TYPE_UNKNOWN) # type_signals (fold network_do [OpType ADAPTER_TYPE_VPN, OpUnderlying ADAPTER_TYPE_WIFI, OpType ADAPTER_TYPE_ETHERNET] wifi))
     = (ADAPTER_TYPE_ETHERNET, ADAPTER_TYPE_UNKNOWN)"
  using network_signals_exact [of wifi _ "[OpType ADAPTER_TYPE_VPN, OpUnderlying ADAPTER_TYPE_WIFI, OpType ADAPTER_TYPE_ETHERNET]" ADAPTER_TYPE_ANY]
  by (simp add: wifi_def network_defs)

section \<open>Codes of pixel formats\<close>

text \<open>A character is a signed byte, and its conversion to 32 bits extends the sign.\<close>

definition CRICKET_FOURCC :: "u8 \<Rightarrow> u8 \<Rightarrow> u8 \<Rightarrow> u8 \<Rightarrow> u32" where
  "CRICKET_FOURCC a b c d = scast a OR push_bit 8 (scast b) OR push_bit 16 (scast c) OR push_bit 24 (scast d)"

definition GetFourccName :: "u32 \<Rightarrow> u8 list" where
  "GetFourccName fourcc = [ucast (fourcc AND 0xFF), ucast (drop_bit 8 fourcc AND 0xFF), ucast (drop_bit 16 fourcc AND 0xFF), ucast (drop_bit 24 fourcc AND 0xFF)]"

lemma ascii_scast: "a < 128 \<Longrightarrow> (scast a :: u32) = ucast a" for a :: u8
proof -
  assume "a < 128"
  then have "uint a < 128" by (simp add: word_less_def)
  moreover have "- (2 ^ 7) \<le> uint a" by (rule order_trans [of _ 0]) simp_all
  ultimately have "sint a = uint a" using signed_take_bit_int_eq_self [of 7 "uint a"] by (simp add: sint_uint)
  then show ?thesis by (metis of_int_sint of_int_uint)
qed

lemma low_byte: "bit (w AND 0xFF) n \<longleftrightarrow> n < 8 \<and> bit w n" for w :: u32
proof -
  have "(0xFF :: u32) = mask 8" by (simp add: mask_eq_exp_minus_1)
  then have "w AND 0xFF = take_bit 8 w" by (simp only: take_bit_eq_mask)
  then show ?thesis by (simp add: bit_take_bit_iff)
qed

definition four_bytes :: "u8 \<Rightarrow> u8 \<Rightarrow> u8 \<Rightarrow> u8 \<Rightarrow> u32" where
  "four_bytes a b c d = ucast a OR push_bit 8 (ucast b) OR push_bit 16 (ucast c) OR push_bit 24 (ucast d)"

lemma four_bytes_bit:
  "bit (four_bytes a b c d) n \<longleftrightarrow> n < 8 \<and> bit a n \<or> 8 \<le> n \<and> n < 16 \<and> bit b (n - 8) \<or> 16 \<le> n \<and> n < 24 \<and> bit c (n - 16) \<or> 24 \<le> n \<and> n < 32 \<and> bit d (n - 24)"
  unfolding four_bytes_def by (auto simp: bit_simps dest: bit_imp_le_length)

lemma name_of_four_bytes: "GetFourccName (four_bytes a b c d) = [a, b, c, d]"
  unfolding GetFourccName_def by (auto intro!: bit_word_eqI simp: bit_ucast_iff low_byte bit_drop_bit_eq four_bytes_bit)

lemma four_bytes_of_name:
  assumes "GetFourccName f = [a, b, c, d]"
  shows "four_bytes a b c d = f"
proof (rule bit_word_eqI)
  have byte: "bit a k \<longleftrightarrow> k < 8 \<and> bit f k" "bit b k \<longleftrightarrow> k < 8 \<and> bit f (8 + k)"
      "bit c k \<longleftrightarrow> k < 8 \<and> bit f (16 + k)" "bit d k \<longleftrightarrow> k < 8 \<and> bit f (24 + k)" for k
    using assms unfolding GetFourccName_def by (auto simp: bit_ucast_iff low_byte bit_drop_bit_eq)
  fix n assume "n < LENGTH(32)"
  then consider "n < 8" | "8 \<le> n" "n < 16" | "16 \<le> n" "n < 24" | "24 \<le> n" "n < 32" by force
  then show "bit (four_bytes a b c d) n = bit f n"
    by cases (auto simp: four_bytes_bit byte)
qed

text \<open>The enumerators with the characters of their definitions.\<close>

definition FourCC :: "u32 list" where
  "FourCC = map (\<lambda>s. case s of [a, b, c, d] \<Rightarrow> CRICKET_FOURCC (of_char a) (of_char b) (of_char c) (of_char d) | _ \<Rightarrow> 0)
     [''I420'', ''I422'', ''I444'', ''I411'', ''I400'', ''NV21'', ''NV12'', ''YUY2'', ''UYVY'', ''M420'', ''ARGB'', ''BGRA'', ''ABGR'', ''24BG'', ''raw '', ''RGBA'', ''RGBP'', ''RGBO'',
      ''R444'', ''RGGB'', ''BGGR'', ''GRBG'', ''GBRG'', ''MJPG'', ''YV12'', ''YV16'', ''YV24'', ''YU12'', ''J420'', ''J400'', ''IYUV'', ''YU16'', ''YU24'', ''YUYV'', ''yuvs'', ''HDYC'', ''2vuy'',
      ''JPEG'', ''dmb1'', ''BA81'', ''RGB3'', ''BGR3'', [CHR 0x00, CHR 0x00, CHR 0x00, CHR 0x20], [CHR 0x00, CHR 0x00, CHR 0x00, CHR 0x18], ''H264'']"

text \<open>
  The name of a code made of four ASCII characters is these characters, and a code whose name is ASCII is the code of its name; so different names have different codes, and none of
  the codes is the wildcard.
\<close>

theorem fourcc_names:
  assumes "a < 128" "b < 128" "c < 128" "d < 128"
  shows "(GetFourccName f = [a, b, c, d] \<longleftrightarrow> f = CRICKET_FOURCC a b c d) \<and> CRICKET_FOURCC a b c d \<noteq> 0xFFFFFFFF \<and> distinct FourCC"
proof (intro conjI)
  have code: "CRICKET_FOURCC a b c d = four_bytes a b c d"
    by (simp only: CRICKET_FOURCC_def four_bytes_def ascii_scast [OF assms(1)] ascii_scast [OF assms(2)] ascii_scast [OF assms(3)] ascii_scast [OF assms(4)])
  show "GetFourccName f = [a, b, c, d] \<longleftrightarrow> f = CRICKET_FOURCC a b c d"
    unfolding code using name_of_four_bytes four_bytes_of_name by blast
  have "GetFourccName 0xFFFFFFFF = [0xFF, 0xFF, 0xFF, 0xFF]" by (simp add: GetFourccName_def)
  with assms(1) show "CRICKET_FOURCC a b c d \<noteq> 0xFFFFFFFF" using name_of_four_bytes [of a b c d] unfolding code by auto
  show "distinct FourCC" by code_simp
qed

theorem fourcc_names_witness: "GetFourccName (CRICKET_FOURCC 73 52 50 48) = [73, 52, 50, 48]"
  using fourcc_names [of 73 52 50 48 "CRICKET_FOURCC 73 52 50 48"] by simp

end
