(* ===== verification/Spec2Isabelle.thy ===== *)
theory Spec2Isabelle
  imports Json Signaling_Server Rtc_Client Signal_Race Rtc_Transfer File_Transfer Transfer_Progress Transfer_Faults
    Transfer_Views Transfer_App App_Behaviour Pairing
    Sequence_Numbers Byte_IO Byte_Order Units Used_Ids Swap_Queue Buffer Byte_Buffer Event_Processor Array_View Inline_Vector
    Safe_Numerics Sliding_Windows Statistics Ref_Counting Copy_On_Write
    Audio_Views Session_Description Video_Headers Ntp_Time Stream_Collection
    Event_Log_Fields Codec_Factories Rtp_Extensions Rtc_Error Media_Settings
begin

text \<open>
  Verification of a peer-to-peer file transfer application and of the part of the WebRTC headers it ships with that is
  code rather than declarations.

  \<^bold>\<open>The program.\<close> Under \<^verbatim>\<open>src/src/s2-prj3-file-trans/\<close> there are a signaling server
  (\<^verbatim>\<open>signaling-server.js\<close>), through which two devices find each other, and a macOS application. The
  application is a client object (\<^verbatim>\<open>RTCClient.m\<close>), which negotiates a session over the server and then
  sends and receives files over a data channel, two panes (\<^verbatim>\<open>HXSendViewController.m\<close>,
  \<^verbatim>\<open>HXReceiveViewController.m\<close>) and a container (\<^verbatim>\<open>HXAirDropStyleTransferViewController.m\<close>) that connects
  panes and client. It links against WebRTC, whose headers are under \<^verbatim>\<open>src/include/webrtc/\<close>; most of them declare
  interfaces of a prebuilt framework, and some hold complete components.

  \<^bold>\<open>Theories of the application.\<close>
  \<^item> \<open>Prelude\<close>, \<open>Json\<close>: machine integers, results with errors, the contract \<open>safe_system\<close> of a state machine that keeps an
    invariant, JSON values as the server and the client read them.
  \<^item> \<open>Signaling_Server\<close>: the server's state (sockets, the ordered map of devices, timers, everything written) and its handlers, one
    step each; \<open>server_step\<close> is the event loop. Shown: pairing is symmetric and exclusive, messages are relayed
    only within a pair, the outcome of a pair request on every branch, closing ends a pair, device lists are exact, and a
    late timer can announce a partner that has left.
  \<^item> \<open>Rtc_Client\<close>, \<open>Rtc_Transfer\<close>: the client object. Every method and callback is one function on its state, except the
    sending loop, which runs on its own queue and is a program counter advanced by \<open>loop_step\<close>, one read or write of a shared
    property per step, so that other callbacks interleave with it everywhere. Blocks for the main queue wait in a list. Shown:
    which frames crash the client, the outcome of accepting and ending transfers.
  \<^item> \<open>Signal_Race\<close>: the two threads that share the queue of early candidates, the WebSocket's handler and the completion handlers of the
    peer connection, as two program counters on the client's state. Shown: no candidate is given too early or twice; at most one
    is lost, by the check-then-act race of the source, and only by it; a run that loses one; run without interruption, the steps are
    \<open>on_candidate\<close> and \<open>complete\<close>. The other theories use these two as single steps.
  \<^item> \<open>File_Transfer\<close>, \<open>Transfer_Progress\<close>, \<open>Transfer_Faults\<close>: two clients connected by an ordered reliable channel (\<open>xstep\<close>). Shown: at
    every moment the received file is a prefix of the sent one, and when the receiver reports success it is the whole
    file; from an accepted offer a completing run exists; the loop ends whatever runs beside it; and the cases in which an
    end is reported wrongly, a lost update of the sent count among them.
  \<^item> \<open>Transfer_Views\<close>, \<open>Transfer_App\<close>, \<open>App_Behaviour\<close>: the panes, the container over the client, and the events of the main thread
    interleaved with what the client does on its own threads (\<open>app_step\<close>). Shown: the controls agree with the client in
    every reachable state, when the chosen device survives a refresh of the list, what a click sends, that a pending file is
    offered once, and three courses of events that go wrong.
  \<^item> \<open>Pairing\<close>: the server and two clients together, from the request to both session descriptions being in place.

  \<^bold>\<open>Theories of the headers.\<close> In all of them the model is a debug build: a failed check, a signed overflow, an access
  outside an array and the like are values of \<open>abort\<close>, and theorems say when they occur.
  \<^item> \<open>Sequence_Numbers\<close> (\<^verbatim>\<open>mod_ops.h\<close>, \<^verbatim>\<open>sequence_number_util.h\<close>, \<^verbatim>\<open>sequence_number_unwrapper.h\<close>, \<^verbatim>\<open>module_common_types_public.h\<close>):
    modular arithmetic, the order of wrapping numbers, unwrapping.
  \<^item> \<open>Byte_IO\<close>, \<open>Byte_Order\<close>, \<open>Byte_Buffer\<close> (\<^verbatim>\<open>byte_io.h\<close>, \<^verbatim>\<open>byte_order.h\<close>, \<^verbatim>\<open>byte_buffer.h\<close>): readers and writers of
    integers and the buffer writer, with round trips on hosts of either byte order.
  \<^item> \<open>Buffer\<close>, \<open>Array_View\<close>, \<open>Inline_Vector\<close> (\<^verbatim>\<open>buffer.h\<close>, \<^verbatim>\<open>array_view.h\<close>, \<^verbatim>\<open>bounded_inline_vector.h\<close> and its implementation):
    containers refined to lists, the life cycle of elements, zeroing of released memory. The contract \<open>append_sink\<close>,
    which the byte buffer writer relies on, is interpreted on the buffer.
  \<^item> \<open>Ref_Counting\<close> (\<^verbatim>\<open>ref_counter.h\<close>, \<^verbatim>\<open>ref_counted_object.h\<close>, \<^verbatim>\<open>scoped_refptr.h\<close>) and \<open>Copy_On_Write\<close> (\<^verbatim>\<open>copy_on_write_buffer.h\<close>): a heap of
    counted objects with the pointers of a program, and byte buffers that share an object until one of them is written. Shown: no
    deleted object is used and counts are exact; sharing is not observable, each buffer refines a list of its own.
  \<^item> \<open>Units\<close> (\<^verbatim>\<open>unit_base.h\<close>, \<^verbatim>\<open>time_delta.h\<close>, \<^verbatim>\<open>timestamp.h\<close>, \<^verbatim>\<open>data_rate.h\<close>, \<^verbatim>\<open>data_size.h\<close>, \<^verbatim>\<open>frequency.h\<close>,
    \<^verbatim>\<open>divide_round.h\<close>): saturating quantities with infinities.
  \<^item> \<open>Used_Ids\<close> (\<^verbatim>\<open>used_ids.h\<close>): allocation of payload types and extension ids, with the search loops as terminating functions. Shown: which id each call gives, and that it
    fails only when none is left.
  \<^item> \<open>Swap_Queue\<close> (\<^verbatim>\<open>swap_queue.h\<close>): the ring buffer as sequential operations and as two threads with atomic steps.
  \<^item> \<open>Event_Processor\<close> (\<^verbatim>\<open>rtc_event_processor.h\<close>, \<^verbatim>\<open>rtc_event_processor_order.h\<close>): the ranks of event types, adding lists and handling
    their elements. The merge itself, \<^verbatim>\<open>ProcessEventsInOrder\<close>, is not in the headers and not modelled.
  \<^item> \<open>Safe_Numerics\<close> (\<^verbatim>\<open>safe_compare.h\<close>, \<^verbatim>\<open>safe_conversions.h\<close>, \<^verbatim>\<open>safe_minmax.h\<close>): comparison, conversion and clamping across integer
    types, with the language's conversions written out. Shown: exact results, and that the types chosen for them are the narrowest.
  \<^item> \<open>Sliding_Windows\<close> (\<^verbatim>\<open>moving_max_counter.h\<close>, \<^verbatim>\<open>windowed_min_filter.h\<close>, \<^verbatim>\<open>percentile_filter.h\<close>,
    \<^verbatim>\<open>moving_percentile_filter.h\<close>) and \<open>Statistics\<close> (\<^verbatim>\<open>running_statistics.h\<close>, \<^verbatim>\<open>rolling_accumulator.h\<close>): filters over the last samples, equal to
    their definitions over the plain window. The contract \<open>window_filter\<close> relates a filter's state to the history it was fed; it
    is interpreted on the minimum, the percentile and the rolling accumulator. Means and variances are exact rationals, with a
    value for results that are not finite.
  \<^item> \<open>Audio_Views\<close> (\<^verbatim>\<open>audio_view.h\<close>, \<^verbatim>\<open>audio_util.h\<close>): views of audio samples over one memory, interleaving and separating of channels,
    downmixing and sample conversion. Shown: both directions place every sample correctly and are inverse, averages
    do not overflow, also in place, conversions of 16-bit samples are exact.
  \<^item> \<open>Session_Description\<close> (\<^verbatim>\<open>stream_params.h\<close>, \<^verbatim>\<open>session_description.h\<close>): streams and selectors, media sections with their codecs and streams, and the
    setting for mixed header extensions. Shown: removal of streams agrees with lookup, the codecs are a table by payload type, and which of
    the two levels of the extension setting wins.
  \<^item> \<open>Video_Headers\<close> (\<^verbatim>\<open>vp9_globals.h\<close>, \<^verbatim>\<open>vp8_globals.h\<close>, \<^verbatim>\<open>h264_globals.h\<close>, \<^verbatim>\<open>rtp_cvo.h\<close>): temporal structures and frame headers. Shown: every structure
    can be decoded with its upper layers dropped, and comparisons of headers look at exactly the valid fields.
  \<^item> \<open>Ntp_Time\<close> (\<^verbatim>\<open>ntp_time.h\<close>): NTP times and their conversions, in double arithmetic with its rounding. Shown: milliseconds survive the
    conversion to fixed point and back, clamping is where it should be, and the range check for doubles admits a value it should not.
  \<^item> \<open>Stream_Collection\<close> (\<^verbatim>\<open>stream_collection.h\<close>): the collection of streams is a map by id.
  \<^item> \<open>Event_Log_Fields\<close> (\<^verbatim>\<open>rtc_event_field_extraction.h\<close>, \<^verbatim>\<open>rtc_event_field_encoding.h\<close>, \<^verbatim>\<open>rtc_event_field_encoding_parser.h\<close>, \<^verbatim>\<open>rtc_event_definition.h\<close>, \<^verbatim>\<open>rtc_event_log_parse_status.h\<close>, and the
    headers of three events): batches of logged events, encoded field by field and parsed again. Shown: the round trip of each of the three events, that only the first batch
    of a log can be parsed into a vector, and what a failed parse leaves behind.
  \<^item> \<open>Codec_Factories\<close> (\<^verbatim>\<open>video_encoder_factory_template.h\<close>, \<^verbatim>\<open>video_decoder_factory_template.h\<close>, \<^verbatim>\<open>audio_encoder_factory_template.h\<close>, \<^verbatim>\<open>audio_decoder_factory_template.h\<close>): factories made
    of a list of implementations. The contract \<open>ordered_choice\<close>, the first implementation that accepts answers, is interpreted on all seven searches of the four headers. Shown: who answers, what is
    announced, and that creating and querying disagree on formats that match only fuzzily.
  \<^item> \<open>Rtp_Extensions\<close> (\<^verbatim>\<open>rtp_header_extensions.h\<close>, \<^verbatim>\<open>rtp_header_extension_map.h\<close>, \<^verbatim>\<open>rtp_packet.h\<close>): send times, the extension classes with their sizes, and reading and writing an extension of a packet. Shown:
    the exact loss of the time conversions, over \<open>Units\<close> and \<open>Ntp_Time\<close>, and that setting an extension is read back and changes no other.
  \<^item> \<open>Rtc_Error\<close> (\<^verbatim>\<open>rtc_error.h\<close>, \<^verbatim>\<open>string_builder.h\<close>): errors and results. Shown: in every program a result is an error or a value, so no empty value is read; this uses \<open>safe_system\<close> again.
  \<^item> \<open>Media_Settings\<close> (\<^verbatim>\<open>media_channel.h\<close>, \<^verbatim>\<open>network.h\<close>, \<^verbatim>\<open>video_common.h\<close>): options of a video channel, the setters of a network interface with their signals, format codes. Shown: changes of options
    combine but leave out the content hint, listeners of a network are always up to date and never called in vain, codes and names of formats are inverse.

  \<^bold>\<open>Bounds and termination.\<close> No definition uses fuel. Loops of the code whose recursion is not structural are functions with a measure: the number
  of free ids, the remaining digits of a number, the remaining units of a size. The sending loop is a step function;
  that it ends is a theorem, for every interference with the client, in the number of bytes left to read and added meanwhile: at most 1200 steps per byte, since
  a chunk has at least one byte and takes at most 200 waits of four steps, 120 send attempts of three, and the steps around them.

  \<^bold>\<open>Parameters.\<close> What is not in the sources is an argument: the outcomes of the peer connection and of the file system, the integer a string stands for and
  what the framework's initialisers do with a value that is not the string they declare (\<open>framework\<close>), whether the table view keeps a row on reload (anything is allowed), the index of a percentile (a product of floats, assumed in range), the copy constructor and
  \<^verbatim>\<open>UnshareAndEnsureCapacity\<close> of copy-on-write buffers (assumed to do what their comments say), the comparison of SSRC group semantics, adding a secondary SSRC, the names of media protocols and the feedback parameters of codecs, the id and the tracks of a media stream, the byte order of the host, the encoder and
  the parser of the bytes of an event log, the implementations behind codec factories and the fuzzy matching of formats, the finding and allocating of header extensions in a packet and their parsers and writers, the printing of numbers and of error names.

  \<^bold>\<open>Not modelled.\<close> The merging of event lists, which is not in the headers. The allocation limit of \<open>Buffer\<close> counts elements, and \<open>Inline_Vector\<close> has one flag
  for the three type traits that select a trivial operation (for the types in use they agree). Layout, fonts and colours of the application; the drop zone, which is never created. Rounding of floating-point values except in \<open>Ntp_Time\<close>. Headers that only declare classes of the
  framework, test fakes, generated data such as \<^verbatim>\<open>ssl_roots.h\<close>, logging and tracing macros, third-party code, and the vendored WebSocket package of the server, of which the model uses the documented
  ready states and ordering.
\<close>

end
